(* ===== verification/Prelude.thy ===== *)
theory Prelude
  imports Main "HOL-Library.Char_ord" "HOL-Library.List_Lexorder" "HOL-Library.AList"
begin

text \<open>
  Shared vocabulary of the development: state-passing computations that may fail, Go's
  time values, association lists seen through \<open>map_of\<close>, and the generic list facts the
  component theories use.

  A fallible operation of the Go code, which returns \<open>(T, error)\<close> and may change state, is a
  function \<open>'s \<Rightarrow> ('e + 'a) \<times> 's\<close>: \<open>Inl e\<close> is the error return, \<open>Inr x\<close> the normal one.
\<close>

named_theorems store_laws "what the store interface promises"
named_theorems frame "operations that leave a view of the state unchanged"

type_synonym ('s, 'e, 'a) op = "'s \<Rightarrow> ('e + 'a) \<times> 's"

subsection \<open>Time\<close>

text \<open>
  \<open>time.Time\<close> is the instant in nanoseconds since the Unix epoch, an unbounded \<open>int\<close>; the zero
  value of the type is 1 January of year 1. \<open>time.Duration\<close> is an \<open>int64\<close> count of
  nanoseconds: \<open>Time.Sub\<close> saturates at its bounds, and \<open>Duration\<close> arithmetic wraps.
\<close>

type_synonym time = int
type_synonym duration = int

definition zero_time :: time where
  "zero_time = - 62135596800 * 10 ^ 9"

definition is_zero_time :: "time \<Rightarrow> bool" where
  "is_zero_time t \<longleftrightarrow> t = zero_time"

definition max_int64 :: int where
  "max_int64 = 2 ^ 63 - 1"

definition min_int64 :: int where
  "min_int64 = - (2 ^ 63)"

definition time_sub :: "time \<Rightarrow> time \<Rightarrow> duration" where
  "time_sub a b = max min_int64 (min max_int64 (a - b))"

definition wrap_int64 :: "int \<Rightarrow> int" where
  "wrap_int64 x = (x + 2 ^ 63) mod 2 ^ 64 - 2 ^ 63"

definition second :: duration where
  "second = 10 ^ 9"

definition minute :: duration where
  "minute = 60 * second"

definition hour :: duration where
  "hour = 60 * minute"

lemmas duration_defs = second_def minute_def hour_def

lemma time_sub_exact:
  "min_int64 \<le> a - b \<Longrightarrow> a - b \<le> max_int64 \<Longrightarrow> time_sub a b = a - b"
  by (simp add: time_sub_def)

lemma time_sub_less_iff:
  "min_int64 < d \<Longrightarrow> d \<le> max_int64 \<Longrightarrow> time_sub a b < d \<longleftrightarrow> a - b < d"
  by (auto simp: time_sub_def)

lemma time_sub_greater_iff:
  "min_int64 \<le> d \<Longrightarrow> d < max_int64 \<Longrightarrow> d < time_sub a b \<longleftrightarrow> d < a - b"
  by (auto simp: time_sub_def)

lemma wrap_int64_id: "min_int64 \<le> x \<Longrightarrow> x \<le> max_int64 \<Longrightarrow> wrap_int64 x = x"
  by (simp add: wrap_int64_def min_int64_def max_int64_def)

lemma wrap_int64_range: "min_int64 \<le> wrap_int64 x \<and> wrap_int64 x \<le> max_int64"
proof -
  have "0 \<le> (x + 9223372036854775808) mod 18446744073709551616"
    "(x + 9223372036854775808) mod 18446744073709551616 < (18446744073709551616::int)"
    by (simp_all add: pos_mod_bound)
  then show ?thesis
    by (simp add: wrap_int64_def min_int64_def max_int64_def)
qed

subsection \<open>Association lists\<close>

lemma map_of_alist_update: "map_of (AList.update k v xs) = (map_of xs)(k \<mapsto> v)"
  by (simp add: AList.update_conv')

lemma map_of_alist_delete: "map_of (AList.delete k xs) = (map_of xs)(k := None)"
  by (simp add: AList.delete_conv')

lemma map_of_dom_fst: "fst ` set xs = dom (map_of xs)"
  by (simp add: dom_map_of_conv_image_fst)

subsection \<open>Lists\<close>

lemma sorted_distinct_strict:
  fixes xs :: "'a::linorder list"
  shows "sorted xs \<Longrightarrow> distinct xs \<Longrightarrow> sorted_wrt (<) xs"
  by (simp add: strict_sorted_iff)

lemma find_Some_set: "find P xs = Some x \<Longrightarrow> x \<in> set xs \<and> P x"
  by (auto simp: find_Some_iff)

lemma find_None_set: "find P xs = None \<longleftrightarrow> (\<forall>x\<in>set xs. \<not> P x)"
  by (auto simp: find_None_iff)

lemma map_filter_simps' [simp]:
  "List.map_filter f [] = []"
  "List.map_filter f (x # xs) = (case f x of None \<Rightarrow> List.map_filter f xs | Some y \<Rightarrow> y # List.map_filter f xs)"
  by (simp_all add: List.map_filter_def split: option.split)

lemma in_set_map_filter: "y \<in> set (List.map_filter f xs) \<longleftrightarrow> (\<exists>x\<in>set xs. f x = Some y)"
  by (induction xs) (auto split: option.splits)

text \<open>Keeping the first of every run of equal elements of a sorted list: a set, listed in order.\<close>

definition sorted_set_list :: "'a::linorder list \<Rightarrow> 'a list" where
  "sorted_set_list xs = sort (remdups xs)"

lemma sorted_set_list [simp]:
  "set (sorted_set_list xs) = set xs"
  "sorted (sorted_set_list xs)"
  "distinct (sorted_set_list xs)"
  by (simp_all add: sorted_set_list_def)

lemma sorted_set_list_unique:
  "sorted ys \<Longrightarrow> distinct ys \<Longrightarrow> set ys = set xs \<Longrightarrow> sorted_set_list xs = ys"
  by (rule sorted_distinct_set_unique) simp_all

end
