(* ===== verification/Go_Strings.thy ===== *)
theory Go_Strings
  imports Prelude "HOL-Library.Sublist"
begin

text \<open>
  The parts of Go's \<open>strings\<close>, \<open>strconv\<close>, \<open>encoding/hex\<close>, \<open>path\<close> and \<open>fmt\<close> packages the code
  uses, on byte strings (\<open>char list\<close>): joining and cutting at a separator, decimal and
  hexadecimal text, and the facts that make them inverse to each other.
\<close>

subsection \<open>Separators\<close>

fun go_join :: "string \<Rightarrow> string list \<Rightarrow> string" where
  "go_join sep [] = []"
| "go_join sep [x] = x"
| "go_join sep (x # y # xs) = x @ sep @ go_join sep (y # xs)"

text \<open>\<open>strings.Cut\<close> at a one-byte separator: the text before and after its first occurrence.\<close>

fun go_cut :: "char \<Rightarrow> string \<Rightarrow> (string \<times> string) option" where
  "go_cut c [] = None"
| "go_cut c (x # xs) =
     (if x = c then Some ([], xs) else map_option (\<lambda>(a, b). (x # a, b)) (go_cut c xs))"

text \<open>\<open>strings.CutPrefix\<close>.\<close>

fun go_cut_prefix :: "string \<Rightarrow> string \<Rightarrow> string option" where
  "go_cut_prefix [] s = Some s"
| "go_cut_prefix (p # ps) [] = None"
| "go_cut_prefix (p # ps) (x # xs) = (if p = x then go_cut_prefix ps xs else None)"

text \<open>\<open>s[strings.LastIndex(s, c)+1:]\<close>: the text after the last separator, all of it if there is none.\<close>

definition go_after_last :: "char \<Rightarrow> string \<Rightarrow> string" where
  "go_after_last c s = rev (takeWhile (\<lambda>x. x \<noteq> c) (rev s))"

text \<open>The text before the first separator, all of it if there is none.\<close>

definition go_before_first :: "char \<Rightarrow> string \<Rightarrow> string" where
  "go_before_first c s = takeWhile (\<lambda>x. x \<noteq> c) s"

text \<open>
  \<open>path.Dir\<close> of a clean, rooted-nowhere key with at least one separator: the text before the
  last separator. (\<open>path.Dir\<close> also cleans the result; the keys it is applied to are built by
  \<open>Key\<close> and contain neither empty nor dot segments.)
\<close>

definition go_dir :: "string \<Rightarrow> string" where
  "go_dir s = (let t = rev (dropWhile (\<lambda>x. x \<noteq> CHR ''/'') (rev s))
               in if t = [] then ''.'' else butlast t)"

lemma go_cut_append: "c \<notin> set a \<Longrightarrow> go_cut c (a @ c # b) = Some (a, b)"
  by (induction a) auto

lemma go_cut_None: "go_cut c s = None \<longleftrightarrow> c \<notin> set s"
  by (induction s) auto

lemma go_cut_Some: "go_cut c s = Some (a, b) \<Longrightarrow> s = a @ c # b \<and> c \<notin> set a"
  by (induction s arbitrary: a) (auto split: if_splits)

lemma go_cut_prefix_append [simp]: "go_cut_prefix p (p @ s) = Some s"
  by (induction p) auto

lemma go_cut_prefix_Some: "go_cut_prefix p s = Some r \<longleftrightarrow> s = p @ r"
  by (induction p s rule: go_cut_prefix.induct) auto

lemma go_after_last_append: "c \<notin> set b \<Longrightarrow> go_after_last c (a @ c # b) = b"
proof -
  assume "c \<notin> set b"
  then have "\<And>x. x \<in> set (rev b) \<Longrightarrow> x \<noteq> c" by auto
  then have "takeWhile (\<lambda>x. x \<noteq> c) (rev b @ c # rev a) = rev b"
    by (subst takeWhile_append2) auto
  then show ?thesis by (simp add: go_after_last_def)
qed

lemma takeWhile_all: "c \<notin> set s \<Longrightarrow> takeWhile (\<lambda>x. x \<noteq> c) s = s"
  by (induction s) auto

lemma go_after_last_none: "c \<notin> set s \<Longrightarrow> go_after_last c s = s"
  by (simp add: go_after_last_def takeWhile_all)

lemma go_after_last_notin: "c \<notin> set (go_after_last c s)"
  by (auto simp: go_after_last_def dest: set_takeWhileD)

lemma go_before_first_append: "c \<notin> set a \<Longrightarrow> go_before_first c (a @ c # b) = a"
  unfolding go_before_first_def by (subst takeWhile_append2) auto

lemma go_before_first_none: "c \<notin> set a \<Longrightarrow> go_before_first c a = a"
  by (simp add: go_before_first_def takeWhile_all)

lemma go_dir_append: "CHR ''/'' \<notin> set b \<Longrightarrow> go_dir (a @ CHR ''/'' # b) = a"
proof -
  assume "CHR ''/'' \<notin> set b"
  then have "\<And>x. x \<in> set (rev b) \<Longrightarrow> x \<noteq> CHR ''/''" by auto
  then have "dropWhile (\<lambda>x. x \<noteq> CHR ''/'') (rev b @ CHR ''/'' # rev a) = CHR ''/'' # rev a"
    by (subst dropWhile_append2) auto
  then show ?thesis by (simp add: go_dir_def)
qed

lemma go_join_Cons:
  "ys \<noteq> [] \<Longrightarrow> go_join sep (x # ys) = x @ sep @ go_join sep ys"
  by (cases ys) auto

lemma go_join_inject:
  assumes "xs \<noteq> []" "ys \<noteq> []"
    and "\<forall>x\<in>set xs. c \<notin> set x" "\<forall>y\<in>set ys. c \<notin> set y"
    and "go_join [c] xs = go_join [c] ys"
  shows "xs = ys"
  using assms
proof (induction xs arbitrary: ys)
  case Nil
  then show ?case by simp
next
  case (Cons x xs)
  obtain y ys' where ys: "ys = y # ys'" using Cons.prems(2) by (cases ys) auto
  show ?case
  proof (cases "xs = [] \<or> ys' = []")
    case True
    have "c \<in> set y" if "xs \<noteq> []" "ys' = []"
      using Cons.prems(5) that ys by (auto simp: go_join_Cons)
    moreover have "c \<in> set x" if "xs = []" "ys' \<noteq> []"
      using Cons.prems(5) that ys by (auto simp: go_join_Cons)
    ultimately have "xs = []" "ys' = []"
      using True Cons.prems(3,4) ys by auto
    with Cons.prems(5) ys show ?thesis by simp
  next
    case False
    then have "go_cut c (x @ c # go_join [c] xs) = go_cut c (y @ c # go_join [c] ys')"
      using Cons.prems(5) ys by (simp add: go_join_Cons)
    then have "x = y" and rest: "go_join [c] xs = go_join [c] ys'"
      using Cons.prems(3,4) ys by (auto simp: go_cut_append)
    have "xs = ys'"
      by (rule Cons.IH) (use Cons.prems False ys rest in auto)
    with \<open>x = y\<close> ys show ?thesis by simp
  qed
qed

subsection \<open>Decimal numbers\<close>

definition digit_char :: "nat \<Rightarrow> char" where
  "digit_char d = char_of (48 + d)"

definition digit_val :: "char \<Rightarrow> nat option" where
  "digit_val c = (let n = of_char c :: nat in if 48 \<le> n \<and> n \<le> 57 then Some (n - 48) else None)"

fun dec_digits :: "nat \<Rightarrow> string" where
  "dec_digits n = (if n < 10 then [digit_char n] else dec_digits (n div 10) @ [digit_char (n mod 10)])"

declare dec_digits.simps [simp del]

text \<open>Reading a run of digits, most significant first, on top of what was read before.\<close>

fun dec_val :: "nat \<Rightarrow> string \<Rightarrow> nat option" where
  "dec_val acc [] = Some acc"
| "dec_val acc (c # cs) = (case digit_val c of None \<Rightarrow> None | Some d \<Rightarrow> dec_val (acc * 10 + d) cs)"

text \<open>\<open>strconv.ParseInt(s, 10, 64)\<close>: an optional sign, at least one digit, within \<open>int64\<close>.\<close>

definition parse_int64 :: "string \<Rightarrow> int option" where
  "parse_int64 s =
     (let (neg, ds) = (case s of
            c # cs \<Rightarrow> if c = CHR ''-'' then (True, cs) else if c = CHR ''+'' then (False, cs) else (False, s)
          | [] \<Rightarrow> (False, []))
      in if ds = [] then None
         else case dec_val 0 ds of
                None \<Rightarrow> None
              | Some n \<Rightarrow> let v = (if neg then - int n else int n)
                          in if min_int64 \<le> v \<and> v \<le> max_int64 then Some v else None)"

text \<open>\<open>fmt.Sprintf("%0*d", w, v)\<close>: zero-padded to width \<open>w\<close>, the sign counted in.\<close>

definition pad_zero :: "nat \<Rightarrow> string \<Rightarrow> string" where
  "pad_zero w s = replicate (w - length s) (CHR ''0'') @ s"

definition format_int_width :: "nat \<Rightarrow> int \<Rightarrow> string" where
  "format_int_width w v =
     (if v < 0 then CHR ''-'' # pad_zero (w - 1) (dec_digits (nat (- v)))
      else pad_zero w (dec_digits (nat v)))"

lemma digit_val_char: "d < 10 \<Longrightarrow> digit_val (digit_char d) = Some d"
  by (simp add: digit_val_def digit_char_def)

lemma digit_val_range: "digit_val c = Some d \<Longrightarrow> d < 10"
  by (auto simp: digit_val_def Let_def split: if_splits)

lemma digit_val_Some_iff: "digit_val c = Some d \<longleftrightarrow> d < 10 \<and> c = digit_char d"
proof
  assume "digit_val c = Some d"
  then have "48 \<le> (of_char c :: nat)" "(of_char c :: nat) \<le> 57" "d = of_char c - 48"
    by (auto simp: digit_val_def Let_def split: if_splits)
  then show "d < 10 \<and> c = digit_char d"
    by (simp add: digit_char_def)
qed (auto simp: digit_val_char)

lemma digit_char_not_sign:
  "d < 10 \<Longrightarrow> digit_char d \<noteq> CHR ''-'' \<and> digit_char d \<noteq> CHR ''+'' \<and> digit_char d \<noteq> CHR ''/''
    \<and> digit_char d \<noteq> CHR '' ''"
  unfolding digit_char_def by (auto dest!: arg_cong [where f = "of_char :: char \<Rightarrow> nat"])

lemma dec_val_append:
  "dec_val acc (xs @ ys) = (case dec_val acc xs of None \<Rightarrow> None | Some a \<Rightarrow> dec_val a ys)"
  by (induction xs arbitrary: acc) (auto split: option.splits)

lemma dec_val_zeros: "dec_val 0 (replicate k (CHR ''0'') @ s) = dec_val 0 s"
proof (induction k)
  case (Suc k)
  have "digit_val (CHR ''0'') = Some 0" by (simp add: digit_val_def)
  with Suc show ?case by simp
qed simp

lemma dec_digits_nonempty: "dec_digits n \<noteq> []"
  by (subst dec_digits.simps) simp

lemma dec_val_digits: "dec_val 0 (dec_digits n) = Some n"
proof (induction n rule: dec_digits.induct)
  case (1 n)
  show ?case
  proof (cases "n < 10")
    case True
    then show ?thesis by (subst dec_digits.simps) (simp add: digit_val_char)
  next
    case False
    with 1 have "dec_val 0 (dec_digits (n div 10)) = Some (n div 10)" by simp
    moreover have "digit_val (digit_char (n mod 10)) = Some (n mod 10)"
      by (simp add: digit_val_char)
    ultimately show ?thesis
      using False by (subst dec_digits.simps) (simp add: dec_val_append)
  qed
qed

lemma dec_digits_chars: "c \<in> set (dec_digits n) \<Longrightarrow> \<exists>d<10. c = digit_char d"
proof (induction n rule: dec_digits.induct)
  case (1 n)
  show ?case
  proof (cases "n < 10")
    case True
    with 1(2) have "c = digit_char n" by (simp add: dec_digits.simps [of n])
    with True show ?thesis by blast
  next
    case False
    with 1(2) have "c \<in> set (dec_digits (n div 10)) \<or> c = digit_char (n mod 10)"
      by (auto simp: dec_digits.simps [of n])
    then show ?thesis
    proof
      assume "c = digit_char (n mod 10)"
      moreover have "n mod 10 < 10" by simp
      ultimately show ?thesis by blast
    qed (use 1(1) False in blast)
  qed
qed

lemma length_dec_digits: "n < 10 ^ w \<Longrightarrow> 0 < w \<Longrightarrow> length (dec_digits n) \<le> w"
proof (induction n arbitrary: w rule: dec_digits.induct)
  case (1 n)
  show ?case
  proof (cases "n < 10")
    case True
    with 1 show ?thesis by (subst dec_digits.simps) simp
  next
    case False
    have "w \<noteq> Suc 0" using 1(2) False by auto
    with \<open>0 < w\<close> obtain w' where w: "w = Suc w'" "0 < w'"
      by (cases w) auto
    from 1(2) w(1) have "n < 10 ^ w' * 10" by simp
    then have "n div 10 < 10 ^ w'" by (rule less_mult_imp_div_less)
    with 1(1) False w have "length (dec_digits (n div 10)) \<le> w'" by simp
    with False w show ?thesis by (subst dec_digits.simps) simp
  qed
qed

text \<open>Fixed-width decimal text: it reads back, and its byte order is the numeric order.\<close>

lemma digit_char_zero: "digit_char 0 = CHR ''0''"
  by (simp add: digit_char_def char_of_eq_iff)

lemma length_pad_zero: "length s \<le> w \<Longrightarrow> length (pad_zero w s) = w"
  by (simp add: pad_zero_def)

lemma set_pad_zero: "c \<in> set (pad_zero w s) \<Longrightarrow> c = CHR ''0'' \<or> c \<in> set s"
  by (auto simp: pad_zero_def)

lemma pad_zero_digits:
  assumes "c \<in> set (pad_zero w (dec_digits n))" shows "\<exists>d<10. c = digit_char d"
  using set_pad_zero [OF assms]
proof
  assume "c = CHR ''0''"
  then have "c = digit_char 0" by (simp add: digit_char_zero)
  then show ?thesis by (intro exI [of _ 0]) simp
qed (rule dec_digits_chars)

lemma dec_val_pad_zero: "dec_val 0 (pad_zero w (dec_digits n)) = Some n"
  by (simp add: pad_zero_def dec_val_zeros dec_val_digits)

lemma pad_zero_nonempty: "pad_zero w (dec_digits n) \<noteq> []"
  by (simp add: pad_zero_def dec_digits_nonempty)

lemma parse_int64_pad:
  assumes "int n \<le> max_int64"
  shows "parse_int64 (pad_zero w (dec_digits n)) = Some (int n)"
proof -
  obtain c cs where s: "pad_zero w (dec_digits n) = c # cs"
    using pad_zero_nonempty by (cases "pad_zero w (dec_digits n)") auto
  then obtain d where "d < 10" "c = digit_char d"
    using pad_zero_digits [of c w n] by auto
  then have "c \<noteq> CHR ''-''" "c \<noteq> CHR ''+''"
    using digit_char_not_sign by auto
  moreover have "dec_val 0 (c # cs) = Some n"
    using dec_val_pad_zero [of w n] s by simp
  ultimately show ?thesis
    using assms s by (simp add: parse_int64_def min_int64_def)
qed

lemma format_int_width_nonneg:
  "0 \<le> v \<Longrightarrow> format_int_width w v = pad_zero w (dec_digits (nat v))"
  by (simp add: format_int_width_def)

lemma digit_char_less: "a < 10 \<Longrightarrow> b < 10 \<Longrightarrow> digit_char a < digit_char b \<longleftrightarrow> a < b"
  by (simp add: digit_char_def less_char_def)

lemma dec_val_acc:
  "dec_val acc s = Some v \<Longrightarrow> acc * 10 ^ length s \<le> v \<and> v < (acc + 1) * 10 ^ length s"
proof (induction s arbitrary: acc)
  case (Cons c cs)
  then obtain d where d: "digit_val c = Some d" "dec_val (acc * 10 + d) cs = Some v"
    by (auto split: option.splits)
  have "d < 10" using d(1) by (rule digit_val_range)
  have "(acc * 10 + d) * 10 ^ length cs \<le> v" "v < (acc * 10 + d + 1) * 10 ^ length cs"
    using Cons.IH [OF d(2)] by auto
  moreover have "acc * 10 * 10 ^ length cs \<le> (acc * 10 + d) * 10 ^ length cs"
    by (rule mult_le_mono1) simp
  moreover have "(acc * 10 + d + 1) * 10 ^ length cs \<le> (acc * 10 + 10) * 10 ^ length cs"
    using \<open>d < 10\<close> by (intro mult_le_mono1) simp
  ultimately have "acc * 10 * 10 ^ length cs \<le> v" "v < (acc * 10 + 10) * 10 ^ length cs"
    by linarith+
  then show ?case by (simp add: algebra_simps)
qed simp

lemma dec_val_order:
  assumes "dec_val acc s = Some a" "dec_val acc t = Some b" "length s = length t"
  shows "s < t \<longleftrightarrow> a < b"
  using assms
proof (induction s arbitrary: t acc)
  case Nil
  then show ?case by simp
next
  case (Cons c s)
  from Cons.prems(3) obtain c' t' where t: "t = c' # t'" "length s = length t'"
    by (cases t) auto
  from Cons.prems obtain d where d: "digit_val c = Some d" "dec_val (acc * 10 + d) s = Some a"
    by (auto split: option.splits)
  from Cons.prems t obtain d' where d': "digit_val c' = Some d'" "dec_val (acc * 10 + d') t' = Some b"
    by (auto split: option.splits)
  have cd: "c = digit_char d" "d < 10" "c' = digit_char d'" "d' < 10"
    using d(1) d'(1) by (auto simp: digit_val_Some_iff)
  have below: "a < b" if "x < y" "dec_val (acc * 10 + x) u = Some a"
      "dec_val (acc * 10 + y) v = Some b" "length u = length v" for x y u v
  proof -
    have "a < (acc * 10 + x + 1) * 10 ^ length u" "(acc * 10 + y) * 10 ^ length v \<le> b"
      using dec_val_acc [OF that(2)] dec_val_acc [OF that(3)] by auto
    moreover have "(acc * 10 + x + 1) * 10 ^ length u \<le> (acc * 10 + y) * 10 ^ length v"
      using that(1) unfolding that(4) by (intro mult_le_mono1) simp
    ultimately show ?thesis by linarith
  qed
  have above: "b < a" if "d' < d"
  proof -
    have "b < (acc * 10 + d' + 1) * 10 ^ length t'" "(acc * 10 + d) * 10 ^ length s \<le> a"
      using dec_val_acc [OF d(2)] dec_val_acc [OF d'(2)] by auto
    moreover have "(acc * 10 + d' + 1) * 10 ^ length t' \<le> (acc * 10 + d) * 10 ^ length s"
      using that unfolding t(2) by (intro mult_le_mono1) simp
    ultimately show ?thesis by linarith
  qed
  show ?case
  proof (cases "d = d'")
    case True
    then show ?thesis
      using Cons.IH [OF d(2), of t'] d'(2) t cd by simp
  next
    case False
    then have "c \<noteq> c'" using d(1) d'(1) by auto
    moreover have "c < c' \<longleftrightarrow> d < d'" using cd by (simp add: digit_char_less)
    moreover have "a < b \<longleftrightarrow> d < d'"
      using below [OF _ d(2) d'(2) t(2)] above False by (meson less_asym linorder_neqE_nat)
    ultimately show ?thesis using t by simp
  qed
qed

lemma pad_zero_order:
  assumes "length (dec_digits a) \<le> w" "length (dec_digits b) \<le> w"
  shows "pad_zero w (dec_digits a) < pad_zero w (dec_digits b) \<longleftrightarrow> a < b"
  by (rule dec_val_order [OF dec_val_pad_zero dec_val_pad_zero]) (simp add: assms length_pad_zero)

end
