(* ===== verification/State_Keys.thy ===== *)
theory State_Keys
  imports Go_Strings
begin

text \<open>
  Keys of the durable store (\<open>internal/state/state.go\<close>): every segment is percent-escaped down
  to a safe alphabet, the segments are joined with a slash, and a listing turns keys back into
  the ids they were built from. The lemmas show that escaping is reversible and canonical, that
  an escaped segment can neither contain a separator nor be a dot entry, and that two different
  paths of segments never share a key.
\<close>

datatype segment_error = TruncatedEscape | BadEscape | NonCanonical

definition is_safe_byte :: "char \<Rightarrow> bool" where
  "is_safe_byte c \<longleftrightarrow>
     (CHR ''a'' \<le> c \<and> c \<le> CHR ''z'') \<or> (CHR ''A'' \<le> c \<and> c \<le> CHR ''Z'') \<or>
     (CHR ''0'' \<le> c \<and> c \<le> CHR ''9'') \<or>
     c = CHR ''.'' \<or> c = CHR ''_'' \<or> c = CHR ''-''"

text \<open>The verb \<open>%02X\<close>: two upper-case hexadecimal digits.\<close>

definition hex_digit :: "nat \<Rightarrow> char" where
  "hex_digit n = (if n < 10 then char_of (48 + n) else char_of (55 + n))"

definition hex_byte :: "char \<Rightarrow> string" where
  "hex_byte c = [hex_digit (of_char c div 16), hex_digit (of_char c mod 16)]"

text \<open>\<open>hex.Decode\<close> accepts both cases of a hexadecimal digit.\<close>

definition hex_val :: "char \<Rightarrow> nat option" where
  "hex_val c =
     (let n = of_char c :: nat
      in if 48 \<le> n \<and> n \<le> 57 then Some (n - 48)
         else if 65 \<le> n \<and> n \<le> 70 then Some (n - 55)
         else if 97 \<le> n \<and> n \<le> 102 then Some (n - 87)
         else None)"

definition unhex_byte :: "char \<Rightarrow> char \<Rightarrow> char option" where
  "unhex_byte a b =
     (case hex_val a of None \<Rightarrow> None
      | Some h \<Rightarrow> (case hex_val b of None \<Rightarrow> None | Some l \<Rightarrow> Some (char_of (16 * h + l))))"

definition escape_byte :: "char \<Rightarrow> string" where
  "escape_byte c = (if is_safe_byte c then [c] else CHR ''%'' # hex_byte c)"

definition escape_segment :: "string \<Rightarrow> string" where
  "escape_segment s =
     (if s = ''.'' \<or> s = ''..'' then concat (map (\<lambda>_. ''%2E'') s)
      else concat (map escape_byte s))"

fun decode_segment :: "string \<Rightarrow> segment_error + string" where
  "decode_segment [] = Inr []"
| "decode_segment (c # cs) =
     (if c \<noteq> CHR ''%'' then map_sum id ((#) c) (decode_segment cs)
      else case cs of
             a # b # rest \<Rightarrow>
               (case unhex_byte a b of
                  None \<Rightarrow> Inl BadEscape
                | Some v \<Rightarrow> map_sum id ((#) v) (decode_segment rest))
           | _ \<Rightarrow> Inl TruncatedEscape)"

definition unescape_segment :: "string \<Rightarrow> segment_error + string" where
  "unescape_segment s =
     (case decode_segment s of
        Inl e \<Rightarrow> Inl e
      | Inr out \<Rightarrow> if escape_segment out \<noteq> s then Inl NonCanonical else Inr out)"

definition state_key :: "string list \<Rightarrow> string" where
  "state_key segments = go_join ''/'' (map escape_segment segments)"

subsection \<open>Escaping is reversible\<close>

lemma hex_val_digit: "n < 16 \<Longrightarrow> hex_val (hex_digit n) = Some n"
  by (auto simp: hex_val_def hex_digit_def)

lemma byte_high_nibble: "(of_char c :: nat) div 16 < 16"
proof -
  have "(of_char c :: nat) < 256" by simp
  then show ?thesis by presburger
qed

lemma unhex_hex_byte: "hex_byte c = [a, b] \<Longrightarrow> unhex_byte a b = Some c"
proof -
  assume "hex_byte c = [a, b]"
  then have ab: "a = hex_digit (of_char c div 16)" "b = hex_digit (of_char c mod 16)"
    by (auto simp: hex_byte_def)
  show ?thesis
    using byte_high_nibble [of c] by (simp add: ab unhex_byte_def hex_val_digit)
qed

lemma percent_not_safe: "\<not> is_safe_byte (CHR ''%'')"
  by (simp add: is_safe_byte_def less_eq_char_def)

lemma slash_not_safe: "\<not> is_safe_byte (CHR ''/'')"
  by (simp add: is_safe_byte_def less_eq_char_def)

lemma dot_safe: "is_safe_byte (CHR ''.'')"
  by (simp add: is_safe_byte_def)

lemma hex_digit_safe: "n < 16 \<Longrightarrow> is_safe_byte (hex_digit n)"
  by (auto simp: is_safe_byte_def hex_digit_def less_eq_char_def)

lemma decode_escape_byte: "decode_segment (escape_byte c @ s) = map_sum id ((#) c) (decode_segment s)"
proof (cases "is_safe_byte c")
  case True
  then have "c \<noteq> CHR ''%''" using percent_not_safe by auto
  with True show ?thesis by (simp add: escape_byte_def)
next
  case False
  obtain a b where ab: "hex_byte c = [a, b]" by (simp add: hex_byte_def)
  then have "unhex_byte a b = Some c" by (rule unhex_hex_byte)
  with False ab show ?thesis by (simp add: escape_byte_def)
qed

lemma decode_escape_bytes: "decode_segment (concat (map escape_byte s)) = Inr s"
  by (induction s) (simp_all add: decode_escape_byte)

lemma unhex_dot: "unhex_byte (CHR ''2'') (CHR ''E'') = Some (CHR ''.'')"
  by (simp add: unhex_byte_def hex_val_def char_of_eq_iff)

lemma decode_escape_segment: "decode_segment (escape_segment s) = Inr s"
  by (auto simp: escape_segment_def decode_escape_bytes unhex_dot)

lemma unescape_escape: "unescape_segment (escape_segment s) = Inr s"
  by (simp add: unescape_segment_def decode_escape_segment)

lemma escape_segment_inject: "escape_segment s = escape_segment t \<longleftrightarrow> s = t"
  using decode_escape_segment by (metis sum.inject(2))

lemma unescape_Inr: "unescape_segment k = Inr s \<longleftrightarrow> k = escape_segment s"
  by (auto simp: unescape_segment_def decode_escape_segment split: sum.splits if_splits)

subsection \<open>What an escaped segment can contain\<close>

lemma set_escape_byte: "set (escape_byte c) \<subseteq> {x. is_safe_byte x} \<union> {CHR ''%''}"
proof -
  show ?thesis
    using byte_high_nibble [of c] by (auto simp: escape_byte_def hex_byte_def hex_digit_safe)
qed

lemma dot_escape_chars: "set ''%2E'' \<subseteq> {x. is_safe_byte x} \<union> {CHR ''%''}"
  by (auto simp: is_safe_byte_def less_eq_char_def)

lemma set_escape_segment: "set (escape_segment s) \<subseteq> {x. is_safe_byte x} \<union> {CHR ''%''}"
  using set_escape_byte dot_escape_chars by (force simp: escape_segment_def split: if_splits)

lemma slash_notin_escape: "CHR ''/'' \<notin> set (escape_segment s)"
  using set_escape_segment slash_not_safe by fastforce

lemma escape_segment_nil [simp]: "escape_segment s = [] \<longleftrightarrow> s = []"
proof
  assume "escape_segment s = []"
  then have "escape_segment s = escape_segment []" by (simp add: escape_segment_def)
  then show "s = []" by (simp only: escape_segment_inject)
qed (simp add: escape_segment_def)

lemma escape_not_dot: "escape_segment s \<noteq> ''.'' \<and> escape_segment s \<noteq> ''..''"
proof (rule ccontr)
  assume "\<not> ?thesis"
  then have "decode_segment (escape_segment s) = Inr ''.'' \<or> decode_segment (escape_segment s) = Inr ''..''"
    by auto
  then have "s = ''.'' \<or> s = ''..''" by (auto simp: decode_escape_segment)
  with \<open>\<not> ?thesis\<close> show False by (auto simp: escape_segment_def)
qed

text \<open>A key whose segments are all made of safe bytes is the plain join of them.\<close>

definition plain_segment :: "string \<Rightarrow> bool" where
  "plain_segment s \<longleftrightarrow> list_all is_safe_byte s \<and> s \<noteq> ''.'' \<and> s \<noteq> ''..''"

lemma escape_safe_bytes: "list_all is_safe_byte s \<Longrightarrow> concat (map escape_byte s) = s"
  by (induction s) (auto simp: escape_byte_def)

lemma escape_plain: "plain_segment s \<Longrightarrow> escape_segment s = s"
  by (simp add: plain_segment_def escape_segment_def escape_safe_bytes)

subsection \<open>Keys of paths\<close>

lemma state_key_inject:
  assumes "xs \<noteq> []" "ys \<noteq> []" "state_key xs = state_key ys"
  shows "xs = ys"
proof -
  have "map escape_segment xs = map escape_segment ys"
    by (rule go_join_inject [where c = "CHR ''/''"])
      (use assms slash_notin_escape in \<open>auto simp: state_key_def\<close>)
  then show ?thesis
    by (subst (asm) inj_map_eq_map) (simp_all add: inj_def escape_segment_inject)
qed

lemma state_key_single: "state_key [s] = escape_segment s"
  by (simp add: state_key_def)

lemma state_key_Cons: "xs \<noteq> [] \<Longrightarrow> state_key (x # xs) = escape_segment x @ CHR ''/'' # state_key xs"
  by (simp add: state_key_def go_join_Cons)

end
