(* ===== verification/State_Store.thy ===== *)
theory State_Store
  imports State_Keys
begin

text \<open>
  The durable store's boundary (\<open>internal/state/state.go\<close>, interface \<open>Store\<close>) and its two
  providers: the in-memory store of \<open>internal/state/memory.go\<close>, and the same store behind a
  transport that may fail at any operation, which is what the interface's comment promises of
  the production backend: no transactions, and a replacement whose old value can be gone before
  the new one is durable.

  The interface is a record of operations, as a Go interface value is, and its contract is the
  locale \<open>kv_store\<close>: what each operation does to the abstract \<open>view\<close>, a partial map from keys
  to values, also when it reports an error.
\<close>

subsection \<open>Errors\<close>

datatype state_error =
    NotFoundError string
  | MalformedError string
  | ExistsError string
  | BackendError
  | EncodeError string
  | NoFreeVersion string
  | WrapError string state_error

text \<open>\<open>errors.As\<close> looks through the wrapping of \<open>fmt.Errorf("...: %w", ...)\<close>.\<close>

fun is_not_found :: "state_error \<Rightarrow> bool" where
  "is_not_found (NotFoundError k) = True"
| "is_not_found (WrapError m e) = is_not_found e"
| "is_not_found _ = False"

fun is_malformed :: "state_error \<Rightarrow> bool" where
  "is_malformed (MalformedError k) = True"
| "is_malformed (WrapError m e) = is_malformed e"
| "is_malformed _ = False"

fun is_exists :: "state_error \<Rightarrow> bool" where
  "is_exists (ExistsError k) = True"
| "is_exists (WrapError m e) = is_exists e"
| "is_exists _ = False"

subsection \<open>The interface\<close>

record ('s, 'v) store =
  store_get :: "string \<Rightarrow> ('s, state_error, 'v) op"
  store_create :: "string \<Rightarrow> 'v \<Rightarrow> ('s, state_error, unit) op"
  store_replace :: "string \<Rightarrow> 'v \<Rightarrow> ('s, state_error, unit) op"
  store_delete :: "string \<Rightarrow> ('s, state_error, unit) op"
  store_list :: "string \<Rightarrow> ('s, state_error, string list) op"

text \<open>Prefixes match on whole segments.\<close>

definition trim_slash :: "string \<Rightarrow> string" where
  "trim_slash p = (if p \<noteq> [] \<and> last p = CHR ''/'' then butlast p else p)"

definition has_segment_prefix :: "string \<Rightarrow> string \<Rightarrow> bool" where
  "has_segment_prefix key p \<longleftrightarrow>
     p = [] \<or> (let q = trim_slash p in key = q \<or> go_cut_prefix (q @ ''/'') key \<noteq> None)"

lemma has_segment_prefix_iff:
  "p \<noteq> [] \<Longrightarrow> last p \<noteq> CHR ''/'' \<Longrightarrow>
    has_segment_prefix key p \<longleftrightarrow> key = p \<or> (\<exists>r. key = p @ CHR ''/'' # r)"
  by (auto simp: has_segment_prefix_def trim_slash_def go_cut_prefix_Some)

subsection \<open>The in-memory store\<close>

type_synonym 'v memory = "(string \<times> 'v) list"

definition memory_get :: "string \<Rightarrow> ('v memory, state_error, 'v) op" where
  "memory_get k m = (case map_of m k of None \<Rightarrow> (Inl (NotFoundError k), m) | Some v \<Rightarrow> (Inr v, m))"

definition memory_create :: "string \<Rightarrow> 'v \<Rightarrow> ('v memory, state_error, unit) op" where
  "memory_create k v m =
     (if map_of m k \<noteq> None then (Inl (ExistsError k), m) else (Inr (), AList.update k v m))"

definition memory_replace :: "string \<Rightarrow> 'v \<Rightarrow> ('v memory, state_error, unit) op" where
  "memory_replace k v m = (Inr (), AList.update k v m)"

definition memory_delete :: "string \<Rightarrow> ('v memory, state_error, unit) op" where
  "memory_delete k m =
     (if map_of m k = None then (Inl (NotFoundError k), m) else (Inr (), AList.delete k m))"

definition memory_list :: "string \<Rightarrow> ('v memory, state_error, string list) op" where
  "memory_list p m =
     (Inr (sorted_set_list (filter (\<lambda>k. has_segment_prefix k p) (map fst m))), m)"

definition memory_store :: "('v memory, 'v) store" where
  "memory_store = \<lparr>store_get = memory_get, store_create = memory_create,
     store_replace = memory_replace, store_delete = memory_delete, store_list = memory_list\<rparr>"

lemmas memory_defs = memory_store_def memory_get_def memory_create_def memory_replace_def
  memory_delete_def memory_list_def

subsection \<open>A store whose transport can fail\<close>

text \<open>
  Every operation takes one entry of the schedule: it works, fails before it had an effect,
  fails after it had one (the answer was lost), or, for a replacement, fails after the old value
  was removed and before the new one was written. An exhausted schedule means no more failures.
\<close>

datatype fault = Works | FailsBefore | FailsAfter | FailsBetween

record 'v backend =
  contents :: "'v memory"
  faults :: "fault list"

definition next_fault :: "'v backend \<Rightarrow> fault \<times> 'v backend" where
  "next_fault b =
     (case faults b of [] \<Rightarrow> (Works, b) | f # fs \<Rightarrow> (f, b\<lparr>faults := fs\<rparr>))"

definition backend_op ::
    "('v memory, state_error, 'a) op \<Rightarrow> ('v memory \<Rightarrow> 'v memory) \<Rightarrow> ('v backend, state_error, 'a) op" where
  "backend_op f between b =
     (case next_fault b of
        (Works, b) \<Rightarrow> (case f (contents b) of (r, m) \<Rightarrow> (r, b\<lparr>contents := m\<rparr>))
      | (FailsBefore, b) \<Rightarrow> (Inl BackendError, b)
      | (FailsAfter, b) \<Rightarrow> (Inl BackendError, b\<lparr>contents := snd (f (contents b))\<rparr>)
      | (FailsBetween, b) \<Rightarrow> (Inl BackendError, b\<lparr>contents := between (contents b)\<rparr>))"

definition backend_store :: "('v backend, 'v) store" where
  "backend_store = \<lparr>
     store_get = (\<lambda>k. backend_op (memory_get k) id),
     store_create = (\<lambda>k v. backend_op (memory_create k v) id),
     store_replace = (\<lambda>k v. backend_op (memory_replace k v) (AList.delete k)),
     store_delete = (\<lambda>k. backend_op (memory_delete k) id),
     store_list = (\<lambda>p. backend_op (memory_list p) id)\<rparr>"

definition backend_view :: "'v backend \<Rightarrow> string \<rightharpoonup> 'v" where
  "backend_view b = map_of (contents b)"

definition backend_reliable :: "'v backend \<Rightarrow> bool" where
  "backend_reliable b \<longleftrightarrow> list_all (\<lambda>f. f = Works) (faults b)"

subsection \<open>The contract\<close>

text \<open>
  \<open>view\<close> is what the store holds. The laws say what each operation may do to it on every
  branch, so a client lemma proved from them holds under every pattern of failures.
\<close>

locale kv_store =
  fixes st :: "('s, 'v) store" and view :: "'s \<Rightarrow> string \<rightharpoonup> 'v"
  assumes get_view: "store_get st k s = (r, s') \<Longrightarrow> view s' = view s"
    and get_ok: "store_get st k s = (Inr v, s') \<Longrightarrow> view s k = Some v"
    and get_missing: "store_get st k s = (Inl e, s') \<Longrightarrow> is_not_found e \<Longrightarrow> view s k = None"
    and get_not_malformed: "store_get st k s = (Inl e, s') \<Longrightarrow> \<not> is_malformed e"
    and create_ok: "store_create st k v s = (Inr u, s') \<Longrightarrow> view s k = None \<and> view s' = (view s)(k \<mapsto> v)"
    and create_exists: "store_create st k v s = (Inl e, s') \<Longrightarrow> is_exists e \<Longrightarrow>
      view s k \<noteq> None \<and> view s' = view s"
    and create_fails: "store_create st k v s = (Inl e, s') \<Longrightarrow>
      view s' = view s \<or> (view s k = None \<and> view s' = (view s)(k \<mapsto> v))"
    and replace_ok: "store_replace st k v s = (Inr u, s') \<Longrightarrow> view s' = (view s)(k \<mapsto> v)"
    and replace_fails: "store_replace st k v s = (Inl e, s') \<Longrightarrow>
      view s' = view s \<or> view s' = (view s)(k \<mapsto> v) \<or> view s' = (view s)(k := None)"
    and delete_ok: "store_delete st k s = (Inr u, s') \<Longrightarrow> view s k \<noteq> None \<and> view s' = (view s)(k := None)"
    and delete_missing: "store_delete st k s = (Inl e, s') \<Longrightarrow> is_not_found e \<Longrightarrow>
      view s k = None \<and> view s' = view s"
    and delete_fails: "store_delete st k s = (Inl e, s') \<Longrightarrow>
      view s' = view s \<or> view s' = (view s)(k := None)"
    and list_view: "store_list st p s = (ls, s') \<Longrightarrow> view s' = view s"
    and list_ok: "store_list st p s = (Inr ks, s') \<Longrightarrow>
      sorted ks \<and> distinct ks \<and> set ks = {k \<in> dom (view s). has_segment_prefix k p}"
    and list_fails: "store_list st p s = (Inl e, s') \<Longrightarrow> \<not> is_not_found e \<and> \<not> is_malformed e"
begin

lemmas store_reads = get_view list_view
declare get_view [frame] and list_view [frame]

lemma list_set: "store_list st p s = (Inr ks, s') \<Longrightarrow> set ks = {k \<in> dom (view s). has_segment_prefix k p}"
  using list_ok by blast

lemma list_sorted: "store_list st p s = (Inr ks, s') \<Longrightarrow> sorted ks \<and> distinct ks"
  using list_ok by blast

lemma create_others:
  "store_create st k v s = (r, s') \<Longrightarrow> k' \<noteq> k \<Longrightarrow> view s' k' = view s k'"
  by (cases r) (auto dest: create_ok create_fails)

lemma create_keeps:
  assumes "store_create st k v s = (r, s')" "view s k' = Some w"
  shows "view s' k' = Some w"
proof (cases "k' = k")
  case True
  then have "view s k \<noteq> None" using assms(2) by simp
  then have "view s' = view s"
    using assms(1) by (cases r) (auto dest: create_ok create_fails)
  with assms(2) show ?thesis by simp
next
  case False
  then show ?thesis using create_others [OF assms(1)] assms(2) by simp
qed

lemma replace_others:
  "store_replace st k v s = (r, s') \<Longrightarrow> k' \<noteq> k \<Longrightarrow> view s' k' = view s k'"
  by (cases r) (auto dest: replace_ok replace_fails)

lemma delete_others:
  "store_delete st k s = (r, s') \<Longrightarrow> k' \<noteq> k \<Longrightarrow> view s' k' = view s k'"
  by (cases r) (auto dest: delete_ok delete_fails)

end

text \<open>
  A provider may also promise that it does not fail (from states satisfying \<open>reliable\<close>): then
  every operation answers from the view alone.
\<close>

locale reliable_store = kv_store st view
  for st :: "('s, 'v) store" and view :: "'s \<Rightarrow> string \<rightharpoonup> 'v" +
  fixes reliable :: "'s \<Rightarrow> bool"
  assumes get_reliable: "reliable s \<Longrightarrow> \<exists>s'. reliable s' \<and>
      store_get st k s = (case view s k of None \<Rightarrow> Inl (NotFoundError k) | Some v \<Rightarrow> Inr v, s')"
    and create_reliable: "reliable s \<Longrightarrow> \<exists>s'. reliable s' \<and>
      store_create st k v s = (if view s k = None then Inr () else Inl (ExistsError k), s')"
    and replace_reliable: "reliable s \<Longrightarrow> \<exists>s'. reliable s' \<and> store_replace st k v s = (Inr (), s')"
    and delete_reliable: "reliable s \<Longrightarrow> \<exists>s'. reliable s' \<and>
      store_delete st k s = (if view s k = None then Inl (NotFoundError k) else Inr (), s')"
    and list_reliable: "reliable s \<Longrightarrow> \<exists>ks s'. reliable s' \<and> store_list st p s = (Inr ks, s')"

subsection \<open>Both providers keep the contract\<close>

lemma memory_keys_set: "set (filter P (map fst m)) = {k \<in> dom (map_of m). P k}"
  by (simp add: dom_map_of_conv_image_fst)

lemma next_fault_contents: "next_fault b = (f, b') \<Longrightarrow> contents b' = contents b"
  by (auto simp: next_fault_def split: list.splits)

lemma next_fault_reliable:
  "backend_reliable b \<Longrightarrow> next_fault b = (f, b') \<Longrightarrow> f = Works \<and> backend_reliable b'"
  by (auto simp: next_fault_def backend_reliable_def split: list.splits)

lemma backend_op_cases:
  assumes "backend_op f between b = (r, b')"
  obtains (works) "r = fst (f (contents b))" "contents b' = snd (f (contents b))"
    | (before) "r = Inl BackendError" "contents b' = contents b"
    | (after) "r = Inl BackendError" "contents b' = snd (f (contents b))"
    | (between) "r = Inl BackendError" "contents b' = between (contents b)"
proof -
  obtain g b0 where nf: "next_fault b = (g, b0)" by fastforce
  then have "contents b0 = contents b" by (rule next_fault_contents)
  then show thesis
    using assms nf that by (cases g) (auto simp: backend_op_def split: prod.splits)
qed

lemma backend_op_reliable:
  assumes "backend_reliable b"
  shows "\<exists>b'. backend_reliable b' \<and> backend_op f between b = (fst (f (contents b)), b')"
proof -
  obtain g b0 where nf: "next_fault b = (g, b0)" by fastforce
  then have "g = Works" "backend_reliable b0" "contents b0 = contents b"
    using next_fault_reliable [OF assms nf] next_fault_contents [OF nf] by auto
  then show ?thesis
    using nf by (auto simp: backend_op_def backend_reliable_def split: prod.splits)
qed

lemmas memory_ops = memory_store_def memory_get_def memory_create_def memory_replace_def
  memory_delete_def map_of_alist_update map_of_alist_delete

interpretation mem: reliable_store memory_store map_of "\<lambda>_. True"
  by unfold_locales
    (auto simp del: set_filter simp: memory_ops memory_list_def memory_keys_set
      split: option.splits if_splits)

lemmas backend_ops = backend_store_def backend_view_def memory_ops

interpretation backend: reliable_store backend_store backend_view backend_reliable
proof (unfold_locales, goal_cases)
  case (1 k s r s') then show ?case
    by (auto simp: backend_ops elim!: backend_op_cases split: option.splits)
next
  case (2 k s v s') then show ?case
    by (auto simp: backend_ops elim!: backend_op_cases split: option.splits)
next
  case (3 k s e s') then show ?case
    by (auto simp: backend_ops elim!: backend_op_cases split: option.splits)
next
  case (4 k s e s') then show ?case
    by (auto simp: backend_ops elim!: backend_op_cases split: option.splits)
next
  case (5 k v s u s') then show ?case
    by (auto simp: backend_ops elim!: backend_op_cases split: if_splits)
next
  case (6 k v s e s') then show ?case
    by (auto simp: backend_ops elim!: backend_op_cases split: if_splits)
next
  case (7 k v s e s') then show ?case
    by (auto simp: backend_ops elim!: backend_op_cases split: if_splits)
next
  case (8 k v s u s') then show ?case
    by (auto simp: backend_ops elim!: backend_op_cases)
next
  case (9 k v s e s') then show ?case
    by (auto simp: backend_ops elim!: backend_op_cases)
next
  case (10 k s u s') then show ?case
    by (auto simp: backend_ops elim!: backend_op_cases split: if_splits)
next
  case (11 k s e s') then show ?case
    by (auto simp: backend_ops elim!: backend_op_cases split: if_splits)
next
  case (12 k s e s') then show ?case
    by (auto simp: backend_ops elim!: backend_op_cases split: if_splits)
next
  case (13 p s r s') then show ?case
    by (auto simp: backend_ops memory_list_def elim!: backend_op_cases)
next
  case (14 p s ks s') then show ?case
    by (auto simp del: set_filter simp: backend_ops memory_list_def memory_keys_set
        elim!: backend_op_cases)
next
  case (15 p s e s') then show ?case
    by (auto simp: backend_ops memory_list_def elim!: backend_op_cases)
next
  case (16 s k) then show ?case
    using backend_op_reliable [of s "memory_get k" id]
    by (auto simp: backend_ops split: option.splits)
next
  case (17 s k v) then show ?case
    using backend_op_reliable [of s "memory_create k v" id]
    by (auto simp: backend_ops split: if_splits)
next
  case (18 s k v) then show ?case
    using backend_op_reliable [of s "memory_replace k v" "AList.delete k"]
    by (auto simp: backend_ops)
next
  case (19 s k) then show ?case
    using backend_op_reliable [of s "memory_delete k" id]
    by (auto simp: backend_ops split: if_splits)
next
  case (20 s p) then show ?case
    using backend_op_reliable [of s "memory_list p" id]
    by (auto simp: backend_ops memory_list_def)
qed

end
