(* ===== verification/State_Docs.thy ===== *)
theory State_Docs
  imports State_Store
begin

text \<open>
  The typed JSON view over a store (\<open>Documents[T]\<close> in \<open>internal/state/state.go\<close>). A collection
  is rooted at a prefix and carries how its documents are encoded and decoded; a value that does
  not decode is reported by key, never by content. The lemmas give every read in terms of what
  the store holds, and show that a listing leaves out exactly the corrupt documents, reports
  each of them, and fails rather than drop a document it could not reach.
\<close>

record ('s, 'v, 't) documents =
  d_store :: "('s, 'v) store"
  d_prefix :: string
  d_encode :: "'t \<Rightarrow> 'v option"
  d_decode :: "'v \<Rightarrow> 't option"

definition new_documents ::
    "('s, 'v) store \<Rightarrow> string \<Rightarrow> ('t \<Rightarrow> 'v option) \<Rightarrow> ('v \<Rightarrow> 't option) \<Rightarrow> ('s, 'v, 't) documents" where
  "new_documents st p enc dec = \<lparr>d_store = st, d_prefix = p, d_encode = enc, d_decode = dec\<rparr>"

definition docs_key :: "('s, 'v, 't) documents \<Rightarrow> string list \<Rightarrow> string" where
  "docs_key d ids = d_prefix d @ ''/'' @ state_key ids"

definition docs_get_key :: "('s, 'v, 't) documents \<Rightarrow> string \<Rightarrow> ('s, state_error, 't) op" where
  "docs_get_key d key s =
     (case store_get (d_store d) key s of
        (Inl e, s) \<Rightarrow> (Inl e, s)
      | (Inr raw, s) \<Rightarrow>
          (case d_decode d raw of
             None \<Rightarrow> (Inl (MalformedError key), s)
           | Some v \<Rightarrow> (Inr v, s)))"

definition docs_get :: "('s, 'v, 't) documents \<Rightarrow> string list \<Rightarrow> ('s, state_error, 't) op" where
  "docs_get d ids = docs_get_key d (docs_key d ids)"

definition docs_encode :: "('s, 'v, 't) documents \<Rightarrow> 't \<Rightarrow> state_error + 'v" where
  "docs_encode d v =
     (case d_encode d v of None \<Rightarrow> Inl (EncodeError (d_prefix d)) | Some raw \<Rightarrow> Inr raw)"

definition docs_create_key :: "('s, 'v, 't) documents \<Rightarrow> string \<Rightarrow> 't \<Rightarrow> ('s, state_error, unit) op" where
  "docs_create_key d key v s =
     (case docs_encode d v of Inl e \<Rightarrow> (Inl e, s) | Inr raw \<Rightarrow> store_create (d_store d) key raw s)"

definition docs_create :: "('s, 'v, 't) documents \<Rightarrow> 't \<Rightarrow> string list \<Rightarrow> ('s, state_error, unit) op" where
  "docs_create d v ids = docs_create_key d (docs_key d ids) v"

definition docs_replace_key :: "('s, 'v, 't) documents \<Rightarrow> string \<Rightarrow> 't \<Rightarrow> ('s, state_error, unit) op" where
  "docs_replace_key d key v s =
     (case docs_encode d v of Inl e \<Rightarrow> (Inl e, s) | Inr raw \<Rightarrow> store_replace (d_store d) key raw s)"

definition docs_replace :: "('s, 'v, 't) documents \<Rightarrow> 't \<Rightarrow> string list \<Rightarrow> ('s, state_error, unit) op" where
  "docs_replace d v ids = docs_replace_key d (docs_key d ids) v"

definition docs_delete_key :: "('s, 'v, 't) documents \<Rightarrow> string \<Rightarrow> ('s, state_error, unit) op" where
  "docs_delete_key d key = store_delete (d_store d) key"

definition docs_delete :: "('s, 'v, 't) documents \<Rightarrow> string list \<Rightarrow> ('s, state_error, unit) op" where
  "docs_delete d ids = docs_delete_key d (docs_key d ids)"

definition docs_keys :: "('s, 'v, 't) documents \<Rightarrow> string list \<Rightarrow> ('s, state_error, string list) op" where
  "docs_keys d ids = store_list (d_store d) (if ids = [] then d_prefix d else docs_key d ids)"

text \<open>The first-level id a key is filed under, if it can be read back from it.\<close>

definition first_id :: "string \<Rightarrow> string \<Rightarrow> string option" where
  "first_id p key =
     (case go_cut_prefix (p @ ''/'') key of
        None \<Rightarrow> None
      | Some rest \<Rightarrow>
          (case unescape_segment (go_before_first (CHR ''/'') rest) of
             Inl e \<Rightarrow> None
           | Inr i \<Rightarrow> if i = [] then None else Some i))"

definition docs_ids :: "('s, 'v, 't) documents \<Rightarrow> ('s, state_error, string list) op" where
  "docs_ids d s =
     (case store_list (d_store d) (d_prefix d) s of
        (Inl e, s) \<Rightarrow> (Inl e, s)
      | (Inr keys, s) \<Rightarrow> (Inr (sorted_set_list (List.map_filter (first_id (d_prefix d)) keys)), s))"

definition skip_unreadable :: "string \<Rightarrow> state_error \<Rightarrow> string list \<Rightarrow> state_error + string list" where
  "skip_unreadable key err unreadable =
     (if is_not_found err then Inr unreadable
      else if is_malformed err then Inr (unreadable @ [key])
      else Inl (WrapError ''state: read'' err))"

text \<open>The read loop shared by the listings: decoded values and the keys of corrupt documents.\<close>

fun docs_read_each ::
    "('s, 'v, 't) documents \<Rightarrow> string list \<Rightarrow> 't list \<Rightarrow> string list \<Rightarrow>
     ('s, state_error, 't list \<times> string list) op" where
  "docs_read_each d [] out unreadable s = (Inr (out, unreadable), s)"
| "docs_read_each d (k # ks) out unreadable s =
     (case docs_get_key d k s of
        (Inr v, s) \<Rightarrow> docs_read_each d ks (out @ [v]) unreadable s
      | (Inl e, s) \<Rightarrow>
          (case skip_unreadable k e unreadable of
             Inl e' \<Rightarrow> (Inl e', s)
           | Inr unreadable' \<Rightarrow> docs_read_each d ks out unreadable' s))"

definition docs_all ::
    "('s, 'v, 't) documents \<Rightarrow> string list \<Rightarrow> ('s, state_error, 't list \<times> string list) op" where
  "docs_all d ids s =
     (case docs_keys d ids s of
        (Inl e, s) \<Rightarrow> (Inl e, s)
      | (Inr keys, s) \<Rightarrow> docs_read_each d (sort keys) [] [] s)"

subsection \<open>What a collection holds\<close>

definition doc_at :: "('s, 'v, 't) documents \<Rightarrow> (string \<rightharpoonup> 'v) \<Rightarrow> string \<rightharpoonup> 't" where
  "doc_at d m k = Option.bind (m k) (d_decode d)"

definition corrupt_at :: "('s, 'v, 't) documents \<Rightarrow> (string \<rightharpoonup> 'v) \<Rightarrow> string \<Rightarrow> bool" where
  "corrupt_at d m k \<longleftrightarrow> (case m k of None \<Rightarrow> False | Some raw \<Rightarrow> d_decode d raw = None)"

lemma docs_key_inject:
  "xs \<noteq> [] \<Longrightarrow> ys \<noteq> [] \<Longrightarrow> docs_key d xs = docs_key d ys \<longleftrightarrow> xs = ys"
  by (auto simp: docs_key_def intro: state_key_inject)

lemma docs_key_not_nil [simp]: "docs_key d ids \<noteq> []"
  by (simp add: docs_key_def)

lemma last_escape_segment: "s \<noteq> [] \<Longrightarrow> last (escape_segment s) \<noteq> CHR ''/''"
  using slash_notin_escape [of s] last_in_set [of "escape_segment s"] by (auto simp del: last_in_set)

lemma state_key_nil: "state_key ids = [] \<longleftrightarrow> ids = [] \<or> ids = [[]]"
proof (cases ids)
  case (Cons x xs)
  then show ?thesis by (cases xs) (auto simp: state_key_def go_join_Cons)
qed (simp add: state_key_def)

lemma last_state_key: "ids \<noteq> [] \<Longrightarrow> last ids \<noteq> [] \<Longrightarrow> last (state_key ids) \<noteq> CHR ''/''"
proof (induction ids)
  case (Cons x xs)
  show ?case
  proof (cases "xs = []")
    case True
    with Cons show ?thesis by (simp add: state_key_single last_escape_segment)
  next
    case False
    then have "state_key xs \<noteq> []" using Cons.prems by (auto simp: state_key_nil)
    with False Cons show ?thesis by (simp add: state_key_Cons)
  qed
qed simp

lemma last_docs_key: "ids \<noteq> [] \<Longrightarrow> last ids \<noteq> [] \<Longrightarrow> last (docs_key d ids) \<noteq> CHR ''/''"
proof -
  assume "ids \<noteq> []" "last ids \<noteq> []"
  then have "last (state_key ids) \<noteq> CHR ''/''" "state_key ids \<noteq> []"
    by (auto simp: last_state_key state_key_nil)
  then show ?thesis by (simp add: docs_key_def)
qed

lemma has_segment_prefix_below:
  "q \<noteq> [] \<Longrightarrow> last q \<noteq> CHR ''/'' \<Longrightarrow> has_segment_prefix (q @ CHR ''/'' # r) q"
  by (simp add: has_segment_prefix_iff)

text \<open>A document filed under a path is found again by its first id.\<close>

lemma first_id_docs_key:
  assumes "i \<noteq> []"
  shows "first_id (d_prefix d) (docs_key d (i # ids)) = Some i"
proof -
  have "go_before_first (CHR ''/'') (state_key (i # ids)) = escape_segment i"
    using slash_notin_escape [of i]
    by (cases "ids = []")
      (simp_all add: state_key_single state_key_Cons go_before_first_append go_before_first_none)
  then show ?thesis
    using assms go_cut_prefix_append [of "d_prefix d @ ''/''" "state_key (i # ids)"]
    by (simp add: first_id_def docs_key_def unescape_escape del: go_cut_prefix_append)
qed

text \<open>A document filed under one id lies below another id's prefix only when the ids are the same.\<close>

lemma docs_key_below:
  assumes "a \<noteq> []" "b \<noteq> []"
  shows "has_segment_prefix (docs_key d [a, n]) (docs_key d [b]) \<longleftrightarrow> b = a"
proof -
  have e: "docs_key d [a, n] = docs_key d [a] @ CHR ''/'' # escape_segment n"
    by (simp add: docs_key_def state_key_Cons state_key_single)
  show ?thesis
  proof
    assume "b = a"
    then show "has_segment_prefix (docs_key d [a, n]) (docs_key d [b])"
      using has_segment_prefix_below [of "docs_key d [a]"] assms by (simp add: e last_docs_key)
  next
    assume below: "has_segment_prefix (docs_key d [a, n]) (docs_key d [b])"
    from below consider "docs_key d [a, n] = docs_key d [b]"
      | r where "docs_key d [a, n] = docs_key d [b] @ CHR ''/'' # r"
      using assms(2) by (auto simp: has_segment_prefix_iff last_docs_key)
    then show "b = a"
    proof cases
      case 1
      then show ?thesis by (simp add: docs_key_inject)
    next
      case 2
      then have "escape_segment a @ CHR ''/'' # escape_segment n =
          escape_segment b @ CHR ''/'' # r"
        by (simp add: docs_key_def state_key_Cons state_key_single)
      then have "go_cut (CHR ''/'') (escape_segment a @ CHR ''/'' # escape_segment n) =
          go_cut (CHR ''/'') (escape_segment b @ CHR ''/'' # r)" by simp
      then show ?thesis
        using slash_notin_escape by (simp add: go_cut_append escape_segment_inject)
    qed
  qed
qed

subsection \<open>Collections over a store that keeps its contract\<close>

locale collection = kv_store st view
  for st :: "('s, 'v) store" and view :: "'s \<Rightarrow> string \<rightharpoonup> 'v" +
  fixes d :: "('s, 'v, 't) documents"
  assumes store_of: "d_store d = st"
    and codec: "d_encode d x = Some raw \<Longrightarrow> d_decode d raw = Some x"
begin

lemma docs_get_key_view [frame]: "docs_get_key d k s = (r, s') \<Longrightarrow> view s' = view s"
  by (auto simp: docs_get_key_def store_of split: prod.splits sum.splits option.splits
      dest: get_view)

lemma docs_get_key_ok: "docs_get_key d k s = (Inr x, s') \<Longrightarrow> doc_at d (view s) k = Some x"
  by (auto simp: docs_get_key_def doc_at_def store_of split: prod.splits sum.splits option.splits
      dest: get_ok)

lemma docs_get_key_missing:
  "docs_get_key d k s = (Inl e, s') \<Longrightarrow> is_not_found e \<Longrightarrow> view s k = None"
  by (auto simp: docs_get_key_def store_of split: prod.splits sum.splits option.splits
      dest: get_missing)

lemma docs_get_key_malformed:
  "docs_get_key d k s = (Inl e, s') \<Longrightarrow> is_malformed e \<Longrightarrow> corrupt_at d (view s) k"
  by (auto simp: docs_get_key_def corrupt_at_def store_of split: prod.splits sum.splits option.splits
      dest: get_ok get_not_malformed)

lemma docs_keys_view [frame]: "docs_keys d ids s = (r, s') \<Longrightarrow> view s' = view s"
  by (auto simp: docs_keys_def store_of dest: list_view)

lemma docs_create_key_keeps:
  "docs_create_key d k x s = (r, s') \<Longrightarrow> view s k' = Some w \<Longrightarrow> view s' k' = Some w"
  by (auto simp: docs_create_key_def store_of split: sum.splits dest: create_keeps)

lemma docs_create_key_ok:
  "docs_create_key d k x s = (Inr u, s') \<Longrightarrow>
    \<exists>raw. d_encode d x = Some raw \<and> view s k = None \<and> view s' = (view s)(k \<mapsto> raw)"
  by (auto simp: docs_create_key_def docs_encode_def store_of split: sum.splits option.splits
      dest: create_ok)

lemma docs_create_key_fails:
  "docs_create_key d k x s = (Inl e, s') \<Longrightarrow> view s' = view s \<or>
    (\<exists>raw. d_encode d x = Some raw \<and> view s k = None \<and> view s' = (view s)(k \<mapsto> raw))"
  by (auto simp: docs_create_key_def docs_encode_def store_of split: sum.splits option.splits
      dest: create_fails)

lemma docs_create_key_exists:
  "docs_create_key d k x s = (Inl e, s') \<Longrightarrow> is_exists e \<Longrightarrow> view s k \<noteq> None \<and> view s' = view s"
  by (auto simp: docs_create_key_def docs_encode_def store_of split: sum.splits option.splits
      dest: create_exists)

lemma docs_replace_key_ok:
  "docs_replace_key d k x s = (Inr u, s') \<Longrightarrow>
    \<exists>raw. d_encode d x = Some raw \<and> view s' = (view s)(k \<mapsto> raw)"
  by (auto simp: docs_replace_key_def docs_encode_def store_of split: sum.splits option.splits
      dest: replace_ok)

lemma docs_replace_key_fails:
  "docs_replace_key d k x s = (Inl e, s') \<Longrightarrow> view s' = view s \<or> view s' = (view s)(k := None) \<or>
    (\<exists>raw. d_encode d x = Some raw \<and> view s' = (view s)(k \<mapsto> raw))"
  by (auto simp: docs_replace_key_def docs_encode_def store_of split: sum.splits option.splits
      dest: replace_fails)

lemma docs_replace_key_others:
  "docs_replace_key d k x s = (r, s') \<Longrightarrow> k' \<noteq> k \<Longrightarrow> view s' k' = view s k'"
  by (auto simp: docs_replace_key_def store_of split: sum.splits dest: replace_others)

lemma docs_delete_key_others:
  "docs_delete_key d k s = (r, s') \<Longrightarrow> k' \<noteq> k \<Longrightarrow> view s' k' = view s k'"
  by (auto simp: docs_delete_key_def store_of dest: delete_others)

lemma doc_at_written: "d_encode d x = Some raw \<Longrightarrow> doc_at d ((view s)(k \<mapsto> raw)) k = Some x"
  by (simp add: doc_at_def codec)

lemma docs_read_each_spec:
  "docs_read_each d ks out un s = (Inr (vals, unreadable), s') \<Longrightarrow>
    view s' = view s \<and>
    vals = out @ List.map_filter (doc_at d (view s)) ks \<and>
    unreadable = un @ filter (corrupt_at d (view s)) ks"
proof (induction ks arbitrary: out un s)
  case Nil
  then show ?case by simp
next
  case (Cons k ks)
  obtain r s1 where g: "docs_get_key d k s = (r, s1)" by fastforce
  have v: "view s1 = view s" using g by (rule docs_get_key_view)
  show ?case
  proof (cases r)
    case (Inr x)
    then have "doc_at d (view s) k = Some x" using g by (auto dest: docs_get_key_ok)
    moreover from this have "\<not> corrupt_at d (view s) k"
      by (auto simp: doc_at_def corrupt_at_def split: option.splits)
    moreover have "docs_read_each d ks (out @ [x]) un s1 = (Inr (vals, unreadable), s')"
      using Cons.prems g Inr by simp
    ultimately show ?thesis
      using Cons.IH [of "out @ [x]" un s1] v by simp
  next
    case (Inl e)
    show ?thesis
    proof (cases "is_not_found e")
      case True
      then have "view s k = None" using g Inl by (auto dest: docs_get_key_missing)
      moreover have "docs_read_each d ks out un s1 = (Inr (vals, unreadable), s')"
        using Cons.prems g Inl True by (simp add: skip_unreadable_def)
      ultimately show ?thesis
        using Cons.IH [of out un s1] v
        by (simp add: doc_at_def corrupt_at_def)
    next
      case False
      then have m: "is_malformed e"
        using Cons.prems g Inl by (auto simp: skip_unreadable_def split: if_splits)
      then have "corrupt_at d (view s) k" using g Inl by (auto dest: docs_get_key_malformed)
      moreover from this have "doc_at d (view s) k = None"
        by (auto simp: doc_at_def corrupt_at_def split: option.splits)
      moreover have "docs_read_each d ks out (un @ [k]) s1 = (Inr (vals, unreadable), s')"
        using Cons.prems g Inl False m by (simp add: skip_unreadable_def)
      ultimately show ?thesis
        using Cons.IH [of out "un @ [k]" s1] v by simp
    qed
  qed
qed

lemma docs_read_each_view [frame]:
  "docs_read_each d ks out un s = (r, s') \<Longrightarrow> view s' = view s"
proof (induction ks arbitrary: out un s)
  case (Cons k ks)
  then show ?case
    by (fastforce split: prod.splits sum.splits dest: docs_get_key_view)
qed simp

text \<open>The listing of a prefix: the readable values in key order, and every corrupt key.\<close>

lemma docs_all_spec:
  assumes "docs_all d ids s = (Inr (vals, unreadable), s')"
  shows "\<exists>ks. sorted ks \<and> distinct ks \<and>
      set ks = {k \<in> dom (view s). has_segment_prefix k (if ids = [] then d_prefix d else docs_key d ids)} \<and>
      vals = List.map_filter (doc_at d (view s)) ks \<and>
      unreadable = filter (corrupt_at d (view s)) ks \<and> view s' = view s"
proof -
  from assms obtain ks s1 where l: "docs_keys d ids s = (Inr ks, s1)"
      and r: "docs_read_each d (sort ks) [] [] s1 = (Inr (vals, unreadable), s')"
    by (auto simp: docs_all_def split: prod.splits sum.splits)
  from l have "store_list st (if ids = [] then d_prefix d else docs_key d ids) s = (Inr ks, s1)"
    by (simp add: docs_keys_def store_of)
  from list_ok [OF this] docs_read_each_spec [OF r] docs_keys_view [OF l] show ?thesis
    by (intro exI [of _ ks]) (simp add: sorted_sort_id)
qed

lemma docs_ids_spec:
  assumes "docs_ids d s = (Inr ids, s')" "view s (docs_key d (i # rest)) \<noteq> None" "i \<noteq> []"
    "d_prefix d \<noteq> []" "last (d_prefix d) \<noteq> CHR ''/''"
  shows "i \<in> set ids"
proof -
  from assms(1) obtain ks where l: "store_list st (d_prefix d) s = (Inr ks, s')"
      and ids: "ids = sorted_set_list (List.map_filter (first_id (d_prefix d)) ks)"
    by (auto simp: docs_ids_def store_of split: prod.splits sum.splits)
  have "has_segment_prefix (docs_key d (i # rest)) (d_prefix d)"
    using assms(4,5) by (simp add: has_segment_prefix_iff docs_key_def)
  then have "docs_key d (i # rest) \<in> set ks"
    using assms(2) list_set [OF l] by auto
  then have "\<exists>k\<in>set ks. first_id (d_prefix d) k = Some i"
    using first_id_docs_key [OF assms(3)] by blast
  then show ?thesis
    by (simp add: ids in_set_map_filter)
qed

end

text \<open>A collection over a provider that does not fail answers every read from the view.\<close>

locale reliable_collection = reliable_store st view reliable + collection st view d
  for st :: "('s, 'v) store" and view :: "'s \<Rightarrow> string \<rightharpoonup> 'v" and reliable :: "'s \<Rightarrow> bool"
    and d :: "('s, 'v, 't) documents"
begin

lemma docs_get_key_reliable:
  assumes "reliable s"
  shows "\<exists>s'. reliable s' \<and> docs_get_key d k s =
    (case view s k of None \<Rightarrow> Inl (NotFoundError k)
     | Some raw \<Rightarrow> (case d_decode d raw of None \<Rightarrow> Inl (MalformedError k) | Some x \<Rightarrow> Inr x), s')"
  using get_reliable [OF assms, of k]
  by (auto simp: docs_get_key_def store_of split: option.splits)

lemma docs_create_key_reliable:
  assumes "reliable s" "d_encode d x = Some raw"
  shows "\<exists>s'. reliable s' \<and> docs_create_key d k x s =
    (if view s k = None then Inr () else Inl (ExistsError k), s')"
  using create_reliable [OF assms(1), of k raw] assms(2)
  by (simp add: docs_create_key_def docs_encode_def store_of)

lemma docs_replace_key_reliable:
  assumes "reliable s" "d_encode d x = Some raw"
  shows "\<exists>s'. reliable s' \<and> docs_replace_key d k x s = (Inr (), s')"
  using replace_reliable [OF assms(1), of k raw] assms(2)
  by (simp add: docs_replace_key_def docs_encode_def store_of)

lemma docs_keys_reliable:
  assumes "reliable s"
  shows "\<exists>ks s'. reliable s' \<and> docs_keys d ids s = (Inr ks, s')"
  using list_reliable [OF assms] by (simp add: docs_keys_def store_of)

end

text \<open>
  The service's collections all live in the same store; a collection that \<open>NewDocuments\<close> builds
  over it keeps the laws as soon as its encoding is reversible.
\<close>

definition reversible :: "('t \<Rightarrow> 'v option) \<Rightarrow> ('v \<Rightarrow> 't option) \<Rightarrow> bool" where
  "reversible enc dec \<longleftrightarrow> (\<forall>x raw. enc x = Some raw \<longrightarrow> dec raw = Some x)"

lemma collection_new:
  "kv_store st view \<Longrightarrow> reversible enc dec \<Longrightarrow> collection st view (new_documents st p enc dec)"
  by (simp add: collection_def collection_axioms_def new_documents_def reversible_def)

text \<open>The identity encoding is the collection whose values are stored as they are.\<close>

interpretation raw_docs: reliable_collection backend_store backend_view backend_reliable
    "new_documents backend_store p Some Some" for p
  by unfold_locales (simp_all add: new_documents_def)

end
