(* ===== verification/State_Versions.thy ===== *)
theory State_Versions
  imports State_Docs
begin

text \<open>
  Append-only records (\<open>internal/state/versioned.go\<close>): a write adds a document whose name is a
  fixed-width timestamp and never touches what is stored, a read takes the newest name. The
  lemmas show that version names read back and sort by time, that an append keeps every stored
  document whatever fails, that a successful one is the version read next, and that a listing
  of the newest versions never drops a record silently.
\<close>

definition version_width :: nat where "version_width = 19"

definition append_attempts_max :: nat where "append_attempts_max = 32"

record ('s, 'v, 't) versions =
  v_docs :: "('s, 'v, 't) documents"
  v_legacy :: "('s, 'v, 't) documents option"

definition new_versions ::
    "('s, 'v) store \<Rightarrow> string \<Rightarrow> ('t \<Rightarrow> 'v option) \<Rightarrow> ('v \<Rightarrow> 't option) \<Rightarrow> ('s, 'v, 't) versions" where
  "new_versions st p enc dec = \<lparr>v_docs = new_documents st p enc dec, v_legacy = None\<rparr>"

definition with_legacy :: "('s, 'v, 't) versions \<Rightarrow> string \<Rightarrow> ('s, 'v, 't) versions" where
  "with_legacy v p = v\<lparr>v_legacy := Some ((v_docs v)\<lparr>d_prefix := p\<rparr>)\<rparr>"

text \<open>\<open>Time.UnixNano\<close> is an \<open>int64\<close>.\<close>

definition unix_nano :: "time \<Rightarrow> int" where
  "unix_nano t = wrap_int64 t"

definition version_name :: "int \<Rightarrow> string" where
  "version_name nanos = format_int_width version_width nanos"

definition version_nanos :: "string \<Rightarrow> int option" where
  "version_nanos key =
     (let name = go_after_last (CHR ''/'') key
      in if length name \<noteq> version_width then None
         else case parse_int64 name of
                None \<Rightarrow> None
              | Some nanos \<Rightarrow> if nanos < 0 then None else Some nanos)"

fun newest_from :: "(int \<times> string) option \<Rightarrow> string list \<Rightarrow> (int \<times> string) option" where
  "newest_from best [] = best"
| "newest_from best (candidate # ks) =
     (case version_nanos candidate of
        None \<Rightarrow> newest_from best ks
      | Some nanos \<Rightarrow>
          (case best of
             Some (b, key) \<Rightarrow>
               if nanos \<le> b then newest_from best ks else newest_from (Some (nanos, candidate)) ks
           | None \<Rightarrow> newest_from (Some (nanos, candidate)) ks))"

definition newest_version :: "string list \<Rightarrow> (int \<times> string) option" where
  "newest_version keys = newest_from None keys"

fun span_from :: "(int \<times> int) option \<Rightarrow> string list \<Rightarrow> (int \<times> int) option" where
  "span_from acc [] = acc"
| "span_from acc (key # ks) =
     (case version_nanos key of
        None \<Rightarrow> span_from acc ks
      | Some nanos \<Rightarrow>
          (case acc of
             None \<Rightarrow> span_from (Some (nanos, nanos)) ks
           | Some (oldest, newest) \<Rightarrow>
               span_from (Some (if nanos < oldest then nanos else oldest,
                                if nanos > newest then nanos else newest)) ks))"

definition version_span :: "string list \<Rightarrow> (int \<times> int) option" where
  "version_span keys = span_from None keys"

subsection \<open>Writing\<close>

fun append_attempts ::
    "('s, 'v, 't) documents \<Rightarrow> string \<Rightarrow> 't \<Rightarrow> int \<Rightarrow> nat \<Rightarrow> ('s, state_error, unit) op" where
  "append_attempts d p x nanos 0 s = (Inl (NoFreeVersion (d_prefix d)), s)"
| "append_attempts d p x nanos (Suc n) s =
     (case docs_create_key d (p @ ''/'' @ version_name nanos) x s of
        (Inr u, s) \<Rightarrow> (Inr (), s)
      | (Inl e, s) \<Rightarrow>
          if \<not> is_exists e then (Inl e, s)
          else append_attempts d p x (wrap_int64 (nanos + 1)) n s)"

definition next_nanos :: "time \<Rightarrow> string list \<Rightarrow> int" where
  "next_nanos at keys =
     (case newest_version keys of
        None \<Rightarrow> unix_nano at
      | Some (newest, _) \<Rightarrow> if newest \<ge> unix_nano at then wrap_int64 (newest + 1) else unix_nano at)"

definition versions_append ::
    "('s, 'v, 't) versions \<Rightarrow> time \<Rightarrow> 't \<Rightarrow> string list \<Rightarrow> ('s, state_error, unit) op" where
  "versions_append v at x ids s =
     (let p = docs_key (v_docs v) ids
      in case store_list (d_store (v_docs v)) p s of
           (Inl e, s) \<Rightarrow> (Inl e, s)
         | (Inr keys, s) \<Rightarrow>
             append_attempts (v_docs v) p x (next_nanos at keys) append_attempts_max s)"

subsection \<open>Reading\<close>

record span =
  span_oldest :: time
  span_newest :: time

definition zero_span :: span where
  "zero_span = \<lparr>span_oldest = zero_time, span_newest = zero_time\<rparr>"

definition versions_load ::
    "('s, 'v, 't) versions \<Rightarrow> string list \<Rightarrow> ('s, state_error, 't \<times> span) op" where
  "versions_load v ids s =
     (let p = docs_key (v_docs v) ids
      in case store_list (d_store (v_docs v)) p s of
           (Inl e, s) \<Rightarrow> (Inl e, s)
         | (Inr keys, s) \<Rightarrow>
             (case newest_version keys of
                Some (nanos, key) \<Rightarrow>
                  (case docs_get_key (v_docs v) key s of
                     (Inl e, s) \<Rightarrow> (Inl e, s)
                   | (Inr x, s) \<Rightarrow>
                       let oldest = (case version_span keys of None \<Rightarrow> 0 | Some (o1, _) \<Rightarrow> o1)
                       in (Inr (x, \<lparr>span_oldest = oldest, span_newest = nanos\<rparr>), s))
              | None \<Rightarrow>
                  (case v_legacy v of
                     None \<Rightarrow> (Inl (NotFoundError p), s)
                   | Some l \<Rightarrow>
                       (case docs_get l ids s of
                          (Inl e, s) \<Rightarrow> (Inl e, s)
                        | (Inr x, s) \<Rightarrow> (Inr (x, zero_span), s)))))"

definition versions_newest :: "('s, 'v, 't) versions \<Rightarrow> string list \<Rightarrow> ('s, state_error, 't) op" where
  "versions_newest v ids s =
     (case versions_load v ids s of (Inl e, s) \<Rightarrow> (Inl e, s) | (Inr (x, _), s) \<Rightarrow> (Inr x, s))"

definition versions_keys :: "('s, 'v, 't) versions \<Rightarrow> string list \<Rightarrow> ('s, state_error, string list) op" where
  "versions_keys v ids s =
     (case store_list (d_store (v_docs v)) (docs_key (v_docs v) ids) s of
        (Inl e, s) \<Rightarrow> (Inl e, s)
      | (Inr keys, s) \<Rightarrow> (Inr (filter (\<lambda>k. version_nanos k \<noteq> None) keys), s))"

definition newest_key :: "('s, 'v) store \<Rightarrow> string \<Rightarrow> ('s, state_error, string) op" where
  "newest_key st p s =
     (case store_list st p s of
        (Inl e, s) \<Rightarrow> (Inl e, s)
      | (Inr keys, s) \<Rightarrow>
          (case newest_version keys of
             Some (_, key) \<Rightarrow> (Inr key, s)
           | None \<Rightarrow> (Inl (NotFoundError p), s)))"

text \<open>
  The newest version of every record: the keys are grouped by the directory they lie in, which
  is the record's path; the groups are read in path order.
\<close>

fun newest_by_id :: "(string \<times> int \<times> string) list \<Rightarrow> string list \<Rightarrow> (string \<times> int \<times> string) list" where
  "newest_by_id acc [] = acc"
| "newest_by_id acc (key # ks) =
     (case version_nanos key of
        None \<Rightarrow> newest_by_id acc ks
      | Some nanos \<Rightarrow>
          (case map_of acc (go_dir key) of
             Some (existing, _) \<Rightarrow>
               if existing \<ge> nanos then newest_by_id acc ks
               else newest_by_id (AList.update (go_dir key) (nanos, key) acc) ks
           | None \<Rightarrow> newest_by_id (AList.update (go_dir key) (nanos, key) acc) ks))"

definition newest_key_of :: "(string \<times> int \<times> string) list \<Rightarrow> string \<Rightarrow> string" where
  "newest_key_of acc i = (case map_of acc i of None \<Rightarrow> '''' | Some (_, key) \<Rightarrow> key)"

fun read_legacy ::
    "('s, 'v, 't) documents \<Rightarrow> string \<Rightarrow> string list \<Rightarrow> string list \<Rightarrow> 't list \<Rightarrow> string list \<Rightarrow>
     ('s, state_error, 't list \<times> string list) op" where
  "read_legacy l p versioned [] out unreadable s = (Inr (out, unreadable), s)"
| "read_legacy l p versioned (key # ks) out unreadable s =
     (case go_cut_prefix (d_prefix l @ ''/'') key of
        None \<Rightarrow> read_legacy l p versioned ks out unreadable s
      | Some i \<Rightarrow>
          if p @ ''/'' @ i \<in> set versioned then read_legacy l p versioned ks out unreadable s
          else (case docs_get_key l key s of
                  (Inr x, s) \<Rightarrow> read_legacy l p versioned ks (out @ [x]) unreadable s
                | (Inl e, s) \<Rightarrow>
                    (case skip_unreadable key e unreadable of
                       Inl e' \<Rightarrow> (Inl e', s)
                     | Inr unreadable' \<Rightarrow> read_legacy l p versioned ks out unreadable' s)))"

definition append_legacy ::
    "('s, 'v, 't) versions \<Rightarrow> 't list \<Rightarrow> string list \<Rightarrow> string list \<Rightarrow>
     ('s, state_error, 't list \<times> string list) op" where
  "append_legacy v out unreadable versioned s =
     (case v_legacy v of
        None \<Rightarrow> (Inr (out, unreadable), s)
      | Some l \<Rightarrow>
          (case docs_keys l [] s of
             (Inl e, s) \<Rightarrow> (Inl e, s)
           | (Inr keys, s) \<Rightarrow> read_legacy l (d_prefix (v_docs v)) versioned keys out unreadable s))"

definition versions_latest :: "('s, 'v, 't) versions \<Rightarrow> ('s, state_error, 't list \<times> string list) op" where
  "versions_latest v s =
     (case store_list (d_store (v_docs v)) (d_prefix (v_docs v)) s of
        (Inl e, s) \<Rightarrow> (Inl e, s)
      | (Inr keys, s) \<Rightarrow>
          let by_id = newest_by_id [] keys;
              ids = sorted_set_list (map fst by_id)
          in case docs_read_each (v_docs v) (map (newest_key_of by_id) ids) [] [] s of
               (Inl e, s) \<Rightarrow> (Inl e, s)
             | (Inr (out, unreadable), s) \<Rightarrow> append_legacy v out unreadable ids s)"

definition versions_ids :: "('s, 'v, 't) versions \<Rightarrow> ('s, state_error, string list) op" where
  "versions_ids v s =
     (case docs_ids (v_docs v) s of
        (Inl e, s) \<Rightarrow> (Inl e, s)
      | (Inr ids, s) \<Rightarrow>
          (case v_legacy v of
             None \<Rightarrow> (Inr (sorted_set_list ids), s)
           | Some l \<Rightarrow>
               (case docs_ids l s of
                  (Inl e, s) \<Rightarrow> (Inl e, s)
                | (Inr legacy_ids, s) \<Rightarrow> (Inr (sorted_set_list (ids @ legacy_ids)), s))))"

subsection \<open>Deleting\<close>

fun delete_each ::
    "('s, 'v, 't) documents \<Rightarrow> string list \<Rightarrow> bool \<Rightarrow> ('s, bool \<times> state_error, bool) op" where
  "delete_each d [] removed s = (Inr removed, s)"
| "delete_each d (key # ks) removed s =
     (case docs_delete_key d key s of
        (Inr u, s) \<Rightarrow> delete_each d ks True s
      | (Inl e, s) \<Rightarrow>
          if is_not_found e then delete_each d ks removed s else (Inl (removed, e), s))"

text \<open>The error return carries what was removed so far, as the code's first result does.\<close>

definition versions_delete_all ::
    "('s, 'v, 't) versions \<Rightarrow> string list \<Rightarrow> ('s, bool \<times> state_error, bool) op" where
  "versions_delete_all v ids s =
     (case store_list (d_store (v_docs v)) (docs_key (v_docs v) ids) s of
        (Inl e, s) \<Rightarrow> (Inl (False, e), s)
      | (Inr keys, s) \<Rightarrow>
          (case delete_each (v_docs v) keys False s of
             (Inl e, s) \<Rightarrow> (Inl e, s)
           | (Inr removed, s) \<Rightarrow>
               (case v_legacy v of
                  None \<Rightarrow> (Inr removed, s)
                | Some l \<Rightarrow>
                    (case docs_delete l ids s of
                       (Inr u, s) \<Rightarrow> (Inr True, s)
                     | (Inl e, s) \<Rightarrow>
                         if is_not_found e then (Inr removed, s) else (Inl (removed, e), s)))))"

subsection \<open>Version names\<close>

lemma dec_digits_int64: "0 \<le> n \<Longrightarrow> n \<le> max_int64 \<Longrightarrow> length (dec_digits (nat n)) \<le> version_width"
  by (rule length_dec_digits) (auto simp: version_width_def max_int64_def)

lemma slash_notin_digits: "CHR ''/'' \<notin> set (pad_zero w (dec_digits n))"
  using pad_zero_digits digit_char_not_sign by fastforce

lemma version_nanos_name:
  assumes "0 \<le> n" "n \<le> max_int64"
  shows "version_nanos (p @ ''/'' @ version_name n) = Some n"
proof -
  let ?name = "pad_zero version_width (dec_digits (nat n))"
  have "go_after_last (CHR ''/'') (p @ ''/'' @ ?name) = ?name"
    using slash_notin_digits by (simp add: go_after_last_append)
  moreover have "length ?name = version_width"
    using dec_digits_int64 [OF assms] by (rule length_pad_zero)
  moreover have "parse_int64 ?name = Some n"
    using assms by (simp add: parse_int64_pad)
  ultimately show ?thesis
    using assms by (simp add: version_nanos_def version_name_def format_int_width_nonneg)
qed

lemma version_name_order:
  assumes "0 \<le> a" "a \<le> max_int64" "0 \<le> b" "b \<le> max_int64"
  shows "version_name a < version_name b \<longleftrightarrow> a < b"
  using assms pad_zero_order [OF dec_digits_int64 [OF assms(1,2)] dec_digits_int64 [OF assms(3,4)]]
  by (auto simp: version_name_def format_int_width_nonneg)

lemma version_nanos_range: "version_nanos k = Some n \<Longrightarrow> 0 \<le> n \<and> n \<le> max_int64"
  by (auto simp: version_nanos_def parse_int64_def Let_def split: if_splits option.splits prod.splits)

lemma unix_nano_id: "0 \<le> t \<Longrightarrow> t \<le> max_int64 \<Longrightarrow> unix_nano t = t"
  by (simp add: unix_nano_def wrap_int64_id min_int64_def)

subsection \<open>The newest of a listing\<close>

definition is_newest :: "string set \<Rightarrow> (int \<times> string) option \<Rightarrow> bool" where
  "is_newest K b \<longleftrightarrow>
     (case b of
        None \<Rightarrow> \<forall>k\<in>K. version_nanos k = None
      | Some (n, k) \<Rightarrow> k \<in> K \<and> version_nanos k = Some n \<and>
          (\<forall>k'\<in>K. \<forall>n'. version_nanos k' = Some n' \<longrightarrow> n' \<le> n))"

lemma newest_from_spec: "is_newest K b \<Longrightarrow> is_newest (K \<union> set ks) (newest_from b ks)"
proof (induction ks arbitrary: b K)
  case (Cons k ks)
  let ?b = "case version_nanos k of None \<Rightarrow> b
    | Some n \<Rightarrow> (case b of Some (m, key) \<Rightarrow> if n \<le> m then b else Some (n, k) | None \<Rightarrow> Some (n, k))"
  have "is_newest (insert k K) ?b"
    using Cons.prems by (auto simp: is_newest_def split: option.splits if_splits)
  then have "is_newest (insert k K \<union> set ks) (newest_from ?b ks)" by (rule Cons.IH)
  moreover have "newest_from b (k # ks) = newest_from ?b ks"
    by (auto split: option.splits)
  ultimately show ?case by simp
qed simp

lemma newest_version_spec: "is_newest (set ks) (newest_version ks)"
  using newest_from_spec [of "{}" None ks] by (simp add: newest_version_def is_newest_def)

lemma newest_version_Some:
  assumes "newest_version ks = Some (n, k)"
  shows "k \<in> set ks" "version_nanos k = Some n"
    "k' \<in> set ks \<Longrightarrow> version_nanos k' = Some n' \<Longrightarrow> n' \<le> n"
  using newest_version_spec [of ks] assms by (auto simp: is_newest_def)

lemma newest_version_None:
  "newest_version ks = None \<Longrightarrow> k \<in> set ks \<Longrightarrow> version_nanos k = None"
  using newest_version_spec [of ks] by (auto simp: is_newest_def)

lemma next_nanos_greater:
  assumes "k \<in> set ks" "version_nanos k = Some n" "0 \<le> at" "at \<le> max_int64"
    and "\<forall>k\<in>set ks. \<forall>n. version_nanos k = Some n \<longrightarrow> n < max_int64"
  shows "n < next_nanos at ks"
proof -
  obtain m key where m: "newest_version ks = Some (m, key)"
    using newest_version_None [OF _ assms(1)] assms(2) by (cases "newest_version ks") auto
  have "n \<le> m" "m < max_int64" "0 \<le> m"
    using newest_version_Some [OF m] assms version_nanos_range by auto
  then show ?thesis
    using m assms(3,4) by (auto simp: next_nanos_def unix_nano_id wrap_int64_id min_int64_def)
qed

lemma next_nanos_range:
  assumes "0 \<le> at" "at \<le> max_int64"
    and "\<forall>k\<in>set ks. \<forall>n. version_nanos k = Some n \<longrightarrow> n < max_int64"
  shows "0 \<le> next_nanos at ks \<and> next_nanos at ks \<le> max_int64"
proof (cases "newest_version ks")
  case None
  then show ?thesis using assms by (simp add: next_nanos_def unix_nano_id)
next
  case (Some b)
  obtain m key where b: "b = (m, key)" by fastforce
  have "0 \<le> m" "m < max_int64"
    using newest_version_Some [OF Some [unfolded b]] assms(3) version_nanos_range by auto
  then show ?thesis
    using Some b assms by (auto simp: next_nanos_def unix_nano_id wrap_int64_id min_int64_def)
qed

subsection \<open>Grouping by record\<close>

text \<open>The group table holds, for every record seen, its newest version.\<close>

definition groups_ok :: "string set \<Rightarrow> (string \<times> int \<times> string) list \<Rightarrow> bool" where
  "groups_ok K acc \<longleftrightarrow>
     (\<forall>i. case map_of acc i of
            None \<Rightarrow> \<forall>k\<in>K. go_dir k = i \<longrightarrow> version_nanos k = None
          | Some (n, k) \<Rightarrow> k \<in> K \<and> go_dir k = i \<and> version_nanos k = Some n \<and>
              (\<forall>k'\<in>K. \<forall>n'. go_dir k' = i \<longrightarrow> version_nanos k' = Some n' \<longrightarrow> n' \<le> n))"

lemma groups_ok_Some:
  "groups_ok K acc \<Longrightarrow> map_of acc i = Some (n, k) \<Longrightarrow>
    k \<in> K \<and> go_dir k = i \<and> version_nanos k = Some n \<and>
    (\<forall>k'\<in>K. \<forall>n'. go_dir k' = i \<longrightarrow> version_nanos k' = Some n' \<longrightarrow> n' \<le> n)"
  unfolding groups_ok_def by (drule spec [of _ i]) auto

lemma groups_ok_None:
  "groups_ok K acc \<Longrightarrow> map_of acc i = None \<Longrightarrow> k \<in> K \<Longrightarrow> go_dir k = i \<Longrightarrow> version_nanos k = None"
  unfolding groups_ok_def by (drule spec [of _ i]) auto

lemma groups_ok_skip:
  "groups_ok K acc \<Longrightarrow> version_nanos key = None \<Longrightarrow> groups_ok (insert key K) acc"
  unfolding groups_ok_def by (fastforce split: option.splits)

lemma groups_ok_older:
  "groups_ok K acc \<Longrightarrow> version_nanos key = Some n \<Longrightarrow> map_of acc (go_dir key) = Some (e, k) \<Longrightarrow>
    n \<le> e \<Longrightarrow> groups_ok (insert key K) acc"
  unfolding groups_ok_def
  by (intro allI) (drule_tac x = i in spec, auto split: option.splits)

lemma groups_ok_newer:
  assumes "groups_ok K acc" "version_nanos key = Some n"
    and "map_of acc (go_dir key) = None \<or> (\<exists>e k. map_of acc (go_dir key) = Some (e, k) \<and> e < n)"
  shows "groups_ok (insert key K) (AList.update (go_dir key) (n, key) acc)"
  unfolding groups_ok_def map_of_alist_update
proof (intro allI)
  fix i
  show "case ((map_of acc)(go_dir key \<mapsto> (n, key))) i of
      None \<Rightarrow> \<forall>k\<in>insert key K. go_dir k = i \<longrightarrow> version_nanos k = None
    | Some (n, k) \<Rightarrow> k \<in> insert key K \<and> go_dir k = i \<and> version_nanos k = Some n \<and>
        (\<forall>k'\<in>insert key K. \<forall>n'. go_dir k' = i \<longrightarrow> version_nanos k' = Some n' \<longrightarrow> n' \<le> n)"
  proof (cases "i = go_dir key")
    case True
    have "n' \<le> n" if "k' \<in> K" "go_dir k' = i" "version_nanos k' = Some n'" for k' n'
      using assms(3) groups_ok_None [OF assms(1)] groups_ok_Some [OF assms(1)] that True by fastforce
    then show ?thesis using True assms(2) by auto
  next
    case False
    then show ?thesis
      using assms(1) unfolding groups_ok_def by (drule_tac spec [of _ i]) (auto split: option.splits)
  qed
qed

lemma newest_by_id_ok: "groups_ok K acc \<Longrightarrow> groups_ok (K \<union> set ks) (newest_by_id acc ks)"
proof (induction ks arbitrary: K acc)
  case (Cons key ks)
  have step: "groups_ok (insert key K \<union> set ks) (newest_by_id acc' ks)"
    if "groups_ok (insert key K) acc'" for acc'
    using Cons.IH [OF that] by simp
  show ?case
  proof (cases "version_nanos key")
    case None
    then show ?thesis using step [OF groups_ok_skip [OF Cons.prems None]] by simp
  next
    case (Some n)
    show ?thesis
    proof (cases "map_of acc (go_dir key)")
      case None
      then show ?thesis
        using step [OF groups_ok_newer [OF Cons.prems Some]] Some by simp
    next
      case (Some b)
      obtain e k where b: "b = (e, k)" by fastforce
      show ?thesis
      proof (cases "n \<le> e")
        case True
        then show ?thesis
          using step [OF groups_ok_older [OF Cons.prems \<open>version_nanos key = Some n\<close> Some [unfolded b]]]
            \<open>version_nanos key = Some n\<close> Some b by simp
      next
        case False
        then show ?thesis
          using step [OF groups_ok_newer [OF Cons.prems \<open>version_nanos key = Some n\<close>]]
            \<open>version_nanos key = Some n\<close> Some b by simp
      qed
    qed
  qed
qed simp

lemma newest_by_id_spec: "groups_ok (set ks) (newest_by_id [] ks)"
  using newest_by_id_ok [of "{}" "[]" ks] by (simp add: groups_ok_def)

subsection \<open>Append-only\<close>

text \<open>The versions stored under a record's path.\<close>

definition record_keys :: "(string \<rightharpoonup> 'v) \<Rightarrow> string \<Rightarrow> string set" where
  "record_keys m p = {k \<in> dom m. has_segment_prefix k p}"

definition stamps_below :: "(string \<rightharpoonup> 'v) \<Rightarrow> string \<Rightarrow> int \<Rightarrow> bool" where
  "stamps_below m p b \<longleftrightarrow> (\<forall>k\<in>record_keys m p. \<forall>n. version_nanos k = Some n \<longrightarrow> n < b)"

text \<open>What a read of a record may answer: the newest version, or the legacy document when there is none.\<close>

definition versions_hold :: "('s, 'v, 't) versions \<Rightarrow> (string \<rightharpoonup> 'v) \<Rightarrow> string list \<Rightarrow> 't \<Rightarrow> bool" where
  "versions_hold v m ids x \<longleftrightarrow>
     (\<exists>k n. k \<in> record_keys m (docs_key (v_docs v) ids) \<and> version_nanos k = Some n \<and>
        (\<forall>k' \<in> record_keys m (docs_key (v_docs v) ids). \<forall>n'. version_nanos k' = Some n' \<longrightarrow> n' \<le> n) \<and>
        doc_at (v_docs v) m k = Some x) \<or>
     (\<forall>k \<in> record_keys m (docs_key (v_docs v) ids). version_nanos k = None) \<and>
       (\<exists>l. v_legacy v = Some l \<and> doc_at l m (docs_key l ids) = Some x)"

locale versioned = collection st view "v_docs v"
  for st :: "('s, 'v) store" and view :: "'s \<Rightarrow> string \<rightharpoonup> 'v" and v :: "('s, 'v, 't) versions" +
  assumes legacy_collection: "v_legacy v = Some l \<Longrightarrow> collection st view l"
begin

lemma append_attempts_effect:
  "append_attempts (v_docs v) p x nanos n s = (r, s') \<Longrightarrow>
    (view s' = view s \<and> r \<noteq> Inr ()) \<or>
    (\<exists>m raw. d_encode (v_docs v) x = Some raw \<and> view s (p @ ''/'' @ version_name m) = None \<and>
       view s' = (view s)(p @ ''/'' @ version_name m \<mapsto> raw))"
proof (induction n arbitrary: nanos s)
  case (Suc n)
  let ?k = "p @ ''/'' @ version_name nanos"
  obtain q s1 where c: "docs_create_key (v_docs v) ?k x s = (q, s1)" by fastforce
  show ?case
  proof (cases q)
    case (Inr u)
    then have "r = Inr ()" "s1 = s'" using Suc.prems c by auto
    then show ?thesis using docs_create_key_ok [OF c [unfolded Inr]] by blast
  next
    case (Inl e)
    show ?thesis
    proof (cases "is_exists e")
      case True
      then have "view s1 = view s" using docs_create_key_exists [OF c [unfolded Inl]] by simp
      then show ?thesis using Suc.IH [of "wrap_int64 (nanos + 1)" s1] Suc.prems c Inl True by simp
    next
      case False
      then have "r \<noteq> Inr ()" "s1 = s'" using Suc.prems c Inl by auto
      then show ?thesis using docs_create_key_fails [OF c [unfolded Inl]] by blast
    qed
  qed
qed auto

lemma append_attempts_fresh:
  assumes "append_attempts (v_docs v) p x nanos (Suc n) s = (r, s')"
    and "view s (p @ ''/'' @ version_name nanos) = None"
  shows "(view s' = view s \<and> r \<noteq> Inr ()) \<or>
    (\<exists>raw. d_encode (v_docs v) x = Some raw \<and> view s' = (view s)(p @ ''/'' @ version_name nanos \<mapsto> raw))"
proof -
  let ?k = "p @ ''/'' @ version_name nanos"
  obtain q s1 where c: "docs_create_key (v_docs v) ?k x s = (q, s1)" by fastforce
  show ?thesis
  proof (cases q)
    case (Inr u)
    then show ?thesis using docs_create_key_ok [OF c [unfolded Inr]] assms(1) c by auto
  next
    case (Inl e)
    then have "\<not> is_exists e" using docs_create_key_exists [OF c [unfolded Inl]] assms(2) by auto
    then show ?thesis using docs_create_key_fails [OF c [unfolded Inl]] assms(1) c Inl by auto
  qed
qed

lemma versions_append_keeps:
  assumes "versions_append v at x ids s = (r, s')" "view s k = Some w"
  shows "view s' k = Some w"
proof -
  let ?p = "docs_key (v_docs v) ids"
  obtain ks s1 where l: "store_list st ?p s = (ks, s1)" by fastforce
  have v1: "view s1 = view s" using l by (rule list_view)
  show ?thesis
  proof (cases ks)
    case (Inl e)
    then show ?thesis using assms l v1 by (simp add: versions_append_def store_of Let_def)
  next
    case (Inr keys)
    then have "append_attempts (v_docs v) ?p x (next_nanos at keys) append_attempts_max s1 = (r, s')"
      using assms(1) l by (simp add: versions_append_def store_of Let_def)
    from append_attempts_effect [OF this] show ?thesis using assms(2) v1 by auto
  qed
qed

text \<open>
  What an append does to the store: nothing, or exactly one new document, whose stamp is later
  than every version stored for the record; and it reports success only in the second case.
\<close>

lemma versions_append_effect:
  assumes a: "versions_append v at x ids s = (r, s')"
    and ids: "ids \<noteq> []" "last ids \<noteq> []"
    and at: "0 \<le> at" "at \<le> max_int64"
    and room: "stamps_below (view s) (docs_key (v_docs v) ids) max_int64"
  shows "(view s' = view s \<and> r \<noteq> Inr ()) \<or>
    (\<exists>n raw. 0 \<le> n \<and> n \<le> max_int64 \<and> d_encode (v_docs v) x = Some raw \<and>
       stamps_below (view s) (docs_key (v_docs v) ids) n \<and>
       view s' = (view s)(docs_key (v_docs v) ids @ ''/'' @ version_name n \<mapsto> raw))"
proof -
  let ?p = "docs_key (v_docs v) ids"
  obtain ks s1 where l: "store_list st ?p s = (ks, s1)" by fastforce
  have v1: "view s1 = view s" using l by (rule list_view)
  show ?thesis
  proof (cases ks)
    case (Inl e)
    then show ?thesis using a l v1 by (auto simp: versions_append_def store_of Let_def)
  next
    case (Inr keys)
    let ?n = "next_nanos at keys"
    have keys: "set keys = record_keys (view s) ?p"
      using list_set [OF l [unfolded Inr]] by (simp add: record_keys_def)
    have below: "stamps_below (view s) ?p ?n"
      using next_nanos_greater [OF _ _ at] room keys by (auto simp: stamps_below_def)
    have range: "0 \<le> ?n" "?n \<le> max_int64"
      using next_nanos_range [OF at] room keys by (auto simp: stamps_below_def)
    have pre: "has_segment_prefix (?p @ ''/'' @ version_name ?n) ?p"
      using has_segment_prefix_below [OF docs_key_not_nil last_docs_key [OF ids]] by simp
    have fresh: "view s1 (?p @ ''/'' @ version_name ?n) = None"
    proof (rule ccontr)
      assume "view s1 (?p @ ''/'' @ version_name ?n) \<noteq> None"
      then have "?p @ ''/'' @ version_name ?n \<in> record_keys (view s) ?p"
        using pre v1 by (auto simp: record_keys_def)
      then show False
        using below version_nanos_name [OF range] by (auto simp: stamps_below_def)
    qed
    have "append_attempts (v_docs v) ?p x ?n (Suc 31) s1 = (r, s')"
      using a l Inr by (simp add: versions_append_def store_of Let_def append_attempts_max_def numeral_eq_Suc)
    from append_attempts_fresh [OF this fresh] show ?thesis using v1 below range by auto
  qed
qed

subsection \<open>Reading the newest version\<close>

lemma versions_load_view [frame]: "versions_load v ids s = (r, s') \<Longrightarrow> view s' = view s"
proof -
  assume a: "versions_load v ids s = (r, s')"
  obtain ks s1 where l: "store_list st (docs_key (v_docs v) ids) s = (ks, s1)" by fastforce
  have "view s1 = view s" using l by (rule list_view)
  moreover have "view s' = view s1"
    using a l
    by (auto simp: versions_load_def store_of Let_def docs_get_def
        split: sum.splits option.splits prod.splits
        dest: docs_get_key_view collection.docs_get_key_view [OF legacy_collection])
  ultimately show ?thesis by simp
qed

lemma versions_load_newest:
  assumes load: "versions_load v ids s = (r, s')"
    and k: "k \<in> record_keys (view s) (docs_key (v_docs v) ids)" "version_nanos k = Some n"
    and newest: "\<And>k' n'. k' \<in> record_keys (view s) (docs_key (v_docs v) ids) \<Longrightarrow> k' \<noteq> k \<Longrightarrow>
      version_nanos k' = Some n' \<Longrightarrow> n' < n"
  shows "(case r of
      Inr (x, sp) \<Rightarrow> doc_at (v_docs v) (view s) k = Some x \<and> span_newest sp = n
    | Inl e \<Rightarrow> \<not> is_not_found e \<and> (is_malformed e \<longrightarrow> corrupt_at (v_docs v) (view s) k))"
proof -
  let ?p = "docs_key (v_docs v) ids"
  obtain ks s1 where l: "store_list st ?p s = (ks, s1)" by fastforce
  have v1: "view s1 = view s" using l by (rule list_view)
  show ?thesis
  proof (cases ks)
    case (Inl e)
    then show ?thesis
      using load l list_fails [OF l [unfolded Inl]] by (auto simp: versions_load_def store_of Let_def)
  next
    case (Inr keys)
    have keys: "set keys = record_keys (view s) ?p"
      using list_set [OF l [unfolded Inr]] by (simp add: record_keys_def)
    obtain m key where m: "newest_version keys = Some (m, key)"
      using newest_version_None [of keys k] k keys by (cases "newest_version keys") auto
    note key = newest_version_Some [OF m]
    have "key = k \<and> m = n"
    proof (rule ccontr)
      assume "\<not> (key = k \<and> m = n)"
      then have "key \<noteq> k" using key(2) k(2) by auto
      then have "m < n" using newest [of key m] key(1,2) keys by simp
      moreover have "n \<le> m" using key(3) [of k n] k keys by simp
      ultimately show False by simp
    qed
    then have nk: "newest_version keys = Some (n, k)" using m by simp
    obtain q s2 where g: "docs_get_key (v_docs v) k s1 = (q, s2)" by fastforce
    show ?thesis
    proof (cases q)
      case (Inr x)
      then show ?thesis
        using docs_get_key_ok [OF g [unfolded Inr]] load l \<open>ks = Inr keys\<close> nk g v1
        by (auto simp: versions_load_def store_of Let_def)
    next
      case (Inl e)
      have "view s k \<noteq> None" using k(1) by (auto simp: record_keys_def)
      then show ?thesis
        using docs_get_key_missing [OF g [unfolded Inl]] docs_get_key_malformed [OF g [unfolded Inl]]
          load l \<open>ks = Inr keys\<close> nk g v1 Inl
        by (auto simp: versions_load_def store_of Let_def)
    qed
  qed
qed

text \<open>The version just written is the one read next, whatever the transport does to the read.\<close>

lemma versions_append_read:
  assumes a: "versions_append v at x ids s = (Inr u, s1)"
    and ids: "ids \<noteq> []" "last ids \<noteq> []"
    and at: "0 \<le> at" "at \<le> max_int64"
    and room: "stamps_below (view s) (docs_key (v_docs v) ids) max_int64"
    and same: "view s2 = view s1" and l: "versions_load v ids s2 = (r, s3)"
  shows "(case r of Inr (y, sp) \<Rightarrow> y = x | Inl e \<Rightarrow> \<not> is_not_found e \<and> \<not> is_malformed e)"
proof -
  let ?p = "docs_key (v_docs v) ids"
  from versions_append_effect [OF a ids at room] obtain n raw where
    n: "0 \<le> n" "n \<le> max_int64" and raw: "d_encode (v_docs v) x = Some raw"
    and below: "stamps_below (view s) ?p n"
    and v: "view s1 = (view s)(?p @ ''/'' @ version_name n \<mapsto> raw)"
    by auto
  let ?k = "?p @ ''/'' @ version_name n"
  have pre: "has_segment_prefix ?k ?p"
    using has_segment_prefix_below [OF docs_key_not_nil last_docs_key [OF ids]] by simp
  have k: "?k \<in> record_keys (view s1) ?p" "version_nanos ?k = Some n"
    using pre v version_nanos_name [OF n] by (auto simp: record_keys_def)
  have newest: "n' < n" if "k' \<in> record_keys (view s1) ?p" "k' \<noteq> ?k" "version_nanos k' = Some n'" for k' n'
  proof -
    have "k' \<in> record_keys (view s) ?p" using that v by (auto simp: record_keys_def)
    then show ?thesis using below that by (auto simp: stamps_below_def)
  qed
  have "doc_at (v_docs v) (view s1) ?k = Some x" "\<not> corrupt_at (v_docs v) (view s1) ?k"
    using v codec [OF raw] by (auto simp: doc_at_def corrupt_at_def)
  then show ?thesis
    using versions_load_newest [OF l k [folded same] newest [folded same]] same by (auto split: sum.splits)
qed

lemma versions_append_load:
  assumes "versions_append v at x ids s = (Inr u, s1)" "ids \<noteq> []" "last ids \<noteq> []" "0 \<le> at" "at \<le> max_int64"
    "stamps_below (view s) (docs_key (v_docs v) ids) max_int64" "versions_load v ids s1 = (r, s2)"
  shows "(case r of Inr (y, sp) \<Rightarrow> y = x | Inl e \<Rightarrow> \<not> is_not_found e \<and> \<not> is_malformed e)"
  by (rule versions_append_read [OF assms(1-6) refl assms(7)])

subsection \<open>Listing and deleting\<close>

lemma read_legacy_grows:
  "read_legacy l p vkeys ks out un s = (Inr (vals, unreadable), s') \<Longrightarrow>
    set out \<subseteq> set vals \<and> set un \<subseteq> set unreadable"
proof (induction ks arbitrary: out un s)
  case (Cons k ks)
  then show ?case
    by (fastforce simp: skip_unreadable_def split: option.splits if_splits prod.splits sum.splits)
qed simp

lemma append_legacy_grows:
  "append_legacy v out un vkeys s = (Inr (vals, unreadable), s') \<Longrightarrow>
    set out \<subseteq> set vals \<and> set un \<subseteq> set unreadable"
  by (auto simp: append_legacy_def split: option.splits prod.splits sum.splits
      dest!: read_legacy_grows)

text \<open>
  A listing that succeeds accounts for every record: the newest of its versions is among the
  values, or its key is reported as unreadable. Nothing is dropped.
\<close>

lemma versions_latest_complete:
  assumes a: "versions_latest v s = (Inr (vals, unreadable), s')"
    and k: "k \<in> record_keys (view s) (d_prefix (v_docs v))" "version_nanos k = Some n"
  shows "\<exists>k' n'. k' \<in> record_keys (view s) (d_prefix (v_docs v)) \<and> go_dir k' = go_dir k \<and>
    version_nanos k' = Some n' \<and>
    (\<forall>j\<in>record_keys (view s) (d_prefix (v_docs v)). \<forall>m. go_dir j = go_dir k \<longrightarrow>
       version_nanos j = Some m \<longrightarrow> m \<le> n') \<and>
    (case doc_at (v_docs v) (view s) k' of
       Some x \<Rightarrow> x \<in> set vals | None \<Rightarrow> k' \<in> set unreadable)"
proof -
  let ?p = "d_prefix (v_docs v)"
  from a obtain keys s1 where l: "store_list st ?p s = (Inr keys, s1)"
    by (auto simp: versions_latest_def store_of split: prod.splits sum.splits)
  let ?g = "newest_by_id [] keys" and ?ids = "sorted_set_list (map fst (newest_by_id [] keys))"
  have keys: "set keys = record_keys (view s) ?p"
    using list_set [OF l] by (simp add: record_keys_def)
  have v1: "view s1 = view s" using l by (rule list_view)
  from a l obtain out un s2 where
    r: "docs_read_each (v_docs v) (map (newest_key_of ?g) ?ids) [] [] s1 = (Inr (out, un), s2)"
    and al: "append_legacy v out un ?ids s2 = (Inr (vals, unreadable), s')"
    by (auto simp: versions_latest_def store_of Let_def split: prod.splits sum.splits)
  obtain n' k' where g: "map_of ?g (go_dir k) = Some (n', k')"
    using groups_ok_None [OF newest_by_id_spec [of keys], of "go_dir k" k] k keys
    by (cases "map_of ?g (go_dir k)") auto
  note gk = groups_ok_Some [OF newest_by_id_spec g]
  have "go_dir k \<in> set ?ids" using g by (force dest: map_of_SomeD)
  define rk where "rk = map (newest_key_of ?g) ?ids"
  have mem: "k' \<in> set rk"
    using g \<open>go_dir k \<in> set ?ids\<close> by (force simp: newest_key_of_def rk_def)
  have out: "out = List.map_filter (doc_at (v_docs v) (view s)) rk"
    and un: "un = filter (corrupt_at (v_docs v) (view s)) rk"
    using docs_read_each_spec [OF r] v1 by (simp_all add: rk_def)
  have "view s k' \<noteq> None" using gk keys by (auto simp: record_keys_def)
  then have "case doc_at (v_docs v) (view s) k' of
      Some x \<Rightarrow> x \<in> set out | None \<Rightarrow> k' \<in> set un"
    using mem unfolding out un
    by (auto simp: in_set_map_filter corrupt_at_def split: option.splits)
      (auto simp: doc_at_def)
  then have "case doc_at (v_docs v) (view s) k' of
      Some x \<Rightarrow> x \<in> set vals | None \<Rightarrow> k' \<in> set unreadable"
    using append_legacy_grows [OF al] by (auto split: option.splits)
  then show ?thesis using gk keys by (intro exI [of _ k'] exI [of _ n']) auto
qed

lemma delete_each_others:
  "delete_each (v_docs v) ks b s = (r, s') \<Longrightarrow> k \<notin> set ks \<Longrightarrow> view s' k = view s k"
proof (induction ks arbitrary: b s)
  case (Cons key ks)
  obtain q s1 where d: "docs_delete_key (v_docs v) key s = (q, s1)" by fastforce
  then have "view s1 k = view s k" using Cons.prems(2) by (auto dest: docs_delete_key_others)
  then show ?case
    using Cons d by (cases q) (auto split: if_splits)
qed simp

lemma delete_each_gone:
  "delete_each (v_docs v) ks b s = (Inr removed, s') \<Longrightarrow> k \<in> set ks \<Longrightarrow> view s' k = None"
proof (induction ks arbitrary: b s)
  case (Cons key ks)
  obtain q s1 where d: "docs_delete_key (v_docs v) key s = (q, s1)" by fastforce
  have gone: "view s1 key = None"
    using Cons.prems(1) d
    by (cases q) (auto simp: docs_delete_key_def store_of split: if_splits
        dest: delete_ok delete_missing)
  obtain b' where rest: "delete_each (v_docs v) ks b' s1 = (Inr removed, s')"
    using Cons.prems(1) d by (cases q) (auto split: if_splits)
  show ?case
  proof (cases "k \<in> set ks")
    case True
    with Cons.IH [OF rest] show ?thesis .
  next
    case False
    then show ?thesis using delete_each_others [OF rest] gone Cons.prems(2) by auto
  qed
qed simp

text \<open>After a delete that succeeded no version is left, in either layout, and a read says so.\<close>

lemma versions_delete_all_gone:
  assumes "versions_delete_all v ids s = (Inr removed, s')"
  shows "record_keys (view s') (docs_key (v_docs v) ids) = {} \<and>
    (\<forall>l. v_legacy v = Some l \<longrightarrow> view s' (docs_key l ids) = None)"
proof -
  let ?p = "docs_key (v_docs v) ids"
  obtain keys s1 where l: "store_list st ?p s = (Inr keys, s1)"
    using assms by (cases "store_list st ?p s") (auto simp: versions_delete_all_def store_of split: sum.splits)
  obtain b s2 where d: "delete_each (v_docs v) keys False s1 = (Inr b, s2)"
    using assms l by (cases "delete_each (v_docs v) keys False s1")
      (auto simp: versions_delete_all_def store_of split: sum.splits)
  have keys: "set keys = record_keys (view s1) ?p"
    using list_set [OF l] list_view [OF l] by (simp add: record_keys_def)
  have gone: "record_keys (view s2) ?p = {}"
  proof (rule ccontr)
    assume "record_keys (view s2) ?p \<noteq> {}"
    then obtain k where k: "view s2 k \<noteq> None" "has_segment_prefix k ?p" by (auto simp: record_keys_def)
    then have "k \<notin> set keys" using delete_each_gone [OF d] by auto
    then show False using delete_each_others [OF d] k keys by (auto simp: record_keys_def)
  qed
  show ?thesis
  proof (cases "v_legacy v")
    case None
    then show ?thesis using assms l d gone by (auto simp: versions_delete_all_def store_of)
  next
    case (Some c)
    obtain q s3 where q: "docs_delete c ids s2 = (q, s3)" by fastforce
    have st: "d_store c = st" using legacy_collection [OF Some] by (simp add: collection.store_of)
    have q': "store_delete st (docs_key c ids) s2 = (q, s3)"
      using q by (simp add: docs_delete_def docs_delete_key_def st)
    have s': "s' = s3" "(\<exists>u. q = Inr u) \<or> (\<exists>e. q = Inl e \<and> is_not_found e)"
      using assms l d q Some
      by (auto simp: versions_delete_all_def store_of split: sum.splits if_splits)
    have "view s3 (docs_key c ids) = None"
      using s'(2) q' by (auto dest: delete_ok delete_missing)
    moreover have "record_keys (view s3) ?p \<subseteq> record_keys (view s2) ?p"
    proof
      fix k assume k: "k \<in> record_keys (view s3) ?p"
      then have "k \<noteq> docs_key c ids" using calculation by (auto simp: record_keys_def)
      then show "k \<in> record_keys (view s2) ?p"
        using k delete_others [OF q'] by (auto simp: record_keys_def domIff)
    qed
    ultimately show ?thesis using gone Some s'(1) by auto
  qed
qed

lemma versions_load_gone:
  assumes "versions_load v ids s = (r, s')" "record_keys (view s) (docs_key (v_docs v) ids) = {}"
    "\<And>l. v_legacy v = Some l \<Longrightarrow> view s (docs_key l ids) = None"
  shows "\<exists>e. r = Inl e \<and> \<not> is_malformed e"
proof -
  let ?p = "docs_key (v_docs v) ids"
  obtain ks s1 where l: "store_list st ?p s = (ks, s1)" by fastforce
  show ?thesis
  proof (cases ks)
    case (Inl e)
    then show ?thesis using assms(1) l list_fails [OF l [unfolded Inl]]
      by (auto simp: versions_load_def store_of Let_def)
  next
    case (Inr keys)
    then have "set keys = {}" using list_set [OF l [unfolded Inr]] assms(2) by (simp add: record_keys_def)
    then have "keys = []" by simp
    then have none: "newest_version keys = None" by (simp add: newest_version_def)
    show ?thesis
    proof (cases "v_legacy v")
      case None
      then show ?thesis using assms(1) l Inr none by (auto simp: versions_load_def store_of Let_def)
    next
      case (Some c)
      obtain q s2 where g: "docs_get_key c (docs_key c ids) s1 = (q, s2)" by fastforce
      have "view s1 (docs_key c ids) = None" using assms(3) [OF Some] list_view [OF l] by simp
      then have "\<exists>e. q = Inl e \<and> \<not> is_malformed e"
        using collection.docs_get_key_ok [OF legacy_collection [OF Some], of "docs_key c ids" s1]
          collection.docs_get_key_malformed [OF legacy_collection [OF Some], of "docs_key c ids" s1] g
        by (cases q) (auto simp: doc_at_def corrupt_at_def)
      then show ?thesis using assms(1) l Inr none Some g
        by (auto simp: versions_load_def store_of Let_def docs_get_def)
    qed
  qed
qed

lemma versions_load_holds:
  assumes "versions_load v ids s = (Inr (x, sp), s')"
  shows "versions_hold v (view s) ids x"
proof -
  let ?p = "docs_key (v_docs v) ids"
  obtain keys s1 where l: "store_list st ?p s = (Inr keys, s1)"
    using assms by (cases "store_list st ?p s") (auto simp: versions_load_def store_of Let_def split: sum.splits)
  have v1: "view s1 = view s" and keys: "set keys = record_keys (view s) ?p"
    using list_view [OF l] list_set [OF l] by (simp_all add: record_keys_def)
  show ?thesis
  proof (cases "newest_version keys")
    case (Some m)
    then obtain n k where m: "newest_version keys = Some (n, k)" by (cases m) auto
    obtain s2 where "docs_get_key (v_docs v) k s1 = (Inr x, s2)"
      using assms l m by (auto simp: versions_load_def store_of Let_def split: prod.splits sum.splits)
    then have "doc_at (v_docs v) (view s) k = Some x" using docs_get_key_ok v1 by metis
    then show ?thesis
      using newest_version_Some [OF m] keys unfolding versions_hold_def by blast
  next
    case None
    obtain c where c: "v_legacy v = Some c" "docs_get c ids s1 = (Inr x, s')"
      using assms l None by (auto simp: versions_load_def store_of Let_def split: option.splits prod.splits sum.splits)
    then have "doc_at c (view s) (docs_key c ids) = Some x"
      using collection.docs_get_key_ok [OF legacy_collection [OF c(1)], of "docs_key c ids" s1 x s'] v1
      by (simp add: docs_get_def)
    moreover have "version_nanos k = None" if "k \<in> record_keys (view s) ?p" for k
      using newest_version_None [of keys k] None that keys by auto
    ultimately show ?thesis using c(1) unfolding versions_hold_def by blast
  qed
qed

lemma versions_append_holds:
  assumes "versions_append v at x ids s = (Inr u, s')"
    and ids: "ids \<noteq> []" "last ids \<noteq> []" and at: "0 \<le> at" "at \<le> max_int64"
    and room: "stamps_below (view s) (docs_key (v_docs v) ids) max_int64"
    and y: "versions_hold v (view s') ids y"
  shows "y = x"
proof -
  let ?p = "docs_key (v_docs v) ids"
  from versions_append_effect [OF assms(1) ids at room] obtain n raw where
    n: "0 \<le> n" "n \<le> max_int64" and raw: "d_encode (v_docs v) x = Some raw"
    and below: "stamps_below (view s) ?p n"
    and v: "view s' = (view s)(?p @ ''/'' @ version_name n \<mapsto> raw)"
    by auto
  let ?k = "?p @ ''/'' @ version_name n"
  have pre: "has_segment_prefix ?k ?p"
    using has_segment_prefix_below [OF docs_key_not_nil last_docs_key [OF ids]] by simp
  have k: "?k \<in> record_keys (view s') ?p" "version_nanos ?k = Some n"
    using pre v version_nanos_name [OF n] by (auto simp: record_keys_def)
  have newest: "n' < n" if "k' \<in> record_keys (view s') ?p" "k' \<noteq> ?k" "version_nanos k' = Some n'" for k' n'
  proof -
    have "k' \<in> record_keys (view s) ?p" using that v by (auto simp: record_keys_def)
    then show ?thesis using below that by (auto simp: stamps_below_def)
  qed
  obtain k' n' where k': "k' \<in> record_keys (view s') ?p" "version_nanos k' = Some n'"
    "\<forall>k'' \<in> record_keys (view s') ?p. \<forall>n''. version_nanos k'' = Some n'' \<longrightarrow> n'' \<le> n'"
    "doc_at (v_docs v) (view s') k' = Some y"
    using y k unfolding versions_hold_def by fastforce
  have "n \<le> n'" using k' k by blast
  then have "k' = ?k" using newest [OF k'(1) _ k'(2)] by fastforce
  then show "y = x" using k'(4) v codec [OF raw] by (simp add: doc_at_def)
qed

lemma versions_delete_holds:
  "versions_delete_all v ids s = (Inr removed, s') \<Longrightarrow> \<not> versions_hold v (view s') ids x"
  using versions_delete_all_gone by (fastforce simp: versions_hold_def doc_at_def)

end

locale reliable_versioned = reliable_store st view reliable + versioned st view v
  for st :: "('s, 'v) store" and view :: "'s \<Rightarrow> string \<rightharpoonup> 'v" and reliable :: "'s \<Rightarrow> bool"
    and v :: "('s, 'v, 't) versions"
begin

text \<open>With a transport that works the first attempt finds a free name.\<close>

lemma versions_append_succeeds:
  assumes s: "reliable s" and enc: "d_encode (v_docs v) x = Some raw"
    and ids: "ids \<noteq> []" "last ids \<noteq> []"
    and at: "0 \<le> at" "at \<le> max_int64"
    and room: "stamps_below (view s) (docs_key (v_docs v) ids) max_int64"
  shows "\<exists>s'. reliable s' \<and> versions_append v at x ids s = (Inr (), s')"
proof -
  let ?p = "docs_key (v_docs v) ids"
  obtain keys s1 where l: "reliable s1" "store_list st ?p s = (Inr keys, s1)"
    using list_reliable [OF s] by blast
  let ?n = "next_nanos at keys"
  have keys: "set keys = record_keys (view s) ?p"
    using list_set [OF l(2)] by (simp add: record_keys_def)
  have range: "0 \<le> ?n" "?n \<le> max_int64"
    using next_nanos_range [OF at] room keys by (auto simp: stamps_below_def)
  have "view s1 (?p @ ''/'' @ version_name ?n) = None"
  proof (rule ccontr)
    assume "view s1 (?p @ ''/'' @ version_name ?n) \<noteq> None"
    then have "?p @ ''/'' @ version_name ?n \<in> record_keys (view s) ?p"
      using has_segment_prefix_below [OF docs_key_not_nil last_docs_key [OF ids]] list_view [OF l(2)]
      by (auto simp: record_keys_def)
    then show False
      using next_nanos_greater [OF _ version_nanos_name [OF range] at, of ?p keys] room keys
      by (auto simp: stamps_below_def)
  qed
  then obtain s2 where "reliable s2"
    "store_create st (?p @ ''/'' @ version_name ?n) raw s1 = (Inr (), s2)"
    using create_reliable [OF l(1), of "?p @ ''/'' @ version_name ?n" raw] by auto
  then show ?thesis
    using l(2) enc
    by (simp add: versions_append_def store_of Let_def append_attempts_max_def numeral_eq_Suc
        docs_create_key_def docs_encode_def)
qed

end

text \<open>Building a collection over a store that keeps its contract gives a versioned collection.\<close>

lemma versioned_new:
  assumes "kv_store st view" "reversible enc dec"
  shows "versioned st view (new_versions st p enc dec)"
    and "versioned st view (with_legacy (new_versions st p enc dec) q)"
  using collection_new [OF assms, of p] collection_new [OF assms, of q]
  by (auto simp: versioned_def versioned_axioms_def new_versions_def with_legacy_def new_documents_def)

interpretation raw_versions: reliable_versioned backend_store backend_view backend_reliable
    "new_versions backend_store p Some Some" for p
  using versioned_new(1) [OF backend.kv_store_axioms, of Some Some]
  by (simp add: reliable_versioned_def backend.reliable_store_axioms reversible_def)

subsection \<open>The service's append-only records\<close>

text \<open>
  The versioned collections of the service, as its stores construct them: over the fallible
  backend, with a reversible encoding and the prefix of the layout they replace.
\<close>

definition service_versions ::
    "string \<Rightarrow> string \<Rightarrow> ('t \<Rightarrow> 'v option) \<Rightarrow> ('v \<Rightarrow> 't option) \<Rightarrow> ('v backend, 'v, 't) versions" where
  "service_versions p q enc dec = with_legacy (new_versions backend_store p enc dec) q"

lemma service_versioned: "reversible enc dec \<Longrightarrow> versioned backend_store backend_view (service_versions p q enc dec)"
  unfolding service_versions_def by (rule versioned_new(2) [OF backend.kv_store_axioms])

lemma service_reliable_versioned:
  "reversible enc dec \<Longrightarrow>
    reliable_versioned backend_store backend_view backend_reliable (service_versions p q enc dec)"
  using service_versioned by (auto simp: reliable_versioned_def backend.reliable_store_axioms)

lemma service_versions_docs [simp]:
  "v_docs (service_versions p q enc dec) = new_documents backend_store p enc dec"
  by (simp add: service_versions_def with_legacy_def new_versions_def)

lemma reversible_Some: "reversible Some Some"
  by (simp add: reversible_def)

lemma empty_stamps: "stamps_below Map.empty p b"
  by (simp add: stamps_below_def record_keys_def)

text \<open>C34: appending a version never removes or changes a stored document, whichever of the store
  operations fails and however it fails, so a crash inside a write cannot lose a record.\<close>

theorem append_never_destroys:
  assumes "reversible enc dec"
  shows "backend_view s \<subseteq>\<^sub>m backend_view (snd (versions_append (service_versions p q enc dec) at x ids s))"
proof -
  obtain r s' where a: "versions_append (service_versions p q enc dec) at x ids s = (r, s')" by fastforce
  show ?thesis
    unfolding map_le_def
    using versioned.versions_append_keeps [OF service_versioned [OF assms] a] a by auto
qed

theorem append_never_destroys_witness:
  "backend_view \<lparr>contents = [(''k'', 1::nat)], faults = [FailsAfter]\<rparr> \<subseteq>\<^sub>m
   backend_view (snd (versions_append (service_versions ''p'' ''q'' Some Some) 5 7 [''a'']
     \<lparr>contents = [(''k'', 1::nat)], faults = [FailsAfter]\<rparr>))"
  by (rule append_never_destroys [OF reversible_Some])

text \<open>When an append reports success, the next read of that record returns the appended value
  or fails for a reason that says nothing about the record (it is never missing or malformed),
  even when the clock handed to the append lies before versions already stored.\<close>

lemma append_then_load:
  assumes "reversible enc dec" "ids \<noteq> []" "last ids \<noteq> []" "0 \<le> at" "at \<le> max_int64"
    and "stamps_below (backend_view s) (docs_key (new_documents backend_store p enc dec) ids) max_int64"
    and "versions_append (service_versions p q enc dec) at x ids s = (Inr u, s1)"
    and "versions_load (service_versions p q enc dec) ids s1 = (r, s2)"
  shows "case r of Inr (y, sp) \<Rightarrow> y = x | Inl e \<Rightarrow> \<not> is_not_found e \<and> \<not> is_malformed e"
  using versioned.versions_append_load [OF service_versioned [OF assms(1)] assms(7) assms(2-5)]
    assms(6,8) by simp

text \<open>A listing of the newest versions accounts for every record: if it succeeds, the newest
  stored version of each record is among the returned values, or its key is among the
  unreadable ones. A record never drops out of a listing silently.\<close>

lemma latest_accounts_for_every_record:
  assumes "reversible enc dec"
    and "versions_latest (service_versions p q enc dec) s = (Inr (vals, unreadable), s')"
    and "k \<in> record_keys (backend_view s) p" "version_nanos k = Some n"
  shows "\<exists>k' n'. k' \<in> record_keys (backend_view s) p \<and> go_dir k' = go_dir k \<and>
    version_nanos k' = Some n' \<and>
    (\<forall>j\<in>record_keys (backend_view s) p. \<forall>m. go_dir j = go_dir k \<longrightarrow>
       version_nanos j = Some m \<longrightarrow> m \<le> n') \<and>
    (case doc_at (new_documents backend_store p enc dec) (backend_view s) k' of
       Some x \<Rightarrow> x \<in> set vals | None \<Rightarrow> k' \<in> set unreadable)"
  using versioned.versions_latest_complete [OF service_versioned [OF assms(1)] assms(2), of k n] assms(3,4)
  by (simp add: new_documents_def)

text \<open>While the store answers, an append succeeds: its first attempt always finds a free
  version name, so the bounded search for one is never exhausted.\<close>

lemma append_succeeds:
  assumes "reversible enc dec" "backend_reliable s" "enc x = Some raw" "ids \<noteq> []" "last ids \<noteq> []"
    and "0 \<le> at" "at \<le> max_int64"
    and "stamps_below (backend_view s) (docs_key (new_documents backend_store p enc dec) ids) max_int64"
  shows "fst (versions_append (service_versions p q enc dec) at x ids s) = Inr ()"
  using reliable_versioned.versions_append_succeeds
    [OF service_reliable_versioned [OF assms(1), of p q] assms(2) _ assms(4-7), of x raw] assms(3,8)
  by (auto simp: new_documents_def)

lemma version_nanos_eval: "version_nanos ''p/a/0000000000000000005'' = Some 5"
  by code_simp

end
