(* ===== verification/Jobs_Base.thy ===== *)
theory Jobs_Base
  imports State_Docs "HOL-Library.Product_Lexorder"
begin

text \<open>
  Job records and the in-memory job store (\<open>internal/jobs/jobs.go\<close>, \<open>internal/jobs/memory.go\<close>):
  the record a run keeps, how a terminal outcome is written onto it, and the reference store and
  lock the durable ones are held to. The lemmas give the invariant every operation keeps (one
  record per id, filed under its own id) and what each operation does to the records.
\<close>

subsection \<open>Records\<close>

text \<open>Kinds, states and triggers are strings in the code; the empty string is "not set".\<close>

type_synonym job_kind = string
type_synonym job_state = string

definition kind_backup :: job_kind where "kind_backup = ''backup''"
definition kind_prune :: job_kind where "kind_prune = ''prune''"
definition kind_restore :: job_kind where "kind_restore = ''restore''"

definition state_pending :: job_state where "state_pending = ''pending''"
definition state_running :: job_state where "state_running = ''running''"
definition state_succeeded :: job_state where "state_succeeded = ''succeeded''"
definition state_failed :: job_state where "state_failed = ''failed''"

definition trigger_manual :: string where "trigger_manual = ''manual''"
definition trigger_schedule :: string where "trigger_schedule = ''schedule''"

lemmas job_constants = kind_backup_def kind_prune_def kind_restore_def state_pending_def
  state_running_def state_succeeded_def state_failed_def trigger_manual_def trigger_schedule_def

definition terminal :: "job_state \<Rightarrow> bool" where
  "terminal s \<longleftrightarrow> s = state_succeeded \<or> s = state_failed"

record job =
  job_id :: string
  job_space :: string
  job_kind :: job_kind
  job_state :: job_state
  job_trigger :: string
  created_at :: time
  updated_at :: time
  finished_at :: time
  file_count :: int
  total_bytes :: int
  job_error :: string
  snapshot_id :: string
  snapshots_deleted :: int
  snapshots_kept :: int
  restore_folder :: string

definition job_duration :: "job \<Rightarrow> duration" where
  "job_duration j =
     (if is_zero_time (finished_at j) then 0 else time_sub (finished_at j) (created_at j))"

record outcome =
  out_state :: job_state
  out_error :: string
  out_snapshot_id :: string
  out_file_count :: int
  out_total_bytes :: int
  out_deleted :: int
  out_kept :: int

datatype jobs_error =
    JobNotFound string
  | ErrLocked
  | ErrNotTerminal
  | SpaceIdRequired
  | KindRequired
  | DuplicateJob
  | NoRandomness
  | JobsState string state_error
  | JobsWrapped string jobs_error

definition default_history_window :: duration where
  "default_history_window = 365 * 24 * hour"

fun last_of :: "job list \<Rightarrow> job_kind \<Rightarrow> job_state \<Rightarrow> job option" where
  "last_of [] k st = None"
| "last_of (j # js) k st =
     (if job_kind j \<noteq> k then last_of js k st
      else if st \<noteq> [] \<and> job_state j \<noteq> st then last_of js k st
      else Some j)"

lemma last_of_find:
  "last_of js k st = find (\<lambda>j. job_kind j = k \<and> (st = [] \<or> job_state j = st)) js"
  by (induction js) auto

subsection \<open>Helpers both stores share\<close>

text \<open>The id source is random: it yields an id or fails.\<close>

definition prepare :: "job \<Rightarrow> time \<Rightarrow> string option \<Rightarrow> jobs_error + job" where
  "prepare j now new_id =
     (if job_space j = [] then Inl SpaceIdRequired
      else if job_kind j = [] then Inl KindRequired
      else
        let j = (if job_state j = [] then j\<lparr>job_state := state_pending\<rparr> else j);
            j = (if job_trigger j = [] then j\<lparr>job_trigger := trigger_manual\<rparr> else j)
        in if job_id j = []
           then (case new_id of
                   None \<Rightarrow> Inl NoRandomness
                 | Some i \<Rightarrow> Inr (j\<lparr>job_id := i, created_at := now, updated_at := now\<rparr>))
           else Inr (j\<lparr>created_at := now, updated_at := now\<rparr>))"

definition apply_outcome :: "job \<Rightarrow> outcome \<Rightarrow> time \<Rightarrow> job" where
  "apply_outcome j out now =
     (let j = j\<lparr>job_state := out_state out, job_error := out_error out\<rparr>;
          j = (if out_snapshot_id out \<noteq> [] then j\<lparr>snapshot_id := out_snapshot_id out\<rparr> else j);
          j = (if out_file_count out > 0 then j\<lparr>file_count := out_file_count out\<rparr> else j);
          j = (if out_total_bytes out > 0 then j\<lparr>total_bytes := out_total_bytes out\<rparr> else j);
          j = (if out_deleted out > 0 then j\<lparr>snapshots_deleted := out_deleted out\<rparr> else j);
          j = (if out_kept out > 0 then j\<lparr>snapshots_kept := out_kept out\<rparr> else j)
      in j\<lparr>updated_at := now, finished_at := now\<rparr>)"

definition prunable :: "job \<Rightarrow> time \<Rightarrow> bool" where
  "prunable j cutoff \<longleftrightarrow> terminal (job_state j) \<and> created_at j < cutoff"

text \<open>Newest first, ties by ascending id.\<close>

definition newest_first_key :: "job \<Rightarrow> int \<times> string" where
  "newest_first_key j = (- created_at j, job_id j)"

definition sort_newest_first :: "job list \<Rightarrow> job list" where
  "sort_newest_first js = sort_key newest_first_key js"

definition apply_limit :: "job list \<Rightarrow> int \<Rightarrow> job list" where
  "apply_limit js limit = (if limit > 0 \<and> int (length js) > limit then take (nat limit) js else js)"

lemma prepare_Inr:
  assumes "prepare j now i = Inr j'"
  shows "job_space j' = job_space j" "job_kind j' = job_kind j" "created_at j' = now"
    "updated_at j' = now" "job_state j' \<noteq> []" "job_space j' \<noteq> []" "job_kind j' \<noteq> []"
    "job_state j \<noteq> [] \<Longrightarrow> job_state j' = job_state j"
    "job_id j' = (if job_id j = [] then the i else job_id j)"
    "job_id j = [] \<Longrightarrow> i \<noteq> None"
  using assms by (auto simp: prepare_def Let_def job_constants split: if_splits option.splits)

lemma apply_outcome_simps [simp]:
  "job_id (apply_outcome j out now) = job_id j"
  "job_space (apply_outcome j out now) = job_space j"
  "job_kind (apply_outcome j out now) = job_kind j"
  "job_trigger (apply_outcome j out now) = job_trigger j"
  "created_at (apply_outcome j out now) = created_at j"
  "restore_folder (apply_outcome j out now) = restore_folder j"
  "job_state (apply_outcome j out now) = out_state out"
  "job_error (apply_outcome j out now) = out_error out"
  "finished_at (apply_outcome j out now) = now"
  "updated_at (apply_outcome j out now) = now"
  by (simp_all add: apply_outcome_def Let_def)

lemma sort_newest_first [simp]:
  "set (sort_newest_first js) = set js"
  "length (sort_newest_first js) = length js"
  "distinct (sort_newest_first js) = distinct js"
  by (simp_all add: sort_newest_first_def)

lemma sort_newest_first_sorted:
  "sorted_wrt (\<lambda>a b. created_at b \<le> created_at a) (sort_newest_first js)"
proof -
  have "sorted (map newest_first_key (sort_newest_first js))"
    by (simp add: sort_newest_first_def)
  then show ?thesis
    unfolding sorted_wrt_map
    by (rule sorted_wrt_mono_rel [rotated]) (auto simp: newest_first_key_def)
qed

lemma set_apply_limit: "set (apply_limit js n) \<subseteq> set js"
  by (auto simp: apply_limit_def dest: in_set_takeD)

subsection \<open>The in-memory store and lock\<close>

record jobs_memory =
  mem_jobs :: "(string \<times> job) list"
  mem_held :: "string list"

definition new_jobs_memory :: jobs_memory where
  "new_jobs_memory = \<lparr>mem_jobs = [], mem_held = []\<rparr>"

definition jobs_mem_create :: "job \<Rightarrow> time \<Rightarrow> string option \<Rightarrow> (jobs_memory, jobs_error, job) op" where
  "jobs_mem_create j now new_id m =
     (case prepare j now new_id of
        Inl e \<Rightarrow> (Inl e, m)
      | Inr j \<Rightarrow>
          if map_of (mem_jobs m) (job_id j) \<noteq> None then (Inl DuplicateJob, m)
          else (Inr j, m\<lparr>mem_jobs := AList.update (job_id j) j (mem_jobs m)\<rparr>))"

definition jobs_mem_get :: "string \<Rightarrow> (jobs_memory, jobs_error, job) op" where
  "jobs_mem_get i m =
     (case map_of (mem_jobs m) i of None \<Rightarrow> (Inl (JobNotFound i), m) | Some j \<Rightarrow> (Inr j, m))"

definition jobs_mem_get_in_space :: "string \<Rightarrow> string \<Rightarrow> (jobs_memory, jobs_error, job) op" where
  "jobs_mem_get_in_space sp i m =
     (case jobs_mem_get i m of
        (Inl e, m) \<Rightarrow> (Inl (JobNotFound i), m)
      | (Inr j, m) \<Rightarrow> if job_space j \<noteq> sp then (Inl (JobNotFound i), m) else (Inr j, m))"

definition jobs_mem_list :: "string \<Rightarrow> job_kind \<Rightarrow> int \<Rightarrow> jobs_memory \<Rightarrow> job list" where
  "jobs_mem_list sp k limit m =
     apply_limit (sort_newest_first
       (filter (\<lambda>j. job_space j = sp \<and> (k = [] \<or> job_kind j = k)) (map snd (mem_jobs m)))) limit"

definition jobs_mem_list_running :: "jobs_memory \<Rightarrow> job list" where
  "jobs_mem_list_running m =
     sort_newest_first (filter (\<lambda>j. \<not> terminal (job_state j)) (map snd (mem_jobs m)))"

definition jobs_mem_finish :: "string \<Rightarrow> outcome \<Rightarrow> time \<Rightarrow> (jobs_memory, jobs_error, unit) op" where
  "jobs_mem_finish i out now m =
     (if \<not> terminal (out_state out) then (Inl ErrNotTerminal, m)
      else case map_of (mem_jobs m) i of
             None \<Rightarrow> (Inl (JobNotFound i), m)
           | Some j \<Rightarrow> (Inr (), m\<lparr>mem_jobs := AList.update i (apply_outcome j out now) (mem_jobs m)\<rparr>))"

definition jobs_mem_prune_before :: "time \<Rightarrow> jobs_memory \<Rightarrow> nat \<times> jobs_memory" where
  "jobs_mem_prune_before cutoff m =
     (length (filter (\<lambda>(i, j). prunable j cutoff) (mem_jobs m)),
      m\<lparr>mem_jobs := filter (\<lambda>(i, j). \<not> prunable j cutoff) (mem_jobs m)\<rparr>)"

definition jobs_mem_acquire :: "string \<Rightarrow> (jobs_memory, jobs_error, unit) op" where
  "jobs_mem_acquire sp m =
     (if sp = [] then (Inl SpaceIdRequired, m)
      else if sp \<in> set (mem_held m) then (Inl ErrLocked, m)
      else (Inr (), m\<lparr>mem_held := sp # mem_held m\<rparr>))"

text \<open>The function \<open>Acquire\<close> returns, run for the first time; later runs do nothing.\<close>

definition jobs_mem_release :: "string \<Rightarrow> jobs_memory \<Rightarrow> jobs_memory" where
  "jobs_mem_release sp m = m\<lparr>mem_held := filter (\<lambda>x. x \<noteq> sp) (mem_held m)\<rparr>"

text \<open>Every record is filed once, under its own id.\<close>

definition jobs_mem_ok :: "jobs_memory \<Rightarrow> bool" where
  "jobs_mem_ok m \<longleftrightarrow>
     distinct (map fst (mem_jobs m)) \<and> (\<forall>(i, j) \<in> set (mem_jobs m). job_id j = i)"

lemma jobs_mem_ok_lookup:
  "jobs_mem_ok m \<Longrightarrow> map_of (mem_jobs m) i = Some j \<Longrightarrow> job_id j = i"
  by (auto simp: jobs_mem_ok_def dest: map_of_SomeD)

lemma jobs_mem_ok_new: "jobs_mem_ok new_jobs_memory"
  by (simp add: jobs_mem_ok_def new_jobs_memory_def)

lemma set_alist_update: "set (AList.update i j xs) \<subseteq> insert (i, j) (set xs)"
  by (induction xs) auto

lemma jobs_mem_ok_update:
  assumes "jobs_mem_ok m" "job_id j = i"
  shows "jobs_mem_ok (m\<lparr>mem_jobs := AList.update i j (mem_jobs m)\<rparr>)"
proof -
  have "distinct (map fst (AList.update i j (mem_jobs m)))"
    using assms(1) by (simp add: jobs_mem_ok_def distinct_update)
  moreover have "case p of (i, j) \<Rightarrow> job_id j = i" if "p \<in> set (AList.update i j (mem_jobs m))" for p
  proof -
    have "p = (i, j) \<or> p \<in> set (mem_jobs m)"
      using set_alist_update [of i j "mem_jobs m"] that by blast
    then show ?thesis using assms by (auto simp: jobs_mem_ok_def)
  qed
  ultimately show ?thesis by (simp add: jobs_mem_ok_def)
qed

lemma jobs_mem_create_ok:
  "jobs_mem_ok m \<Longrightarrow> jobs_mem_create j now i m = (r, m') \<Longrightarrow> jobs_mem_ok m'"
  by (auto simp: jobs_mem_create_def split: sum.splits if_splits intro: jobs_mem_ok_update)

lemma jobs_mem_finish_ok:
  "jobs_mem_ok m \<Longrightarrow> jobs_mem_finish i out now m = (r, m') \<Longrightarrow> jobs_mem_ok m'"
  by (auto simp: jobs_mem_finish_def split: option.splits if_splits
      intro!: jobs_mem_ok_update dest: jobs_mem_ok_lookup)

lemma jobs_mem_prune_ok:
  "jobs_mem_ok m \<Longrightarrow> jobs_mem_ok (snd (jobs_mem_prune_before c m))"
  by (auto simp: jobs_mem_ok_def jobs_mem_prune_before_def intro: distinct_map_filter)

text \<open>The lock is held by at most one run of a Space between an acquire and its release.\<close>

lemma jobs_mem_acquire_held:
  "jobs_mem_acquire sp m = (Inr u, m') \<Longrightarrow> sp \<notin> set (mem_held m) \<and> set (mem_held m') = insert sp (set (mem_held m))"
  by (auto simp: jobs_mem_acquire_def split: if_splits)

lemma jobs_mem_acquire_refused:
  "sp \<in> set (mem_held m) \<Longrightarrow> sp \<noteq> [] \<Longrightarrow> jobs_mem_acquire sp m = (Inl ErrLocked, m)"
  by (simp add: jobs_mem_acquire_def)

end
