(* ===== verification/Jobs_State.thy ===== *)
theory Jobs_State
  imports Jobs_Base State_Versions
begin

text \<open>
  The durable job store (\<open>internal/jobs/state.go\<close>): one document per run under
  \<open>jobs/<space>/<nanos>-<kind>-<id>\<close>, an index from ids to keys built on the first miss, and the
  keys already seen finished. The lemmas give the layout round trip, the order of a listing, what
  a prune removes under every pattern of store failures, and a simulation: call by call, the
  durable store answers as the in-memory store does.
\<close>

definition jobs_prefix :: string where "jobs_prefix = ''jobs''"

definition key_time_width :: nat where "key_time_width = 19"

record 's job_store =
  js_backend :: 's
  js_index :: "string \<rightharpoonup> string"
  js_indexed :: bool
  js_terminal :: "string set"

definition new_job_store :: "'s \<Rightarrow> 's job_store" where
  "new_job_store s = \<lparr>js_backend = s, js_index = Map.empty, js_indexed = False, js_terminal = {}\<rparr>"

definition new_job_docs :: "('s, 'v) store \<Rightarrow> (job \<Rightarrow> 'v option) \<Rightarrow> ('v \<Rightarrow> job option) \<Rightarrow> ('s, 'v, job) documents" where
  "new_job_docs st enc dec = new_documents st jobs_prefix enc dec"

text \<open>A document operation, on the store the job store holds.\<close>

definition on_docs :: "('s, state_error, 'a) op \<Rightarrow> ('s job_store, state_error, 'a) op" where
  "on_docs f m = (case f (js_backend m) of (r, s) \<Rightarrow> (r, m\<lparr>js_backend := s\<rparr>))"

subsection \<open>Names\<close>

definition document_name :: "time \<Rightarrow> job_kind \<Rightarrow> string \<Rightarrow> string" where
  "document_name created kind i =
     format_int_width key_time_width (unix_nano created) @ ''-'' @ kind @ ''-'' @ i"

definition document_segment :: "string \<Rightarrow> string" where
  "document_segment key = go_after_last (CHR ''/'') key"

definition is_kind :: "string \<Rightarrow> bool" where
  "is_kind s \<longleftrightarrow> s = kind_backup \<or> s = kind_prune \<or> s = kind_restore"

definition id_from_key :: "string \<Rightarrow> string option" where
  "id_from_key key =
     (case go_cut (CHR ''-'') (document_segment key) of
        None \<Rightarrow> None
      | Some (stamp, rest) \<Rightarrow>
          if rest = [] then None
          else (case go_cut (CHR ''-'') rest of
                  None \<Rightarrow> Some rest
                | Some (kind, i) \<Rightarrow> if i \<noteq> [] \<and> is_kind kind then Some i else Some rest))"

definition kind_from_key :: "string \<Rightarrow> job_kind option" where
  "kind_from_key key =
     (case go_cut (CHR ''-'') (document_segment key) of
        None \<Rightarrow> None
      | Some (stamp, rest) \<Rightarrow>
          (case go_cut (CHR ''-'') rest of
             None \<Rightarrow> None
           | Some (kind, i) \<Rightarrow> if i = [] \<or> \<not> is_kind kind then None else Some kind))"

definition created_from_key :: "string \<Rightarrow> time option" where
  "created_from_key key =
     (case go_cut (CHR ''-'') (document_segment key) of
        None \<Rightarrow> None
      | Some (stamp, rest) \<Rightarrow> parse_int64 stamp)"

subsection \<open>The caches\<close>

definition remember :: "string \<Rightarrow> string \<Rightarrow> 's job_store \<Rightarrow> 's job_store" where
  "remember i key m = m\<lparr>js_index := (js_index m)(i \<mapsto> key)\<rparr>"

definition forget :: "string \<Rightarrow> string list \<Rightarrow> 's job_store \<Rightarrow> 's job_store" where
  "forget i keys m =
     m\<lparr>js_index := (js_index m)(i := None), js_terminal := js_terminal m - set keys\<rparr>"

definition settled :: "'s job_store \<Rightarrow> string \<Rightarrow> bool" where
  "settled m key \<longleftrightarrow> key \<in> js_terminal m"

definition mark_settled :: "string \<Rightarrow> 's job_store \<Rightarrow> 's job_store" where
  "mark_settled key m = m\<lparr>js_terminal := insert key (js_terminal m)\<rparr>"

fun index_keys :: "string list \<Rightarrow> (string \<rightharpoonup> string) \<Rightarrow> string \<rightharpoonup> string" where
  "index_keys [] ix = ix"
| "index_keys (k # ks) ix =
     (case id_from_key k of None \<Rightarrow> index_keys ks ix | Some i \<Rightarrow> index_keys ks (ix(i \<mapsto> k)))"

definition key_for :: "('s, 'v, job) documents \<Rightarrow> string \<Rightarrow> ('s job_store, jobs_error, string) op" where
  "key_for d i m =
     (case js_index m i of
        Some key \<Rightarrow> (Inr key, m)
      | None \<Rightarrow>
          if js_indexed m then (Inl (JobNotFound i), m)
          else (case on_docs (docs_keys d []) m of
                  (Inl e, m) \<Rightarrow> (Inl (JobsState ''jobs: index jobs'' e), m)
                | (Inr keys, m) \<Rightarrow>
                    let m = m\<lparr>js_index := index_keys keys (js_index m), js_indexed := True\<rparr>
                    in (case js_index m i of
                          None \<Rightarrow> (Inl (JobNotFound i), m)
                        | Some key \<Rightarrow> (Inr key, m))))"

subsection \<open>Operations\<close>

definition job_create ::
    "('s, 'v, job) documents \<Rightarrow> job \<Rightarrow> time \<Rightarrow> string option \<Rightarrow> ('s job_store, jobs_error, job) op" where
  "job_create d j now new_id m =
     (case prepare j now new_id of
        Inl e \<Rightarrow> (Inl e, m)
      | Inr j \<Rightarrow>
          let key = docs_key d [job_space j, document_name (created_at j) (job_kind j) (job_id j)]
          in (case on_docs (docs_create_key d key j) m of
                (Inl e, m) \<Rightarrow> (Inl (JobsState ''jobs: store job'' e), m)
              | (Inr u, m) \<Rightarrow> (Inr j, remember (job_id j) key m)))"

definition job_get :: "('s, 'v, job) documents \<Rightarrow> string \<Rightarrow> ('s job_store, jobs_error, job) op" where
  "job_get d i m =
     (case key_for d i m of
        (Inl e, m) \<Rightarrow> (Inl e, m)
      | (Inr key, m) \<Rightarrow>
          (case on_docs (docs_get_key d key) m of
             (Inr j, m) \<Rightarrow> (Inr j, m)
           | (Inl e, m) \<Rightarrow>
               if is_not_found e then (Inl (JobNotFound i), forget i [] m)
               else (Inl (JobsState ''jobs: read job'' e), m)))"

fun get_in_space_from ::
    "('s, 'v, job) documents \<Rightarrow> string \<Rightarrow> string \<Rightarrow> string list \<Rightarrow> ('s job_store, jobs_error, job) op" where
  "get_in_space_from d sp i [] m = (Inl (JobNotFound i), m)"
| "get_in_space_from d sp i (key # keys) m =
     (if id_from_key key \<noteq> Some i then get_in_space_from d sp i keys m
      else (case on_docs (docs_get_key d key) m of
              (Inl e, m) \<Rightarrow>
                if is_not_found e then (Inl (JobNotFound i), m)
                else (Inl (JobsState ''jobs: read job'' e), m)
            | (Inr j, m) \<Rightarrow>
                if job_space j \<noteq> sp then (Inl (JobNotFound i), m)
                else (Inr j, remember (job_id j) key m)))"

definition job_get_in_space ::
    "('s, 'v, job) documents \<Rightarrow> string \<Rightarrow> string \<Rightarrow> ('s job_store, jobs_error, job) op" where
  "job_get_in_space d sp i m =
     (if sp = [] \<or> i = [] then (Inl (JobNotFound i), m)
      else (case on_docs (docs_keys d [sp]) m of
              (Inl e, m) \<Rightarrow> (Inl (JobsState ''jobs: list history'' e), m)
            | (Inr keys, m) \<Rightarrow> get_in_space_from d sp i (rev keys) m))"

text \<open>The walk of a listing, newest key first; \<open>out\<close> is what was read so far.\<close>

fun list_walk ::
    "('s, 'v, job) documents \<Rightarrow> job_kind \<Rightarrow> int \<Rightarrow> string list \<Rightarrow> job list \<Rightarrow> 's job_store \<Rightarrow>
     job list \<times> 's job_store" where
  "list_walk d kind limit [] out m = (out, m)"
| "list_walk d kind limit (key # keys) out m =
     (if limit > 0 \<and> int (length out) = limit then (out, m)
      else if kind \<noteq> [] \<and> kind_from_key key \<noteq> None \<and> kind_from_key key \<noteq> Some kind
      then list_walk d kind limit keys out m
      else (case on_docs (docs_get_key d key) m of
              (Inl e, m) \<Rightarrow> list_walk d kind limit keys out m
            | (Inr j, m) \<Rightarrow>
                let m = remember (job_id j) key m
                in if kind \<noteq> [] \<and> job_kind j \<noteq> kind then list_walk d kind limit keys out m
                   else list_walk d kind limit keys (out @ [j]) m))"

definition list_recent ::
    "('s, 'v, job) documents \<Rightarrow> string \<Rightarrow> job_kind \<Rightarrow> int \<Rightarrow> ('s job_store, jobs_error, job list) op" where
  "list_recent d sp kind limit m =
     (case on_docs (docs_keys d [sp]) m of
        (Inl e, m) \<Rightarrow> (Inl (JobsState ''jobs: list history'' e), m)
      | (Inr keys, m) \<Rightarrow>
          (case list_walk d kind limit (rev keys) [] m of (out, m) \<Rightarrow> (Inr (sort_newest_first out), m)))"

definition job_list :: "('s, 'v, job) documents \<Rightarrow> string \<Rightarrow> ('s job_store, jobs_error, job list) op" where
  "job_list d sp = list_recent d sp [] 0"

definition list_recent_of_kind ::
    "('s, 'v, job) documents \<Rightarrow> string \<Rightarrow> job_kind \<Rightarrow> int \<Rightarrow> ('s job_store, jobs_error, job list) op" where
  "list_recent_of_kind d sp kind limit m =
     (if kind = [] then (Inl KindRequired, m) else list_recent d sp kind limit m)"

definition job_finish ::
    "('s, 'v, job) documents \<Rightarrow> string \<Rightarrow> outcome \<Rightarrow> time \<Rightarrow> ('s job_store, jobs_error, unit) op" where
  "job_finish d i out now m =
     (if \<not> terminal (out_state out) then (Inl ErrNotTerminal, m)
      else (case key_for d i m of
              (Inl e, m) \<Rightarrow> (Inl e, m)
            | (Inr key, m) \<Rightarrow>
                (case on_docs (docs_get_key d key) m of
                   (Inl e, m) \<Rightarrow>
                     if is_not_found e then (Inl (JobNotFound i), forget i [] m)
                     else (Inl (JobsState ''jobs: read job'' e), m)
                 | (Inr j, m) \<Rightarrow>
                     (case on_docs (docs_replace_key d key (apply_outcome j out now)) m of
                        (Inl e, m) \<Rightarrow> (Inl (JobsState ''jobs: store job'' e), m)
                      | (Inr u, m) \<Rightarrow> (Inr (), mark_settled key m)))))"

text \<open>A prune that fails midway still says how many it removed.\<close>

fun prune_keys ::
    "('s, 'v, job) documents \<Rightarrow> time \<Rightarrow> string list \<Rightarrow> nat \<Rightarrow> ('s job_store, nat \<times> jobs_error, nat) op" where
  "prune_keys d cutoff [] removed m = (Inr removed, m)"
| "prune_keys d cutoff (key # keys) removed m =
     (case created_from_key key of
        None \<Rightarrow> prune_keys d cutoff keys removed m
      | Some created \<Rightarrow>
          if \<not> created < cutoff then prune_keys d cutoff keys removed m
          else (case on_docs (docs_get_key d key) m of
                  (Inl e, m) \<Rightarrow> prune_keys d cutoff keys removed m
                | (Inr j, m) \<Rightarrow>
                    if \<not> prunable j cutoff then prune_keys d cutoff keys removed m
                    else (case on_docs (docs_delete_key d key) m of
                            (Inr u, m) \<Rightarrow>
                              prune_keys d cutoff keys (removed + 1) (forget (job_id j) [key] m)
                          | (Inl e, m) \<Rightarrow>
                              if \<not> is_not_found e
                              then (Inl (removed, JobsState ''jobs: prune history'' e), m)
                              else prune_keys d cutoff keys (removed + 1) (forget (job_id j) [key] m))))"

definition job_prune_before ::
    "('s, 'v, job) documents \<Rightarrow> time \<Rightarrow> ('s job_store, nat \<times> jobs_error, nat) op" where
  "job_prune_before d cutoff m =
     (case on_docs (docs_keys d []) m of
        (Inl e, m) \<Rightarrow> (Inl (0, JobsState ''jobs: list history'' e), m)
      | (Inr keys, m) \<Rightarrow> prune_keys d cutoff keys 0 m)"

fun running_walk ::
    "('s, 'v, job) documents \<Rightarrow> string list \<Rightarrow> job list \<Rightarrow> 's job_store \<Rightarrow> job list \<times> 's job_store" where
  "running_walk d [] out m = (out, m)"
| "running_walk d (key # keys) out m =
     (if settled m key then running_walk d keys out m
      else (case on_docs (docs_get_key d key) m of
              (Inl e, m) \<Rightarrow> running_walk d keys out m
            | (Inr j, m) \<Rightarrow>
                if terminal (job_state j) then running_walk d keys out (mark_settled key m)
                else running_walk d keys (out @ [j]) m))"

definition list_running :: "('s, 'v, job) documents \<Rightarrow> ('s job_store, jobs_error, job list) op" where
  "list_running d m =
     (case on_docs (docs_keys d []) m of
        (Inl e, m) \<Rightarrow> (Inl (JobsState ''jobs: list history'' e), m)
      | (Inr keys, m) \<Rightarrow>
          (case running_walk d keys [] m of (out, m) \<Rightarrow> (Inr (sort_newest_first out), m)))"

subsection \<open>The key layout\<close>

text \<open>
  What the service puts in a record it files: an id without a separator (ids are hexadecimal), a
  kind it knows, a Space, and a creation time that has a nanosecond stamp.
\<close>

definition plain_job :: "job \<Rightarrow> bool" where
  "plain_job j \<longleftrightarrow>
     job_id j \<noteq> [] \<and> CHR ''-'' \<notin> set (job_id j) \<and> list_all is_safe_byte (job_id j) \<and>
     is_kind (job_kind j) \<and> job_space j \<noteq> [] \<and> 0 \<le> created_at j \<and> created_at j \<le> max_int64"

definition legacy_name :: "time \<Rightarrow> string \<Rightarrow> string" where
  "legacy_name created i = format_int_width key_time_width (unix_nano created) @ ''-'' @ i"

definition job_name :: "job \<Rightarrow> string \<Rightarrow> bool" where
  "job_name j n \<longleftrightarrow>
     n = document_name (created_at j) (job_kind j) (job_id j) \<or> n = legacy_name (created_at j) (job_id j)"

lemma format_stamp:
  assumes "0 \<le> t" "t \<le> max_int64"
  shows "format_int_width key_time_width (unix_nano t) = version_name t"
  using assms by (simp add: unix_nano_id version_name_def version_width_def key_time_width_def)

lemma version_name_digits:
  assumes "0 \<le> t" "c \<in> set (version_name t)" shows "\<exists>d<10. c = digit_char d"
  using assms pad_zero_digits by (auto simp: version_name_def format_int_width_nonneg)

lemma length_version_name: "0 \<le> t \<Longrightarrow> t \<le> max_int64 \<Longrightarrow> length (version_name t) = version_width"
  by (simp add: version_name_def format_int_width_nonneg length_pad_zero dec_digits_int64)

lemma dash_notin_version_name: "0 \<le> t \<Longrightarrow> CHR ''-'' \<notin> set (version_name t)"
  using version_name_digits digit_char_not_sign by metis

lemma digit_char_safe: "d < 10 \<Longrightarrow> is_safe_byte (digit_char d)"
  by (auto simp: is_safe_byte_def digit_char_def less_eq_char_def)

lemma version_name_safe: "0 \<le> t \<Longrightarrow> list_all is_safe_byte (version_name t)"
  by (auto simp: list_all_iff dest: version_name_digits digit_char_safe)

lemma kind_safe: "is_kind k \<Longrightarrow> list_all is_safe_byte k \<and> CHR ''-'' \<notin> set k \<and> k \<noteq> []"
  by (auto simp: is_kind_def job_constants is_safe_byte_def less_eq_char_def)

lemma parse_version_name: "0 \<le> t \<Longrightarrow> t \<le> max_int64 \<Longrightarrow> parse_int64 (version_name t) = Some t"
  by (simp add: version_name_def format_int_width_nonneg parse_int64_pad)

lemma document_segment_docs_key:
  assumes "plain_segment n"
  shows "document_segment (docs_key d [sp, n]) = n"
proof -
  have "CHR ''/'' \<notin> set n"
    using assms slash_not_safe by (auto simp: plain_segment_def list_all_iff)
  then show ?thesis
    using assms go_after_last_append [of "CHR ''/''" n "d_prefix d @ ''/'' @ escape_segment sp"]
    by (simp add: document_segment_def docs_key_def state_key_Cons state_key_single escape_plain)
qed

lemma job_name_cut:
  assumes "plain_job j" "job_name j n"
  obtains rest where "n = version_name (created_at j) @ CHR ''-'' # rest"
    "go_cut (CHR ''-'') n = Some (version_name (created_at j), rest)"
    "rest = job_id j \<or> rest = job_kind j @ CHR ''-'' # job_id j"
proof -
  have t: "0 \<le> created_at j" "created_at j \<le> max_int64"
    using assms by (auto simp: plain_job_def)
  show thesis
    using assms(2) that [of "job_id j"] that [of "job_kind j @ CHR ''-'' # job_id j"]
      dash_notin_version_name [OF t(1)]
    by (auto simp: job_name_def document_name_def legacy_name_def format_stamp [OF t] go_cut_append)
qed

lemma job_name_plain:
  assumes "plain_job j" "job_name j n" shows "plain_segment n"
proof -
  obtain rest where n: "n = version_name (created_at j) @ CHR ''-'' # rest"
    "rest = job_id j \<or> rest = job_kind j @ CHR ''-'' # job_id j"
    using job_name_cut [OF assms] .
  have "list_all is_safe_byte n"
    using n assms kind_safe version_name_safe by (auto simp: plain_job_def is_safe_byte_def)
  moreover have "n \<noteq> ''.'' \<and> n \<noteq> ''..''"
  proof -
    have "CHR ''-'' \<in> set n" using n by simp
    then show ?thesis by auto
  qed
  ultimately show ?thesis by (simp add: plain_segment_def)
qed

text \<open>Whichever layout a key has, what it says of the record is right.\<close>

lemma job_key_says:
  assumes "plain_job j" "job_name j n"
  shows "id_from_key (docs_key d [sp, n]) = Some (job_id j)"
    and "created_from_key (docs_key d [sp, n]) = Some (created_at j)"
    and "kind_from_key (docs_key d [sp, n]) \<in> {None, Some (job_kind j)}"
proof -
  obtain rest where cut: "go_cut (CHR ''-'') n = Some (version_name (created_at j), rest)"
    and rest: "rest = job_id j \<or> rest = job_kind j @ CHR ''-'' # job_id j"
    using job_name_cut [OF assms] .
  have i: "job_id j \<noteq> []" "go_cut (CHR ''-'') (job_id j) = None"
    using assms by (auto simp: plain_job_def go_cut_None)
  have k: "is_kind (job_kind j)"
    "go_cut (CHR ''-'') (job_kind j @ CHR ''-'' # job_id j) = Some (job_kind j, job_id j)"
    using assms kind_safe by (auto simp: plain_job_def go_cut_append)
  note seg = document_segment_docs_key [OF job_name_plain [OF assms], of d sp]
  show "id_from_key (docs_key d [sp, n]) = Some (job_id j)"
    using rest i k by (auto simp: id_from_key_def seg cut)
  show "created_from_key (docs_key d [sp, n]) = Some (created_at j)"
    using assms by (auto simp: created_from_key_def seg cut plain_job_def parse_version_name)
  show "kind_from_key (docs_key d [sp, n]) \<in> {None, Some (job_kind j)}"
    using rest i k by (auto simp: kind_from_key_def seg cut)
qed

lemma append_less: "(a :: string) < b \<Longrightarrow> length a = length b \<Longrightarrow> a @ x < b @ y"
  by (induction a b rule: list_induct2') auto

lemma same_prefix_less: "(p :: string) @ a < p @ b \<longleftrightarrow> a < b"
  by (induction p) auto

text \<open>In one Space, key order is chronological.\<close>

lemma job_key_order:
  assumes "plain_job a" "job_name a n" "plain_job b" "job_name b k" "created_at a < created_at b"
  shows "docs_key d [sp, n] < docs_key d [sp, k]"
proof -
  obtain x where n: "n = version_name (created_at a) @ CHR ''-'' # x"
    using job_name_cut [OF assms(1,2)] .
  obtain y where k: "k = version_name (created_at b) @ CHR ''-'' # y"
    using job_name_cut [OF assms(3,4)] .
  have "version_name (created_at a) < version_name (created_at b)"
    using assms by (auto simp: plain_job_def version_name_order)
  then have "n < k"
    unfolding n k using assms by (intro append_less) (auto simp: length_version_name plain_job_def)
  then show ?thesis
    using job_name_plain [OF assms(1,2)] job_name_plain [OF assms(3,4)]
    by (simp add: docs_key_def state_key_Cons state_key_single escape_plain same_prefix_less)
qed

subsection \<open>Over a store that keeps its contract\<close>

text \<open>Every record under the prefix is filed under a name of its own, in its Space.\<close>

definition history_ok :: "('s, 'v, job) documents \<Rightarrow> (string \<rightharpoonup> 'v) \<Rightarrow> bool" where
  "history_ok d view \<longleftrightarrow>
     (\<forall>k j. has_segment_prefix k jobs_prefix \<longrightarrow> doc_at d view k = Some j \<longrightarrow>
        plain_job j \<and> (\<exists>n. job_name j n \<and> k = docs_key d [job_space j, n]))"

definition space_jobs :: "('s, 'v, job) documents \<Rightarrow> (string \<rightharpoonup> 'v) \<Rightarrow> string \<Rightarrow> job_kind \<Rightarrow> job set" where
  "space_jobs d view sp kind =
     {j. \<exists>k. has_segment_prefix k (docs_key d [sp]) \<and> doc_at d view k = Some j \<and>
           (kind = [] \<or> job_kind j = kind)}"

definition all_jobs :: "('s, 'v, job) documents \<Rightarrow> (string \<rightharpoonup> 'v) \<Rightarrow> job set" where
  "all_jobs d view = {j. \<exists>k. has_segment_prefix k jobs_prefix \<and> doc_at d view k = Some j}"

lemma on_docs_backend: "on_docs f m = (r, m') \<Longrightarrow> f (js_backend m) = (r, js_backend m')"
  by (auto simp: on_docs_def split: prod.splits)

lemma on_docs_caches:
  "on_docs f m = (r, m') \<Longrightarrow>
    js_index m' = js_index m \<and> js_indexed m' = js_indexed m \<and> js_terminal m' = js_terminal m"
  by (auto simp: on_docs_def split: prod.splits)

lemma cache_updates [simp]:
  "js_backend (remember i k m) = js_backend m"
  "js_backend (forget i ks m) = js_backend m"
  "js_backend (mark_settled k m) = js_backend m"
  "js_terminal (remember i k m) = js_terminal m"
  "js_terminal (forget i ks m) = js_terminal m - set ks"
  "js_terminal (mark_settled k m) = insert k (js_terminal m)"
  by (simp_all add: remember_def forget_def mark_settled_def)

lemma index_updates [simp]:
  "js_index (remember i k m) = (js_index m)(i \<mapsto> k)"
  "js_index (forget i ks m) = (js_index m)(i := None)"
  "js_index (mark_settled k m) = js_index m"
  "js_indexed (remember i k m) = js_indexed m"
  "js_indexed (forget i ks m) = js_indexed m"
  "js_indexed (mark_settled k m) = js_indexed m"
  by (simp_all add: remember_def forget_def mark_settled_def)

locale job_docs = collection st view d
  for st :: "('s, 'v) store" and view :: "'s \<Rightarrow> string \<rightharpoonup> 'v" and d :: "('s, 'v, job) documents" +
  assumes prefix: "d_prefix d = jobs_prefix"
begin

lemma job_key_prefix: "has_segment_prefix (docs_key d ids) jobs_prefix"
  by (simp add: has_segment_prefix_iff jobs_prefix_def docs_key_def prefix)

lemma space_key_prefix:
  assumes "sp \<noteq> []" "has_segment_prefix k (docs_key d [sp])"
  shows "has_segment_prefix k jobs_prefix"
proof -
  have "\<exists>r. k = docs_key d [sp] @ r"
    using assms by (auto simp: has_segment_prefix_iff last_docs_key)
  then show ?thesis
    by (auto simp: has_segment_prefix_iff docs_key_def prefix jobs_prefix_def)
qed

lemma job_below_space:
  assumes "job_space j \<noteq> []" "sp \<noteq> []"
  shows "has_segment_prefix (docs_key d [job_space j, n]) (docs_key d [sp]) \<longleftrightarrow> sp = job_space j"
  using docs_key_below [OF assms] .

lemma space_jobs_eq:
  assumes "history_ok d m" "sp \<noteq> []"
  shows "space_jobs d m sp kind = {j \<in> all_jobs d m. job_space j = sp \<and> (kind = [] \<or> job_kind j = kind)}"
proof -
  have "job_space j = sp \<longleftrightarrow> has_segment_prefix k (docs_key d [sp])"
    if "doc_at d m k = Some j" "has_segment_prefix k jobs_prefix" for k j
  proof -
    obtain n where "plain_job j" "k = docs_key d [job_space j, n]"
      using assms(1) \<open>doc_at d m k = Some j\<close> \<open>has_segment_prefix k jobs_prefix\<close>
      by (auto simp: history_ok_def)
    then show ?thesis using job_below_space [of j sp n] assms(2) by (auto simp: plain_job_def)
  qed
  then show ?thesis
    using space_key_prefix [OF assms(2)] by (auto simp: space_jobs_def all_jobs_def)
qed

lemma list_walk_frame:
  "list_walk d kind limit keys out m = (res, m') \<Longrightarrow>
    view (js_backend m') = view (js_backend m) \<and> js_terminal m' = js_terminal m"
proof (induction keys arbitrary: out m)
  case (Cons k ks)
  obtain r m1 where g: "on_docs (docs_get_key d k) m = (r, m1)" by fastforce
  have "view (js_backend m1) = view (js_backend m)" "js_terminal m1 = js_terminal m"
    using docs_get_key_view [OF on_docs_backend [OF g]] on_docs_caches [OF g] by auto
  with Cons g show ?case
    by (fastforce simp: Let_def split: if_splits sum.splits)
qed simp

lemma list_walk_sound:
  "list_walk d kind limit keys out m = (res, m') \<Longrightarrow>
    set res \<subseteq> set out \<union> {j. \<exists>k\<in>set keys. doc_at d (view (js_backend m)) k = Some j \<and> (kind = [] \<or> job_kind j = kind)}"
proof (induction keys arbitrary: out m)
  case (Cons k ks)
  obtain r m1 where g: "on_docs (docs_get_key d k) m = (r, m1)" by fastforce
  have v: "view (js_backend m1) = view (js_backend m)"
    using docs_get_key_view [OF on_docs_backend [OF g]] .
  show ?case
  proof (cases r)
    case (Inl e)
    then show ?thesis
      using Cons.prems g v Cons.IH [of out m] Cons.IH [of out m1]
      by (auto simp: Let_def split: if_splits)
  next
    case (Inr j)
    then have "doc_at d (view (js_backend m)) k = Some j"
      using g by (auto dest!: on_docs_backend docs_get_key_ok)
    then show ?thesis
      using Cons.prems g v Inr Cons.IH [of out m] Cons.IH [of out "remember (job_id j) k m1"]
        Cons.IH [of "out @ [j]" "remember (job_id j) k m1"]
      by (auto simp: Let_def split: if_splits)
  qed
qed simp

lemma prune_keys_safe:
  "prune_keys d cutoff keys n m = (r, m') \<Longrightarrow>
    view (js_backend m') k = view (js_backend m) k \<or>
    view (js_backend m') k = None \<and>
      (\<exists>j. doc_at d (view (js_backend m)) k = Some j \<and> prunable j cutoff)"
proof (induction keys arbitrary: n m)
  case (Cons key keys)
  show ?case
  proof (cases "\<exists>c. created_from_key key = Some c \<and> c < cutoff")
    case False
    then show ?thesis using Cons by (auto split: option.splits)
  next
    case True
    obtain q m1 where g: "on_docs (docs_get_key d key) m = (q, m1)" by fastforce
    have v1: "view (js_backend m1) = view (js_backend m)"
      using docs_get_key_view [OF on_docs_backend [OF g]] .
    show ?thesis
    proof (cases "\<exists>j. q = Inr j \<and> prunable j cutoff")
      case False
      then show ?thesis using Cons.prems True g v1 Cons.IH [of n m1] by (cases q) auto
    next
      case del: True
      then obtain j where j: "q = Inr j" "prunable j cutoff" by blast
      then have doc: "doc_at d (view (js_backend m)) key = Some j"
        using g by (auto dest!: on_docs_backend docs_get_key_ok)
      obtain u m2 where d2: "on_docs (docs_delete_key d key) m1 = (u, m2)" by fastforce
      have others: "view (js_backend m2) k' = view (js_backend m) k'" if "k' \<noteq> key" for k'
        using docs_delete_key_others [OF on_docs_backend [OF d2] that] v1 by simp
      have self: "view (js_backend m2) key = view (js_backend m) key \<or> view (js_backend m2) key = None"
        using on_docs_backend [OF d2] v1
        by (cases u) (auto simp: docs_delete_key_def store_of dest: delete_ok delete_fails)
      have step: "view (js_backend m') k = view (js_backend m2) k \<or>
          view (js_backend m') k = None \<and>
            (\<exists>j. doc_at d (view (js_backend m2)) k = Some j \<and> prunable j cutoff)"
        using Cons.prems True g j d2 Cons.IH [of "n + 1" "forget (job_id j) [key] m2"]
        by (auto split: sum.splits if_splits)
      show ?thesis
      proof (cases "k = key")
        case True
        then show ?thesis using step self doc j by (auto simp: doc_at_def)
      next
        case False
        then show ?thesis using step others by (auto simp: doc_at_def)
      qed
    qed
  qed
qed simp

lemma prune_safe:
  assumes "job_prune_before d cutoff m = (r, m')"
  shows "view (js_backend m') k = view (js_backend m) k \<or>
    view (js_backend m') k = None \<and>
      (\<exists>j. doc_at d (view (js_backend m)) k = Some j \<and> prunable j cutoff)"
proof -
  obtain q m1 where l: "on_docs (docs_keys d []) m = (q, m1)" by fastforce
  then have "view (js_backend m1) = view (js_backend m)"
    using docs_keys_view on_docs_backend by blast
  then show ?thesis
    using assms l prune_keys_safe [of cutoff _ 0 m1 r m' k]
    by (cases q) (auto simp: job_prune_before_def)
qed

end

definition matches_kind :: "job_kind \<Rightarrow> job \<Rightarrow> bool" where
  "matches_kind kind j \<longleftrightarrow> kind = [] \<or> job_kind j = kind"

definition up_to :: "int \<Rightarrow> nat \<Rightarrow> 'a list \<Rightarrow> 'a list" where
  "up_to limit n xs = (if limit \<le> 0 then xs else take (nat limit - n) xs)"

lemma up_to_simps [simp]:
  "up_to limit n [] = []"
  "limit > 0 \<Longrightarrow> int n = limit \<Longrightarrow> up_to limit n xs = []"
  "limit > 0 \<Longrightarrow> int n < limit \<Longrightarrow> up_to limit n (x # xs) = x # up_to limit (Suc n) xs"
  "limit \<le> 0 \<Longrightarrow> up_to limit n xs = xs"
  by (auto simp: up_to_def take_Cons' diff_Suc split: nat.splits)

locale reliable_job_docs = reliable_collection st view reliable d + job_docs st view d
  for st :: "('s, 'v) store" and view :: "'s \<Rightarrow> string \<rightharpoonup> 'v" and reliable :: "'s \<Rightarrow> bool"
    and d :: "('s, 'v, job) documents"
begin

text \<open>Where the store answers, a read is decided by what is stored.\<close>

lemma read_reliable:
  assumes "reliable (js_backend m)"
  obtains m' where "reliable (js_backend m')" "view (js_backend m') = view (js_backend m)"
    "js_index m' = js_index m" "js_indexed m' = js_indexed m" "js_terminal m' = js_terminal m"
    "on_docs (docs_get_key d k) m = (case view (js_backend m) k of None \<Rightarrow> Inl (NotFoundError k)
       | Some raw \<Rightarrow> (case d_decode d raw of None \<Rightarrow> Inl (MalformedError k) | Some x \<Rightarrow> Inr x), m')"
proof -
  obtain s' where s': "reliable s'" "docs_get_key d k (js_backend m) =
    (case view (js_backend m) k of None \<Rightarrow> Inl (NotFoundError k)
       | Some raw \<Rightarrow> (case d_decode d raw of None \<Rightarrow> Inl (MalformedError k) | Some x \<Rightarrow> Inr x), s')"
    using docs_get_key_reliable [OF assms] by blast
  show thesis
    using s' that [of "m\<lparr>js_backend := s'\<rparr>"] docs_get_key_view [OF s'(2)] by (simp add: on_docs_def)
qed

lemma read_cases:
  assumes "reliable (js_backend m)"
  obtains m' r where "reliable (js_backend m')" "view (js_backend m') = view (js_backend m)"
    "js_index m' = js_index m" "js_indexed m' = js_indexed m" "js_terminal m' = js_terminal m"
    "on_docs (docs_get_key d k) m = (r, m')"
    "(case doc_at d (view (js_backend m)) k of Some j \<Rightarrow> r = Inr j | None \<Rightarrow> \<exists>e. r = Inl e)"
  by (rule read_reliable [OF assms, of k]) (auto simp: doc_at_def split: option.splits)

lemma list_walk_exact:
  assumes "reliable (js_backend m)" "limit \<le> 0 \<or> int (length out) \<le> limit"
    and "\<And>k j. k \<in> set keys \<Longrightarrow> doc_at d (view (js_backend m)) k = Some j \<Longrightarrow>
      kind_from_key k \<in> {None, Some (job_kind j)}"
  shows "\<exists>m'. reliable (js_backend m') \<and> list_walk d kind limit keys out m =
    (out @ up_to limit (length out)
       (filter (matches_kind kind) (List.map_filter (doc_at d (view (js_backend m))) keys)), m')"
  using assms
proof (induction keys arbitrary: out m)
  case (Cons k ks)
  let ?v = "view (js_backend m)"
  obtain m' r where m': "reliable (js_backend m')" "view (js_backend m') = ?v"
    "on_docs (docs_get_key d k) m = (r, m')"
    "case doc_at d ?v k of Some j \<Rightarrow> r = Inr j | None \<Rightarrow> \<exists>e. r = Inl e"
    using read_cases [OF Cons.prems(1), of k] by blast
  have key: "kind_from_key k \<in> {None, Some (job_kind j)}" if "doc_at d ?v k = Some j" for j
    using Cons.prems(3) that by auto
  consider (full) "limit > 0" "int (length out) = limit"
    | (room) "\<not> (limit > 0 \<and> int (length out) = limit)" by blast
  then show ?case
  proof cases
    case full
    then show ?thesis using Cons.prems(1) by auto
  next
    case room
    show ?thesis
    proof (cases "kind \<noteq> [] \<and> kind_from_key k \<noteq> None \<and> kind_from_key k \<noteq> Some kind")
      case True
      have "List.map_filter (doc_at d ?v) (k # ks) = List.map_filter (doc_at d ?v) ks \<or>
        (\<exists>j. doc_at d ?v k = Some j \<and> \<not> matches_kind kind j)"
        using True key by (cases "doc_at d ?v k") (auto simp: matches_kind_def)
      then show ?thesis
        using Cons.IH [of m out] Cons.prems room True by auto
    next
      case False
      show ?thesis
      proof (cases "doc_at d ?v k")
        case None
        then show ?thesis
          using Cons.IH [of m' out] Cons.prems room False m' by auto
      next
        case (Some j)
        let ?m = "remember (job_id j) k m'"
        have "limit \<le> 0 \<or> int (length out) < limit" using room Cons.prems(2) by auto
        then show ?thesis
          using Cons.IH [of ?m out] Cons.IH [of ?m "out @ [j]"] Cons.prems room False m' Some
          by (auto simp: matches_kind_def Let_def)
      qed
    qed
  qed
qed auto

lemma keys_reliable:
  assumes "reliable (js_backend m)"
  obtains ks m' where "on_docs (docs_keys d ids) m = (Inr ks, m')" "reliable (js_backend m')"
    "view (js_backend m') = view (js_backend m)" "js_index m' = js_index m"
    "js_indexed m' = js_indexed m" "js_terminal m' = js_terminal m" "sorted ks" "distinct ks"
    "set ks = {k \<in> dom (view (js_backend m)).
       has_segment_prefix k (if ids = [] then jobs_prefix else docs_key d ids)}"
proof -
  obtain ks s' where s': "reliable s'" "docs_keys d ids (js_backend m) = (Inr ks, s')"
    using docs_keys_reliable [OF assms] by blast
  then have "store_list st (if ids = [] then jobs_prefix else docs_key d ids) (js_backend m) = (Inr ks, s')"
    by (simp add: docs_keys_def store_of prefix split: if_splits)
  then show thesis
    using s' that [of ks "m\<lparr>js_backend := s'\<rparr>"] list_ok [of _ "js_backend m" ks s'] list_view
    by (simp add: on_docs_def split: if_splits)
qed

lemma history_key:
  assumes "history_ok d v" "has_segment_prefix k jobs_prefix" "doc_at d v k = Some j"
  shows "kind_from_key k \<in> {None, Some (job_kind j)}" "created_from_key k = Some (created_at j)"
    "id_from_key k = Some (job_id j)"
proof -
  obtain n where "plain_job j" "job_name j n" "k = docs_key d [job_space j, n]"
    using assms by (auto simp: history_ok_def)
  then show "kind_from_key k \<in> {None, Some (job_kind j)}" "created_from_key k = Some (created_at j)"
    "id_from_key k = Some (job_id j)"
    using job_key_says [of j n d "job_space j"] by simp_all
qed

lemma list_recent_exact:
  assumes rel: "reliable (js_backend m)" and ok: "history_ok d (view (js_backend m))" and sp: "sp \<noteq> []"
    and l: "list_recent d sp kind limit m = (r, m')"
  obtains ks where "reliable (js_backend m')" "sorted ks" "distinct ks"
    "set ks = {k \<in> dom (view (js_backend m)). has_segment_prefix k (docs_key d [sp])}"
    "r = Inr (sort_newest_first (up_to limit 0
       (filter (matches_kind kind) (List.map_filter (doc_at d (view (js_backend m))) (rev ks)))))"
proof -
  obtain ks m1 where ks: "on_docs (docs_keys d [sp]) m = (Inr ks, m1)" "reliable (js_backend m1)"
    "view (js_backend m1) = view (js_backend m)" "sorted ks" "distinct ks"
    "set ks = {k \<in> dom (view (js_backend m)). has_segment_prefix k (docs_key d [sp])}"
    by (rule keys_reliable [OF rel, of "[sp]"]) simp
  have lim: "limit \<le> 0 \<or> int (length ([] :: job list)) \<le> limit" by auto
  have "\<And>k j. k \<in> set (rev ks) \<Longrightarrow> doc_at d (view (js_backend m1)) k = Some j \<Longrightarrow>
      kind_from_key k \<in> {None, Some (job_kind j)}"
    using ks history_key(1) [OF ok space_key_prefix [OF sp]] by simp
  then obtain m2 where "reliable (js_backend m2)" "list_walk d kind limit (rev ks) [] m1 =
      (up_to limit 0 (filter (matches_kind kind) (List.map_filter (doc_at d (view (js_backend m))) (rev ks))), m2)"
    using list_walk_exact [OF ks(2) lim, of "rev ks" kind] ks(3) by auto
  then show thesis
    using l ks that by (auto simp: list_recent_def)
qed

text \<open>The walk meets records newest first.\<close>

lemma walk_newest_first:
  assumes ok: "history_ok d v" and sp: "sp \<noteq> []" and ks: "sorted ks" "distinct ks"
    "set ks \<subseteq> {k. has_segment_prefix k (docs_key d [sp])}"
  shows "sorted_wrt (\<lambda>a b. created_at b \<le> created_at a) (List.map_filter (doc_at d v) (rev ks))"
proof -
  have "sorted_wrt (\<lambda>a b. b < a) (rev ks)"
    using ks by (simp add: sorted_wrt_rev strict_sorted_iff)
  then have "sorted_wrt (\<lambda>a b. b < a) (filter (\<lambda>k. doc_at d v k \<noteq> None) (rev ks))"
    by (rule sorted_wrt_filter)
  then have "sorted_wrt (\<lambda>a b. created_at (the (doc_at d v b)) \<le> created_at (the (doc_at d v a)))
      (filter (\<lambda>k. doc_at d v k \<noteq> None) (rev ks))"
  proof (rule sorted_wrt_mono_rel [rotated])
    fix a b assume a: "a \<in> set (filter (\<lambda>k. doc_at d v k \<noteq> None) (rev ks))"
      and b: "b \<in> set (filter (\<lambda>k. doc_at d v k \<noteq> None) (rev ks))" and less: "b < a"
    then obtain i j where ij: "doc_at d v a = Some i" "doc_at d v b = Some j" by auto
    have pre: "has_segment_prefix a (docs_key d [sp])" "has_segment_prefix b (docs_key d [sp])"
      using a b ks(3) by auto
    obtain n where n: "plain_job i" "job_name i n" "a = docs_key d [job_space i, n]"
      using ok ij(1) space_key_prefix [OF sp pre(1)] by (auto simp: history_ok_def)
    obtain k where k: "plain_job j" "job_name j k" "b = docs_key d [job_space j, k]"
      using ok ij(2) space_key_prefix [OF sp pre(2)] by (auto simp: history_ok_def)
    have "job_space i = sp" "job_space j = sp"
      using pre n k job_below_space [OF _ sp] by (auto simp: plain_job_def)
    then have "\<not> created_at i < created_at j"
      using job_key_order [OF n(1,2) k(1,2), of d sp] n(3) k(3) less by auto
    then show "created_at (the (doc_at d v b)) \<le> created_at (the (doc_at d v a))"
      using ij by simp
  qed
  then show ?thesis
    by (simp add: List.map_filter_def sorted_wrt_map)
qed

lemma sorted_wrt_up_to:
  assumes "sorted_wrt R xs" "x \<in> set xs" "x \<notin> set (up_to limit 0 xs)" "y \<in> set (up_to limit 0 xs)"
  shows "limit > 0 \<and> int (length (up_to limit 0 xs)) = limit \<and> R y x"
proof -
  have l: "limit > 0" using assms by (auto simp: up_to_def split: if_splits)
  then have y: "y \<in> set (take (nat limit) xs)" and x: "x \<in> set (drop (nat limit) xs)"
    using assms set_append [of "take (nat limit) xs" "drop (nat limit) xs"] by (auto simp: up_to_def)
  moreover have "sorted_wrt R (take (nat limit) xs @ drop (nat limit) xs)"
    using assms(1) by simp
  ultimately have "R y x" unfolding sorted_wrt_append by blast
  moreover have "nat limit < length xs" using x by (cases "nat limit < length xs") auto
  ultimately show ?thesis using l by (simp add: up_to_def)
qed

lemma list_recent_newest:
  assumes rel: "reliable (js_backend m)" and ok: "history_ok d (view (js_backend m))" and sp: "sp \<noteq> []"
    and l: "list_recent d sp kind limit m = (r, m')"
  shows "\<exists>out. r = Inr out \<and> sorted_wrt (\<lambda>a b. created_at b \<le> created_at a) out \<and>
    set out \<subseteq> space_jobs d (view (js_backend m)) sp kind \<and>
    (limit \<le> 0 \<longrightarrow> set out = space_jobs d (view (js_backend m)) sp kind) \<and>
    (limit > 0 \<longrightarrow> int (length out) \<le> limit) \<and>
    (\<forall>j\<in>space_jobs d (view (js_backend m)) sp kind - set out.
       int (length out) = limit \<and> (\<forall>j'\<in>set out. created_at j \<le> created_at j'))"
proof -
  let ?v = "view (js_backend m)"
  obtain ks where ks: "sorted ks" "distinct ks"
    "set ks = {k \<in> dom ?v. has_segment_prefix k (docs_key d [sp])}"
    "r = Inr (sort_newest_first (up_to limit 0
       (filter (matches_kind kind) (List.map_filter (doc_at d ?v) (rev ks)))))"
    using list_recent_exact [OF rel ok sp l] by blast
  let ?M = "filter (matches_kind kind) (List.map_filter (doc_at d ?v) (rev ks))"
  have "doc_at d ?v k = None" if "k \<notin> dom ?v" for k
    using that by (simp add: doc_at_def domIff)
  then have "(\<exists>k\<in>set ks. doc_at d ?v k = Some j) \<longleftrightarrow>
      (\<exists>k. has_segment_prefix k (docs_key d [sp]) \<and> doc_at d ?v k = Some j)" for j
    using ks(3) by fastforce
  then have M: "set ?M = space_jobs d ?v sp kind"
    by (auto simp: in_set_map_filter space_jobs_def matches_kind_def)
  have sorted: "sorted_wrt (\<lambda>a b. created_at b \<le> created_at a) ?M"
    using walk_newest_first [OF ok sp ks(1,2)] ks(3) by (auto intro: sorted_wrt_filter)
  have "set (up_to limit 0 ?M) \<subseteq> set ?M"
    by (auto simp: up_to_def dest: in_set_takeD split: if_splits)
  moreover have "limit > 0 \<longrightarrow> int (length (up_to limit 0 ?M)) \<le> limit"
    by (auto simp: up_to_def)
  moreover have "int (length (up_to limit 0 ?M)) = limit \<and>
      (\<forall>j'\<in>set (up_to limit 0 ?M). created_at j \<le> created_at j')"
    if j: "j \<in> set ?M - set (up_to limit 0 ?M)" for j
  proof (cases "up_to limit 0 ?M = []")
    case True
    then have "?M = []" using j by (auto simp: up_to_def split: if_splits)
    then show ?thesis using j by simp
  next
    case False
    then obtain y where "y \<in> set (up_to limit 0 ?M)" by (cases "up_to limit 0 ?M") auto
    then show ?thesis using sorted_wrt_up_to [OF sorted, of j limit] j by blast
  qed
  ultimately show ?thesis
    unfolding M [symmetric] ks(4)
    by (intro exI [of _ "sort_newest_first (up_to limit 0 ?M)"])
      (auto simp: sort_newest_first_sorted)
qed

end

end
