(* ===== verification/Jobs_Refine.thy ===== *)
theory Jobs_Refine
  imports Jobs_State "HOL-Library.Multiset"
begin

text \<open>
  The durable job store refines the in-memory one (\<open>internal/jobs/state.go\<close> against
  \<open>internal/jobs/memory.go\<close>). The relation says both hold the same records and that the durable
  store's caches are right; each operation keeps it and answers the same, so any sequence of
  calls does. The properties of the durable store stand at the end, over the service's backend.
\<close>

subsection \<open>The relation\<close>

definition stored_job :: "('s, 'v, job) documents \<Rightarrow> (string \<rightharpoonup> 'v) \<Rightarrow> string \<Rightarrow> job \<Rightarrow> bool" where
  "stored_job d v k j \<longleftrightarrow> has_segment_prefix k jobs_prefix \<and> doc_at d v k = Some j"

definition history_sound :: "('s, 'v, job) documents \<Rightarrow> (string \<rightharpoonup> 'v) \<Rightarrow> bool" where
  "history_sound d v \<longleftrightarrow> history_ok d v \<and>
     (\<forall>k. has_segment_prefix k jobs_prefix \<longrightarrow> \<not> corrupt_at d v k) \<and>
     (\<forall>k k' j j'. stored_job d v k j \<longrightarrow> stored_job d v k' j' \<longrightarrow> job_id j = job_id j' \<longrightarrow> k = k')"

definition caches_sound :: "('s, 'v, job) documents \<Rightarrow> (string \<rightharpoonup> 'v) \<Rightarrow> 's job_store \<Rightarrow> bool" where
  "caches_sound d v m \<longleftrightarrow>
     (\<forall>i k. js_index m i = Some k \<longrightarrow> has_segment_prefix k jobs_prefix \<and> id_from_key k = Some i \<and>
        (\<forall>k' j. stored_job d v k' j \<longrightarrow> (job_id j = i \<longleftrightarrow> k' = k))) \<and>
     (js_indexed m \<longrightarrow> (\<forall>k j. stored_job d v k j \<longrightarrow> js_index m (job_id j) = Some k)) \<and>
     (\<forall>k\<in>js_terminal m. \<exists>j. stored_job d v k j \<and> terminal (job_state j))"

definition same_records :: "('s, 'v, job) documents \<Rightarrow> (string \<rightharpoonup> 'v) \<Rightarrow> jobs_memory \<Rightarrow> bool" where
  "same_records d v mem \<longleftrightarrow> jobs_mem_ok mem \<and>
     (\<forall>i j. map_of (mem_jobs mem) i = Some j \<longleftrightarrow> (\<exists>k. stored_job d v k j \<and> job_id j = i))"

lemma stored_unique:
  "history_sound d v \<Longrightarrow> stored_job d v k j \<Longrightarrow> stored_job d v k' j' \<Longrightarrow> job_id j = job_id j' \<Longrightarrow> k = k'"
  by (auto simp: history_sound_def)

lemma stored_same_key: "stored_job d v k j \<Longrightarrow> stored_job d v k j' \<Longrightarrow> j = j'"
  by (simp add: stored_job_def)

lemma stored_plain: "history_sound d v \<Longrightarrow> stored_job d v k j \<Longrightarrow> plain_job j"
  by (auto simp: history_sound_def history_ok_def stored_job_def)

lemma stored_or_absent:
  "history_sound d v \<Longrightarrow> has_segment_prefix k jobs_prefix \<Longrightarrow> v k = None \<or> (\<exists>j. stored_job d v k j)"
  by (cases "v k") (auto simp: history_sound_def stored_job_def corrupt_at_def doc_at_def)

lemma same_records_stored:
  "same_records d v mem \<Longrightarrow> stored_job d v k j \<Longrightarrow> map_of (mem_jobs mem) (job_id j) = Some j"
  by (auto simp: same_records_def)

lemma same_records_found:
  "same_records d v mem \<Longrightarrow> map_of (mem_jobs mem) i = Some j \<Longrightarrow>
    job_id j = i \<and> (\<exists>k. stored_job d v k j)"
  by (auto simp: same_records_def)

lemma mem_lookup_set:
  "jobs_mem_ok mem \<Longrightarrow> j \<in> set (map snd (mem_jobs mem)) \<longleftrightarrow> map_of (mem_jobs mem) (job_id j) = Some j"
  by (force simp: jobs_mem_ok_def dest: map_of_SomeD)

lemma same_records_set:
  "same_records d v mem \<Longrightarrow> set (map snd (mem_jobs mem)) = all_jobs d v"
proof -
  assume r: "same_records d v mem"
  then have "j \<in> set (map snd (mem_jobs mem)) \<longleftrightarrow> (\<exists>k. stored_job d v k j)" for j
    using mem_lookup_set [of mem j] by (auto simp: same_records_def simp del: set_map)
  then show ?thesis by (auto simp: all_jobs_def stored_job_def simp del: set_map)
qed

lemma mem_distinct: "jobs_mem_ok mem \<Longrightarrow> distinct (map snd (mem_jobs mem))"
proof -
  assume ok: "jobs_mem_ok mem"
  then have "map fst (mem_jobs mem) = map job_id (map snd (mem_jobs mem))"
    by (auto simp: jobs_mem_ok_def)
  then show ?thesis using ok by (metis distinct_map jobs_mem_ok_def)
qed

lemma mem_ids_inj: "jobs_mem_ok mem \<Longrightarrow> inj_on job_id (set (map snd (mem_jobs mem)))"
proof -
  assume ok: "jobs_mem_ok mem"
  then have "map fst (mem_jobs mem) = map job_id (map snd (mem_jobs mem))"
    by (auto simp: jobs_mem_ok_def)
  then show ?thesis using ok by (metis distinct_map jobs_mem_ok_def)
qed

text \<open>Two enumerations of the same records sort to the same list.\<close>

lemma sort_newest_first_unique:
  assumes "distinct xs" "distinct ys" "set xs = set ys" "inj_on job_id (set xs)"
  shows "sort_newest_first xs = sort_newest_first ys"
proof -
  have m: "mset xs = mset ys"
    using assms set_eq_iff_mset_eq_distinct by blast
  have "inj_on newest_first_key (set xs)"
    using assms(4) by (auto simp: inj_on_def newest_first_key_def)
  then show ?thesis
    unfolding sort_newest_first_def using m
    by (intro sort_key_inj_key_eq) (auto)
qed

lemma caches_read:
  assumes "js_index m' = js_index m" "js_indexed m' = js_indexed m" "js_terminal m' = js_terminal m"
  shows "caches_sound d v m' = caches_sound d v m"
  using assms by (simp add: caches_sound_def)

lemma caches_remember:
  assumes h: "history_sound d v" and c: "caches_sound d v m" and j: "stored_job d v k j"
    and i: "id_from_key k = Some (job_id j)"
  shows "caches_sound d v (remember (job_id j) k m)"
proof -
  have "job_id j' = job_id j \<longleftrightarrow> k' = k" if "stored_job d v k' j'" for k' j'
    using stored_unique [OF h that j] stored_same_key [of d v k j j'] that j by auto
  moreover have "has_segment_prefix k jobs_prefix" using j by (simp add: stored_job_def)
  ultimately show ?thesis
    using c i unfolding caches_sound_def by simp
qed

lemma caches_settle:
  "caches_sound d v m \<Longrightarrow> stored_job d v k j \<Longrightarrow> terminal (job_state j) \<Longrightarrow> caches_sound d v (mark_settled k m)"
  by (auto simp: caches_sound_def)

lemma caches_forget_missing:
  "caches_sound d v m \<Longrightarrow> (\<forall>k j. stored_job d v k j \<longrightarrow> job_id j \<noteq> i) \<Longrightarrow> caches_sound d v (forget i [] m)"
  unfolding caches_sound_def by auto

lemma index_keys_last:
  "index_keys ks ix i =
    (case filter (\<lambda>k. id_from_key k = Some i) ks of [] \<Rightarrow> ix i | l \<Rightarrow> Some (last l))"
  by (induction ks arbitrary: ix) (auto split: option.splits list.splits)

text \<open>The index built from a listing of sound keys names every record.\<close>

lemma caches_indexed:
  assumes h: "history_sound d v" and c: "caches_sound d v m"
    and ks: "\<And>k. k \<in> set ks \<longleftrightarrow> (\<exists>j. stored_job d v k j)"
    and ids: "\<And>k j. stored_job d v k j \<Longrightarrow> id_from_key k = Some (job_id j)"
  shows "caches_sound d v (m\<lparr>js_index := index_keys ks (js_index m), js_indexed := True\<rparr>)"
proof -
  have new: "(\<exists>j. stored_job d v k j \<and> job_id j = i) \<or> js_index m i = Some k"
    if "index_keys ks (js_index m) i = Some k" for i k
  proof (cases "filter (\<lambda>k. id_from_key k = Some i) ks")
    case Nil
    then show ?thesis using that by (simp add: index_keys_last)
  next
    case (Cons a l)
    then have "k = last (filter (\<lambda>k. id_from_key k = Some i) ks)" using that by (simp add: index_keys_last)
    then have "k \<in> set (filter (\<lambda>k. id_from_key k = Some i) ks)"
      using Cons last_in_set by (metis list.distinct(1))
    then show ?thesis using ks ids by fastforce
  qed
  have all: "index_keys ks (js_index m) (job_id j) = Some k" if s: "stored_job d v k j" for k j
  proof -
    have k: "k \<in> set (filter (\<lambda>k. id_from_key k = Some (job_id j)) ks)"
      using ks ids s by auto
    have "k' = k" if "k' \<in> set (filter (\<lambda>k. id_from_key k = Some (job_id j)) ks)" for k'
      using that ks ids stored_unique [OF h _ s] by fastforce
    then have "last (filter (\<lambda>k. id_from_key k = Some (job_id j)) ks) = k"
      using k last_in_set by (metis empty_iff list.set(1))
    moreover have "filter (\<lambda>k. id_from_key k = Some (job_id j)) ks \<noteq> []" using k by force
    ultimately show ?thesis by (cases "filter (\<lambda>k. id_from_key k = Some (job_id j)) ks") (simp_all add: index_keys_last)
  qed
  have sound: "job_id j = i \<longleftrightarrow> k' = k"
    if i: "index_keys ks (js_index m) i = Some k" and s: "stored_job d v k' j" for i k k' j
    using new [OF i]
  proof
    assume "\<exists>j. stored_job d v k j \<and> job_id j = i"
    then obtain j0 where j0: "stored_job d v k j0" "job_id j0 = i" by blast
    then show ?thesis using stored_unique [OF h s j0(1)] stored_same_key [of d v k j0 j] s by auto
  next
    assume "js_index m i = Some k"
    then show ?thesis using c s by (auto simp: caches_sound_def)
  qed
  have pre: "has_segment_prefix k jobs_prefix \<and> id_from_key k = Some i"
    if "index_keys ks (js_index m) i = Some k" for i k
    using new [OF that] c ids by (auto simp: stored_job_def caches_sound_def)
  show ?thesis
    using sound pre all c unfolding caches_sound_def by auto
qed

subsection \<open>Reads\<close>

lemma sort_key_id: "sorted (map f xs) \<Longrightarrow> sort_key f xs = xs"
  by (induction xs) (auto simp: insort_is_Cons)

text \<open>Where no two records have the same time, sorting leaves a list that is newest first as it is.\<close>

lemma sort_newest_first_id:
  assumes "sorted_wrt (\<lambda>a b. created_at b \<le> created_at a) js" "distinct (map created_at js)"
  shows "sort_newest_first js = js"
proof -
  have "sorted (map newest_first_key js)"
    using assms
  proof (induction js)
    case (Cons j js)
    have "newest_first_key j \<le> newest_first_key j'" if "j' \<in> set js" for j'
    proof -
      have "created_at j' \<le> created_at j" "created_at j' \<in> created_at ` set js" "created_at j \<notin> created_at ` set js"
        using Cons.prems that by simp_all
      then have "created_at j' < created_at j" by (metis order_le_imp_less_or_eq)
      then show ?thesis by (simp add: newest_first_key_def)
    qed
    then show ?case using Cons by simp
  qed simp
  then show ?thesis by (simp add: sort_newest_first_def sort_key_id)
qed

definition asked :: "string \<Rightarrow> job_kind \<Rightarrow> job \<Rightarrow> bool" where
  "asked sp kind j \<longleftrightarrow> job_space j = sp \<and> (kind = [] \<or> job_kind j = kind)"

definition times_apart :: "string \<Rightarrow> job_kind \<Rightarrow> jobs_memory \<Rightarrow> bool" where
  "times_apart sp kind mem \<longleftrightarrow> distinct (map created_at (filter (asked sp kind) (map snd (mem_jobs mem))))"

context reliable_job_docs
begin

text \<open>The state of the pair: the store answers, both hold the same records, the caches are right.\<close>

definition sim :: "'s job_store \<Rightarrow> jobs_memory \<Rightarrow> bool" where
  "sim m mem \<longleftrightarrow> reliable (js_backend m) \<and> history_sound d (view (js_backend m)) \<and>
     caches_sound d (view (js_backend m)) m \<and> same_records d (view (js_backend m)) mem"

lemma sim_frame:
  assumes "sim m mem" "reliable (js_backend m')" "view (js_backend m') = view (js_backend m)"
    "caches_sound d (view (js_backend m)) m'"
  shows "sim m' mem"
  using assms by (simp add: sim_def)

lemma sim_read:
  assumes "sim m mem"
  obtains r m' where "on_docs (docs_get_key d k) m = (r, m')" "sim m' mem"
    "view (js_backend m') = view (js_backend m)" "js_terminal m' = js_terminal m"
    "js_index m' = js_index m"
    "view (js_backend m) k = None \<longrightarrow> (\<exists>e. r = Inl e \<and> is_not_found e)"
    "\<forall>j. doc_at d (view (js_backend m)) k = Some j \<longrightarrow> r = Inr j"
proof -
  have rel: "reliable (js_backend m)" using assms by (simp add: sim_def)
  obtain m' where m': "reliable (js_backend m')" "view (js_backend m') = view (js_backend m)"
    "js_index m' = js_index m" "js_indexed m' = js_indexed m" "js_terminal m' = js_terminal m"
    "on_docs (docs_get_key d k) m = (case view (js_backend m) k of None \<Rightarrow> Inl (NotFoundError k)
       | Some raw \<Rightarrow> (case d_decode d raw of None \<Rightarrow> Inl (MalformedError k) | Some x \<Rightarrow> Inr x), m')"
    using read_reliable [OF rel, of k] by blast
  have c: "caches_sound d (view (js_backend m)) m'"
    using assms caches_read [OF m'(3-5), of d] by (simp add: sim_def)
  show thesis
    by (rule that [OF m'(6) sim_frame [OF assms m'(1,2) c] m'(2) m'(5) m'(3)])
      (auto simp: doc_at_def bind_eq_Some_conv split: option.splits)
qed

lemma sim_keys:
  assumes "sim m mem"
  obtains ks m' where "on_docs (docs_keys d ids) m = (Inr ks, m')" "sim m' mem"
    "view (js_backend m') = view (js_backend m)" "js_terminal m' = js_terminal m" "sorted ks" "distinct ks"
    "set ks = {k \<in> dom (view (js_backend m)).
       has_segment_prefix k (if ids = [] then jobs_prefix else docs_key d ids)}"
proof -
  have rel: "reliable (js_backend m)" using assms by (simp add: sim_def)
  show thesis
  proof (rule keys_reliable [OF rel, of ids])
    fix ks m'
    assume m': "on_docs (docs_keys d ids) m = (Inr ks, m')" "reliable (js_backend m')"
      "view (js_backend m') = view (js_backend m)" "js_index m' = js_index m"
      "js_indexed m' = js_indexed m" "js_terminal m' = js_terminal m" "sorted ks" "distinct ks"
      "set ks = {k \<in> dom (view (js_backend m)).
         has_segment_prefix k (if ids = [] then jobs_prefix else docs_key d ids)}"
    have "caches_sound d (view (js_backend m)) m'"
      using assms caches_read [OF m'(4-6), of d] by (simp add: sim_def)
    then show thesis using that m' sim_frame [OF assms m'(2,3)] by blast
  qed
qed

lemma sim_all_keys:
  assumes "sim m mem" "set ks = {k \<in> dom (view (js_backend m)). has_segment_prefix k jobs_prefix}"
  shows "k \<in> set ks \<longleftrightarrow> (\<exists>j. stored_job d (view (js_backend m)) k j)"
  using assms stored_or_absent [of d "view (js_backend m)" k]
  by (auto simp: sim_def stored_job_def doc_at_def bind_eq_Some_conv)

lemma sim_ids:
  assumes "sim m mem" "stored_job d (view (js_backend m)) k j"
  shows "id_from_key k = Some (job_id j)" "created_from_key k = Some (created_at j)"
  using history_key [of "view (js_backend m)" k j] assms
  by (auto simp: sim_def history_sound_def stored_job_def)

text \<open>Resolving an id: the record's key, or a key under which nothing is stored.\<close>

lemma sim_key_for:
  assumes "sim m mem"
  shows "\<exists>m'. sim m' mem \<and> view (js_backend m') = view (js_backend m) \<and>
    (case map_of (mem_jobs mem) i of
       Some j \<Rightarrow> \<exists>k. key_for d i m = (Inr k, m') \<and> stored_job d (view (js_backend m)) k j
     | None \<Rightarrow> key_for d i m = (Inl (JobNotFound i), m') \<or>
         (\<exists>k. key_for d i m = (Inr k, m') \<and> view (js_backend m) k = None))"
proof -
  let ?v = "view (js_backend m)"
  have hist: "history_sound d ?v" and caches: "caches_sound d ?v m" and same: "same_records d ?v mem"
    using assms by (simp_all add: sim_def)
  have found: "case map_of (mem_jobs mem) i of Some j \<Rightarrow> stored_job d ?v k j | None \<Rightarrow> ?v k = None"
    if "js_index m' i = Some k" "caches_sound d ?v m'" for k m'
  proof -
    have k: "has_segment_prefix k jobs_prefix"
      "\<And>k' j. stored_job d ?v k' j \<Longrightarrow> job_id j = i \<longleftrightarrow> k' = k"
      using that by (auto simp: caches_sound_def)
    show ?thesis
    proof (cases "map_of (mem_jobs mem) i")
      case None
      then have "\<not> stored_job d ?v k j" for j
        using same_records_stored [OF same, of k j] k(2) [of k j] by auto
      then show ?thesis using None stored_or_absent [OF hist k(1)] by auto
    next
      case (Some j)
      then obtain k' where k': "stored_job d ?v k' j" "job_id j = i"
        using same by (auto simp: same_records_def)
      then show ?thesis using Some k(2) [OF k'(1)] by simp
    qed
  qed
  have absent: "map_of (mem_jobs mem) i = None"
    if "js_index m' i = None" "js_indexed m'" "caches_sound d ?v m'" for m'
    using that same by (cases "map_of (mem_jobs mem) i") (auto simp: caches_sound_def same_records_def)
  show ?thesis
  proof (cases "js_index m i")
    case (Some k)
    then show ?thesis
      using found [OF Some caches] assms by (auto simp: key_for_def split: option.splits)
  next
    case None
    show ?thesis
    proof (cases "js_indexed m")
      case True
      then show ?thesis using None absent [OF None True caches] assms by (auto simp: key_for_def)
    next
      case False
      obtain ks m1 where m1: "on_docs (docs_keys d []) m = (Inr ks, m1)" "sim m1 mem"
        "view (js_backend m1) = ?v" "set ks = {k \<in> dom ?v. has_segment_prefix k jobs_prefix}"
        by (rule sim_keys [OF assms, of "[]"]) simp
      let ?m = "m1\<lparr>js_index := index_keys ks (js_index m1), js_indexed := True\<rparr>"
      have "caches_sound d ?v m1" using m1(2,3) by (simp add: sim_def)
      then have c: "caches_sound d ?v ?m"
        using caches_indexed [OF hist] sim_all_keys [OF assms m1(4)] sim_ids(1) [OF assms] by blast
      have s: "sim ?m mem" using m1 c by (simp add: sim_def)
      show ?thesis
      proof (cases "js_index ?m i")
        case None
        then show ?thesis
          using absent [OF None _ c] s m1 \<open>js_index m i = None\<close> False
          by (intro exI [of _ ?m]) (simp add: key_for_def Let_def)
      next
        case (Some k)
        then show ?thesis
          using found [OF Some c] s m1 \<open>js_index m i = None\<close> False
          by (intro exI [of _ ?m]) (auto simp: key_for_def Let_def split: option.splits)
      qed
    qed
  qed
qed

lemma sim_stored:
  assumes "sim m mem" "stored_job d (view (js_backend m)) k j"
  shows "map_of (mem_jobs mem) (job_id j) = Some j" "plain_job j"
  using assms same_records_stored stored_plain by (auto simp: sim_def)

lemma sim_forget:
  assumes "sim m mem" "map_of (mem_jobs mem) i = None"
  shows "sim (forget i [] m) mem"
proof (rule sim_frame [OF assms(1)])
  have "job_id j \<noteq> i" if "stored_job d (view (js_backend m)) k j" for k j
    using sim_stored(1) [OF assms(1) that] assms(2) by auto
  then show "caches_sound d (view (js_backend m)) (forget i [] m)"
    using assms(1) by (intro caches_forget_missing) (auto simp: sim_def)
qed (use assms in \<open>simp_all add: sim_def\<close>)

lemma sim_remember:
  assumes "sim m mem" "stored_job d (view (js_backend m)) k j"
  shows "sim (remember (job_id j) k m) mem"
proof (rule sim_frame [OF assms(1)])
  show "caches_sound d (view (js_backend m)) (remember (job_id j) k m)"
    using assms sim_ids(1) [OF assms] by (intro caches_remember) (simp_all add: sim_def)
qed (use assms(1) in \<open>simp_all add: sim_def\<close>)

lemma sim_settle:
  "sim m mem \<Longrightarrow> stored_job d (view (js_backend m)) k j \<Longrightarrow> terminal (job_state j) \<Longrightarrow> sim (mark_settled k m) mem"
  by (rule sim_frame) (auto simp: sim_def intro: caches_settle)

lemma sim_get:
  assumes "sim m mem" "job_get d i m = (r, m')"
  shows "sim m' mem \<and> view (js_backend m') = view (js_backend m) \<and> jobs_mem_get i mem = (r, mem)"
proof -
  obtain m1 where m1: "sim m1 mem" "view (js_backend m1) = view (js_backend m)"
    "case map_of (mem_jobs mem) i of
       Some j \<Rightarrow> \<exists>k. key_for d i m = (Inr k, m1) \<and> stored_job d (view (js_backend m)) k j
     | None \<Rightarrow> key_for d i m = (Inl (JobNotFound i), m1) \<or>
         (\<exists>k. key_for d i m = (Inr k, m1) \<and> view (js_backend m) k = None)"
    using sim_key_for [OF assms(1), of i] by blast
  show ?thesis
  proof (cases "map_of (mem_jobs mem) i")
    case (Some j)
    then obtain k where k: "key_for d i m = (Inr k, m1)" "stored_job d (view (js_backend m)) k j"
      using m1(3) by auto
    obtain q m2 where "on_docs (docs_get_key d k) m1 = (q, m2)" "sim m2 mem"
      "view (js_backend m2) = view (js_backend m1)" "\<forall>j. doc_at d (view (js_backend m1)) k = Some j \<longrightarrow> q = Inr j"
      by (rule sim_read [OF m1(1), of k]) simp
    then show ?thesis
      using k Some assms(2) m1(2) by (auto simp: job_get_def jobs_mem_get_def stored_job_def)
  next
    case None
    then consider "key_for d i m = (Inl (JobNotFound i), m1)"
      | k where "key_for d i m = (Inr k, m1)" "view (js_backend m) k = None"
      using m1(3) by auto
    then show ?thesis
    proof cases
      case 1
      then show ?thesis using None assms(2) m1 by (auto simp: job_get_def jobs_mem_get_def)
    next
      case 2
      obtain q m2 where "on_docs (docs_get_key d k) m1 = (q, m2)" "sim m2 mem"
        "view (js_backend m2) = view (js_backend m1)"
        "view (js_backend m1) k = None \<longrightarrow> (\<exists>e. q = Inl e \<and> is_not_found e)"
        by (rule sim_read [OF m1(1), of k]) simp
      then show ?thesis
        using 2 None assms(2) m1(2) sim_forget [of m2 mem i] by (auto simp: job_get_def jobs_mem_get_def)
    qed
  qed
qed

lemma sim_get_in_space_from:
  assumes "sim m mem" "sp \<noteq> []"
    "\<And>k. k \<in> set ks \<Longrightarrow> \<exists>j. stored_job d (view (js_backend m)) k j \<and> job_space j = sp"
    "get_in_space_from d sp i ks m = (r, m')"
  shows "sim m' mem \<and> view (js_backend m') = view (js_backend m) \<and>
    (if \<exists>k\<in>set ks. id_from_key k = Some i
     then (case map_of (mem_jobs mem) i of None \<Rightarrow> False | Some j \<Rightarrow> job_space j = sp \<and> r = Inr j)
     else r = Inl (JobNotFound i))"
  using assms
proof (induction ks)
  case (Cons k ks)
  obtain j where j: "stored_job d (view (js_backend m)) k j" "job_space j = sp"
    using Cons.prems(3) by auto
  note i = sim_ids(1) [OF Cons.prems(1) j(1)] and found = sim_stored(1) [OF Cons.prems(1) j(1)]
  show ?case
  proof (cases "id_from_key k = Some i")
    case False
    then show ?thesis using Cons by simp
  next
    case True
    obtain q m2 where m2: "on_docs (docs_get_key d k) m = (q, m2)" "sim m2 mem"
      "view (js_backend m2) = view (js_backend m)" "\<forall>j. doc_at d (view (js_backend m)) k = Some j \<longrightarrow> q = Inr j"
      by (rule sim_read [OF Cons.prems(1), of k]) simp
    have "sim (remember (job_id j) k m2) mem"
      using sim_remember [OF m2(2)] m2(3) j(1) by simp
    then show ?thesis
      using True i found j m2 Cons.prems(4) by (auto simp: stored_job_def)
  qed
qed auto

lemma sim_space_keys:
  assumes "sim m mem" "sp \<noteq> []"
    "set ks = {k \<in> dom (view (js_backend m)). has_segment_prefix k (docs_key d [sp])}"
  shows "k \<in> set ks \<longleftrightarrow> (\<exists>j. stored_job d (view (js_backend m)) k j \<and> job_space j = sp)"
proof -
  have hist: "history_sound d (view (js_backend m))" using assms(1) by (simp add: sim_def)
  have "has_segment_prefix k (docs_key d [sp]) \<longleftrightarrow> job_space j = sp"
    if s: "stored_job d (view (js_backend m)) k j" for j
  proof -
    obtain n where "plain_job j" "k = docs_key d [job_space j, n]"
      using hist s by (auto simp: history_sound_def history_ok_def stored_job_def)
    then show ?thesis using job_below_space [of j sp n] assms(2) by (auto simp: plain_job_def)
  qed
  moreover have "k \<in> dom (view (js_backend m)) \<and> has_segment_prefix k jobs_prefix \<longleftrightarrow>
      (\<exists>j. stored_job d (view (js_backend m)) k j)"
    using stored_or_absent [OF hist, of k] by (auto simp: stored_job_def doc_at_def bind_eq_Some_conv)
  ultimately show ?thesis
    using assms(3) space_key_prefix [OF assms(2)] by blast
qed

lemma sim_get_in_space:
  assumes "sim m mem" "job_get_in_space d sp i m = (r, m')"
  shows "sim m' mem \<and> view (js_backend m') = view (js_backend m) \<and> jobs_mem_get_in_space sp i mem = (r, mem)"
proof -
  have same: "same_records d (view (js_backend m)) mem" using assms(1) by (simp add: sim_def)
  have plain: "i \<noteq> [] \<and> job_space j \<noteq> []" if "map_of (mem_jobs mem) i = Some j" for j
    using same_records_found [OF same that] sim_stored(2) [OF assms(1)] by (auto simp: plain_job_def)
  show ?thesis
  proof (cases "sp = [] \<or> i = []")
    case True
    then show ?thesis
      using assms plain
      by (cases "map_of (mem_jobs mem) i") (auto simp: job_get_in_space_def jobs_mem_get_in_space_def jobs_mem_get_def)
  next
    case False
    obtain ks m1 where m1: "on_docs (docs_keys d [sp]) m = (Inr ks, m1)" "sim m1 mem"
      "view (js_backend m1) = view (js_backend m)"
      "set ks = {k \<in> dom (view (js_backend m)). has_segment_prefix k (docs_key d [sp])}"
      by (rule sim_keys [OF assms(1), of "[sp]"]) simp
    have keys: "k \<in> set (rev ks) \<longleftrightarrow> (\<exists>j. stored_job d (view (js_backend m1)) k j \<and> job_space j = sp)" for k
      using sim_space_keys [OF assms(1) _ m1(4)] False m1(3) by simp
    have run: "get_in_space_from d sp i (rev ks) m1 = (r, m')"
      using assms(2) m1 False by (simp add: job_get_in_space_def)
    have res: "sim m' mem" "view (js_backend m') = view (js_backend m)"
      "if \<exists>k\<in>set (rev ks). id_from_key k = Some i
       then (case map_of (mem_jobs mem) i of None \<Rightarrow> False | Some j \<Rightarrow> job_space j = sp \<and> r = Inr j)
       else r = Inl (JobNotFound i)"
      using sim_get_in_space_from [OF m1(2) _ _ run] keys False m1(3) by auto
    have ex: "(\<exists>k\<in>set (rev ks). id_from_key k = Some i) \<longleftrightarrow>
        (\<exists>j. map_of (mem_jobs mem) i = Some j \<and> job_space j = sp)"
      using keys sim_ids(1) [OF m1(2)] sim_stored(1) [OF m1(2)] same_records_found [OF same, of i] m1(3)
      by (metis option.inject)
    show ?thesis
      using res ex by (auto simp: jobs_mem_get_in_space_def jobs_mem_get_def split: option.splits if_splits)
  qed
qed

lemma sim_list_walk:
  assumes "sim m mem" "\<And>k. k \<in> set ks \<Longrightarrow> \<exists>j. stored_job d (view (js_backend m)) k j"
    "list_walk d kind limit ks out m = (res, m')"
  shows "sim m' mem \<and> view (js_backend m') = view (js_backend m)"
  using assms
proof (induction ks arbitrary: out m)
  case (Cons k ks)
  obtain j where j: "stored_job d (view (js_backend m)) k j" using Cons.prems(2) by auto
  obtain q m2 where m2: "on_docs (docs_get_key d k) m = (q, m2)" "sim m2 mem"
    "view (js_backend m2) = view (js_backend m)" "\<forall>j. doc_at d (view (js_backend m)) k = Some j \<longrightarrow> q = Inr j"
    by (rule sim_read [OF Cons.prems(1), of k]) simp
  let ?m = "remember (job_id j) k m2"
  have "sim ?m mem" using sim_remember [OF m2(2)] m2(3) j by simp
  moreover have "\<exists>j. stored_job d (view (js_backend ?m)) k j" if "k \<in> set ks" for k
    using Cons.prems(2) that m2(3) by simp
  moreover have "q = Inr j" using m2(4) j by (simp add: stored_job_def)
  ultimately show ?case
    using Cons.prems Cons.IH [of m] Cons.IH [of ?m] m2 by (auto simp: Let_def split: if_splits)
qed simp

lemma sorted_records:
  assumes "same_records d v mem" "history_sound d v" "distinct ks" "\<And>k. k \<in> set ks \<Longrightarrow> \<exists>j. stored_job d v k j"
    "\<And>k j. stored_job d v k j \<Longrightarrow> P j \<Longrightarrow> k \<in> set ks"
  shows "sort_newest_first (filter P (List.map_filter (doc_at d v) ks)) =
    sort_newest_first (filter P (map snd (mem_jobs mem)))"
proof (rule sort_newest_first_unique)
  have ok: "jobs_mem_ok mem" using assms(1) by (simp add: same_records_def)
  show "distinct (filter P (map snd (mem_jobs mem)))"
    using mem_distinct [OF ok] by simp
  have "inj_on (the \<circ> doc_at d v) (set (filter (\<lambda>k. doc_at d v k \<noteq> None) ks))"
  proof (rule inj_onI)
    fix a b assume ab: "a \<in> set (filter (\<lambda>k. doc_at d v k \<noteq> None) ks)" "b \<in> set (filter (\<lambda>k. doc_at d v k \<noteq> None) ks)"
      "(the \<circ> doc_at d v) a = (the \<circ> doc_at d v) b"
    then obtain i j where "stored_job d v a i" "stored_job d v b j" using assms(4) [of a] assms(4) [of b] by auto
    then show "a = b" using ab stored_unique [OF assms(2)] by (simp add: stored_job_def)
  qed
  then show "distinct (filter P (List.map_filter (doc_at d v) ks))"
    using assms(3) by (simp add: List.map_filter_def distinct_map)
  have "j \<in> set (List.map_filter (doc_at d v) ks) \<longleftrightarrow> (\<exists>k\<in>set ks. stored_job d v k j)" for j
    using assms(4) by (auto simp: in_set_map_filter stored_job_def)
  moreover have "j \<in> set (map snd (mem_jobs mem)) \<longleftrightarrow> (\<exists>k. stored_job d v k j)" for j
    using same_records_set [OF assms(1)] by (auto simp: all_jobs_def stored_job_def)
  ultimately show "set (filter P (List.map_filter (doc_at d v) ks)) = set (filter P (map snd (mem_jobs mem)))"
    using assms(5) by (auto simp del: set_map)
  then show "inj_on job_id (set (filter P (List.map_filter (doc_at d v) ks)))"
    using mem_ids_inj [OF ok] by (auto intro: inj_on_subset)
qed

lemma sim_list:
  assumes "sim m mem" "sp \<noteq> []" "limit \<le> 0 \<or> times_apart sp kind mem" "list_recent d sp kind limit m = (r, m')"
  shows "sim m' mem \<and> view (js_backend m') = view (js_backend m) \<and> r = Inr (jobs_mem_list sp kind limit mem)"
proof -
  let ?v = "view (js_backend m)"
  have hist: "history_sound d ?v" and same: "same_records d ?v mem" and rel: "reliable (js_backend m)"
    using assms(1) by (simp_all add: sim_def)
  have ok: "history_ok d ?v" using hist by (simp add: history_sound_def)
  obtain ks where ks: "sorted ks" "distinct ks" "set ks = {k \<in> dom ?v. has_segment_prefix k (docs_key d [sp])}"
    "r = Inr (sort_newest_first (up_to limit 0
       (filter (matches_kind kind) (List.map_filter (doc_at d ?v) (rev ks)))))"
    using list_recent_exact [OF rel ok assms(2,4)] by blast
  note keys = sim_space_keys [OF assms(1,2) ks(3)]
  let ?walk = "filter (matches_kind kind) (List.map_filter (doc_at d ?v) (rev ks))"
  have walk: "?walk = filter (asked sp kind) (List.map_filter (doc_at d ?v) (rev ks))"
    using keys by (intro filter_cong) (auto simp: in_set_map_filter matches_kind_def asked_def stored_job_def)
  have whole: "sort_newest_first ?walk = sort_newest_first (filter (asked sp kind) (map snd (mem_jobs mem)))"
    unfolding walk using keys ks(2) by (intro sorted_records [OF same hist]) (auto simp: asked_def)
  have "r = Inr (jobs_mem_list sp kind limit mem)"
  proof (cases "limit \<le> 0")
    case True
    then show ?thesis using ks(4) whole by (simp add: jobs_mem_list_def apply_limit_def asked_def [abs_def])
  next
    case False
    then have apart: "times_apart sp kind mem" using assms(3) by blast
    have newest: "sorted_wrt (\<lambda>a b. created_at b \<le> created_at a) ?walk"
      using walk_newest_first [OF ok assms(2) ks(1,2)] ks(3) by (auto intro: sorted_wrt_filter)
    have "mset ?walk = mset (filter (asked sp kind) (map snd (mem_jobs mem)))"
      using whole unfolding sort_newest_first_def by (metis mset_sort)
    then have "mset (map created_at ?walk) = mset (map created_at (filter (asked sp kind) (map snd (mem_jobs mem))))"
      by (metis mset_map)
    then have d: "distinct (map created_at ?walk)" using apart unfolding times_apart_def by (metis mset_eq_imp_distinct_iff)
    have all: "sort_newest_first (filter (asked sp kind) (map snd (mem_jobs mem))) = ?walk"
      using whole sort_newest_first_id [OF newest d] by simp
    have "sort_newest_first (take (nat limit) ?walk) = take (nat limit) ?walk"
      by (rule sort_newest_first_id) (use newest d in \<open>simp_all add: sorted_wrt_take take_map [symmetric]\<close>)
    then show ?thesis
      using ks(4) False all by (auto simp: jobs_mem_list_def apply_limit_def up_to_def asked_def [abs_def])
  qed
  moreover obtain ks' m1 where m1: "on_docs (docs_keys d [sp]) m = (Inr ks', m1)" "sim m1 mem"
    "view (js_backend m1) = ?v" "set ks' = {k \<in> dom ?v. has_segment_prefix k (docs_key d [sp])}"
    by (rule sim_keys [OF assms(1), of "[sp]"]) simp
  obtain out m2 where m2: "list_walk d kind limit (rev ks') [] m1 = (out, m2)" by fastforce
  have "sim m2 mem \<and> view (js_backend m2) = view (js_backend m1)"
    using m1 sim_space_keys [OF assms(1,2) m1(4)] by (intro sim_list_walk [OF m1(2) _ m2]) auto
  ultimately show ?thesis
    using assms(4) m1 m2 by (simp add: list_recent_def)
qed

lemma sim_running_walk:
  assumes "sim m mem" "\<And>k. k \<in> set ks \<Longrightarrow> \<exists>j. stored_job d (view (js_backend m)) k j"
  shows "\<exists>m'. sim m' mem \<and> view (js_backend m') = view (js_backend m) \<and> running_walk d ks out m =
    (out @ filter (\<lambda>j. \<not> terminal (job_state j)) (List.map_filter (doc_at d (view (js_backend m))) ks), m')"
  using assms
proof (induction ks arbitrary: out m)
  case (Cons k ks)
  let ?v = "view (js_backend m)"
  obtain j where j: "stored_job d ?v k j" using Cons.prems(2) by auto
  then have doc: "doc_at d ?v k = Some j" by (simp add: stored_job_def)
  show ?case
  proof (cases "settled m k")
    case True
    then obtain j' where "stored_job d ?v k j'" "terminal (job_state j')"
      using Cons.prems(1) by (auto simp: settled_def sim_def caches_sound_def)
    then have "terminal (job_state j)" using stored_same_key [OF _ j] by auto
    then show ?thesis using Cons True doc by simp
  next
    case False
    obtain q m2 where m2: "on_docs (docs_get_key d k) m = (q, m2)" "sim m2 mem"
      "view (js_backend m2) = ?v" "\<forall>j. doc_at d ?v k = Some j \<longrightarrow> q = Inr j"
      by (rule sim_read [OF Cons.prems(1), of k]) simp
    have stored: "\<exists>j. stored_job d (view (js_backend m2)) k j" if "k \<in> set ks" for k
      using Cons.prems(2) that m2(3) by simp
    show ?thesis
    proof (cases "terminal (job_state j)")
      case True
      have "sim (mark_settled k m2) mem" using sim_settle [OF m2(2)] j m2(3) True by simp
      then show ?thesis
        using Cons.IH [of "mark_settled k m2" out] stored m2 False True doc by simp
    next
      case not: False
      then show ?thesis
        using Cons.IH [of m2 "out @ [j]"] stored m2 False doc by simp
    qed
  qed
qed auto

lemma sim_running:
  assumes "sim m mem" "list_running d m = (r, m')"
  shows "sim m' mem \<and> view (js_backend m') = view (js_backend m) \<and> r = Inr (jobs_mem_list_running mem)"
proof -
  let ?v = "view (js_backend m)"
  have hist: "history_sound d ?v" and same: "same_records d ?v mem" using assms(1) by (simp_all add: sim_def)
  obtain ks m1 where m1: "on_docs (docs_keys d []) m = (Inr ks, m1)" "sim m1 mem"
    "view (js_backend m1) = ?v" "distinct ks" "set ks = {k \<in> dom ?v. has_segment_prefix k jobs_prefix}"
    by (rule sim_keys [OF assms(1), of "[]"]) simp
  note keys = sim_all_keys [OF assms(1) m1(5)]
  obtain m2 where "sim m2 mem" "view (js_backend m2) = ?v" "running_walk d ks [] m1 =
      (filter (\<lambda>j. \<not> terminal (job_state j)) (List.map_filter (doc_at d ?v) ks), m2)"
    using sim_running_walk [OF m1(2), of ks "[]"] keys m1(3) by auto
  then show ?thesis
    using m1 keys assms(2) sorted_records [OF same hist m1(4), of "\<lambda>j. \<not> terminal (job_state j)"]
    by (auto simp: list_running_def jobs_mem_list_running_def)
qed

end

subsection \<open>Writes\<close>

lemma stored_update:
  "has_segment_prefix k jobs_prefix \<Longrightarrow> d_decode d raw = Some j \<Longrightarrow>
    stored_job d (v(k \<mapsto> raw)) k' x \<longleftrightarrow> k' = k \<and> x = j \<or> k' \<noteq> k \<and> stored_job d v k' x"
  by (auto simp: stored_job_def doc_at_def)

lemma stored_delete: "stored_job d (v(k := None)) k' x \<longleftrightarrow> k' \<noteq> k \<and> stored_job d v k' x"
  by (auto simp: stored_job_def doc_at_def)

lemma history_sound_iff:
  "history_sound d v \<longleftrightarrow>
     (\<forall>k j. stored_job d v k j \<longrightarrow> plain_job j \<and> (\<exists>n. job_name j n \<and> k = docs_key d [job_space j, n])) \<and>
     (\<forall>k. has_segment_prefix k jobs_prefix \<longrightarrow> \<not> corrupt_at d v k) \<and>
     (\<forall>k k' j j'. stored_job d v k j \<longrightarrow> stored_job d v k' j' \<longrightarrow> job_id j = job_id j' \<longrightarrow> k = k')"
  by (auto simp: history_sound_def history_ok_def stored_job_def)

lemma history_write:
  assumes h: "history_sound d v" and k: "has_segment_prefix k jobs_prefix" and raw: "d_decode d raw = Some j"
    and j: "plain_job j" "job_name j n" "k = docs_key d [job_space j, n]"
    and fresh: "\<And>k' x. stored_job d v k' x \<Longrightarrow> job_id x = job_id j \<Longrightarrow> k' = k"
  shows "history_sound d (v(k \<mapsto> raw))"
  using h j fresh
  unfolding history_sound_iff stored_update [OF k raw]
  by (auto simp: corrupt_at_def raw)

lemma history_delete: "history_sound d v \<Longrightarrow> history_sound d (v(k := None))"
  unfolding history_sound_iff stored_delete by (auto simp: corrupt_at_def)

lemma caches_write_same:
  assumes c: "caches_sound d v m" and k: "has_segment_prefix k jobs_prefix" and raw: "d_decode d raw = Some j'"
    and j: "stored_job d v k j" "job_id j' = job_id j" "terminal (job_state j')"
  shows "caches_sound d (v(k \<mapsto> raw)) m"
proof -
  have "\<exists>x. stored_job d (v(k \<mapsto> raw)) k' x \<and> terminal (job_state x)" if "k' \<in> js_terminal m" for k'
    using c j that unfolding caches_sound_def stored_update [OF k raw] by (cases "k' = k") auto
  then show ?thesis
    using c j unfolding caches_sound_def by (auto simp: stored_update [OF k raw])
qed

lemma same_records_write:
  assumes same: "same_records d v mem" and k: "has_segment_prefix k jobs_prefix"
    and raw: "d_decode d raw = Some j'" and h: "history_sound d v"
    and fresh: "\<And>x. stored_job d v k x \<Longrightarrow> job_id x = job_id j'"
    "\<And>k' x. stored_job d v k' x \<Longrightarrow> job_id x = job_id j' \<Longrightarrow> k' = k"
  shows "same_records d (v(k \<mapsto> raw)) (mem\<lparr>mem_jobs := AList.update (job_id j') j' (mem_jobs mem)\<rparr>)"
proof -
  have "jobs_mem_ok (mem\<lparr>mem_jobs := AList.update (job_id j') j' (mem_jobs mem)\<rparr>)"
    using same by (intro jobs_mem_ok_update) (simp_all add: same_records_def)
  moreover have "map_of (AList.update (job_id j') j' (mem_jobs mem)) i = Some x \<longleftrightarrow>
      (\<exists>k0. stored_job d (v(k \<mapsto> raw)) k0 x \<and> job_id x = i)" for i x
  proof (cases "i = job_id j'")
    case True
    then show ?thesis
      unfolding stored_update [OF k raw] map_of_alist_update using fresh(2) by auto
  next
    case False
    have "(\<exists>k0. stored_job d v k0 x \<and> job_id x = i) \<longleftrightarrow>
        (\<exists>k0. stored_job d (v(k \<mapsto> raw)) k0 x \<and> job_id x = i)"
      unfolding stored_update [OF k raw] using False fresh(1) by metis
    then show ?thesis
      using same False by (simp add: same_records_def map_of_alist_update)
  qed
  ultimately show ?thesis by (simp add: same_records_def)
qed

context reliable_job_docs
begin

lemma replace_reads:
  assumes "reliable (js_backend m)" "d_encode d x = Some raw"
  obtains m' where "on_docs (docs_replace_key d k x) m = (Inr (), m')" "reliable (js_backend m')"
    "view (js_backend m') = (view (js_backend m))(k \<mapsto> raw)"
    "js_index m' = js_index m" "js_indexed m' = js_indexed m" "js_terminal m' = js_terminal m"
proof -
  obtain s' where s': "reliable s'" "docs_replace_key d k x (js_backend m) = (Inr (), s')"
    using docs_replace_key_reliable [OF assms] by blast
  then show thesis
    using that [of "m\<lparr>js_backend := s'\<rparr>"] docs_replace_key_ok [OF s'(2)] assms(2) by (auto simp: on_docs_def)
qed

lemma sim_finish:
  assumes "sim m mem" and total: "\<And>x. d_encode d x \<noteq> None" and f: "job_finish d i out now m = (r, m')"
  shows "\<exists>mem'. sim m' mem' \<and> jobs_mem_finish i out now mem = (r, mem')"
proof (cases "terminal (out_state out)")
  case False
  then show ?thesis using assms by (auto simp: job_finish_def jobs_mem_finish_def)
next
  case settles: True
  let ?v = "view (js_backend m)"
  obtain m1 where m1: "sim m1 mem" "view (js_backend m1) = ?v"
    "case map_of (mem_jobs mem) i of
       Some j \<Rightarrow> \<exists>k. key_for d i m = (Inr k, m1) \<and> stored_job d ?v k j
     | None \<Rightarrow> key_for d i m = (Inl (JobNotFound i), m1) \<or>
         (\<exists>k. key_for d i m = (Inr k, m1) \<and> ?v k = None)"
    using sim_key_for [OF assms(1), of i] by blast
  show ?thesis
  proof (cases "map_of (mem_jobs mem) i")
    case None
    then consider "key_for d i m = (Inl (JobNotFound i), m1)"
      | k where "key_for d i m = (Inr k, m1)" "?v k = None"
      using m1(3) by auto
    then show ?thesis
    proof cases
      case 1
      then show ?thesis using None f m1 settles by (auto simp: job_finish_def jobs_mem_finish_def)
    next
      case 2
      obtain q m2 where "on_docs (docs_get_key d k) m1 = (q, m2)" "sim m2 mem"
        "view (js_backend m1) k = None \<longrightarrow> (\<exists>e. q = Inl e \<and> is_not_found e)"
        by (rule sim_read [OF m1(1), of k]) simp
      then show ?thesis
        using 2 None f m1(2) settles sim_forget [of m2 mem i]
        by (auto simp: job_finish_def jobs_mem_finish_def)
    qed
  next
    case (Some j)
    then obtain k where k: "key_for d i m = (Inr k, m1)" "stored_job d ?v k j" using m1(3) by auto
    obtain q m2 where m2: "on_docs (docs_get_key d k) m1 = (q, m2)" "sim m2 mem"
      "view (js_backend m2) = view (js_backend m1)" "\<forall>j. doc_at d (view (js_backend m1)) k = Some j \<longrightarrow> q = Inr j"
      by (rule sim_read [OF m1(1), of k]) simp
    have v2: "view (js_backend m2) = ?v" using m2(3) m1(2) by simp
    let ?j = "apply_outcome j out now"
    obtain raw where raw: "d_encode d ?j = Some raw" using total by blast
    then have dec: "d_decode d raw = Some ?j" by (rule codec)
    have rel: "reliable (js_backend m2)" using m2(2) by (simp add: sim_def)
    obtain m3 where m3: "on_docs (docs_replace_key d k ?j) m2 = (Inr (), m3)" "reliable (js_backend m3)"
      "view (js_backend m3) = ?v(k \<mapsto> raw)"
      "js_index m3 = js_index m2" "js_indexed m3 = js_indexed m2" "js_terminal m3 = js_terminal m2"
      using replace_reads [OF rel raw, of k] v2 by metis
    have parts: "history_sound d ?v" "caches_sound d ?v m2" "same_records d ?v mem"
      using m2(2) v2 by (simp_all add: sim_def)
    have pre: "has_segment_prefix k jobs_prefix" using k(2) by (simp add: stored_job_def)
    have uniq: "k' = k" if "stored_job d ?v k' x" "job_id x = job_id j" for k' x
      using stored_unique [OF parts(1) that(1) k(2) that(2)] .
    have self: "job_id x = job_id j" if "stored_job d ?v k x" for x
      using stored_same_key [OF that k(2)] by simp
    obtain n where n: "plain_job j" "job_name j n" "k = docs_key d [job_space j, n]"
      using parts(1) k(2) by (auto simp: history_sound_iff)
    have "plain_job ?j" "job_name ?j n" using n by (simp_all add: plain_job_def job_name_def)
    then have h: "history_sound d (?v(k \<mapsto> raw))"
      using n uniq by (intro history_write [OF parts(1) pre dec]) auto
    have c: "caches_sound d (?v(k \<mapsto> raw)) m3"
      using caches_write_same [OF parts(2) pre dec k(2)] settles caches_read [OF m3(4-6), of d] by simp
    have "stored_job d (?v(k \<mapsto> raw)) k ?j" by (simp add: stored_update [OF pre dec])
    then have c': "caches_sound d (?v(k \<mapsto> raw)) (mark_settled k m3)"
      using caches_settle [OF c] settles by simp
    have id: "job_id j = i" using same_records_found [OF parts(3) Some] by simp
    have s: "same_records d (?v(k \<mapsto> raw)) (mem\<lparr>mem_jobs := AList.update i ?j (mem_jobs mem)\<rparr>)"
    proof -
      have "same_records d (?v(k \<mapsto> raw))
          (mem\<lparr>mem_jobs := AList.update (job_id ?j) ?j (mem_jobs mem)\<rparr>)"
        by (rule same_records_write [OF parts(3) pre dec parts(1)]) (auto dest: self uniq)
      then show ?thesis by (simp add: id)
    qed
    have "q = Inr j" using m2(4) m1(2) k(2) by (simp add: stored_job_def)
    then have "r = Inr ()" "m' = mark_settled k m3"
      using f k(1) m2(1) m3(1) settles by (simp_all add: job_finish_def)
    then show ?thesis
      using h c' s m3(2,3) Some settles by (simp add: sim_def jobs_mem_finish_def)
  qed
qed

end

text \<open>What a caller hands to \<open>Create\<close>: no id of its own; the id drawn for it is new and plain.\<close>

definition create_ok :: "job \<Rightarrow> time \<Rightarrow> string option \<Rightarrow> jobs_memory \<Rightarrow> bool" where
  "create_ok j now new_id mem \<longleftrightarrow>
     job_id j = [] \<and> (job_kind j = [] \<or> is_kind (job_kind j)) \<and> 0 \<le> now \<and> now \<le> max_int64 \<and>
     (case new_id of None \<Rightarrow> True
      | Some i \<Rightarrow> i \<noteq> [] \<and> CHR ''-'' \<notin> set i \<and> list_all is_safe_byte i \<and> map_of (mem_jobs mem) i = None)"

text \<open>Filing a record under a new key.\<close>

lemma caches_create:
  assumes c: "caches_sound d v m" and k: "has_segment_prefix k jobs_prefix" and raw: "d_decode d raw = Some j"
    and i: "id_from_key k = Some (job_id j)" and absent: "v k = None"
    and fresh: "\<And>k' x. stored_job d v k' x \<Longrightarrow> job_id x \<noteq> job_id j"
  shows "caches_sound d (v(k \<mapsto> raw)) (remember (job_id j) k m)"
proof -
  have no: "\<not> stored_job d v k x" for x using absent by (simp add: stored_job_def doc_at_def)
  have index: "has_segment_prefix k0 jobs_prefix \<and> id_from_key k0 = Some i \<and>
      (\<forall>k' x. stored_job d (v(k \<mapsto> raw)) k' x \<longrightarrow> (job_id x = i \<longleftrightarrow> k' = k0))"
    if "js_index (remember (job_id j) k m) i = Some k0" for i k0
  proof (cases "i = job_id j")
    case True
    then have "k0 = k" using that by simp
    show ?thesis
      unfolding \<open>k0 = k\<close> True stored_update [OF k raw] using k assms(4) fresh by auto
  next
    case False
    then have "js_index m i = Some k0" using that by simp
    then have "has_segment_prefix k0 jobs_prefix \<and> id_from_key k0 = Some i \<and>
        (\<forall>k' x. stored_job d v k' x \<longrightarrow> (job_id x = i \<longleftrightarrow> k' = k0))"
      using c by (simp add: caches_sound_def)
    moreover from this have "k0 \<noteq> k" using False assms(4) by auto
    ultimately show ?thesis using False by (auto simp: stored_update [OF k raw])
  qed
  have old: "\<exists>x. stored_job d (v(k \<mapsto> raw)) k' x \<and> terminal (job_state x)" if "k' \<in> js_terminal m" for k'
  proof -
    obtain x where x: "stored_job d v k' x" "terminal (job_state x)"
      using c \<open>k' \<in> js_terminal m\<close> by (auto simp: caches_sound_def)
    then have "k' \<noteq> k" using no by auto
    then show ?thesis using x stored_update [OF k raw, of v k' x] by blast
  qed
  have all: "js_index (remember (job_id j) k m) (job_id x) = Some k'"
    if "js_indexed m" "stored_job d (v(k \<mapsto> raw)) k' x" for k' x
  proof (cases "k' = k")
    case True
    then show ?thesis using that(2) by (simp add: stored_update [OF k raw])
  next
    case False
    then have s: "stored_job d v k' x" using that(2) by (simp add: stored_update [OF k raw])
    then show ?thesis using c that(1) fresh [OF s] by (simp add: caches_sound_def)
  qed
  show ?thesis
    unfolding caches_sound_def
  proof (intro conjI)
    show "\<forall>i k'. js_index (remember (job_id j) k m) i = Some k' \<longrightarrow> has_segment_prefix k' jobs_prefix \<and>
        id_from_key k' = Some i \<and>
        (\<forall>k'' x. stored_job d (v(k \<mapsto> raw)) k'' x \<longrightarrow> (job_id x = i \<longleftrightarrow> k'' = k'))"
      using index by blast
    show "js_indexed (remember (job_id j) k m) \<longrightarrow> (\<forall>k' x. stored_job d (v(k \<mapsto> raw)) k' x \<longrightarrow>
        js_index (remember (job_id j) k m) (job_id x) = Some k')"
      using all by (simp del: index_updates(1))
    show "\<forall>k'\<in>js_terminal (remember (job_id j) k m). \<exists>x. stored_job d (v(k \<mapsto> raw)) k' x \<and> terminal (job_state x)"
      using old by simp
  qed
qed

context reliable_job_docs
begin

lemma sim_create:
  assumes "sim m mem" and total: "\<And>x. d_encode d x \<noteq> None" and ok: "create_ok j now new_id mem"
    and c: "job_create d j now new_id m = (r, m')"
  shows "\<exists>mem'. sim m' mem' \<and> jobs_mem_create j now new_id mem = (r, mem')"
proof (cases "prepare j now new_id")
  case (Inl e)
  then have "r = Inl e" "m' = m" using c by (simp_all add: job_create_def)
  then show ?thesis using assms(1) Inl by (simp add: jobs_mem_create_def)
next
  case (Inr x)
  let ?v = "view (js_backend m)" and ?n = "document_name (created_at x) (job_kind x) (job_id x)"
  let ?k = "docs_key d [job_space x, ?n]"
  have parts: "history_sound d ?v" "caches_sound d ?v m" "same_records d ?v mem" "reliable (js_backend m)"
    using assms(1) by (simp_all add: sim_def)
  note p = prepare_Inr [OF Inr]
  have plain: "plain_job x" and new: "map_of (mem_jobs mem) (job_id x) = None"
    using p ok by (auto simp: plain_job_def create_ok_def split: option.splits)
  have name: "job_name x ?n" by (simp add: job_name_def)
  note says = job_key_says [OF plain name, of d "job_space x"]
  have fresh: "job_id y \<noteq> job_id x" if "stored_job d ?v k' y" for k' y
    using sim_stored(1) [OF assms(1) that] new by auto
  have absent: "?v ?k = None"
  proof (rule ccontr)
    assume "?v ?k \<noteq> None"
    then obtain y where y: "stored_job d ?v ?k y"
      using stored_or_absent [OF parts(1) job_key_prefix [of "[job_space x, ?n]"]] by auto
    then show False using sim_ids(1) [OF assms(1) y] says(1) fresh [OF y] by simp
  qed
  obtain raw where raw: "d_encode d x = Some raw" using total by blast
  then have dec: "d_decode d raw = Some x" by (rule codec)
  obtain s' where s': "reliable s'" "docs_create_key d ?k x (js_backend m) = (Inr (), s')"
    using docs_create_key_reliable [OF parts(4) raw, of ?k] absent by auto
  have v': "view s' = ?v(?k \<mapsto> raw)" using docs_create_key_ok [OF s'(2)] raw by auto
  have h: "history_sound d (?v(?k \<mapsto> raw))"
    by (rule history_write [OF parts(1) job_key_prefix dec plain name]) (auto dest: fresh)
  have cs: "caches_sound d (?v(?k \<mapsto> raw)) (remember (job_id x) ?k m)"
    by (rule caches_create [OF parts(2) job_key_prefix dec says(1) absent]) (auto dest: fresh)
  have same: "same_records d (?v(?k \<mapsto> raw)) (mem\<lparr>mem_jobs := AList.update (job_id x) x (mem_jobs mem)\<rparr>)"
  proof (rule same_records_write [OF parts(3) job_key_prefix dec parts(1)])
    show "job_id y = job_id x" if "stored_job d ?v ?k y" for y
      using that absent by (simp add: stored_job_def doc_at_def)
    show "k' = ?k" if "stored_job d ?v k' y" "job_id y = job_id x" for k' y
      using fresh [OF that(1)] that(2) by simp
  qed
  have m': "r = Inr x" "m' = remember (job_id x) ?k (m\<lparr>js_backend := s'\<rparr>)"
    using c s' Inr by (simp_all add: job_create_def on_docs_def Let_def)
  have "caches_sound d (?v(?k \<mapsto> raw)) m'"
    using cs caches_read [of m' "remember (job_id x) ?k m" d] m' by (simp add: remember_def)
  then show ?thesis
    using m' h same s'(1) v' Inr new by (simp add: sim_def jobs_mem_create_def)
qed

end

lemma map_filter_eq: "(\<And>x. x \<in> set xs \<Longrightarrow> f x = g x) \<Longrightarrow> List.map_filter f xs = List.map_filter g xs"
  by (induction xs) (auto split: option.splits)

lemma map_of_filter_values:
  assumes "distinct (map fst xs)"
  shows "map_of (filter (\<lambda>(i, j). P j) xs) i = Some j \<longleftrightarrow> map_of xs i = Some j \<and> P j"
proof -
  have "distinct (map fst (filter (\<lambda>(i, j). P j) xs))"
    using assms by (rule distinct_map_filter)
  then show ?thesis using assms by (simp add: map_of_eq_Some_iff)
qed

lemma caches_delete:
  assumes h: "history_sound d v" and c: "caches_sound d v m" and j: "stored_job d v k j"
  shows "caches_sound d (v(k := None)) (forget (job_id j) [k] m)"
proof -
  have other: "job_id x \<noteq> job_id j" if "stored_job d v k' x" "k' \<noteq> k" for k' x
    using stored_unique [OF h that(1) j] that(2) by blast
  show ?thesis
    unfolding caches_sound_def
  proof (intro conjI)
    show "\<forall>i k'. js_index (forget (job_id j) [k] m) i = Some k' \<longrightarrow> has_segment_prefix k' jobs_prefix \<and>
        id_from_key k' = Some i \<and>
        (\<forall>k'' x. stored_job d (v(k := None)) k'' x \<longrightarrow> (job_id x = i \<longleftrightarrow> k'' = k'))"
      using c by (auto simp: caches_sound_def stored_delete)
    show "js_indexed (forget (job_id j) [k] m) \<longrightarrow> (\<forall>k' x. stored_job d (v(k := None)) k' x \<longrightarrow>
        js_index (forget (job_id j) [k] m) (job_id x) = Some k')"
      using c other by (auto simp: caches_sound_def stored_delete)
    show "\<forall>k'\<in>js_terminal (forget (job_id j) [k] m). \<exists>x. stored_job d (v(k := None)) k' x \<and> terminal (job_state x)"
      using c by (auto simp: caches_sound_def stored_delete)
  qed
qed

definition pruned_view :: "('s, 'v, job) documents \<Rightarrow> time \<Rightarrow> string set \<Rightarrow> (string \<rightharpoonup> 'v) \<Rightarrow> string \<rightharpoonup> 'v" where
  "pruned_view d cutoff K v =
     (\<lambda>k. if k \<in> K \<and> (\<exists>j. doc_at d v k = Some j \<and> prunable j cutoff) then None else v k)"

lemma stored_pruned:
  "stored_job d (pruned_view d cutoff K v) k j \<longleftrightarrow> stored_job d v k j \<and> \<not> (k \<in> K \<and> prunable j cutoff)"
  by (auto simp: stored_job_def doc_at_def pruned_view_def)

lemma pruned_view_skip:
  "(\<And>j. doc_at d v k = Some j \<Longrightarrow> \<not> prunable j cutoff) \<Longrightarrow>
    pruned_view d cutoff (insert k K) v = pruned_view d cutoff K v"
  by (auto simp: pruned_view_def fun_eq_iff)

lemma pruned_view_drop:
  "doc_at d v k = Some j \<Longrightarrow> prunable j cutoff \<Longrightarrow>
    pruned_view d cutoff K (v(k := None)) = pruned_view d cutoff (insert k K) v"
  by (auto simp: pruned_view_def fun_eq_iff doc_at_def)

context reliable_job_docs
begin

lemma prune_keys_exact:
  assumes "reliable (js_backend m)" "history_sound d (view (js_backend m))"
    "caches_sound d (view (js_backend m)) m" "distinct ks"
    "\<And>k. k \<in> set ks \<Longrightarrow> \<exists>j. stored_job d (view (js_backend m)) k j"
  shows "\<exists>m'. prune_keys d cutoff ks n m =
      (Inr (n + length (filter (\<lambda>j. prunable j cutoff) (List.map_filter (doc_at d (view (js_backend m))) ks))), m') \<and>
    reliable (js_backend m') \<and> view (js_backend m') = pruned_view d cutoff (set ks) (view (js_backend m)) \<and>
    history_sound d (view (js_backend m')) \<and> caches_sound d (view (js_backend m')) m'"
  using assms
proof (induction ks arbitrary: n m)
  case Nil
  then show ?case by (simp add: pruned_view_def)
next
  case (Cons k ks)
  let ?v = "view (js_backend m)"
  obtain j where j: "stored_job d ?v k j" using Cons.prems(5) by auto
  then have doc: "doc_at d ?v k = Some j" by (simp add: stored_job_def)
  have created: "created_from_key k = Some (created_at j)"
    using history_key(2) [of ?v k j] Cons.prems(2) j by (simp add: stored_job_def history_sound_def)
  obtain q m1 where m1: "reliable (js_backend m1)" "view (js_backend m1) = ?v"
    "js_index m1 = js_index m" "js_indexed m1 = js_indexed m" "js_terminal m1 = js_terminal m"
    "on_docs (docs_get_key d k) m = (q, m1)"
    "(case doc_at d ?v k of Some j \<Rightarrow> q = Inr j | None \<Rightarrow> \<exists>e. q = Inl e)"
    by (rule read_cases [OF Cons.prems(1), of k]) simp
  have c1: "caches_sound d ?v m1" using Cons.prems(3) caches_read [OF m1(3-5), of d] by simp
  show ?case
  proof (cases "prunable j cutoff")
    case False
    have step: "prune_keys d cutoff (k # ks) n m = prune_keys d cutoff ks n m \<or>
        prune_keys d cutoff (k # ks) n m = prune_keys d cutoff ks n m1"
      using created doc m1(6,7) False by auto
    have len: "List.map_filter (doc_at d ?v) (k # ks) = j # List.map_filter (doc_at d ?v) ks"
      using doc by simp
    have skip: "pruned_view d cutoff (set (k # ks)) ?v = pruned_view d cutoff (set ks) ?v"
      using pruned_view_skip [of d ?v k cutoff "set ks"] doc False by simp
    show ?thesis
      using step
    proof
      assume "prune_keys d cutoff (k # ks) n m = prune_keys d cutoff ks n m"
      then show ?thesis
        using Cons.IH [of m n] Cons.prems len skip False by simp
    next
      assume "prune_keys d cutoff (k # ks) n m = prune_keys d cutoff ks n m1"
      then show ?thesis
        using Cons.IH [of m1 n] Cons.prems m1 c1 len skip False by simp
    qed
  next
    case True
    have some: "?v k \<noteq> None" using doc by (cases "?v k") (simp_all add: doc_at_def)
    obtain s' where s': "reliable s'" "store_delete st k (js_backend m1) = (Inr (), s')"
      using delete_reliable [OF m1(1), of k] some m1(2) by auto
    have v': "view s' = ?v(k := None)" using delete_ok [OF s'(2)] m1(2) by simp
    let ?m = "forget (job_id j) [k] (m1\<lparr>js_backend := s'\<rparr>)"
    have "on_docs (docs_delete_key d k) m1 = (Inr (), m1\<lparr>js_backend := s'\<rparr>)"
      using s'(2) by (simp add: on_docs_def docs_delete_key_def store_of)
    then have step: "prune_keys d cutoff (k # ks) n m = prune_keys d cutoff ks (n + 1) ?m"
      using created doc m1(6,7) True by (simp add: prunable_def)
    have c: "caches_sound d (?v(k := None)) ?m"
      using caches_delete [OF Cons.prems(2) c1 j] caches_read [of ?m "forget (job_id j) [k] m1" d]
      by (simp add: forget_def)
    have stored: "\<exists>j. stored_job d (?v(k := None)) k' j" if "k' \<in> set ks" for k'
      using Cons.prems(4,5) that by (auto simp: stored_delete)
    have same: "List.map_filter (doc_at d (?v(k := None))) ks = List.map_filter (doc_at d ?v) ks"
      using Cons.prems(4) by (intro map_filter_eq) (auto simp: doc_at_def)
    have vm: "view (js_backend ?m) = ?v(k := None)" using v' by simp
    have "\<exists>m'. prune_keys d cutoff ks (n + 1) ?m = (Inr (n + 1 + length (filter (\<lambda>j. prunable j cutoff)
          (List.map_filter (doc_at d (view (js_backend ?m))) ks))), m') \<and>
        reliable (js_backend m') \<and> view (js_backend m') = pruned_view d cutoff (set ks) (view (js_backend ?m)) \<and>
        history_sound d (view (js_backend m')) \<and> caches_sound d (view (js_backend m')) m'"
    proof (rule Cons.IH)
      show "reliable (js_backend ?m)" using s'(1) by simp
      show "history_sound d (view (js_backend ?m))" unfolding vm by (rule history_delete [OF Cons.prems(2)])
      show "caches_sound d (view (js_backend ?m)) ?m" unfolding vm by (rule c)
      show "distinct ks" using Cons.prems(4) by simp
      show "\<exists>j. stored_job d (view (js_backend ?m)) k' j" if "k' \<in> set ks" for k'
        unfolding vm by (rule stored [OF that])
    qed
    then show ?thesis
      unfolding step vm same pruned_view_drop [OF doc True] using doc True by simp
  qed
qed

lemma sim_prune:
  assumes "sim m mem" "job_prune_before d cutoff m = (r, m')"
  shows "\<exists>n mem'. r = Inr n \<and> sim m' mem' \<and> jobs_mem_prune_before cutoff mem = (n, mem') \<and>
    view (js_backend m') = pruned_view d cutoff {k. has_segment_prefix k jobs_prefix} (view (js_backend m))"
proof -
  let ?v = "view (js_backend m)"
  have hist: "history_sound d ?v" and same: "same_records d ?v mem" using assms(1) by (simp_all add: sim_def)
  obtain ks m1 where m1: "on_docs (docs_keys d []) m = (Inr ks, m1)" "sim m1 mem"
    "view (js_backend m1) = ?v" "distinct ks" "set ks = {k \<in> dom ?v. has_segment_prefix k jobs_prefix}"
    by (rule sim_keys [OF assms(1), of "[]"]) simp
  note keys = sim_all_keys [OF assms(1) m1(5)]
  let ?n = "length (filter (\<lambda>j. prunable j cutoff) (List.map_filter (doc_at d ?v) ks))"
  obtain m2 where m2: "prune_keys d cutoff ks 0 m1 = (Inr ?n, m2)" "reliable (js_backend m2)"
    "view (js_backend m2) = pruned_view d cutoff (set ks) ?v"
    "history_sound d (view (js_backend m2))" "caches_sound d (view (js_backend m2)) m2"
    using prune_keys_exact [of m1 ks cutoff 0] m1 keys by (auto simp: sim_def)
  have "sort_newest_first (filter (\<lambda>j. prunable j cutoff) (List.map_filter (doc_at d ?v) ks)) =
      sort_newest_first (filter (\<lambda>j. prunable j cutoff) (map snd (mem_jobs mem)))"
    using keys by (intro sorted_records [OF same hist m1(4)]) auto
  then have "length (sort_newest_first (filter (\<lambda>j. prunable j cutoff) (List.map_filter (doc_at d ?v) ks))) =
      length (sort_newest_first (filter (\<lambda>j. prunable j cutoff) (map snd (mem_jobs mem))))"
    by (rule arg_cong)
  then have n: "?n = length (filter (\<lambda>(i, j). prunable j cutoff) (mem_jobs mem))"
    by (simp add: filter_map comp_def case_prod_unfold)
  let ?mem = "mem\<lparr>mem_jobs := filter (\<lambda>(i, j). \<not> prunable j cutoff) (mem_jobs mem)\<rparr>"
  have ok: "jobs_mem_ok ?mem"
    using jobs_mem_prune_ok [of mem cutoff] same by (simp add: jobs_mem_prune_before_def same_records_def)
  have view: "pruned_view d cutoff (set ks) ?v = pruned_view d cutoff {k. has_segment_prefix k jobs_prefix} ?v"
    using m1(5) by (auto simp: pruned_view_def fun_eq_iff doc_at_def bind_eq_Some_conv)
  have "map_of (mem_jobs ?mem) i = Some j \<longleftrightarrow> map_of (mem_jobs mem) i = Some j \<and> \<not> prunable j cutoff" for i j
    using same map_of_filter_values [of "mem_jobs mem" "\<lambda>j. \<not> prunable j cutoff" i j]
    by (simp add: same_records_def jobs_mem_ok_def)
  then have "same_records d (view (js_backend m2)) ?mem"
    using same ok keys m2(3) by (auto simp: same_records_def stored_pruned)
  then show ?thesis
    using assms(2) m1(1) m2 n view
    by (auto simp: job_prune_before_def jobs_mem_prune_before_def sim_def)
qed

end

subsection \<open>Sequences of calls\<close>

datatype jobs_call =
    CallCreate job time "string option"
  | CallGet string
  | CallGetInSpace string string
  | CallListRecent string int
  | CallListOfKind string job_kind int
  | CallRunning
  | CallFinish string outcome time
  | CallPrune time

datatype jobs_answer =
    AnsJob job
  | AnsJobs "job list"
  | AnsDone
  | AnsCount nat
  | AnsError jobs_error

definition answer :: "('a \<Rightarrow> jobs_answer) \<Rightarrow> (jobs_error + 'a) \<times> 's \<Rightarrow> jobs_answer \<times> 's" where
  "answer f p = (case p of (Inl e, s) \<Rightarrow> (AnsError e, s) | (Inr a, s) \<Rightarrow> (f a, s))"

fun durable_call :: "('s, 'v, job) documents \<Rightarrow> jobs_call \<Rightarrow> 's job_store \<Rightarrow> jobs_answer \<times> 's job_store" where
  "durable_call d (CallCreate j now i) m = answer AnsJob (job_create d j now i m)"
| "durable_call d (CallGet i) m = answer AnsJob (job_get d i m)"
| "durable_call d (CallGetInSpace sp i) m = answer AnsJob (job_get_in_space d sp i m)"
| "durable_call d (CallListRecent sp limit) m = answer AnsJobs (list_recent d sp [] limit m)"
| "durable_call d (CallListOfKind sp k limit) m = answer AnsJobs (list_recent_of_kind d sp k limit m)"
| "durable_call d CallRunning m = answer AnsJobs (list_running d m)"
| "durable_call d (CallFinish i out now) m = answer (\<lambda>_. AnsDone) (job_finish d i out now m)"
| "durable_call d (CallPrune cutoff) m =
     (case job_prune_before d cutoff m of
        (Inl (n, e), m) \<Rightarrow> (AnsError e, m)
      | (Inr n, m) \<Rightarrow> (AnsCount n, m))"

fun memory_call :: "jobs_call \<Rightarrow> jobs_memory \<Rightarrow> jobs_answer \<times> jobs_memory" where
  "memory_call (CallCreate j now i) m = answer AnsJob (jobs_mem_create j now i m)"
| "memory_call (CallGet i) m = answer AnsJob (jobs_mem_get i m)"
| "memory_call (CallGetInSpace sp i) m = answer AnsJob (jobs_mem_get_in_space sp i m)"
| "memory_call (CallListRecent sp limit) m = (AnsJobs (jobs_mem_list sp [] limit m), m)"
| "memory_call (CallListOfKind sp k limit) m = (AnsJobs (jobs_mem_list sp k limit m), m)"
| "memory_call CallRunning m = (AnsJobs (jobs_mem_list_running m), m)"
| "memory_call (CallFinish i out now) m = answer (\<lambda>_. AnsDone) (jobs_mem_finish i out now m)"
| "memory_call (CallPrune cutoff) m =
     (case jobs_mem_prune_before cutoff m of (n, m) \<Rightarrow> (AnsCount n, m))"

fun run_calls :: "(jobs_call \<Rightarrow> 'm \<Rightarrow> jobs_answer \<times> 'm) \<Rightarrow> jobs_call list \<Rightarrow> 'm \<Rightarrow> jobs_answer list" where
  "run_calls step [] m = []"
| "run_calls step (c # cs) m = (case step c m of (a, m) \<Rightarrow> a # run_calls step cs m)"

text \<open>
  What the calls are taken to be: a new record comes without an id and the id drawn for it is new and plain; a listing
  names a Space, one of a kind names the kind, and one with a limit is of records no two of which were created at the same
  instant (of records with one time the two stores keep different ones, \<open>limited_listing_ties\<close>).
\<close>

fun call_ok :: "jobs_call \<Rightarrow> jobs_memory \<Rightarrow> bool" where
  "call_ok (CallCreate j now i) mem = create_ok j now i mem"
| "call_ok (CallListRecent sp limit) mem = (sp \<noteq> [] \<and> (limit \<le> 0 \<or> times_apart sp [] mem))"
| "call_ok (CallListOfKind sp k limit) mem = (sp \<noteq> [] \<and> k \<noteq> [] \<and> (limit \<le> 0 \<or> times_apart sp k mem))"
| "call_ok _ mem = True"

fun calls_ok :: "jobs_call list \<Rightarrow> jobs_memory \<Rightarrow> bool" where
  "calls_ok [] mem = True"
| "calls_ok (c # cs) mem = (call_ok c mem \<and> calls_ok cs (snd (memory_call c mem)))"

context reliable_job_docs
begin

lemma sim_call:
  assumes "sim m mem" "\<And>x. d_encode d x \<noteq> None" "call_ok c mem"
  shows "fst (durable_call d c m) = fst (memory_call c mem) \<and>
    sim (snd (durable_call d c m)) (snd (memory_call c mem))"
proof (cases c)
  case (CallCreate j now i)
  obtain r m' where r: "job_create d j now i m = (r, m')" by fastforce
  obtain mem' where "sim m' mem'" "jobs_mem_create j now i mem = (r, mem')"
    using sim_create [OF assms(1,2) _ r] assms(3) CallCreate by auto
  then show ?thesis using CallCreate r by (cases r) (simp_all add: answer_def)
next
  case (CallGet i)
  obtain r m' where r: "job_get d i m = (r, m')" by fastforce
  then show ?thesis using CallGet sim_get [OF assms(1) r] by (cases r) (simp_all add: answer_def)
next
  case (CallGetInSpace sp i)
  obtain r m' where r: "job_get_in_space d sp i m = (r, m')" by fastforce
  then show ?thesis
    using CallGetInSpace sim_get_in_space [OF assms(1) r] by (cases r) (simp_all add: answer_def)
next
  case (CallListRecent sp limit)
  obtain r m' where r: "list_recent d sp [] limit m = (r, m')" by fastforce
  then show ?thesis using CallListRecent sim_list [OF assms(1) _ _ r] assms(3) by (simp add: answer_def)
next
  case (CallListOfKind sp k limit)
  obtain r m' where r: "list_recent d sp k limit m = (r, m')" by fastforce
  then show ?thesis
    using CallListOfKind sim_list [OF assms(1) _ _ r] assms(3) by (simp add: answer_def list_recent_of_kind_def)
next
  case CallRunning
  obtain r m' where r: "list_running d m = (r, m')" by fastforce
  then show ?thesis using CallRunning sim_running [OF assms(1) r] by (simp add: answer_def)
next
  case (CallFinish i out now)
  obtain r m' where r: "job_finish d i out now m = (r, m')" by fastforce
  obtain mem' where "sim m' mem'" "jobs_mem_finish i out now mem = (r, mem')"
    using sim_finish [OF assms(1,2) r] by auto
  then show ?thesis using CallFinish r by (cases r) (simp_all add: answer_def)
next
  case (CallPrune cutoff)
  obtain r m' where r: "job_prune_before d cutoff m = (r, m')" by fastforce
  then show ?thesis using CallPrune sim_prune [OF assms(1) r] by auto
qed

lemma sim_run:
  assumes "sim m mem" "\<And>x. d_encode d x \<noteq> None" "calls_ok cs mem"
  shows "run_calls (durable_call d) cs m = run_calls memory_call cs mem"
  using assms
proof (induction cs arbitrary: m mem)
  case (Cons c cs)
  have "call_ok c mem" using Cons.prems(3) by simp
  note step = sim_call [OF Cons.prems(1,2) this]
  have "run_calls (durable_call d) cs (snd (durable_call d c m)) =
      run_calls memory_call cs (snd (memory_call c mem))"
    using Cons.IH [OF conjunct2 [OF step] Cons.prems(2)] Cons.prems(3) by simp
  then show ?case using step by (simp add: case_prod_unfold)
qed simp

lemma sim_new:
  assumes "reliable s" "view s = Map.empty"
  shows "sim (new_job_store s) new_jobs_memory"
  using assms
  by (simp add: sim_def new_job_store_def new_jobs_memory_def history_sound_iff caches_sound_def
      same_records_def jobs_mem_ok_def stored_job_def doc_at_def corrupt_at_def)

end

subsection \<open>The service's job store\<close>

lemma new_job_docs_simps [simp]:
  "d_store (new_job_docs st enc dec) = st" "d_prefix (new_job_docs st enc dec) = jobs_prefix"
  "d_encode (new_job_docs st enc dec) = enc" "d_decode (new_job_docs st enc dec) = dec"
  by (simp_all add: new_job_docs_def new_documents_def)

lemma service_jobs:
  "reversible enc dec \<Longrightarrow>
    reliable_job_docs backend_store backend_view backend_reliable (new_job_docs backend_store enc dec)"
  using collection_new [OF backend.kv_store_axioms, of enc dec jobs_prefix]
  by (simp add: reliable_job_docs_def reliable_collection_def job_docs_def job_docs_axioms_def
      backend.reliable_store_axioms new_job_docs_def new_documents_def)

interpretation raw_jobs: reliable_job_docs backend_store backend_view backend_reliable
    "new_job_docs backend_store Some Some"
  by (rule service_jobs [OF reversible_Some])

text \<open>The key a record is filed under says when it was created, of which kind it is and which
  id it has, and reading them back from the key gives exactly that.\<close>

lemma job_key_roundtrip:
  assumes "plain_job j"
  shows "let key = docs_key (new_job_docs backend_store enc dec)
      [job_space j, document_name (created_at j) (job_kind j) (job_id j)]
    in created_from_key key = Some (created_at j) \<and> kind_from_key key = Some (job_kind j) \<and>
       id_from_key key = Some (job_id j)"
proof -
  have name: "job_name j (document_name (created_at j) (job_kind j) (job_id j))"
    by (simp add: job_name_def)
  have k: "is_kind (job_kind j)" "job_id j \<noteq> []" "0 \<le> created_at j" "created_at j \<le> max_int64"
    using assms by (auto simp: plain_job_def)
  have "kind_from_key (docs_key (new_job_docs backend_store enc dec)
      [job_space j, document_name (created_at j) (job_kind j) (job_id j)]) = Some (job_kind j)"
    unfolding kind_from_key_def document_segment_docs_key [OF job_name_plain [OF assms name]]
    using k kind_safe [OF k(1)] dash_notin_version_name [OF k(3)]
    by (simp add: document_name_def format_stamp [OF k(3,4)] go_cut_append)
  then show ?thesis
    by (simp add: Let_def job_key_says(1,2) [OF assms name])
qed

definition sample_job :: job where
  "sample_job = \<lparr>job_id = ''a1'', job_space = ''s'', job_kind = kind_backup, job_state = state_running,
     job_trigger = trigger_manual, created_at = 7, updated_at = 7, finished_at = zero_time, file_count = 0,
     total_bytes = 0, job_error = [], snapshot_id = [], snapshots_deleted = 0, snapshots_kept = 0,
     restore_folder = []\<rparr>"

lemma sample_job_plain: "plain_job sample_job"
  by (simp add: plain_job_def sample_job_def is_kind_def is_safe_byte_def less_eq_char_def max_int64_def)

text \<open>C10: the durable job store refines the in-memory reference store. Over a store that answers,
  any sequence of creates, lookups by id or within a Space, listings of a Space's runs of every kind or of one, with a
  limit or without, listings of the running runs, finishes and prunes gets the answers the reference store gives,
  whatever the caches of the durable store hold meanwhile; provided that creates bring no id of their own and draw new
  ones, that listings name their Space and kind, and that no two runs a limited listing chooses from were created
  at the same instant.\<close>

theorem durable_jobs_refine_memory:
  assumes "reversible enc dec" "\<forall>x. enc x \<noteq> None" "calls_ok cs new_jobs_memory"
  shows "run_calls (durable_call (new_job_docs backend_store enc dec)) cs
      (new_job_store \<lparr>contents = [], faults = []\<rparr>) = run_calls memory_call cs new_jobs_memory"
  by (rule reliable_job_docs.sim_run [OF service_jobs [OF assms(1)] reliable_job_docs.sim_new
      [OF service_jobs [OF assms(1)]] _ assms(3)])
    (use assms(2) in \<open>simp_all add: backend_reliable_def backend_view_def\<close>)

definition sample_calls :: "jobs_call list" where
  "sample_calls =
     [CallCreate (sample_job\<lparr>job_id := [], job_state := []\<rparr>) 9 (Some ''b2''),
      CallCreate (sample_job\<lparr>job_id := [], job_state := []\<rparr>) 10 (Some ''b1''), CallListRecent ''s'' 1,
      CallListOfKind ''s'' kind_backup 0, CallRunning, CallGet ''b2'']"

theorem durable_jobs_refine_memory_witness:
  "run_calls (durable_call (new_job_docs backend_store Some Some)) sample_calls
     (new_job_store \<lparr>contents = [], faults = []\<rparr>) = run_calls memory_call sample_calls new_jobs_memory"
proof -
  have "calls_ok sample_calls new_jobs_memory" by code_simp
  then show ?thesis by (intro durable_jobs_refine_memory [OF reversible_Some]) simp_all
qed

text \<open>A listing of a Space's runs, limited or not, holds only runs of that Space and kind, is
  ordered newest first, and leaves a run out only when the limit is reached by runs at least as
  recent.\<close>

lemma job_listing_is_newest:
  assumes "reversible enc dec" "backend_reliable (js_backend m)"
    and "history_ok (new_job_docs backend_store enc dec) (backend_view (js_backend m))" "sp \<noteq> []"
    and "list_recent (new_job_docs backend_store enc dec) sp kind limit m = (r, m')"
  shows "\<exists>out. r = Inr out \<and> sorted_wrt (\<lambda>a b. created_at b \<le> created_at a) out \<and>
    set out \<subseteq> space_jobs (new_job_docs backend_store enc dec) (backend_view (js_backend m)) sp kind \<and>
    (limit \<le> 0 \<longrightarrow>
       set out = space_jobs (new_job_docs backend_store enc dec) (backend_view (js_backend m)) sp kind) \<and>
    (limit > 0 \<longrightarrow> int (length out) \<le> limit) \<and>
    (\<forall>j\<in>space_jobs (new_job_docs backend_store enc dec) (backend_view (js_backend m)) sp kind - set out.
       int (length out) = limit \<and> (\<forall>j'\<in>set out. created_at j \<le> created_at j'))"
  by (rule reliable_job_docs.list_recent_newest [OF service_jobs [OF assms(1)] assms(2-5)])

text \<open>C31: pruning the run history, whichever store operation fails, removes nothing but records of
  finished runs created before the cutoff, and changes no other.\<close>

theorem job_prune_only_old_finished:
  assumes "reversible enc dec"
    and "job_prune_before (new_job_docs backend_store enc dec) cutoff m = (r, m')"
  shows "backend_view (js_backend m') k = backend_view (js_backend m) k \<or>
    backend_view (js_backend m') k = None \<and>
      (\<exists>j. doc_at (new_job_docs backend_store enc dec) (backend_view (js_backend m)) k = Some j \<and>
         terminal (job_state j) \<and> created_at j < cutoff)"
  using job_docs.prune_safe [OF _ assms(2)] reliable_job_docs.axioms(2) [OF service_jobs [OF assms(1)]]
  by (auto simp: prunable_def)

definition sample_history :: "job backend job_store" where
  "sample_history = new_job_store \<lparr>contents =
     [(''jobs/s/0000000000000000007-backup-a1'', sample_job),
      (''jobs/s/0000000000000000007-backup-b1'', sample_job\<lparr>job_id := ''b1'', job_state := state_failed\<rparr>)],
     faults = []\<rparr>"

theorem job_prune_only_old_finished_witness:
  "\<exists>m'. job_prune_before (new_job_docs backend_store Some Some) 9 sample_history = (Inr 1, m') \<and>
    (\<forall>k. backend_view (js_backend m') k = backend_view (js_backend sample_history) k \<or>
     backend_view (js_backend m') k = None \<and>
      (\<exists>j. doc_at (new_job_docs backend_store Some Some) (backend_view (js_backend sample_history)) k = Some j \<and>
         terminal (job_state j) \<and> created_at j < 9))"
proof -
  have "fst (job_prune_before (new_job_docs backend_store Some Some) 9 sample_history) = Inr 1"
    by code_simp
  then obtain m' where "job_prune_before (new_job_docs backend_store Some Some) 9 sample_history = (Inr 1, m')"
    by (metis prod.collapse)
  then show ?thesis
    using job_prune_only_old_finished [OF reversible_Some] by blast
qed
lemma sample_history_ok:
  "history_ok (new_job_docs backend_store Some Some) (backend_view (js_backend sample_history))"
proof -
  have keys: "docs_key (new_job_docs (backend_store :: (job backend, job) store) Some Some)
      [''s'', document_name 7 kind_backup ''a1''] = ''jobs/s/0000000000000000007-backup-a1''"
    "docs_key (new_job_docs (backend_store :: (job backend, job) store) Some Some)
      [''s'', document_name 7 kind_backup ''b1''] = ''jobs/s/0000000000000000007-backup-b1''"
    by code_simp+
  have plain: "plain_job (sample_job\<lparr>job_id := ''b1'', job_state := state_failed\<rparr>)"
    by (simp add: plain_job_def sample_job_def is_kind_def is_safe_byte_def less_eq_char_def max_int64_def)
  have fields: "job_space sample_job = ''s''" "created_at sample_job = 7" "job_kind sample_job = kind_backup"
    "job_id sample_job = ''a1''"
    by (simp_all add: sample_job_def)
  have stored: "(k = ''jobs/s/0000000000000000007-backup-a1'' \<and> j = sample_job) \<or>
      (k = ''jobs/s/0000000000000000007-backup-b1'' \<and> j = sample_job\<lparr>job_id := ''b1'', job_state := state_failed\<rparr>)"
    if "doc_at (new_job_docs backend_store Some Some) (backend_view (js_backend sample_history)) k = Some j" for k j
    using that by (auto simp: doc_at_def backend_view_def sample_history_def new_job_store_def split: if_splits)
  have "plain_job j \<and> (\<exists>n. job_name j n \<and> k = docs_key (new_job_docs (backend_store :: (job backend, job) store) Some Some) [job_space j, n])"
    if "doc_at (new_job_docs backend_store Some Some) (backend_view (js_backend sample_history)) k = Some j" for k j
    using stored [OF that]
  proof
    assume "k = ''jobs/s/0000000000000000007-backup-a1'' \<and> j = sample_job"
    then show ?thesis
      using sample_job_plain fields keys(1)
      by (intro conjI exI [of _ "document_name 7 kind_backup ''a1''"]) (simp_all add: job_name_def)
  next
    assume "k = ''jobs/s/0000000000000000007-backup-b1'' \<and> j = sample_job\<lparr>job_id := ''b1'', job_state := state_failed\<rparr>"
    then show ?thesis
      using plain fields keys(2)
      by (intro conjI exI [of _ "document_name 7 kind_backup ''b1''"]) (simp_all add: job_name_def)
  qed
  then show ?thesis by (auto simp: history_ok_def)
qed

text \<open>
  Records of the same instant: the walk goes by key, so a limit keeps the one with the larger
  name, where the reference store sorts by id first and keeps the smaller.
\<close>

lemma limited_listing_ties:
  "map_sum id (map job_id) (fst (list_recent (new_job_docs backend_store Some Some) ''s'' [] 1 sample_history)) = Inr [''b1'']"
  "map job_id (jobs_mem_list ''s'' [] 1 \<lparr>mem_jobs = [(''a1'', sample_job),
     (''b1'', sample_job\<lparr>job_id := ''b1'', job_state := state_failed\<rparr>)], mem_held = []\<rparr>) = [''a1'']"
  by code_simp+

end
