(* ===== verification/Jobs_Lease.thy ===== *)
theory Jobs_Lease
  imports Jobs_Refine
begin

text \<open>
  The per-Space run lock (\<open>internal/jobs/lease.go\<close>): a reservation in the process and a durable
  lease that expires. The state is the job store, the reservations and when orphaned runs were
  last looked for. The lemmas say what an acquire leaves behind on every branch, that recovery
  touches neither a Space reserved here nor one whose lease is live, and that the count of active
  leases never misses one. Every call gets the clock reading its checks use.
\<close>

definition lease_prefix :: string where "lease_prefix = ''leases''"

definition default_lease_ttl :: duration where "default_lease_ttl = 10 * minute"

definition default_orphan_sweep :: duration where "default_orphan_sweep = hour"

definition message_interrupted :: string where
  "message_interrupted = ''the run was interrupted before it finished''"

record lease =
  lease_space :: string
  lease_owner :: string
  lease_acquired :: time
  lease_expires :: time

record lease_options =
  opt_ttl :: duration
  opt_sweep :: duration
  opt_owner :: string

text \<open>A reservation is identified by the stop channel made for it, here a number.\<close>

record 's locker =
  lk_jobs :: "'s job_store"
  lk_local :: "string \<rightharpoonup> nat"
  lk_next :: nat
  lk_last_orphan :: time

definition lease_defaults :: "lease_options \<Rightarrow> string option \<Rightarrow> jobs_error + lease_options" where
  "lease_defaults o_given new_owner =
     (let o1 = (if opt_ttl o_given \<le> 0 then o_given\<lparr>opt_ttl := default_lease_ttl\<rparr> else o_given);
          o2 = (if opt_sweep o1 \<le> 0 then o1\<lparr>opt_sweep := default_orphan_sweep\<rparr> else o1)
      in if opt_owner o2 \<noteq> [] then Inr o2
         else case new_owner of None \<Rightarrow> Inl NoRandomness | Some w \<Rightarrow> Inr (o2\<lparr>opt_owner := w\<rparr>))"

definition new_locker :: "'s \<Rightarrow> time \<Rightarrow> 's locker" where
  "new_locker s now =
     \<lparr>lk_jobs = new_job_store s, lk_local = Map.empty, lk_next = 0, lk_last_orphan = now\<rparr>"

definition new_lease_docs :: "('s, 'v) store \<Rightarrow> (lease \<Rightarrow> 'v option) \<Rightarrow> ('v \<Rightarrow> lease option) \<Rightarrow> ('s, 'v, lease) documents" where
  "new_lease_docs st enc dec = new_documents st lease_prefix enc dec"

text \<open>Operations on the store both halves share.\<close>

definition on_jobs :: "('s job_store, 'e, 'a) op \<Rightarrow> ('s locker, 'e, 'a) op" where
  "on_jobs f l = (case f (lk_jobs l) of (r, m) \<Rightarrow> (r, l\<lparr>lk_jobs := m\<rparr>))"

definition holds_locally :: "'s locker \<Rightarrow> string \<Rightarrow> bool" where
  "holds_locally l sp \<longleftrightarrow> lk_local l sp \<noteq> None"

definition reserve :: "string \<Rightarrow> 's locker \<Rightarrow> (nat \<times> 's locker) option" where
  "reserve sp l =
     (if lk_local l sp \<noteq> None then None
      else Some (lk_next l, l\<lparr>lk_local := (lk_local l)(sp \<mapsto> lk_next l), lk_next := lk_next l + 1\<rparr>))"

definition undo_reserve :: "string \<Rightarrow> nat \<Rightarrow> 's locker \<Rightarrow> 's locker" where
  "undo_reserve sp stop l =
     (if lk_local l sp = Some stop then l\<lparr>lk_local := (lk_local l)(sp := None)\<rparr> else l)"

definition lease_write ::
    "('s, 'v, lease) documents \<Rightarrow> lease_options \<Rightarrow> string \<Rightarrow> time \<Rightarrow> ('s locker, jobs_error, unit) op" where
  "lease_write ld opts sp now l =
     (case on_jobs (on_docs (docs_replace ld
        \<lparr>lease_space = sp, lease_owner = opt_owner opts, lease_acquired = now,
         lease_expires = now + opt_ttl opts\<rparr> [sp])) l of
        (Inl e, l) \<Rightarrow> (Inl (JobsState ''jobs: write run lease'' e), l)
      | (Inr u, l) \<Rightarrow> (Inr (), l))"

definition lock_acquire ::
    "('s, 'v, lease) documents \<Rightarrow> lease_options \<Rightarrow> string \<Rightarrow> time \<Rightarrow> ('s locker, jobs_error, nat) op" where
  "lock_acquire ld opts sp now l =
     (if sp = [] then (Inl SpaceIdRequired, l)
      else (case reserve sp l of
              None \<Rightarrow> (Inl ErrLocked, l)
            | Some (stop, l) \<Rightarrow>
                (let take = (\<lambda>l. case lease_write ld opts sp now l of
                         (Inl e, l) \<Rightarrow> (Inl e, undo_reserve sp stop l)
                       | (Inr u, l) \<Rightarrow> (Inr stop, l))
                 in (case on_jobs (on_docs (docs_get ld [sp])) l of
                       (Inr current, l) \<Rightarrow>
                         if now < lease_expires current then (Inl ErrLocked, undo_reserve sp stop l)
                         else take l
                     | (Inl e, l) \<Rightarrow>
                         if is_not_found e then take l
                         else (Inl (JobsState ''jobs: read run lease'' e), undo_reserve sp stop l)))))"

text \<open>What the function returned by \<open>Acquire\<close> does, once.\<close>

definition lock_release :: "('s, 'v, lease) documents \<Rightarrow> string \<Rightarrow> 's locker \<Rightarrow> 's locker" where
  "lock_release ld sp l =
     snd (on_jobs (on_docs (docs_delete ld [sp])) (l\<lparr>lk_local := (lk_local l)(sp := None)\<rparr>))"

definition lease_live :: "('s, 'v, lease) documents \<Rightarrow> string \<Rightarrow> time \<Rightarrow> ('s locker, jobs_error, bool) op" where
  "lease_live ld sp now l =
     (case on_jobs (on_docs (docs_get ld [sp])) l of
        (Inl e, l) \<Rightarrow>
          if is_not_found e then (Inr False, l) else (Inl (JobsState ''jobs: read run lease'' e), l)
      | (Inr rec, l) \<Rightarrow> (Inr (now < lease_expires rec), l))"

definition lock_busy :: "('s, 'v, lease) documents \<Rightarrow> string \<Rightarrow> time \<Rightarrow> ('s locker, jobs_error, bool) op" where
  "lock_busy ld sp now l = (if holds_locally l sp then (Inr True, l) else lease_live ld sp now l)"

subsection \<open>Recovery\<close>

definition interrupted :: outcome where
  "interrupted = \<lparr>out_state = state_failed, out_error = message_interrupted, out_snapshot_id = [],
     out_file_count = 0, out_total_bytes = 0, out_deleted = 0, out_kept = 0\<rparr>"

text \<open>The job store may be absent; a failure says how many runs were closed before it.\<close>

fun finish_all ::
    "('s, 'v, job) documents \<Rightarrow> time \<Rightarrow> job list \<Rightarrow> nat \<Rightarrow> ('s locker, nat \<times> jobs_error, nat) op" where
  "finish_all d now [] n l = (Inr n, l)"
| "finish_all d now (j # js) n l =
     (if terminal (job_state j) then finish_all d now js n l
      else (case on_jobs (job_finish d (job_id j) interrupted now) l of
              (Inl e, l) \<Rightarrow> (Inl (n, JobsWrapped ''jobs: close abandoned run'' e), l)
            | (Inr u, l) \<Rightarrow> finish_all d now js (n + 1) l))"

definition fail_abandoned ::
    "('s, 'v, job) documents option \<Rightarrow> string \<Rightarrow> time \<Rightarrow> ('s locker, nat \<times> jobs_error, nat) op" where
  "fail_abandoned st sp now l =
     (case st of
        None \<Rightarrow> (Inr 0, l)
      | Some d \<Rightarrow>
          (case on_jobs (job_list d sp) l of
             (Inl e, l) \<Rightarrow> (Inl (0, JobsWrapped ''jobs: list abandoned runs'' e), l)
           | (Inr js, l) \<Rightarrow> finish_all d now js 0 l))"

fun recover_leases ::
    "('s, 'v, lease) documents \<Rightarrow> ('s, 'v, job) documents option \<Rightarrow> time \<Rightarrow> string list \<Rightarrow> nat \<Rightarrow>
     ('s locker, nat \<times> jobs_error, nat) op" where
  "recover_leases ld st now [] n l = (Inr n, l)"
| "recover_leases ld st now (key # keys) n l =
     (case on_jobs (on_docs (docs_get_key ld key)) l of
        (Inl e, l) \<Rightarrow> recover_leases ld st now keys n l
      | (Inr rec, l) \<Rightarrow>
          if now < lease_expires rec \<or> holds_locally l (lease_space rec)
          then recover_leases ld st now keys n l
          else (case fail_abandoned st (lease_space rec) now l of
                  (Inl (k, e), l) \<Rightarrow> (Inl (n, e), l)
                | (Inr failed, l) \<Rightarrow>
                    (case on_jobs (on_docs (docs_delete_key ld key)) l of
                       (Inr u, l) \<Rightarrow> recover_leases ld st now keys (n + failed) l
                     | (Inl e, l) \<Rightarrow>
                         if is_not_found e then recover_leases ld st now keys (n + failed) l
                         else (Inl (n, JobsState ''jobs: drop expired run lease'' e), l))))"

definition recover_expired ::
    "('s, 'v, lease) documents \<Rightarrow> ('s, 'v, job) documents option \<Rightarrow> time \<Rightarrow> ('s locker, nat \<times> jobs_error, nat) op" where
  "recover_expired ld st now l =
     (case on_jobs (on_docs (docs_keys ld [])) l of
        (Inl e, l) \<Rightarrow> (Inl (0, JobsState ''jobs: list run leases'' e), l)
      | (Inr keys, l) \<Rightarrow> recover_leases ld st now keys 0 l)"

definition orphan_sweep_due :: "lease_options \<Rightarrow> time \<Rightarrow> 's locker \<Rightarrow> bool \<times> 's locker" where
  "orphan_sweep_due opts now l =
     (if time_sub now (lk_last_orphan l) < opt_sweep opts then (False, l)
      else (True, l\<lparr>lk_last_orphan := now\<rparr>))"

fun close_orphans ::
    "('s, 'v, lease) documents \<Rightarrow> ('s, 'v, job) documents \<Rightarrow> time \<Rightarrow> job list \<Rightarrow> nat \<Rightarrow>
     ('s locker, nat \<times> jobs_error, nat) op" where
  "close_orphans ld d now [] n l = (Inr n, l)"
| "close_orphans ld d now (j # js) n l =
     (if holds_locally l (job_space j) then close_orphans ld d now js n l
      else (case lease_live ld (job_space j) now l of
              (Inl e, l) \<Rightarrow> (Inl (n, e), l)
            | (Inr live, l) \<Rightarrow>
                if live then close_orphans ld d now js n l
                else (case on_jobs (job_finish d (job_id j) interrupted now) l of
                        (Inl e, l) \<Rightarrow> (Inl (n, JobsWrapped ''jobs: close orphaned run'' e), l)
                      | (Inr u, l) \<Rightarrow> close_orphans ld d now js (n + 1) l)))"

definition recover_orphans ::
    "('s, 'v, lease) documents \<Rightarrow> lease_options \<Rightarrow> ('s, 'v, job) documents option \<Rightarrow> time \<Rightarrow>
     ('s locker, nat \<times> jobs_error, nat) op" where
  "recover_orphans ld opts st now l =
     (case st of
        None \<Rightarrow> (Inr 0, l)
      | Some d \<Rightarrow>
          (case orphan_sweep_due opts now l of
             (False, l) \<Rightarrow> (Inr 0, l)
           | (True, l) \<Rightarrow>
               (case on_jobs (list_running d) l of
                  (Inl e, l) \<Rightarrow> (Inl (0, JobsWrapped ''jobs: list running runs'' e), l)
                | (Inr js, l) \<Rightarrow> close_orphans ld d now js 0 l)))"

definition lock_recover ::
    "('s, 'v, lease) documents \<Rightarrow> lease_options \<Rightarrow> ('s, 'v, job) documents option \<Rightarrow> time \<Rightarrow>
     ('s locker, nat \<times> jobs_error, nat) op" where
  "lock_recover ld opts st now l =
     (case recover_expired ld st now l of
        (Inl e, l) \<Rightarrow> (Inl e, l)
      | (Inr n, l) \<Rightarrow>
          (case recover_orphans ld opts st now l of
             (Inl (k, e), l) \<Rightarrow> (Inl (n + k, e), l)
           | (Inr k, l) \<Rightarrow> (Inr (n + k), l)))"

fun count_active :: "('s, 'v, lease) documents \<Rightarrow> time \<Rightarrow> string list \<Rightarrow> nat \<Rightarrow> 's \<Rightarrow> nat \<times> 's" where
  "count_active ld now [] n s = (n, s)"
| "count_active ld now (key # keys) n s =
     (case docs_get_key ld key s of
        (Inl e, s) \<Rightarrow> count_active ld now keys (n + 1) s
      | (Inr rec, s) \<Rightarrow>
          count_active ld now keys (if now < lease_expires rec then n + 1 else n) s)"

definition active_leases :: "('s, 'v, lease) documents \<Rightarrow> time \<Rightarrow> ('s, jobs_error, nat) op" where
  "active_leases ld now s =
     (case docs_keys ld [] s of
        (Inl e, s) \<Rightarrow> (Inl (JobsState ''jobs: list run leases'' e), s)
      | (Inr keys, s) \<Rightarrow> (case count_active ld now keys 0 s of (n, s) \<Rightarrow> (Inr n, s)))"

subsection \<open>What a finish touches\<close>

text \<open>Records are filed under their own id, one key per id; corrupt documents may lie beside them.\<close>

definition history_ids :: "('s, 'v, job) documents \<Rightarrow> (string \<rightharpoonup> 'v) \<Rightarrow> bool" where
  "history_ids d v \<longleftrightarrow> history_ok d v \<and>
     (\<forall>k k' j j'. stored_job d v k j \<longrightarrow> stored_job d v k' j' \<longrightarrow> job_id j = job_id j' \<longrightarrow> k = k')"

definition index_named :: "'s job_store \<Rightarrow> bool" where
  "index_named m \<longleftrightarrow>
     (\<forall>i k. js_index m i = Some k \<longrightarrow> has_segment_prefix k jobs_prefix \<and> id_from_key k = Some i)"

lemma history_ids_iff:
  "history_ids d v \<longleftrightarrow>
     (\<forall>k j. stored_job d v k j \<longrightarrow> plain_job j \<and> (\<exists>n. job_name j n \<and> k = docs_key d [job_space j, n])) \<and>
     (\<forall>k k' j j'. stored_job d v k j \<longrightarrow> stored_job d v k' j' \<longrightarrow> job_id j = job_id j' \<longrightarrow> k = k')"
  by (auto simp: history_ids_def history_ok_def stored_job_def)

lemma history_ids_delete: "history_ids d v \<Longrightarrow> history_ids d (v(k := None))"
  by (auto simp: history_ids_iff stored_delete)

lemma history_ids_outcome:
  assumes h: "history_ids d v" and j: "stored_job d v k j" and raw: "d_decode d raw = Some (apply_outcome j out now)"
  shows "history_ids d (v(k \<mapsto> raw))"
proof -
  have pre: "has_segment_prefix k jobs_prefix" using j by (simp add: stored_job_def)
  note upd = stored_update [OF pre, of d raw, OF raw]
  have "plain_job (apply_outcome j out now) \<longleftrightarrow> plain_job j"
    "job_name (apply_outcome j out now) n \<longleftrightarrow> job_name j n" for n
    by (simp_all add: plain_job_def job_name_def)
  then have "plain_job x \<and> (\<exists>n. job_name x n \<and> k' = docs_key d [job_space x, n])"
    if "stored_job d (v(k \<mapsto> raw)) k' x" for k' x
    using h j that by (auto simp: history_ids_iff upd)
  moreover have "k1 = k2"
    if "stored_job d (v(k \<mapsto> raw)) k1 x" "stored_job d (v(k \<mapsto> raw)) k2 y" "job_id x = job_id y" for k1 k2 x y
  proof -
    have "\<exists>x'. stored_job d v k1 x' \<and> job_id x' = job_id x" "\<exists>y'. stored_job d v k2 y' \<and> job_id y' = job_id y"
      using that(1,2) j by (auto simp: upd)
    then show ?thesis using h that(3) unfolding history_ids_iff by metis
  qed
  ultimately show ?thesis unfolding history_ids_iff by blast
qed

lemma index_named_updates:
  "index_named m \<Longrightarrow> index_named (forget i ks m)"
  "index_named m \<Longrightarrow> index_named (mark_settled k m)"
  "index_named m \<Longrightarrow> has_segment_prefix k jobs_prefix \<Longrightarrow> id_from_key k = Some i \<Longrightarrow> index_named (remember i k m)"
  by (auto simp: index_named_def)

lemma index_named_read:
  "on_docs f m = (r, m') \<Longrightarrow> index_named m' \<longleftrightarrow> index_named m"
  using on_docs_caches [of f m r m'] by (simp add: index_named_def)

lemma index_keys_named:
  assumes "index_keys ks ix i = Some k" shows "k \<in> set ks \<and> id_from_key k = Some i \<or> ix i = Some k"
proof (cases "filter (\<lambda>k. id_from_key k = Some i) ks")
  case Nil
  then show ?thesis using assms by (simp add: index_keys_last)
next
  case (Cons a l)
  then have "k = last (filter (\<lambda>k. id_from_key k = Some i) ks)" using assms by (simp add: index_keys_last)
  then have "k \<in> set (filter (\<lambda>k. id_from_key k = Some i) ks)"
    using Cons last_in_set by (metis list.distinct(1))
  then show ?thesis by simp
qed

context job_docs
begin

lemma key_for_named:
  assumes "index_named m" "key_for d i m = (r, m')"
  shows "index_named m' \<and> view (js_backend m') = view (js_backend m) \<and>
    (case r of Inr k \<Rightarrow> has_segment_prefix k jobs_prefix \<and> id_from_key k = Some i | Inl e \<Rightarrow> True)"
proof (cases "js_index m i = None \<and> \<not> js_indexed m")
  case False
  then show ?thesis
    using assms by (auto simp: key_for_def index_named_def split: option.splits if_splits)
next
  case True
  obtain q m1 where l: "on_docs (docs_keys d []) m = (q, m1)" by fastforce
  have v: "view (js_backend m1) = view (js_backend m)"
    using docs_keys_view [OF on_docs_backend [OF l]] .
  have n1: "index_named m1" using assms(1) index_named_read [OF l] by simp
  show ?thesis
  proof (cases q)
    case (Inl e)
    then show ?thesis using True l assms(2) n1 v by (auto simp: key_for_def)
  next
    case (Inr ks)
    have ks: "has_segment_prefix k jobs_prefix" if "k \<in> set ks" for k
      using list_set [of "jobs_prefix"] on_docs_backend [OF l] Inr that
      by (auto simp: docs_keys_def store_of prefix)
    have named: "index_named (m1\<lparr>js_index := index_keys ks (js_index m1), js_indexed := True\<rparr>)"
      using n1 ks index_keys_named [of ks "js_index m1"] by (fastforce simp: index_named_def)
    then show ?thesis
      using True l assms(2) v Inr
      by (auto simp: key_for_def Let_def index_named_def split: option.splits)
  qed
qed

lemma finish_touches:
  assumes n: "index_named m" and h: "history_ids d (view (js_backend m))"
    and f: "job_finish d i out now m = (r, m')"
  shows "index_named m' \<and> history_ids d (view (js_backend m')) \<and>
    (\<forall>k. view (js_backend m') k = view (js_backend m) k \<or>
       (\<exists>j. stored_job d (view (js_backend m)) k j \<and> job_id j = i))"
proof (cases "terminal (out_state out)")
  case False
  then show ?thesis using n h f by (auto simp: job_finish_def)
next
  case settles: True
  obtain q m1 where k: "key_for d i m = (q, m1)" by fastforce
  note named = key_for_named [OF n k]
  show ?thesis
  proof (cases q)
    case (Inl e)
    then show ?thesis using settles f k named h by (auto simp: job_finish_def)
  next
    case (Inr key)
    obtain g m2 where g: "on_docs (docs_get_key d key) m1 = (g, m2)" by fastforce
    have v2: "view (js_backend m2) = view (js_backend m)"
      using docs_get_key_view [OF on_docs_backend [OF g]] named by simp
    have n2: "index_named m2" using named index_named_read [OF g] by simp
    show ?thesis
    proof (cases g)
      case (Inl e)
      then show ?thesis
        using settles f k Inr g n2 v2 h by (auto simp: job_finish_def index_named_updates split: if_splits)
    next
      case j: (Inr j)
      have key: "has_segment_prefix key jobs_prefix" "id_from_key key = Some i"
        using named Inr by auto
      have st: "stored_job d (view (js_backend m)) key j"
        using docs_get_key_ok [of key "js_backend m1" j] on_docs_backend [OF g] j named key
        by (simp add: stored_job_def)
      then have id: "job_id j = i"
      proof -
        obtain nm where "plain_job j" "job_name j nm" "key = docs_key d [job_space j, nm]"
          using h st by (auto simp: history_ids_iff)
        then show ?thesis using job_key_says(1) [of j nm d "job_space j"] key(2) by simp
      qed
      obtain u m3 where w: "on_docs (docs_replace_key d key (apply_outcome j out now)) m2 = (u, m3)" by fastforce
      note w' = on_docs_backend [OF w]
      have n3: "index_named m3" using n2 index_named_read [OF w] by simp
      have others: "view (js_backend m3) k' = view (js_backend m) k'" if "k' \<noteq> key" for k'
        using docs_replace_key_others [OF w' that] v2 by simp
      have "view (js_backend m3) = view (js_backend m) \<or> view (js_backend m3) = (view (js_backend m))(key := None) \<or>
          (\<exists>raw. d_encode d (apply_outcome j out now) = Some raw \<and>
             view (js_backend m3) = (view (js_backend m))(key \<mapsto> raw))"
        using w' v2 by (cases u) (auto dest: docs_replace_key_ok docs_replace_key_fails)
      then have h3: "history_ids d (view (js_backend m3))"
        using h history_ids_delete [OF h] history_ids_outcome [OF h st] codec by auto
      have m': "m' = m3 \<or> m' = mark_settled key m3"
        using settles f k Inr g j w by (cases u) (auto simp: job_finish_def)
      have "index_named m'" using m' n3 index_named_updates(2) by auto
      moreover have "view (js_backend m') = view (js_backend m3)" using m' by auto
      ultimately show ?thesis using h3 others st id by metis
    qed
  qed
qed

lemma read_stored:
  assumes "history_ids d (view (js_backend m))" "on_docs (docs_get_key d k) m = (Inr j, m')"
    "has_segment_prefix k jobs_prefix"
  shows "stored_job d (view (js_backend m)) k j" "id_from_key k = Some (job_id j)"
proof -
  show st: "stored_job d (view (js_backend m)) k j"
    using docs_get_key_ok [OF on_docs_backend [OF assms(2)]] assms(3) by (simp add: stored_job_def)
  then obtain n where "plain_job j" "job_name j n" "k = docs_key d [job_space j, n]"
    using assms(1) by (auto simp: history_ids_iff)
  then show "id_from_key k = Some (job_id j)" using job_key_says(1) [of j n d "job_space j"] by simp
qed

lemma list_walk_named:
  assumes "index_named m" "history_ids d (view (js_backend m))"
    "\<And>k. k \<in> set ks \<Longrightarrow> has_segment_prefix k jobs_prefix" "list_walk d kind limit ks out m = (res, m')"
  shows "index_named m'"
  using assms
proof (induction ks arbitrary: out m)
  case (Cons k ks)
  obtain q m1 where g: "on_docs (docs_get_key d k) m = (q, m1)" by fastforce
  have v: "view (js_backend m1) = view (js_backend m)" using docs_get_key_view [OF on_docs_backend [OF g]] .
  have n1: "index_named m1" using Cons.prems(1) index_named_read [OF g] by simp
  show ?case
  proof (cases q)
    case (Inl e)
    then show ?thesis using Cons.prems g v n1 Cons.IH [of m] Cons.IH [of m1] by (auto split: if_splits)
  next
    case (Inr j)
    have "id_from_key k = Some (job_id j)"
      using read_stored(2) [OF Cons.prems(2)] g Inr Cons.prems(3) by auto
    then have "index_named (remember (job_id j) k m1)"
      using index_named_updates(3) [OF n1] Cons.prems(3) by simp
    then show ?thesis
      using Cons.prems g v Inr Cons.IH [of m] Cons.IH [of "remember (job_id j) k m1"]
      by (auto simp: Let_def split: if_splits)
  qed
qed simp

lemma job_list_frame:
  assumes "index_named m" "history_ids d (view (js_backend m))" "sp \<noteq> []" "job_list d sp m = (r, m')"
  shows "index_named m' \<and> view (js_backend m') = view (js_backend m) \<and>
    (case r of Inl e \<Rightarrow> True
     | Inr js \<Rightarrow> \<forall>j\<in>set js. job_space j = sp \<and> (\<exists>k. stored_job d (view (js_backend m)) k j))"
proof -
  obtain q m1 where l: "on_docs (docs_keys d [sp]) m = (q, m1)" by fastforce
  have v: "view (js_backend m1) = view (js_backend m)" using docs_keys_view [OF on_docs_backend [OF l]] .
  have n1: "index_named m1" using assms(1) index_named_read [OF l] by simp
  show ?thesis
  proof (cases q)
    case (Inl e)
    then show ?thesis using assms(4) l v n1 by (auto simp: job_list_def list_recent_def)
  next
    case (Inr ks)
    have ks: "has_segment_prefix k (docs_key d [sp])" if "k \<in> set ks" for k
      using list_set [of "docs_key d [sp]"] on_docs_backend [OF l] Inr that by (auto simp: docs_keys_def store_of)
    obtain out m2 where w: "list_walk d [] 0 (rev ks) [] m1 = (out, m2)" by fastforce
    have "index_named m2"
      using list_walk_named [OF n1 _ _ w] assms(2) v ks space_key_prefix [OF assms(3)] by auto
    moreover have "job_space j = sp \<and> (\<exists>k. stored_job d (view (js_backend m)) k j)" if j: "j \<in> set out" for j
    proof -
      obtain k where k: "k \<in> set ks" "doc_at d (view (js_backend m)) k = Some j"
        using list_walk_sound [OF w] j v by auto
      then have st: "stored_job d (view (js_backend m)) k j"
        using space_key_prefix [OF assms(3) ks] by (simp add: stored_job_def)
      then obtain n where "plain_job j" "k = docs_key d [job_space j, n]"
        using assms(2) by (auto simp: history_ids_iff)
      then show ?thesis using job_below_space [of j sp n] ks [OF k(1)] assms(3) st by (auto simp: plain_job_def)
    qed
    ultimately show ?thesis
      using assms(4) l w v list_walk_frame [OF w] Inr by (auto simp: job_list_def list_recent_def)
  qed
qed

lemma running_walk_frame:
  assumes "running_walk d ks out m = (res, m')"
  shows "view (js_backend m') = view (js_backend m) \<and> js_index m' = js_index m \<and>
    set res \<subseteq> set out \<union> {j. \<exists>k\<in>set ks. doc_at d (view (js_backend m)) k = Some j \<and> \<not> terminal (job_state j)}"
  using assms
proof (induction ks arbitrary: out m)
  case (Cons k ks)
  obtain q m1 where g: "on_docs (docs_get_key d k) m = (q, m1)" by fastforce
  have v: "view (js_backend m1) = view (js_backend m)" using docs_get_key_view [OF on_docs_backend [OF g]] .
  have i: "js_index m1 = js_index m" using on_docs_caches [OF g] by simp
  show ?case
  proof (cases "settled m k")
    case True
    then show ?thesis using Cons.IH [of out m] Cons.prems by auto
  next
    case False
    show ?thesis
    proof (cases q)
      case (Inl e)
      then show ?thesis using Cons.IH [of out m1] Cons.prems False g v i by auto
    next
      case (Inr j)
      have doc: "doc_at d (view (js_backend m)) k = Some j"
        using docs_get_key_ok [of k "js_backend m" j] on_docs_backend [OF g] Inr by simp
      show ?thesis
      proof (cases "terminal (job_state j)")
        case True
        then show ?thesis
          using Cons.IH [of out "mark_settled k m1"] Cons.prems False g v i Inr by auto
      next
        case not: False
        then show ?thesis
          using Cons.IH [of "out @ [j]" m1] Cons.prems False g v i Inr doc by fastforce
      qed
    qed
  qed
qed simp

lemma list_running_frame:
  assumes "index_named m" "list_running d m = (r, m')"
  shows "index_named m' \<and> view (js_backend m') = view (js_backend m) \<and>
    (case r of Inl e \<Rightarrow> True | Inr js \<Rightarrow> \<forall>j\<in>set js. \<exists>k. stored_job d (view (js_backend m)) k j)"
proof -
  obtain q m1 where l: "on_docs (docs_keys d []) m = (q, m1)" by fastforce
  have v: "view (js_backend m1) = view (js_backend m)" using docs_keys_view [OF on_docs_backend [OF l]] .
  have i: "js_index m1 = js_index m" using on_docs_caches [OF l] by simp
  show ?thesis
  proof (cases q)
    case (Inl e)
    then show ?thesis using assms l v i by (auto simp: list_running_def index_named_def)
  next
    case (Inr ks)
    have ks: "has_segment_prefix k jobs_prefix" if "k \<in> set ks" for k
      using list_set [of jobs_prefix] on_docs_backend [OF l] Inr that
      by (auto simp: docs_keys_def store_of prefix)
    obtain out m2 where w: "running_walk d ks [] m1 = (out, m2)" by fastforce
    have "\<exists>k. stored_job d (view (js_backend m)) k j" if "j \<in> set out" for j
      using running_walk_frame [OF w] that v ks by (fastforce simp: stored_job_def)
    then show ?thesis
      using running_walk_frame [OF w] assms l Inr w v i
      by (auto simp: list_running_def index_named_def)
  qed
qed

end

subsection \<open>The lock\<close>

locale run_locks = job_docs st view d + leases: collection st view ld
  for st :: "('s, 'v) store" and view :: "'s \<Rightarrow> string \<rightharpoonup> 'v" and d :: "('s, 'v, job) documents"
    and ld :: "('s, 'v, lease) documents" +
  assumes lease_docs_prefix: "d_prefix ld = lease_prefix"
begin

lemma on_jobs_run: "on_jobs f l = (r, l') \<Longrightarrow>
    f (lk_jobs l) = (r, lk_jobs l') \<and> lk_local l' = lk_local l \<and> lk_next l' = lk_next l \<and>
    lk_last_orphan l' = lk_last_orphan l"
  by (auto simp: on_jobs_def split: prod.splits)

lemma on_lease_run:
  assumes "on_jobs (on_docs f) l = (r, l')"
  shows "f (js_backend (lk_jobs l)) = (r, js_backend (lk_jobs l'))" "lk_local l' = lk_local l"
    "lk_last_orphan l' = lk_last_orphan l" "index_named (lk_jobs l') = index_named (lk_jobs l)"
  using on_jobs_run [OF assms] on_docs_backend [of f "lk_jobs l" r "lk_jobs l'"]
    index_named_read [of f "lk_jobs l" r "lk_jobs l'"] by auto

lemma undo_reserve_local:
  "lk_local l sp = None \<Longrightarrow> lk_local l1 = (lk_local l)(sp \<mapsto> stop) \<Longrightarrow> lk_local (undo_reserve sp stop l1) = lk_local l"
  by (auto simp: undo_reserve_def fun_eq_iff)

lemma lease_write_run:
  assumes "lease_write ld opts sp now l = (r, l')"
  shows "lk_local l' = lk_local l \<and> (\<forall>u. r = Inr u \<longrightarrow>
    doc_at ld (view (js_backend (lk_jobs l'))) (docs_key ld [sp]) =
      Some \<lparr>lease_space = sp, lease_owner = opt_owner opts, lease_acquired = now,
        lease_expires = now + opt_ttl opts\<rparr>)"
proof -
  let ?rec = "\<lparr>lease_space = sp, lease_owner = opt_owner opts, lease_acquired = now,
    lease_expires = now + opt_ttl opts\<rparr>"
  obtain q l1 where w: "on_jobs (on_docs (docs_replace ld ?rec [sp])) l = (q, l1)" by fastforce
  have "docs_replace_key ld (docs_key ld [sp]) ?rec (js_backend (lk_jobs l)) = (q, js_backend (lk_jobs l1))"
    using on_lease_run(1) [OF w] by (simp add: docs_replace_def)
  then have "q = Inr u \<Longrightarrow> doc_at ld (view (js_backend (lk_jobs l1))) (docs_key ld [sp]) = Some ?rec" for u
    using leases.docs_replace_key_ok leases.codec by (fastforce simp: doc_at_def)
  then show ?thesis
    using assms w on_lease_run(2) [OF w] by (cases q) (auto simp: lease_write_def)
qed

text \<open>
  Acquiring: success means the Space was free here and its lease was not live, and leaves both a
  reservation and a lease for the whole term; a refusal leaves the reservations as they were.
\<close>

lemma lock_acquire_outcome:
  assumes "lock_acquire ld opts sp now l = (r, l')"
  shows "case r of
      Inl e \<Rightarrow> lk_local l' = lk_local l
    | Inr stop \<Rightarrow> sp \<noteq> [] \<and> lk_local l sp = None \<and> lk_local l' = (lk_local l)(sp \<mapsto> stop) \<and>
        (\<forall>rec. doc_at ld (view (js_backend (lk_jobs l))) (docs_key ld [sp]) = Some rec \<longrightarrow>
           lease_expires rec \<le> now) \<and>
        doc_at ld (view (js_backend (lk_jobs l'))) (docs_key ld [sp]) =
          Some \<lparr>lease_space = sp, lease_owner = opt_owner opts, lease_acquired = now,
            lease_expires = now + opt_ttl opts\<rparr>"
proof (cases "sp = [] \<or> lk_local l sp \<noteq> None")
  case True
  then show ?thesis using assms by (auto simp: lock_acquire_def reserve_def split: if_splits)
next
  case False
  define l1 where "l1 = l\<lparr>lk_local := (lk_local l)(sp \<mapsto> lk_next l), lk_next := lk_next l + 1\<rparr>"
  have res: "reserve sp l = Some (lk_next l, l1)" using False by (simp add: reserve_def l1_def)
  obtain q l2 where g: "on_jobs (on_docs (docs_get ld [sp])) l1 = (q, l2)" by fastforce
  have g': "docs_get_key ld (docs_key ld [sp]) (js_backend (lk_jobs l)) = (q, js_backend (lk_jobs l2))"
    and loc2: "lk_local l2 = (lk_local l)(sp \<mapsto> lk_next l)"
    using on_lease_run(1,2) [OF g] by (simp_all add: docs_get_def l1_def)
  have undo: "lk_local (undo_reserve sp (lk_next l) l3) = lk_local l" if "lk_local l3 = lk_local l2" for l3
    using undo_reserve_local [of l sp l3 "lk_next l"] loc2 that False by simp
  obtain w l3 where w: "lease_write ld opts sp now l2 = (w, l3)" by fastforce
  note w' = lease_write_run [OF w]
  have free: "q = Inl e \<Longrightarrow> is_not_found e \<Longrightarrow> doc_at ld (view (js_backend (lk_jobs l))) (docs_key ld [sp]) = None" for e
    using leases.docs_get_key_missing [of "docs_key ld [sp]"] g' by (auto simp: doc_at_def)
  have held: "q = Inr rec \<Longrightarrow> doc_at ld (view (js_backend (lk_jobs l))) (docs_key ld [sp]) = Some rec" for rec
    using leases.docs_get_key_ok [of "docs_key ld [sp]"] g' by auto
  show ?thesis
  proof (cases "(\<exists>e. q = Inl e \<and> is_not_found e) \<or> (\<exists>rec. q = Inr rec \<and> \<not> now < lease_expires rec)")
    case True
    then have "(r, l') = (case w of Inl e \<Rightarrow> (Inl e, undo_reserve sp (lk_next l) l3) | Inr u \<Rightarrow> (Inr (lk_next l), l3))"
      using assms False res g w by (auto simp: lock_acquire_def Let_def split: sum.splits)
    then show ?thesis
      using w' undo loc2 False True free held by (auto split: sum.splits)
  next
    case not: False
    then show ?thesis
      using assms False res g undo by (auto simp: lock_acquire_def Let_def split: sum.splits)
  qed
qed

end

subsection \<open>What recovery leaves alone\<close>

text \<open>Leases are filed under the Space they name.\<close>

definition leases_ok :: "('s, 'v, lease) documents \<Rightarrow> (string \<rightharpoonup> 'v) \<Rightarrow> bool" where
  "leases_ok ld v \<longleftrightarrow>
     (\<forall>k rec. has_segment_prefix k lease_prefix \<longrightarrow> doc_at ld v k = Some rec \<longrightarrow>
        lease_space rec \<noteq> [] \<and> k = docs_key ld [lease_space rec])"

definition lock_inv ::
    "('s, 'v, job) documents \<Rightarrow> ('s, 'v, lease) documents \<Rightarrow> (string \<rightharpoonup> 'v) \<Rightarrow> 's locker \<Rightarrow> bool" where
  "lock_inv d ld v l \<longleftrightarrow> index_named (lk_jobs l) \<and> history_ids d v \<and> leases_ok ld v"

text \<open>A Space that recovery must leave alone: reserved here, or with a live lease.\<close>

definition spared :: "('s, 'v, lease) documents \<Rightarrow> time \<Rightarrow> (string \<rightharpoonup> 'v) \<Rightarrow> 's locker \<Rightarrow> string \<Rightarrow> bool" where
  "spared ld now v l sp \<longleftrightarrow> lk_local l sp \<noteq> None \<or>
     (\<exists>rec. doc_at ld v (docs_key ld [sp]) = Some rec \<and> now < lease_expires rec)"

definition away :: "('s, 'v, job) documents \<Rightarrow> (string \<rightharpoonup> 'v) \<Rightarrow> string \<Rightarrow> string \<Rightarrow> bool" where
  "away d v sp i \<longleftrightarrow> (\<forall>k j. stored_job d v k j \<longrightarrow> job_id j = i \<longrightarrow> job_space j \<noteq> sp)"

definition kept ::
    "('s, 'v, job) documents \<Rightarrow> ('s, 'v, lease) documents \<Rightarrow> string \<Rightarrow> (string \<rightharpoonup> 'v) \<Rightarrow> (string \<rightharpoonup> 'v) \<Rightarrow> bool" where
  "kept d ld sp v v' \<longleftrightarrow> v' (docs_key ld [sp]) = v (docs_key ld [sp]) \<and>
     (\<forall>k j. stored_job d v k j \<longrightarrow> job_space j = sp \<longrightarrow> v' k = v k) \<and>
     (\<forall>i. away d v sp i \<longrightarrow> away d v' sp i)"

lemma kept_refl: "kept d ld sp v v"
  by (simp add: kept_def)

lemma kept_job:
  "kept d ld sp v v' \<Longrightarrow> stored_job d v k j \<Longrightarrow> job_space j = sp \<Longrightarrow> v' k = v k"
  unfolding kept_def by blast

lemma kept_lease: "kept d ld sp v v' \<Longrightarrow> v' (docs_key ld [sp]) = v (docs_key ld [sp])"
  unfolding kept_def by blast

lemma kept_away: "kept d ld sp v v' \<Longrightarrow> away d v sp i \<Longrightarrow> away d v' sp i"
  unfolding kept_def by blast

lemma kept_trans:
  assumes "kept d ld sp v v'" "kept d ld sp v' v''" shows "kept d ld sp v v''"
proof -
  have "v'' k = v k" if "stored_job d v k j" "job_space j = sp" for k j
  proof -
    have e: "v' k = v k" using kept_job [OF assms(1) that] .
    then have "stored_job d v' k j" using that(1) by (simp add: stored_job_def doc_at_def)
    from kept_job [OF assms(2) this that(2)] e show ?thesis by simp
  qed
  moreover have "v'' (docs_key ld [sp]) = v (docs_key ld [sp])"
    using kept_lease [OF assms(1)] kept_lease [OF assms(2)] by simp
  moreover have "away d v sp i \<Longrightarrow> away d v'' sp i" for i
    using kept_away [OF assms(1)] kept_away [OF assms(2)] by blast
  ultimately show ?thesis unfolding kept_def by blast
qed

lemma prefixes_differ: "has_segment_prefix k jobs_prefix \<Longrightarrow> \<not> has_segment_prefix k lease_prefix"
  by (auto simp: has_segment_prefix_iff jobs_prefix_def lease_prefix_def)

context run_locks
begin

lemma lease_key_prefix: "has_segment_prefix (docs_key ld ids) lease_prefix"
  by (simp add: has_segment_prefix_iff lease_prefix_def docs_key_def lease_docs_prefix)

lemma finish_kept:
  assumes inv: "lock_inv d ld (view (js_backend (lk_jobs l))) l"
    and away: "away d (view (js_backend (lk_jobs l))) sp i"
    and f: "on_jobs (job_finish d i out now) l = (r, l')"
  shows "lock_inv d ld (view (js_backend (lk_jobs l'))) l' \<and> lk_local l' = lk_local l \<and>
    kept d ld sp (view (js_backend (lk_jobs l))) (view (js_backend (lk_jobs l')))"
proof -
  let ?v = "view (js_backend (lk_jobs l))" and ?v' = "view (js_backend (lk_jobs l'))"
  note run = on_jobs_run [OF f]
  have touch: "index_named (lk_jobs l')" "history_ids d ?v'"
    and keys: "\<And>k. ?v' k = ?v k \<or> (\<exists>j. stored_job d ?v k j \<and> job_id j = i)"
    using finish_touches [of "lk_jobs l" i out now r "lk_jobs l'"] run inv by (auto simp: lock_inv_def)
  have lease_same: "?v' k = ?v k" if "has_segment_prefix k lease_prefix" for k
    using keys [of k] that prefixes_differ by (auto simp: stored_job_def)
  have job_same: "?v' k = ?v k" if "stored_job d ?v k j" "job_space j = sp" for k j
  proof (rule ccontr)
    assume "?v' k \<noteq> ?v k"
    then obtain x where x: "stored_job d ?v k x" "job_id x = i" using keys [of k] by blast
    have "x = j" using stored_same_key [OF x(1) that(1)] .
    then show False using away x that(2) unfolding away_def by blast
  qed
  have "away d ?v' sp i'" if a: "away d ?v sp i'" for i'
    unfolding away_def
  proof (intro allI impI notI)
    fix k x assume x: "stored_job d ?v' k x" "job_id x = i'" "job_space x = sp"
    obtain n where n: "plain_job x" "job_name x n" "k = docs_key d [sp, n]"
      using touch(2) x by (auto simp: history_ids_iff)
    show False
    proof (cases "?v' k = ?v k")
      case True
      then have "stored_job d ?v k x" using x(1) by (simp add: stored_job_def doc_at_def)
      then show False using a x by (auto simp: away_def)
    next
      case False
      then obtain j where j: "stored_job d ?v k j" using keys [of k] by blast
      then obtain n' where "plain_job j" "job_name j n'" "k = docs_key d [job_space j, n']"
        using inv by (auto simp: lock_inv_def history_ids_iff)
      then have "job_space j = sp" using n(3) docs_key_inject [of "[job_space j, n']" "[sp, n]" d] by simp
      then show False using False job_same [OF j] by simp
    qed
  qed
  moreover have "leases_ok ld ?v'"
    using inv lease_same unfolding lock_inv_def leases_ok_def doc_at_def by metis
  ultimately show ?thesis
    using touch job_same lease_same [OF lease_key_prefix] run unfolding lock_inv_def kept_def by blast
qed

lemma finish_all_kept:
  assumes "lock_inv d ld (view (js_backend (lk_jobs l))) l"
    "\<And>j. j \<in> set js \<Longrightarrow> away d (view (js_backend (lk_jobs l))) sp (job_id j)"
    "finish_all d now js n l = (r, l')"
  shows "lock_inv d ld (view (js_backend (lk_jobs l'))) l' \<and> lk_local l' = lk_local l \<and>
    kept d ld sp (view (js_backend (lk_jobs l))) (view (js_backend (lk_jobs l')))"
  using assms
proof (induction js arbitrary: n l)
  case Nil
  then show ?case by (simp add: kept_refl)
next
  case (Cons j js)
  show ?case
  proof (cases "terminal (job_state j)")
    case True
    then show ?thesis using Cons by simp
  next
    case False
    obtain q l1 where f: "on_jobs (job_finish d (job_id j) interrupted now) l = (q, l1)" by fastforce
    have step: "lock_inv d ld (view (js_backend (lk_jobs l1))) l1" "lk_local l1 = lk_local l"
      "kept d ld sp (view (js_backend (lk_jobs l))) (view (js_backend (lk_jobs l1)))"
      using finish_kept [OF Cons.prems(1) Cons.prems(2) f] by auto
    show ?thesis
    proof (cases q)
      case (Inl e)
      then show ?thesis using Cons.prems(3) False f step by auto
    next
      case (Inr u)
      have "away d (view (js_backend (lk_jobs l1))) sp (job_id j')" if "j' \<in> set js" for j'
        using kept_away [OF step(3)] Cons.prems(2) [of j'] that by simp
      then show ?thesis
        using Cons.IH [OF step(1)] Cons.prems(3) False f Inr step kept_trans by fastforce
    qed
  qed
qed

lemma stored_away:
  assumes "history_ids d v" "stored_job d v k j" "job_space j \<noteq> sp"
  shows "away d v sp (job_id j)"
proof -
  have "job_space j' = job_space j" if "stored_job d v k' j'" "job_id j' = job_id j" for k' j'
  proof -
    have "k' = k" using assms(1,2) that unfolding history_ids_iff by metis
    then show ?thesis using stored_same_key [OF that(1)] assms(2) by simp
  qed
  then show ?thesis using assms(3) by (auto simp: away_def)
qed

lemma fail_abandoned_kept:
  assumes inv: "lock_inv d ld (view (js_backend (lk_jobs l))) l" and sp: "sp0 \<noteq> []" "sp0 \<noteq> sp"
    and f: "fail_abandoned (Some d) sp0 now l = (r, l')"
  shows "lock_inv d ld (view (js_backend (lk_jobs l'))) l' \<and> lk_local l' = lk_local l \<and>
    kept d ld sp (view (js_backend (lk_jobs l))) (view (js_backend (lk_jobs l')))"
proof -
  obtain q l1 where g: "on_jobs (job_list d sp0) l = (q, l1)" by fastforce
  note run = on_jobs_run [OF g]
  have frame: "index_named (lk_jobs l1)" "view (js_backend (lk_jobs l1)) = view (js_backend (lk_jobs l))"
    "case q of Inl e \<Rightarrow> True | Inr js \<Rightarrow> \<forall>j\<in>set js. job_space j = sp0 \<and>
       (\<exists>k. stored_job d (view (js_backend (lk_jobs l))) k j)"
    using job_list_frame [of "lk_jobs l" sp0 q "lk_jobs l1"] run inv sp(1) by (auto simp: lock_inv_def)
  have inv1: "lock_inv d ld (view (js_backend (lk_jobs l1))) l1"
    using inv frame(1,2) by (simp add: lock_inv_def)
  show ?thesis
  proof (cases q)
    case (Inl e)
    then show ?thesis using f g inv1 run frame(2) by (auto simp: fail_abandoned_def kept_refl)
  next
    case (Inr js)
    have "away d (view (js_backend (lk_jobs l1))) sp (job_id j)" if "j \<in> set js" for j
      using stored_away [of "view (js_backend (lk_jobs l))" _ j sp] inv frame(2,3) Inr that sp(2)
      by (auto simp: lock_inv_def)
    then show ?thesis
      using finish_all_kept [OF inv1, of js sp now 0 r l'] f g Inr run frame(2)
      by (auto simp: fail_abandoned_def)
  qed
qed

lemma spared_kept:
  "spared ld now v l sp \<Longrightarrow> kept d ld sp v v' \<Longrightarrow> lk_local l' = lk_local l \<Longrightarrow> spared ld now v' l' sp"
  using kept_lease [of d ld sp v v'] by (auto simp: spared_def doc_at_def)

lemma lease_delete_kept:
  assumes inv: "lock_inv d ld (view (js_backend (lk_jobs l))) l" and key: "has_segment_prefix key lease_prefix"
    "key \<noteq> docs_key ld [sp]" and del: "on_jobs (on_docs (docs_delete_key ld key)) l = (r, l')"
  shows "lock_inv d ld (view (js_backend (lk_jobs l'))) l' \<and> lk_local l' = lk_local l \<and>
    kept d ld sp (view (js_backend (lk_jobs l))) (view (js_backend (lk_jobs l')))"
proof -
  let ?v = "view (js_backend (lk_jobs l))" and ?v' = "view (js_backend (lk_jobs l'))"
  note run = on_lease_run [OF del]
  have others: "?v' k = ?v k" if "k \<noteq> key" for k
    using leases.docs_delete_key_others [OF run(1) that] .
  have self: "?v' key = ?v key \<or> ?v' key = None"
    using run(1) by (cases r) (auto simp: docs_delete_key_def leases.store_of dest: delete_ok delete_fails)
  have stored: "stored_job d ?v' k j \<longleftrightarrow> stored_job d ?v k j" for k j
    using others [of k] key(1) prefixes_differ [of k] by (cases "k = key") (auto simp: stored_job_def doc_at_def)
  have "history_ids d ?v'"
    using inv by (simp add: lock_inv_def history_ids_iff stored)
  moreover have "leases_ok ld ?v'"
    unfolding leases_ok_def
  proof (intro allI impI)
    fix k rec assume k: "has_segment_prefix k lease_prefix" "doc_at ld ?v' k = Some rec"
    then have "doc_at ld ?v k = Some rec"
      using others [of k] self by (cases "k = key") (auto simp: doc_at_def)
    then show "lease_space rec \<noteq> [] \<and> k = docs_key ld [lease_space rec]"
      using inv k(1) by (auto simp: lock_inv_def leases_ok_def)
  qed
  moreover have "?v' k = ?v k" if "stored_job d ?v k j" for k j
    using others [of k] that key(1) prefixes_differ [of k] by (cases "k = key") (auto simp: stored_job_def)
  moreover have "?v' (docs_key ld [sp]) = ?v (docs_key ld [sp])"
    using others key(2) by simp
  moreover have "away d ?v' sp i \<longleftrightarrow> away d ?v sp i" for i
    by (simp add: away_def stored)
  ultimately show ?thesis
    using run(2,4) inv unfolding lock_inv_def kept_def by blast
qed

lemma recover_leases_kept:
  assumes "lock_inv d ld (view (js_backend (lk_jobs l))) l" "st0 = Some d \<or> st0 = None"
    "\<And>k. k \<in> set keys \<Longrightarrow> has_segment_prefix k lease_prefix"
    "spared ld now (view (js_backend (lk_jobs l))) l sp"
    "recover_leases ld st0 now keys n l = (r, l')"
  shows "lock_inv d ld (view (js_backend (lk_jobs l'))) l' \<and> lk_local l' = lk_local l \<and>
    kept d ld sp (view (js_backend (lk_jobs l))) (view (js_backend (lk_jobs l')))"
  using assms
proof (induction keys arbitrary: n l)
  case Nil
  then show ?case by (simp add: kept_refl)
next
  case (Cons key keys)
  let ?v = "view (js_backend (lk_jobs l))"
  obtain q l1 where g: "on_jobs (on_docs (docs_get_key ld key)) l = (q, l1)" by fastforce
  note run = on_lease_run [OF g]
  have v1: "view (js_backend (lk_jobs l1)) = ?v" using leases.docs_get_key_view [OF run(1)] .
  have inv1: "lock_inv d ld (view (js_backend (lk_jobs l1))) l1"
    using Cons.prems(1) run(4) v1 by (simp add: lock_inv_def)
  have sp1: "spared ld now (view (js_backend (lk_jobs l1))) l1 sp"
    using Cons.prems(4) v1 run(2) by (simp add: spared_def)
  have keys: "has_segment_prefix k lease_prefix" if "k \<in> set keys" for k using Cons.prems(3) that by simp
  consider (skip) "recover_leases ld st0 now keys n l1 = (r, l')"
    | (close) rec where "q = Inr rec" "lease_expires rec \<le> now" "lk_local l1 (lease_space rec) = None"
    using Cons.prems(5) g by (cases q) (auto simp: holds_locally_def split: if_splits)
  then show ?case
  proof cases
    case skip
    then show ?thesis using Cons.IH [OF inv1 Cons.prems(2) keys sp1] v1 run(2) by simp
  next
    case close
    have doc: "doc_at ld ?v key = Some rec"
      using leases.docs_get_key_ok [of key "js_backend (lk_jobs l)"] run(1) close(1) by auto
    then have space: "lease_space rec \<noteq> []" "key = docs_key ld [lease_space rec]"
      using Cons.prems(1,3) by (auto simp: lock_inv_def leases_ok_def)
    have other: "lease_space rec \<noteq> sp"
      using Cons.prems(4) close(2,3) doc space(2) run(2) by (auto simp: spared_def)
    obtain a l2 where f: "fail_abandoned st0 (lease_space rec) now l1 = (a, l2)" by fastforce
    have step: "lock_inv d ld (view (js_backend (lk_jobs l2))) l2" "lk_local l2 = lk_local l1"
      "kept d ld sp ?v (view (js_backend (lk_jobs l2)))"
      using fail_abandoned_kept [OF inv1 space(1) other, of now a l2] f Cons.prems(2) v1 inv1
      by (auto simp: fail_abandoned_def kept_refl)
    show ?thesis
    proof (cases a)
      case (Inl e)
      then show ?thesis using Cons.prems(5) g close f step run(2) by (auto simp: holds_locally_def split: prod.splits)
    next
      case (Inr failed)
      obtain u l3 where del: "on_jobs (on_docs (docs_delete_key ld key)) l2 = (u, l3)" by fastforce
      have "key \<noteq> docs_key ld [sp]" using space(2) other by (simp add: docs_key_inject)
      then have step3: "lock_inv d ld (view (js_backend (lk_jobs l3))) l3" "lk_local l3 = lk_local l"
        "kept d ld sp ?v (view (js_backend (lk_jobs l3)))"
        using lease_delete_kept [OF step(1) Cons.prems(3) _ del, of sp] step(2) run(2)
          kept_trans [OF step(3), of "view (js_backend (lk_jobs l3))"] by auto
      have sp3: "spared ld now (view (js_backend (lk_jobs l3))) l3 sp"
        using spared_kept [OF Cons.prems(4) step3(3,2)] .
      have "(\<exists>e. (r, l') = (Inl e, l3)) \<or> recover_leases ld st0 now keys (n + failed) l3 = (r, l')"
        using Cons.prems(5) g close f Inr del by (auto simp: holds_locally_def split: sum.splits if_splits)
      then show ?thesis
        using Cons.IH [OF step3(1) Cons.prems(2) keys sp3] step3 kept_trans by fastforce
    qed
  qed
qed

lemma close_orphans_kept:
  assumes "lock_inv d ld (view (js_backend (lk_jobs l))) l"
    "\<And>j. j \<in> set js \<Longrightarrow> job_space j \<noteq> sp \<longrightarrow> away d (view (js_backend (lk_jobs l))) sp (job_id j)"
    "spared ld now (view (js_backend (lk_jobs l))) l sp"
    "close_orphans ld d now js n l = (r, l')"
  shows "lock_inv d ld (view (js_backend (lk_jobs l'))) l' \<and> lk_local l' = lk_local l \<and>
    kept d ld sp (view (js_backend (lk_jobs l))) (view (js_backend (lk_jobs l')))"
  using assms
proof (induction js arbitrary: n l)
  case Nil
  then show ?case by (simp add: kept_refl)
next
  case (Cons j js)
  let ?v = "view (js_backend (lk_jobs l))"
  show ?case
  proof (cases "holds_locally l (job_space j)")
    case True
    then show ?thesis using Cons by simp
  next
    case False
    obtain q l1 where g: "lease_live ld (job_space j) now l = (q, l1)" by fastforce
    obtain a l0 where get: "on_jobs (on_docs (docs_get ld [job_space j])) l = (a, l0)" by fastforce
    note run = on_lease_run [OF get]
    have l1: "l1 = l0" using g get by (cases a) (auto simp: lease_live_def split: if_splits)
    have get': "docs_get_key ld (docs_key ld [job_space j]) (js_backend (lk_jobs l)) = (a, js_backend (lk_jobs l1))"
      using run(1) l1 by (simp add: docs_get_def)
    have v1: "view (js_backend (lk_jobs l1)) = ?v" using leases.docs_get_key_view [OF get'] .
    have inv1: "lock_inv d ld (view (js_backend (lk_jobs l1))) l1"
      using Cons.prems(1) run(4) v1 l1 by (simp add: lock_inv_def)
    have sp1: "spared ld now (view (js_backend (lk_jobs l1))) l1 sp"
      using Cons.prems(3) v1 run(2) l1 by (simp add: spared_def)
    have loc: "lk_local l1 = lk_local l" using run(2) l1 by simp
    have js: "job_space j' \<noteq> sp \<longrightarrow> away d (view (js_backend (lk_jobs l1))) sp (job_id j')" if "j' \<in> set js" for j'
      using Cons.prems(2) [of j'] that v1 by simp
    have dead: "\<not> spared ld now ?v l (job_space j)" if "q = Inr False"
      using that False g get leases.docs_get_key_ok [of "docs_key ld [job_space j]" "js_backend (lk_jobs l)"]
        leases.docs_get_key_missing [of "docs_key ld [job_space j]" "js_backend (lk_jobs l)"] get'
      by (cases a) (auto simp: lease_live_def spared_def holds_locally_def doc_at_def split: if_splits)
    consider (err) e where "q = Inl e" | (live) "q = Inr True" | (gone) "q = Inr False"
      by (cases q) auto
    then show ?thesis
    proof cases
      case err
      then show ?thesis using Cons.prems(4) False g inv1 loc v1 by (auto simp: kept_refl)
    next
      case live
      then show ?thesis using Cons.IH [OF inv1 js sp1] Cons.prems(4) False g loc v1 by simp
    next
      case gone
      have "job_space j \<noteq> sp" using dead [OF gone] Cons.prems(3) by auto
      then have aw: "away d (view (js_backend (lk_jobs l1))) sp (job_id j)" using Cons.prems(2) [of j] v1 by simp
      obtain u l2 where f: "on_jobs (job_finish d (job_id j) interrupted now) l1 = (u, l2)" by fastforce
      have step: "lock_inv d ld (view (js_backend (lk_jobs l2))) l2" "lk_local l2 = lk_local l1"
        "kept d ld sp (view (js_backend (lk_jobs l1))) (view (js_backend (lk_jobs l2)))"
        using finish_kept [OF inv1 aw f] by auto
      have js2: "job_space j' \<noteq> sp \<longrightarrow> away d (view (js_backend (lk_jobs l2))) sp (job_id j')" if "j' \<in> set js" for j'
        using js [OF that] kept_away [OF step(3)] by blast
      show ?thesis
      proof (cases u)
        case (Inl e)
        then show ?thesis using Cons.prems(4) False g gone f step loc v1 by auto
      next
        case (Inr x)
        have "close_orphans ld d now js (n + 1) l2 = (r, l')"
          using Cons.prems(4) False g gone f Inr by simp
        then show ?thesis
          using Cons.IH [OF step(1) js2 spared_kept [OF sp1 step(3,2)]] step loc v1 kept_trans by fastforce
      qed
    qed
  qed
qed

lemma recover_expired_kept:
  assumes inv: "lock_inv d ld (view (js_backend (lk_jobs l))) l" and st0: "st0 = Some d \<or> st0 = None"
    and sp: "spared ld now (view (js_backend (lk_jobs l))) l sp"
    and r: "recover_expired ld st0 now l = (r, l')"
  shows "lock_inv d ld (view (js_backend (lk_jobs l'))) l' \<and> lk_local l' = lk_local l \<and>
    kept d ld sp (view (js_backend (lk_jobs l))) (view (js_backend (lk_jobs l')))"
proof -
  obtain q l1 where g: "on_jobs (on_docs (docs_keys ld [])) l = (q, l1)" by fastforce
  note run = on_lease_run [OF g]
  have v1: "view (js_backend (lk_jobs l1)) = view (js_backend (lk_jobs l))"
    using leases.docs_keys_view [OF run(1)] .
  have inv1: "lock_inv d ld (view (js_backend (lk_jobs l1))) l1"
    using inv run(4) v1 by (simp add: lock_inv_def)
  have sp1: "spared ld now (view (js_backend (lk_jobs l1))) l1 sp"
    using sp v1 run(2) by (simp add: spared_def)
  show ?thesis
  proof (cases q)
    case (Inl e)
    then show ?thesis using r g inv1 run(2) v1 by (auto simp: recover_expired_def kept_refl)
  next
    case (Inr keys)
    have "has_segment_prefix k lease_prefix" if "k \<in> set keys" for k
      using list_set [of lease_prefix] run(1) Inr that
      by (auto simp: docs_keys_def leases.store_of lease_docs_prefix)
    then show ?thesis
      using recover_leases_kept [OF inv1 st0 _ sp1, of keys 0 r l'] r g Inr v1 run(2)
      by (auto simp: recover_expired_def)
  qed
qed

lemma recover_orphans_kept:
  assumes inv: "lock_inv d ld (view (js_backend (lk_jobs l))) l" and st0: "st0 = Some d \<or> st0 = None"
    and sp: "spared ld now (view (js_backend (lk_jobs l))) l sp"
    and r: "recover_orphans ld opts st0 now l = (r, l')"
  shows "lock_inv d ld (view (js_backend (lk_jobs l'))) l' \<and> lk_local l' = lk_local l \<and>
    kept d ld sp (view (js_backend (lk_jobs l))) (view (js_backend (lk_jobs l')))"
proof (cases "st0 = None \<or> \<not> fst (orphan_sweep_due opts now l)")
  case True
  then show ?thesis
    using r inv st0 by (auto simp: recover_orphans_def orphan_sweep_due_def kept_refl lock_inv_def split: if_splits)
next
  case False
  define l0 where "l0 = l\<lparr>lk_last_orphan := now\<rparr>"
  have due: "orphan_sweep_due opts now l = (True, l0)"
    using False by (auto simp: orphan_sweep_due_def l0_def split: if_splits)
  obtain q l1 where g: "on_jobs (list_running d) l0 = (q, l1)" by fastforce
  note run = on_jobs_run [OF g]
  have frame: "index_named (lk_jobs l1)" "view (js_backend (lk_jobs l1)) = view (js_backend (lk_jobs l))"
    "case q of Inl e \<Rightarrow> True | Inr js \<Rightarrow> \<forall>j\<in>set js. \<exists>k. stored_job d (view (js_backend (lk_jobs l))) k j"
    using list_running_frame [of "lk_jobs l" q "lk_jobs l1"] run inv by (simp_all add: lock_inv_def l0_def)
  have inv1: "lock_inv d ld (view (js_backend (lk_jobs l1))) l1"
    using inv frame(1,2) by (simp add: lock_inv_def)
  have loc: "lk_local l1 = lk_local l" using run by (simp add: l0_def)
  have sp1: "spared ld now (view (js_backend (lk_jobs l1))) l1 sp"
    using sp frame(2) loc by (simp add: spared_def)
  show ?thesis
  proof (cases q)
    case (Inl e)
    then show ?thesis
      using r st0 False due g inv1 loc frame(2) by (auto simp: recover_orphans_def kept_refl)
  next
    case (Inr js)
    have "job_space j \<noteq> sp \<longrightarrow> away d (view (js_backend (lk_jobs l1))) sp (job_id j)" if "j \<in> set js" for j
      using stored_away [of "view (js_backend (lk_jobs l))" _ j sp] inv frame(2,3) Inr that
      by (auto simp: lock_inv_def)
    then show ?thesis
      using close_orphans_kept [OF inv1 _ sp1, of js 0 r l'] r st0 False due g Inr loc frame(2)
      by (auto simp: recover_orphans_def)
  qed
qed

lemma lock_recover_kept:
  assumes inv: "lock_inv d ld (view (js_backend (lk_jobs l))) l" and st0: "st0 = Some d \<or> st0 = None"
    and sp: "spared ld now (view (js_backend (lk_jobs l))) l sp"
    and r: "lock_recover ld opts st0 now l = (r, l')"
  shows "lock_inv d ld (view (js_backend (lk_jobs l'))) l' \<and> lk_local l' = lk_local l \<and>
    kept d ld sp (view (js_backend (lk_jobs l))) (view (js_backend (lk_jobs l')))"
proof -
  obtain q l1 where e: "recover_expired ld st0 now l = (q, l1)" by fastforce
  note first = recover_expired_kept [OF inv st0 sp e]
  obtain u l2 where o: "recover_orphans ld opts st0 now l1 = (u, l2)" by fastforce
  have second: "lock_inv d ld (view (js_backend (lk_jobs l2))) l2 \<and> lk_local l2 = lk_local l1 \<and>
      kept d ld sp (view (js_backend (lk_jobs l1))) (view (js_backend (lk_jobs l2)))"
    using recover_orphans_kept [OF _ st0 _ o] first spared_kept [OF sp] by blast
  have "l' = l1 \<or> l' = l2"
    using r e o by (auto simp: lock_recover_def split: sum.splits prod.splits)
  then show ?thesis using first second kept_trans by metis
qed

text \<open>The count of active leases covers every live one, read or not.\<close>

lemma count_active_covers:
  assumes "count_active ld now keys n s = (r, s')"
  shows "n + length (filter (\<lambda>k. case doc_at ld (view s) k of None \<Rightarrow> False | Some rec \<Rightarrow> now < lease_expires rec) keys) \<le> r"
  using assms
proof (induction keys arbitrary: n s)
  case (Cons k ks)
  obtain q s1 where g: "docs_get_key ld k s = (q, s1)" by fastforce
  have v: "view s1 = view s" using leases.docs_get_key_view [OF g] .
  show ?case
    using Cons.prems Cons.IH [of "n + 1" s1] Cons.IH [of n s1] g v leases.docs_get_key_ok [of k s]
    by (cases q) (fastforce split: option.splits if_splits)+
qed simp

lemma active_leases_covers:
  assumes a: "active_leases ld now s = (Inr n, s')"
  shows "finite {k. has_segment_prefix k lease_prefix \<and>
      (\<exists>rec. doc_at ld (view s) k = Some rec \<and> now < lease_expires rec)} \<and>
    card {k. has_segment_prefix k lease_prefix \<and>
      (\<exists>rec. doc_at ld (view s) k = Some rec \<and> now < lease_expires rec)} \<le> n"
proof -
  obtain keys s1 m s2 where l: "docs_keys ld [] s = (Inr keys, s1)" "count_active ld now keys 0 s1 = (m, s2)" "n = m"
    using a by (auto simp: active_leases_def split: prod.splits sum.splits)
  let ?P = "\<lambda>k. case doc_at ld (view s) k of None \<Rightarrow> False | Some rec \<Rightarrow> now < lease_expires rec"
  have keys: "distinct keys" "set keys = {k \<in> dom (view s). has_segment_prefix k lease_prefix}"
    using list_ok [of lease_prefix s keys s1] l(1)
    by (auto simp: docs_keys_def leases.store_of lease_docs_prefix)
  have v: "view s1 = view s" using leases.docs_keys_view [OF l(1)] .
  have eq: "{k. has_segment_prefix k lease_prefix \<and>
      (\<exists>rec. doc_at ld (view s) k = Some rec \<and> now < lease_expires rec)} = set (filter ?P keys)"
    using keys(2) by (auto simp: doc_at_def bind_eq_Some_conv split: option.splits)
  have "length (filter ?P keys) \<le> n" using count_active_covers [OF l(2)] v l(3) by simp
  moreover have "card (set (filter ?P keys)) = length (filter ?P keys)"
    using keys(1) by (intro distinct_card) simp
  ultimately show ?thesis unfolding eq by simp
qed

end

subsection \<open>The service's lock\<close>

text \<open>The two kinds of documents side by side in one store.\<close>

datatype lock_doc = JobDoc job | LeaseDoc lease

fun dec_job_doc :: "lock_doc \<Rightarrow> job option" where
  "dec_job_doc (JobDoc j) = Some j"
| "dec_job_doc (LeaseDoc r) = None"

fun dec_lease_doc :: "lock_doc \<Rightarrow> lease option" where
  "dec_lease_doc (LeaseDoc r) = Some r"
| "dec_lease_doc (JobDoc j) = None"

definition lock_job_docs :: "(lock_doc backend, lock_doc, job) documents" where
  "lock_job_docs = new_job_docs backend_store (\<lambda>j. Some (JobDoc j)) dec_job_doc"

definition lock_lease_docs :: "(lock_doc backend, lock_doc, lease) documents" where
  "lock_lease_docs = new_lease_docs backend_store (\<lambda>r. Some (LeaseDoc r)) dec_lease_doc"

lemma new_lease_docs_simps [simp]:
  "d_store (new_lease_docs st enc dec) = st" "d_prefix (new_lease_docs st enc dec) = lease_prefix"
  "d_encode (new_lease_docs st enc dec) = enc" "d_decode (new_lease_docs st enc dec) = dec"
  by (simp_all add: new_lease_docs_def new_documents_def)

lemma service_locks:
  assumes "reversible jenc jdec" "reversible lenc ldec"
  shows "run_locks backend_store backend_view (new_job_docs backend_store jenc jdec)
    (new_lease_docs backend_store lenc ldec)"
  using reliable_job_docs.axioms(2) [OF service_jobs [OF assms(1)]]
    collection_new [OF backend.kv_store_axioms assms(2), of lease_prefix]
  by (simp add: run_locks_def run_locks_axioms_def new_lease_docs_def [symmetric])

lemma reversible_nothing: "reversible (\<lambda>_. None) (\<lambda>_. None)"
  by (simp add: reversible_def)

lemma lock_docs_reversible:
  "reversible (\<lambda>j. Some (JobDoc j)) dec_job_doc" "reversible (\<lambda>r. Some (LeaseDoc r)) dec_lease_doc"
  by (auto simp: reversible_def)

interpretation service_lock: run_locks backend_store backend_view lock_job_docs lock_lease_docs
  unfolding lock_job_docs_def lock_lease_docs_def by (rule service_locks [OF lock_docs_reversible])

text \<open>C11: acquiring a Space's run lock, whichever store operation fails, succeeds only if the Space
  was not reserved in this process and its lease, if any, had expired; it then leaves the
  reservation and a lease for the full term. A refused acquire leaves no reservation behind.\<close>

theorem acquire_excludes:
  assumes "reversible lenc ldec"
    and "lock_acquire (new_lease_docs backend_store lenc ldec) opts sp now l = (r, l')"
  shows "case r of
      Inl e \<Rightarrow> lk_local l' = lk_local l
    | Inr stop \<Rightarrow> sp \<noteq> [] \<and> lk_local l sp = None \<and> lk_local l' = (lk_local l)(sp \<mapsto> stop) \<and>
        (\<forall>rec. doc_at (new_lease_docs backend_store lenc ldec) (backend_view (js_backend (lk_jobs l)))
             (docs_key (new_lease_docs backend_store lenc ldec) [sp]) = Some rec \<longrightarrow> lease_expires rec \<le> now) \<and>
        doc_at (new_lease_docs backend_store lenc ldec) (backend_view (js_backend (lk_jobs l')))
             (docs_key (new_lease_docs backend_store lenc ldec) [sp]) =
          Some \<lparr>lease_space = sp, lease_owner = opt_owner opts, lease_acquired = now,
            lease_expires = now + opt_ttl opts\<rparr>"
  by (rule run_locks.lock_acquire_outcome [OF service_locks [OF reversible_nothing assms(1)] assms(2)])

definition sample_options :: lease_options where
  "sample_options = \<lparr>opt_ttl = 10, opt_sweep = hour, opt_owner = ''me''\<rparr>"

definition sample_locker :: "lock_doc backend locker" where
  "sample_locker = new_locker \<lparr>contents =
     [(''leases/s'', LeaseDoc \<lparr>lease_space = ''s'', lease_owner = ''o'', lease_acquired = 0, lease_expires = 5\<rparr>)],
     faults = []\<rparr> 0"

theorem acquire_excludes_witness:
  "\<exists>r l'. lock_acquire lock_lease_docs sample_options ''s'' 7 sample_locker = (r, l') \<and> r = Inr 0 \<and>
    lk_local l' = (lk_local sample_locker)(''s'' \<mapsto> 0)"
proof -
  obtain r l' where run: "lock_acquire lock_lease_docs sample_options ''s'' 7 sample_locker = (r, l')" by fastforce
  have "fst (lock_acquire lock_lease_docs sample_options ''s'' 7 sample_locker) = Inr 0" by code_simp
  then have "r = Inr 0" by (simp add: run)
  then show ?thesis
    using acquire_excludes [OF lock_docs_reversible(2) run [unfolded lock_lease_docs_def]] run
    by (simp add: lock_lease_docs_def)
qed

text \<open>C14: recovery leaves live runs alone. Whatever it closes out, and whichever store operation
  fails, a Space that is reserved in this process or whose lease has not expired keeps its lease
  and every one of its run records as they were.\<close>

theorem recover_spares_live_runs:
  assumes "reversible jenc jdec" "reversible lenc ldec"
    and "lock_inv (new_job_docs backend_store jenc jdec) (new_lease_docs backend_store lenc ldec)
      (backend_view (js_backend (lk_jobs l))) l"
    and "spared (new_lease_docs backend_store lenc ldec) now (backend_view (js_backend (lk_jobs l))) l sp"
    and "lock_recover (new_lease_docs backend_store lenc ldec) opts
      (Some (new_job_docs backend_store jenc jdec)) now l = (r, l')"
  shows "backend_view (js_backend (lk_jobs l')) (docs_key (new_lease_docs backend_store lenc ldec) [sp]) =
      backend_view (js_backend (lk_jobs l)) (docs_key (new_lease_docs backend_store lenc ldec) [sp]) \<and>
    (\<forall>k j. stored_job (new_job_docs backend_store jenc jdec) (backend_view (js_backend (lk_jobs l))) k j \<longrightarrow>
       job_space j = sp \<longrightarrow>
       backend_view (js_backend (lk_jobs l')) k = backend_view (js_backend (lk_jobs l)) k)"
  using run_locks.lock_recover_kept [OF service_locks [OF assms(1,2)] assms(3) disjI1 [OF refl] assms(4,5)]
  unfolding kept_def by blast

theorem recover_spares_live_runs_witness:
  "\<exists>r l'. lock_recover lock_lease_docs sample_options (Some lock_job_docs) 3 sample_locker = (r, l') \<and>
    backend_view (js_backend (lk_jobs l')) ''leases/s'' =
      backend_view (js_backend (lk_jobs sample_locker)) ''leases/s''"
proof -
  obtain r l' where run: "lock_recover lock_lease_docs sample_options (Some lock_job_docs) 3 sample_locker = (r, l')"
    by fastforce
  have key: "docs_key lock_lease_docs [''s''] = ''leases/s''" by code_simp
  have view: "backend_view (js_backend (lk_jobs sample_locker)) =
      [''leases/s'' \<mapsto> LeaseDoc \<lparr>lease_space = ''s'', lease_owner = ''o'', lease_acquired = 0, lease_expires = 5\<rparr>]"
    by (auto simp: sample_locker_def new_locker_def new_job_store_def backend_view_def)
  have inv: "lock_inv lock_job_docs lock_lease_docs (backend_view (js_backend (lk_jobs sample_locker))) sample_locker"
    unfolding lock_inv_def
  proof (intro conjI)
    show "index_named (lk_jobs sample_locker)"
      by (simp add: index_named_def sample_locker_def new_locker_def new_job_store_def)
    show "history_ids lock_job_docs (backend_view (js_backend (lk_jobs sample_locker)))"
      unfolding view by (auto simp: history_ids_iff stored_job_def doc_at_def lock_job_docs_def split: if_splits)
    show "leases_ok lock_lease_docs (backend_view (js_backend (lk_jobs sample_locker)))"
      unfolding view using key
      by (auto simp: leases_ok_def doc_at_def lock_lease_docs_def split: if_splits)
  qed
  have sp: "spared lock_lease_docs 3 (backend_view (js_backend (lk_jobs sample_locker))) sample_locker ''s''"
    unfolding view spared_def key by (simp add: doc_at_def lock_lease_docs_def)
  show ?thesis
    using recover_spares_live_runs [OF lock_docs_reversible, folded lock_job_docs_def lock_lease_docs_def, OF inv sp run]
      run key by auto
qed

text \<open>The count of active leases that guards key rotation never undercounts: every lease that has
  not expired is counted, and one that cannot be read is counted too.\<close>

lemma active_leases_never_undercounts:
  assumes "reversible lenc ldec"
    and "active_leases (new_lease_docs backend_store lenc ldec) now s = (Inr n, s')"
  shows "card {k. has_segment_prefix k lease_prefix \<and>
      (\<exists>rec. doc_at (new_lease_docs backend_store lenc ldec) (backend_view s) k = Some rec \<and>
         now < lease_expires rec)} \<le> n"
  using run_locks.active_leases_covers [OF service_locks [OF reversible_nothing assms(1)] assms(2)] by blast

text \<open>
  A run whose record was stored although the store's answer was lost. The store was asked for an
  unknown id before, so the index from ids to keys is already built and has no entry for it.
\<close>

definition lost_create :: "lock_doc backend locker" where
  "lost_create =
     snd (on_jobs (job_create lock_job_docs (sample_job\<lparr>job_id := []\<rparr>) 5 (Some ''a1''))
       (snd (on_jobs (job_get lock_job_docs ''ff'') (new_locker \<lparr>contents = [], faults = [Works, FailsAfter]\<rparr> 0))))"

text \<open>Such a run stops every orphan sweep. The sweep finds the record by listing keys, but closing
  it looks its key up in the index, which is not built again: the sweep fails with "not found",
  leaves the run recorded as running, and the next sweep fails the same way.\<close>

lemma lost_create_blocks_orphan_sweep:
  "fst (on_jobs (list_running lock_job_docs) lost_create) =
     Inr [sample_job\<lparr>created_at := 5, updated_at := 5\<rparr>] \<and>
   fst (lock_recover lock_lease_docs sample_options (Some lock_job_docs) (2 * hour) lost_create) =
     Inl (0, JobsWrapped ''jobs: close orphaned run'' (JobNotFound ''a1'')) \<and>
   fst (lock_recover lock_lease_docs sample_options (Some lock_job_docs) (4 * hour)
     (snd (lock_recover lock_lease_docs sample_options (Some lock_job_docs) (2 * hour) lost_create))) =
     Inl (0, JobsWrapped ''jobs: close orphaned run'' (JobNotFound ''a1''))"
proof (intro conjI)
  show "fst (on_jobs (list_running lock_job_docs) lost_create) =
     Inr [sample_job\<lparr>created_at := 5, updated_at := 5\<rparr>]"
    by code_simp
  show "fst (lock_recover lock_lease_docs sample_options (Some lock_job_docs) (2 * hour) lost_create) =
     Inl (0, JobsWrapped ''jobs: close orphaned run'' (JobNotFound ''a1''))"
    by code_simp
  show "fst (lock_recover lock_lease_docs sample_options (Some lock_job_docs) (4 * hour)
     (snd (lock_recover lock_lease_docs sample_options (Some lock_job_docs) (2 * hour) lost_create))) =
     Inl (0, JobsWrapped ''jobs: close orphaned run'' (JobNotFound ''a1''))"
    by code_simp
qed

end
