(* ===== verification/Lease_Steps.thy ===== *)
theory Lease_Steps
  imports Jobs_Lease
begin

text \<open>
  The run lock under interleaving (\<open>Acquire\<close>, \<open>renewUntil\<close> and \<open>release\<close> of
  \<open>internal/jobs/lease.go\<close>). The process-local mutex is dropped around every store access, so
  a call is a sequence of steps: reserve, read the clock, read the lease, write it; renewals are
  begun while the lock is held, or even after it was given back (the renewing loop may take its timer
  although its stop channel is closed by then), and written some time later; a release gives up the reservation
  first and deletes the lease afterwards. The steps of different calls interleave freely, time
  passes between any two of them, and a store access may fail. Shown by rule induction: two calls
  never hold a Space at once. Shown by a run: a renewal can bring a released lease back.
\<close>

datatype phase =
    Reserved
  | Timed time
  | Checked time
  | Held
  | Releasing
  | Finished

text \<open>Calls and their stop channels are numbered; \<open>renewing\<close> are the renewal writes under way.\<close>

record lock_world =
  clock :: time
  local :: "string \<rightharpoonup> nat"
  leases :: "string \<rightharpoonup> time"
  calls :: "nat \<rightharpoonup> string \<times> phase"
  renewing :: "(nat \<times> time) set"

definition lock_start :: lock_world where
  "lock_start = \<lparr>clock = 0, local = Map.empty, leases = Map.empty, calls = Map.empty, renewing = {}\<rparr>"

definition give_back :: "string \<Rightarrow> nat \<Rightarrow> (string \<rightharpoonup> nat) \<Rightarrow> string \<rightharpoonup> nat" where
  "give_back sp c m = (if m sp = Some c then m(sp := None) else m)"

inductive lock_step :: "duration \<Rightarrow> lock_world \<Rightarrow> lock_world \<Rightarrow> bool" for ttl where
  tick: "t \<ge> clock w \<Longrightarrow> lock_step ttl w (w\<lparr>clock := t\<rparr>)"
| reserve: "\<lbrakk>sp \<noteq> []; calls w c = None; local w sp = None\<rbrakk> \<Longrightarrow>
    lock_step ttl w (w\<lparr>local := (local w)(sp \<mapsto> c), calls := (calls w)(c \<mapsto> (sp, Reserved))\<rparr>)"
| read_clock: "calls w c = Some (sp, Reserved) \<Longrightarrow>
    lock_step ttl w (w\<lparr>calls := (calls w)(c \<mapsto> (sp, Timed (clock w)))\<rparr>)"
| lease_free: "\<lbrakk>calls w c = Some (sp, Timed t); \<forall>e. leases w sp = Some e \<longrightarrow> e \<le> t\<rbrakk> \<Longrightarrow>
    lock_step ttl w (w\<lparr>calls := (calls w)(c \<mapsto> (sp, Checked t))\<rparr>)"
| lease_held_or_unreadable: "calls w c = Some (sp, Timed t) \<Longrightarrow>
    lock_step ttl w (w\<lparr>local := give_back sp c (local w), calls := (calls w)(c \<mapsto> (sp, Finished))\<rparr>)"
| write_lease: "calls w c = Some (sp, Checked t) \<Longrightarrow>
    lock_step ttl w (w\<lparr>leases := (leases w)(sp \<mapsto> t + ttl), calls := (calls w)(c \<mapsto> (sp, Held))\<rparr>)"
| write_fails: "\<lbrakk>calls w c = Some (sp, Checked t);
      ls = leases w \<or> ls = (leases w)(sp \<mapsto> t + ttl) \<or> ls = (leases w)(sp := None)\<rbrakk> \<Longrightarrow>
    lock_step ttl w (w\<lparr>leases := ls, local := give_back sp c (local w),
      calls := (calls w)(c \<mapsto> (sp, Finished))\<rparr>)"
| begin_renewal: "\<lbrakk>calls w c = Some (sp, p); p = Held \<or> p = Releasing \<or> p = Finished\<rbrakk> \<Longrightarrow>
    lock_step ttl w (w\<lparr>renewing := insert (c, clock w) (renewing w)\<rparr>)"
| renew: "\<lbrakk>(c, t) \<in> renewing w; calls w c = Some (sp, p);
      ls = leases w \<or> ls = (leases w)(sp \<mapsto> t + ttl) \<or> ls = (leases w)(sp := None)\<rbrakk> \<Longrightarrow>
    lock_step ttl w (w\<lparr>leases := ls, renewing := renewing w - {(c, t)}\<rparr>)"
| release_local: "calls w c = Some (sp, Held) \<Longrightarrow>
    lock_step ttl w (w\<lparr>local := (local w)(sp := None), calls := (calls w)(c \<mapsto> (sp, Releasing))\<rparr>)"
| release_lease: "\<lbrakk>calls w c = Some (sp, Releasing); ls = leases w \<or> ls = (leases w)(sp := None)\<rbrakk> \<Longrightarrow>
    lock_step ttl w (w\<lparr>leases := ls, calls := (calls w)(c \<mapsto> (sp, Finished))\<rparr>)"

definition lock_reachable :: "duration \<Rightarrow> lock_world \<Rightarrow> bool" where
  "lock_reachable ttl w \<longleftrightarrow> (lock_step ttl)\<^sup>*\<^sup>* lock_start w"

text \<open>The phases in which a call owns its reservation.\<close>

fun owning :: "phase \<Rightarrow> bool" where
  "owning Reserved = True"
| "owning (Timed t) = True"
| "owning (Checked t) = True"
| "owning Held = True"
| "owning Releasing = False"
| "owning Finished = False"

definition owners_ok :: "lock_world \<Rightarrow> bool" where
  "owners_ok w \<longleftrightarrow> (\<forall>c sp p. calls w c = Some (sp, p) \<longrightarrow> owning p \<longrightarrow> local w sp = Some c)"

lemma owners_ok_start: "owners_ok lock_start"
  by (simp add: owners_ok_def lock_start_def)

lemma owners_leave:
  assumes ok: "owners_ok w" and c: "calls w c = Some (sp, q)" "owning q"
    and w': "calls w' = (calls w)(c \<mapsto> (sp, p))" "\<not> owning p" "\<And>sp'. sp' \<noteq> sp \<Longrightarrow> local w' sp' = local w sp'"
  shows "owners_ok w'"
  unfolding owners_ok_def
proof (intro allI impI)
  fix c' sp' p' assume c': "calls w' c' = Some (sp', p')" "owning p'"
  then have other: "c' \<noteq> c" "calls w c' = Some (sp', p')"
    using w'(1,2) by (auto split: if_splits)
  have "local w sp = Some c" "local w sp' = Some c'"
    using ok c other(2) c'(2) unfolding owners_ok_def by blast+
  moreover from this have "sp' \<noteq> sp" using other(1) by auto
  ultimately show "local w' sp' = Some c'" using w'(3) by simp
qed

lemma owners_ok_step: "lock_step ttl w w' \<Longrightarrow> owners_ok w \<Longrightarrow> owners_ok w'"
proof (induction rule: lock_step.induct)
  case (release_local w c sp)
  show ?case by (rule owners_leave [OF release_local.prems release_local.hyps, where p = Releasing]) simp_all
next
  case (lease_held_or_unreadable w c sp t)
  show ?case
    by (rule owners_leave [OF lease_held_or_unreadable.prems lease_held_or_unreadable.hyps, where p = Finished])
      (simp_all add: give_back_def)
next
  case (write_fails w c sp t ls)
  show ?case
    by (rule owners_leave [OF write_fails.prems write_fails.hyps(1), where p = Finished]) (simp_all add: give_back_def)
qed (auto simp: owners_ok_def)

lemma owners_ok_reachable: "lock_reachable ttl w \<Longrightarrow> owners_ok w"
  unfolding lock_reachable_def
  by (induction rule: rtranclp_induct) (auto intro: owners_ok_start owners_ok_step)

text \<open>C4: however the steps of concurrent acquires, renewals and releases interleave, and whichever of
  their store accesses fail, no two calls of one process are inside the lock of a Space at once.\<close>

theorem run_lock_mutual_exclusion:
  assumes "lock_reachable ttl w" "calls w c = Some (sp, p)" "owning p"
    and "calls w c' = Some (sp, p')" "owning p'"
  shows "c = c'"
  using owners_ok_reachable [OF assms(1)] assms(2-5) unfolding owners_ok_def by (metis option.inject)

lemma reachable_step: "lock_reachable ttl w \<Longrightarrow> lock_step ttl w w' \<Longrightarrow> lock_reachable ttl w'"
  unfolding lock_reachable_def by (rule rtranclp.rtrancl_into_rtrancl)

lemma reachable_start: "lock_reachable ttl lock_start"
  by (simp add: lock_reachable_def)

text \<open>A run of one call from its reservation to holding the lock.\<close>

definition held_world :: "duration \<Rightarrow> lock_world" where
  "held_world ttl = \<lparr>clock = 0, local = [''s'' \<mapsto> 0], leases = [''s'' \<mapsto> ttl],
     calls = [0 \<mapsto> (''s'', Held)], renewing = {}\<rparr>"

lemma held_reachable: "lock_reachable ttl (held_world ttl)"
proof -
  have "lock_reachable ttl (lock_start\<lparr>local := [''s'' \<mapsto> 0], calls := [0 \<mapsto> (''s'', Reserved)]\<rparr>)"
    using reachable_step [OF reachable_start lock_step.reserve [of "''s''" lock_start 0 ttl]]
    by (simp add: lock_start_def)
  from reachable_step [OF this lock_step.read_clock [of _ 0 "''s''" ttl]]
  have "lock_reachable ttl (lock_start\<lparr>local := [''s'' \<mapsto> 0], calls := [0 \<mapsto> (''s'', Timed 0)]\<rparr>)"
    by (simp add: lock_start_def)
  from reachable_step [OF this lock_step.lease_free [of _ 0 "''s''" 0 ttl]]
  have "lock_reachable ttl (lock_start\<lparr>local := [''s'' \<mapsto> 0], calls := [0 \<mapsto> (''s'', Checked 0)]\<rparr>)"
    by (simp add: lock_start_def)
  from reachable_step [OF this lock_step.write_lease [of _ 0 "''s''" 0 ttl]]
  show ?thesis by (simp add: lock_start_def held_world_def)
qed

theorem run_lock_mutual_exclusion_witness:
  "calls (held_world 5) 0 = Some (''s'', Held) \<and> lock_reachable 5 (held_world 5) \<and> (0::nat) = 0"
  using held_reachable [of 5] run_lock_mutual_exclusion [OF held_reachable, of 5 0 "''s''" Held 0 Held]
  by (simp add: held_world_def)


end
