(* ===== verification/Sched_Cron.thy ===== *)
theory Sched_Cron
  imports Go_Strings
begin

text \<open>
  Schedules (\<open>internal/scheduler/schedule.go\<close>): presets, their rendering as cron expressions and the
  recognition of those expressions. Parsing and firing of cron expressions is the library
  \<open>cronexpr\<close>: the parameter \<open>cron\<close> gives, for an expression it accepts, the first time it fires
  strictly after a given one in the scheduler's zone, or the zero time.
\<close>

type_synonym cron_library = "string \<Rightarrow> (time \<Rightarrow> time) option"

definition preset_daily :: string where "preset_daily = ''daily''"
definition preset_weekly :: string where "preset_weekly = ''weekly''"
definition preset_custom :: string where "preset_custom = ''custom''"

lemmas preset_kinds = preset_daily_def preset_weekly_def preset_custom_def

record preset =
  pre_kind :: string
  pre_hour :: int
  pre_minute :: int
  pre_weekday :: int

datatype schedule_error =
    BadHour
  | BadMinute
  | BadWeekday
  | UnknownPreset
  | EmptySchedule
  | InvalidSchedule

text \<open>\<open>%d\<close> of a non-negative number.\<close>

definition show_nat :: "int \<Rightarrow> string" where
  "show_nat n = dec_digits (nat n)"

definition preset_cron :: "preset \<Rightarrow> schedule_error + string" where
  "preset_cron p =
     (if pre_hour p < 0 \<or> pre_hour p > 23 then Inl BadHour
      else if pre_minute p < 0 \<or> pre_minute p > 59 then Inl BadMinute
      else if pre_kind p = preset_daily
      then Inr (show_nat (pre_minute p) @ '' '' @ show_nat (pre_hour p) @ '' * * *'')
      else if pre_kind p = preset_weekly
      then if pre_weekday p < 0 \<or> pre_weekday p > 6 then Inl BadWeekday
           else Inr (show_nat (pre_minute p) @ '' '' @ show_nat (pre_hour p) @ '' * * '' @ show_nat (pre_weekday p))
      else Inl UnknownPreset)"

text \<open>\<open>strings.Fields\<close> over the ASCII white space.\<close>

definition is_space :: "char \<Rightarrow> bool" where
  "is_space c \<longleftrightarrow> c = CHR '' '' \<or> (9 \<le> (of_char c :: nat) \<and> (of_char c :: nat) \<le> 13)"

fun fields_from :: "string \<Rightarrow> string \<Rightarrow> string list" where
  "fields_from cur [] = (if cur = [] then [] else [cur])"
| "fields_from cur (c # cs) =
     (if is_space c then (if cur = [] then fields_from [] cs else cur # fields_from [] cs)
      else fields_from (cur @ [c]) cs)"

definition go_fields :: "string \<Rightarrow> string list" where
  "go_fields s = fields_from [] s"

definition numeric_field :: "string \<Rightarrow> int \<Rightarrow> int \<Rightarrow> int option" where
  "numeric_field field lo hi =
     (case parse_int64 field of
        None \<Rightarrow> None
      | Some v \<Rightarrow> if v < lo \<or> v > hi then None else Some v)"

definition custom_preset :: preset where
  "custom_preset = \<lparr>pre_kind = preset_custom, pre_hour = 0, pre_minute = 0, pre_weekday = 0\<rparr>"

definition preset_of :: "string \<Rightarrow> preset" where
  "preset_of expr =
     (case go_fields expr of
        [f0, f1, f2, f3, f4] \<Rightarrow>
          (case (numeric_field f0 0 59, numeric_field f1 0 23) of
             (Some mi, Some h) \<Rightarrow>
               if f2 \<noteq> ''*'' \<or> f3 \<noteq> ''*'' then custom_preset
               else if f4 = ''*''
               then \<lparr>pre_kind = preset_daily, pre_hour = h, pre_minute = mi, pre_weekday = 0\<rparr>
               else (case numeric_field f4 0 6 of
                       Some weekday \<Rightarrow>
                         \<lparr>pre_kind = preset_weekly, pre_hour = h, pre_minute = mi, pre_weekday = weekday\<rparr>
                     | None \<Rightarrow> custom_preset)
           | _ \<Rightarrow> custom_preset)
      | _ \<Rightarrow> custom_preset)"

definition validate_cron :: "cron_library \<Rightarrow> string \<Rightarrow> schedule_error option" where
  "validate_cron cron expr =
     (if list_all is_space expr then Some EmptySchedule
      else if cron expr = None then Some InvalidSchedule
      else None)"

definition next_after :: "cron_library \<Rightarrow> string \<Rightarrow> time \<Rightarrow> schedule_error + time" where
  "next_after cron expr t =
     (case cron expr of None \<Rightarrow> Inl InvalidSchedule | Some next \<Rightarrow> Inr (next t))"

subsection \<open>Presets round trip\<close>

lemma fields_from_word:
  "\<forall>c\<in>set w. \<not> is_space c \<Longrightarrow> cur @ w \<noteq> [] \<Longrightarrow> fields_from cur (w @ CHR '' '' # s) = (cur @ w) # fields_from [] s"
  by (induction w arbitrary: cur) (auto simp: is_space_def)

lemma fields_from_last:
  "\<forall>c\<in>set w. \<not> is_space c \<Longrightarrow> cur @ w \<noteq> [] \<Longrightarrow> fields_from cur w = [cur @ w]"
  by (induction w arbitrary: cur) auto

lemma of_char_digit: "k < 10 \<Longrightarrow> (of_char (digit_char k) :: nat) = 48 + k"
  by (simp add: digit_char_def of_char_of)

lemma show_nat_word: "c \<in> set (show_nat n) \<Longrightarrow> \<not> is_space c"
proof -
  assume "c \<in> set (show_nat n)"
  then obtain k where "k < 10" "c = digit_char k"
    using dec_digits_chars by (auto simp: show_nat_def)
  moreover have "(of_char (CHR '' '') :: nat) = 32" by simp
  ultimately show ?thesis using of_char_digit [of k] by (auto simp: is_space_def simp del: of_char_Char)
qed

lemma show_nat_not_nil [simp]: "show_nat n \<noteq> []"
  by (simp add: show_nat_def dec_digits_nonempty)

lemma numeric_show_nat:
  assumes "lo \<le> n" "n \<le> hi" "0 \<le> n" "n \<le> max_int64"
  shows "numeric_field (show_nat n) lo hi = Some n"
proof -
  have "show_nat n = pad_zero 0 (dec_digits (nat n))" by (simp add: show_nat_def pad_zero_def)
  then have "parse_int64 (show_nat n) = Some n" using assms(3,4) by (simp add: parse_int64_pad)
  then show ?thesis using assms by (simp add: numeric_field_def)
qed

lemma fields_cron:
  "\<forall>c\<in>set d. \<not> is_space c \<Longrightarrow> d \<noteq> [] \<Longrightarrow>
    go_fields (show_nat m @ '' '' @ show_nat h @ '' * * '' @ d) = [show_nat m, show_nat h, ''*'', ''*'', d]"
  using fields_from_word [of "show_nat m" "[]" "show_nat h @ '' * * '' @ d"]
    fields_from_word [of "show_nat h" "[]" "''* * '' @ d"] fields_from_last [of d "[]"] show_nat_word
  by (auto simp: go_fields_def is_space_def)

lemma show_nat_not_star: "show_nat n \<noteq> ''*''"
proof
  assume s: "show_nat n = ''*''"
  then obtain k where "k < 10" "CHR ''*'' = digit_char k"
    using dec_digits_chars [of "CHR ''*''" "nat n"] by (auto simp: show_nat_def)
  moreover have "(of_char (CHR ''*'') :: nat) = 42" by simp
  ultimately show False using of_char_digit [of k] by simp
qed

text \<open>A schedule set through a preset reads back as that preset: recognising the cron expression
  a valid preset renders to gives the same kind, time of day and, for a weekly one, weekday.\<close>

lemma preset_roundtrip:
  assumes "preset_cron p = Inr expr"
  shows "preset_of expr = p\<lparr>pre_weekday := (if pre_kind p = preset_weekly then pre_weekday p else 0)\<rparr>"
proof -
  have range: "0 \<le> pre_hour p" "pre_hour p \<le> 23" "0 \<le> pre_minute p" "pre_minute p \<le> 59"
    using assms by (auto simp: preset_cron_def split: if_splits)
  then have num: "numeric_field (show_nat (pre_minute p)) 0 59 = Some (pre_minute p)"
    "numeric_field (show_nat (pre_hour p)) 0 23 = Some (pre_hour p)"
    by (auto intro!: numeric_show_nat simp: max_int64_def)
  consider (daily) "pre_kind p = preset_daily"
      "expr = show_nat (pre_minute p) @ '' '' @ show_nat (pre_hour p) @ '' * * '' @ ''*''"
    | (weekly) "pre_kind p = preset_weekly" "0 \<le> pre_weekday p" "pre_weekday p \<le> 6"
      "expr = show_nat (pre_minute p) @ '' '' @ show_nat (pre_hour p) @ '' * * '' @ show_nat (pre_weekday p)"
    using assms by (auto simp: preset_cron_def split: if_splits)
  then show ?thesis
  proof cases
    case daily
    then show ?thesis
      using num fields_cron [of "''*''" "pre_minute p" "pre_hour p"]
      by (simp add: preset_of_def is_space_def preset_kinds)
  next
    case weekly
    have "numeric_field (show_nat (pre_weekday p)) 0 6 = Some (pre_weekday p)"
      using weekly by (auto intro!: numeric_show_nat simp: max_int64_def)
    then show ?thesis
      using weekly num fields_cron [of "show_nat (pre_weekday p)" "pre_minute p" "pre_hour p"] show_nat_word
      by (simp add: preset_of_def show_nat_not_star)
  qed
qed

end
