(* ===== verification/Space_Cfg.thy ===== *)
theory Space_Cfg
  imports State_Versions
begin

text \<open>
  The per-Space backup configuration (\<open>internal/spacecfg\<close>): the record, its effective window and
  schedule, the append-only durable store and the in-memory one. The lemmas show what a read
  after a write or a delete can answer, whatever the store below does.
\<close>

definition default_retention_window :: duration where "default_retention_window = 90 * 24 * hour"

definition min_retention_window :: duration where "min_retention_window = 7 * 24 * hour"

definition default_schedule :: string where "default_schedule = ''30 2 * * *''"

record space_config =
  cfg_space :: string
  cfg_target :: string
  cfg_window :: duration
  cfg_schedule :: string
  cfg_enabled :: bool
  cfg_created :: time
  cfg_updated :: time

datatype cfg_error =
    NoSpaceConfig string
  | CfgSpaceRequired
  | CfgTargetRequired
  | CfgNegativeWindow
  | CfgState string state_error
  | CfgDelete bool state_error

definition effective_window :: "space_config \<Rightarrow> duration" where
  "effective_window c =
     (if cfg_window c \<le> 0 then default_retention_window else max (cfg_window c) min_retention_window)"

definition effective_schedule :: "space_config \<Rightarrow> string" where
  "effective_schedule c = (if cfg_schedule c = [] then default_schedule else cfg_schedule c)"

definition cfg_validate :: "space_config \<Rightarrow> cfg_error option" where
  "cfg_validate c =
     (if cfg_space c = [] then Some CfgSpaceRequired
      else if cfg_target c = [] then Some CfgTargetRequired
      else if cfg_window c < 0 then Some CfgNegativeWindow
      else None)"

definition config_prefix :: string where "config_prefix = ''spaceconfigs''"

definition legacy_config_prefix :: string where "legacy_config_prefix = ''spacecfg''"

text \<open>The durable store is its versioned collection; the clock is read once per write.\<close>

definition new_cfg_store ::
    "('s, 'v) store \<Rightarrow> (space_config \<Rightarrow> 'v option) \<Rightarrow> ('v \<Rightarrow> space_config option) \<Rightarrow> ('s, 'v, space_config) versions" where
  "new_cfg_store st enc dec = with_legacy (new_versions st config_prefix enc dec) legacy_config_prefix"

definition cfg_get :: "('s, 'v, space_config) versions \<Rightarrow> string \<Rightarrow> ('s, cfg_error, space_config) op" where
  "cfg_get v sp s =
     (case versions_newest v [sp] s of
        (Inr c, s) \<Rightarrow> (Inr c, s)
      | (Inl e, s) \<Rightarrow>
          if is_not_found e then (Inl (NoSpaceConfig sp), s)
          else (Inl (CfgState ''spacecfg: read configuration'' e), s))"

definition cfg_put :: "('s, 'v, space_config) versions \<Rightarrow> space_config \<Rightarrow> time \<Rightarrow> ('s, cfg_error, space_config) op" where
  "cfg_put v c now s =
     (case cfg_validate c of
        Some e \<Rightarrow> (Inl e, s)
      | None \<Rightarrow>
          let c = c\<lparr>cfg_updated := now, cfg_created := now\<rparr>;
              store = (\<lambda>c s. case versions_append v now c [cfg_space c] s of
                  (Inl e, s) \<Rightarrow> (Inl (CfgState ''spacecfg: store configuration'' e), s)
                | (Inr u, s) \<Rightarrow> (Inr c, s))
          in (case versions_newest v [cfg_space c] s of
                (Inr existing, s) \<Rightarrow> store (c\<lparr>cfg_created := cfg_created existing\<rparr>) s
              | (Inl e, s) \<Rightarrow>
                  if is_not_found e then store c s
                  else (Inl (CfgState ''spacecfg: read configuration'' e), s)))"

definition cfg_delete :: "('s, 'v, space_config) versions \<Rightarrow> string \<Rightarrow> ('s, cfg_error, unit) op" where
  "cfg_delete v sp s =
     (case versions_delete_all v [sp] s of
        (Inl (b, e), s) \<Rightarrow> (Inl (CfgState ''spacecfg: delete configuration'' e), s)
      | (Inr removed, s) \<Rightarrow> if removed then (Inr (), s) else (Inl (NoSpaceConfig sp), s))"

definition cfg_list ::
    "('s, 'v, space_config) versions \<Rightarrow> ('s, cfg_error, space_config list \<times> string list) op" where
  "cfg_list v s =
     (case versions_latest v s of
        (Inl e, s) \<Rightarrow> (Inl (CfgState ''spacecfg: list configurations'' e), s)
      | (Inr (out, unreadable), s) \<Rightarrow> (Inr (sort_key cfg_space out, unreadable), s))"

subsection \<open>The in-memory store\<close>

type_synonym cfg_memory = "(string \<times> space_config) list"

definition cfg_mem_get :: "string \<Rightarrow> (cfg_memory, cfg_error, space_config) op" where
  "cfg_mem_get sp m =
     (case map_of m sp of None \<Rightarrow> (Inl (NoSpaceConfig sp), m) | Some c \<Rightarrow> (Inr c, m))"

definition cfg_mem_put :: "space_config \<Rightarrow> time \<Rightarrow> (cfg_memory, cfg_error, space_config) op" where
  "cfg_mem_put c now m =
     (case cfg_validate c of
        Some e \<Rightarrow> (Inl e, m)
      | None \<Rightarrow>
          let c = c\<lparr>cfg_updated := now\<rparr>;
              c = (case map_of m (cfg_space c) of
                     Some existing \<Rightarrow> c\<lparr>cfg_created := cfg_created existing\<rparr>
                   | None \<Rightarrow> c\<lparr>cfg_created := now\<rparr>)
          in (Inr c, AList.update (cfg_space c) c m))"

definition cfg_mem_delete :: "string \<Rightarrow> (cfg_memory, cfg_error, unit) op" where
  "cfg_mem_delete sp m =
     (if map_of m sp = None then (Inl (NoSpaceConfig sp), m) else (Inr (), AList.delete sp m))"

definition cfg_mem_list :: "(cfg_memory, cfg_error, space_config list \<times> string list) op" where
  "cfg_mem_list m = (Inr (sort_key cfg_space (map snd m), []), m)"

subsection \<open>The contract both stores keep\<close>

text \<open>
  \<open>may_hold s sp c\<close> says the store could answer \<open>c\<close> for a Space: a read returns nothing else, a
  write or a delete that succeeds decides what it is from then on.
\<close>

locale config_store =
  fixes get :: "string \<Rightarrow> ('s, cfg_error, space_config) op"
    and put :: "space_config \<Rightarrow> time \<Rightarrow> ('s, cfg_error, space_config) op"
    and delete :: "string \<Rightarrow> ('s, cfg_error, unit) op"
    and room :: "'s \<Rightarrow> string \<Rightarrow> bool"
    and may_hold :: "'s \<Rightarrow> string \<Rightarrow> space_config \<Rightarrow> bool"
  assumes get_ok: "get sp s = (Inr c, s') \<Longrightarrow> may_hold s sp c"
    and get_frame: "get sp s = (r, s') \<Longrightarrow> may_hold s' sp' c = may_hold s sp' c"
    and put_valid: "put c now s = (Inr c', s') \<Longrightarrow> cfg_validate c = None"
    and put_fields: "put c now s = (Inr c', s') \<Longrightarrow>
      c' = c\<lparr>cfg_updated := now, cfg_created := cfg_created c'\<rparr> \<and>
      (cfg_created c' = now \<or> (\<exists>old. may_hold s (cfg_space c) old \<and> cfg_created c' = cfg_created old))"
    and put_holds: "put c now s = (Inr c', s') \<Longrightarrow> 0 \<le> now \<Longrightarrow> now \<le> max_int64 \<Longrightarrow> room s (cfg_space c) \<Longrightarrow>
      may_hold s' (cfg_space c) x \<Longrightarrow> x = c'"
    and put_found: "put c now s = (Inr c', s') \<Longrightarrow> 0 \<le> now \<Longrightarrow> now \<le> max_int64 \<Longrightarrow> room s (cfg_space c) \<Longrightarrow>
      get (cfg_space c) s' \<noteq> (Inl (NoSpaceConfig (cfg_space c)), s'')"
    and delete_ok: "delete sp s = (Inr u, s') \<Longrightarrow> \<not> may_hold s' sp c"
begin

lemma get_after_put:
  assumes "put c now s = (Inr c', s1)" "0 \<le> now" "now \<le> max_int64" "room s (cfg_space c)"
    "get (cfg_space c) s1 = (r, s2)"
  shows "r = Inr c' \<or> (\<exists>e. r = Inl e \<and> e \<noteq> NoSpaceConfig (cfg_space c))"
proof (cases r)
  case (Inr x)
  then show ?thesis using get_ok [of "cfg_space c" s1 x s2] put_holds [OF assms(1-4)] assms(5) by simp
next
  case (Inl e)
  then show ?thesis using put_found [OF assms(1-4), of s2] assms(5) by auto
qed

lemma get_after_delete:
  "delete sp s = (Inr u, s1) \<Longrightarrow> get sp s1 = (r, s2) \<Longrightarrow> \<exists>e. r = Inl e"
  by (cases r) (auto dest: get_ok delete_ok)

end

interpretation mem_cfg: config_store cfg_mem_get cfg_mem_put cfg_mem_delete "\<lambda>m sp. True" "\<lambda>m sp c. map_of m sp = Some c"
  by unfold_locales
    (auto simp: cfg_mem_get_def cfg_mem_put_def cfg_mem_delete_def Let_def map_of_alist_update map_of_alist_delete
      split: option.splits if_splits)

subsection \<open>The durable store keeps it too\<close>

definition cfg_room :: "('s, 'v, space_config) versions \<Rightarrow> (string \<rightharpoonup> 'v) \<Rightarrow> string \<Rightarrow> bool" where
  "cfg_room v m sp \<longleftrightarrow> stamps_below m (docs_key (v_docs v) [sp]) max_int64"

lemma new_cfg_store_versioned:
  "kv_store st view \<Longrightarrow> reversible enc dec \<Longrightarrow> versioned st view (new_cfg_store st enc dec)"
  unfolding new_cfg_store_def by (rule versioned_new(2))

lemma cfg_put_run:
  assumes "cfg_put v c now s = (Inr c', s')"
  obtains q s1 where "cfg_validate c = None" "versions_newest v [cfg_space c] s = (q, s1)"
    "(\<exists>old. q = Inr old \<and> c' = c\<lparr>cfg_updated := now, cfg_created := cfg_created old\<rparr>) \<or>
     ((\<exists>e. q = Inl e) \<and> c' = c\<lparr>cfg_updated := now, cfg_created := now\<rparr>)"
    "versions_append v now c' [cfg_space c] s1 = (Inr (), s')"
proof -
  obtain q s1 where n: "versions_newest v [cfg_space c] s = (q, s1)" by fastforce
  show thesis
    using assms n that [of q s1]
    by (cases q) (auto simp: cfg_put_def Let_def split: option.splits if_splits prod.splits sum.splits)
qed

lemma service_cfg_store:
  assumes "reversible enc dec"
  shows "config_store (cfg_get (new_cfg_store backend_store enc dec)) (cfg_put (new_cfg_store backend_store enc dec))
    (cfg_delete (new_cfg_store backend_store enc dec))
    (\<lambda>s. cfg_room (new_cfg_store backend_store enc dec) (backend_view s))
    (\<lambda>s sp c. versions_hold (new_cfg_store backend_store enc dec) (backend_view s) [sp] c)"
proof -
  let ?v = "new_cfg_store backend_store enc dec"
  note ver = new_cfg_store_versioned [OF backend.kv_store_axioms assms]
  have read: "backend_view s' = backend_view s \<and> (\<forall>c. q = Inr c \<longrightarrow> versions_hold ?v (backend_view s) [sp] c)"
    if "versions_newest ?v [sp] s = (q, s')" for sp s q s'
  proof -
    obtain r s1 where l: "versions_load ?v [sp] s = (r, s1)" by fastforce
    then have "s1 = s'" "q = map_sum id fst r"
      using that by (cases r; auto simp: versions_newest_def split: prod.splits)+
    then show ?thesis
      using versioned.versions_load_view [OF ver l] versioned.versions_load_holds [OF ver] l
      by (cases r) auto
  qed
  show ?thesis
  proof (unfold_locales, goal_cases)
    case (1 sp s c s')
    then show ?case
      using read [of sp s] by (auto simp: cfg_get_def split: prod.splits sum.splits if_splits)
  next
    case (2 sp s r s' sp' c)
    then have "backend_view s' = backend_view s"
      using read [of sp s] by (auto simp: cfg_get_def split: prod.splits sum.splits if_splits)
    then show ?case by simp
  next
    case (3 c now s c' s')
    then show ?case by (rule cfg_put_run)
  next
    case (4 c now s c' s')
    obtain q s1 where p: "versions_newest ?v [cfg_space c] s = (q, s1)"
      "(\<exists>old. q = Inr old \<and> c' = c\<lparr>cfg_updated := now, cfg_created := cfg_created old\<rparr>) \<or>
       ((\<exists>e. q = Inl e) \<and> c' = c\<lparr>cfg_updated := now, cfg_created := now\<rparr>)"
      using cfg_put_run [OF 4] by metis
    then show ?case using read [OF p(1)] by auto
  next
    case (5 c now s c' s' x)
    obtain q s1 where p: "cfg_validate c = None" "versions_newest ?v [cfg_space c] s = (q, s1)"
      "versions_append ?v now c' [cfg_space c] s1 = (Inr (), s')"
      using cfg_put_run [OF 5(1)] by metis
    have "cfg_space c \<noteq> []" using p(1) by (auto simp: cfg_validate_def split: if_splits)
    then show ?case
      using versioned.versions_append_holds [OF ver p(3) _ _ 5(2,3), of x] read [OF p(2)] 5(4,5)
      by (simp add: cfg_room_def)
  next
    case (6 c now s c' s' s'')
    obtain q s1 where p: "cfg_validate c = None" "versions_newest ?v [cfg_space c] s = (q, s1)"
      "versions_append ?v now c' [cfg_space c] s1 = (Inr (), s')"
      using cfg_put_run [OF 6(1)] by metis
    have sp: "cfg_space c \<noteq> []" using p(1) by (auto simp: cfg_validate_def split: if_splits)
    obtain r s2 where l: "versions_load ?v [cfg_space c] s' = (r, s2)" by fastforce
    have "case r of Inr (y, sp) \<Rightarrow> y = c' | Inl e \<Rightarrow> \<not> is_not_found e \<and> \<not> is_malformed e"
      using versioned.versions_append_load [OF ver p(3) _ _ 6(2,3) _ l] sp read [OF p(2)] 6(4)
      by (simp add: cfg_room_def)
    then show ?case
      using l by (cases r) (auto simp: cfg_get_def versions_newest_def)
  next
    case (7 sp s u s' c)
    then obtain removed where "versions_delete_all ?v [sp] s = (Inr removed, s')"
      by (auto simp: cfg_delete_def split: prod.splits sum.splits if_splits)
    then show ?case by (rule versioned.versions_delete_holds [OF ver])
  qed
qed

interpretation durable_cfg: config_store "cfg_get (new_cfg_store backend_store Some Some)"
    "cfg_put (new_cfg_store backend_store Some Some)" "cfg_delete (new_cfg_store backend_store Some Some)"
    "\<lambda>s. cfg_room (new_cfg_store backend_store Some Some) (backend_view s)"
    "\<lambda>s sp c. versions_hold (new_cfg_store backend_store Some Some) (backend_view s) [sp] c"
  by (rule service_cfg_store [OF reversible_Some])

text \<open>A Space's configuration is never kept with a retention window below the floor: whatever a
  stored record says, the window pruning applies is at least seven days, it is the stored one when
  that is long enough, and a record that names no window gets the ninety-day default.\<close>

lemma retention_floor:
  "min_retention_window \<le> effective_window c \<and>
   (effective_window c = cfg_window c \<or> effective_window c = min_retention_window \<or>
    effective_window c = default_retention_window) \<and>
   (effective_window c = cfg_window c) =
     (min_retention_window \<le> cfg_window c)"
  by (auto simp: effective_window_def min_retention_window_def default_retention_window_def duration_defs)

text \<open>A configuration write that reports success is what the next read answers (or the read fails
  for a reason of the transport, never with "no configuration"), whichever store operations
  failed on the way; the stored record is the one given, stamped with the time, and keeps the
  creation time of the record it replaces.\<close>

lemma config_put_then_get:
  assumes "reversible enc dec" "0 \<le> now" "now \<le> max_int64"
    and "cfg_room (new_cfg_store backend_store enc dec) (backend_view s) (cfg_space c)"
    and "cfg_put (new_cfg_store backend_store enc dec) c now s = (Inr c', s1)"
    and "cfg_get (new_cfg_store backend_store enc dec) (cfg_space c) s1 = (r, s2)"
  shows "(r = Inr c' \<or> (\<exists>e. r = Inl e \<and> e \<noteq> NoSpaceConfig (cfg_space c))) \<and>
    c' = c\<lparr>cfg_updated := now, cfg_created := cfg_created c'\<rparr> \<and>
    (cfg_created c' = now \<or>
     (\<exists>old. versions_hold (new_cfg_store backend_store enc dec) (backend_view s) [cfg_space c] old \<and>
        cfg_created c' = cfg_created old))"
  using config_store.get_after_put [OF service_cfg_store [OF assms(1)] assms(5,2,3,4,6)]
    config_store.put_fields [OF service_cfg_store [OF assms(1)] assms(5)] by blast

definition sample_config :: space_config where
  "sample_config = \<lparr>cfg_space = ''s'', cfg_target = ''t'', cfg_window = 0, cfg_schedule = [], cfg_enabled = True,
     cfg_created = 0, cfg_updated = 0\<rparr>"

text \<open>After a delete of a Space's configuration that reports success, in whichever layout it was
  stored and however many versions it had, no read answers a configuration for it any more.\<close>

lemma config_delete_is_final:
  assumes "reversible enc dec"
    and "cfg_delete (new_cfg_store backend_store enc dec) sp s = (Inr u, s1)"
    and "cfg_get (new_cfg_store backend_store enc dec) sp s1 = (r, s2)"
  shows "\<exists>e. r = Inl e"
  by (rule config_store.get_after_delete [OF service_cfg_store [OF assms(1)] assms(2,3)])

end
