(* ===== verification/Jobs_Outcome.thy ===== *)
theory Jobs_Outcome
  imports Jobs_Lease
begin

text \<open>
  Recording a run's terminal outcome (\<open>internal/jobs/outcome.go\<close>) and the budget shutdown derives
  from it (\<open>internal/jobs/background.go\<close>). Each attempt is one \<open>Finish\<close> of the job store under its
  own deadline; between two attempts the caller sleeps. The model threads any store state through
  the attempts and counts the time slept.
\<close>

definition default_outcome_attempts :: int where "default_outcome_attempts = 3"

definition default_outcome_timeout :: duration where "default_outcome_timeout = 10 * second"

definition default_outcome_backoff :: duration where "default_outcome_backoff = 2 * second"

definition outcome_worst_case :: duration where
  "outcome_worst_case = default_outcome_attempts * default_outcome_timeout +
     (default_outcome_attempts - 1) * default_outcome_backoff"

record record_options =
  ro_attempts :: int
  ro_timeout :: duration
  ro_backoff :: duration

definition resolve_options :: "record_options \<Rightarrow> record_options" where
  "resolve_options opts =
     \<lparr>ro_attempts = (if ro_attempts opts \<le> 0 then default_outcome_attempts else ro_attempts opts),
      ro_timeout = (if ro_timeout opts \<le> 0 then default_outcome_timeout else ro_timeout opts),
      ro_backoff = (if ro_backoff opts < 0 then 0
        else if ro_backoff opts = 0 then default_outcome_backoff else ro_backoff opts)\<rparr>"

fun permanent :: "jobs_error \<Rightarrow> bool" where
  "permanent ErrNotTerminal = True"
| "permanent (JobNotFound i) = True"
| "permanent (JobsWrapped m e) = permanent e"
| "permanent _ = False"

text \<open>
  The loop, from attempt \<open>k\<close> with the last error seen. \<open>finish\<close> is one attempt, given its deadline;
  the result says how long the loop slept.
\<close>

function record_from ::
    "(duration \<Rightarrow> ('m, jobs_error, unit) op) \<Rightarrow> record_options \<Rightarrow> int \<Rightarrow> jobs_error option \<Rightarrow> duration \<Rightarrow> 'm \<Rightarrow>
     (jobs_error option + unit) \<times> duration \<times> 'm" where
  "record_from finish opts k err slept m =
     (if k > ro_attempts opts then (Inl err, slept, m)
      else let slept = (if k > 1 then slept + ro_backoff opts else slept)
        in (case finish (ro_timeout opts) m of
              (Inr u, m) \<Rightarrow> (Inr (), slept, m)
            | (Inl e, m) \<Rightarrow>
                if permanent e then (Inl (Some e), slept, m)
                else record_from finish opts (k + 1) (Some (JobsWrapped ''jobs: record outcome'' e)) slept m))"
  by pat_completeness auto
termination
  by (relation "measure (\<lambda>(finish, opts, k, err, slept, m). nat (ro_attempts opts + 1 - k))") auto

declare record_from.simps [simp del]

definition record_outcome ::
    "(duration \<Rightarrow> ('m, jobs_error, unit) op) \<Rightarrow> record_options \<Rightarrow> 'm \<Rightarrow>
     (jobs_error option + unit) \<times> duration \<times> 'm" where
  "record_outcome finish opts m = record_from finish (resolve_options opts) 1 None 0 m"

text \<open>A series of attempts: their results in order, from a state to a state.\<close>

inductive attempted ::
    "(duration \<Rightarrow> ('m, jobs_error, unit) op) \<Rightarrow> duration \<Rightarrow> (jobs_error + unit) list \<Rightarrow> 'm \<Rightarrow> 'm \<Rightarrow> bool"
  for finish timeout where
  none: "attempted finish timeout [] m m"
| more: "finish timeout m = (r, m1) \<Longrightarrow> attempted finish timeout rs m1 m2 \<Longrightarrow>
    attempted finish timeout (r # rs) m m2"

text \<open>What the loop decides from the results: every attempt but the last failed in a way worth
  retrying, and the last one is the verdict.\<close>

definition verdict :: "int \<Rightarrow> (jobs_error + unit) list \<Rightarrow> (jobs_error option + unit) \<Rightarrow> bool" where
  "verdict attempts rs r \<longleftrightarrow> rs \<noteq> [] \<and> int (length rs) \<le> attempts \<and>
     (\<forall>q\<in>set (butlast rs). \<exists>e. q = Inl e \<and> \<not> permanent e) \<and>
     (case last rs of
        Inr u \<Rightarrow> r = Inr ()
      | Inl e \<Rightarrow> if permanent e then r = Inl (Some e)
          else int (length rs) = attempts \<and> r = Inl (Some (JobsWrapped ''jobs: record outcome'' e)))"

lemma record_from_verdict:
  assumes "record_from finish opts k err slept m = (r, spent, m')" "1 \<le> k" "k \<le> ro_attempts opts"
  shows "\<exists>rs. attempted finish (ro_timeout opts) rs m m' \<and> verdict (ro_attempts opts + 1 - k) rs r \<and>
    spent = slept + (if k = 1 then int (length rs) - 1 else int (length rs)) * ro_backoff opts"
  using assms
proof (induction finish opts k err slept m rule: record_from.induct)
  case (1 finish opts k err slept m)
  let ?s = "if k > 1 then slept + ro_backoff opts else slept"
  obtain q m1 where f: "finish (ro_timeout opts) m = (q, m1)" by fastforce
  have one: "attempted finish (ro_timeout opts) [q] m m1"
    by (rule attempted.more [where finish = finish, OF f attempted.none])
  have run: "(r, spent, m') = (case q of Inr u \<Rightarrow> (Inr (), ?s, m1)
      | Inl e \<Rightarrow> if permanent e then (Inl (Some e), ?s, m1)
          else record_from finish opts (k + 1) (Some (JobsWrapped ''jobs: record outcome'' e)) ?s m1)"
    using 1(2,4) f by (simp add: record_from.simps [of finish opts k] Let_def split: sum.splits)
  show ?case
  proof (cases "\<exists>e. q = Inl e \<and> \<not> permanent e")
    case False
    then have "verdict (ro_attempts opts + 1 - k) [q] r" "spent = ?s" "m' = m1"
      using run 1(4) by (auto simp: verdict_def split: sum.splits)
    then show ?thesis using one 1(3) by (intro exI [of _ "[q]"]) auto
  next
    case True
    then obtain e where e: "q = Inl e" "\<not> permanent e" by blast
    then have rest: "record_from finish opts (k + 1) (Some (JobsWrapped ''jobs: record outcome'' e)) ?s m1 = (r, spent, m')"
      using run by simp
    show ?thesis
    proof (cases "k = ro_attempts opts")
      case True
      then have "r = Inl (Some (JobsWrapped ''jobs: record outcome'' e))" "spent = ?s" "m' = m1"
        using rest by (simp_all add: record_from.simps)
      then show ?thesis
        using one e True 1(3) by (intro exI [of _ "[q]"]) (auto simp: verdict_def)
    next
      case False
      then have "k + 1 \<le> ro_attempts opts" using 1(4) by simp
      then obtain rs where rs: "attempted finish (ro_timeout opts) rs m1 m'"
        "verdict (ro_attempts opts + 1 - (k + 1)) rs r" "spent = ?s + int (length rs) * ro_backoff opts"
        using 1(1) [OF _ refl f [symmetric] e(1) e(2) rest] 1(3,4) by auto
      then have "verdict (ro_attempts opts + 1 - k) (q # rs) r"
        using e by (auto simp: verdict_def split: sum.splits if_splits)
      then show ?thesis
        using attempted.more [where finish = finish, OF f rs(1)] rs(3) 1(3)
        by (intro exI [of _ "q # rs"]) (auto simp: algebra_simps)
    qed
  qed
qed

text \<open>Recording an outcome tries at least once and at most the configured number of times, retries
  only errors a retry can fix, gives up at once on the others, succeeds exactly when an attempt
  does, and sleeps the backoff between attempts. With the default options it takes no longer
  than the budget shutdown allows for.\<close>

lemma record_outcome_attempts:
  assumes "record_outcome finish opts m = (r, spent, m')"
  shows "\<exists>rs. attempted finish (ro_timeout (resolve_options opts)) rs m m' \<and>
    verdict (ro_attempts (resolve_options opts)) rs r \<and>
    spent = (int (length rs) - 1) * ro_backoff (resolve_options opts) \<and>
    (opts = \<lparr>ro_attempts = 0, ro_timeout = 0, ro_backoff = 0\<rparr> \<longrightarrow>
       int (length rs) * ro_timeout (resolve_options opts) + spent \<le> outcome_worst_case)"
proof -
  have "1 \<le> ro_attempts (resolve_options opts)"
    by (simp add: resolve_options_def default_outcome_attempts_def)
  with record_from_verdict [OF assms [unfolded record_outcome_def]] obtain rs where
    "attempted finish (ro_timeout (resolve_options opts)) rs m m'"
    "verdict (ro_attempts (resolve_options opts)) rs r"
    "spent = (int (length rs) - 1) * ro_backoff (resolve_options opts)"
    by auto
  moreover from this(2) have "int (length rs) \<le> ro_attempts (resolve_options opts)"
    by (simp add: verdict_def)
  ultimately show ?thesis
    by (intro exI [of _ rs])
      (auto simp: resolve_options_def outcome_worst_case_def default_outcome_attempts_def
        default_outcome_timeout_def default_outcome_backoff_def duration_defs)
qed

definition flaky_finish :: "duration \<Rightarrow> (nat, jobs_error, unit) op" where
  "flaky_finish timeout n = (if n < 2 then (Inl (JobsState ''down'' BackendError), n + 1) else (Inr (), n))"

end
