(* ===== verification/Sched_Core.thy ===== *)
theory Sched_Core
  imports Sched_Cron Space_Cfg Jobs_Outcome "HOL-Library.Word"
begin

text \<open>
  The scheduler (\<open>internal/scheduler/scheduler.go\<close>): what a tick does, when a Space is due, and the
  slots runs are started in. Its collaborators are operations on a world of any type, given in a
  record as in \<open>Deps\<close>; an absent optional one is \<open>None\<close>. Runs are goroutines: a dispatch only adds
  the Space to those in flight, and the run's end is a step of its own. Log lines are left out.
\<close>

unbundle bit_operations_syntax

definition default_interval :: duration where "default_interval = minute"
definition default_max_concurrent :: int where "default_max_concurrent = 2"
definition default_jitter :: duration where "default_jitter = 5 * minute"
definition default_history_interval :: duration where "default_history_interval = hour"
definition default_prune_interval :: duration where "default_prune_interval = 24 * hour"
definition prune_jitter_fraction :: int where "prune_jitter_fraction = 8"
definition default_sweep_interval :: duration where "default_sweep_interval = 15 * minute"
definition history_lookback :: int where "history_lookback = 10"

lemmas sched_defaults_defs = default_interval_def default_max_concurrent_def default_jitter_def
  default_history_interval_def default_prune_interval_def default_sweep_interval_def

record sched_options =
  so_interval :: duration
  so_max :: int
  so_jitter :: duration
  so_history_window :: duration
  so_history_interval :: duration
  so_prune_interval :: duration
  so_sweep_interval :: duration
  so_location :: string

text \<open>\<open>New\<close> fills in what was not set; the location, when nil, is UTC.\<close>

definition sched_resolve :: "sched_options \<Rightarrow> sched_options" where
  "sched_resolve o1 =
     \<lparr>so_interval = (if so_interval o1 \<le> 0 then default_interval else so_interval o1),
      so_max = (if so_max o1 \<le> 0 then default_max_concurrent else so_max o1),
      so_jitter = (if so_jitter o1 = 0 then default_jitter else if so_jitter o1 < 0 then 0 else so_jitter o1),
      so_history_window = (if so_history_window o1 \<le> 0 then default_history_window else so_history_window o1),
      so_history_interval = (if so_history_interval o1 \<le> 0 then default_history_interval else so_history_interval o1),
      so_prune_interval = (if so_prune_interval o1 \<le> 0 then default_prune_interval else so_prune_interval o1),
      so_sweep_interval = (if so_sweep_interval o1 \<le> 0 then default_sweep_interval else so_sweep_interval o1),
      so_location = (if so_location o1 = [] then ''UTC'' else so_location o1)\<rparr>"

text \<open>The tuning an operator sets, in days and hours, and the options it becomes (\<open>env.go\<close>).\<close>

record sched_env =
  env_max :: int
  env_history_days :: int
  env_prune_hours :: int
  env_location :: string

definition sched_day :: duration where "sched_day = 24 * hour"

definition default_sched_env :: sched_env where
  "default_sched_env = \<lparr>env_max = default_max_concurrent, env_history_days = default_history_window div sched_day,
     env_prune_hours = default_prune_interval div hour, env_location = ''Local''\<rparr>"

definition sched_env_options :: "sched_env \<Rightarrow> sched_options" where
  "sched_env_options e =
     \<lparr>so_interval = 0, so_max = env_max e, so_jitter = 0,
      so_history_window = wrap_int64 (env_history_days e * sched_day), so_history_interval = 0,
      so_prune_interval = wrap_int64 (env_prune_hours e * hour), so_sweep_interval = 0,
      so_location = env_location e\<rparr>"

definition sched_timezone :: "sched_options \<Rightarrow> string" where
  "sched_timezone opts = (if so_location opts = ''Local'' then [] else so_location opts)"

datatype sched_error =
    SchedJobs string jobs_error
  | SchedConfigs string cfg_error
  | SchedSchedule schedule_error

record 'w sched_deps =
  dep_configs :: "('w, cfg_error, space_config list \<times> string list) op"
  dep_config :: "string \<Rightarrow> ('w, cfg_error, space_config) op"
  dep_recent :: "string \<Rightarrow> int \<Rightarrow> ('w, jobs_error, job list) op"
  dep_recent_of_kind :: "string \<Rightarrow> job_kind \<Rightarrow> int \<Rightarrow> ('w, jobs_error, job list) op"
  dep_trim_jobs :: "time \<Rightarrow> 'w \<Rightarrow> 'w"
  dep_run :: "string \<Rightarrow> 'w \<Rightarrow> string option \<times> 'w"
  dep_prune :: "(string \<Rightarrow> 'w \<Rightarrow> string option \<times> 'w) option"
  dep_recover :: "('w \<Rightarrow> 'w) option"
  dep_busy :: "(string \<Rightarrow> ('w, jobs_error, bool) op) option"
  dep_trim_events :: "(time \<Rightarrow> 'w \<Rightarrow> 'w) option"
  dep_finished :: "(string \<Rightarrow> string option \<Rightarrow> 'w \<Rightarrow> 'w) option"
  dep_sweep :: "(time \<Rightarrow> 'w \<Rightarrow> 'w) option"

record 'w sched =
  sc_world :: 'w
  sc_slots :: nat
  sc_inflight :: "(string \<times> job_kind) list"
  sc_last_history :: time
  sc_last_sweep :: time

definition new_sched :: "'w \<Rightarrow> 'w sched" where
  "new_sched w = \<lparr>sc_world = w, sc_slots = 0, sc_inflight = [], sc_last_history = zero_time, sc_last_sweep = zero_time\<rparr>"

definition in_world :: "('w, 'e, 'a) op \<Rightarrow> ('w sched, 'e, 'a) op" where
  "in_world f s = (case f (sc_world s) of (r, w) \<Rightarrow> (r, s\<lparr>sc_world := w\<rparr>))"

subsection \<open>When a Space is due\<close>

definition eligible :: "space_config \<Rightarrow> bool" where
  "eligible cfg \<longleftrightarrow> cfg_enabled cfg \<and> cfg_target cfg \<noteq> []"

text \<open>\<open>fnv.New64a\<close>: 64-bit words, multiplication wraps.\<close>

definition fnv64a :: "string \<Rightarrow> 64 word" where
  "fnv64a s = foldl (\<lambda>h c. (h XOR of_nat (of_char c)) * 1099511628211) 14695981039346656037 s"

definition jitter_for :: "string \<Rightarrow> duration \<Rightarrow> duration" where
  "jitter_for sp window =
     (if window \<le> 0 then 0 else sint (fnv64a sp mod (word_of_int window :: 64 word)))"

definition baseline :: "space_config \<Rightarrow> job option \<Rightarrow> time \<Rightarrow> time" where
  "baseline cfg last_backup now =
     (case last_backup of
        Some j \<Rightarrow> created_at j
      | None \<Rightarrow> if \<not> is_zero_time (cfg_updated cfg) then cfg_updated cfg else now)"

definition next_occurrence ::
    "cron_library \<Rightarrow> sched_options \<Rightarrow> space_config \<Rightarrow> time \<Rightarrow> schedule_error + time" where
  "next_occurrence cron opts cfg base =
     (case next_after cron (effective_schedule cfg) base of
        Inl e \<Rightarrow> Inl e
      | Inr next \<Rightarrow>
          if is_zero_time next then Inr zero_time
          else Inr (next + jitter_for (cfg_space cfg) (so_jitter opts)))"

definition backup_due ::
    "cron_library \<Rightarrow> sched_options \<Rightarrow> space_config \<Rightarrow> job option \<Rightarrow> time \<Rightarrow> schedule_error + bool" where
  "backup_due cron opts cfg last_backup now =
     (case next_occurrence cron opts cfg (baseline cfg last_backup now) of
        Inl e \<Rightarrow> Inl e
      | Inr next \<Rightarrow> if is_zero_time next then Inr False else Inr (\<not> now < next))"

definition last_run_of ::
    "'w sched_deps \<Rightarrow> string \<Rightarrow> job_kind \<Rightarrow> ('w sched, sched_error, job option) op" where
  "last_run_of deps sp kind s =
     (case in_world (dep_recent_of_kind deps sp kind 1) s of
        (Inl e, s) \<Rightarrow> (Inl (SchedJobs ''scheduler: read run history'' e), s)
      | (Inr history, s) \<Rightarrow> (Inr (case history of [] \<Rightarrow> None | j # js \<Rightarrow> Some j), s))"

definition prune_due ::
    "'w sched_deps \<Rightarrow> sched_options \<Rightarrow> space_config \<Rightarrow> job option \<Rightarrow> time \<Rightarrow> ('w sched, sched_error, bool) op" where
  "prune_due deps opts cfg last_backup now s =
     (if dep_prune deps = None then (Inr False, s)
      else (case last_backup of
              None \<Rightarrow> (Inr False, s)
            | Some b \<Rightarrow>
                if job_state b \<noteq> state_succeeded then (Inr False, s)
                else (case last_run_of deps (cfg_space cfg) kind_prune s of
                        (Inl e, s) \<Rightarrow> (Inl e, s)
                      | (Inr None, s) \<Rightarrow> (Inr True, s)
                      | (Inr (Some p), s) \<Rightarrow>
                          (Inr (\<not> now < created_at p + so_prune_interval opts
                             + jitter_for (cfg_space cfg) (so_prune_interval opts div prune_jitter_fraction)), s))))"

definition sched_busy :: "'w sched_deps \<Rightarrow> string \<Rightarrow> ('w sched, sched_error, bool) op" where
  "sched_busy deps sp s =
     (case dep_busy deps of
        Some busy \<Rightarrow>
          (case in_world (busy sp) s of
             (Inl e, s) \<Rightarrow> (Inl (SchedJobs ''scheduler: read run lock'' e), s)
           | (Inr b, s) \<Rightarrow> (Inr b, s))
      | None \<Rightarrow>
          (case in_world (dep_recent deps sp history_lookback) s of
             (Inl e, s) \<Rightarrow> (Inl (SchedJobs ''scheduler: read run history'' e), s)
           | (Inr history, s) \<Rightarrow> (Inr (list_ex (\<lambda>j. \<not> terminal (job_state j)) history), s)))"

subsection \<open>Dispatching\<close>

definition dispatch :: "sched_options \<Rightarrow> string \<Rightarrow> job_kind \<Rightarrow> 'w sched \<Rightarrow> bool \<times> 'w sched" where
  "dispatch opts sp kind s =
     (if sp \<in> set (map fst (sc_inflight s)) then (True, s)
      else if int (sc_slots s) \<ge> so_max opts then (False, s)
      else (True, s\<lparr>sc_slots := sc_slots s + 1, sc_inflight := sc_inflight s @ [(sp, kind)]\<rparr>))"

definition evaluate ::
    "cron_library \<Rightarrow> 'w sched_deps \<Rightarrow> sched_options \<Rightarrow> space_config \<Rightarrow> time \<Rightarrow> ('w sched, sched_error, unit) op" where
  "evaluate cron deps opts cfg now s =
     (case sched_busy deps (cfg_space cfg) s of
        (Inl e, s) \<Rightarrow> (Inl e, s)
      | (Inr True, s) \<Rightarrow> (Inr (), s)
      | (Inr False, s) \<Rightarrow>
          (case last_run_of deps (cfg_space cfg) kind_backup s of
             (Inl e, s) \<Rightarrow> (Inl e, s)
           | (Inr last_backup, s) \<Rightarrow>
               (case backup_due cron opts cfg last_backup now of
                  Inl e \<Rightarrow> (Inl (SchedSchedule e), s)
                | Inr True \<Rightarrow> (Inr (), snd (dispatch opts (cfg_space cfg) kind_backup s))
                | Inr False \<Rightarrow>
                    (case prune_due deps opts cfg last_backup now s of
                       (Inl e, s) \<Rightarrow> (Inl e, s)
                     | (Inr False, s) \<Rightarrow> (Inr (), s)
                     | (Inr True, s) \<Rightarrow> (Inr (), snd (dispatch opts (cfg_space cfg) kind_prune s))))))"

text \<open>What the goroutine does, and what its deferred calls undo.\<close>

definition execute :: "'w sched_deps \<Rightarrow> string \<Rightarrow> job_kind \<Rightarrow> 'w \<Rightarrow> 'w" where
  "execute deps sp kind w =
     (if kind = kind_prune
      then (case dep_prune deps of None \<Rightarrow> w | Some prune \<Rightarrow> snd (prune sp w))
      else (case dep_run deps sp w of
              (err, w) \<Rightarrow> (case dep_finished deps of None \<Rightarrow> w | Some hook \<Rightarrow> hook sp err w)))"

text \<open>The deferred function, in its two halves: the Space leaves the runs in flight under the mutex, then the slot is freed.\<close>

definition run_leaves :: "string \<Rightarrow> 'w sched \<Rightarrow> 'w sched" where
  "run_leaves sp s = s\<lparr>sc_inflight := filter (\<lambda>r. fst r \<noteq> sp) (sc_inflight s)\<rparr>"

definition slot_freed :: "'w sched \<Rightarrow> 'w sched" where
  "slot_freed s = s\<lparr>sc_slots := sc_slots s - 1\<rparr>"

subsection \<open>A tick\<close>

definition trim_history :: "'w sched_deps \<Rightarrow> sched_options \<Rightarrow> time \<Rightarrow> 'w sched \<Rightarrow> 'w sched" where
  "trim_history deps opts now s =
     (if \<not> is_zero_time (sc_last_history s) \<and> time_sub now (sc_last_history s) < so_history_interval opts then s
      else
        let cutoff = now - so_history_window opts;
            s = s\<lparr>sc_last_history := now, sc_world := dep_trim_jobs deps cutoff (sc_world s)\<rparr>
        in (case dep_trim_events deps of
              None \<Rightarrow> s
            | Some trim \<Rightarrow> s\<lparr>sc_world := trim cutoff (sc_world s)\<rparr>))"

definition sched_sweep :: "'w sched_deps \<Rightarrow> sched_options \<Rightarrow> time \<Rightarrow> 'w sched \<Rightarrow> 'w sched" where
  "sched_sweep deps opts now s =
     (case dep_sweep deps of
        None \<Rightarrow> s
      | Some hook \<Rightarrow>
          if \<not> is_zero_time (sc_last_sweep s) \<and> time_sub now (sc_last_sweep s) < so_sweep_interval opts then s
          else s\<lparr>sc_last_sweep := now, sc_world := hook now (sc_world s)\<rparr>)"

definition recover_abandoned :: "'w sched_deps \<Rightarrow> 'w sched \<Rightarrow> 'w sched" where
  "recover_abandoned deps s =
     (case dep_recover deps of None \<Rightarrow> s | Some recover \<Rightarrow> s\<lparr>sc_world := recover (sc_world s)\<rparr>)"

fun evaluate_all ::
    "cron_library \<Rightarrow> 'w sched_deps \<Rightarrow> sched_options \<Rightarrow> time \<Rightarrow> space_config list \<Rightarrow> 'w sched \<Rightarrow> 'w sched" where
  "evaluate_all cron deps opts now [] s = s"
| "evaluate_all cron deps opts now (cfg # cfgs) s =
     (if \<not> eligible cfg then evaluate_all cron deps opts now cfgs s
      else evaluate_all cron deps opts now cfgs (snd (evaluate cron deps opts cfg now s)))"

definition run_once :: "cron_library \<Rightarrow> 'w sched_deps \<Rightarrow> sched_options \<Rightarrow> time \<Rightarrow> ('w sched, sched_error, unit) op" where
  "run_once cron deps opts now s =
     (case in_world (dep_configs deps) (recover_abandoned deps s) of
        (Inl e, s) \<Rightarrow> (Inl (SchedConfigs ''scheduler: list space configurations'' e), s)
      | (Inr (configs, unreadable), s) \<Rightarrow>
          (Inr (), sched_sweep deps opts now (trim_history deps opts now
             (evaluate_all cron deps opts now configs s))))"

definition next_run ::
    "cron_library \<Rightarrow> 'w sched_deps \<Rightarrow> sched_options \<Rightarrow> string \<Rightarrow> time \<Rightarrow> ('w sched, sched_error, time) op" where
  "next_run cron deps opts sp now s =
     (case in_world (dep_config deps sp) s of
        (Inl e, s) \<Rightarrow>
          (case e of NoSpaceConfig i \<Rightarrow> (Inr zero_time, s)
           | _ \<Rightarrow> (Inl (SchedConfigs ''scheduler: read space configuration'' e), s))
      | (Inr cfg, s) \<Rightarrow>
          if \<not> eligible cfg then (Inr zero_time, s)
          else (case last_run_of deps sp kind_backup s of
                  (Inl e, s) \<Rightarrow> (Inl e, s)
                | (Inr last_backup, s) \<Rightarrow>
                    (case next_occurrence cron opts cfg (baseline cfg last_backup now) of
                       Inl e \<Rightarrow> (Inl (SchedSchedule e), s)
                     | Inr t \<Rightarrow> (Inr t, s))))"

subsection \<open>Slots\<close>

lemma in_world_frame [simp]:
  "sc_inflight (snd (in_world f s)) = sc_inflight s" "sc_slots (snd (in_world f s)) = sc_slots s"
  "sc_last_history (snd (in_world f s)) = sc_last_history s"
  by (simp_all add: in_world_def split: prod.splits)

lemma in_world_slots:
  "in_world f s = (r, s') \<Longrightarrow> sc_inflight s' = sc_inflight s \<and> sc_slots s' = sc_slots s"
  by (auto simp: in_world_def split: prod.splits)

lemma last_run_of_slots:
  "last_run_of deps sp kind s = (r, s') \<Longrightarrow> sc_inflight s' = sc_inflight s \<and> sc_slots s' = sc_slots s"
  by (auto simp: last_run_of_def dest: in_world_slots split: prod.splits sum.splits)

lemma sched_busy_slots:
  "sched_busy deps sp s = (r, s') \<Longrightarrow> sc_inflight s' = sc_inflight s \<and> sc_slots s' = sc_slots s"
  by (auto simp: sched_busy_def dest: in_world_slots split: prod.splits sum.splits option.splits)

lemma prune_due_slots:
  "prune_due deps opts cfg b now s = (r, s') \<Longrightarrow> sc_inflight s' = sc_inflight s \<and> sc_slots s' = sc_slots s"
  by (auto simp: prune_due_def dest: last_run_of_slots split: prod.splits sum.splits option.splits if_splits)

text \<open>
  The scheduler with its goroutines: the Spaces whose run has returned and not yet left the runs in flight, and how many
  runs have left and not yet freed their slot.
\<close>

record 'w sched_system =
  ss_sched :: "'w sched"
  ss_returned :: "string list"
  ss_leaving :: nat

definition new_system :: "'w \<Rightarrow> 'w sched_system" where
  "new_system w = \<lparr>ss_sched = new_sched w, ss_returned = [], ss_leaving = 0\<rparr>"

text \<open>Every run in flight and every run on its way out holds one slot, and the slots are as many as configured.\<close>

definition slots_ok :: "sched_options \<Rightarrow> nat \<Rightarrow> 'w sched \<Rightarrow> bool" where
  "slots_ok opts leaving s \<longleftrightarrow> distinct (map fst (sc_inflight s)) \<and> sc_slots s = length (sc_inflight s) + leaving \<and>
     int (sc_slots s) \<le> so_max opts"

definition system_ok :: "sched_options \<Rightarrow> 'w sched_system \<Rightarrow> bool" where
  "system_ok opts y \<longleftrightarrow> slots_ok opts (ss_leaving y) (ss_sched y) \<and> distinct (ss_returned y) \<and>
     set (ss_returned y) \<subseteq> set (map fst (sc_inflight (ss_sched y)))"

lemma slots_ok_cong:
  "sc_inflight s' = sc_inflight s \<and> sc_slots s' = sc_slots s \<Longrightarrow> slots_ok opts n s' = slots_ok opts n s"
  by (simp add: slots_ok_def)

lemma slots_ok_dispatch: "slots_ok opts n s \<Longrightarrow> slots_ok opts n (snd (dispatch opts sp kind s))"
  by (auto simp: slots_ok_def dispatch_def)

lemma dispatch_keeps: "set (sc_inflight s) \<subseteq> set (sc_inflight (snd (dispatch opts sp kind s)))"
  by (auto simp: dispatch_def)

text \<open>What an evaluation does to the runs in flight: at most one dispatch, of the Space evaluated.\<close>

lemma evaluate_dispatches:
  assumes "evaluate cron deps opts cfg now s = (r, s')"
  obtains (quiet) "sc_inflight s' = sc_inflight s \<and> sc_slots s' = sc_slots s"
    | (backup) s0 b where "sched_busy deps (cfg_space cfg) s = (Inr False, s0)"
      "last_run_of deps (cfg_space cfg) kind_backup s0 = (Inr b, snd (last_run_of deps (cfg_space cfg) kind_backup s0))"
      "backup_due cron opts cfg b now = Inr True"
      "s' = snd (dispatch opts (cfg_space cfg) kind_backup (snd (last_run_of deps (cfg_space cfg) kind_backup s0)))"
      "sc_inflight (snd (last_run_of deps (cfg_space cfg) kind_backup s0)) = sc_inflight s"
      "sc_slots (snd (last_run_of deps (cfg_space cfg) kind_backup s0)) = sc_slots s"
    | (prune) s0 s1 s2 b where "sched_busy deps (cfg_space cfg) s = (Inr False, s0)"
      "last_run_of deps (cfg_space cfg) kind_backup s0 = (Inr (Some b), s1)"
      "backup_due cron opts cfg (Some b) now = Inr False" "job_state b = state_succeeded"
      "dep_prune deps \<noteq> None"
      "s' = snd (dispatch opts (cfg_space cfg) kind_prune s2)"
      "sc_inflight s2 = sc_inflight s" "sc_slots s2 = sc_slots s"
proof -
  obtain q s0 where busy: "sched_busy deps (cfg_space cfg) s = (q, s0)" by fastforce
  note f0 = sched_busy_slots [OF busy]
  obtain h s1 where last: "last_run_of deps (cfg_space cfg) kind_backup s0 = (h, s1)" by fastforce
  note f1 = last_run_of_slots [OF last]
  show thesis
  proof (cases "q = Inr False \<and> (\<exists>b. h = Inr b)")
    case False
    then have "s' = s0 \<or> s' = s1"
      using assms busy last by (auto simp: evaluate_def split: sum.splits bool.splits)
    then show thesis using quiet f0 f1 by auto
  next
    case True
    then obtain b where b: "q = Inr False" "h = Inr b" by blast
    obtain p s2 where p: "prune_due deps opts cfg b now s1 = (p, s2)" by fastforce
    note f2 = prune_due_slots [OF p]
    consider (err) e where "backup_due cron opts cfg b now = Inl e" | (due) "backup_due cron opts cfg b now = Inr True"
      | (not) "backup_due cron opts cfg b now = Inr False"
      by (cases "backup_due cron opts cfg b now") auto
    then show thesis
    proof cases
      case err
      then show thesis using quiet assms busy last b f0 f1 by (auto simp: evaluate_def)
    next
      case due
      then show thesis using backup [of s0 b] assms busy last b f0 f1 by (auto simp: evaluate_def)
    next
      case not
      show thesis
      proof (cases "p = Inr True")
        case False
        then have "s' = s2" using not assms busy last b p
          by (auto simp: evaluate_def split: sum.splits bool.splits)
        then show thesis using quiet f0 f1 f2 by auto
      next
        case True
        then obtain j where "b = Some j" "job_state j = state_succeeded" "dep_prune deps \<noteq> None"
          using p by (auto simp: prune_due_def split: option.splits if_splits)
        then show thesis
          using prune [of s0 j s1 s2] assms busy last b not p True f0 f1 f2 by (auto simp: evaluate_def)
      qed
    qed
  qed
qed

inductive sched_step :: "cron_library \<Rightarrow> 'w sched_deps \<Rightarrow> sched_options \<Rightarrow> 'w sched_system \<Rightarrow> 'w sched_system \<Rightarrow> bool"
  for cron :: cron_library and deps :: "'w sched_deps" and opts :: sched_options where
  evaluates: "eligible cfg \<Longrightarrow> sched_step cron deps opts y (y\<lparr>ss_sched := snd (evaluate cron deps opts cfg now (ss_sched y))\<rparr>)"
| executes: "(sp, kind) \<in> set (sc_inflight (ss_sched y)) \<Longrightarrow> sp \<notin> set (ss_returned y) \<Longrightarrow>
    sched_step cron deps opts y (y\<lparr>ss_sched := (ss_sched y)\<lparr>sc_world := execute deps sp kind (sc_world (ss_sched y))\<rparr>,
      ss_returned := sp # ss_returned y\<rparr>)"
| leaves: "sp \<in> set (ss_returned y) \<Longrightarrow>
    sched_step cron deps opts y (y\<lparr>ss_sched := run_leaves sp (ss_sched y), ss_returned := remove1 sp (ss_returned y),
      ss_leaving := Suc (ss_leaving y)\<rparr>)"
| frees: "ss_leaving y = Suc n \<Longrightarrow> sched_step cron deps opts y (y\<lparr>ss_sched := slot_freed (ss_sched y), ss_leaving := n\<rparr>)"
| recovers: "sched_step cron deps opts y (y\<lparr>ss_sched := recover_abandoned deps (ss_sched y)\<rparr>)"
| lists: "sched_step cron deps opts y (y\<lparr>ss_sched := snd (in_world (dep_configs deps) (ss_sched y))\<rparr>)"
| trims: "sched_step cron deps opts y (y\<lparr>ss_sched := trim_history deps opts now (ss_sched y)\<rparr>)"
| sweeps: "sched_step cron deps opts y (y\<lparr>ss_sched := sched_sweep deps opts now (ss_sched y)\<rparr>)"
| elsewhere: "sched_step cron deps opts y (y\<lparr>ss_sched := (ss_sched y)\<lparr>sc_world := w\<rparr>\<rparr>)"

lemma evaluate_slots:
  assumes "slots_ok opts n s"
  shows "slots_ok opts n (snd (evaluate cron deps opts cfg now s)) \<and>
    set (sc_inflight s) \<subseteq> set (sc_inflight (snd (evaluate cron deps opts cfg now s)))"
proof -
  obtain r s' where e: "evaluate cron deps opts cfg now s = (r, s')" by fastforce
  have "slots_ok opts n s' \<and> set (sc_inflight s) \<subseteq> set (sc_inflight s')"
  proof (cases rule: evaluate_dispatches [OF e])
    case 1
    then show ?thesis using assms by (simp add: slots_ok_def)
  next
    case (2 s0 b)
    let ?m = "snd (last_run_of deps (cfg_space cfg) kind_backup s0)"
    have "slots_ok opts n ?m" using assms 2(5,6) by (simp add: slots_ok_def)
    from slots_ok_dispatch [OF this] show ?thesis using 2(4,5) dispatch_keeps [of ?m] by simp
  next
    case (3 s0 s1 s2 b)
    have "slots_ok opts n s2" using assms 3(7,8) by (simp add: slots_ok_def)
    from slots_ok_dispatch [OF this] show ?thesis using 3(6,7) dispatch_keeps [of s2] by simp
  qed
  then show ?thesis by (simp add: e)
qed

lemma length_without:
  "sp \<in> set (map fst xs) \<Longrightarrow> distinct (map fst xs) \<Longrightarrow> Suc (length (filter (\<lambda>r. fst r \<noteq> sp) xs)) = length xs"
proof (induction xs)
  case (Cons x xs)
  show ?case
  proof (cases "fst x = sp")
    case True
    then have "sp \<notin> fst ` set xs" using Cons.prems(2) by simp
    then have "filter (\<lambda>r. fst r \<noteq> sp) xs = xs" by (auto simp: filter_id_conv)
    then show ?thesis using True by simp
  next
    case False
    then show ?thesis using Cons by auto
  qed
qed simp

lemma system_ok_step:
  assumes "sched_step cron deps opts y y'" "system_ok opts y"
  shows "system_ok opts y'"
  using assms(1)
proof cases
  case (evaluates cfg now)
  let ?s = "snd (evaluate cron deps opts cfg now (ss_sched y))"
  have "slots_ok opts (ss_leaving y) ?s" and more: "set (sc_inflight (ss_sched y)) \<subseteq> set (sc_inflight ?s)"
    using evaluate_slots [of opts "ss_leaving y" "ss_sched y" cron deps cfg now] assms(2) by (simp_all add: system_ok_def)
  moreover have "set (ss_returned y) \<subseteq> set (map fst (sc_inflight ?s))"
    using assms(2) image_mono [OF more, of fst] unfolding system_ok_def by (simp only: set_map) blast
  ultimately show ?thesis using assms(2) evaluates by (simp add: system_ok_def)
next
  case (executes sp kind)
  then show ?thesis using assms(2) by (force simp: system_ok_def slots_ok_def)
next
  case (leaves sp)
  have d: "distinct (map fst (sc_inflight (ss_sched y)))" and sp: "sp \<in> set (map fst (sc_inflight (ss_sched y)))"
    using assms(2) leaves(2) by (auto simp: system_ok_def slots_ok_def)
  show ?thesis
    using assms(2) leaves(1) length_without [OF sp d]
    by (auto simp: system_ok_def slots_ok_def run_leaves_def distinct_map_filter)
next
  case (frees n)
  then show ?thesis using assms(2) by (auto simp: system_ok_def slots_ok_def slot_freed_def)
qed (use assms(2) in \<open>auto simp: system_ok_def slots_ok_def recover_abandoned_def trim_history_def sched_sweep_def Let_def
    split: option.splits\<close>)

text \<open>A tick is a sequence of such steps, so runs may end anywhere inside it.\<close>

lemma evaluate_all_steps:
  "(sched_step cron deps opts)\<^sup>*\<^sup>* y (y\<lparr>ss_sched := evaluate_all cron deps opts now cfgs (ss_sched y)\<rparr>)"
proof (induction cfgs arbitrary: y)
  case (Cons cfg cfgs)
  show ?case
  proof (cases "eligible cfg")
    case True
    let ?y = "y\<lparr>ss_sched := snd (evaluate cron deps opts cfg now (ss_sched y))\<rparr>"
    have "sched_step cron deps opts y ?y" using True by (rule sched_step.evaluates)
    then show ?thesis using True Cons.IH [of ?y] by (simp add: converse_rtranclp_into_rtranclp)
  next
    case False
    then show ?thesis using Cons.IH by simp
  qed
qed simp

lemma run_once_steps: "(sched_step cron deps opts)\<^sup>*\<^sup>* y (y\<lparr>ss_sched := snd (run_once cron deps opts now (ss_sched y))\<rparr>)"
proof -
  let ?s1 = "recover_abandoned deps (ss_sched y)"
  obtain r s2 where l: "in_world (dep_configs deps) ?s1 = (r, s2)" by fastforce
  let ?y2 = "y\<lparr>ss_sched := s2\<rparr>"
  have "sched_step cron deps opts (y\<lparr>ss_sched := ?s1\<rparr>) ?y2"
    using sched_step.lists [of cron deps opts "y\<lparr>ss_sched := ?s1\<rparr>"] l by simp
  then have start: "(sched_step cron deps opts)\<^sup>*\<^sup>* y ?y2"
    by (rule converse_rtranclp_into_rtranclp [where r = "sched_step cron deps opts", OF sched_step.recovers r_into_rtranclp])
  have "(sched_step cron deps opts)\<^sup>*\<^sup>* ?y2 (y\<lparr>ss_sched := snd (run_once cron deps opts now (ss_sched y))\<rparr>)"
  proof (cases r)
    case (Inl e)
    then show ?thesis using l by (simp add: run_once_def)
  next
    case (Inr cu)
    let ?y3 = "y\<lparr>ss_sched := evaluate_all cron deps opts now (fst cu) s2\<rparr>"
    let ?y4 = "y\<lparr>ss_sched := trim_history deps opts now (ss_sched ?y3)\<rparr>"
    have "(sched_step cron deps opts)\<^sup>*\<^sup>* ?y2 ?y3" using evaluate_all_steps [of cron deps opts ?y2 now "fst cu"] by simp
    moreover have "sched_step cron deps opts ?y3 ?y4" using sched_step.trims [of cron deps opts ?y3 now] by simp
    moreover have "sched_step cron deps opts ?y4 (y\<lparr>ss_sched := sched_sweep deps opts now (ss_sched ?y4)\<rparr>)"
      using sched_step.sweeps [of cron deps opts ?y4 now] by simp
    ultimately have "(sched_step cron deps opts)\<^sup>*\<^sup>* ?y2 (y\<lparr>ss_sched := sched_sweep deps opts now (ss_sched ?y4)\<rparr>)"
      by (meson rtranclp.rtrancl_into_rtrancl)
    then show ?thesis using l Inr by (simp add: run_once_def case_prod_unfold)
  qed
  with start show ?thesis by simp
qed

text \<open>C28: Under any interleaving of ticks, evaluations, returns of runs and the two halves of what a run does on its way out,
  the scheduler never has more runs in flight than it is configured for and never two of the same Space. Every run
  in flight holds a slot, every other slot taken is held by a run that has left and is about to free it, and every
  Space whose run has returned but not left is still in flight; so no slot is lost.\<close>

theorem scheduler_capacity:
  assumes "(sched_step cron deps (sched_resolve opts))\<^sup>*\<^sup>* (new_system w) y"
  shows "distinct (map fst (sc_inflight (ss_sched y))) \<and>
    sc_slots (ss_sched y) = length (sc_inflight (ss_sched y)) + ss_leaving y \<and>
    int (sc_slots (ss_sched y)) \<le> so_max (sched_resolve opts) \<and>
    set (ss_returned y) \<subseteq> set (map fst (sc_inflight (ss_sched y))) \<and>
    (sched_step cron deps (sched_resolve opts))\<^sup>*\<^sup>* (new_system w)
      (y\<lparr>ss_sched := snd (run_once cron deps (sched_resolve opts) now (ss_sched y))\<rparr>)"
proof -
  have "system_ok (sched_resolve opts) y"
    using assms
  proof (induction rule: rtranclp_induct)
    case base
    then show ?case
      by (simp add: system_ok_def slots_ok_def new_system_def new_sched_def sched_resolve_def default_max_concurrent_def)
  next
    case (step y y')
    then show ?case using system_ok_step by blast
  qed
  then show ?thesis
    using rtranclp_trans [OF assms run_once_steps] by (simp add: system_ok_def slots_ok_def)
qed

definition idle_deps :: "nat sched_deps" where
  "idle_deps = \<lparr>dep_configs = (\<lambda>w. (Inr ([], []), w)), dep_config = (\<lambda>sp w. (Inl (NoSpaceConfig sp), w)),
     dep_recent = (\<lambda>sp n w. (Inr [], w)), dep_recent_of_kind = (\<lambda>sp k n w. (Inr [], w)),
     dep_trim_jobs = (\<lambda>c w. w), dep_run = (\<lambda>sp w. (None, w)), dep_prune = None, dep_recover = None,
     dep_busy = None, dep_trim_events = None, dep_finished = None, dep_sweep = None\<rparr>"

definition unset_options :: sched_options where
  "unset_options = \<lparr>so_interval = 0, so_max = 0, so_jitter = 0, so_history_window = 0, so_history_interval = 0,
     so_prune_interval = 0, so_sweep_interval = 0, so_location = []\<rparr>"

text \<open>A schedule that fires every ten nanoseconds.\<close>

definition sample_cron :: cron_library where
  "sample_cron e = Some (\<lambda>t. t - t mod 10 + 10)"

definition two_spaces :: "sched_options" where "two_spaces = unset_options\<lparr>so_jitter := -1\<rparr>"

definition due_system :: "nat sched_system" where
  "due_system = (let o1 = sched_resolve two_spaces;
     start = (\<lambda>sp s. snd (evaluate sample_cron idle_deps o1 (sample_config\<lparr>cfg_space := sp\<rparr>) 12 s)) in
     (new_system 0)\<lparr>ss_sched := start ''b'' (start ''a'' (new_sched 0))\<rparr>)"

theorem scheduler_capacity_witness:
  "\<exists>y :: nat sched_system. map fst (sc_inflight (ss_sched y)) = [''b''] \<and> ss_leaving y = 1 \<and>
     sc_slots (ss_sched y) = length (sc_inflight (ss_sched y)) + ss_leaving y \<and>
     int (sc_slots (ss_sched y)) \<le> so_max (sched_resolve two_spaces)"
proof -
  let ?o = "sched_resolve two_spaces"
  let ?cfg = "\<lambda>sp. sample_config\<lparr>cfg_space := sp\<rparr>"
  let ?y0 = "new_system (0::nat)"
  let ?y1 = "?y0\<lparr>ss_sched := snd (evaluate sample_cron idle_deps ?o (?cfg ''a'') 12 (ss_sched ?y0))\<rparr>"
  let ?y2 = "?y1\<lparr>ss_sched := snd (evaluate sample_cron idle_deps ?o (?cfg ''b'') 12 (ss_sched ?y1))\<rparr>"
  have due: "sc_inflight (ss_sched due_system) = [(''a'', kind_backup), (''b'', kind_backup)]" by code_simp
  have y2: "?y2 = due_system" by (simp add: due_system_def Let_def new_system_def)
  let ?y3 = "due_system\<lparr>ss_sched := (ss_sched due_system)\<lparr>sc_world := execute idle_deps ''a'' kind_backup (sc_world (ss_sched due_system))\<rparr>,
      ss_returned := ''a'' # ss_returned due_system\<rparr>"
  let ?y4 = "?y3\<lparr>ss_sched := run_leaves ''a'' (ss_sched ?y3), ss_returned := remove1 ''a'' (ss_returned ?y3), ss_leaving := Suc (ss_leaving ?y3)\<rparr>"
  have el: "eligible (?cfg sp)" for sp by (simp add: eligible_def sample_config_def)
  have "ss_returned due_system = []" "ss_leaving due_system = 0" by (simp_all add: due_system_def Let_def new_system_def)
  then have 3: "sched_step sample_cron idle_deps ?o due_system ?y3"
    using due by (intro sched_step.executes) simp_all
  have 4: "sched_step sample_cron idle_deps ?o ?y3 ?y4" by (rule sched_step.leaves) simp
  have 1: "sched_step sample_cron idle_deps ?o ?y0 ?y1" and 2: "sched_step sample_cron idle_deps ?o ?y1 due_system"
    using sched_step.evaluates [OF el] y2 by metis+
  define y4 where "y4 = ?y4"
  have run: "(sched_step sample_cron idle_deps ?o)\<^sup>*\<^sup>* ?y0 y4" unfolding y4_def using 1 2 3 4 by (meson converse_rtranclp_into_rtranclp rtranclp.rtrancl_refl)
  have "map fst (sc_inflight (ss_sched y4)) = [''b'']" "ss_leaving y4 = 1"
    using due \<open>ss_leaving due_system = 0\<close> by (simp_all add: y4_def run_leaves_def)
  moreover note cap = scheduler_capacity [OF run, of 12]
  moreover have "sc_slots (ss_sched y4) = length (sc_inflight (ss_sched y4)) + ss_leaving y4"
    by (rule cap [THEN conjunct2, THEN conjunct1])
  moreover have "int (sc_slots (ss_sched y4)) \<le> so_max ?o"
    by (rule cap [THEN conjunct2, THEN conjunct2, THEN conjunct1])
  ultimately show ?thesis by (intro exI [of _ y4] conjI)
qed

text \<open>Evaluating a Space starts at most one run, of that Space, and only if nothing runs there. A
  backup is started only when it is due; a prune only when no backup is due, the last backup
  succeeded and pruning is set up.\<close>

lemma evaluate_starts_at_most_one:
  assumes "evaluate cron deps opts cfg now s = (r, s')"
  shows "sc_inflight s' = sc_inflight s \<or>
    (\<exists>kind. sc_inflight s' = sc_inflight s @ [(cfg_space cfg, kind)] \<and>
       cfg_space cfg \<notin> set (map fst (sc_inflight s)) \<and>
       fst (sched_busy deps (cfg_space cfg) s) = Inr False \<and>
       (\<exists>s0 last. last_run_of deps (cfg_space cfg) kind_backup (snd (sched_busy deps (cfg_space cfg) s)) = (Inr last, s0) \<and>
         (kind = kind_backup \<and> backup_due cron opts cfg last now = Inr True \<or>
          kind = kind_prune \<and> backup_due cron opts cfg last now = Inr False \<and> dep_prune deps \<noteq> None \<and>
            map_option job_state last = Some state_succeeded)))"
proof (cases rule: evaluate_dispatches [OF assms])
  case 1
  then show ?thesis by simp
next
  case (2 s0 b)
  define s1 where "s1 = snd (last_run_of deps (cfg_space cfg) kind_backup s0)"
  have l: "last_run_of deps (cfg_space cfg) kind_backup s0 = (Inr b, s1)" using 2(2) by (simp add: s1_def)
  show ?thesis
    using 2 l by (auto simp: dispatch_def s1_def [symmetric])
next
  case (3 s0 s1 s2 b)
  then show ?thesis by (auto simp: dispatch_def)
qed

subsection \<open>Jitter and spacing\<close>

lemma sint_small: "uint (w :: 64 word) < 2 ^ 63 \<Longrightarrow> sint w = uint w"
  unfolding sint_uint by (rule signed_take_bit_int_eq_self) (auto intro: order.trans [OF _ uint_ge_0])

lemma jitter_range:
  assumes "window \<le> max_int64"
  shows "0 \<le> jitter_for sp window" "0 < window \<Longrightarrow> jitter_for sp window < window"
proof -
  have "0 \<le> jitter_for sp window \<and> (0 < window \<longrightarrow> jitter_for sp window < window)"
  proof (cases "0 < window")
    case False
    then show ?thesis by (simp add: jitter_for_def)
  next
    case True
    let ?w = "word_of_int window :: 64 word"
    have w: "uint ?w = window"
      using True assms by (simp add: uint_word_of_int take_bit_int_eq_self max_int64_def)
    have "uint (fnv64a sp mod ?w) = uint (fnv64a sp) mod window"
      by (simp add: uint_mod w)
    then have range: "0 \<le> uint (fnv64a sp mod ?w)" "uint (fnv64a sp mod ?w) < window"
      using True by simp_all
    then have "sint (fnv64a sp mod ?w) = uint (fnv64a sp mod ?w)"
      using assms by (intro sint_small) (simp add: max_int64_def)
    then show ?thesis using range True by (simp add: jitter_for_def)
  qed
  then show "0 \<le> jitter_for sp window" "0 < window \<Longrightarrow> jitter_for sp window < window" by auto
qed

lemma backup_due_True:
  assumes "backup_due cron opts cfg lb now = Inr True" "so_jitter opts \<le> max_int64"
  obtains next_fire where "cron (effective_schedule cfg) = Some next_fire"
    "next_fire (baseline cfg lb now) \<noteq> zero_time" "next_fire (baseline cfg lb now) \<le> now"
proof -
  obtain f where f: "cron (effective_schedule cfg) = Some f"
    using assms(1) by (cases "cron (effective_schedule cfg)") (auto simp: backup_due_def next_occurrence_def next_after_def)
  let ?n = "f (baseline cfg lb now)"
  have z: "?n \<noteq> zero_time"
    using assms(1) f by (auto simp: backup_due_def next_occurrence_def next_after_def is_zero_time_def)
  have "?n + jitter_for (cfg_space cfg) (so_jitter opts) \<le> now"
    using assms(1) f z
    by (auto simp: backup_due_def next_occurrence_def next_after_def is_zero_time_def split: if_splits)
  moreover have "0 \<le> jitter_for (cfg_space cfg) (so_jitter opts)" by (rule jitter_range(1) [OF assms(2)])
  ultimately show thesis by (intro that [OF f z]) linarith
qed

text \<open>C33: downtime is caught up once. If a backup recorded at a time t was the last one, the next is due only
  after the schedule has an occurrence after that time: two runs of a Space never fall between two
  occurrences, however many were missed before. (The cron library promises that the next
  occurrence lies strictly after the time it is asked for, or that there is none.)\<close>

theorem catch_up_once:
  assumes "\<forall>t. next_fire t = zero_time \<or> t < next_fire t"
    and "cron (effective_schedule cfg) = Some next_fire" "so_jitter opts \<le> max_int64"
    and "backup_due cron opts cfg (Some j) now = Inr True"
  shows "created_at j < next_fire (created_at j) \<and> next_fire (created_at j) \<le> now"
proof -
  obtain f where "cron (effective_schedule cfg) = Some f" "f (baseline cfg (Some j) now) \<noteq> zero_time"
    "f (baseline cfg (Some j) now) \<le> now"
    by (rule backup_due_True [OF assms(4,3)])
  then show ?thesis using assms(1,2) by (auto simp: baseline_def)
qed

theorem catch_up_once_witness:
  "backup_due sample_cron (unset_options\<lparr>so_max := 2\<rparr>) sample_config (Some sample_job) 12 = Inr True \<and>
   created_at sample_job < 10 \<and> (10::int) \<le> 12"
proof -
  have due: "backup_due sample_cron (unset_options\<lparr>so_max := 2\<rparr>) sample_config (Some sample_job) 12 = Inr True"
    by code_simp
  from catch_up_once [OF _ _ _ due, of "\<lambda>t. t - t mod 10 + 10"]
  show ?thesis
    using due by (auto simp: sample_cron_def unset_options_def max_int64_def sample_job_def)
qed

text \<open>A Space's stagger is always inside its window: from zero up to, not including, the window's
  length, and zero when there is no window. It depends on nothing but the Space and the window.\<close>

lemma jitter_within_window:
  assumes "window \<le> max_int64"
  shows "0 \<le> jitter_for sp window \<and> jitter_for sp window < max 1 window"
  using jitter_range [OF assms, of sp] by (cases "0 < window") (auto simp: jitter_for_def)

text \<open>
  Trimming is rare and only of what is old: between two trims lies the interval, and what a trim
  is asked for is the records older than the history window.
\<close>

lemma trim_history_cases:
  "trim_history deps opts now s = s \<and> sc_last_history s \<noteq> zero_time \<and>
     time_sub now (sc_last_history s) < so_history_interval opts \<or>
   sc_last_history (trim_history deps opts now s) = now \<and>
     sc_world (trim_history deps opts now s) =
       (case dep_trim_events deps of None \<Rightarrow> id | Some trim \<Rightarrow> trim (now - so_history_window opts))
         (dep_trim_jobs deps (now - so_history_window opts) (sc_world s))"
  by (auto simp: trim_history_def is_zero_time_def Let_def split: option.splits)

end
