(* ===== verification/Snap_Base.thy ===== *)
theory Snap_Base
  imports Prelude "HOL-Library.Multiset"
begin

text \<open>
  Snapshots (src/internal/snapshot/engine.go and snapshot.go): manifests, what the service makes of
  them, and the retention decision.

  A \<open>manifest\<close> has the fields of kopia's manifest that the code reads. Its root entry and the root's
  summary are pointers, so both may be missing. Manifests are listed by Space; which of two
  manifests started at the same instant \<open>sort.Slice\<close> puts first is not specified, so the sort is a
  parameter with the documented contract (locale \<open>newest_first\<close>).
\<close>

record dir_summary =
  ds_files :: int
  ds_size :: int
  ds_failed :: int

record upload_stats =
  us_files :: int
  us_cached :: int
  us_size :: int

record manifest =
  mf_id :: string
  mf_start :: time
  mf_incomplete :: string
  mf_root :: "dir_summary option option"
  mf_stats :: upload_stats

record snap_info =
  si_id :: string
  si_start :: time
  si_files :: int
  si_bytes :: int

record prune_stats =
  ps_deleted :: nat
  ps_kept :: nat

datatype snap_error =
    SourceRequired
  | DataKeyRequired
  | SpaceIDRequired
  | WindowNotPositive
  | SnapshotIDRequired
  | PathRequired
  | CallbackRequired
  | NotADirectory
  | NoSuchSnapshot string
  | IncompleteSnapshot string
  | UnreadEntries int
  | NilRootEntry
  | AlreadyInitialized
  | MaintenanceOwnedBy string
  | MaintenanceNotOwned
  | LibraryError string
  | SnapWrapped string snap_error

text \<open>\<open>errors.Is\<close>: the error or one it wraps.\<close>

fun snap_error_is :: "snap_error \<Rightarrow> snap_error \<Rightarrow> bool" where
  "snap_error_is (SnapWrapped w e) x \<longleftrightarrow> SnapWrapped w e = x \<or> snap_error_is e x"
| "snap_error_is e x \<longleftrightarrow> e = x"

fun maintenance_owner_of :: "snap_error \<Rightarrow> string option" where
  "maintenance_owner_of (SnapWrapped w e) = maintenance_owner_of e"
| "maintenance_owner_of (MaintenanceOwnedBy u) = Some u"
| "maintenance_owner_of e = None"

subsection \<open>Complete manifests\<close>

definition is_complete :: "manifest \<Rightarrow> bool" where
  "is_complete m \<longleftrightarrow> mf_incomplete m = []"

definition complete_only :: "manifest list \<Rightarrow> manifest list" where
  "complete_only mans = filter is_complete mans"

definition assert_complete :: "manifest \<Rightarrow> snap_error option" where
  "assert_complete m =
     (if mf_incomplete m \<noteq> [] then Some (IncompleteSnapshot (mf_incomplete m))
      else case mf_root m of
          None \<Rightarrow> Some NilRootEntry
        | Some None \<Rightarrow> None
        | Some (Some s) \<Rightarrow> if ds_failed s > 0 then Some (UnreadEntries (ds_failed s)) else None)"

definition logical_totals :: "manifest \<Rightarrow> int \<times> int" where
  "logical_totals m =
     (case mf_root m of
        Some (Some s) \<Rightarrow> (ds_files s, ds_size s)
      | _ \<Rightarrow> (wrap_int64 (us_files (mf_stats m) + us_cached (mf_stats m)), us_size (mf_stats m)))"

definition to_info :: "manifest \<Rightarrow> snap_info" where
  "to_info m = \<lparr>si_id = mf_id m, si_start = mf_start m,
     si_files = fst (logical_totals m), si_bytes = snd (logical_totals m)\<rparr>"

subsection \<open>Retention\<close>

type_synonym manifest_sort = "manifest list \<Rightarrow> manifest list"

definition expired_manifests :: "manifest_sort \<Rightarrow> manifest list \<Rightarrow> time \<Rightarrow> string list" where
  "expired_manifests srt mans cutoff =
     (let incomplete = map mf_id (filter (\<lambda>m. \<not> is_complete m) mans); complete = complete_only mans in
      if length complete \<le> 1 then incomplete
      else incomplete @ map mf_id (filter (\<lambda>m. mf_start m < cutoff) (tl (srt complete))))"

definition kept_count :: "manifest list \<Rightarrow> string list \<Rightarrow> nat" where
  "kept_count mans expired = length (filter (\<lambda>m. mf_id m \<notin> set expired) (complete_only mans))"

record retention_policy =
  keep_latest :: "int option"
  keep_hourly :: "int option"
  keep_daily :: "int option"
  keep_weekly :: "int option"
  keep_monthly :: "int option"
  keep_annual :: "int option"

definition is_never_expire_by_count :: "retention_policy \<Rightarrow> bool" where
  "is_never_expire_by_count rp =
     list_all (\<lambda>v. case v of None \<Rightarrow> False | Some n \<Rightarrow> n = 0)
       [keep_latest rp, keep_hourly rp, keep_daily rp, keep_weekly rp, keep_monthly rp, keep_annual rp]"

definition never_expire_by_count :: retention_policy where
  "never_expire_by_count = \<lparr>keep_latest = Some 0, keep_hourly = Some 0, keep_daily = Some 0,
     keep_weekly = Some 0, keep_monthly = Some 0, keep_annual = Some 0\<rparr>"

lemma in_set_tl: "x \<in> set (tl xs) \<Longrightarrow> x \<in> set xs"
  by (cases xs) auto

lemma never_expire_ok [simp]: "is_never_expire_by_count never_expire_by_count"
  by (simp add: is_never_expire_by_count_def never_expire_by_count_def)

lemma complete_only_set [simp]: "set (complete_only mans) = {m \<in> set mans. is_complete m}"
  by (auto simp: complete_only_def)

lemma complete_only_append [simp]: "complete_only (xs @ ys) = complete_only xs @ complete_only ys"
  by (simp add: complete_only_def)

lemma complete_only_filter: "complete_only (filter P mans) = filter P (complete_only mans)"
  by (simp add: complete_only_def conj_commute)

lemma complete_only_all: "(\<And>m. m \<in> set mans \<Longrightarrow> is_complete m) \<Longrightarrow> complete_only mans = mans"
  by (simp add: complete_only_def)

subsection \<open>Sorting newest first\<close>

text \<open>\<open>sort.Slice\<close> with the order "starts later": some reordering of the input in which nothing later
  follows anything earlier.\<close>

definition sorts_newest_first :: "manifest_sort \<Rightarrow> bool" where
  "sorts_newest_first srt \<longleftrightarrow>
     (\<forall>xs. mset (srt xs) = mset xs \<and> sorted_wrt (\<lambda>a b. mf_start b \<le> mf_start a) (srt xs))"

text \<open>\<open>survives\<close>: the newest complete manifest (the one the sort puts first), and every complete one
  that started at the cutoff or later.\<close>

definition survives :: "manifest_sort \<Rightarrow> manifest list \<Rightarrow> time \<Rightarrow> manifest \<Rightarrow> bool" where
  "survives srt mans cutoff m \<longleftrightarrow>
     is_complete m \<and> (cutoff \<le> mf_start m \<or> m = hd (srt (complete_only mans)))"

locale newest_first =
  fixes srt :: manifest_sort
  assumes srt_mset: "mset (srt xs) = mset xs"
    and srt_order: "sorted_wrt (\<lambda>a b. mf_start b \<le> mf_start a) (srt xs)"
begin

lemma srt_set [simp]: "set (srt xs) = set xs"
  using srt_mset [of xs] by (metis set_mset_mset)

lemma srt_length [simp]: "length (srt xs) = length xs"
  using srt_mset [of xs] by (metis size_mset)

lemma srt_Nil [simp]: "srt xs = [] \<longleftrightarrow> xs = []"
  using srt_length [of xs] by (metis length_0_conv)

lemma srt_distinct [simp]: "distinct (map mf_id (srt xs)) \<longleftrightarrow> distinct (map mf_id xs)"
  by (metis srt_mset mset_map mset_eq_imp_distinct_iff)

lemma hd_newest:
  assumes "m \<in> set xs"
  shows "hd (srt xs) \<in> set xs" "mf_start m \<le> mf_start (hd (srt xs))"
proof -
  obtain a as where s: "srt xs = a # as" using assms srt_Nil [of xs] by (cases "srt xs") auto
  show "hd (srt xs) \<in> set xs" using srt_set [of xs] s by auto
  have "m \<in> set (a # as)" using srt_set [of xs] assms s by auto
  then show "mf_start m \<le> mf_start (hd (srt xs))" using srt_order [of xs] s by auto
qed

lemma expired_set:
  assumes "distinct (map mf_id mans)" "m \<in> set mans"
  shows "mf_id m \<in> set (expired_manifests srt mans cutoff) \<longleftrightarrow> \<not> survives srt mans cutoff m"
proof -
  have inj: "inj_on mf_id (set mans)" using assms(1) by (simp add: distinct_map)
  let ?c = "complete_only mans"
  have inc: "mf_id m \<in> mf_id ` {x \<in> set mans. \<not> is_complete x} \<longleftrightarrow> \<not> is_complete m"
    using inj assms(2) by (auto dest: inj_onD)
  show ?thesis
  proof (cases "length ?c \<le> 1")
    case True
    have "is_complete m \<Longrightarrow> hd (srt ?c) = m"
    proof -
      assume "is_complete m"
      then have "m \<in> set ?c" using assms(2) by simp
      then have "?c = [m]" using True by (cases ?c) auto
      then show "hd (srt ?c) = m" using srt_set [of "[m]"] srt_length [of "[m]"] by (cases "srt [m]") auto
    qed
    then show ?thesis using True inc by (auto simp: expired_manifests_def survives_def)
  next
    case False
    obtain h t where s: "srt ?c = h # t" using False srt_Nil [of ?c] by (cases "srt ?c") auto
    have d: "distinct (h # t)"
    proof -
      have "distinct (map mf_id ?c)" using assms(1) by (simp add: complete_only_def distinct_map_filter)
      then have "distinct (map mf_id (srt ?c))" by simp
      then show ?thesis using s by (metis distinct_map)
    qed
    have mem: "set (h # t) = {x \<in> set mans. is_complete x}" using srt_set [of ?c] s by simp
    have t: "x \<in> set t \<longleftrightarrow> x \<in> set mans \<and> is_complete x \<and> x \<noteq> h" for x using mem d by auto
    have "mf_id m \<in> mf_id ` {x \<in> set t. mf_start x < cutoff} \<longleftrightarrow> m \<in> set t \<and> mf_start m < cutoff"
      using inj assms(2) t by (auto dest: inj_onD)
    then show ?thesis using False inc t assms(2) s
      by (auto simp: expired_manifests_def survives_def)
  qed
qed

lemma expired_distinct:
  assumes "distinct (map mf_id mans)"
  shows "distinct (expired_manifests srt mans cutoff)"
proof -
  have inj: "inj_on mf_id (set mans)" using assms by (simp add: distinct_map)
  let ?c = "complete_only mans"
  have "distinct (map mf_id (srt ?c))" using assms by (simp add: complete_only_def distinct_map_filter)
  then have t: "distinct (map mf_id (filter (\<lambda>m. mf_start m < cutoff) (tl (srt ?c))))"
    by (simp add: distinct_map_filter map_tl distinct_tl)
  have sub: "set (tl (srt ?c)) \<subseteq> {m \<in> set mans. is_complete m}"
    using srt_set [of ?c] by (auto dest: in_set_tl)
  then have "mf_id a \<noteq> mf_id b" if "a \<in> set mans" "\<not> is_complete a" "b \<in> set (tl (srt ?c))" for a b
    using that inj by (auto dest: inj_onD)
  then show ?thesis
    using assms t by (auto simp: expired_manifests_def Let_def distinct_map_filter)
qed

lemma expired_subset: "set (expired_manifests srt mans cutoff) \<subseteq> mf_id ` set mans"
  by (auto simp: expired_manifests_def Let_def dest!: in_set_tl)

lemma kept_count_survivors:
  assumes "distinct (map mf_id mans)"
  shows "kept_count mans (expired_manifests srt mans cutoff) = length (filter (survives srt mans cutoff) mans)"
proof -
  have "filter (\<lambda>m. is_complete m \<and> mf_id m \<notin> set (expired_manifests srt mans cutoff)) mans =
      filter (survives srt mans cutoff) mans"
    by (intro filter_cong) (use expired_set [OF assms] in \<open>auto simp: survives_def\<close>)
  then show ?thesis by (simp add: kept_count_def complete_only_def conj_commute)
qed

end

lemma sorts_newest_first: "sorts_newest_first srt \<Longrightarrow> newest_first srt"
  by unfold_locales (auto simp: sorts_newest_first_def)

text \<open>The stable sort is one that keeps the contract.\<close>

definition stable_newest_first :: manifest_sort where
  "stable_newest_first = sort_key (\<lambda>m. - mf_start m)"

lemma stable_sorts: "sorts_newest_first stable_newest_first"
proof -
  have "sorted_wrt (\<lambda>a b. mf_start b \<le> mf_start a) (sort_key (\<lambda>m. - mf_start m) xs)" for xs :: "manifest list"
    using sorted_sort_key [of "\<lambda>m. - mf_start m" xs] by (simp add: sorted_map)
  then show ?thesis by (simp add: sorts_newest_first_def stable_newest_first_def)
qed

interpretation stable: newest_first stable_newest_first
  by (rule sorts_newest_first [OF stable_sorts])

end
