(* ===== verification/Go_Flow.thy ===== *)
theory Go_Flow
  imports Prelude
begin

text \<open>
  The control flow of Go's error handling, as combinators on state-passing operations: the early
  return (\<open>x, err := f(); if err != nil \{ return wrap(err) \}\<close>) and the deferred clean-up.
\<close>

definition try_op :: "('e \<Rightarrow> 'f) \<Rightarrow> ('s, 'e, 'a) op \<Rightarrow> ('a \<Rightarrow> ('s, 'f, 'b) op) \<Rightarrow> ('s, 'f, 'b) op" where
  "try_op w f K s = (case f s of (Inl e, s1) \<Rightarrow> (Inl (w e), s1) | (Inr x, s1) \<Rightarrow> K x s1)"

definition ok_op :: "'a \<Rightarrow> ('s, 'e, 'a) op" where
  "ok_op x s = (Inr x, s)"

definition fail_op :: "'e \<Rightarrow> ('s, 'e, 'a) op" where
  "fail_op e s = (Inl e, s)"

text \<open>A check that returns an error early.\<close>

definition require_op :: "'e option \<Rightarrow> ('s, 'e, 'a) op \<Rightarrow> ('s, 'e, 'a) op" where
  "require_op c K s = (case c of Some e \<Rightarrow> (Inl e, s) | None \<Rightarrow> K s)"

text \<open>\<open>defer cleanup()\<close>: runs after the call whatever it returns.\<close>

definition defer_op :: "('s \<Rightarrow> 's) \<Rightarrow> ('s, 'e, 'a) op \<Rightarrow> ('s, 'e, 'a) op" where
  "defer_op f K s = apsnd f (K s)"

text \<open>A deferred clean-up that may fail: its error counts only when the call had none.\<close>

definition defer_close :: "('e \<Rightarrow> 'e) \<Rightarrow> ('s, 'e, unit) op \<Rightarrow> ('s, 'e, 'a) op \<Rightarrow> ('s, 'e, 'a) op" where
  "defer_close w close K s =
     (case K s of (r, s1) \<Rightarrow>
        (case close s1 of
           (Inl e, s2) \<Rightarrow> (case r of Inl e0 \<Rightarrow> (Inl e0, s2) | Inr _ \<Rightarrow> (Inl (w e), s2))
         | (Inr _, s2) \<Rightarrow> (r, s2)))"

lemma ok_op_simps [simp]:
  "ok_op x s = (r, s') \<longleftrightarrow> r = Inr x \<and> s' = s"
  "fail_op e s = (r, s') \<longleftrightarrow> r = Inl e \<and> s' = s"
  "snd (ok_op x s) = s" "snd (fail_op e s) = s"
  by (auto simp: ok_op_def fail_op_def)

lemma try_op_cases:
  assumes "try_op w f K s = (r, s')"
  obtains (err) e where "f s = (Inl e, s')" "r = Inl (w e)"
    | (ok) x s1 where "f s = (Inr x, s1)" "K x s1 = (r, s')"
  using assms by (auto simp: try_op_def split: prod.splits sum.splits)

lemma require_op_cases:
  assumes "require_op c K s = (r, s')"
  obtains (err) e where "c = Some e" "r = Inl e" "s' = s" | (ok) "c = None" "K s = (r, s')"
  using assms by (auto simp: require_op_def split: option.splits)

lemma defer_op_cases:
  assumes "defer_op f K s = (r, s')"
  obtains s1 where "K s = (r, s1)" "s' = f s1"
  using assms by (cases "K s") (auto simp: defer_op_def)

lemma defer_close_cases:
  assumes "defer_close w close K s = (r, s')"
  obtains r0 s1 c where "K s = (r0, s1)" "close s1 = (c, s')" "r = r0 \<or> (\<exists>e. r = Inl e)"
proof -
  obtain r0 s1 where k: "K s = (r0, s1)" by fastforce
  obtain c s2 where c: "close s1 = (c, s2)" by fastforce
  have "s' = s2 \<and> (r = r0 \<or> (\<exists>e. r = Inl e))"
    using assms k c by (cases c; cases r0) (auto simp: defer_close_def)
  then show thesis using that k c by simp
qed

text \<open>A view of the state that no branch changes.\<close>

lemma try_op_view:
  assumes "try_op w f K s = (r, s')" "\<And>u s1. f s = (u, s1) \<Longrightarrow> g s1 = g s"
    "\<And>x s1. f s = (Inr x, s1) \<Longrightarrow> K x s1 = (r, s') \<Longrightarrow> g s' = g s1"
  shows "g s' = g s"
  using assms(1)
proof (cases rule: try_op_cases)
  case (err e)
  then show ?thesis using assms(2) by blast
next
  case (ok x s1)
  then show ?thesis using assms(2) [OF ok(1)] assms(3) [OF ok] by simp
qed

end
