(* ===== verification/Snap_Engine.thy ===== *)
theory Snap_Engine
  imports Snap_Base Go_Flow
begin

text \<open>
  The snapshot engine (src/internal/snapshot/engine.go): opening a repository, taking a snapshot,
  listing, finding and pruning.

  kopia is a parameter: a record \<open>kopia\<close> of the library calls the engine makes, over a state \<open>'s\<close> of
  the repository and the machine. What the engine relies on is the locale \<open>repository\<close>; the
  interpretation at the end discharges it for a repository whose every call may fail.
\<close>

subsection \<open>The library calls\<close>

record upload_options =
  uo_parallel :: int
  uo_checkpoint :: "duration option"
  uo_ignore_rules_off :: bool

record 'p policy =
  po_retention :: retention_policy
  po_rest :: 'p

record ('s, 'x, 'p, 't) kopia =
  k_open :: "bool \<Rightarrow> ('s, snap_error, unit) op"
  k_close :: "('s, snap_error, unit) op"
  k_initialize :: "('s, snap_error, unit) op"
  k_mkdir :: "('s, snap_error, unit) op"
  k_rmdir :: "'s \<Rightarrow> 's"
  k_register :: "('s, snap_error, unit) op"
  k_release :: "'s \<Rightarrow> 's"
  k_connect :: "('s, snap_error, unit) op"
  k_open_repo :: "('s, snap_error, unit) op"
  k_close_repo :: "('s, snap_error, unit) op"
  k_begin :: "('s, snap_error, unit) op"
  k_commit :: "('s, snap_error, unit) op"
  k_abort :: "'s \<Rightarrow> 's"
  k_list :: "string \<Rightarrow> ('s, snap_error, manifest list) op"
  k_delete :: "string \<Rightarrow> ('s, snap_error, unit) op"
  k_save :: "string \<Rightarrow> manifest \<Rightarrow> ('s, snap_error, manifest) op"
  k_policy :: "string \<Rightarrow> ('s, snap_error, 'p policy option) op"
  k_no_policy :: 'p
  k_set_policy :: "string \<Rightarrow> 'p policy \<Rightarrow> ('s, snap_error, unit) op"
  k_policy_tree :: "string \<Rightarrow> ('s, snap_error, 't) op"
  k_upload :: "upload_options \<Rightarrow> 'x \<Rightarrow> 't \<Rightarrow> string \<Rightarrow> manifest list \<Rightarrow> ('s, snap_error, manifest) op"
  k_direct :: bool
  k_owner :: "('s, snap_error, string) op"
  k_set_owner :: "string \<Rightarrow> ('s, snap_error, unit) op"
  k_identity :: string
  k_maintain :: "('s, snap_error, unit) op"

record engine_options =
  eo_parallel :: int
  eo_checkpoint :: duration

text \<open>\<open>NewEngine\<close>: the longest checkpoint interval is kopia's.\<close>

definition new_engine :: "duration \<Rightarrow> bool \<Rightarrow> engine_options \<Rightarrow> snap_error + engine_options" where
  "new_engine longest has_opener opts =
     (if \<not> has_opener then Inl (LibraryError ''snapshot: storage opener required'')
      else if eo_checkpoint opts < 0 then Inl (LibraryError ''snapshot: checkpoint interval must not be negative'')
      else if eo_checkpoint opts > longest then Inl (LibraryError ''snapshot: checkpoint interval must not exceed the longest'')
      else Inr opts)"

definition source_info :: "string \<Rightarrow> string" where
  "source_info space = ''/spaces/'' @ space"

subsection \<open>Opening a repository\<close>

definition initialize_if_needed :: "('s, 'x, 'p, 't) kopia \<Rightarrow> ('s, snap_error, unit) op" where
  "initialize_if_needed k s =
     (case k_initialize k s of
        (Inl e, s') \<Rightarrow>
          if snap_error_is e AlreadyInitialized then (Inr (), s')
          else (Inl (SnapWrapped ''snapshot: initialize repository'' e), s')
      | (Inr _, s') \<Rightarrow> (Inr (), s'))"

definition with_repo ::
    "('s, 'x, 'p, 't) kopia \<Rightarrow> string \<Rightarrow> string \<Rightarrow> bool \<Rightarrow> ('s, snap_error, 'a) op \<Rightarrow> ('s, snap_error, 'a) op" where
  "with_repo k dk space create fn =
     (if dk = [] then fail_op DataKeyRequired
      else if space = [] then fail_op SpaceIDRequired
      else try_op id (k_open k create) (\<lambda>_.
        defer_close (SnapWrapped ''snapshot: close storage'') (k_close k)
       (try_op id (if create then initialize_if_needed k else ok_op ()) (\<lambda>_.
        try_op (SnapWrapped ''snapshot: create work dir'') (k_mkdir k) (\<lambda>_.
        defer_op (k_rmdir k)
       (try_op id (k_register k) (\<lambda>_.
        defer_op (k_release k)
       (try_op (SnapWrapped ''snapshot: connect repository'') (k_connect k) (\<lambda>_.
        try_op (SnapWrapped ''snapshot: open repository'') (k_open_repo k) (\<lambda>_.
        defer_close (SnapWrapped ''snapshot: close repository'') (k_close_repo k) fn))))))))))"

text \<open>\<open>repo.WriteSession\<close>: the body's changes are written at the end, or not at all.\<close>

definition write_session :: "('s, 'x, 'p, 't) kopia \<Rightarrow> ('s, snap_error, 'a) op \<Rightarrow> ('s, snap_error, 'a) op" where
  "write_session k body =
     try_op id (k_begin k) (\<lambda>_ s1.
       case body s1 of
         (Inl e, s2) \<Rightarrow> (Inl e, k_abort k s2)
       | (Inr x, s2) \<Rightarrow> try_op id (k_commit k) (\<lambda>_. ok_op x) s2)"

subsection \<open>Taking a snapshot\<close>

definition disable_count_based_retention :: "('s, 'x, 'p, 't) kopia \<Rightarrow> string \<Rightarrow> ('s, snap_error, unit) op" where
  "disable_count_based_retention k src =
     try_op (SnapWrapped ''snapshot: read policy'') (k_policy k src) (\<lambda>existing.
       if (case existing of None \<Rightarrow> False | Some q \<Rightarrow> is_never_expire_by_count (po_retention q)) then ok_op ()
       else try_op (SnapWrapped ''snapshot: set policy'')
           (k_set_policy k src \<lparr>po_retention = never_expire_by_count,
              po_rest = (case existing of None \<Rightarrow> k_no_policy k | Some q \<Rightarrow> po_rest q)\<rparr>) ok_op)"

fun delete_manifests :: "('s, 'x, 'p, 't) kopia \<Rightarrow> string \<Rightarrow> string list \<Rightarrow> ('s, snap_error, unit) op" where
  "delete_manifests k what [] = ok_op ()"
| "delete_manifests k what (i # is) =
     try_op (SnapWrapped what) (k_delete k i) (\<lambda>_. delete_manifests k what is)"

definition delete_incomplete :: "('s, 'x, 'p, 't) kopia \<Rightarrow> string \<Rightarrow> ('s, snap_error, unit) op" where
  "delete_incomplete k src =
     try_op (SnapWrapped ''snapshot: list snapshots'') (k_list k src) (\<lambda>mans.
       delete_manifests k ''snapshot: delete incomplete manifest''
         (map mf_id (filter (\<lambda>m. \<not> is_complete m) mans)))"

definition discard_incomplete :: "('s, 'x, 'p, 't) kopia \<Rightarrow> string \<Rightarrow> ('s, snap_error, unit) op" where
  "discard_incomplete k src = write_session k (delete_incomplete k src)"

definition uploader :: "engine_options \<Rightarrow> upload_options" where
  "uploader opts = \<lparr>uo_parallel = eo_parallel opts,
     uo_checkpoint = (if eo_checkpoint opts > 0 then Some (eo_checkpoint opts) else None),
     uo_ignore_rules_off = True\<rparr>"

text \<open>The body of the backup's write session.\<close>

definition snapshot_body ::
    "engine_options \<Rightarrow> ('s, 'x, 'p, 't) kopia \<Rightarrow> string \<Rightarrow> 'x \<Rightarrow> ('s, snap_error, snap_info) op" where
  "snapshot_body opts k src x =
     try_op id (disable_count_based_retention k src) (\<lambda>_.
     try_op (SnapWrapped ''snapshot: policy tree'') (k_policy_tree k src) (\<lambda>tree.
     try_op (SnapWrapped ''snapshot: list previous snapshots'') (k_list k src) (\<lambda>previous.
     try_op (SnapWrapped ''snapshot: upload'') (k_upload k (uploader opts) x tree src previous) (\<lambda>man.
     require_op (assert_complete man)
    (try_op (SnapWrapped ''snapshot: save manifest'') (k_save k src man) (\<lambda>saved.
     try_op id (delete_incomplete k src) (\<lambda>_.
     ok_op (to_info saved))))))))"

definition engine_snapshot ::
    "engine_options \<Rightarrow> ('s, 'x, 'p, 't) kopia \<Rightarrow> string \<Rightarrow> string \<Rightarrow> 'x option \<Rightarrow> ('s, snap_error, snap_info) op" where
  "engine_snapshot opts k dk space x =
     (case x of
        None \<Rightarrow> fail_op SourceRequired
      | Some x \<Rightarrow> with_repo k dk space True
          (\<lambda>s. case write_session k (snapshot_body opts k (source_info space) x) s of
              (Inl e, s1) \<Rightarrow> (Inl e, snd (discard_incomplete k (source_info space) s1))
            | (Inr i, s1) \<Rightarrow> (Inr i, s1)))"

subsection \<open>Reading\<close>

definition engine_list ::
    "(snap_info list \<Rightarrow> snap_info list) \<Rightarrow> ('s, 'x, 'p, 't) kopia \<Rightarrow> string \<Rightarrow> string \<Rightarrow> ('s, snap_error, snap_info list) op" where
  "engine_list srt k dk space =
     with_repo k dk space False
       (try_op (SnapWrapped ''snapshot: list snapshots'') (k_list k (source_info space)) (\<lambda>mans.
          ok_op (srt (map to_info (complete_only mans)))))"

definition find_manifest :: "('s, 'x, 'p, 't) kopia \<Rightarrow> string \<Rightarrow> string \<Rightarrow> ('s, snap_error, manifest) op" where
  "find_manifest k src i =
     (if i = [] then fail_op SnapshotIDRequired
      else try_op (SnapWrapped ''snapshot: list snapshots'') (k_list k src) (\<lambda>mans.
        case find (\<lambda>m. mf_id m = i) (complete_only mans) of
          Some m \<Rightarrow> ok_op m
        | None \<Rightarrow> fail_op (NoSuchSnapshot i)))"

subsection \<open>Pruning\<close>

definition claim_maintenance :: "('s, 'x, 'p, 't) kopia \<Rightarrow> ('s, snap_error, unit) op" where
  "claim_maintenance k =
     try_op (SnapWrapped ''snapshot: maintenance params'') (k_owner k) (\<lambda>owner.
       if owner \<noteq> [] then ok_op ()
       else try_op (SnapWrapped ''snapshot: claim maintenance ownership'') (k_set_owner k (k_identity k)) ok_op)"

definition run_maintenance :: "('s, 'x, 'p, 't) kopia \<Rightarrow> ('s, snap_error, unit) op" where
  "run_maintenance k =
     (if \<not> k_direct k then fail_op (LibraryError ''snapshot: repository does not support maintenance'')
      else try_op
        (\<lambda>e. if maintenance_owner_of e \<noteq> None then MaintenanceNotOwned else SnapWrapped ''snapshot: maintenance'' e)
        (write_session k (try_op id (claim_maintenance k) (\<lambda>_. k_maintain k))) ok_op)"

definition prune_body ::
    "manifest_sort \<Rightarrow> ('s, 'x, 'p, 't) kopia \<Rightarrow> string \<Rightarrow> time \<Rightarrow> ('s, snap_error, prune_stats) op" where
  "prune_body srt k src cutoff =
     try_op (SnapWrapped ''snapshot: list snapshots'') (k_list k src) (\<lambda>mans.
       let expired = expired_manifests srt mans cutoff in
       try_op id (delete_manifests k ''snapshot: delete expired manifest'' expired) (\<lambda>_.
       ok_op \<lparr>ps_deleted = length expired, ps_kept = kept_count mans expired\<rparr>))"

definition engine_prune ::
    "manifest_sort \<Rightarrow> ('s, 'x, 'p, 't) kopia \<Rightarrow> string \<Rightarrow> string \<Rightarrow> duration \<Rightarrow> time \<Rightarrow> ('s, snap_error, prune_stats) op" where
  "engine_prune srt k dk space window now =
     (if window \<le> 0 then fail_op WindowNotPositive
      else with_repo k dk space False
        (try_op id (write_session k (prune_body srt k (source_info space) (now - window))) (\<lambda>stats.
         try_op id (run_maintenance k) (\<lambda>_.
         ok_op stats))))"

end
