(* ===== verification/Snap_Repo.thy ===== *)
theory Snap_Repo
  imports Snap_Engine "HOL-Library.AList"
begin

text \<open>
  What the snapshot engine relies on from the repository, what follows for a backup and a prune, and
  a repository that keeps that contract while any of its calls may fail.

  \<open>stored s\<close> is what a Space's repository holds: the manifests another client would see. \<open>working s\<close>
  is what the open session sees. A commit makes the working set the stored one; a failed commit
  may or may not have done so.
\<close>

definition never_expires :: "'p policy option \<Rightarrow> bool" where
  "never_expires q \<longleftrightarrow> (\<exists>p. q = Some p \<and> is_never_expire_by_count (po_retention p))"

definition complete_in :: "manifest set \<Rightarrow> manifest set" where
  "complete_in M = {m \<in> M. is_complete m}"

text \<open>
  What a prune with a cutoff leaves: of the complete manifests, the newest and those not older than
  the cutoff. Nothing incomplete.
\<close>

definition pruned :: "manifest set \<Rightarrow> time \<Rightarrow> manifest set \<Rightarrow> bool" where
  "pruned S cutoff T \<longleftrightarrow>
     (\<exists>n. (\<forall>m\<in>complete_in S. n \<in> complete_in S \<and> mf_start m \<le> mf_start n) \<and>
        T = {m \<in> complete_in S. cutoff \<le> mf_start m \<or> m = n})"

text \<open>The backup's session: complete manifests stay, one is added, and it covers the whole source.\<close>

definition snapshot_adds :: "manifest set \<Rightarrow> manifest set \<Rightarrow> snap_info \<Rightarrow> bool" where
  "snapshot_adds S T i \<longleftrightarrow> (\<exists>m. assert_complete m = None \<and> m \<notin> S \<and> i = to_info m \<and> T = insert m (complete_in S))"

lemma complete_in_simps [simp]:
  "complete_in (M \<union> N) = complete_in M \<union> complete_in N"
  "complete_in {} = {}"
  "complete_in (insert m M) = (if is_complete m then insert m (complete_in M) else complete_in M)"
  "complete_in (complete_in M) = complete_in M"
  by (auto simp: complete_in_def)

locale repository =
  fixes k :: "('s, 'x, 'p, 't) kopia" and src :: string
    and stored working :: "'s \<Rightarrow> manifest set" and pol :: "'s \<Rightarrow> 'p policy option"
  assumes lifecycle: "f \<in> {k_open k True, k_open k False, k_close k, k_initialize k, k_mkdir k, k_register k,
        k_connect k, k_open_repo k, k_close_repo k} \<Longrightarrow> f s = (u, s') \<Longrightarrow> stored s' = stored s"
    and cleanup: "stored (k_rmdir k s) = stored s" "stored (k_release k s) = stored s"
    and opened: "k_open_repo k s = (Inr v, s') \<Longrightarrow> working s' = stored s'"
    and begin_stored: "k_begin k s = (u, s') \<Longrightarrow> stored s' = stored s"
    and begin_working: "k_begin k s = (Inr v, s') \<Longrightarrow> working s' = stored s"
    and commit_ok: "k_commit k s = (Inr v, s') \<Longrightarrow> stored s' = working s"
    and commit_fails: "k_commit k s = (Inl e, s') \<Longrightarrow> stored s' = stored s \<or> stored s' = working s"
    and abort: "stored (k_abort k s) = stored s"
    and list_view: "k_list k src s = (ms, s') \<Longrightarrow> stored s' = stored s \<and> working s' = working s \<and> pol s' = pol s"
    and list_ok: "k_list k src s = (Inr mans, s') \<Longrightarrow> set mans = working s \<and> distinct (map mf_id mans)"
    and delete_stored: "k_delete k i s = (u, s') \<Longrightarrow> stored s' = stored s"
    and delete_ok: "k_delete k i s = (Inr v, s') \<Longrightarrow> working s' = {m \<in> working s. mf_id m \<noteq> i}"
    and save_stored: "k_save k src m s = (w, s') \<Longrightarrow> stored s' = stored s"
    and save_ok: "k_save k src m s = (Inr m', s') \<Longrightarrow>
        m' = m\<lparr>mf_id := mf_id m'\<rparr> \<and> mf_id m' \<notin> mf_id ` working s \<and> working s' = insert m' (working s)"
    and policy_view: "k_policy k src s = (q, s') \<Longrightarrow> stored s' = stored s \<and> working s' = working s \<and> pol s' = pol s"
    and policy_ok: "k_policy k src s = (Inr q', s') \<Longrightarrow> q' = pol s"
    and set_policy_view: "k_set_policy k src p s = (u, s') \<Longrightarrow> stored s' = stored s \<and> working s' = working s"
    and set_policy_ok: "k_set_policy k src p s = (Inr v, s') \<Longrightarrow> pol s' = Some p"
    and tree_view: "k_policy_tree k src s = (t, s') \<Longrightarrow> stored s' = stored s \<and> working s' = working s \<and> pol s' = pol s"
    and upload_checkpoints: "k_upload k opts x tree src prev s = (w, s') \<Longrightarrow> never_expires (pol s) \<Longrightarrow>
        complete_in (stored s') = complete_in (stored s) \<and> complete_in (working s') = complete_in (working s)"
    and owner_view: "k_owner k s = (o', s') \<Longrightarrow> stored s' = stored s \<and> working s' = working s"
    and set_owner_view: "k_set_owner k w' s = (u, s') \<Longrightarrow> stored s' = stored s \<and> working s' = working s"
    and maintain_view: "k_maintain k s = (u, s') \<Longrightarrow> stored s' = stored s \<and> working s' = working s"
begin

lemma delete_manifests_effect:
  "delete_manifests k what is s = (r, s') \<Longrightarrow>
     stored s' = stored s \<and> (\<forall>u. r = Inr u \<longrightarrow> working s' = {m \<in> working s. mf_id m \<notin> set is})"
proof (induction "is" arbitrary: s)
  case Nil
  then show ?case by simp
next
  case (Cons i "is")
  from Cons.prems [unfolded delete_manifests.simps] show ?case
  proof (cases rule: try_op_cases)
    case (err e)
    then show ?thesis using delete_stored [OF err(1)] by simp
  next
    case (ok x s1)
    from Cons.IH [OF ok(2)] delete_stored [OF ok(1)] delete_ok [OF ok(1)] show ?thesis by auto
  qed
qed

lemma delete_incomplete_effect:
  assumes "delete_incomplete k src s = (r, s')"
  shows "stored s' = stored s \<and> (\<forall>u. r = Inr u \<longrightarrow> working s' = complete_in (working s))"
  using assms unfolding delete_incomplete_def
proof (cases rule: try_op_cases)
  case (err e)
  then show ?thesis using list_view [OF err(1)] by simp
next
  case (ok mans s1)
  note ms = list_ok [OF ok(1)]
  have "inj_on mf_id (working s)" using ms by (metis distinct_map)
  then show ?thesis
    using delete_manifests_effect [OF ok(2)] list_view [OF ok(1)] ms
    by (auto simp: complete_in_def dest: inj_onD)
qed

lemma write_session_cases:
  assumes "write_session k body s = (r, s')"
  obtains (not_begun) e where "r = Inl e" "stored s' = stored s"
    | (failed) e s1 s2 where "stored s1 = stored s" "working s1 = stored s" "body s1 = (Inl e, s2)"
        "r = Inl e" "stored s' = stored s2"
    | (unknown) e x s1 s2 where "stored s1 = stored s" "working s1 = stored s" "body s1 = (Inr x, s2)"
        "r = Inl e" "stored s' = stored s2 \<or> stored s' = working s2"
    | (written) x s1 s2 where "stored s1 = stored s" "working s1 = stored s" "body s1 = (Inr x, s2)"
        "r = Inr x" "stored s' = working s2"
  using assms unfolding write_session_def
proof (cases rule: try_op_cases)
  case (err e)
  then show thesis using not_begun begin_stored [OF err(1)] by simp
next
  case (ok v s1)
  note s1 = begin_stored [OF ok(1)] begin_working [OF ok(1)]
  obtain y s2 where y: "body s1 = (y, s2)" by fastforce
  show thesis
  proof (cases y)
    case (Inl e)
    then show ?thesis using failed [OF s1] ok(2) y abort [of s2] by simp
  next
    case (Inr x)
    then have "try_op id (k_commit k) (\<lambda>_. ok_op x) s2 = (r, s')" using ok(2) y by simp
    then show ?thesis
    proof (cases rule: try_op_cases)
      case (err e)
      then show ?thesis using unknown [OF s1] y Inr commit_fails [OF err(1)] by simp
    next
      case (ok w s3)
      then show ?thesis using written [OF s1] y Inr commit_ok [OF ok(1)] by simp
    qed
  qed
qed

text \<open>Opening and closing a repository changes nothing that is stored: only the body does.\<close>

definition only_body :: "('s, snap_error, 'a) op \<Rightarrow> ('s, snap_error, 'a) op \<Rightarrow> 's \<Rightarrow> bool" where
  "only_body fn g s \<longleftrightarrow> (\<forall>r s'. g s = (r, s') \<longrightarrow>
     (\<exists>e. r = Inl e) \<and> stored s' = stored s \<or>
     (\<exists>s1 r1 s2. stored s1 = stored s \<and> working s1 = stored s \<and> fn s1 = (r1, s2) \<and>
        stored s' = stored s2 \<and> ((\<exists>e. r = Inl e) \<or> r = r1)))"

lemma only_body_fail: "only_body fn (fail_op e) s"
  by (simp add: only_body_def)

lemma only_body_try:
  assumes "\<And>u s1. f s = (u, s1) \<Longrightarrow> stored s1 = stored s" "\<And>x s1. f s = (Inr x, s1) \<Longrightarrow> only_body fn (K x) s1"
  shows "only_body fn (try_op w f K) s"
  unfolding only_body_def
proof (intro allI impI)
  fix r s'
  assume "try_op w f K s = (r, s')"
  then show "(\<exists>e. r = Inl e) \<and> stored s' = stored s \<or>
     (\<exists>s1 r1 s2. stored s1 = stored s \<and> working s1 = stored s \<and> fn s1 = (r1, s2) \<and>
        stored s' = stored s2 \<and> ((\<exists>e. r = Inl e) \<or> r = r1))"
  proof (cases rule: try_op_cases)
    case (err e)
    then show ?thesis using assms(1) by blast
  next
    case (ok x s1)
    then show ?thesis using assms(1) [OF ok(1)] assms(2) [OF ok(1)] unfolding only_body_def by simp
  qed
qed

lemma only_body_close:
  assumes "only_body fn K s" "\<And>s0 u s1. close s0 = (u, s1) \<Longrightarrow> stored s1 = stored s0"
  shows "only_body fn (defer_close w close K) s"
  unfolding only_body_def
proof (intro allI impI)
  fix r s'
  assume "defer_close w close K s = (r, s')"
  then obtain r0 s1 c where "K s = (r0, s1)" "close s1 = (c, s')" "r = r0 \<or> (\<exists>e. r = Inl e)"
    by (rule defer_close_cases)
  then show "(\<exists>e. r = Inl e) \<and> stored s' = stored s \<or>
     (\<exists>s1 r1 s2. stored s1 = stored s \<and> working s1 = stored s \<and> fn s1 = (r1, s2) \<and>
        stored s' = stored s2 \<and> ((\<exists>e. r = Inl e) \<or> r = r1))"
    using assms(1) assms(2) [of s1] unfolding only_body_def by metis
qed

lemma only_body_defer:
  assumes "only_body fn K s" "\<And>s0. stored (f s0) = stored s0"
  shows "only_body fn (defer_op f K) s"
  using assms unfolding only_body_def defer_op_def by (auto simp: apsnd_def map_prod_def split: prod.splits)

lemma initialize_stored: "initialize_if_needed k s = (r, s') \<Longrightarrow> stored s' = stored s"
  by (auto simp: initialize_if_needed_def split: prod.splits sum.splits if_splits
      dest: lifecycle [of "k_initialize k", simplified])

lemma with_repo_only_body: "only_body fn (with_repo k dk sp create fn) s"
proof -
  have body: "only_body fn fn s" if "working s = stored s" for s
    using that by (auto simp: only_body_def)
  note quiet = lifecycle [of "k_open k True", simplified] lifecycle [of "k_open k False", simplified]
    lifecycle [of "k_mkdir k", simplified] lifecycle [of "k_register k", simplified]
    lifecycle [of "k_connect k", simplified] lifecycle [of "k_open_repo k", simplified]
    lifecycle [of "k_close k", simplified] lifecycle [of "k_close_repo k", simplified]
  show ?thesis
    unfolding with_repo_def
    by (cases create)
      (auto intro!: only_body_fail only_body_try only_body_close only_body_defer body cleanup
        dest: quiet opened initialize_stored)
qed

lemma with_repo_cases:
  assumes "with_repo k dk sp create fn s = (r, s')"
  obtains (early) e where "r = Inl e" "stored s' = stored s"
    | (ran) s1 r1 s2 where "stored s1 = stored s" "working s1 = stored s" "fn s1 = (r1, s2)"
        "stored s' = stored s2" "(\<exists>e. r = Inl e) \<or> r = r1"
  using with_repo_only_body [of fn dk sp create s] assms unfolding only_body_def by blast

lemma run_maintenance_stored:
  assumes "run_maintenance k s = (r, s')"
  shows "stored s' = stored s"
proof -
  have claim: "stored s2 = stored s1 \<and> working s2 = working s1" if "claim_maintenance k s1 = (u, s2)" for s1 u s2
    using that unfolding claim_maintenance_def
    by (auto elim!: try_op_cases split: if_splits dest!: owner_view set_owner_view)
  have body: "stored s2 = stored s1 \<and> working s2 = working s1"
    if "try_op id (claim_maintenance k) (\<lambda>_. k_maintain k) s1 = (u, s2)" for s1 u s2
    using that by (auto elim!: try_op_cases dest!: claim maintain_view)
  have session: "stored s2 = stored s"
    if "write_session k (try_op id (claim_maintenance k) (\<lambda>_. k_maintain k)) s = (u, s2)" for u s2
    using that by (cases rule: write_session_cases) (auto dest: body)
  show ?thesis
    using assms unfolding run_maintenance_def by (auto elim!: try_op_cases split: if_splits dest: session)
qed

text \<open>The run's policy step: afterwards kopia never expires a snapshot by count.\<close>

lemma disable_count_effect:
  assumes "disable_count_based_retention k src s = (r, s')"
  shows "stored s' = stored s \<and> working s' = working s \<and> (\<forall>u. r = Inr u \<longrightarrow> never_expires (pol s'))"
  using assms unfolding disable_count_based_retention_def
proof (cases rule: try_op_cases)
  case (err e)
  then show ?thesis using policy_view [OF err(1)] by simp
next
  case (ok q s1)
  note v = policy_view [OF ok(1)] policy_ok [OF ok(1)]
  have set: "stored s2 = stored s \<and> working s2 = working s \<and> (\<forall>u. r2 = Inr u \<longrightarrow> never_expires (pol s2))"
    if "k_set_policy k src \<lparr>po_retention = never_expire_by_count, po_rest = rest\<rparr> s1 = (r2, s2)" for rest r2 s2
    using set_policy_view [OF that] set_policy_ok [of _ s1 _ s2] that v by (auto simp: never_expires_def)
  show ?thesis
    using ok(2) v by (auto simp: never_expires_def split: if_splits option.splits elim!: try_op_cases dest!: set)
qed

lemma assert_complete_None: "assert_complete m = None \<Longrightarrow> is_complete m"
  by (simp add: assert_complete_def is_complete_def split: if_splits)

lemma assert_complete_id [simp]: "assert_complete (m\<lparr>mf_id := i\<rparr>) = assert_complete m"
  by (simp add: assert_complete_def)

lemma snapshot_body_effect:
  assumes "snapshot_body opts k src x s = (r, s')"
  shows "complete_in (stored s') = complete_in (stored s) \<and>
    (\<forall>i. r = Inr i \<longrightarrow> snapshot_adds (complete_in (working s)) (working s') i)"
  using assms unfolding snapshot_body_def
proof (cases rule: try_op_cases)
  case (err e)
  then show ?thesis using disable_count_effect [OF err(1)] by simp
next
  case (ok u s1)
  note v1 = disable_count_effect [OF ok(1)]
  from ok(2) show ?thesis
  proof (cases rule: try_op_cases)
    case (err e)
    then show ?thesis using tree_view [OF err(1)] v1 by simp
  next
    case (ok tree s2)
    note v2 = tree_view [OF ok(1)]
    from ok(2) show ?thesis
    proof (cases rule: try_op_cases)
      case (err e)
      then show ?thesis using list_view [OF err(1)] v1 v2 by simp
    next
      case (ok prev s3)
      note v3 = list_view [OF ok(1)]
      have pol3: "never_expires (pol s3)" using v1 v2 v3 by simp
      from ok(2) show ?thesis
      proof (cases rule: try_op_cases)
        case (err e)
        then show ?thesis using upload_checkpoints [OF err(1) pol3] v1 v2 v3 by simp
      next
        case (ok man s4)
        note v4 = upload_checkpoints [OF ok(1) pol3]
        have base: "complete_in (stored s4) = complete_in (stored s)" "complete_in (working s4) = complete_in (working s)"
          using v1 v2 v3 v4 by simp_all
        from ok(2) show ?thesis
        proof (cases rule: require_op_cases)
          case (err e)
          then show ?thesis using base by simp
        next
          case ok
          note whole = ok(1)
          from ok(2) show ?thesis
          proof (cases rule: try_op_cases)
            case (err e)
            then show ?thesis using base save_stored [OF err(1)] by simp
          next
            case (ok saved s5)
            note v5 = save_stored [OF ok(1)] save_ok [OF ok(1)]
            have saved: "assert_complete saved = None" using whole v5(2) by (metis assert_complete_id)
            have fresh: "saved \<notin> complete_in (working s)" using v5(2) base(2) by (auto simp: complete_in_def)
            from ok(2) show ?thesis
            proof (cases rule: try_op_cases)
              case (err e)
              then show ?thesis using base v5 delete_incomplete_effect [OF err(1)] by simp
            next
              case (ok w s6)
              note v6 = delete_incomplete_effect [OF ok(1)]
              have "working s6 = insert saved (complete_in (working s))"
                using v6 v5 base saved assert_complete_None [OF saved] by auto
              then show ?thesis
                using ok(2) v6 v5 base saved fresh by (auto simp: snapshot_adds_def)
            qed
          qed
        qed
      qed
    qed
  qed
qed

lemma discard_incomplete_effect:
  assumes "discard_incomplete k src s = (r, s')"
  shows "complete_in (stored s') = complete_in (stored s)"
  using assms unfolding discard_incomplete_def
proof (cases rule: write_session_cases)
  case (not_begun e)
  then show ?thesis by simp
next
  case (failed e s1 s2)
  then show ?thesis using delete_incomplete_effect [OF failed(3)] by simp
next
  case (unknown e x s1 s2)
  then show ?thesis using delete_incomplete_effect [OF unknown(3)] by auto
next
  case (written x s1 s2)
  then show ?thesis using delete_incomplete_effect [OF written(3)] by auto
qed

lemma engine_snapshot_effect:
  assumes "engine_snapshot opts k dk space x s = (r, s')" "src = source_info space"
  shows "(case r of
      Inr i \<Rightarrow> snapshot_adds (complete_in (stored s)) (stored s') i
    | Inl _ \<Rightarrow> complete_in (stored s') = complete_in (stored s) \<or>
        (\<exists>i. snapshot_adds (complete_in (stored s)) (complete_in (stored s')) i))"
proof (cases x)
  case None
  then show ?thesis using assms(1) by (simp add: engine_snapshot_def)
next
  case (Some src')
  let ?fn = "\<lambda>s. case write_session k (snapshot_body opts k src src') s of
      (Inl e, s1) \<Rightarrow> (Inl e, snd (discard_incomplete k src s1)) | (Inr i, s1) \<Rightarrow> (Inr i, s1)"
  have "with_repo k dk space True ?fn s = (r, s')"
    using assms(1) Some unfolding engine_snapshot_def assms(2) by simp
  then show ?thesis
  proof (cases rule: with_repo_cases)
    case (early e)
    then show ?thesis by simp
  next
    case (ran s1 r1 s2)
    obtain w s3 where w: "write_session k (snapshot_body opts k src src') s1 = (w, s3)" by fastforce
    have disc: "complete_in (stored (snd (discard_incomplete k src s3))) = complete_in (stored s3)"
      using discard_incomplete_effect by (metis prod.collapse)
    have adds: "snapshot_adds (complete_in (stored s)) T i \<Longrightarrow> snapshot_adds (complete_in (stored s)) (complete_in T) i" for T i
      by (auto simp: snapshot_adds_def dest: assert_complete_None)
    from w show ?thesis
    proof (cases rule: write_session_cases)
      case (not_begun e)
      then show ?thesis using ran w disc by (auto split: sum.splits)
    next
      case (failed e t1 t2)
      then show ?thesis
        using ran w disc snapshot_body_effect [OF failed(3)] by (auto split: sum.splits)
    next
      case (unknown e i t1 t2)
      note eff = snapshot_body_effect [OF unknown(3)]
      have a: "snapshot_adds (complete_in (stored s)) (complete_in (working t2)) i"
        using adds eff unknown(1,2) ran(1,2) by simp
      have "complete_in (stored s') = complete_in (stored s) \<or> complete_in (stored s') = complete_in (working t2)"
        using ran w unknown disc eff by auto
      then have "complete_in (stored s') = complete_in (stored s) \<or>
          (\<exists>i. snapshot_adds (complete_in (stored s)) (complete_in (stored s')) i)"
        using a by metis
      moreover have "\<exists>e. r = Inl e" using ran w unknown by auto
      ultimately show ?thesis by auto
    next
      case (written i t1 t2)
      then have a: "snapshot_adds (complete_in (stored s)) (stored s') i"
        using ran w snapshot_body_effect [OF written(3)] by auto
      have "r = Inr i \<or> (\<exists>e. r = Inl e)" using ran w written by auto
      then show ?thesis using a adds [OF a] by auto
    qed
  qed
qed

text \<open>Only a complete snapshot can be restored from, and every complete one can.\<close>

lemma find_manifest_complete:
  assumes "find_manifest k src i s = (r, s')"
  shows "(case r of
      Inr m \<Rightarrow> m \<in> complete_in (working s) \<and> mf_id m = i
    | Inl e \<Rightarrow> e = NoSuchSnapshot i \<longrightarrow> i \<notin> mf_id ` complete_in (working s))"
proof (cases "i = []")
  case True
  then show ?thesis using assms by (simp add: find_manifest_def)
next
  case False
  then have "try_op (SnapWrapped ''snapshot: list snapshots'') (k_list k src) (\<lambda>mans.
        case find (\<lambda>m. mf_id m = i) (complete_only mans) of
          Some m \<Rightarrow> ok_op m
        | None \<Rightarrow> fail_op (NoSuchSnapshot i)) s = (r, s')"
    using assms by (simp add: find_manifest_def)
  then show ?thesis
  proof (cases rule: try_op_cases)
    case (err e)
    then show ?thesis by simp
  next
    case (ok mans s1)
    have set: "set (complete_only mans) = complete_in (working s)"
      using list_ok [OF ok(1)] by (auto simp: complete_in_def)
    show ?thesis
    proof (cases "find (\<lambda>m. mf_id m = i) (complete_only mans)")
      case None
      then have "i \<notin> mf_id ` complete_in (working s)"
        unfolding find_None_set set [symmetric] by auto
      then show ?thesis using ok(2) None by simp
    next
      case (Some m)
      have "m \<in> complete_in (working s)" "mf_id m = i" using find_Some_set [OF Some] unfolding set by auto
      then show ?thesis using ok(2) Some by simp
    qed
  qed
qed

end

subsection \<open>Pruning\<close>

locale pruning = repository k src stored working pol + newest_first srt
  for k :: "('s, 'x, 'p, 't) kopia" and src :: string and stored working :: "'s \<Rightarrow> manifest set"
    and pol :: "'s \<Rightarrow> 'p policy option" and srt :: manifest_sort
begin

lemma survivors_pruned:
  assumes "set mans = S"
  shows "pruned S cutoff {m \<in> S. survives srt mans cutoff m}"
proof -
  let ?n = "hd (srt (complete_only mans))"
  have "\<forall>m\<in>complete_in S. ?n \<in> complete_in S \<and> mf_start m \<le> mf_start ?n"
    using hd_newest [of _ "complete_only mans"] assms by (auto simp: complete_in_def)
  then show ?thesis
    unfolding pruned_def by (intro exI [of _ ?n]) (auto simp: survives_def complete_in_def)
qed

lemma prune_body_effect:
  assumes "prune_body srt k src cutoff s = (r, s')"
  shows "stored s' = stored s \<and> (\<forall>st. r = Inr st \<longrightarrow> pruned (working s) cutoff (working s') \<and>
    ps_deleted st = card (working s - working s') \<and> ps_kept st = card (working s'))"
  using assms unfolding prune_body_def
proof (cases rule: try_op_cases)
  case (err e)
  then show ?thesis using list_view [OF err(1)] by simp
next
  case (ok mans s1)
  note v = list_view [OF ok(1)] and ms = list_ok [OF ok(1)]
  let ?x = "expired_manifests srt mans cutoff"
  from ok(2) [unfolded Let_def] show ?thesis
  proof (cases rule: try_op_cases)
    case (err e)
    then show ?thesis using delete_manifests_effect [OF err(1)] v by simp
  next
    case (ok u s2)
    have w: "working s2 = {m \<in> working s. survives srt mans cutoff m}"
      using delete_manifests_effect [OF ok(1)] v ms expired_set [of mans _ cutoff] by auto
    have "working s - working s2 = {m \<in> working s. mf_id m \<in> set ?x}"
      using w ms expired_set [of mans _ cutoff] by auto
    then have "mf_id ` (working s - working s2) = set ?x"
      using expired_subset [of mans cutoff] ms by auto
    moreover have "inj_on mf_id (working s - working s2)"
      using ms by (metis distinct_map inj_on_diff)
    ultimately have del: "card (working s - working s2) = length ?x"
      using expired_distinct [of mans cutoff] ms by (metis card_image distinct_card)
    have "distinct (filter (survives srt mans cutoff) mans)" using ms by (simp add: distinct_map)
    then have kept: "card (working s2) = kept_count mans ?x"
      using kept_count_survivors [of mans cutoff] ms w distinct_card [of "filter (survives srt mans cutoff) mans"] by simp
    show ?thesis
      using ok(2) delete_manifests_effect [OF ok(1)] v survivors_pruned [of mans "working s" cutoff] ms w del kept
      by auto
  qed
qed

lemma engine_prune_effect:
  assumes "engine_prune srt k dk space window now s = (r, s')" "src = source_info space"
  shows "(case r of
      Inr st \<Rightarrow> pruned (stored s) (now - window) (stored s') \<and>
        ps_deleted st = card (stored s - stored s') \<and> ps_kept st = card (stored s')
    | Inl _ \<Rightarrow> stored s' = stored s \<or> pruned (stored s) (now - window) (stored s'))"
proof (cases "window \<le> 0")
  case True
  then show ?thesis using assms(1) by (simp add: engine_prune_def)
next
  case False
  let ?w = "write_session k (prune_body srt k src (now - window))"
  have "with_repo k dk space False (try_op id ?w (\<lambda>st. try_op id (run_maintenance k) (\<lambda>_. ok_op st))) s = (r, s')"
    using assms False by (simp add: engine_prune_def)
  then show ?thesis
  proof (cases rule: with_repo_cases)
    case (early e)
    then show ?thesis by simp
  next
    case (ran s1 r1 s2)
    have session: "(case w of
        Inr st \<Rightarrow> pruned (stored s) (now - window) (stored s3) \<and>
          ps_deleted st = card (stored s - stored s3) \<and> ps_kept st = card (stored s3)
      | Inl _ \<Rightarrow> stored s3 = stored s \<or> pruned (stored s) (now - window) (stored s3))" if "?w s1 = (w, s3)" for w s3
      using that by (cases rule: write_session_cases) (use ran prune_body_effect in \<open>fastforce+\<close>)
    from ran(3) have "(case r1 of
        Inr st \<Rightarrow> pruned (stored s) (now - window) (stored s2) \<and>
          ps_deleted st = card (stored s - stored s2) \<and> ps_kept st = card (stored s2)
      | Inl _ \<Rightarrow> stored s2 = stored s \<or> pruned (stored s) (now - window) (stored s2))"
    proof (cases rule: try_op_cases)
      case (err e)
      then show ?thesis using session [OF err(1)] by simp
    next
      case (ok st s3)
      from ok(2) show ?thesis
        by (cases rule: try_op_cases) (use session [OF ok(1)] run_maintenance_stored in \<open>auto\<close>)
    qed
    then show ?thesis using ran by (auto split: sum.splits)
  qed
qed

end

subsection \<open>What a run holds\<close>

text \<open>
  A run holds a storage connection, a work directory (kopia's configuration and cache), a handle on
  the credentials and an open repository. Whatever fails, all four are given back.
\<close>

datatype resource = Storage | WorkDir | Handle | OpenRepo

locale resources =
  fixes k :: "('s, 'x, 'p, 't) kopia" and held :: "'s \<Rightarrow> resource multiset"
  assumes open_ok: "k_open k c s = (Inr v, s') \<Longrightarrow> held s' = add_mset Storage (held s)"
    and open_fails: "k_open k c s = (Inl e, s') \<Longrightarrow> held s' = held s"
    and close_held: "k_close k s = (u, s') \<Longrightarrow> held s' = held s - {#Storage#}"
    and initialize_held: "k_initialize k s = (u, s') \<Longrightarrow> held s' = held s"
    and mkdir_ok: "k_mkdir k s = (Inr v, s') \<Longrightarrow> held s' = add_mset WorkDir (held s)"
    and mkdir_fails: "k_mkdir k s = (Inl e, s') \<Longrightarrow> held s' = held s"
    and rmdir_held: "held (k_rmdir k s) = held s - {#WorkDir#}"
    and register_ok: "k_register k s = (Inr v, s') \<Longrightarrow> held s' = add_mset Handle (held s)"
    and register_fails: "k_register k s = (Inl e, s') \<Longrightarrow> held s' = held s"
    and release_held: "held (k_release k s) = held s - {#Handle#}"
    and connect_held: "k_connect k s = (u, s') \<Longrightarrow> held s' = held s"
    and open_repo_ok: "k_open_repo k s = (Inr v, s') \<Longrightarrow> held s' = add_mset OpenRepo (held s)"
    and open_repo_fails: "k_open_repo k s = (Inl e, s') \<Longrightarrow> held s' = held s"
    and close_repo_held: "k_close_repo k s = (u, s') \<Longrightarrow> held s' = held s - {#OpenRepo#}"
begin

definition balanced :: "('s, snap_error, 'a) op \<Rightarrow> 's \<Rightarrow> bool" where
  "balanced f s \<longleftrightarrow> held (snd (f s)) = held s"

lemma balanced_fail: "balanced (fail_op e) s"
  by (simp add: balanced_def)

lemma balanced_if: "balanced f s \<Longrightarrow> balanced g s \<Longrightarrow> balanced (if c then f else g) s"
  by simp

lemma balanced_try:
  assumes "\<And>e s1. f s = (Inl e, s1) \<Longrightarrow> held s1 = held s"
    "\<And>x s1. f s = (Inr x, s1) \<Longrightarrow> held (snd (K x s1)) = held s"
  shows "balanced (try_op w f K) s"
  using assms by (auto simp: balanced_def try_op_def split: prod.splits sum.splits)

lemma close_gives_back:
  assumes "held (snd (K s)) = add_mset x M" "\<And>s0 u s1. close s0 = (u, s1) \<Longrightarrow> held s1 = held s0 - {#x#}"
  shows "held (snd (defer_close w close K s)) = M"
proof -
  obtain r s' where d: "defer_close w close K s = (r, s')" by fastforce
  then obtain r0 s1 c where "K s = (r0, s1)" "close s1 = (c, s')" by (rule defer_close_cases)
  then show ?thesis using assms d by simp
qed

lemma defer_gives_back:
  "held (snd (K s)) = add_mset x M \<Longrightarrow> (\<And>s0. held (f s0) = held s0 - {#x#}) \<Longrightarrow> held (snd (defer_op f K s)) = M"
  by (simp add: defer_op_def)

lemma with_repo_balanced:
  assumes "\<And>s0. held (snd (fn s0)) = held s0"
  shows "held (snd (with_repo k dk sp create fn s)) = held s"
proof -
  note cl = close_held close_repo_held
  have body: "balanced (try_op w (k_open_repo k) (\<lambda>_. defer_close w' (k_close_repo k) fn)) s" for w w' s
    by (intro balanced_try open_repo_fails close_gives_back [where x = OpenRepo])
      (auto simp: assms dest: cl open_repo_ok)
  have connect: "balanced (try_op w0 (k_connect k) (\<lambda>_. try_op w (k_open_repo k) (\<lambda>_. defer_close w' (k_close_repo k) fn))) s"
    for w0 w w' s
    using body connect_held by (intro balanced_try) (auto simp: balanced_def dest: connect_held)
  have reg: "balanced (try_op w1 (k_register k) (\<lambda>_. defer_op (k_release k)
      (try_op w0 (k_connect k) (\<lambda>_. try_op w (k_open_repo k) (\<lambda>_. defer_close w' (k_close_repo k) fn))))) s"
    for w1 w0 w w' s
    using connect
    by (intro balanced_try register_fails defer_gives_back [where x = Handle])
      (auto simp: balanced_def release_held dest: register_ok)
  have dir: "balanced (try_op w2 (k_mkdir k) (\<lambda>_. defer_op (k_rmdir k)
      (try_op w1 (k_register k) (\<lambda>_. defer_op (k_release k)
      (try_op w0 (k_connect k) (\<lambda>_. try_op w (k_open_repo k) (\<lambda>_. defer_close w' (k_close_repo k) fn))))))) s"
    for w2 w1 w0 w w' s
    using reg
    by (intro balanced_try mkdir_fails defer_gives_back [where x = WorkDir])
      (auto simp: balanced_def rmdir_held dest: mkdir_ok)
  have init: "held s1 = held s" if "(if create then initialize_if_needed k else ok_op ()) s = (u, s1)" for s u s1
    using that by (auto simp: initialize_if_needed_def split: if_splits prod.splits sum.splits dest: initialize_held)
  have "balanced (with_repo k dk sp create fn) s"
    unfolding with_repo_def
  proof (intro balanced_if balanced_fail balanced_try)
    fix e s1
    assume "k_open k create s = (Inl e, s1)"
    then show "held s1 = held s" by (rule open_fails)
  next
    fix x :: unit and s1
    assume o: "k_open k create s = (Inr x, s1)"
    have "balanced (try_op id (if create then initialize_if_needed k else ok_op ()) (\<lambda>_.
        try_op (SnapWrapped ''snapshot: create work dir'') (k_mkdir k) (\<lambda>_.
        defer_op (k_rmdir k)
       (try_op id (k_register k) (\<lambda>_.
        defer_op (k_release k)
       (try_op (SnapWrapped ''snapshot: connect repository'') (k_connect k) (\<lambda>_.
        try_op (SnapWrapped ''snapshot: open repository'') (k_open_repo k) (\<lambda>_.
        defer_close (SnapWrapped ''snapshot: close repository'') (k_close_repo k) fn)))))))) s1"
      using dir by (intro balanced_try) (auto simp: balanced_def dest!: init)
    then show "held (snd (defer_close (SnapWrapped ''snapshot: close storage'') (k_close k)
       (try_op id (if create then initialize_if_needed k else ok_op ()) (\<lambda>_.
        try_op (SnapWrapped ''snapshot: create work dir'') (k_mkdir k) (\<lambda>_.
        defer_op (k_rmdir k)
       (try_op id (k_register k) (\<lambda>_.
        defer_op (k_release k)
       (try_op (SnapWrapped ''snapshot: connect repository'') (k_connect k) (\<lambda>_.
        try_op (SnapWrapped ''snapshot: open repository'') (k_open_repo k) (\<lambda>_.
        defer_close (SnapWrapped ''snapshot: close repository'') (k_close_repo k) fn)))))))) s1)) = held s"
      using open_ok [OF o] by (intro close_gives_back [where x = Storage]) (auto simp: balanced_def dest: cl)
  qed
  then show ?thesis by (simp add: balanced_def)
qed

end

end
