(* ===== verification/Snap_Faulty.thy ===== *)
theory Snap_Faulty
  imports Snap_Repo
begin

text \<open>
  A repository in which every call may fail, before or after it had its effect, shown to keep the
  contract of Snap_Repo, and the properties of backups and prunes over it.
\<close>

datatype trouble = Fine | Refused | Lost

type_synonym manifest_table = "(string \<times> string \<times> manifest) list"

record 'p repo_model =
  rm_stored :: manifest_table
  rm_working :: manifest_table
  rm_policies :: "(string \<times> 'p policy) list"
  rm_owner :: string
  rm_held :: "resource list"
  rm_trouble :: "trouble list"

definition rm_op :: "('p repo_model, snap_error, 'a) op \<Rightarrow> ('p repo_model, snap_error, 'a) op" where
  "rm_op f r =
     (case rm_trouble r of
        [] \<Rightarrow> f r
      | t # ts \<Rightarrow>
         (case t of
            Fine \<Rightarrow> f (r\<lparr>rm_trouble := ts\<rparr>)
          | Refused \<Rightarrow> (Inl (LibraryError ''refused''), r\<lparr>rm_trouble := ts\<rparr>)
          | Lost \<Rightarrow> (Inl (LibraryError ''no answer''), snd (f (r\<lparr>rm_trouble := ts\<rparr>)))))"

text \<open>Opening something either works or changes nothing; closing it always gives it back.\<close>

definition rm_take :: "resource \<Rightarrow> ('p repo_model, snap_error, unit) op" where
  "rm_take x r =
     (case rm_trouble r of
        [] \<Rightarrow> (Inr (), r\<lparr>rm_held := x # rm_held r\<rparr>)
      | t # ts \<Rightarrow> if t = Fine then (Inr (), r\<lparr>rm_held := x # rm_held r, rm_trouble := ts\<rparr>)
          else (Inl (LibraryError ''refused''), r\<lparr>rm_trouble := ts\<rparr>))"

definition rm_drop :: "resource \<Rightarrow> ('p repo_model, snap_error, unit) op" where
  "rm_drop x r =
     (case rm_trouble r of
        [] \<Rightarrow> (Inr (), r\<lparr>rm_held := remove1 x (rm_held r)\<rparr>)
      | t # ts \<Rightarrow> (if t = Fine then Inr () else Inl (LibraryError ''close failed''),
          r\<lparr>rm_held := remove1 x (rm_held r), rm_trouble := ts\<rparr>))"

definition fresh_id :: "manifest_table \<Rightarrow> string" where
  "fresh_id t = replicate (Suc (foldr (\<lambda>e n. max (length (fst e)) n) t 0)) (CHR ''m'')"

definition table_view :: "string \<Rightarrow> manifest_table \<Rightarrow> manifest set" where
  "table_view src t = {m. map_of t (mf_id m) = Some (src, m)}"

definition table_list :: "string \<Rightarrow> manifest_table \<Rightarrow> manifest list" where
  "table_list src t = map (snd \<circ> snd) (filter (\<lambda>e. fst (snd e) = src \<and> mf_id (snd (snd e)) = fst e) (AList.clearjunk t))"

definition table_add :: "string \<Rightarrow> manifest \<Rightarrow> manifest_table \<Rightarrow> manifest_table" where
  "table_add src m t = AList.update (fresh_id t) (src, m\<lparr>mf_id := fresh_id t\<rparr>) t"

text \<open>
  What an upload does on the way: it flushes the checkpoints its source's script names, and it
  applies the count-based policy if there is one; here one that expires every complete manifest.
\<close>

definition checkpoint :: "string \<Rightarrow> bool \<Rightarrow> manifest list \<Rightarrow> manifest_table \<Rightarrow> manifest_table" where
  "checkpoint src keep ms t =
     (let t' = fold (\<lambda>m. table_add src (m\<lparr>mf_incomplete := ''checkpoint''\<rparr>)) ms t in
      if keep then t' else filter (\<lambda>e. \<not> is_complete (snd (snd e))) t')"

type_synonym upload_script = "manifest list \<times> (snap_error + manifest)"

definition faulty_kopia :: "'p \<Rightarrow> ('p repo_model, upload_script, 'p, unit) kopia" where
  "faulty_kopia rest = \<lparr>
     k_open = (\<lambda>c. rm_take Storage), k_close = rm_drop Storage, k_initialize = rm_op (fail_op AlreadyInitialized),
     k_mkdir = rm_take WorkDir, k_rmdir = (\<lambda>r. r\<lparr>rm_held := remove1 WorkDir (rm_held r)\<rparr>),
     k_register = rm_take Handle, k_release = (\<lambda>r. r\<lparr>rm_held := remove1 Handle (rm_held r)\<rparr>),
     k_connect = rm_op (ok_op ()),
     k_open_repo = defer_op (\<lambda>r. r\<lparr>rm_working := rm_stored r\<rparr>) (rm_take OpenRepo),
     k_close_repo = rm_drop OpenRepo,
     k_begin = rm_op (\<lambda>r. (Inr (), r\<lparr>rm_working := rm_stored r\<rparr>)),
     k_commit = rm_op (\<lambda>r. (Inr (), r\<lparr>rm_stored := rm_working r\<rparr>)),
     k_abort = (\<lambda>r. r\<lparr>rm_working := rm_stored r\<rparr>),
     k_list = (\<lambda>src. rm_op (\<lambda>r. (Inr (table_list src (rm_working r)), r))),
     k_delete = (\<lambda>i. rm_op (\<lambda>r. (Inr (), r\<lparr>rm_working := AList.delete i (rm_working r)\<rparr>))),
     k_save = (\<lambda>src m. rm_op (\<lambda>r. (Inr (m\<lparr>mf_id := fresh_id (rm_working r)\<rparr>),
        r\<lparr>rm_working := table_add src m (rm_working r)\<rparr>))),
     k_policy = (\<lambda>src. rm_op (\<lambda>r. (Inr (map_of (rm_policies r) src), r))),
     k_no_policy = rest,
     k_set_policy = (\<lambda>src p. rm_op (\<lambda>r. (Inr (), r\<lparr>rm_policies := AList.update src p (rm_policies r)\<rparr>))),
     k_policy_tree = (\<lambda>src. rm_op (ok_op ())),
     k_upload = (\<lambda>opts x tree src prev. rm_op (\<lambda>r.
        let keep = (case map_of (rm_policies r) src of None \<Rightarrow> False | Some p \<Rightarrow> is_never_expire_by_count (po_retention p)) in
        (snd x, r\<lparr>rm_stored := checkpoint src keep (fst x) (rm_stored r),
                  rm_working := checkpoint src keep (fst x) (rm_working r)\<rparr>))),
     k_direct = True,
     k_owner = rm_op (\<lambda>r. (Inr (rm_owner r), r)),
     k_set_owner = (\<lambda>w. rm_op (\<lambda>r. (Inr (), r\<lparr>rm_owner := w\<rparr>))),
     k_identity = ''backup@opencloud'',
     k_maintain = rm_op (\<lambda>r. if rm_owner r = ''backup@opencloud'' then (Inr (), r) else (Inl (MaintenanceOwnedBy (rm_owner r)), r))\<rparr>"

subsection \<open>The contract holds\<close>

lemma fresh_id_notin: "fresh_id t \<notin> fst ` set t"
proof -
  have "length (fst e) \<le> foldr (\<lambda>e n. max (length (fst e)) n) t 0" if "e \<in> set t" for e
    using that by (induction t) auto
  then show ?thesis by (force simp: fresh_id_def)
qed

lemma map_of_fresh [simp]: "map_of t (fresh_id t) = None"
  using fresh_id_notin [of t] by (simp add: map_of_eq_None_iff)

lemma table_view_add:
  "table_view src (table_add src m t) = insert (m\<lparr>mf_id := fresh_id t\<rparr>) (table_view src t)"
  by (auto simp: table_view_def table_add_def map_of_alist_update)

lemma table_view_delete: "table_view src (AList.delete i t) = {m \<in> table_view src t. mf_id m \<noteq> i}"
  by (auto simp: table_view_def map_of_alist_delete)

lemma table_view_fresh: "fresh_id t \<notin> mf_id ` table_view src t"
  by (auto simp: table_view_def) (metis map_of_fresh option.distinct(1))

lemma table_view_stale: "x \<in> table_view src t \<Longrightarrow> fresh_id t \<noteq> mf_id x"
  using table_view_fresh [of t src] by auto

lemma table_list_view: "set (table_list src t) = table_view src t"
proof -
  have "m \<in> set (table_list src t) \<longleftrightarrow> (mf_id m, src, m) \<in> set (AList.clearjunk t)" for m
    by (force simp: table_list_def)
  moreover have "(i, v) \<in> set (AList.clearjunk t) \<longleftrightarrow> map_of t i = Some v" for i v
    by (metis distinct_clearjunk map_of_clearjunk map_of_eq_Some_iff)
  ultimately show ?thesis by (auto simp: table_view_def)
qed

lemma table_list_distinct: "distinct (map mf_id (table_list src t))"
proof -
  let ?f = "filter (\<lambda>e. fst (snd e) = src \<and> mf_id (snd (snd e)) = fst e) (AList.clearjunk t)"
  have "map mf_id (table_list src t) = map fst ?f"
    by (auto simp: table_list_def)
  then show ?thesis by (simp add: distinct_map_filter)
qed

lemma checkpoint_complete:
  "complete_in (table_view src (checkpoint src True ms t)) = complete_in (table_view src t)"
proof -
  have "complete_in (table_view src (fold (\<lambda>m. table_add src (m\<lparr>mf_incomplete := ''checkpoint''\<rparr>)) ms t)) =
      complete_in (table_view src t)"
    by (induction ms arbitrary: t) (simp_all add: table_view_add is_complete_def)
  then show ?thesis by (simp add: checkpoint_def)
qed

lemma rm_op_cases:
  assumes "rm_op f r = (u, r')"
  obtains ts where "f (r\<lparr>rm_trouble := ts\<rparr>) = (u, r')"
    | ts e where "u = Inl e" "r' = snd (f (r\<lparr>rm_trouble := ts\<rparr>))"
    | ts e where "u = Inl e" "r' = r\<lparr>rm_trouble := ts\<rparr>"
proof (cases "rm_trouble r")
  case Nil
  then have "r\<lparr>rm_trouble := []\<rparr> = r" by (cases r) simp
  moreover have "f r = (u, r')" using assms Nil by (simp add: rm_op_def)
  ultimately show ?thesis using that(1) [of "[]"] by metis
next
  case (Cons t ts)
  then show ?thesis
    using assms that(1) [of ts] that(2) [of _ ts] that(3) [of _ ts] by (cases t) (auto simp: rm_op_def)
qed

lemma rm_take_tables:
  "rm_take x r = (u, r') \<Longrightarrow> rm_stored r' = rm_stored r \<and> rm_working r' = rm_working r \<and> rm_policies r' = rm_policies r"
  by (auto simp: rm_take_def split: list.splits if_splits)

lemma rm_take_ok: "rm_take x r = (Inr v, r') \<Longrightarrow> rm_held r' = x # rm_held r"
  by (auto simp: rm_take_def split: list.splits if_splits)

lemma rm_take_fails: "rm_take x r = (Inl e, r') \<Longrightarrow> rm_held r' = rm_held r"
  by (auto simp: rm_take_def split: list.splits if_splits)

lemma rm_drop_tables:
  "rm_drop x r = (u, r') \<Longrightarrow> rm_stored r' = rm_stored r \<and> rm_working r' = rm_working r \<and> rm_policies r' = rm_policies r"
  by (auto simp: rm_drop_def split: list.splits if_splits)

lemma rm_drop_held: "rm_drop x r = (u, r') \<Longrightarrow> rm_held r' = remove1 x (rm_held r)"
  by (auto simp: rm_drop_def split: list.splits if_splits)

abbreviation model_stored :: "string \<Rightarrow> 'p repo_model \<Rightarrow> manifest set" where
  "model_stored src r \<equiv> table_view src (rm_stored r)"

abbreviation model_working :: "string \<Rightarrow> 'p repo_model \<Rightarrow> manifest set" where
  "model_working src r \<equiv> table_view src (rm_working r)"

abbreviation model_policy :: "string \<Rightarrow> 'p repo_model \<Rightarrow> 'p policy option" where
  "model_policy src r \<equiv> map_of (rm_policies r) src"

interpretation faulty: repository "faulty_kopia rest" src "model_stored src" "model_working src" "model_policy src"
  for rest src
  by unfold_locales
    (auto simp: faulty_kopia_def table_view_add table_view_delete table_view_fresh table_list_view
      table_list_distinct checkpoint_complete map_of_alist_update never_expires_def Let_def
      dest: table_view_stale dest!: rm_take_tables rm_drop_tables split: if_splits option.splits elim!: rm_op_cases defer_op_cases)

interpretation held: resources "faulty_kopia rest" "\<lambda>r. mset (rm_held r)"
  for rest
  by unfold_locales
    (auto simp: faulty_kopia_def dest!: rm_take_ok rm_take_fails rm_drop_held elim!: rm_op_cases defer_op_cases)

subsection \<open>Properties\<close>

text \<open>C5: a prune never costs a Space its last backup. Whatever fails on the way, the repository
  afterwards either is what it was or holds exactly the complete snapshots not older than the
  retention window together with the newest complete one; a prune that reports success has done
  the latter, and its counts are the manifests it removed and the ones still there. (The premises
  are the documented behaviour of kopia's repository calls and of sort.Slice.)\<close>

theorem prune_keeps_newest_and_window:
  assumes "repository k (source_info space) stored working pol" "sorts_newest_first srt"
    and "engine_prune srt k dk space window now s = (r, s')"
  shows "(case r of
      Inr st \<Rightarrow> pruned (stored s) (now - window) (stored s') \<and>
        ps_deleted st = card (stored s - stored s') \<and> ps_kept st = card (stored s')
    | Inl _ \<Rightarrow> stored s' = stored s \<or> pruned (stored s) (now - window) (stored s'))"
  by (rule pruning.engine_prune_effect [OF pruning.intro [OF assms(1) sorts_newest_first [OF assms(2)]] assms(3) refl])

text \<open>C13: a backup adds and never takes away. One that reports success leaves exactly the complete
  snapshots there were and one new manifest that covers the whole source, the one reported; no
  incomplete manifest remains. One that fails leaves the complete snapshots as they were, or, when
  only the answer to its commit was lost, with that one whole snapshot added.\<close>

theorem snapshot_adds_whole_or_nothing:
  assumes "repository k (source_info space) stored working pol"
    and "engine_snapshot opts k dk space x s = (r, s')"
  shows "(case r of
      Inr i \<Rightarrow> snapshot_adds (complete_in (stored s)) (stored s') i
    | Inl _ \<Rightarrow> complete_in (stored s') = complete_in (stored s) \<or>
        (\<exists>i. snapshot_adds (complete_in (stored s)) (complete_in (stored s')) i))"
  using repository.engine_snapshot_effect [OF assms(1) assms(2) refl] .

text \<open>Nothing of a run outlives it. Opening a repository takes a storage connection, a work
  directory, a handle on the credentials and an open repository; whichever step fails, and whatever
  the work in between returns, exactly these are given back.\<close>

lemma run_gives_everything_back:
  assumes "resources k held" "\<forall>s. held (snd (fn s)) = held s"
  shows "held (snd (with_repo k dk space create fn s)) = held s"
  using resources.with_repo_balanced [OF assms(1)] assms(2) by blast

definition sample_manifest :: "string \<Rightarrow> time \<Rightarrow> string \<Rightarrow> manifest" where
  "sample_manifest i t why = \<lparr>mf_id = i, mf_start = t, mf_incomplete = why,
     mf_root = Some (Some \<lparr>ds_files = 3, ds_size = 9, ds_failed = 0\<rparr>), mf_stats = \<lparr>us_files = 0, us_cached = 3, us_size = 9\<rparr>\<rparr>"

definition sample_repo :: "unit repo_model" where
  "sample_repo = \<lparr>rm_stored = map (\<lambda>m. (mf_id m, ''/spaces/s'', m))
       [sample_manifest ''a'' 1 [], sample_manifest ''b'' 2 [], sample_manifest ''c'' 9 ''checkpoint''],
     rm_working = [], rm_policies = [], rm_owner = [], rm_held = [], rm_trouble = []\<rparr>"

theorem prune_keeps_newest_and_window_witness:
  "fst (engine_prune stable_newest_first (faulty_kopia ()) ''k'' ''s'' 5 100 sample_repo) = Inr \<lparr>ps_deleted = 2, ps_kept = 1\<rparr> \<and>
   pruned (model_stored ''/spaces/s'' sample_repo) 95
     (model_stored ''/spaces/s'' (snd (engine_prune stable_newest_first (faulty_kopia ()) ''k'' ''s'' 5 100 sample_repo)))"
proof -
  obtain r s' where e: "engine_prune stable_newest_first (faulty_kopia ()) ''k'' ''s'' 5 100 sample_repo = (r, s')"
    by fastforce
  have "fst (engine_prune stable_newest_first (faulty_kopia ()) ''k'' ''s'' 5 100 sample_repo) = Inr \<lparr>ps_deleted = 2, ps_kept = 1\<rparr>"
    by code_simp
  then show ?thesis
    using prune_keeps_newest_and_window [OF faulty.repository_axioms stable_sorts e] e by (simp add: source_info_def)
qed

theorem snapshot_adds_whole_or_nothing_witness:
  "fst (engine_snapshot \<lparr>eo_parallel = 0, eo_checkpoint = 0\<rparr> (faulty_kopia ()) ''k'' ''s''
      (Some ([sample_manifest [] 20 []], Inr (sample_manifest [] 30 []))) sample_repo) =
     Inr \<lparr>si_id = ''mmm'', si_start = 30, si_files = 3, si_bytes = 9\<rparr> \<and>
   snapshot_adds (complete_in (model_stored ''/spaces/s'' sample_repo))
     (model_stored ''/spaces/s'' (snd (engine_snapshot \<lparr>eo_parallel = 0, eo_checkpoint = 0\<rparr> (faulty_kopia ()) ''k'' ''s''
        (Some ([sample_manifest [] 20 []], Inr (sample_manifest [] 30 []))) sample_repo)))
     \<lparr>si_id = ''mmm'', si_start = 30, si_files = 3, si_bytes = 9\<rparr>"
proof -
  let ?run = "engine_snapshot \<lparr>eo_parallel = 0, eo_checkpoint = 0\<rparr> (faulty_kopia ()) ''k'' ''s''
      (Some ([sample_manifest [] 20 []], Inr (sample_manifest [] 30 []))) sample_repo"
  obtain r s' where e: "?run = (r, s')" by fastforce
  have "fst ?run = Inr \<lparr>si_id = ''mmm'', si_start = 30, si_files = 3, si_bytes = 9\<rparr>" by code_simp
  then show ?thesis
    using snapshot_adds_whole_or_nothing [OF faulty.repository_axioms e] e by (simp add: source_info_def)
qed

end
