(* ===== verification/Key_Recovery.thy ===== *)
theory Key_Recovery
  imports Go_Strings "HOL-Library.Word"
begin

unbundle bit_operations_syntax

text \<open>
  The Recovery Key's textual form (src/pkg/keys/recoverykey.go): Crockford base 32 over a 32-bit
  accumulator, a checksum byte, a versioned prefix and groups of five characters.

  Bytes are \<open>8 word\<close>s. The checksum is the first byte of SHA-256, a parameter. Text is
  taken to be ASCII; the few other letters Go's case mapping sends into ASCII are left out.
\<close>

type_synonym bytes = "8 word list"

definition rk_prefix :: string where "rk_prefix = ''ocbk1''"
definition rk_entropy_bytes :: nat where "rk_entropy_bytes = 20"
definition rk_group_size :: nat where "rk_group_size = 5"
definition crockford :: string where "crockford = ''0123456789ABCDEFGHJKMNPQRSTVWXYZ''"

datatype rk_error =
    RkUnsupportedVersion
  | RkIllegalCharacter
  | RkWrongLength
  | RkChecksumMismatch
  | RkTrailingBits

subsection \<open>Base 32\<close>

definition crockford_char :: "32 word \<Rightarrow> char" where
  "crockford_char w = crockford ! unat w"

text \<open>The inner loop of \<open>base32Encode\<close>: while at least five bits are pending, write one character.\<close>

fun emit_chars :: "32 word \<Rightarrow> nat \<Rightarrow> string \<times> nat" where
  "emit_chars acc bits =
     (if 5 \<le> bits then
        (case emit_chars acc (bits - 5) of (s, n) \<Rightarrow> (crockford_char (drop_bit (bits - 5) acc AND 0x1f) # s, n))
      else ([], bits))"

declare emit_chars.simps [simp del]

fun base32_from :: "32 word \<Rightarrow> nat \<Rightarrow> bytes \<Rightarrow> string" where
  "base32_from acc bits [] =
     (if bits > 0 then [crockford_char (push_bit (5 - bits) acc AND 0x1f)] else [])"
| "base32_from acc bits (c # cs) =
     (let acc' = push_bit 8 acc OR ucast c in
      (case emit_chars acc' (bits + 8) of (s, n) \<Rightarrow> s @ base32_from acc' n cs))"

definition base32_encode :: "bytes \<Rightarrow> string" where
  "base32_encode b = base32_from 0 0 b"

fun index_of :: "char \<Rightarrow> string \<Rightarrow> nat option" where
  "index_of c [] = None"
| "index_of c (x # xs) = (if x = c then Some 0 else map_option Suc (index_of c xs))"

fun base32_decode_from :: "32 word \<Rightarrow> nat \<Rightarrow> string \<Rightarrow> rk_error + bytes" where
  "base32_decode_from acc bits [] =
     (if bits > 0 \<and> acc AND (push_bit bits 1 - 1) \<noteq> 0 then Inl RkTrailingBits else Inr [])"
| "base32_decode_from acc bits (c # cs) =
     (case index_of c crockford of
        None \<Rightarrow> Inl RkIllegalCharacter
      | Some idx \<Rightarrow>
         let acc' = push_bit 5 acc OR of_nat idx in
         if 8 \<le> bits + 5 then
           map_sum id (Cons (ucast (drop_bit (bits + 5 - 8) acc' AND 0xff))) (base32_decode_from acc' (bits + 5 - 8) cs)
         else base32_decode_from acc' (bits + 5) cs)"

definition base32_decode :: "string \<Rightarrow> rk_error + bytes" where
  "base32_decode s = base32_decode_from 0 0 s"

subsection \<open>The display form\<close>

text \<open>The groups of the display form, each after a dash.\<close>

function dashed :: "string \<Rightarrow> string" where
  "dashed s = (if s = [] then [] else CHR ''-'' # take rk_group_size s @ dashed (drop rk_group_size s))"
  by pat_completeness auto
termination by (relation "measure length") (auto simp: rk_group_size_def)

declare dashed.simps [simp del]

definition encode_recovery_key :: "(bytes \<Rightarrow> 8 word) \<Rightarrow> bytes \<Rightarrow> string" where
  "encode_recovery_key chk entropy = rk_prefix @ dashed (base32_encode (entropy @ [chk entropy]))"

definition ascii_lower :: "char \<Rightarrow> char" where
  "ascii_lower c = (if 65 \<le> (of_char c :: nat) \<and> (of_char c :: nat) \<le> 90 then char_of ((of_char c :: nat) + 32) else c)"

definition ascii_upper :: "char \<Rightarrow> char" where
  "ascii_upper c = (if 97 \<le> (of_char c :: nat) \<and> (of_char c :: nat) \<le> 122 then char_of ((of_char c :: nat) - 32) else c)"

definition is_white :: "char \<Rightarrow> bool" where
  "is_white c \<longleftrightarrow> (of_char c :: nat) \<in> {9, 10, 11, 12, 13, 32}"

definition trim_white :: "string \<Rightarrow> string" where
  "trim_white s = rev (dropWhile is_white (rev (dropWhile is_white s)))"

definition strip_prefix :: "string \<Rightarrow> rk_error + string" where
  "strip_prefix cleaned =
     (let lower = map ascii_lower cleaned in
      if take 6 lower = rk_prefix @ ''-'' then Inr (drop 6 cleaned)
      else if take 5 lower = rk_prefix then Inr (drop 5 cleaned)
      else if CHR ''-'' \<in> set lower \<and> hd lower \<noteq> CHR ''-'' \<and> take 4 lower = ''ocbk'' then Inl RkUnsupportedVersion
      else Inr cleaned)"

fun clean_chars :: "string \<Rightarrow> rk_error + string" where
  "clean_chars [] = Inr []"
| "clean_chars (r # rs) =
     (if r \<in> set ''- '' \<or> (of_char r :: nat) \<in> {9, 10, 13} then clean_chars rs
      else if r = CHR ''I'' \<or> r = CHR ''L'' then map_sum id (Cons (CHR ''1'')) (clean_chars rs)
      else if r = CHR ''O'' then map_sum id (Cons (CHR ''0'')) (clean_chars rs)
      else if r \<in> set crockford then map_sum id (Cons r) (clean_chars rs)
      else Inl RkIllegalCharacter)"

definition decode_recovery_key :: "(bytes \<Rightarrow> 8 word) \<Rightarrow> string \<Rightarrow> rk_error + bytes" where
  "decode_recovery_key chk s =
     (case strip_prefix (trim_white s) of
        Inl e \<Rightarrow> Inl e
      | Inr cleaned \<Rightarrow>
     (case clean_chars (map ascii_upper cleaned) of
        Inl e \<Rightarrow> Inl e
      | Inr text \<Rightarrow>
     (case base32_decode text of
        Inl e \<Rightarrow> Inl e
      | Inr payload \<Rightarrow>
         if length payload \<noteq> rk_entropy_bytes + 1 then Inl RkWrongLength
         else let entropy = take rk_entropy_bytes payload in
           if payload ! rk_entropy_bytes \<noteq> chk entropy then Inl RkChecksumMismatch
           else Inr entropy)))"

text \<open>\<open>GenerateRecoveryKey\<close>: 20 bytes of the random source, with their display form.\<close>

definition generate_recovery_key :: "(bytes \<Rightarrow> 8 word) \<Rightarrow> ('e + bytes) \<Rightarrow> 'e + (string \<times> bytes)" where
  "generate_recovery_key chk entropy = map_sum id (\<lambda>e. (encode_recovery_key chk e, e)) entropy"

subsection \<open>Base 32 as bit strings\<close>

text \<open>\<open>low_bits n w\<close>: the low \<open>n\<close> bits of \<open>w\<close>, most significant first.\<close>

definition low_bits :: "nat \<Rightarrow> 'a::len word \<Rightarrow> bool list" where
  "low_bits n w = map (bit w) (rev [0..<n])"

lemma length_low_bits [simp]: "length (low_bits n w) = n"
  by (simp add: low_bits_def)

lemma low_bits_0 [simp]: "low_bits 0 w = []"
  by (simp add: low_bits_def)

lemma low_bits_eq_iff: "low_bits n v = low_bits n w \<longleftrightarrow> (\<forall>i<n. bit v i = bit w i)"
  by (auto simp: low_bits_def)

lemma low_bits_Suc: "low_bits (Suc n) w = bit w n # low_bits n w"
  by (simp add: low_bits_def)

lemma low_bits_add: "low_bits (m + k) w = low_bits k (drop_bit m w) @ low_bits m w"
proof (induction k)
  case 0
  show ?case by simp
next
  case (Suc k)
  have "low_bits (m + Suc k) w = bit w (m + k) # low_bits (m + k) w" by (simp add: low_bits_Suc)
  moreover have "low_bits (Suc k) (drop_bit m w) = bit w (m + k) # low_bits k (drop_bit m w)"
    by (simp add: low_bits_Suc bit_drop_bit_eq)
  ultimately show ?case using Suc by simp
qed

lemma low_bits_split: "m \<le> n \<Longrightarrow> low_bits n w = low_bits (n - m) (drop_bit m w) @ low_bits m w"
  using low_bits_add [of m "n - m" w] by simp

lemma low_bits_mask: "n \<le> k \<Longrightarrow> low_bits n (w AND mask k) = low_bits n w"
  by (auto simp: low_bits_eq_iff bit_simps dest: bit_imp_le_length)

lemma low_bits_push:
  fixes acc :: "32 word" and c :: "32 word"
  assumes "n + k \<le> 32" "\<forall>i. bit c i \<longrightarrow> i < k"
  shows "low_bits (n + k) (push_bit k acc OR c) = low_bits n acc @ low_bits k c"
proof -
  have "low_bits (n + k) (push_bit k acc OR c) =
      low_bits n (drop_bit k (push_bit k acc OR c)) @ low_bits k (push_bit k acc OR c)"
    using low_bits_split [of k "n + k" "push_bit k acc OR c"] by simp
  moreover have "low_bits n (drop_bit k (push_bit k acc OR c)) = low_bits n acc"
    using assms by (auto simp: low_bits_eq_iff bit_simps)
  moreover have "low_bits k (push_bit k acc OR c) = low_bits k c"
    by (auto simp: low_bits_eq_iff bit_simps)
  ultimately show ?thesis by simp
qed

lemma crockford_length [simp]: "length crockford = 32"
  by (simp add: crockford_def)

lemma crockford_distinct: "distinct crockford"
  by (simp add: crockford_def)

lemma index_of_Some_iff: "distinct xs \<Longrightarrow> index_of c xs = Some i \<longleftrightarrow> i < length xs \<and> xs ! i = c"
proof (induction xs arbitrary: i)
  case Nil
  then show ?case by simp
next
  case (Cons x xs)
  then have x: "x \<notin> set xs" "distinct xs" by auto
  show ?case
  proof (cases i)
    case 0
    then show ?thesis by (auto split: if_splits)
  next
    case (Suc j)
    have "map_option Suc (index_of c xs) = Some (Suc j) \<longleftrightarrow> j < length xs \<and> xs ! j = c"
      using Cons.IH [OF x(2), of j] by auto
    moreover have "j < length xs \<Longrightarrow> xs ! j \<noteq> x" using x(1) nth_mem by metis
    ultimately show ?thesis using Suc by auto
  qed
qed

lemma low5: "w AND 0x1f = (take_bit 5 w :: 32 word)"
  by (simp add: take_bit_eq_mask mask_eq_exp_minus_1)

lemma unat_low5: "unat (w AND 0x1f :: 32 word) < 32"
proof -
  have "unat (take_bit 5 w) = take_bit 5 (unat w)" by (simp add: unsigned_take_bit_eq)
  then show ?thesis using take_bit_nat_less_exp [of 5 "unat w"] by (simp add: low5)
qed

lemma index_crockford_char: "index_of (crockford_char (w AND 0x1f)) crockford = Some (unat (w AND 0x1f))"
  using unat_low5 [of w] crockford_distinct by (simp add: index_of_Some_iff crockford_char_def)

text \<open>The five bits a character stands for.\<close>

definition char_bits :: "char \<Rightarrow> bool list" where
  "char_bits c = (case index_of c crockford of None \<Rightarrow> [] | Some i \<Rightarrow> low_bits 5 (of_nat i :: 32 word))"

definition byte_bits :: "bytes \<Rightarrow> bool list" where
  "byte_bits bs = concat (map (low_bits 8) bs)"

lemma char_bits_crockford: "char_bits (crockford_char (w AND 0x1f)) = low_bits 5 w"
proof -
  have "low_bits 5 (w AND 0x1f) = low_bits 5 w"
    using low_bits_mask [of 5 5 w] by (simp add: low5 take_bit_eq_mask)
  then show ?thesis using index_crockford_char [of w] by (simp add: char_bits_def)
qed

lemma emit_chars_spec:
  "emit_chars acc bits = (s, n) \<Longrightarrow>
     n < 5 \<and> low_bits bits acc = concat (map char_bits s) @ low_bits n acc"
proof (induction bits arbitrary: s n rule: less_induct)
  case (less bits)
  show ?case
  proof (cases "5 \<le> bits")
    case False
    then show ?thesis using less.prems by (simp add: emit_chars.simps)
  next
    case True
    obtain t m where t: "emit_chars acc (bits - 5) = (t, m)" by fastforce
    have sn: "s = crockford_char (drop_bit (bits - 5) acc AND 0x1f) # t" "n = m"
      using less.prems True t unfolding emit_chars.simps [of acc bits] by auto
    have "low_bits bits acc = low_bits 5 (drop_bit (bits - 5) acc) @ low_bits (bits - 5) acc"
      using low_bits_split [of "bits - 5" bits acc] True by simp
    then show ?thesis using less.IH [OF _ t] sn True by (simp add: char_bits_crockford)
  qed
qed

lemma low_bits_ucast: "n \<le> 8 \<Longrightarrow> low_bits n (ucast (c :: 8 word) :: 32 word) = low_bits n c"
  by (auto simp: low_bits_eq_iff bit_simps)

lemma low_bits_zeros: "low_bits k (push_bit k w :: 32 word) = replicate k False"
  by (auto simp: low_bits_def bit_simps intro!: nth_equalityI simp: rev_nth)

text \<open>The encoder writes the pending bits and the input's, and pads with zeros to a whole character.\<close>

lemma base32_from_bits:
  "bits < 5 \<Longrightarrow> \<exists>pad. pad < 5 \<and>
     concat (map char_bits (base32_from acc bits bs)) = low_bits bits acc @ byte_bits bs @ replicate pad False"
proof (induction bs arbitrary: acc bits)
  case Nil
  show ?case
  proof (cases "bits > 0")
    case True
    have "low_bits 5 (push_bit (5 - bits) acc) = low_bits bits acc @ replicate (5 - bits) False"
      using low_bits_split [of "5 - bits" 5 "push_bit (5 - bits) acc"] True Nil
      by (auto simp: low_bits_zeros low_bits_eq_iff bit_simps)
    then show ?thesis
      using True Nil by (intro exI [of _ "5 - bits"]) (simp add: char_bits_crockford byte_bits_def)
  next
    case False
    then show ?thesis by (intro exI [of _ 0]) (simp add: byte_bits_def)
  qed
next
  case (Cons c cs)
  let ?acc = "push_bit 8 acc OR ucast c"
  obtain s n where e: "emit_chars ?acc (bits + 8) = (s, n)" by fastforce
  note spec = emit_chars_spec [OF e]
  have "\<forall>i. bit (ucast c :: 32 word) i \<longrightarrow> i < 8" by (auto simp: bit_simps dest: bit_imp_le_length)
  then have "low_bits (bits + 8) ?acc = low_bits bits acc @ low_bits 8 c"
    using low_bits_push [of bits 8 "ucast c" acc] Cons.prems by (simp add: low_bits_ucast)
  moreover obtain pad where "pad < 5"
      "concat (map char_bits (base32_from ?acc n cs)) = low_bits n ?acc @ byte_bits cs @ replicate pad False"
    using Cons.IH spec by blast
  ultimately show ?case
    using e spec by (intro exI [of _ pad]) (simp add: byte_bits_def)
qed

subsection \<open>Decoding what was encoded\<close>

lemma low_bits_inject: "low_bits 8 (a :: 8 word) = low_bits 8 b \<longleftrightarrow> a = b"
  by (auto simp: low_bits_eq_iff bit_eq_iff dest: bit_imp_le_length)

lemma low_bits_zero: "low_bits n 0 = replicate n False"
  by (induction n) (simp_all add: low_bits_Suc)

lemma low_bits_false: "low_bits n w = replicate n False \<Longrightarrow> w AND mask n = 0"
proof -
  assume "low_bits n w = replicate n False"
  also have "\<dots> = low_bits n (0 :: 'a word)" by (simp add: low_bits_zero)
  finally show ?thesis by (auto simp: low_bits_eq_iff bit_eq_iff bit_simps)
qed

lemma length_byte_bits [simp]: "length (byte_bits bs) = 8 * length bs"
  by (induction bs) (simp_all add: byte_bits_def)

lemma byte_bits_simps [simp]:
  "byte_bits [] = []" "byte_bits (b # bs) = low_bits 8 b @ byte_bits bs"
  by (simp_all add: byte_bits_def)

lemma char_bits_index: "index_of c crockford = Some i \<Longrightarrow> char_bits c = low_bits 5 (of_nat i :: 32 word) \<and> i < 32"
  using index_of_Some_iff [OF crockford_distinct, of c i] by (simp add: char_bits_def)

lemma low_byte: "low_bits 8 (ucast (w AND 0xff :: 32 word) :: 8 word) = low_bits 8 w"
proof -
  have "w AND 0xff = take_bit 8 w" by (simp add: take_bit_eq_mask mask_eq_exp_minus_1)
  then show ?thesis by (auto simp: low_bits_eq_iff bit_simps)
qed

lemma of_nat_low5: "i < 32 \<Longrightarrow> bit (of_nat i :: 32 word) j \<longrightarrow> j < 5"
proof -
  assume "i < 32"
  then have "take_bit 5 i = i" by (simp add: take_bit_nat_eq_self_iff)
  then have "take_bit 5 (of_nat i :: 32 word) = of_nat i" by (metis take_bit_of_nat)
  then show ?thesis by (metis bit_take_bit_iff)
qed

lemma index_of_crockford: "c \<in> set crockford \<Longrightarrow> \<exists>i. index_of c crockford = Some i"
  using crockford_distinct by (metis in_set_conv_nth index_of_Some_iff)

lemma base32_decode_from_bits:
  assumes "set s \<subseteq> set crockford" "bits < 8" "p < 8"
    and "low_bits bits acc @ concat (map char_bits s) = byte_bits bs @ replicate p False"
  shows "base32_decode_from acc bits s = Inr bs"
  using assms
proof (induction s arbitrary: acc bits bs)
  case Nil
  have "bits = 8 * length bs + p"
    using Nil(4) by (metis append_Nil2 concat.simps(1) length_append length_byte_bits length_low_bits length_replicate list.simps(8))
  then have bs: "bs = []" using Nil(2) by (cases bs) auto
  then have p: "p = bits" using \<open>bits = 8 * length bs + p\<close> by simp
  then have "acc AND mask bits = 0" using Nil(4) low_bits_false bs by simp
  then show ?case using bs by (simp add: mask_eq_exp_minus_1 push_bit_eq_mult)
next
  case (Cons c cs)
  obtain i where i: "index_of c crockford = Some i" using Cons.prems(1) index_of_crockford [of c] by auto
  note cb = char_bits_index [OF i]
  let ?acc = "push_bit 5 acc OR of_nat i"
  have five: "low_bits (bits + 5) ?acc = low_bits bits acc @ char_bits c"
    using low_bits_push [OF _ allI, of bits 5 "of_nat i" acc] Cons.prems(2) cb of_nat_low5 [of i] by simp
  then have all: "low_bits (bits + 5) ?acc @ concat (map char_bits cs) = byte_bits bs @ replicate p False"
    using Cons.prems(4) by simp
  show ?case
  proof (cases "8 \<le> bits + 5")
    case False
    then show ?thesis using Cons.IH [of "bits + 5" ?acc bs] Cons.prems all i by simp
  next
    case True
    let ?b = "drop_bit (bits + 5 - 8) ?acc"
    have split: "low_bits (bits + 5) ?acc = low_bits 8 ?b @ low_bits (bits + 5 - 8) ?acc"
      using low_bits_split [of "bits + 5 - 8" "bits + 5" ?acc] True by simp
    have "length (low_bits (bits + 5) ?acc @ concat (map char_bits cs)) = 8 * length bs + p"
      using all by simp
    then obtain b bs' where bs: "bs = b # bs'" using True Cons.prems(3) by (cases bs) auto
    have parts: "low_bits 8 ?b = low_bits 8 b"
      "low_bits (bits + 5 - 8) ?acc @ concat (map char_bits cs) = byte_bits bs' @ replicate p False"
      using all split bs by simp_all
    have "low_bits 8 (ucast (?b AND 0xff) :: 8 word) = low_bits 8 ?b"
      by (rule low_byte)
    then have "(ucast (?b AND 0xff) :: 8 word) = b" using parts(1) low_bits_inject by metis
    moreover have "base32_decode_from ?acc (bits + 5 - 8) cs = Inr bs'"
      using Cons.IH [of "bits + 5 - 8" ?acc bs'] Cons.prems parts(2) by simp
    ultimately show ?thesis using i True bs by (simp add: Let_def)
  qed
qed

lemma crockford_char_in: "crockford_char (w AND 0x1f) \<in> set crockford"
  using unat_low5 [of w] by (simp add: crockford_char_def)

lemma emit_chars_in: "emit_chars acc bits = (s, n) \<Longrightarrow> set s \<subseteq> set crockford"
proof (induction bits arbitrary: s n rule: less_induct)
  case (less bits)
  show ?case
  proof (cases "5 \<le> bits")
    case False
    then show ?thesis using less.prems by (simp add: emit_chars.simps)
  next
    case True
    obtain t m where t: "emit_chars acc (bits - 5) = (t, m)" by fastforce
    then have "s = crockford_char (drop_bit (bits - 5) acc AND 0x1f) # t"
      using less.prems True unfolding emit_chars.simps [of acc bits] by auto
    then show ?thesis using less.IH [OF _ t] True crockford_char_in by simp
  qed
qed

lemma base32_from_in: "set (base32_from acc bits bs) \<subseteq> set crockford"
proof (induction bs arbitrary: acc bits)
  case Nil
  then show ?case using crockford_char_in by auto
next
  case (Cons c cs)
  obtain s n where e: "emit_chars (push_bit 8 acc OR ucast c) (bits + 8) = (s, n)" by fastforce
  show ?case using e emit_chars_in [OF e] Cons by (auto simp: Let_def)
qed

lemma base32_encode_in: "set (base32_encode bs) \<subseteq> set crockford"
  by (simp add: base32_encode_def base32_from_in)

lemma base32_encode_bits:
  "\<exists>pad<5. concat (map char_bits (base32_encode bs)) = byte_bits bs @ replicate pad False"
  using base32_from_bits [of 0 0 bs] by (auto simp: base32_encode_def)

lemma base32_roundtrip: "base32_decode (base32_encode bs) = Inr bs"
proof -
  obtain pad where "pad < 5" "concat (map char_bits (base32_encode bs)) = byte_bits bs @ replicate pad False"
    using base32_encode_bits [of bs] by blast
  then show ?thesis
    using base32_decode_from_bits [of "base32_encode bs" 0 pad 0 bs] base32_encode_in
    by (simp add: base32_decode_def)
qed

subsection \<open>Spelling\<close>

text \<open>What the decoder reads in a text: separators dropped, letters in upper case, look-alikes replaced.\<close>

definition is_separator :: "char \<Rightarrow> bool" where
  "is_separator r \<longleftrightarrow> r \<in> set ''- '' \<or> (of_char r :: nat) \<in> {9, 10, 13}"

definition look_alike :: "char \<Rightarrow> char" where
  "look_alike r = (if r = CHR ''I'' \<or> r = CHR ''L'' then CHR ''1'' else if r = CHR ''O'' then CHR ''0'' else r)"

definition spelled :: "string \<Rightarrow> string" where
  "spelled s = map look_alike (filter (\<lambda>r. \<not> is_separator r) (map ascii_upper s))"

lemma spelled_simps [simp]:
  "spelled [] = []" "spelled (a @ b) = spelled a @ spelled b"
  "spelled (c # s) = (if is_separator (ascii_upper c) then spelled s else look_alike (ascii_upper c) # spelled s)"
  by (simp_all add: spelled_def)

lemma clean_chars_spelled:
  "set (spelled s) \<subseteq> set crockford \<Longrightarrow> clean_chars (map ascii_upper s) = Inr (spelled s)"
proof (induction s)
  case Nil
  then show ?case by simp
next
  case (Cons c s)
  have cr: "CHR ''I'' \<notin> set crockford" "CHR ''L'' \<notin> set crockford" "CHR ''O'' \<notin> set crockford"
    by (simp_all add: crockford_def)
  show ?case
    using Cons cr by (auto simp: is_separator_def look_alike_def split: if_splits)
qed

lemma crockford_plain: "c \<in> set crockford \<Longrightarrow> \<not> is_separator (ascii_upper c) \<and> look_alike (ascii_upper c) = c"
proof -
  have "list_all (\<lambda>c. \<not> is_separator (ascii_upper c) \<and> look_alike (ascii_upper c) = c) crockford" by code_simp
  then show "c \<in> set crockford \<Longrightarrow> ?thesis" by (simp add: list_all_iff)
qed

lemma dash_separator [simp]: "is_separator (ascii_upper (CHR ''-''))"
  by code_simp

lemma spelled_plain: "set s \<subseteq> set crockford \<Longrightarrow> spelled s = s"
  by (induction s) (simp_all add: crockford_plain)

lemma spelled_dashed: "set s \<subseteq> set crockford \<Longrightarrow> spelled (dashed s) = s"
proof (induction s rule: dashed.induct)
  case (1 s)
  show ?case
  proof (cases "s = []")
    case True
    then show ?thesis by (simp add: dashed.simps)
  next
    case False
    have "set (take rk_group_size s) \<subseteq> set crockford" "set (drop rk_group_size s) \<subseteq> set crockford"
      using 1(2) set_take_subset [of rk_group_size s] set_drop_subset [of rk_group_size s] by blast+
    then have "spelled (dashed s) = take rk_group_size s @ drop rk_group_size s"
      using 1(1) [OF False] False spelled_plain by (simp add: dashed.simps [of s])
    then show ?thesis by simp
  qed
qed

lemma trim_white_middle:
  assumes "list_all is_white a" "list_all is_white b" "x \<noteq> []" "\<not> is_white (hd x)" "\<not> is_white (last x)"
  shows "trim_white (a @ x @ b) = x"
proof -
  have "dropWhile is_white (a @ x @ b) = x @ b"
    using assms(1,3,4) by (cases x) (auto simp: dropWhile_append list_all_iff)
  moreover have "dropWhile is_white (rev b @ rev x) = rev x"
    using assms(2,3,5) by (cases x rule: rev_cases) (auto simp: dropWhile_append list_all_iff)
  ultimately show ?thesis by (simp add: trim_white_def)
qed

lemma ascii_lower_dash: "ascii_lower c = CHR ''-'' \<longleftrightarrow> c = CHR ''-''"
proof
  assume "ascii_lower c = CHR ''-''"
  then have n: "of_char (ascii_lower c) = (45 :: nat)" by simp
  show "c = CHR ''-''"
  proof (cases "65 \<le> (of_char c :: nat) \<and> (of_char c :: nat) \<le> 90")
    case True
    then have "of_char (ascii_lower c) = (of_char c :: nat) + 32" by (simp add: ascii_lower_def)
    then show ?thesis using n True by simp
  next
    case False
    then show ?thesis using \<open>ascii_lower c = CHR ''-''\<close> by (auto simp: ascii_lower_def)
  qed
qed (simp add: ascii_lower_def)

lemma rk_prefix_length [simp]: "length rk_prefix = 5"
  by (simp add: rk_prefix_def)

lemma ascii_lower_of_dash [simp]: "ascii_lower (CHR ''-'') = CHR ''-''"
  by (simp add: ascii_lower_dash)

lemma strip_prefix_ok:
  assumes "map ascii_lower pre = rk_prefix"
  shows "\<exists>b. strip_prefix (pre @ body) = Inr b \<and> spelled b = spelled body"
proof -
  have len: "length pre = 5" using arg_cong [OF assms, of length] by (simp add: rk_prefix_def)
  show ?thesis
  proof (cases "\<exists>b. body = CHR ''-'' # b")
    case True
    then obtain b where "body = CHR ''-'' # b" by blast
    moreover have "take 6 (map ascii_lower (pre @ body)) = rk_prefix @ ''-''"
      using assms len calculation by (simp add: ascii_lower_dash)
    ultimately show ?thesis using len by (simp add: strip_prefix_def Let_def)
  next
    case False
    then have "take 6 (map ascii_lower (pre @ body)) \<noteq> rk_prefix @ ''-''"
      using assms len by (cases body) (auto simp: ascii_lower_dash)
    moreover have "take 5 (map ascii_lower (pre @ body)) = rk_prefix" using assms len by simp
    ultimately show ?thesis using len by (simp add: strip_prefix_def Let_def)
  qed
qed

lemma decode_spelled:
  assumes "length e = rk_entropy_bytes" "list_all is_white a" "list_all is_white b"
    and "map ascii_lower pre = rk_prefix" "\<not> is_white (last (pre @ body))"
    and "set (spelled body) \<subseteq> set crockford" "base32_decode (spelled body) = Inr (e @ [chk e])"
  shows "decode_recovery_key chk (a @ pre @ body @ b) = Inr e"
proof -
  have pre: "pre \<noteq> []" "ascii_lower (hd pre) = CHR ''o''" using assms(4) by (cases pre; simp add: rk_prefix_def)+
  have "\<not> is_white (hd pre)"
    using pre(2) by (auto simp: is_white_def ascii_lower_def split: if_splits)
  then have "trim_white (a @ (pre @ body) @ b) = pre @ body"
    using pre(1) assms(2,3,5) by (intro trim_white_middle) auto
  moreover obtain t where "strip_prefix (pre @ body) = Inr t" "spelled t = spelled body"
    using strip_prefix_ok [OF assms(4)] by blast
  ultimately show ?thesis
    using clean_chars_spelled [of t] assms(1,6,7)
    by (simp add: decode_recovery_key_def rk_entropy_bytes_def Let_def nth_append)
qed

lemma dashed_Nil [simp]: "dashed [] = []"
  by (subst dashed.simps) simp

lemma dashed_Cons: "s \<noteq> [] \<Longrightarrow> dashed s = CHR ''-'' # take rk_group_size s @ dashed (drop rk_group_size s)"
  by (subst dashed.simps) simp

lemma last_dashed: "s \<noteq> [] \<Longrightarrow> last (dashed s) = last s"
proof (induction s rule: dashed.induct)
  case (1 s)
  have s: "s \<noteq> []" using 1(2) .
  show ?case
  proof (cases "drop rk_group_size s = []")
    case True
    then have "take rk_group_size s = s" by simp
    then have "dashed s = CHR ''-'' # s" using True dashed_Cons [OF s] by simp
    then show ?thesis using s by simp
  next
    case False
    have "dashed (drop rk_group_size s) \<noteq> []" using False by (simp add: dashed_Cons)
    then have "last (dashed s) = last (dashed (drop rk_group_size s))" using dashed_Cons [OF s] by simp
    also have "\<dots> = last (drop rk_group_size s)" by (rule 1(1) [OF s False])
    also have "\<dots> = last s" using False by (simp add: last_drop)
    finally show ?thesis .
  qed
qed

lemma length_concat_same: "\<forall>c\<in>set t. length (f c) = n \<Longrightarrow> length (concat (map f t)) = n * length t"
  by (induction t) simp_all

lemma crockford_not_white: "c \<in> set crockford \<Longrightarrow> \<not> is_white c"
proof -
  have "list_all (\<lambda>c. \<not> is_white c) crockford" by code_simp
  then show "c \<in> set crockford \<Longrightarrow> ?thesis" by (simp add: list_all_iff)
qed

lemma lower_prefix: "map ascii_lower rk_prefix = rk_prefix"
  by code_simp

subsection \<open>Properties\<close>

text \<open>A Recovery Key reads back. Decoding the display form of 160 bits of entropy gives exactly
  those bits, whatever the checksum function is.\<close>

lemma recovery_key_roundtrip:
  assumes "length e = rk_entropy_bytes"
  shows "decode_recovery_key chk (encode_recovery_key chk e) = Inr e"
proof -
  let ?t = "base32_encode (e @ [chk e])"
  have "?t \<noteq> []"
  proof
    assume "?t = []"
    then have "base32_decode [] = Inr (e @ [chk e])" using base32_roundtrip [of "e @ [chk e]"] by simp
    then show False by (simp add: base32_decode_def)
  qed
  then have last: "last (rk_prefix @ dashed ?t) \<in> set crockford"
  proof -
    have "last (rk_prefix @ dashed ?t) = last ?t" using \<open>?t \<noteq> []\<close> last_dashed [of ?t] by (simp add: dashed_Cons)
    then show ?thesis using base32_encode_in [of "e @ [chk e]"] last_in_set [OF \<open>?t \<noteq> []\<close>] by auto
  qed
  show ?thesis
    using decode_spelled [OF assms, of "[]" "[]" rk_prefix "dashed ?t" chk] lower_prefix
      crockford_not_white [OF last] spelled_dashed [OF base32_encode_in] base32_encode_in base32_roundtrip
    by (simp add: encode_recovery_key_def)
qed

text \<open>A Recovery Key may be typed sloppily. White space around it, any case of the prefix and the
  letters, dashes and spaces anywhere or nowhere in the body, and the look-alikes I, L and O for 1, 1
  and 0 all decode to the same key.\<close>

lemma recovery_key_retyped:
  assumes "length e = rk_entropy_bytes" "list_all is_white a" "list_all is_white b"
    and "map ascii_lower pre = rk_prefix" "\<not> is_white (last (pre @ body))"
    and "spelled body = base32_encode (e @ [chk e])"
  shows "decode_recovery_key chk (a @ pre @ body @ b) = Inr e"
  using decode_spelled [OF assms(1-5), of chk] base32_encode_in base32_roundtrip assms(6) by simp

text \<open>The decoder does not insist on the length of the format. A key with a superfluous zero typed
  at the end is accepted as the key itself: the two padding bits and the five bits of the extra
  character are all dropped as padding, because fewer than eight bits are left over.\<close>

lemma recovery_key_extra_zero:
  assumes "length e = rk_entropy_bytes"
  shows "decode_recovery_key chk (encode_recovery_key chk e @ ''0'') = Inr e"
proof -
  let ?t = "base32_encode (e @ [chk e])" and ?z = "CHR ''0''"
  obtain pad where pad: "pad < 5" "concat (map char_bits ?t) = byte_bits (e @ [chk e]) @ replicate pad False"
    using base32_encode_bits [of "e @ [chk e]"] by blast
  have "\<forall>c\<in>set ?t. length (char_bits c) = 5"
    using base32_encode_in [of "e @ [chk e]"] index_of_crockford char_bits_index by fastforce
  then have "length (concat (map char_bits ?t)) = 5 * length ?t" by (rule length_concat_same)
  then have "8 * 21 + pad = 5 * length ?t" using pad assms by (simp add: rk_entropy_bytes_def)
  then have "pad = 2" using pad(1) by presburger
  moreover have "char_bits ?z = replicate 5 False" by code_simp
  ultimately have bits: "concat (map char_bits (?t @ [?z])) = byte_bits (e @ [chk e]) @ replicate 7 False"
    using pad(2) replicate_add [of 2 5 False] by simp
  have z: "?z \<in> set crockford" by (simp add: crockford_def)
  then have sub: "set (?t @ [?z]) \<subseteq> set crockford" using base32_encode_in [of "e @ [chk e]"] by simp
  have dec: "base32_decode (?t @ [?z]) = Inr (e @ [chk e])"
    using base32_decode_from_bits [OF sub, of 0 7 0 "e @ [chk e]"] bits by (simp add: base32_decode_def)
  have sp: "spelled (dashed ?t @ [?z]) = ?t @ [?z]"
    using spelled_dashed [OF base32_encode_in] crockford_plain [OF z] by simp
  show ?thesis
    using decode_spelled [OF assms, of "[]" "[]" rk_prefix "dashed ?t @ [?z]" chk] lower_prefix
      crockford_not_white [OF z] sp sub dec
    by (simp add: encode_recovery_key_def del: spelled_simps)
qed

end
