(* ===== verification/Key_Envelope.thy ===== *)
theory Key_Envelope
  imports Go_Flow Key_Recovery
begin

unbundle bit_operations_syntax

text \<open>
  The key envelope (src/pkg/keys/envelope.go): its wire format, sealing and opening, and the checks a
  header passes before any key is derived.

  Argon2id and XChaCha20-Poly1305 are the parameter \<open>crypto\<close>; the source of randomness is an operation
  on a state of its own. A wrap kind is the integer the Go constant is.
\<close>

definition envelope_magic :: bytes where "envelope_magic = [0x4F, 0x43, 0x42, 0x4B, 0x45]"
definition envelope_header_min :: nat where "envelope_header_min = 18"
definition envelope_version :: int where "envelope_version = 1"
definition kek_size :: nat where "kek_size = 32"
definition nonce_size :: nat where "nonce_size = 24"
definition aead_overhead :: nat where "aead_overhead = 16"
definition kdf_none :: "8 word" where "kdf_none = 0"
definition kdf_argon2id :: "8 word" where "kdf_argon2id = 1"
definition wrap_rk :: int where "wrap_rk = 1"
definition wrap_srw :: int where "wrap_srw = 2"
definition wrap_tw :: int where "wrap_tw = 3"

record argon_params =
  ap_time :: "32 word"
  ap_memory :: "32 word"
  ap_lanes :: "8 word"
  ap_salt_len :: "8 word"

definition zero_params :: argon_params where
  "zero_params = \<lparr>ap_time = 0, ap_memory = 0, ap_lanes = 0, ap_salt_len = 0\<rparr>"

definition max_argon_time :: "32 word" where "max_argon_time = 16"
definition max_argon_memory :: "32 word" where "max_argon_memory = 1048576"
definition max_argon_lanes :: "8 word" where "max_argon_lanes = 16"

definition default_argon_params :: argon_params where
  "default_argon_params = \<lparr>ap_time = 3, ap_memory = 64 * 1024, ap_lanes = 4, ap_salt_len = 16\<rparr>"

datatype key_error =
    BadEnvelope string
  | CannotUnwrap
  | WeakEnvelope string
  | AeadFailed
  | RandomFailed
  | KeyWrapped string key_error

record crypto =
  cr_argon :: "bytes \<Rightarrow> bytes \<Rightarrow> 32 word \<Rightarrow> 32 word \<Rightarrow> 8 word \<Rightarrow> bytes"
  cr_seal :: "bytes \<Rightarrow> bytes \<Rightarrow> bytes \<Rightarrow> bytes \<Rightarrow> bytes"
  cr_open :: "bytes \<Rightarrow> bytes \<Rightarrow> bytes \<Rightarrow> bytes \<Rightarrow> bytes option"

subsection \<open>The header\<close>

definition put_uint32 :: "32 word \<Rightarrow> bytes" where
  "put_uint32 w = [ucast (drop_bit 24 w), ucast (drop_bit 16 w), ucast (drop_bit 8 w), ucast w]"

definition get_uint32 :: "bytes \<Rightarrow> 32 word" where
  "get_uint32 b = push_bit 24 (ucast (b ! 0)) OR push_bit 16 (ucast (b ! 1)) OR push_bit 8 (ucast (b ! 2)) OR ucast (b ! 3)"

record envelope_header =
  eh_version :: int
  eh_kind :: int
  eh_kdf :: "8 word"
  eh_params :: argon_params
  eh_salt :: bytes
  eh_raw :: bytes

definition build_header :: "int \<Rightarrow> int \<Rightarrow> 8 word \<Rightarrow> argon_params \<Rightarrow> bytes \<Rightarrow> bytes" where
  "build_header version kind kdf params salt =
     envelope_magic @ [word_of_int version, word_of_int kind, kdf] @ put_uint32 (ap_time params) @
     put_uint32 (ap_memory params) @ [ap_lanes params, of_nat (length salt)] @ salt"

definition validate_argon_params :: "argon_params \<Rightarrow> key_error option" where
  "validate_argon_params p =
     (if ap_time p = 0 \<or> ap_memory p = 0 \<or> ap_lanes p = 0 then Some (BadEnvelope ''invalid argon2id parameters'')
      else if ap_time p > max_argon_time then Some (BadEnvelope ''argon2id time cost out of range'')
      else if ap_memory p > max_argon_memory then Some (BadEnvelope ''argon2id memory cost out of range'')
      else if ap_lanes p > max_argon_lanes then Some (BadEnvelope ''argon2id parallelism out of range'')
      else None)"

definition slice :: "nat \<Rightarrow> nat \<Rightarrow> 'a list \<Rightarrow> 'a list" where
  "slice i j xs = take (j - i) (drop i xs)"

definition parse_envelope :: "bytes \<Rightarrow> key_error + (envelope_header \<times> bytes \<times> bytes)" where
  "parse_envelope blob =
     (if length blob < envelope_header_min then Inl (BadEnvelope ''too short'')
      else if slice 0 5 blob \<noteq> envelope_magic then Inl (BadEnvelope ''bad magic'')
      else let version = uint (blob ! 5); kind = uint (blob ! 6); kdf = blob ! 7;
          params = \<lparr>ap_time = get_uint32 (slice 8 12 blob), ap_memory = get_uint32 (slice 12 16 blob),
            ap_lanes = blob ! 16, ap_salt_len = blob ! 17\<rparr>;
          header_len = envelope_header_min + unat (blob ! 17) in
        if version = 0 \<or> version > envelope_version then Inl (BadEnvelope ''unsupported version'')
        else if kdf \<noteq> kdf_none \<and> kdf \<noteq> kdf_argon2id then Inl (BadEnvelope ''unknown kdf'')
        else case (if kdf = kdf_argon2id then validate_argon_params params else None) of
            Some e \<Rightarrow> Inl e
          | None \<Rightarrow>
             if length blob < header_len + nonce_size + aead_overhead then Inl (BadEnvelope ''truncated'')
             else Inr (\<lparr>eh_version = version, eh_kind = kind, eh_kdf = kdf, eh_params = params,
                 eh_salt = slice envelope_header_min header_len blob, eh_raw = take header_len blob\<rparr>,
               slice header_len (header_len + nonce_size) blob, drop (header_len + nonce_size) blob))"

subsection \<open>Sealing and opening\<close>

definition derive_kek :: "crypto \<Rightarrow> bytes \<Rightarrow> bytes \<Rightarrow> 8 word \<Rightarrow> argon_params \<Rightarrow> key_error + bytes" where
  "derive_kek cr secret salt kdf params =
     (if kdf = kdf_none then
        (if length secret \<noteq> kek_size then Inl (BadEnvelope ''direct key must be 32 bytes'') else Inr secret)
      else if kdf = kdf_argon2id then
        (case validate_argon_params params of
           Some e \<Rightarrow> Inl e
         | None \<Rightarrow> Inr (cr_argon cr secret salt (ap_time params) (ap_memory params) (ap_lanes params)))
      else Inl (BadEnvelope ''unknown kdf''))"

text \<open>\<open>chacha20poly1305.NewX\<close> refuses a key of the wrong size.\<close>

definition new_aead :: "bytes \<Rightarrow> key_error option" where
  "new_aead kek = (if length kek \<noteq> kek_size then Some AeadFailed else None)"

text \<open>\<open>io.ReadFull\<close> on the random source: \<open>random n\<close> reads \<open>n\<close> bytes.\<close>

type_synonym 'r random = "nat \<Rightarrow> ('r, key_error, bytes) op"

definition seal_body ::
    "crypto \<Rightarrow> 'r random \<Rightarrow> bytes \<Rightarrow> bytes \<Rightarrow> int \<Rightarrow> 8 word \<Rightarrow> argon_params \<Rightarrow> bytes \<Rightarrow> ('r, key_error, bytes) op" where
  "seal_body cr random plaintext secret kind kdf params salt =
     (let header = build_header envelope_version kind kdf params salt in
      case derive_kek cr secret salt kdf params of
        Inl e \<Rightarrow> fail_op e
      | Inr kek \<Rightarrow> require_op (new_aead kek)
          (try_op (KeyWrapped ''keys: nonce'') (random nonce_size) (\<lambda>nonce.
             ok_op (header @ nonce @ cr_seal cr kek nonce plaintext header))))"

definition seal_with ::
    "crypto \<Rightarrow> 'r random \<Rightarrow> bytes \<Rightarrow> bytes \<Rightarrow> int \<Rightarrow> 8 word \<Rightarrow> argon_params \<Rightarrow> ('r, key_error, bytes) op" where
  "seal_with cr random plaintext secret kind kdf params =
     (if plaintext = [] then fail_op (BadEnvelope ''empty plaintext'')
      else if secret = [] then fail_op (BadEnvelope ''empty secret'')
      else if kdf = kdf_argon2id then
        (if ap_salt_len params = 0 then fail_op (BadEnvelope ''zero salt length'')
         else try_op (KeyWrapped ''keys: salt'') (random (unat (ap_salt_len params)))
           (seal_body cr random plaintext secret kind kdf params))
      else if length secret \<noteq> kek_size then fail_op (BadEnvelope ''direct key must be 32 bytes'')
      else seal_body cr random plaintext secret kind kdf zero_params [])"

definition env_open :: "crypto \<Rightarrow> bytes \<Rightarrow> bytes \<Rightarrow> key_error + bytes" where
  "env_open cr blob secret =
     (case parse_envelope blob of
        Inl e \<Rightarrow> Inl e
      | Inr (hdr, nonce, ct) \<Rightarrow>
     (case derive_kek cr secret (eh_salt hdr) (eh_kdf hdr) (eh_params hdr) of
        Inl e \<Rightarrow> Inl e
      | Inr kek \<Rightarrow>
     (case new_aead kek of
        Some e \<Rightarrow> Inl e
      | None \<Rightarrow>
     (case cr_open cr kek nonce ct (eh_raw hdr) of
        None \<Rightarrow> Inl CannotUnwrap
      | Some pt \<Rightarrow> Inr pt))))"

record envelope_info =
  ei_version :: int
  ei_kind :: int
  ei_kdf :: string
  ei_argon :: argon_params

definition inspect :: "bytes \<Rightarrow> key_error + envelope_info" where
  "inspect blob =
     (case parse_envelope blob of
        Inl e \<Rightarrow> Inl e
      | Inr (h, _, _) \<Rightarrow> Inr \<lparr>ei_version = eh_version h, ei_kind = eh_kind h,
          ei_kdf = (if eh_kdf h = kdf_argon2id then ''argon2id'' else ''none''), ei_argon = eh_params h\<rparr>)"

subsection \<open>What the client may send\<close>

text \<open>src/pkg/keys/policy.go: the weakest work factor accepted on a Recovery Key envelope.\<close>

definition min_argon_params :: argon_params where
  "min_argon_params = \<lparr>ap_time = 2, ap_memory = 19 * 1024, ap_lanes = 1, ap_salt_len = 16\<rparr>"

definition check_argon_floor :: "argon_params \<Rightarrow> key_error option" where
  "check_argon_floor p =
     (if ap_time p < ap_time min_argon_params then Some (WeakEnvelope ''too few passes'')
      else if ap_memory p < ap_memory min_argon_params then Some (WeakEnvelope ''too little memory'')
      else if ap_lanes p < ap_lanes min_argon_params then Some (WeakEnvelope ''too little parallelism'')
      else if ap_salt_len p < ap_salt_len min_argon_params then Some (WeakEnvelope ''salt too short'')
      else None)"

definition check_recovery_envelope :: "bytes \<Rightarrow> key_error + envelope_info" where
  "check_recovery_envelope blob =
     (case inspect blob of
        Inl e \<Rightarrow> Inl e
      | Inr info \<Rightarrow>
         if ei_kind info \<noteq> wrap_rk then Inl (BadEnvelope ''not a recovery envelope'')
         else if ei_kdf info \<noteq> ''argon2id'' then Inl (BadEnvelope ''recovery envelope must be key-derived'')
         else case check_argon_floor (ei_argon info) of
             Some e \<Rightarrow> Inl e
           | None \<Rightarrow> Inr info)"

subsection \<open>Big-endian integers\<close>

lemma put_uint32_length [simp]: "length (put_uint32 w) = 4"
  by (simp add: put_uint32_def)

lemma get_put_uint32: "get_uint32 (put_uint32 w) = w"
proof (rule bit_word_eqI)
  fix n assume "n < LENGTH(32)"
  then consider "n < 8" | "8 \<le> n" "n < 16" | "16 \<le> n" "n < 24" | "24 \<le> n" "n < 32" by fastforce
  then show "bit (get_uint32 (put_uint32 w)) n \<longleftrightarrow> bit w n"
    by cases (auto simp: get_uint32_def put_uint32_def bit_push_bit_iff bit_or_iff bit_ucast_iff bit_drop_bit_eq)
qed

lemma unat_less_256: "unat (b :: 8 word) < 256"
proof -
  have "unat b < 2 ^ LENGTH(8)" by (rule unsigned_less)
  then show ?thesis by simp
qed

lemma byte_high_bit: "8 \<le> n \<Longrightarrow> \<not> bit (b :: 8 word) n"
  using bit_imp_le_length [of b n] by auto

lemma put_get_uint32:
  assumes "length b = 4"
  shows "put_uint32 (get_uint32 b) = b"
proof -
  obtain a0 a1 a2 a3 where b: "b = [a0, a1, a2, a3]"
    using assms by (auto simp: length_Suc_conv eval_nat_numeral)
  show ?thesis
    unfolding b
    by (auto simp: put_uint32_def get_uint32_def bit_simps byte_high_bit intro!: bit_word_eqI)
qed

subsection \<open>The header reads back\<close>

lemma slice_prefix: "slice 0 n xs = take n xs"
  by (simp add: slice_def)

text \<open>What a parsed header promises: it was the start of the blob, and is what its fields serialise to.\<close>

definition header_ok :: "envelope_header \<Rightarrow> bool" where
  "header_ok h \<longleftrightarrow> eh_version h = 1 \<and> 0 \<le> eh_kind h \<and> eh_kind h < 256 \<and>
     (eh_kdf h = kdf_none \<or> eh_kdf h = kdf_argon2id \<and> validate_argon_params (eh_params h) = None) \<and>
     ap_salt_len (eh_params h) = of_nat (length (eh_salt h)) \<and> length (eh_salt h) < 256 \<and>
     eh_raw h = build_header (eh_version h) (eh_kind h) (eh_kdf h) (eh_params h) (eh_salt h)"

lemma length_build_header: "length (build_header v k kdf p salt) = envelope_header_min + length salt"
  by (simp add: build_header_def envelope_magic_def envelope_header_min_def)

lemma parse_build:
  assumes "header_ok h" "length nonce = nonce_size" "aead_overhead \<le> length ct"
  shows "parse_envelope (eh_raw h @ nonce @ ct) = Inr (h, nonce, ct)"
proof -
  obtain v k kdf p salt raw where h: "h = \<lparr>eh_version = v, eh_kind = k, eh_kdf = kdf, eh_params = p, eh_salt = salt, eh_raw = raw\<rparr>"
    by (cases h)
  obtain t m l sl where p: "p = \<lparr>ap_time = t, ap_memory = m, ap_lanes = l, ap_salt_len = sl\<rparr>" by (cases p)
  note ok = assms(1) [unfolded header_ok_def h p, simplified]
  let ?blob = "raw @ nonce @ ct"
  have raw: "raw = envelope_magic @ [word_of_int v, word_of_int k, kdf] @ put_uint32 t @ put_uint32 m @ [l, sl] @ salt"
    using ok by (simp add: build_header_def p)
  have sl: "unat sl = length salt" using ok by (simp add: unat_of_nat)
  have len: "length raw = 18 + length salt" using ok by (simp add: length_build_header envelope_header_min_def)
  have f0: "slice 0 5 ?blob = envelope_magic" by (simp add: raw slice_def envelope_magic_def)
  have f5: "?blob ! 5 = word_of_int v" "?blob ! 6 = word_of_int k" "?blob ! 7 = kdf"
    by (simp_all add: raw envelope_magic_def nth_append)
  have f8: "slice 8 12 ?blob = put_uint32 t" "slice 12 16 ?blob = put_uint32 m"
    by (simp_all add: raw slice_def envelope_magic_def put_uint32_def)
  have f16: "?blob ! 16 = l" "?blob ! 17 = sl"
    by (simp_all add: raw envelope_magic_def put_uint32_def nth_append)
  have f18: "slice 18 (18 + length salt) ?blob = salt"
    by (simp add: raw slice_def envelope_magic_def put_uint32_def)
  have u: "uint (word_of_int v :: 8 word) = v" "uint (word_of_int k :: 8 word) = k"
    using ok by (simp_all add: uint_word_of_int take_bit_int_eq_self)
  have tail: "slice (18 + length salt) (42 + length salt) ?blob = nonce"
    "drop (42 + length salt) ?blob = ct" "take (18 + length salt) ?blob = raw"
    using assms(2) len by (simp_all add: slice_def nonce_size_def)
  have fields: "v = 1" "kdf = kdf_none \<or> kdf = kdf_argon2id \<and> validate_argon_params p = None"
    using ok by (auto simp: p)
  show ?thesis
    using fields assms(2,3) len sl u
    unfolding h envelope_header.simps
    by (auto simp: p kdf_none_def kdf_argon2id_def parse_envelope_def Let_def f0 f5 f8 f16 get_put_uint32 envelope_header_min_def
        nonce_size_def envelope_version_def f18 tail)
qed

lemma parse_canonical:
  assumes "parse_envelope blob = Inr (h, nonce, ct)"
  shows "blob = eh_raw h @ nonce @ ct \<and> header_ok h \<and> length nonce = nonce_size \<and> aead_overhead \<le> length ct"
proof -
  have len: "18 \<le> length blob" using assms by (simp add: parse_envelope_def envelope_header_min_def split: if_splits)
  define rest where "rest = drop 18 blob"
  define start where "start = take 18 blob"
  have "length start = 18" using len by (simp add: start_def)
  then obtain x0 x1 x2 x3 x4 x5 x6 x7 x8 x9 x10 x11 x12 x13 x14 x15 x16 x17
    where start: "start = [x0, x1, x2, x3, x4, x5, x6, x7, x8, x9, x10, x11, x12, x13, x14, x15, x16, x17]"
    by (auto simp: length_Suc_conv eval_nat_numeral)
  have blob: "blob = start @ rest" by (simp add: rest_def start_def)
  let ?n = "unat x17"
  have n: "?n < 256" by (simp add: unat_less_256)
  define p where "p = \<lparr>ap_time = get_uint32 [x8, x9, x10, x11], ap_memory = get_uint32 [x12, x13, x14, x15], ap_lanes = x16, ap_salt_len = x17\<rparr>"
  have at: "blob ! 5 = x5" "blob ! 6 = x6" "blob ! 7 = x7" "blob ! 16 = x16" "blob ! 17 = x17"
    "slice 0 5 blob = [x0, x1, x2, x3, x4]" "slice 8 12 blob = [x8, x9, x10, x11]"
    "slice 12 16 blob = [x12, x13, x14, x15]"
    by (simp_all add: blob start slice_def nth_append)
  have cut: "slice 18 (18 + ?n) blob = take ?n rest" "take (18 + ?n) blob = start @ take ?n rest"
    "slice (18 + ?n) (42 + ?n) blob = take 24 (drop ?n rest)" "drop (42 + ?n) blob = drop 24 (drop ?n rest)"
    using \<open>length start = 18\<close> by (simp_all add: blob slice_def add.commute)
  have one: "uint x5 \<noteq> 0 \<Longrightarrow> \<not> 1 < uint x5 \<Longrightarrow> uint x5 = 1" using uint_ge_0 [of x5] by linarith
  have "length blob = 18 + length rest" by (simp add: blob start)
  then have parts: "[x0, x1, x2, x3, x4] = envelope_magic" "uint x5 = 1"
    "x7 = kdf_none \<or> x7 = kdf_argon2id \<and> validate_argon_params p = None"
    "?n + 40 \<le> length rest"
    "h = \<lparr>eh_version = 1, eh_kind = uint x6, eh_kdf = x7, eh_params = p, eh_salt = take ?n rest,
       eh_raw = start @ take ?n rest\<rparr>"
    "nonce = take 24 (drop ?n rest)" "ct = drop 24 (drop ?n rest)"
    using assms
    by (auto intro: one simp: parse_envelope_def Let_def at cut envelope_header_min_def envelope_version_def nonce_size_def
        aead_overhead_def p_def [symmetric] split: if_splits option.splits)
  have "blob = eh_raw h @ nonce @ ct"
    using parts(5-7) by (simp add: blob del: drop_drop)
  moreover have "x5 = 1" using parts(2) by (metis word_of_int_1 word_of_int_uint)
  then have "header_ok h"
    using parts n uint_lt2p [of x6]
    by (auto simp: header_ok_def build_header_def p_def put_get_uint32 start min_def)
  ultimately show ?thesis using parts by (simp add: nonce_size_def aead_overhead_def)
qed

subsection \<open>Sealing and opening\<close>

text \<open>What the libraries promise: a ciphertext opens under the key, nonce and data it was sealed with,
  it is 16 bytes longer than the plaintext, Argon2id gives the 32 bytes asked for, and a read of the
  random source that succeeds fills the buffer.\<close>

definition crypto_ok :: "crypto \<Rightarrow> bool" where
  "crypto_ok cr \<longleftrightarrow>
     (\<forall>k n p a. cr_open cr k n (cr_seal cr k n p a) a = Some p \<and> length (cr_seal cr k n p a) = length p + aead_overhead) \<and>
     (\<forall>s salt t m l. length (cr_argon cr s salt t m l) = kek_size)"

definition fills :: "'r random \<Rightarrow> bool" where
  "fills random \<longleftrightarrow> (\<forall>n r b r'. random n r = (Inr b, r') \<longrightarrow> length b = n)"

lemma seal_body_Inr:
  assumes "seal_body cr random plaintext secret kind kdf params salt r = (Inr blob, r')"
  obtains kek nonce r1 where "derive_kek cr secret salt kdf params = Inr kek" "length kek = kek_size"
    "random nonce_size r1 = (Inr nonce, r')"
    "blob = build_header envelope_version kind kdf params salt @ nonce @
       cr_seal cr kek nonce plaintext (build_header envelope_version kind kdf params salt)"
  using assms
  by (auto simp: seal_body_def Let_def new_aead_def split: sum.splits if_splits
      elim!: require_op_cases try_op_cases)

lemma build_header_kind: "build_header v (uint (word_of_int k :: 8 word)) kdf p salt = build_header v k kdf p salt"
  by (simp add: build_header_def)

lemma seal_body_opens:
  assumes "crypto_ok cr" "fills random"
    and "seal_body cr random plaintext secret kind kdf params salt r = (Inr blob, r')"
    and "ap_salt_len params = of_nat (length salt)" "length salt < 256"
  shows "\<exists>h nonce ct. parse_envelope blob = Inr (h, nonce, ct) \<and> eh_kind h = uint (word_of_int kind :: 8 word) \<and>
    eh_kdf h = kdf \<and> eh_params h = params" "env_open cr blob secret = Inr plaintext"
proof -
  obtain kek nonce r1 where k: "derive_kek cr secret salt kdf params = Inr kek" "length kek = kek_size"
    "random nonce_size r1 = (Inr nonce, r')"
    "blob = build_header envelope_version kind kdf params salt @ nonce @
       cr_seal cr kek nonce plaintext (build_header envelope_version kind kdf params salt)"
    by (rule seal_body_Inr [OF assms(3)])
  define h where "h = \<lparr>eh_version = 1, eh_kind = uint (word_of_int kind :: 8 word), eh_kdf = kdf, eh_params = params,
      eh_salt = salt, eh_raw = build_header envelope_version kind kdf params salt\<rparr>"
  have "uint (word_of_int kind :: 8 word) < 256" using uint_lt2p [of "word_of_int kind :: 8 word"] by simp
  then have "header_ok h"
    using k(1) assms(4,5) uint_ge_0 [of "word_of_int kind :: 8 word"]
    by (auto simp: header_ok_def h_def build_header_kind envelope_version_def derive_kek_def split: if_splits option.splits)
  moreover have "length nonce = nonce_size" using assms(2) k(3) by (auto simp: fills_def)
  moreover have "aead_overhead \<le> length (cr_seal cr kek nonce plaintext (eh_raw h))"
    using assms(1) by (simp add: crypto_ok_def)
  ultimately have parse: "parse_envelope blob = Inr (h, nonce, cr_seal cr kek nonce plaintext (eh_raw h))"
    using parse_build [of h nonce] k(4) by (simp add: h_def)
  then show "\<exists>h nonce ct. parse_envelope blob = Inr (h, nonce, ct) \<and> eh_kind h = uint (word_of_int kind :: 8 word) \<and>
    eh_kdf h = kdf \<and> eh_params h = params" by (simp add: h_def)
  have "derive_kek cr secret (eh_salt h) (eh_kdf h) (eh_params h) = Inr kek" using k(1) by (simp add: h_def)
  then show "env_open cr blob secret = Inr plaintext"
    using parse k(2) assms(1) by (simp add: env_open_def new_aead_def crypto_ok_def)
qed

lemma seal_with_cases:
  assumes "seal_with cr random plaintext secret kind kdf params r = (Inr blob, r')" "fills random"
  obtains p salt r1 where "seal_body cr random plaintext secret kind kdf p salt r1 = (Inr blob, r')"
    "ap_salt_len p = of_nat (length salt)" "length salt < 256" "p = (if kdf = kdf_argon2id then params else zero_params)"
proof (cases "kdf = kdf_argon2id")
  case True
  then have "try_op (KeyWrapped ''keys: salt'') (random (unat (ap_salt_len params)))
      (seal_body cr random plaintext secret kind kdf params) r = (Inr blob, r')"
    using assms(1) by (simp add: seal_with_def split: if_splits)
  then show thesis
  proof (cases rule: try_op_cases)
    case (err e)
    then show thesis by simp
  next
    case (ok salt r1)
    then have "length salt = unat (ap_salt_len params)" using assms(2) by (auto simp: fills_def)
    then show thesis using that [OF ok(2)] True unat_less_256 [of "ap_salt_len params"] by simp
  qed
next
  case False
  then have "seal_body cr random plaintext secret kind kdf zero_params [] r = (Inr blob, r')"
    using assms(1) by (simp add: seal_with_def split: if_splits)
  then show thesis using that False by (simp add: zero_params_def)
qed

text \<open>A stand-in that keeps the promises, for concrete instances: the ciphertext is the plaintext with a
  tag made of the key, and the key derivation pads the secret.\<close>

definition plain_crypto :: crypto where
  "plain_crypto = \<lparr>
     cr_argon = (\<lambda>s salt t m l. take kek_size (s @ replicate kek_size 0)),
     cr_seal = (\<lambda>k n p a. p @ take aead_overhead (k @ replicate aead_overhead 0)),
     cr_open = (\<lambda>k n c a. if drop (length c - aead_overhead) c = take aead_overhead (k @ replicate aead_overhead 0)
        then Some (take (length c - aead_overhead) c) else None)\<rparr>"

lemma plain_crypto_ok: "crypto_ok plain_crypto"
  by (auto simp: crypto_ok_def plain_crypto_def aead_overhead_def kek_size_def min_def)

definition counting_random :: "nat random" where
  "counting_random n r = (Inr (replicate n (of_nat r)), r + 1)"

lemma counting_fills: "fills counting_random"
  by (simp add: fills_def counting_random_def)

text \<open>The parameters within the ceilings.\<close>

definition bounded_cost :: "32 word \<Rightarrow> 32 word \<Rightarrow> 8 word \<Rightarrow> bool" where
  "bounded_cost t m l \<longleftrightarrow> 1 \<le> t \<and> t \<le> 16 \<and> 1 \<le> m \<and> m \<le> 1048576 \<and> 1 \<le> l \<and> l \<le> 16"

lemma word_pos: "(w :: 'a::len word) \<noteq> 0 \<longleftrightarrow> 1 \<le> w"
  by (metis word_le_0_iff word_less_1 linorder_not_less)

lemma validate_bounded: "validate_argon_params p = None \<longleftrightarrow> bounded_cost (ap_time p) (ap_memory p) (ap_lanes p)"
  by (auto simp: validate_argon_params_def bounded_cost_def max_argon_time_def max_argon_memory_def
      max_argon_lanes_def not_less word_pos [symmetric])

lemma sealed_opens:
  assumes "crypto_ok cr" "fills random"
    and "seal_with cr random plaintext secret kind kdf params r = (Inr blob, r')"
  shows "env_open cr blob secret = Inr plaintext"
proof -
  obtain p salt r1 where "seal_body cr random plaintext secret kind kdf p salt r1 = (Inr blob, r')"
    "ap_salt_len p = of_nat (length salt)" "length salt < 256"
    by (rule seal_with_cases [OF assms(3,2)])
  then show ?thesis by (rule seal_body_opens(2) [OF assms(1,2)])
qed

subsection \<open>Properties\<close>

text \<open>C30: whatever the service seals it can open again. For every plaintext, secret, kind, key derivation
  and cost parameters, an envelope that sealing returns opens under the same secret to the same
  plaintext: nothing is sealed with parameters that opening would refuse. (The premises are the
  documented behaviour of the two ciphers and of a read of the random source.)\<close>

theorem sealed_envelope_opens:
  assumes "crypto_ok cr" "fills random"
    and "seal_with cr random plaintext secret kind kdf params r = (Inr blob, r')"
  shows "env_open cr blob secret = Inr plaintext"
  by (rule sealed_opens [OF assms])

theorem sealed_envelope_opens_witness:
  "\<exists>blob. fst (seal_with plain_crypto counting_random [1, 2, 3] [7] wrap_rk kdf_argon2id default_argon_params 0) = Inr blob \<and>
     env_open plain_crypto blob [7] = Inr [1, 2, 3]"
proof -
  let ?s = "seal_with plain_crypto counting_random [1, 2, 3] [7] wrap_rk kdf_argon2id default_argon_params 0"
  have "\<not> (case fst ?s of Inl _ \<Rightarrow> True | Inr _ \<Rightarrow> False)" by code_simp
  then obtain blob where b: "fst ?s = Inr blob" by (cases "fst ?s") auto
  then have "?s = (Inr blob, snd ?s)" by (metis prod.collapse)
  then show ?thesis using sealed_envelope_opens [OF plain_crypto_ok counting_fills] b by blast
qed

text \<open>The wire format is canonical. A blob that parses is exactly its header, a 24-byte nonce and a
  ciphertext with room for the tag, and its header is exactly what the parsed fields serialise to,
  so the data authenticated with the ciphertext fixes version, kind, derivation, costs and salt;
  and every such header parses back to itself.\<close>

lemma envelope_format_canonical:
  "(parse_envelope blob = Inr (h, nonce, ct)) =
     (blob = eh_raw h @ nonce @ ct \<and> header_ok h \<and> length nonce = nonce_size \<and> aead_overhead \<le> length ct)"
  using parse_build [of h nonce ct] parse_canonical [of blob h nonce ct] by blast

text \<open>C32: a hostile envelope cannot make the service spend unbounded work. Opening depends on the key
  derivation only at costs of 1 to 16 passes, 1 KiB to 1 GiB and 1 to 16 lanes: two derivations that
  agree there are indistinguishable, so it is never asked for anything else.\<close>

theorem opening_cost_bounded:
  assumes "\<forall>s salt t m l. bounded_cost t m l \<longrightarrow> cr_argon cr s salt t m l = cr_argon cr' s salt t m l"
    and "cr_open cr = cr_open cr'"
  shows "env_open cr blob secret = env_open cr' blob secret"
proof -
  have "derive_kek cr secret salt kdf p = derive_kek cr' secret salt kdf p" for salt kdf p
  proof (cases "validate_argon_params p")
    case None
    then have "bounded_cost (ap_time p) (ap_memory p) (ap_lanes p)" by (simp add: validate_bounded)
    then show ?thesis using None assms(1) by (simp add: derive_kek_def)
  next
    case (Some e)
    then show ?thesis by (simp add: derive_kek_def)
  qed
  note kek = this
  show ?thesis unfolding env_open_def kek assms(2) by (rule refl)
qed

theorem opening_cost_bounded_witness:
  "env_open plain_crypto (envelope_magic @ [1, 1, 1] @ replicate 8 255 @ [255, 0] @ replicate 60 0) [7] =
   env_open (plain_crypto\<lparr>cr_argon := \<lambda>s salt t m l. if bounded_cost t m l then take kek_size (s @ replicate kek_size 0) else []\<rparr>)
     (envelope_magic @ [1, 1, 1] @ replicate 8 255 @ [255, 0] @ replicate 60 0) [7]"
  by (rule opening_cost_bounded) (simp_all add: plain_crypto_def)

end
