(* ===== verification/Key_Service.thy ===== *)
theory Key_Service
  imports Key_Envelope State_Store
begin

text \<open>
  The key service (src/pkg/keys/keys.go, service.go and memory.go): Data Keys wrapped under the
  Recovery Key or the Server Runtime Wrap key, unwrapped and rotated, and the in-memory key store.
\<close>

definition dk_size :: nat where "dk_size = 32"
definition srw_key_size :: nat where "srw_key_size = kek_size"
definition wrap_unknown :: int where "wrap_unknown = 0"

record wrapped_dk =
  wd_version :: int
  wd_kind :: int
  wd_blob :: bytes
  wd_created :: time

definition zero_wrapped :: wrapped_dk where
  "zero_wrapped = \<lparr>wd_version = 0, wd_kind = wrap_unknown, wd_blob = [], wd_created = zero_time\<rparr>"

text \<open>Fresh key material: a Data Key, and a server or target wrap key.\<close>

definition generate_dk :: "'r random \<Rightarrow> ('r, key_error, bytes) op" where
  "generate_dk random = try_op (KeyWrapped ''keys: generate DK'') (random dk_size) ok_op"

definition generate_srw_key :: "'r random \<Rightarrow> ('r, key_error, bytes) op" where
  "generate_srw_key random = try_op (KeyWrapped ''keys: generate SRW key'') (random srw_key_size) ok_op"

subsection \<open>Wrapping\<close>

definition wrap_with_rk ::
    "crypto \<Rightarrow> 'r random \<Rightarrow> bytes \<Rightarrow> bytes \<Rightarrow> argon_params \<Rightarrow> time \<Rightarrow> ('r, key_error, wrapped_dk) op" where
  "wrap_with_rk cr random dk rk params now =
     (if length dk \<noteq> dk_size then fail_op (BadEnvelope ''DK must be 32 bytes'')
      else try_op id (seal_with cr random dk rk wrap_rk kdf_argon2id params) (\<lambda>blob.
        ok_op \<lparr>wd_version = envelope_version, wd_kind = wrap_rk, wd_blob = blob, wd_created = now\<rparr>))"

definition unwrap_rk :: "crypto \<Rightarrow> wrapped_dk \<Rightarrow> bytes \<Rightarrow> key_error + bytes" where
  "unwrap_rk cr w rk =
     (if wd_kind w \<noteq> wrap_rk then Inl (BadEnvelope ''not an RK envelope'') else env_open cr (wd_blob w) rk)"

definition wrap_with_srw ::
    "crypto \<Rightarrow> 'r random \<Rightarrow> bytes \<Rightarrow> bytes \<Rightarrow> time \<Rightarrow> ('r, key_error, wrapped_dk) op" where
  "wrap_with_srw cr random dk srw_key now =
     (if length dk \<noteq> dk_size then fail_op (BadEnvelope ''DK must be 32 bytes'')
      else if length srw_key \<noteq> srw_key_size then fail_op (BadEnvelope ''SRW key must be 32 bytes'')
      else try_op id (seal_with cr random dk srw_key wrap_srw kdf_none zero_params) (\<lambda>blob.
        ok_op \<lparr>wd_version = envelope_version, wd_kind = wrap_srw, wd_blob = blob, wd_created = now\<rparr>))"

definition unwrap_srw :: "crypto \<Rightarrow> wrapped_dk \<Rightarrow> bytes \<Rightarrow> key_error + bytes" where
  "unwrap_srw cr w srw_key =
     (if wd_kind w \<noteq> wrap_srw then Inl (BadEnvelope ''not an SRW envelope'')
      else if length srw_key \<noteq> srw_key_size then Inl (BadEnvelope ''SRW key must be 32 bytes'')
      else env_open cr (wd_blob w) srw_key)"

definition rotate_srw ::
    "crypto \<Rightarrow> 'r random \<Rightarrow> wrapped_dk \<Rightarrow> bytes \<Rightarrow> bytes \<Rightarrow> time \<Rightarrow> ('r, key_error, wrapped_dk) op" where
  "rotate_srw cr random old old_key new_key now =
     (case unwrap_srw cr old old_key of
        Inl e \<Rightarrow> fail_op e
      | Inr dk \<Rightarrow> wrap_with_srw cr random dk new_key now)"

definition rotate_rk ::
    "crypto \<Rightarrow> 'r random \<Rightarrow> wrapped_dk \<Rightarrow> bytes \<Rightarrow> bytes \<Rightarrow> argon_params \<Rightarrow> time \<Rightarrow> ('r, key_error, wrapped_dk) op" where
  "rotate_rk cr random old old_rk new_rk params now =
     (case unwrap_rk cr old old_rk of
        Inl e \<Rightarrow> fail_op e
      | Inr dk \<Rightarrow> wrap_with_rk cr random dk new_rk params now)"

text \<open>The server's wrapper holds the key it was made with.\<close>

record srw_wrapper =
  sw_key :: bytes

definition new_srw_wrapper :: "bytes \<Rightarrow> key_error + srw_wrapper" where
  "new_srw_wrapper k =
     (if length k \<noteq> srw_key_size then Inl (BadEnvelope ''SRW key must be 32 bytes'') else Inr \<lparr>sw_key = k\<rparr>)"

definition wrapper_unwrap :: "crypto \<Rightarrow> srw_wrapper \<Rightarrow> wrapped_dk \<Rightarrow> key_error + bytes" where
  "wrapper_unwrap cr s w = unwrap_srw cr w (sw_key s)"

definition wrapper_wrap :: "crypto \<Rightarrow> 'r random \<Rightarrow> srw_wrapper \<Rightarrow> bytes \<Rightarrow> time \<Rightarrow> ('r, key_error, wrapped_dk) op" where
  "wrapper_wrap cr random s dk now = wrap_with_srw cr random dk (sw_key s) now"

definition zeroize :: "bytes \<Rightarrow> bytes" where
  "zeroize b = map (\<lambda>_. 0) b"

definition wrapper_close :: "srw_wrapper \<Rightarrow> srw_wrapper" where
  "wrapper_close s = s\<lparr>sw_key := zeroize (sw_key s)\<rparr>"

subsection \<open>Records and status\<close>

record space_keys =
  sk_space :: string
  sk_rk :: wrapped_dk
  sk_srw :: wrapped_dk
  sk_created :: time
  sk_updated :: time

record key_status =
  ks_space :: string
  ks_configured :: bool
  ks_has_rk :: bool
  ks_has_srw :: bool
  ks_rk_version :: int
  ks_srw_version :: int
  ks_created :: time
  ks_updated :: time

definition no_status :: "string \<Rightarrow> key_status" where
  "no_status sp = \<lparr>ks_space = sp, ks_configured = False, ks_has_rk = False, ks_has_srw = False,
     ks_rk_version = 0, ks_srw_version = 0, ks_created = zero_time, ks_updated = zero_time\<rparr>"

definition status_of :: "space_keys \<Rightarrow> key_status" where
  "status_of k =
     (let has_rk = (wd_kind (sk_rk k) = wrap_rk); has_srw = (wd_kind (sk_srw k) = wrap_srw) in
      \<lparr>ks_space = sk_space k, ks_configured = (has_rk \<and> has_srw), ks_has_rk = has_rk, ks_has_srw = has_srw,
       ks_rk_version = wd_version (sk_rk k), ks_srw_version = wd_version (sk_srw k),
       ks_created = sk_created k, ks_updated = sk_updated k\<rparr>)"

datatype store_key_error =
    NoEnvelope string
  | StoreBadEnvelope
  | StoreFailed string state_error
  | SpaceIdRequired

subsection \<open>The in-memory store\<close>

type_synonym keys_memory = "(string \<times> space_keys) list"

definition keys_mem_record :: "string \<Rightarrow> time \<Rightarrow> keys_memory \<Rightarrow> space_keys" where
  "keys_mem_record sp now m =
     (case map_of m sp of
        Some rec \<Rightarrow> rec
      | None \<Rightarrow> \<lparr>sk_space = sp, sk_rk = zero_wrapped, sk_srw = zero_wrapped, sk_created = now, sk_updated = now\<rparr>)"

definition keys_mem_put_srw :: "string \<Rightarrow> wrapped_dk \<Rightarrow> time \<Rightarrow> (keys_memory, store_key_error, unit) op" where
  "keys_mem_put_srw sp w now m =
     (if wd_kind w \<noteq> wrap_srw then (Inl StoreBadEnvelope, m)
      else (Inr (), AList.update sp ((keys_mem_record sp now m)\<lparr>sk_srw := w, sk_updated := now\<rparr>) m))"

definition keys_mem_get_srw :: "string \<Rightarrow> (keys_memory, store_key_error, wrapped_dk) op" where
  "keys_mem_get_srw sp m =
     (case map_of m sp of
        None \<Rightarrow> (Inl (NoEnvelope sp), m)
      | Some rec \<Rightarrow> if wd_kind (sk_srw rec) \<noteq> wrap_srw then (Inl (NoEnvelope sp), m) else (Inr (sk_srw rec), m))"

definition keys_mem_put_rk :: "string \<Rightarrow> wrapped_dk \<Rightarrow> time \<Rightarrow> (keys_memory, store_key_error, unit) op" where
  "keys_mem_put_rk sp w now m =
     (if wd_kind w \<noteq> wrap_rk then (Inl StoreBadEnvelope, m)
      else (Inr (), AList.update sp ((keys_mem_record sp now m)\<lparr>sk_rk := w, sk_updated := now\<rparr>) m))"

definition keys_mem_get_rk :: "string \<Rightarrow> (keys_memory, store_key_error, wrapped_dk) op" where
  "keys_mem_get_rk sp m =
     (case map_of m sp of
        None \<Rightarrow> (Inl (NoEnvelope sp), m)
      | Some rec \<Rightarrow> if wd_kind (sk_rk rec) \<noteq> wrap_rk then (Inl (NoEnvelope sp), m) else (Inr (sk_rk rec), m))"

definition keys_mem_status :: "string \<Rightarrow> (keys_memory, store_key_error, key_status) op" where
  "keys_mem_status sp m =
     (case map_of m sp of None \<Rightarrow> (Inr (no_status sp), m) | Some rec \<Rightarrow> (Inr (status_of rec), m))"

definition keys_mem_spaces :: "(keys_memory, store_key_error, string list) op" where
  "keys_mem_spaces m = (Inr (sorted_set_list (map fst m)), m)"

definition keys_mem_delete :: "string \<Rightarrow> keys_memory \<Rightarrow> keys_memory" where
  "keys_mem_delete sp m = AList.delete sp m"

subsection \<open>Properties\<close>

lemma wrap_with_srw_Inr:
  assumes "wrap_with_srw cr random dk k now r = (Inr w, r')"
  shows "seal_with cr random dk k wrap_srw kdf_none zero_params r = (Inr (wd_blob w), r')"
    "wd_kind w = wrap_srw" "wd_version w = envelope_version" "length dk = dk_size" "length k = srw_key_size"
  using assms by (auto simp: wrap_with_srw_def split: if_splits elim!: try_op_cases)

lemma wrap_with_srw_unwraps:
  assumes "crypto_ok cr" "fills random" "wrap_with_srw cr random dk k now r = (Inr w, r')"
  shows "unwrap_srw cr w k = Inr dk"
  using wrap_with_srw_Inr [OF assms(3)] sealed_opens [OF assms(1,2)]
  by (simp add: unwrap_srw_def wrap_srw_def)

lemma wrap_with_rk_Inr:
  assumes "wrap_with_rk cr random dk k params now r = (Inr w, r')"
  shows "seal_with cr random dk k wrap_rk kdf_argon2id params r = (Inr (wd_blob w), r')" "wd_kind w = wrap_rk"
    "length dk = dk_size"
  using assms by (auto simp: wrap_with_rk_def split: if_splits elim!: try_op_cases)

text \<open>Rotation re-wraps the same Data Key. An envelope that a rotation returns, of the server key or
  of the Recovery Key, opens under the new key to the Data Key the old envelope opens to under the
  old key, so every snapshot stays readable.\<close>

lemma rotation_keeps_data_key:
  assumes "crypto_ok cr" "fills random"
  shows "(rotate_srw cr random old old_key new_key now r = (Inr w, r') \<longrightarrow>
      unwrap_srw cr w new_key = unwrap_srw cr old old_key) \<and>
    (rotate_rk cr random old old_rk new_rk params now r = (Inr w, r') \<longrightarrow>
      unwrap_rk cr w new_rk = unwrap_rk cr old old_rk)"
  using wrap_with_srw_unwraps [OF assms] sealed_opens [OF assms] wrap_with_rk_Inr
  by (fastforce simp: rotate_srw_def rotate_rk_def unwrap_rk_def split: sum.splits)

definition sample_wrapped :: "int \<Rightarrow> bytes \<Rightarrow> wrapped_dk" where
  "sample_wrapped kind key =
     (case wrap_with_srw plain_crypto counting_random (replicate 32 9) key 5 0 of
        (Inr w, _) \<Rightarrow> w\<lparr>wd_kind := kind\<rparr> | (Inl _, _) \<Rightarrow> zero_wrapped)"

text \<open>The service stores a client's recovery envelope only if it is worth storing. A blob passes
  exactly when it parses, is a Recovery Key wrap, is derived with Argon2id and costs at least 2
  passes, 19 MiB, 1 lane and 16 bytes of salt; with what parsing demands, its costs then lie
  between that floor and the ceilings.\<close>

lemma recovery_envelope_floor:
  "(\<exists>info. check_recovery_envelope blob = Inr info) =
   (\<exists>h nonce ct. parse_envelope blob = Inr (h, nonce, ct) \<and> eh_kind h = wrap_rk \<and> eh_kdf h = kdf_argon2id \<and>
      2 \<le> ap_time (eh_params h) \<and> ap_time (eh_params h) \<le> 16 \<and>
      19 * 1024 \<le> ap_memory (eh_params h) \<and> ap_memory (eh_params h) \<le> 1024 * 1024 \<and>
      1 \<le> ap_lanes (eh_params h) \<and> ap_lanes (eh_params h) \<le> 16 \<and> 16 \<le> ap_salt_len (eh_params h))"
proof (cases "parse_envelope blob")
  case (Inl e)
  then show ?thesis by (simp add: check_recovery_envelope_def inspect_def)
next
  case (Inr x)
  obtain h nonce ct where x: "x = (h, nonce, ct)" by (cases x)
  have "header_ok h" using parse_canonical Inr x by blast
  then have "eh_kdf h = kdf_argon2id \<Longrightarrow> bounded_cost (ap_time (eh_params h)) (ap_memory (eh_params h)) (ap_lanes (eh_params h))"
    by (auto simp: header_ok_def validate_bounded kdf_none_def kdf_argon2id_def)
  then show ?thesis
    using Inr x
    by (auto simp: check_recovery_envelope_def inspect_def check_argon_floor_def min_argon_params_def
        bounded_cost_def not_less)
qed

end
