(* ===== verification/Key_Store.thy ===== *)
theory Key_Store
  imports Key_Service State_Versions
begin

text \<open>
  The durable key store (src/internal/keystore/keystore.go): envelopes as append-only records, one per
  Space and kind, over the single-document record of the layout before.

  Both layouts live in the same state store; each has its own encoding. A clock reading is the
  parameter \<open>now\<close>.
\<close>

definition envelope_prefix :: string where "envelope_prefix = ''keyenvelopes''"
definition legacy_keys_prefix :: string where "legacy_keys_prefix = ''keys''"
definition kind_rk :: string where "kind_rk = ''rk''"
definition kind_srw :: string where "kind_srw = ''srw''"

record ('s, 'v) key_store =
  kst_envelopes :: "('s, 'v, wrapped_dk) versions"
  kst_legacy :: "('s, 'v, space_keys) documents"

definition new_key_store ::
    "('s, 'v) store \<Rightarrow> (wrapped_dk \<Rightarrow> 'v option) \<Rightarrow> ('v \<Rightarrow> wrapped_dk option) \<Rightarrow>
     (space_keys \<Rightarrow> 'v option) \<Rightarrow> ('v \<Rightarrow> space_keys option) \<Rightarrow> ('s, 'v) key_store" where
  "new_key_store st enc dec lenc ldec =
     \<lparr>kst_envelopes = new_versions st envelope_prefix enc dec, kst_legacy = new_documents st legacy_keys_prefix lenc ldec\<rparr>"

definition legacy_record :: "('s, 'v) key_store \<Rightarrow> string \<Rightarrow> ('s, store_key_error, space_keys) op" where
  "legacy_record ks sp =
     try_op (\<lambda>e. if is_not_found e then NoEnvelope sp else StoreFailed ''could not read the key record'' e)
       (docs_get (kst_legacy ks) [sp]) ok_op"

definition key_envelope :: "('s, 'v) key_store \<Rightarrow> string \<Rightarrow> string \<Rightarrow> ('s, store_key_error, wrapped_dk) op" where
  "key_envelope ks sp kind s =
     (case versions_load (kst_envelopes ks) [sp, kind] s of
        (Inr (w, _), s1) \<Rightarrow> (Inr w, s1)
      | (Inl e, s1) \<Rightarrow>
         if is_not_found e then
           try_op id (legacy_record ks sp) (\<lambda>legacy. ok_op (if kind = kind_rk then sk_rk legacy else sk_srw legacy)) s1
         else (Inl (StoreFailed ''could not read the key record'' e), s1))"

definition key_newest :: "('s, 'v) key_store \<Rightarrow> string \<Rightarrow> string \<Rightarrow> int \<Rightarrow> ('s, store_key_error, wrapped_dk) op" where
  "key_newest ks sp kind want =
     try_op id (key_envelope ks sp kind) (\<lambda>w. if wd_kind w \<noteq> want then fail_op (NoEnvelope sp) else ok_op w)"

definition key_append :: "('s, 'v) key_store \<Rightarrow> string \<Rightarrow> string \<Rightarrow> wrapped_dk \<Rightarrow> time \<Rightarrow> ('s, store_key_error, unit) op" where
  "key_append ks sp kind w now =
     (if sp = [] then fail_op SpaceIdRequired
      else try_op (StoreFailed ''could not store the key record'')
        (versions_append (kst_envelopes ks) now w [sp, kind]) ok_op)"

definition put_srw :: "('s, 'v) key_store \<Rightarrow> time \<Rightarrow> string \<Rightarrow> wrapped_dk \<Rightarrow> ('s, store_key_error, unit) op" where
  "put_srw ks now sp w = (if wd_kind w \<noteq> wrap_srw then fail_op StoreBadEnvelope else key_append ks sp kind_srw w now)"

definition get_srw :: "('s, 'v) key_store \<Rightarrow> string \<Rightarrow> ('s, store_key_error, wrapped_dk) op" where
  "get_srw ks sp = key_newest ks sp kind_srw wrap_srw"

definition put_rk :: "('s, 'v) key_store \<Rightarrow> time \<Rightarrow> string \<Rightarrow> wrapped_dk \<Rightarrow> ('s, store_key_error, unit) op" where
  "put_rk ks now sp w = (if wd_kind w \<noteq> wrap_rk then fail_op StoreBadEnvelope else key_append ks sp kind_rk w now)"

definition get_rk :: "('s, 'v) key_store \<Rightarrow> string \<Rightarrow> ('s, store_key_error, wrapped_dk) op" where
  "get_rk ks sp = key_newest ks sp kind_rk wrap_rk"

subsection \<open>Status\<close>

definition earliest :: "time \<Rightarrow> time \<Rightarrow> time" where
  "earliest a b = (if is_zero_time a then b else if is_zero_time b then a else if b < a then b else a)"

definition latest :: "time \<Rightarrow> time \<Rightarrow> time" where
  "latest a b = (if is_zero_time a then b else if is_zero_time b then a else if b > a then b else a)"

definition loaded :: "state_error + (wrapped_dk \<times> span) \<Rightarrow> wrapped_dk" where
  "loaded r = (case r of Inl _ \<Rightarrow> zero_wrapped | Inr (w, _) \<Rightarrow> w)"

definition loaded_span :: "state_error + (wrapped_dk \<times> span) \<Rightarrow> span" where
  "loaded_span r = (case r of Inl _ \<Rightarrow> zero_span | Inr (_, sp) \<Rightarrow> sp)"

definition present :: "state_error + (wrapped_dk \<times> span) \<Rightarrow> bool" where
  "present r = (case r of Inl _ \<Rightarrow> False | Inr _ \<Rightarrow> True)"

text \<open>A load that failed for another reason than that nothing is there.\<close>

definition hard_failure :: "state_error + (wrapped_dk \<times> span) \<Rightarrow> state_error option" where
  "hard_failure r = (case r of Inl e \<Rightarrow> if is_not_found e then None else Some e | Inr _ \<Rightarrow> None)"

definition key_read :: "('s, 'v) key_store \<Rightarrow> string \<Rightarrow> ('s, store_key_error, space_keys) op" where
  "key_read ks sp s =
     (case versions_load (kst_envelopes ks) [sp, kind_rk] s of (rk, s1) \<Rightarrow>
     (case versions_load (kst_envelopes ks) [sp, kind_srw] s1 of (srw, s2) \<Rightarrow>
     (case (hard_failure rk, hard_failure srw) of
        (Some e, _) \<Rightarrow> (Inl (StoreFailed ''could not read the key record'' e), s2)
      | (None, Some e) \<Rightarrow> (Inl (StoreFailed ''could not read the key record'' e), s2)
      | (None, None) \<Rightarrow>
         let rec = \<lparr>sk_space = sp, sk_rk = loaded rk, sk_srw = loaded srw,
               sk_created = earliest (span_oldest (loaded_span rk)) (span_oldest (loaded_span srw)),
               sk_updated = latest (span_newest (loaded_span rk)) (span_newest (loaded_span srw))\<rparr> in
         if present rk \<and> present srw then (Inr rec, s2)
         else (case legacy_record ks sp s2 of
             (Inl e, s3) \<Rightarrow> if \<not> present rk \<and> \<not> present srw then (Inl e, s3) else (Inr rec, s3)
           | (Inr legacy, s3) \<Rightarrow>
              (Inr (rec\<lparr>sk_rk := if present rk then sk_rk rec else sk_rk legacy,
                 sk_srw := if present srw then sk_srw rec else sk_srw legacy,
                 sk_created := earliest (sk_created rec) (sk_created legacy),
                 sk_updated := latest (sk_updated rec) (sk_updated legacy)\<rparr>), s3)))))"

definition key_status_of :: "('s, 'v) key_store \<Rightarrow> string \<Rightarrow> ('s, store_key_error, key_status) op" where
  "key_status_of ks sp s =
     (case key_read ks sp s of
        (Inl e, s1) \<Rightarrow> (case e of NoEnvelope _ \<Rightarrow> (Inr (no_status sp), s1) | _ \<Rightarrow> (Inl e, s1))
      | (Inr rec, s1) \<Rightarrow> (Inr (status_of rec), s1))"

definition merge_ids :: "string list \<Rightarrow> string list \<Rightarrow> string list" where
  "merge_ids a b = sorted_set_list (a @ b)"

definition key_spaces :: "('s, 'v) key_store \<Rightarrow> ('s, store_key_error, string list) op" where
  "key_spaces ks =
     try_op (StoreFailed ''could not list the key records'') (versions_ids (kst_envelopes ks)) (\<lambda>versioned.
     try_op (StoreFailed ''could not list the key records'') (docs_ids (kst_legacy ks)) (\<lambda>legacy.
     ok_op (merge_ids versioned legacy)))"

subsection \<open>What the store holds for a Space\<close>

text \<open>The key store of the service: over the fallible backend, each layout with its encoding.\<close>

definition service_keys ::
    "(wrapped_dk \<Rightarrow> 'v option) \<Rightarrow> ('v \<Rightarrow> wrapped_dk option) \<Rightarrow> (space_keys \<Rightarrow> 'v option) \<Rightarrow>
     ('v \<Rightarrow> space_keys option) \<Rightarrow> ('v backend, 'v) key_store" where
  "service_keys enc dec lenc ldec = new_key_store backend_store enc dec lenc ldec"

definition envelope_keys :: "(string \<rightharpoonup> 'v) \<Rightarrow> ('s, 'v) key_store \<Rightarrow> string \<Rightarrow> string \<Rightarrow> string list" where
  "envelope_keys m ks sp kind = sorted_list_of_set (record_keys m (docs_key (v_docs (kst_envelopes ks)) [sp, kind]))"

definition held_envelope :: "(string \<rightharpoonup> 'v) \<Rightarrow> ('s, 'v) key_store \<Rightarrow> string \<Rightarrow> string \<Rightarrow> wrapped_dk option" where
  "held_envelope m ks sp kind =
     (case newest_version (envelope_keys m ks sp kind) of
        Some (_, k) \<Rightarrow> doc_at (v_docs (kst_envelopes ks)) m k
      | None \<Rightarrow> map_option (\<lambda>l. if kind = kind_rk then sk_rk l else sk_srw l)
          (doc_at (kst_legacy ks) m (docs_key (kst_legacy ks) [sp])))"

definition held_srw :: "(string \<rightharpoonup> 'v) \<Rightarrow> ('s, 'v) key_store \<Rightarrow> string \<Rightarrow> wrapped_dk option" where
  "held_srw m ks sp =
     (case held_envelope m ks sp kind_srw of Some w \<Rightarrow> if wd_kind w = wrap_srw then Some w else None | None \<Rightarrow> None)"

lemma listed_keys: "store_list backend_store p s = (Inr l, s') \<Longrightarrow> sorted_list_of_set (record_keys (backend_view s) p) = l"
  using backend.list_ok [of p s l s']
  by (metis record_keys_def sorted_distinct_set_unique finite_set set_sorted_list_of_set distinct_sorted_list_of_set sorted_list_of_set_sort_remdups sorted_sorted_list_of_set)

lemma service_keys_parts:
  "kst_envelopes (service_keys enc dec lenc ldec) = new_versions backend_store envelope_prefix enc dec"
  "kst_legacy (service_keys enc dec lenc ldec) = new_documents backend_store legacy_keys_prefix lenc ldec"
  by (simp_all add: service_keys_def new_key_store_def)

lemma first_id_segment:
  "first_id p (p @ CHR ''/'' # escape_segment i @ CHR ''/'' # r) = (if i = [] then None else Some i)"
  using go_cut_prefix_append [of "p @ ''/''" "escape_segment i @ CHR ''/'' # r"]
  by (simp add: first_id_def go_before_first_append [OF slash_notin_escape] unescape_escape del: go_cut_prefix_append)

lemma first_id_below:
  "i \<noteq> [] \<Longrightarrow> first_id p (p @ CHR ''/'' # escape_segment i @ CHR ''/'' # r) = Some i"
  by (simp add: first_id_segment)

lemma envelope_key:
  "docs_key (v_docs (kst_envelopes (service_keys enc dec lenc ldec))) [sp, kind] =
     envelope_prefix @ CHR ''/'' # escape_segment sp @ CHR ''/'' # escape_segment kind"
  by (simp add: service_keys_parts docs_key_def new_versions_def new_documents_def state_key_Cons state_key_single)

lemma service_envelopes_versioned:
  "reversible enc dec \<Longrightarrow> versioned backend_store backend_view (kst_envelopes (service_keys enc dec lenc ldec))"
  by (simp add: service_keys_parts versioned_new(1) [OF backend.kv_store_axioms])

lemma service_envelope_docs:
  "reversible enc dec \<Longrightarrow> collection backend_store backend_view (v_docs (kst_envelopes (service_keys enc dec lenc ldec)))"
  by (simp add: service_keys_parts new_versions_def collection_new [OF backend.kv_store_axioms])

lemma service_legacy_docs:
  "reversible lenc ldec \<Longrightarrow> collection backend_store backend_view (kst_legacy (service_keys enc dec lenc ldec))"
  by (simp add: service_keys_parts collection_new [OF backend.kv_store_axioms])

lemma envelope_stores [simp]:
  "d_store (v_docs (kst_envelopes (service_keys enc dec lenc ldec))) = backend_store"
  "v_legacy (kst_envelopes (service_keys enc dec lenc ldec)) = None"
  by (simp_all add: service_keys_parts new_versions_def new_documents_def)

text \<open>A load answers the newest stored version, or that there is none; anything else is a failure.\<close>

lemma envelope_load:
  assumes rev: "reversible enc dec"
    and l: "versions_load (kst_envelopes (service_keys enc dec lenc ldec)) [sp, kind] s = (r, s')"
  shows "backend_view s' = backend_view s \<and>
    (\<forall>w at. r = Inr (w, at) \<longrightarrow> (\<exists>n k. newest_version (envelope_keys (backend_view s) (service_keys enc dec lenc ldec) sp kind) = Some (n, k) \<and>
       doc_at (v_docs (kst_envelopes (service_keys enc dec lenc ldec))) (backend_view s) k = Some w)) \<and>
    (\<forall>e. r = Inl e \<longrightarrow> is_not_found e \<longrightarrow>
       newest_version (envelope_keys (backend_view s) (service_keys enc dec lenc ldec) sp kind) = None)"
proof -
  let ?v = "kst_envelopes (service_keys enc dec lenc ldec)"
  let ?p = "docs_key (v_docs ?v) [sp, kind]"
  note docs = collection.docs_get_key_ok [OF service_envelope_docs [OF rev]]
    collection.docs_get_key_missing [OF service_envelope_docs [OF rev]]
  obtain q s1 where ls: "store_list backend_store ?p s = (q, s1)" by fastforce
  have v1: "backend_view s1 = backend_view s" using ls by (rule backend.list_view)
  have "backend_view s' = backend_view s"
    using versioned.versions_load_view [OF service_envelopes_versioned [OF rev] l] .
  moreover have "newest_version (envelope_keys (backend_view s) (service_keys enc dec lenc ldec) sp kind) = None"
    if "r = Inl e" "is_not_found e" for e
  proof (cases q)
    case (Inl e1)
    then show ?thesis using l ls that backend.list_fails [OF ls [unfolded Inl]] by (simp add: versions_load_def Let_def)
  next
    case (Inr keys)
    note listed = listed_keys [OF ls [unfolded Inr]]
    show ?thesis
    proof (cases "newest_version keys")
      case None
      then show ?thesis by (simp add: envelope_keys_def listed)
    next
      case (Some m)
      obtain n k where m: "newest_version keys = Some (n, k)" using Some by (cases m) auto
      have "docs_get_key (v_docs ?v) k s1 = (Inl e, s')"
        using l ls Inr m that by (auto simp: versions_load_def Let_def split: prod.splits sum.splits)
      then have "backend_view s k = None" using docs(2) that(2) v1 by metis
      moreover have "k \<in> set keys" using newest_version_Some(1) [OF m] .
      ultimately show ?thesis using backend.list_set [OF ls [unfolded Inr]] by auto
    qed
  qed
  moreover have "\<exists>n k. newest_version (envelope_keys (backend_view s) (service_keys enc dec lenc ldec) sp kind) = Some (n, k) \<and>
       doc_at (v_docs ?v) (backend_view s) k = Some w" if "r = Inr (w, at)" for w at
  proof -
    obtain keys where q: "q = Inr keys" using l ls \<open>r = Inr (w, at)\<close> by (cases q) (auto simp: versions_load_def Let_def)
    note listed = listed_keys [OF ls [unfolded q]]
    obtain n k where m: "newest_version keys = Some (n, k)"
      using l ls q \<open>r = Inr (w, at)\<close> by (auto simp: versions_load_def Let_def split: option.splits)
    obtain s2 where "docs_get_key (v_docs ?v) k s1 = (Inr w, s2)"
      using l ls q m \<open>r = Inr (w, at)\<close> by (auto simp: versions_load_def Let_def split: prod.splits sum.splits)
    then have "doc_at (v_docs ?v) (backend_view s) k = Some w" using docs(1) v1 by metis
    then show ?thesis using m by (auto simp: envelope_keys_def listed)
  qed
  ultimately show ?thesis by blast
qed

lemma legacy_record_reads:
  assumes rev: "reversible lenc ldec" and l: "legacy_record (service_keys enc dec lenc ldec) sp s = (r, s')"
  shows "backend_view s' = backend_view s \<and>
    (\<forall>x. r = Inr x \<longrightarrow> doc_at (kst_legacy (service_keys enc dec lenc ldec)) (backend_view s)
       (docs_key (kst_legacy (service_keys enc dec lenc ldec)) [sp]) = Some x) \<and>
    (\<forall>i. r = Inl (NoEnvelope i) \<longrightarrow> doc_at (kst_legacy (service_keys enc dec lenc ldec)) (backend_view s)
       (docs_key (kst_legacy (service_keys enc dec lenc ldec)) [sp]) = None)"
  using l
  by (auto simp: legacy_record_def docs_get_def doc_at_def elim!: try_op_cases split: if_splits
      dest: collection.docs_get_key_view [OF service_legacy_docs [OF rev]]
        collection.docs_get_key_missing [OF service_legacy_docs [OF rev]]
        collection.docs_get_key_ok [OF service_legacy_docs [OF rev]])

text \<open>A read of one kind answers the envelope held, and refuses a Space only when none is held.\<close>

lemma key_envelope_reads:
  assumes rev: "reversible enc dec" "reversible lenc ldec"
    and l: "key_envelope (service_keys enc dec lenc ldec) sp kind s = (r, s')"
  shows "backend_view s' = backend_view s \<and>
    (\<forall>w. r = Inr w \<longrightarrow> held_envelope (backend_view s) (service_keys enc dec lenc ldec) sp kind = Some w) \<and>
    (\<forall>i. r = Inl (NoEnvelope i) \<longrightarrow> held_envelope (backend_view s) (service_keys enc dec lenc ldec) sp kind = None)"
proof -
  let ?ks = "service_keys enc dec lenc ldec"
  obtain q s1 where ld: "versions_load (kst_envelopes ?ks) [sp, kind] s = (q, s1)" by fastforce
  note env = envelope_load [OF rev(1) ld]
  show ?thesis
  proof (cases q)
    case (Inr x)
    then show ?thesis
      using l ld env by (cases x) (auto simp: key_envelope_def held_envelope_def)
  next
    case (Inl e)
    show ?thesis
    proof (cases "is_not_found e")
      case False
      then show ?thesis using l ld Inl env by (auto simp: key_envelope_def)
    next
      case True
      then have none: "newest_version (envelope_keys (backend_view s) ?ks sp kind) = None" using env Inl by blast
      have "try_op id (legacy_record ?ks sp) (\<lambda>legacy. ok_op (if kind = kind_rk then sk_rk legacy else sk_srw legacy)) s1 = (r, s')"
        using l ld Inl True by (simp add: key_envelope_def)
      then show ?thesis
      proof (cases rule: try_op_cases)
        case (err e1)
        then show ?thesis
          using legacy_record_reads [OF rev(2) err(1)] none env by (auto simp: held_envelope_def)
      next
        case (ok legacy s2)
        then show ?thesis
          using legacy_record_reads [OF rev(2) ok(1)] none env by (auto simp: held_envelope_def)
      qed
    qed
  qed
qed

lemma get_srw_reads:
  assumes rev: "reversible enc dec" "reversible lenc ldec"
    and l: "get_srw (service_keys enc dec lenc ldec) sp s = (r, s')"
  shows "backend_view s' = backend_view s \<and>
    (\<forall>w. r = Inr w \<longrightarrow> held_srw (backend_view s) (service_keys enc dec lenc ldec) sp = Some w) \<and>
    (\<forall>i. r = Inl (NoEnvelope i) \<longrightarrow> held_srw (backend_view s) (service_keys enc dec lenc ldec) sp = None)"
  using l key_envelope_reads [OF rev, of sp kind_srw s]
  by (fastforce simp: get_srw_def key_newest_def held_srw_def elim!: try_op_cases split: if_splits)

subsection \<open>Writing an envelope\<close>

definition envelope_room :: "(string \<rightharpoonup> 'v) \<Rightarrow> ('s, 'v) key_store \<Rightarrow> string \<Rightarrow> bool" where
  "envelope_room m ks sp = stamps_below m (docs_key (v_docs (kst_envelopes ks)) [sp, kind_srw]) max_int64"

lemma kind_names: "kind_srw \<noteq> []" "kind_rk \<noteq> []"
  by (simp_all add: kind_srw_def kind_rk_def)

lemma record_keys_insert:
  "record_keys (m(k \<mapsto> raw)) p = (if has_segment_prefix k p then insert k (record_keys m p) else record_keys m p)"
  by (auto simp: record_keys_def)

lemma finite_view: "finite (record_keys (backend_view s) p)"
  by (auto simp: record_keys_def backend_view_def finite_dom_map_of intro: finite_subset [of _ "dom (map_of (contents s))"])

lemma newest_inserted:
  assumes "finite K" "version_nanos k = Some n" "\<forall>k'\<in>K. \<forall>n'. version_nanos k' = Some n' \<longrightarrow> n' < n"
  shows "newest_version (sorted_list_of_set (insert k K)) = Some (n, k)"
proof -
  have set: "set (sorted_list_of_set (insert k K)) = insert k K"
    using assms(1) by (intro set_sorted_list_of_set) simp
  then obtain m j where m: "newest_version (sorted_list_of_set (insert k K)) = Some (m, j)"
    using newest_version_None [of "sorted_list_of_set (insert k K)" k] assms(2)
    by (cases "newest_version (sorted_list_of_set (insert k K))") auto
  note mj = newest_version_Some [OF m, unfolded set]
  have "n \<le> m" using mj(3) [of k n] assms(2) by simp
  then have "j = k" using mj(1,2) assms(3) by force
  then show ?thesis using m mj(2) assms(2) by simp
qed

text \<open>The records of two Spaces do not overlap, nor do they meet the layout before.\<close>

lemma envelope_records_apart:
  fixes enc :: "wrapped_dk \<Rightarrow> 'v option"
  assumes "sp \<noteq> []"
    and "has_segment_prefix (docs_key (v_docs (kst_envelopes (service_keys enc dec lenc ldec))) [sp, kind] @ ''/'' @ v)
      (docs_key (v_docs (kst_envelopes (service_keys enc dec lenc ldec))) [sp', kind'])" "kind' \<noteq> []"
  shows "sp' = sp"
proof -
  let ?d = "v_docs (kst_envelopes (service_keys enc dec lenc ldec))"
  let ?k = "docs_key ?d [sp, kind] @ ''/'' @ v"
  have 1: "first_id envelope_prefix ?k = Some sp"
    using first_id_below [OF assms(1), of envelope_prefix "escape_segment kind @ ''/'' @ v"] by (simp add: envelope_key)
  have "?k = docs_key ?d [sp', kind'] \<or> (\<exists>r. ?k = docs_key ?d [sp', kind'] @ CHR ''/'' # r)"
    using assms(2) has_segment_prefix_iff [OF docs_key_not_nil last_docs_key [of "[sp', kind']" ?d], of ?k] assms(3) by simp
  then have "first_id envelope_prefix ?k = (if sp' = [] then None else Some sp')"
    using first_id_segment [of envelope_prefix sp' "escape_segment kind'"]
      first_id_segment [of envelope_prefix sp' "escape_segment kind' @ CHR ''/'' # r" for r]
    by (auto simp: envelope_key)
  with 1 show ?thesis by (simp split: if_splits)
qed

lemma layouts_apart:
  "docs_key (kst_legacy (service_keys enc dec lenc ldec)) ids \<noteq>
   docs_key (v_docs (kst_envelopes (service_keys enc dec lenc ldec))) [sp, kind] @ v"
  unfolding envelope_key by (simp add: service_keys_parts docs_key_def new_documents_def legacy_keys_prefix_def envelope_prefix_def)

lemma put_srw_effect:
  assumes rev: "reversible enc dec" and put: "put_srw (service_keys enc dec lenc ldec) now sp w s = (r, s')"
    and now: "0 \<le> now" "now \<le> max_int64"
    and room: "envelope_room (backend_view s) (service_keys enc dec lenc ldec) sp"
  shows "(backend_view s' = backend_view s \<and> r \<noteq> Inr ()) \<or>
    (wd_kind w = wrap_srw \<and> sp \<noteq> [] \<and> (\<exists>n raw. 0 \<le> n \<and> n \<le> max_int64 \<and> enc w = Some raw \<and>
       stamps_below (backend_view s) (docs_key (v_docs (kst_envelopes (service_keys enc dec lenc ldec))) [sp, kind_srw]) n \<and>
       backend_view s' = (backend_view s)(docs_key (v_docs (kst_envelopes (service_keys enc dec lenc ldec))) [sp, kind_srw] @ ''/'' @ version_name n \<mapsto> raw)))"
proof (cases "wd_kind w = wrap_srw \<and> sp \<noteq> []")
  case False
  then show ?thesis using put by (auto simp: put_srw_def key_append_def split: if_splits)
next
  case True
  let ?v = "kst_envelopes (service_keys enc dec lenc ldec)"
  obtain q where a: "versions_append ?v now w [sp, kind_srw] s = (q, s')" and q: "r = Inr () \<Longrightarrow> q = Inr ()"
    using put True by (auto simp: put_srw_def key_append_def elim!: try_op_cases)
  have enc: "d_encode (v_docs ?v) = enc" by (simp add: service_keys_parts new_versions_def new_documents_def)
  show ?thesis
    using versioned.versions_append_effect [OF service_envelopes_versioned [OF rev] a _ _ now] room True q
    by (auto simp: envelope_room_def kind_names enc)
qed

text \<open>What a write leaves: the Space holds the new envelope, or what it held; no other Space is touched.\<close>

lemma put_srw_held:
  assumes rev: "reversible enc dec" and put: "put_srw (service_keys enc dec lenc ldec) now sp w s = (r, s')"
    and now: "0 \<le> now" "now \<le> max_int64"
    and room: "envelope_room (backend_view s) (service_keys enc dec lenc ldec) sp"
  shows "held_srw (backend_view s') (service_keys enc dec lenc ldec) sp = Some w \<or>
    (r \<noteq> Inr () \<and> held_srw (backend_view s') (service_keys enc dec lenc ldec) sp = held_srw (backend_view s) (service_keys enc dec lenc ldec) sp)"
  using put_srw_effect [OF rev put now room]
proof (elim disjE conjE exE)
  fix n raw
  let ?ks = "service_keys enc dec lenc ldec"
  let ?d = "v_docs (kst_envelopes ?ks)"
  let ?k = "docs_key ?d [sp, kind_srw] @ ''/'' @ version_name n"
  assume w: "wd_kind w = wrap_srw" and n: "0 \<le> n" "n \<le> max_int64" and raw: "enc w = Some raw"
    and below: "stamps_below (backend_view s) (docs_key ?d [sp, kind_srw]) n"
    and v: "backend_view s' = (backend_view s)(?k \<mapsto> raw)"
  have "has_segment_prefix ?k (docs_key ?d [sp, kind_srw])"
    using has_segment_prefix_below [OF docs_key_not_nil last_docs_key [of "[sp, kind_srw]" ?d]] kind_names by simp
  then have "envelope_keys (backend_view s') ?ks sp kind_srw = sorted_list_of_set (insert ?k (record_keys (backend_view s) (docs_key ?d [sp, kind_srw])))"
    by (simp add: envelope_keys_def v record_keys_insert)
  then have "newest_version (envelope_keys (backend_view s') ?ks sp kind_srw) = Some (n, ?k)"
    using newest_inserted [OF finite_view version_nanos_name [OF n]] below unfolding stamps_below_def by metis
  moreover have "d_encode ?d w = Some raw" using raw by (simp add: service_keys_parts new_versions_def new_documents_def)
  then have "doc_at ?d (backend_view s') ?k = Some w"
    using collection.doc_at_written [OF service_envelope_docs [OF rev]] v by metis
  ultimately show ?thesis using w by (simp add: held_srw_def held_envelope_def)
qed simp

lemma put_srw_others:
  assumes rev: "reversible enc dec" and put: "put_srw (service_keys enc dec lenc ldec) now sp w s = (r, s')"
    and now: "0 \<le> now" "now \<le> max_int64"
    and room: "envelope_room (backend_view s) (service_keys enc dec lenc ldec) sp"
    and sp': "sp' \<noteq> sp"
  shows "held_srw (backend_view s') (service_keys enc dec lenc ldec) sp' = held_srw (backend_view s) (service_keys enc dec lenc ldec) sp' \<and>
    envelope_room (backend_view s') (service_keys enc dec lenc ldec) sp' = envelope_room (backend_view s) (service_keys enc dec lenc ldec) sp'"
  using put_srw_effect [OF rev put now room]
proof (elim disjE conjE exE)
  fix n raw
  let ?ks = "service_keys enc dec lenc ldec"
  let ?d = "v_docs (kst_envelopes ?ks)"
  let ?k = "docs_key ?d [sp, kind_srw] @ ''/'' @ version_name n"
  assume v: "backend_view s' = (backend_view s)(?k \<mapsto> raw)" and sp: "sp \<noteq> []"
  have "\<not> has_segment_prefix ?k (docs_key ?d [sp', kind_srw])"
    using envelope_records_apart [OF sp] sp' kind_names(1) by blast
  then have keys: "record_keys (backend_view s') (docs_key ?d [sp', kind_srw]) = record_keys (backend_view s) (docs_key ?d [sp', kind_srw])"
    by (simp add: v record_keys_insert)
  have same: "doc_at ?d (backend_view s') j = doc_at ?d (backend_view s) j" if "j \<in> record_keys (backend_view s) (docs_key ?d [sp', kind_srw])" for j
    using that keys v \<open>\<not> has_segment_prefix ?k (docs_key ?d [sp', kind_srw])\<close> by (auto simp: doc_at_def record_keys_def)
  have newest: "doc_at ?d (backend_view s') j = doc_at ?d (backend_view s) j"
    if "newest_version (envelope_keys (backend_view s) ?ks sp' kind_srw) = Some (m, j)" for m j
    using newest_version_Some(1) [OF that] same by (simp add: envelope_keys_def finite_view)
  have legacy: "doc_at (kst_legacy ?ks) (backend_view s') (docs_key (kst_legacy ?ks) [sp']) =
      doc_at (kst_legacy ?ks) (backend_view s) (docs_key (kst_legacy ?ks) [sp'])"
    using layouts_apart [of enc dec lenc ldec "[sp']" sp kind_srw "''/'' @ version_name n"] by (simp add: v doc_at_def)
  have "held_envelope (backend_view s') ?ks sp' kind_srw = held_envelope (backend_view s) ?ks sp' kind_srw"
    using newest legacy keys by (simp add: held_envelope_def envelope_keys_def split: option.splits)
  then show ?thesis by (simp add: held_srw_def envelope_room_def stamps_below_def keys)
qed (simp add: envelope_room_def)

text \<open>Every Space that holds an envelope is listed.\<close>

lemma docs_ids_listed:
  assumes "docs_ids d s = (r, s')" "d_store d = backend_store"
  shows "backend_view s' = backend_view s \<and>
    (\<forall>l. r = Inr l \<longrightarrow> set l = {i. \<exists>k\<in>dom (backend_view s). has_segment_prefix k (d_prefix d) \<and> first_id (d_prefix d) k = Some i})"
proof -
  obtain q s1 where ls: "store_list backend_store (d_prefix d) s = (q, s1)" by fastforce
  show ?thesis
  proof (cases q)
    case (Inl e)
    then show ?thesis using assms ls backend.list_view [OF ls] by (auto simp: docs_ids_def)
  next
    case (Inr ks)
    then have "r = Inr (sorted_set_list (List.map_filter (first_id (d_prefix d)) ks))" "s' = s1"
      using assms ls by (simp_all add: docs_ids_def)
    then show ?thesis
      using backend.list_view [OF ls] backend.list_set [OF ls [unfolded Inr]]
      by (simp add: set_eq_iff in_set_map_filter) blast
  qed
qed

lemma envelope_below_prefix:
  fixes enc :: "wrapped_dk \<Rightarrow> 'v option" and kind :: string
  assumes "has_segment_prefix k (docs_key (v_docs (kst_envelopes (service_keys enc dec lenc ldec))) [sp, kind])" "sp \<noteq> []" "kind \<noteq> []"
  shows "has_segment_prefix k envelope_prefix \<and> first_id envelope_prefix k = Some sp"
proof -
  let ?d = "v_docs (kst_envelopes (service_keys enc dec lenc ldec))"
  have pre: "envelope_prefix \<noteq> []" "last envelope_prefix \<noteq> CHR ''/''" by (simp_all add: envelope_prefix_def)
  have "k = docs_key ?d [sp, kind] \<or> (\<exists>r. k = docs_key ?d [sp, kind] @ CHR ''/'' # r)"
    using assms(1) has_segment_prefix_iff [OF docs_key_not_nil last_docs_key [of "[sp, kind]" ?d], of k] assms(3) by simp
  then show ?thesis
    unfolding envelope_key
    using first_id_below [OF assms(2), of envelope_prefix "escape_segment kind"]
      first_id_below [OF assms(2), of envelope_prefix "escape_segment kind @ CHR ''/'' # r" for r]
      has_segment_prefix_iff [OF pre]
    by auto
qed

lemma key_spaces_list:
  fixes enc :: "wrapped_dk \<Rightarrow> 'v option"
  assumes l: "key_spaces (service_keys enc dec lenc ldec) s = (r, s')"
  shows "backend_view s' = backend_view s \<and>
    (\<forall>l. r = Inr l \<longrightarrow> distinct l \<and>
      (\<forall>sp. sp \<noteq> [] \<longrightarrow> held_srw (backend_view s) (service_keys enc dec lenc ldec) sp \<noteq> None \<longrightarrow> sp \<in> set l))"
proof -
  let ?ks = "service_keys enc dec lenc ldec"
  let ?d = "v_docs (kst_envelopes ?ks)" and ?e = "kst_legacy ?ks"
  have pre: "d_prefix ?d = envelope_prefix" "d_prefix ?e = legacy_keys_prefix" "d_store ?e = backend_store"
    by (simp_all add: service_keys_parts new_versions_def new_documents_def)
  have held: "(\<exists>k\<in>dom (backend_view s). has_segment_prefix k envelope_prefix \<and> first_id envelope_prefix k = Some sp) \<or>
      (\<exists>k\<in>dom (backend_view s). has_segment_prefix k legacy_keys_prefix \<and> first_id legacy_keys_prefix k = Some sp)"
    if sp: "sp \<noteq> []" and h: "held_srw (backend_view s) ?ks sp \<noteq> None" for sp
  proof (cases "newest_version (envelope_keys (backend_view s) ?ks sp kind_srw)")
    case (Some b)
    obtain n k where b: "b = (n, k)" by (cases b)
    have "k \<in> record_keys (backend_view s) (docs_key ?d [sp, kind_srw])"
      using newest_version_Some(1) [OF Some [unfolded b]] by (simp add: envelope_keys_def finite_view)
    then show ?thesis
      using envelope_below_prefix [OF _ sp kind_names(1), of k] unfolding record_keys_def by blast
  next
    case None
    then have "docs_key ?e [sp] \<in> dom (backend_view s)"
      using h by (cases "backend_view s (docs_key ?e [sp])") (auto simp: held_srw_def held_envelope_def doc_at_def)
    moreover have "first_id legacy_keys_prefix (docs_key ?e [sp]) = Some sp"
      using first_id_docs_key [OF sp, of ?e "[]"] pre by simp
    moreover have "has_segment_prefix (docs_key ?e [sp]) legacy_keys_prefix"
      using has_segment_prefix_below [of legacy_keys_prefix "state_key [sp]"] pre by (simp add: docs_key_def legacy_keys_prefix_def)
    ultimately show ?thesis by blast
  qed
  from l show ?thesis unfolding key_spaces_def
  proof (cases rule: try_op_cases)
    case (err e)
    then show ?thesis
      using docs_ids_listed [of ?d] by (auto simp: versions_ids_def split: prod.splits sum.splits)
  next
    case (ok versioned s1)
    then obtain ids where d: "docs_ids ?d s = (Inr ids, s1)" and versioned: "versioned = sorted_set_list ids"
      by (auto simp: versions_ids_def split: prod.splits sum.splits)
    note one = docs_ids_listed [OF d, simplified]
    from ok(2) show ?thesis
    proof (cases rule: try_op_cases)
      case (err e)
      then show ?thesis using docs_ids_listed [OF err(1) pre(3)] one by simp
    next
      case ok': (ok legacy s2)
      note two = docs_ids_listed [OF ok'(1) pre(3)]
      have "r = Inr (sorted_set_list (versioned @ legacy))" "s' = s2" using ok'(2) by (simp_all add: merge_ids_def)
      then show ?thesis
        using one two held versioned by (auto simp: pre sorted_set_list)
    qed
  qed
qed

subsection \<open>Status hides a failed read\<close>

text \<open>One sample of each layout: a Space whose server envelope was rotated after the layout changed.\<close>

definition sample_encode :: "wrapped_dk \<Rightarrow> (wrapped_dk + space_keys) option" where "sample_encode w = Some (Inl w)"
definition sample_decode :: "wrapped_dk + space_keys \<Rightarrow> wrapped_dk option" where
  "sample_decode x = (case x of Inl w \<Rightarrow> Some w | Inr _ \<Rightarrow> None)"
definition sample_legacy_encode :: "space_keys \<Rightarrow> (wrapped_dk + space_keys) option" where "sample_legacy_encode l = Some (Inr l)"
definition sample_legacy_decode :: "wrapped_dk + space_keys \<Rightarrow> space_keys option" where
  "sample_legacy_decode x = (case x of Inl _ \<Rightarrow> None | Inr l \<Rightarrow> Some l)"

definition sample_keys :: "((wrapped_dk + space_keys) backend, wrapped_dk + space_keys) key_store" where
  "sample_keys = service_keys sample_encode sample_decode sample_legacy_encode sample_legacy_decode"

lemma sample_reversible: "reversible sample_encode sample_decode" "reversible sample_legacy_encode sample_legacy_decode"
  by (simp_all add: reversible_def sample_encode_def sample_decode_def sample_legacy_encode_def sample_legacy_decode_def)

definition half_rotated :: "fault list \<Rightarrow> (wrapped_dk + space_keys) backend" where
  "half_rotated fs = \<lparr>contents = [(''keyenvelopes/a/srw/0000000000000000005'', Inl (zero_wrapped\<lparr>wd_kind := wrap_srw\<rparr>)),
     (''keys/a'', Inr \<lparr>sk_space = ''a'', sk_rk = zero_wrapped\<lparr>wd_kind := wrap_rk\<rparr>, sk_srw = zero_wrapped,
        sk_created = 1, sk_updated = 2\<rparr>)], faults = fs\<rparr>"

lemma status_hides_failed_read:
  "map_sum id ks_configured (fst (key_status_of sample_keys ''a'' (half_rotated []))) = Inr True"
  "map_sum id ks_has_rk (fst (key_status_of sample_keys ''a'' (half_rotated [Works, Works, Works, FailsBefore]))) = Inr False"
  "map_sum id wd_kind (fst (get_rk sample_keys ''a'' (half_rotated []))) = Inr wrap_rk"
  "fst (get_rk sample_keys ''a'' (half_rotated [Works, FailsBefore])) = Inl (StoreFailed ''could not read the key record'' BackendError)"
  by code_simp+

end
