(* ===== verification/Key_Rotate.thy ===== *)
theory Key_Rotate
  imports Key_Store
begin

text \<open>
  Rotating the server key (src/internal/rotate/rotate.go): every Space's Data Key is re-wrapped from
  the old Server Runtime Wrap key to the new one. The store is the interface \<open>EnvelopeStore\<close>; its
  contract is the locale \<open>envelope_contract\<close>, kept by the durable key store and by the in-memory one.

  The result carries the counts on every return, as the code does; the clock is read once per Space
  for the envelope's own time.
\<close>

record rotation =
  rot_rotated :: nat
  rot_already :: nat
  rot_skipped :: nat

definition no_rotation :: rotation where
  "no_rotation = \<lparr>rot_rotated = 0, rot_already = 0, rot_skipped = 0\<rparr>"

datatype 'e rotate_error =
    OldKeySize
  | NewKeySize
  | SameKeys
  | ListSpacesFailed 'e
  | ReadFailed string 'e
  | KeyMismatch string
  | StoreEnvelopeFailed string 'e

text \<open>The interface the rotation calls, with the test for \<open>keys.NotFoundError\<close> on its errors.\<close>

record ('s, 'e) envelope_store =
  es_spaces :: "('s, 'e, string list) op"
  es_get :: "string \<Rightarrow> ('s, 'e, wrapped_dk) op"
  es_put :: "string \<Rightarrow> wrapped_dk \<Rightarrow> ('s, 'e, unit) op"
  es_missing :: "'e \<Rightarrow> bool"

definition check_key_pair :: "bytes \<Rightarrow> bytes \<Rightarrow> nat \<Rightarrow> 'e rotate_error option" where
  "check_key_pair old_key new_key n =
     (if length old_key \<noteq> n then Some OldKeySize
      else if length new_key \<noteq> n then Some NewKeySize
      else if old_key = new_key then Some SameKeys
      else None)"

definition already_rotated :: "crypto \<Rightarrow> wrapped_dk \<Rightarrow> bytes \<Rightarrow> bool" where
  "already_rotated cr w new_key = (case unwrap_srw cr w new_key of Inl _ \<Rightarrow> False | Inr _ \<Rightarrow> True)"

fun rotate_each ::
    "crypto \<Rightarrow> 'r random \<Rightarrow> ('s, 'e) envelope_store \<Rightarrow> bytes \<Rightarrow> bytes \<Rightarrow> (string \<Rightarrow> time) \<Rightarrow>
     string list \<Rightarrow> rotation \<Rightarrow> 'r \<Rightarrow> 's \<Rightarrow> (rotation \<times> 'e rotate_error option) \<times> 'r \<times> 's" where
  "rotate_each cr random st old_key new_key now [] out r s = ((out, None), r, s)"
| "rotate_each cr random st old_key new_key now (sp # sps) out r s =
     (case es_get st sp s of
        (Inl e, s) \<Rightarrow>
          if es_missing st e then
            rotate_each cr random st old_key new_key now sps (out\<lparr>rot_skipped := rot_skipped out + 1\<rparr>) r s
          else ((out, Some (ReadFailed sp e)), r, s)
      | (Inr current, s) \<Rightarrow>
          (case rotate_srw cr random current old_key new_key (now sp) r of
             (Inl _, r) \<Rightarrow>
               if already_rotated cr current new_key then
                 rotate_each cr random st old_key new_key now sps (out\<lparr>rot_already := rot_already out + 1\<rparr>) r s
               else ((out, Some (KeyMismatch sp)), r, s)
           | (Inr rotated, r) \<Rightarrow>
               (case es_put st sp rotated s of
                  (Inl e, s) \<Rightarrow> ((out, Some (StoreEnvelopeFailed sp e)), r, s)
                | (Inr _, s) \<Rightarrow>
                    rotate_each cr random st old_key new_key now sps (out\<lparr>rot_rotated := rot_rotated out + 1\<rparr>) r s)))"

definition rotate_all ::
    "crypto \<Rightarrow> 'r random \<Rightarrow> ('s, 'e) envelope_store \<Rightarrow> bytes \<Rightarrow> bytes \<Rightarrow> (string \<Rightarrow> time) \<Rightarrow>
     'r \<Rightarrow> 's \<Rightarrow> (rotation \<times> 'e rotate_error option) \<times> 'r \<times> 's" where
  "rotate_all cr random st old_key new_key now r s =
     (case check_key_pair old_key new_key srw_key_size of
        Some e \<Rightarrow> ((no_rotation, Some e), r, s)
      | None \<Rightarrow>
          (case es_spaces st s of
             (Inl e, s) \<Rightarrow> ((no_rotation, Some (ListSpacesFailed e)), r, s)
           | (Inr spaces, s) \<Rightarrow> rotate_each cr random st old_key new_key now spaces no_rotation r s))"

subsection \<open>The contract of the store\<close>

text \<open>An envelope after the rotation: the one before, or one that opens under the new key to its Data Key.\<close>

definition rewrapped :: "crypto \<Rightarrow> bytes \<Rightarrow> bytes \<Rightarrow> wrapped_dk option \<Rightarrow> wrapped_dk option \<Rightarrow> bool" where
  "rewrapped cr old_key new_key a b \<longleftrightarrow> b = a \<or>
     (\<exists>w w' dk. a = Some w \<and> b = Some w' \<and> unwrap_srw cr w old_key = Inr dk \<and> unwrap_srw cr w' new_key = Inr dk)"

definition opens_under :: "crypto \<Rightarrow> bytes \<Rightarrow> wrapped_dk option \<Rightarrow> bool" where
  "opens_under cr key w \<longleftrightarrow> (case w of None \<Rightarrow> True | Some v \<Rightarrow> \<exists>dk. unwrap_srw cr v key = Inr dk)"

definition handled :: "rotation \<Rightarrow> nat" where
  "handled out = rot_rotated out + rot_already out + rot_skipped out"

lemma rewrapped_refl [simp]: "rewrapped cr old_key new_key a a"
  by (simp add: rewrapped_def)

lemma rotate_srw_rewraps:
  assumes "crypto_ok cr" "fills random" "rotate_srw cr random w old_key new_key now r = (Inr w', r')"
  shows "rewrapped cr old_key new_key (Some w) (Some w') \<and> opens_under cr new_key (Some w')"
  using assms(3) wrap_with_srw_unwraps [OF assms(1,2)]
  by (auto simp: rotate_srw_def rewrapped_def opens_under_def split: sum.splits)

text \<open>
  \<open>held s sp\<close> is the server envelope the store holds for a Space; \<open>room s sp\<close> says that it can still
  take another one. A write that fails may have had its effect.
\<close>

locale envelope_contract =
  fixes st :: "('s, 'e) envelope_store" and held :: "'s \<Rightarrow> string \<Rightarrow> wrapped_dk option" and room :: "'s \<Rightarrow> string \<Rightarrow> bool"
  assumes spaces_keeps: "es_spaces st s = (ls, s') \<Longrightarrow> held s' = held s \<and> room s' = room s"
    and spaces_ok: "es_spaces st s = (Inr l, s') \<Longrightarrow>
      distinct l \<and> (\<forall>sp. sp \<noteq> [] \<longrightarrow> held s sp \<noteq> None \<longrightarrow> sp \<in> set l)"
    and get_keeps: "es_get st sp s = (q, s') \<Longrightarrow> held s' = held s \<and> room s' = room s"
    and get_ok: "es_get st sp s = (Inr w, s') \<Longrightarrow> held s sp = Some w"
    and get_missing: "es_get st sp s = (Inl e, s') \<Longrightarrow> es_missing st e \<Longrightarrow> held s sp = None"
    and put_ok: "es_put st sp w s = (Inr u, s') \<Longrightarrow> room s sp \<Longrightarrow> held s' sp = Some w"
    and put_fails: "es_put st sp w s = (Inl e, s') \<Longrightarrow> room s sp \<Longrightarrow> held s' sp = Some w \<or> held s' sp = held s sp"
    and put_others: "es_put st sp w s = (y, s') \<Longrightarrow> room s sp \<Longrightarrow> sp' \<noteq> sp \<Longrightarrow>
      held s' sp' = held s sp' \<and> room s' sp' = room s sp'"
begin

lemma rotate_each_spec:
  assumes cr: "crypto_ok cr" "fills random"
  shows "rotate_each cr random st old_key new_key now sps out r s = ((out', err), r', s') \<Longrightarrow>
    distinct sps \<Longrightarrow> \<forall>sp\<in>set sps. room s sp \<Longrightarrow>
    (\<forall>sp. sp \<notin> set sps \<longrightarrow> held s' sp = held s sp) \<and>
    (\<forall>sp. rewrapped cr old_key new_key (held s sp) (held s' sp)) \<and>
    (err = None \<longrightarrow> handled out' = handled out + length sps \<and> (\<forall>sp\<in>set sps. opens_under cr new_key (held s' sp)))"
proof (induction sps arbitrary: out r s)
  case Nil
  then show ?case by simp
next
  case (Cons sp sps)
  have sp: "sp \<notin> set sps" "distinct sps" using Cons.prems by auto
  obtain q s1 where g: "es_get st sp s = (q, s1)" by fastforce
  note keep = get_keeps [OF g]
  have later: ?case
    if rest: "rotate_each cr random st old_key new_key now sps out1 r1 s2 = ((out', err), r', s')"
      and now: "handled out1 = handled out + 1" "opens_under cr new_key (held s2 sp)"
        "rewrapped cr old_key new_key (held s sp) (held s2 sp)"
      and others: "\<And>i. i \<noteq> sp \<Longrightarrow> held s2 i = held s i \<and> room s2 i = room s i"
    for out1 r1 s2
  proof -
    have rm: "\<forall>i\<in>set sps. room s2 i"
    proof
      fix i assume "i \<in> set sps"
      then have "i \<noteq> sp" "room s i" using Cons.prems sp by auto
      then show "room s2 i" using others by blast
    qed
    note ih = Cons.IH [OF rest sp(2) rm]
    have same: "held s' sp = held s2 sp" using ih sp by blast
    show ?thesis
    proof (intro conjI allI impI)
      fix i assume "i \<notin> set (sp # sps)"
      then show "held s' i = held s i" using ih others by simp
    next
      fix i :: string
      show "rewrapped cr old_key new_key (held s i) (held s' i)"
        using ih others now same by (cases "i = sp") (simp, metis)
    next
      assume "err = None"
      then show "handled out' = handled out + length (sp # sps)" using ih now by simp
    next
      assume "err = None"
      then show "\<forall>i\<in>set (sp # sps). opens_under cr new_key (held s' i)" using ih now same by simp
    qed
  qed
  have stop: ?case if "err \<noteq> None" "s' = s2" "rewrapped cr old_key new_key (held s sp) (held s2 sp)"
      "\<And>i. i \<noteq> sp \<Longrightarrow> held s2 i = held s i" for s2
    using that by (metis rewrapped_refl list.set_intros(1))
  show ?case
  proof (cases q)
    case (Inl e)
    show ?thesis
    proof (cases "es_missing st e")
      case True
      then have "held s1 sp = None" using get_missing g Inl keep by simp
      then show ?thesis
        using Cons.prems(1) g Inl True keep
        by (intro later [of "out\<lparr>rot_skipped := rot_skipped out + 1\<rparr>" r s1]) (auto simp: handled_def opens_under_def)
    next
      case False
      then show ?thesis using Cons.prems(1) g Inl keep by (intro stop [of s1]) auto
    qed
  next
    case (Inr w)
    then have w: "held s sp = Some w" "held s1 sp = Some w" using get_ok g keep by auto
    obtain t r1 where t: "rotate_srw cr random w old_key new_key (now sp) r = (t, r1)" by fastforce
    show ?thesis
    proof (cases t)
      case (Inl e)
      show ?thesis
      proof (cases "already_rotated cr w new_key")
        case True
        then have "opens_under cr new_key (held s1 sp)"
          using w by (auto simp: already_rotated_def opens_under_def split: sum.splits)
        then show ?thesis
          using Cons.prems(1) g \<open>q = Inr w\<close> t Inl True keep
          by (intro later [of "out\<lparr>rot_already := rot_already out + 1\<rparr>" r1 s1]) (auto simp: handled_def)
      next
        case False
        then show ?thesis using Cons.prems(1) g \<open>q = Inr w\<close> t Inl keep by (intro stop [of s1]) auto
      qed
    next
      case (Inr w')
      have re: "rewrapped cr old_key new_key (held s sp) (Some w')" "opens_under cr new_key (Some w')"
        using rotate_srw_rewraps [OF cr] t Inr w by auto
      obtain u s2 where put: "es_put st sp w' s1 = (u, s2)" by fastforce
      have rm: "room s1 sp" using Cons.prems keep by simp
      note others = put_others [OF put rm]
      show ?thesis
      proof (cases u)
        case (Inl e)
        then have "rewrapped cr old_key new_key (held s sp) (held s2 sp)"
          using put_fails put rm keep re by (metis rewrapped_refl)
        then show ?thesis
          using Cons.prems(1) g \<open>q = Inr w\<close> t \<open>t = Inr w'\<close> put Inl keep others by (intro stop [of s2]) auto
      next
        case (Inr v)
        then have "held s2 sp = Some w'" using put_ok put rm by blast
        then show ?thesis
          using Cons.prems(1) g \<open>q = Inr w\<close> t \<open>t = Inr w'\<close> put Inr keep others re
          by (intro later [of "out\<lparr>rot_rotated := rot_rotated out + 1\<rparr>" r1 s2]) (auto simp: handled_def)
      qed
    qed
  qed
qed

lemma rotate_all_spec:
  assumes cr: "crypto_ok cr" "fills random" and room: "\<And>sp. room s sp"
    and a: "rotate_all cr random st old_key new_key now r s = ((out, err), r', s')"
  shows "(\<forall>sp. rewrapped cr old_key new_key (held s sp) (held s' sp)) \<and>
    (err = None \<longrightarrow> (\<forall>sp. sp \<noteq> [] \<longrightarrow> opens_under cr new_key (held s' sp)))"
proof (cases "check_key_pair old_key new_key srw_key_size :: 'e rotate_error option")
  case (Some e)
  then show ?thesis using a by (auto simp: rotate_all_def)
next
  case None
  obtain q s1 where l: "es_spaces st s = (q, s1)" by fastforce
  note keep = spaces_keeps [OF l]
  show ?thesis
  proof (cases q)
    case (Inl e)
    then show ?thesis using a None l keep by (auto simp: rotate_all_def)
  next
    case (Inr sps)
    note ok = spaces_ok [OF l [unfolded Inr]]
    have each: "rotate_each cr random st old_key new_key now sps no_rotation r s1 = ((out, err), r', s')"
      using a None l Inr by (simp add: rotate_all_def)
    have rm: "\<forall>sp\<in>set sps. room s1 sp" using room ok keep by auto
    note spec = rotate_each_spec [OF cr each _ rm]
    have dist: "distinct sps" using ok by blast
    have "opens_under cr new_key (held s' sp)" if "err = None" "sp \<noteq> []" for sp
    proof (cases "sp \<in> set sps")
      case True
      then show ?thesis using spec [OF dist] that by blast
    next
      case False
      then have "held s sp = None" using ok that by auto
      then have "held s' sp = None" using spec [OF dist] False keep by metis
      then show ?thesis by (simp add: opens_under_def)
    qed
    moreover have "rewrapped cr old_key new_key (held s sp) (held s' sp)" for sp
      using spec [OF dist] keep by metis
    ultimately show ?thesis by blast
  qed
qed

end

subsection \<open>Both stores keep it\<close>

text \<open>The durable key store as the rotation sees it; its clock is read once per write.\<close>

definition key_store_envelopes :: "('s, 'v) key_store \<Rightarrow> (string \<Rightarrow> time) \<Rightarrow> ('s, store_key_error) envelope_store" where
  "key_store_envelopes ks clk = \<lparr>es_spaces = key_spaces ks, es_get = get_srw ks, es_put = (\<lambda>sp. put_srw ks (clk sp) sp),
     es_missing = (\<lambda>e. case e of NoEnvelope _ \<Rightarrow> True | _ \<Rightarrow> False)\<rparr>"

definition can_store :: "(string \<rightharpoonup> 'v) \<Rightarrow> ('s, 'v) key_store \<Rightarrow> (string \<Rightarrow> time) \<Rightarrow> string \<Rightarrow> bool" where
  "can_store m ks clk sp \<longleftrightarrow> 0 \<le> clk sp \<and> clk sp \<le> max_int64 \<and> envelope_room m ks sp"

lemma service_envelope_contract:
  assumes rev: "reversible enc dec" "reversible lenc ldec"
  shows "envelope_contract (key_store_envelopes (service_keys enc dec lenc ldec) clk)
    (\<lambda>s. held_srw (backend_view s) (service_keys enc dec lenc ldec))
    (\<lambda>s. can_store (backend_view s) (service_keys enc dec lenc ldec) clk)"
proof (unfold_locales, goal_cases)
  case (1 s ls s') then show ?case by (auto simp: key_store_envelopes_def dest: key_spaces_list)
next
  case (2 s l s') then show ?case by (auto simp: key_store_envelopes_def dest: key_spaces_list)
next
  case (3 sp s q s') then show ?case by (auto simp: key_store_envelopes_def dest: get_srw_reads [OF rev])
next
  case (4 sp s w s') then show ?case by (auto simp: key_store_envelopes_def dest: get_srw_reads [OF rev])
next
  case (5 sp s e s') then show ?case
    by (auto simp: key_store_envelopes_def dest: get_srw_reads [OF rev] split: store_key_error.splits)
next
  case (6 sp w s u s') then show ?case
    using put_srw_held [OF rev(1), of lenc ldec "clk sp" sp w s "Inr u" s'] by (simp add: key_store_envelopes_def can_store_def)
next
  case (7 sp w s e s') then show ?case
    using put_srw_held [OF rev(1), of lenc ldec "clk sp" sp w s "Inl e" s'] by (simp add: key_store_envelopes_def can_store_def)
next
  case (8 sp w s y s' sp') then show ?case
    using put_srw_others [OF rev(1), of lenc ldec "clk sp" sp w s y s' sp'] by (simp add: key_store_envelopes_def can_store_def)
qed

interpretation sample_envelopes: envelope_contract "key_store_envelopes sample_keys clk"
    "\<lambda>s. held_srw (backend_view s) sample_keys" "\<lambda>s. can_store (backend_view s) sample_keys clk" for clk
  unfolding sample_keys_def by (rule service_envelope_contract [OF sample_reversible])

definition memory_envelopes :: "(string \<Rightarrow> time) \<Rightarrow> (keys_memory, store_key_error) envelope_store" where
  "memory_envelopes clk = \<lparr>es_spaces = keys_mem_spaces, es_get = keys_mem_get_srw, es_put = (\<lambda>sp w. keys_mem_put_srw sp w (clk sp)),
     es_missing = (\<lambda>e. case e of NoEnvelope _ \<Rightarrow> True | _ \<Rightarrow> False)\<rparr>"

definition memory_held :: "keys_memory \<Rightarrow> string \<Rightarrow> wrapped_dk option" where
  "memory_held m sp = (case keys_mem_get_srw sp m of (Inl _, _) \<Rightarrow> None | (Inr w, _) \<Rightarrow> Some w)"

interpretation memory_keys: envelope_contract "memory_envelopes clk" memory_held "\<lambda>_ _. True" for clk
  by unfold_locales
    (auto simp: memory_envelopes_def memory_held_def keys_mem_get_srw_def keys_mem_spaces_def keys_mem_put_srw_def
      map_of_alist_update dom_map_of_conv_image_fst split: option.splits if_splits store_key_error.splits
      dest: map_of_SomeD intro: rev_image_eqI)

subsection \<open>Properties\<close>

text \<open>C1: a rotation of the server key never loses a Data Key, wherever it stops. Whatever the result,
  and whichever store operation or source of randomness failed, each Space holds the envelope it
  held, or one that opens under the new key to the Data Key the old one held under the old key.
  When it reports success, every envelope any Space holds opens under the new key, so the old key
  can be destroyed.\<close>

theorem rotation_loses_no_data_key:
  assumes "crypto_ok cr" "fills random" "reversible enc dec" "reversible lenc ldec"
    and "\<forall>sp. can_store (backend_view s) (service_keys enc dec lenc ldec) clk sp"
    and "rotate_all cr random (key_store_envelopes (service_keys enc dec lenc ldec) clk) old_key new_key now r s = ((out, err), r', s')"
  shows "(\<forall>sp. rewrapped cr old_key new_key (held_srw (backend_view s) (service_keys enc dec lenc ldec) sp)
      (held_srw (backend_view s') (service_keys enc dec lenc ldec) sp)) \<and>
    (err = None \<longrightarrow> (\<forall>sp. sp \<noteq> [] \<longrightarrow> opens_under cr new_key (held_srw (backend_view s') (service_keys enc dec lenc ldec) sp)))"
  using envelope_contract.rotate_all_spec [OF service_envelope_contract [OF assms(3,4)] assms(1,2) _ assms(6)] assms(5) by blast

definition sample_before_rotation :: "(wrapped_dk + space_keys) backend" where
  "sample_before_rotation = \<lparr>contents = [(''keys/a'', Inr \<lparr>sk_space = ''a'', sk_rk = zero_wrapped,
     sk_srw = sample_wrapped wrap_srw (replicate 32 1), sk_created = 1, sk_updated = 2\<rparr>)], faults = []\<rparr>"

theorem rotation_loses_no_data_key_witness:
  "\<exists>out r' s'. rotate_all plain_crypto counting_random (key_store_envelopes sample_keys (\<lambda>_. 7)) (replicate 32 1) (replicate 32 2)
       (\<lambda>_. 6) 3 sample_before_rotation = ((out, None), r', s') \<and> rot_rotated out = 1 \<and>
     opens_under plain_crypto (replicate 32 2) (held_srw (backend_view s') sample_keys ''a'')"
proof -
  let ?run = "rotate_all plain_crypto counting_random (key_store_envelopes sample_keys (\<lambda>_. 7)) (replicate 32 1) (replicate 32 2)
       (\<lambda>_. 6) 3 sample_before_rotation"
  have "snd (fst ?run) = None \<and> rot_rotated (fst (fst ?run)) = 1" by code_simp
  then obtain out r' s' where run: "?run = ((out, None), r', s')" "rot_rotated out = 1"
    by (metis prod.collapse)
  have "version_nanos ''keys/a'' = None" by code_simp
  then have "stamps_below (backend_view sample_before_rotation) p max_int64" for p
    by (auto simp: stamps_below_def record_keys_def backend_view_def sample_before_rotation_def split: if_splits)
  then have room: "\<forall>sp. can_store (backend_view sample_before_rotation) (service_keys sample_encode sample_decode sample_legacy_encode sample_legacy_decode) (\<lambda>_. 7) sp"
    by (simp add: can_store_def envelope_room_def max_int64_def)
  show ?thesis
    using rotation_loses_no_data_key [OF plain_crypto_ok counting_fills sample_reversible room run(1) [unfolded sample_keys_def]]
      run unfolding sample_keys_def by blast
qed

end
