(* ===== verification/Target_Store.thy ===== *)
theory Target_Store
  imports Key_Rotate
begin

text \<open>
  Backup targets and who may use them (src/internal/targets: targets.go, memory.go and state.go): the
  target record, grants and their evaluation, the in-memory store and the durable one.

  A grant scope is the integer the Go constant is. The sealed credentials are a byte list; a nil slice
  is the empty one, which is how both encodings of it are stored.
\<close>

subsection \<open>Targets and grants\<close>

record target =
  tg_id :: string
  tg_name :: string
  tg_endpoint :: string
  tg_region :: string
  tg_bucket :: string
  tg_prefix :: string
  tg_path_style :: bool
  tg_disable_tls :: bool
  tg_wrapped :: bytes
  tg_created :: time
  tg_updated :: time
  tg_version :: int
  tg_maintenance :: bool

record public_view =
  pv_id :: string
  pv_name :: string

definition public_of :: "target \<Rightarrow> public_view" where
  "public_of t = \<lparr>pv_id = tg_id t, pv_name = tg_name t\<rparr>"

definition scope_unknown :: int where "scope_unknown = 0"
definition scope_all_users :: int where "scope_all_users = 1"
definition scope_user :: int where "scope_user = 2"
definition scope_space :: int where "scope_space = 3"

lemmas scope_defs = scope_unknown_def scope_all_users_def scope_user_def scope_space_def

record grant =
  gr_target :: string
  gr_scope :: int
  gr_user :: string
  gr_space :: string

datatype target_error =
    NoTarget string
  | TargetIdRequired
  | BadGrant string
  | TargetStoreFailed string state_error
  | UnreadableTargets "string list"

definition grant_validate :: "grant \<Rightarrow> target_error option" where
  "grant_validate g =
     (if gr_scope g = scope_all_users then
        (if gr_user g \<noteq> [] \<or> gr_space g \<noteq> [] then Some (BadGrant ''an all-users grant names no user or space'') else None)
      else if gr_scope g = scope_user then
        (if gr_user g = [] then Some (BadGrant ''a user grant needs a user'')
         else if gr_space g \<noteq> [] then Some (BadGrant ''a user grant names no space'') else None)
      else if gr_scope g = scope_space then
        (if gr_space g = [] then Some (BadGrant ''a space grant needs a space'')
         else if gr_user g \<noteq> [] then Some (BadGrant ''a space grant names no user'') else None)
      else Some (BadGrant ''grant scope is required''))"

definition grant_equal :: "grant \<Rightarrow> grant \<Rightarrow> bool" where
  "grant_equal a b \<longleftrightarrow> gr_target a = gr_target b \<and> gr_scope a = gr_scope b \<and> gr_user a = gr_user b \<and> gr_space a = gr_space b"

fun grants_allow :: "grant list \<Rightarrow> string \<Rightarrow> string set \<Rightarrow> bool" where
  "grants_allow [] user spaces = False"
| "grants_allow (g # gs) user spaces =
     (if gr_scope g = scope_all_users then True
      else if gr_scope g = scope_user \<and> gr_user g = user then True
      else if gr_scope g = scope_space \<and> gr_space g \<in> spaces then True
      else grants_allow gs user spaces)"

text \<open>The loop of \<open>normalizeGrants\<close>, with what it kept so far.\<close>

fun normalize_from :: "string \<Rightarrow> grant list \<Rightarrow> grant list \<Rightarrow> target_error + grant list" where
  "normalize_from tid out [] = Inr out"
| "normalize_from tid out (g # gs) =
     (let g = g\<lparr>gr_target := tid\<rparr> in
      case grant_validate g of
        Some e \<Rightarrow> Inl e
      | None \<Rightarrow> normalize_from tid (if list_ex (\<lambda>kept. grant_equal kept g) out then out else out @ [g]) gs)"

definition normalize_grants :: "string \<Rightarrow> grant list \<Rightarrow> target_error + grant list" where
  "normalize_grants tid gs = normalize_from tid [] gs"

text \<open>Replacing the first equal grant or adding it; removing the first equal one.\<close>

fun put_grant_in :: "grant \<Rightarrow> grant list \<Rightarrow> grant list" where
  "put_grant_in g [] = [g]"
| "put_grant_in g (x # xs) = (if grant_equal x g then g # xs else x # put_grant_in g xs)"

fun drop_grant_in :: "grant \<Rightarrow> grant list \<Rightarrow> grant list option" where
  "drop_grant_in g [] = None"
| "drop_grant_in g (x # xs) = (if grant_equal x g then Some xs else map_option ((#) x) (drop_grant_in g xs))"

definition space_set :: "string \<Rightarrow> string set" where
  "space_set sp = (if sp \<noteq> [] then {sp} else {})"

subsection \<open>The in-memory store\<close>

record targets_memory =
  tm_targets :: "(string \<times> target) list"
  tm_grants :: "(string \<times> grant list) list"

definition tm_grants_of :: "string \<Rightarrow> targets_memory \<Rightarrow> grant list" where
  "tm_grants_of tid m = (case map_of (tm_grants m) tid of None \<Rightarrow> [] | Some gs \<Rightarrow> gs)"

definition tmem_create :: "target \<Rightarrow> (targets_memory, target_error, target) op" where
  "tmem_create t m = (Inr t, m\<lparr>tm_targets := AList.update (tg_id t) t (tm_targets m)\<rparr>)"

definition tmem_update :: "target \<Rightarrow> (targets_memory, target_error, target) op" where
  "tmem_update t m =
     (case map_of (tm_targets m) (tg_id t) of
        None \<Rightarrow> (Inl (NoTarget (tg_id t)), m)
      | Some old \<Rightarrow>
          let t = (if tg_wrapped t = [] then t\<lparr>tg_wrapped := tg_wrapped old, tg_version := tg_version old\<rparr> else t) in
          (Inr t, m\<lparr>tm_targets := AList.update (tg_id t) t (tm_targets m)\<rparr>))"

definition tmem_delete :: "string \<Rightarrow> (targets_memory, target_error, unit) op" where
  "tmem_delete tid m =
     (case map_of (tm_targets m) tid of
        None \<Rightarrow> (Inl (NoTarget tid), m)
      | Some _ \<Rightarrow> (Inr (), m\<lparr>tm_targets := AList.delete tid (tm_targets m), tm_grants := AList.delete tid (tm_grants m)\<rparr>))"

definition tmem_get :: "string \<Rightarrow> (targets_memory, target_error, target) op" where
  "tmem_get tid m = (case map_of (tm_targets m) tid of None \<Rightarrow> (Inl (NoTarget tid), m) | Some t \<Rightarrow> (Inr t, m))"

definition tmem_list :: "(targets_memory, target_error, target list) op" where
  "tmem_list m = (Inr (map snd (tm_targets m)), m)"

definition tmem_put_grant :: "grant \<Rightarrow> (targets_memory, target_error, unit) op" where
  "tmem_put_grant g m =
     (case grant_validate g of
        Some e \<Rightarrow> (Inl e, m)
      | None \<Rightarrow> (Inr (), m\<lparr>tm_grants := AList.update (gr_target g) (put_grant_in g (tm_grants_of (gr_target g) m)) (tm_grants m)\<rparr>))"

definition tmem_delete_grant :: "grant \<Rightarrow> (targets_memory, target_error, unit) op" where
  "tmem_delete_grant g m =
     (case drop_grant_in g (tm_grants_of (gr_target g) m) of
        None \<Rightarrow> (Inr (), m)
      | Some gs \<Rightarrow> (Inr (), m\<lparr>tm_grants := AList.update (gr_target g) gs (tm_grants m)\<rparr>))"

definition tmem_replace_grants :: "string \<Rightarrow> grant list \<Rightarrow> (targets_memory, target_error, unit) op" where
  "tmem_replace_grants tid gs m =
     (if tid = [] then (Inl TargetIdRequired, m)
      else case normalize_grants tid gs of
        Inl e \<Rightarrow> (Inl e, m)
      | Inr out \<Rightarrow> (Inr (), m\<lparr>tm_grants := AList.update tid out (tm_grants m)\<rparr>))"

definition tmem_list_grants :: "string \<Rightarrow> (targets_memory, target_error, grant list) op" where
  "tmem_list_grants tid m = (Inr (tm_grants_of tid m), m)"

definition tmem_visible :: "string \<Rightarrow> string list \<Rightarrow> (targets_memory, target_error, public_view list) op" where
  "tmem_visible user spaces m =
     (Inr (map (public_of \<circ> snd) (filter (\<lambda>(tid, _). grants_allow (tm_grants_of tid m) user (set spaces)) (tm_targets m))), m)"

definition tmem_may_use :: "string \<Rightarrow> string \<Rightarrow> string \<Rightarrow> (targets_memory, target_error, bool) op" where
  "tmem_may_use user sp tid m =
     (case map_of (tm_targets m) tid of
        None \<Rightarrow> (Inl (NoTarget tid), m)
      | Some _ \<Rightarrow> (Inr (grants_allow (tm_grants_of tid m) user (space_set sp)), m))"

subsection \<open>The durable store\<close>

definition target_prefix :: string where "target_prefix = ''targetrecords''"
definition grant_prefix :: string where "grant_prefix = ''targetgrantlists''"
definition legacy_target_prefix :: string where "legacy_target_prefix = ''targets''"
definition legacy_grant_prefix :: string where "legacy_grant_prefix = ''targetgrants''"

record ('s, 'v) target_store =
  ts_targets :: "('s, 'v, target) versions"
  ts_grants :: "('s, 'v, grant list) versions"

definition new_target_store ::
    "('s, 'v) store \<Rightarrow> (target \<Rightarrow> 'v option) \<Rightarrow> ('v \<Rightarrow> target option) \<Rightarrow>
     (grant list \<Rightarrow> 'v option) \<Rightarrow> ('v \<Rightarrow> grant list option) \<Rightarrow> ('s, 'v) target_store" where
  "new_target_store st enc dec genc gdec =
     \<lparr>ts_targets = with_legacy (new_versions st target_prefix enc dec) legacy_target_prefix,
      ts_grants = with_legacy (new_versions st grant_prefix genc gdec) legacy_grant_prefix\<rparr>"

definition write_target :: "('s, 'v) target_store \<Rightarrow> time \<Rightarrow> target \<Rightarrow> ('s, target_error, unit) op" where
  "write_target ts now t =
     try_op (TargetStoreFailed ''store target'') (versions_append (ts_targets ts) now t [tg_id t]) ok_op"

definition create_target :: "('s, 'v) target_store \<Rightarrow> time \<Rightarrow> target \<Rightarrow> ('s, target_error, target) op" where
  "create_target ts now t =
     (if tg_id t = [] then fail_op TargetIdRequired else try_op id (write_target ts now t) (\<lambda>_. ok_op t))"

definition get_target :: "('s, 'v) target_store \<Rightarrow> string \<Rightarrow> ('s, target_error, target) op" where
  "get_target ts tid =
     try_op (\<lambda>e. if is_not_found e then NoTarget tid else TargetStoreFailed ''read target'' e)
       (versions_newest (ts_targets ts) [tid]) ok_op"

definition update_target :: "('s, 'v) target_store \<Rightarrow> time \<Rightarrow> target \<Rightarrow> ('s, target_error, target) op" where
  "update_target ts now t =
     try_op id (get_target ts (tg_id t)) (\<lambda>old.
       let t = (if tg_wrapped t = [] then t\<lparr>tg_wrapped := tg_wrapped old, tg_version := tg_version old\<rparr> else t) in
       try_op id (write_target ts now t) (\<lambda>_. ok_op t))"

definition delete_target :: "('s, 'v) target_store \<Rightarrow> string \<Rightarrow> ('s, target_error, unit) op" where
  "delete_target ts tid =
     try_op (\<lambda>(_, e). TargetStoreFailed ''delete target'' e) (versions_delete_all (ts_targets ts) [tid]) (\<lambda>removed.
       if \<not> removed then fail_op (NoTarget tid)
       else try_op (\<lambda>(_, e). TargetStoreFailed ''delete grants'' e) (versions_delete_all (ts_grants ts) [tid]) (\<lambda>_. ok_op ()))"

definition read_targets :: "('s, 'v) target_store \<Rightarrow> ('s, target_error, target list \<times> string list) op" where
  "read_targets ts =
     try_op (TargetStoreFailed ''list targets'') (versions_latest (ts_targets ts)) (\<lambda>(out, unreadable).
       ok_op (sort_key tg_id out, unreadable))"

definition list_targets :: "('s, 'v) target_store \<Rightarrow> ('s, target_error, target list) op" where
  "list_targets ts =
     try_op id (read_targets ts) (\<lambda>(out, unreadable).
       if unreadable \<noteq> [] then fail_op (UnreadableTargets unreadable) else ok_op out)"

definition write_grants :: "('s, 'v) target_store \<Rightarrow> time \<Rightarrow> string \<Rightarrow> grant list \<Rightarrow> ('s, target_error, unit) op" where
  "write_grants ts now tid gs =
     try_op (TargetStoreFailed ''store grants'') (versions_append (ts_grants ts) now gs [tid]) ok_op"

definition list_grants :: "('s, 'v) target_store \<Rightarrow> string \<Rightarrow> ('s, target_error, grant list) op" where
  "list_grants ts tid s =
     (case versions_newest (ts_grants ts) [tid] s of
        (Inr gs, s) \<Rightarrow> (Inr gs, s)
      | (Inl e, s) \<Rightarrow> if is_not_found e then (Inr [], s) else (Inl (TargetStoreFailed ''read grants'' e), s))"

definition put_grant :: "('s, 'v) target_store \<Rightarrow> time \<Rightarrow> grant \<Rightarrow> ('s, target_error, unit) op" where
  "put_grant ts now g =
     (if gr_target g = [] then fail_op TargetIdRequired
      else require_op (grant_validate g)
        (try_op id (list_grants ts (gr_target g)) (\<lambda>gs. write_grants ts now (gr_target g) (put_grant_in g gs))))"

definition delete_grant :: "('s, 'v) target_store \<Rightarrow> time \<Rightarrow> grant \<Rightarrow> ('s, target_error, unit) op" where
  "delete_grant ts now g =
     try_op id (list_grants ts (gr_target g)) (\<lambda>gs.
       case drop_grant_in g gs of None \<Rightarrow> ok_op () | Some rest \<Rightarrow> write_grants ts now (gr_target g) rest)"

definition replace_grants :: "('s, 'v) target_store \<Rightarrow> time \<Rightarrow> string \<Rightarrow> grant list \<Rightarrow> ('s, target_error, unit) op" where
  "replace_grants ts now tid gs =
     (if tid = [] then fail_op TargetIdRequired
      else case normalize_grants tid gs of Inl e \<Rightarrow> fail_op e | Inr out \<Rightarrow> write_grants ts now tid out)"

fun visible_each ::
    "('s, 'v) target_store \<Rightarrow> string \<Rightarrow> string set \<Rightarrow> target list \<Rightarrow> public_view list \<Rightarrow> ('s, target_error, public_view list) op" where
  "visible_each ts user spaces [] out s = (Inr out, s)"
| "visible_each ts user spaces (t # all) out s =
     (case list_grants ts (tg_id t) s of
        (Inl e, s) \<Rightarrow> (Inl e, s)
      | (Inr gs, s) \<Rightarrow>
          visible_each ts user spaces all (if grants_allow gs user spaces then out @ [public_of t] else out) s)"

definition visible_targets :: "('s, 'v) target_store \<Rightarrow> string \<Rightarrow> string list \<Rightarrow> ('s, target_error, public_view list) op" where
  "visible_targets ts user spaces =
     try_op id (read_targets ts) (\<lambda>(all, _).
       try_op id (visible_each ts user (set spaces) all []) (\<lambda>out. ok_op (sort_key pv_id out)))"

definition may_use :: "('s, 'v) target_store \<Rightarrow> string \<Rightarrow> string \<Rightarrow> string \<Rightarrow> ('s, target_error, bool) op" where
  "may_use ts user sp tid =
     try_op id (get_target ts tid) (\<lambda>_.
       try_op id (list_grants ts tid) (\<lambda>gs. ok_op (grants_allow gs user (space_set sp))))"

subsection \<open>Who is admitted\<close>

text \<open>The reference: what one grant says.\<close>

definition admits :: "grant \<Rightarrow> string \<Rightarrow> string set \<Rightarrow> bool" where
  "admits g user spaces \<longleftrightarrow>
     gr_scope g = scope_all_users \<or> (gr_scope g = scope_user \<and> gr_user g = user) \<or>
     (gr_scope g = scope_space \<and> gr_space g \<in> spaces)"

lemma grants_allow_iff: "grants_allow gs user spaces \<longleftrightarrow> (\<exists>g\<in>set gs. admits g user spaces)"
  by (induction gs) (auto simp: admits_def)

lemma grant_equal_iff: "grant_equal a b \<longleftrightarrow> a = b"
  by (auto simp: grant_equal_def)

lemma admits_retarget [simp]: "admits (g\<lparr>gr_target := tid\<rparr>) user spaces = admits g user spaces"
  by (simp add: admits_def)

lemma normalize_from_spec:
  "normalize_from tid out gs = Inr res \<Longrightarrow> distinct out \<Longrightarrow>
    \<forall>g\<in>set out. grant_validate g = None \<and> gr_target g = tid \<Longrightarrow>
    distinct res \<and> (\<forall>g\<in>set res. grant_validate g = None \<and> gr_target g = tid) \<and>
    set res = set out \<union> (\<lambda>g. g\<lparr>gr_target := tid\<rparr>) ` set gs"
proof (induction gs arbitrary: out)
  case (Cons g gs)
  let ?g = "g\<lparr>gr_target := tid\<rparr>"
  have v: "grant_validate ?g = None" using Cons.prems(1) by (auto simp: Let_def split: option.splits)
  let ?out = "if list_ex (\<lambda>kept. grant_equal kept ?g) out then out else out @ [?g]"
  have rest: "normalize_from tid ?out gs = Inr res" using Cons.prems(1) v by (simp add: Let_def)
  have out: "set ?out = insert ?g (set out)" "distinct ?out"
    using Cons.prems(2) by (auto simp: list_ex_iff grant_equal_iff)
  then have "\<forall>g\<in>set ?out. grant_validate g = None \<and> gr_target g = tid"
    using Cons.prems(3) v by simp
  note ih = Cons.IH [OF rest out(2) this]
  have "set res = insert ?g (set out) \<union> (\<lambda>g. g\<lparr>gr_target := tid\<rparr>) ` set gs" using ih unfolding out(1) by blast
  then have "set res = set out \<union> (\<lambda>g. g\<lparr>gr_target := tid\<rparr>) ` set (g # gs)"
    by (simp only: list.set image_insert Un_insert_left Un_insert_right)
  then show ?case using ih by blast
qed simp

lemma normalize_grants_spec:
  "normalize_grants tid gs = Inr res \<Longrightarrow>
    distinct res \<and> (\<forall>g\<in>set res. grant_validate g = None \<and> gr_target g = tid) \<and>
    set res = (\<lambda>g. g\<lparr>gr_target := tid\<rparr>) ` set gs"
  unfolding normalize_grants_def by (drule normalize_from_spec) (simp, simp, unfold list.set Un_empty_left)

lemma normalized_allow:
  "normalize_grants tid gs = Inr res \<Longrightarrow> grants_allow res user spaces \<longleftrightarrow> (\<exists>g\<in>set gs. admits g user spaces)"
  unfolding grants_allow_iff by (drule normalize_grants_spec) (simp only: bex_simps admits_retarget)

subsection \<open>The durable store over a failing backend\<close>

definition service_targets ::
    "(target \<Rightarrow> 'v option) \<Rightarrow> ('v \<Rightarrow> target option) \<Rightarrow> (grant list \<Rightarrow> 'v option) \<Rightarrow> ('v \<Rightarrow> grant list option) \<Rightarrow>
     ('v backend, 'v) target_store" where
  "service_targets enc dec genc gdec = new_target_store backend_store enc dec genc gdec"

lemma service_targets_parts:
  "ts_targets (service_targets enc dec genc gdec) = service_versions target_prefix legacy_target_prefix enc dec"
  "ts_grants (service_targets enc dec genc gdec) = service_versions grant_prefix legacy_grant_prefix genc gdec"
  by (simp_all add: service_targets_def new_target_store_def service_versions_def)

lemma newest_view:
  "reversible enc dec \<Longrightarrow> versions_newest (service_versions p q enc dec) ids s = (r, s') \<Longrightarrow> backend_view s' = backend_view s"
  using versioned.versions_load_view [OF service_versioned]
  by (fastforce simp: versions_newest_def split: prod.splits sum.splits)

lemma get_target_view:
  "reversible enc dec \<Longrightarrow> get_target (service_targets enc dec genc gdec) tid s = (r, s') \<Longrightarrow> backend_view s' = backend_view s"
  by (auto simp: get_target_def service_targets_parts elim!: try_op_cases dest: newest_view)

lemma list_grants_after_write:
  assumes rev: "reversible genc gdec" and w: "write_grants (service_targets enc dec genc gdec) now tid gs s = (Inr u, s1)"
    and tid: "tid \<noteq> []" and now: "0 \<le> now" "now \<le> max_int64"
    and room: "stamps_below (backend_view s) (docs_key (new_documents backend_store grant_prefix genc gdec) [tid]) max_int64"
    and same: "backend_view s2 = backend_view s1"
    and l: "list_grants (service_targets enc dec genc gdec) tid s2 = (Inr out, s3)"
  shows "out = gs"
proof -
  let ?v = "service_versions grant_prefix legacy_grant_prefix genc gdec"
  have a: "versions_append ?v now gs [tid] s = (Inr (), s1)"
    using w by (auto simp: write_grants_def service_targets_parts elim!: try_op_cases)
  obtain r s4 where ld: "versions_load ?v [tid] s2 = (r, s4)" by fastforce
  have "case r of Inr (y, sp) \<Rightarrow> y = gs | Inl e \<Rightarrow> \<not> is_not_found e \<and> \<not> is_malformed e"
    using versioned.versions_append_read [OF service_versioned [OF rev] a _ _ now _ same ld] tid room by simp
  then show ?thesis
    using l ld by (auto simp: list_grants_def versions_newest_def service_targets_parts split: prod.splits sum.splits if_splits)
qed

text \<open>C8: the audience an admin sets is the audience that is enforced. After a replacement of a target's
  grants that reported success, whichever store operations fail later, the next answer to whether a
  user may use the target for a Space is yes exactly if one of the given grants names all users,
  that user, or that Space; every grant given was well formed.\<close>

theorem access_follows_audience:
  assumes "reversible enc dec" "reversible genc gdec" "0 \<le> now" "now \<le> max_int64"
    and "stamps_below (backend_view s) (docs_key (new_documents backend_store grant_prefix genc gdec) [tid]) max_int64"
    and "replace_grants (service_targets enc dec genc gdec) now tid gs s = (Inr u, s1)"
    and "may_use (service_targets enc dec genc gdec) user sp tid s1 = (Inr allowed, s2)"
  shows "allowed = (\<exists>g\<in>set gs. admits g user (space_set sp)) \<and>
    (\<forall>g\<in>set gs. grant_validate (g\<lparr>gr_target := tid\<rparr>) = None)"
proof -
  obtain out where out: "normalize_grants tid gs = Inr out" "tid \<noteq> []"
    "write_grants (service_targets enc dec genc gdec) now tid out s = (Inr u, s1)"
    using assms(6) by (auto simp: replace_grants_def split: if_splits sum.splits)
  from assms(7) obtain t s3 stored s4 where "get_target (service_targets enc dec genc gdec) tid s1 = (Inr t, s3)"
      "list_grants (service_targets enc dec genc gdec) tid s3 = (Inr stored, s4)"
      "allowed = grants_allow stored user (space_set sp)"
    by (auto simp: may_use_def elim!: try_op_cases)
  then have "allowed = grants_allow out user (space_set sp)"
    using list_grants_after_write [OF assms(2) out(3,2) assms(3,4,5)] get_target_view [OF assms(1)] by metis
  then have "allowed = (\<exists>g\<in>set gs. admits g user (space_set sp))" using normalized_allow [OF out(1)] by simp
  then show ?thesis using normalize_grants_spec [OF out(1)] by blast
qed

subsection \<open>A grant that outlives its target\<close>

text \<open>One store for both documents, each kept as it is.\<close>

definition target_encode :: "target \<Rightarrow> (target + grant list) option" where "target_encode t = Some (Inl t)"
definition target_decode :: "target + grant list \<Rightarrow> target option" where
  "target_decode x = (case x of Inl t \<Rightarrow> Some t | Inr _ \<Rightarrow> None)"
definition grants_encode :: "grant list \<Rightarrow> (target + grant list) option" where "grants_encode gs = Some (Inr gs)"
definition grants_decode :: "target + grant list \<Rightarrow> grant list option" where
  "grants_decode x = (case x of Inl _ \<Rightarrow> None | Inr gs \<Rightarrow> Some gs)"

definition sample_targets :: "((target + grant list) backend, target + grant list) target_store" where
  "sample_targets = service_targets target_encode target_decode grants_encode grants_decode"

definition sample_target :: "string \<Rightarrow> target" where
  "sample_target tid = \<lparr>tg_id = tid, tg_name = ''Buddy-S3'', tg_endpoint = ''s3'', tg_region = [], tg_bucket = ''b'', tg_prefix = [],
     tg_path_style = False, tg_disable_tls = False, tg_wrapped = [1], tg_created = 0, tg_updated = 0, tg_version = 1, tg_maintenance = False\<rparr>"

definition user_grant :: "string \<Rightarrow> string \<Rightarrow> grant" where
  "user_grant tid user = \<lparr>gr_target = tid, gr_scope = scope_user, gr_user = user, gr_space = []\<rparr>"

text \<open>The steps of an administrator: create, grant, delete, delete again, create anew, and ask.\<close>

definition delete_and_recreate ::
    "('s, 'v) target_store \<Rightarrow> 's \<Rightarrow> (target_error + unit) \<times> (target_error + unit) \<times> (target_error + bool)" where
  "delete_and_recreate ts s =
     (let s = snd (create_target ts 1 (sample_target ''t'') s);
          s = snd (put_grant ts 2 (user_grant ''t'' ''u'') s);
          (first, s) = delete_target ts ''t'' s;
          (second, s) = delete_target ts ''t'' s;
          s = snd (create_target ts 3 (sample_target ''t'') s)
      in (first, second, fst (may_use ts ''u'' [] ''t'' s)))"

lemma target_sample_reversible: "reversible target_encode target_decode" "reversible grants_encode grants_decode"
  by (simp_all add: reversible_def target_encode_def target_decode_def grants_encode_def grants_decode_def)

text \<open>Deleting a target is not safe to interrupt. If the store fails between the removal of the target and the
  removal of its grants, the deletion reports an error, a second attempt reports that there is no
  such target and leaves the grants, and a target created under the same id later is open to the
  old audience, although nobody granted it. Without a failure that audience is gone.\<close>

lemma interrupted_delete_keeps_grants:
  "delete_and_recreate sample_targets \<lparr>contents = [], faults = replicate 9 Works @ [FailsBefore]\<rparr> =
     (Inl (TargetStoreFailed ''delete grants'' BackendError), Inl (NoTarget ''t''), Inr True) \<and>
   delete_and_recreate sample_targets \<lparr>contents = [], faults = []\<rparr> = (Inr (), Inl (NoTarget ''t''), Inr False)"
  by code_simp

theorem access_follows_audience_witness:
  "\<exists>s1 s2. replace_grants sample_targets 5 ''t'' [user_grant ''x'' ''u''] \<lparr>contents = [(''targets/t'', Inl (sample_target ''t''))], faults = []\<rparr> = (Inr (), s1) \<and>
     may_use sample_targets ''u'' ''a'' ''t'' s1 = (Inr True, s2)"
proof -
  let ?s = "\<lparr>contents = [(''targets/t'', Inl (sample_target ''t''))], faults = []\<rparr>"
  let ?d = "new_documents backend_store grant_prefix grants_encode grants_decode"
  let ?put = "replace_grants sample_targets 5 ''t'' [user_grant ''x'' ''u''] ?s"
  have "case ?put of (Inr _, s1) \<Rightarrow> (case fst (may_use sample_targets ''u'' ''a'' ''t'' s1) of Inr _ \<Rightarrow> True | Inl _ \<Rightarrow> False) | _ \<Rightarrow> False"
    by code_simp
  then obtain s1 allowed s2 where ok: "?put = (Inr (), s1)" "may_use sample_targets ''u'' ''a'' ''t'' s1 = (Inr allowed, s2)"
    by (cases ?put; cases "may_use sample_targets ''u'' ''a'' ''t'' (snd ?put)") (auto split: sum.splits)
  have room: "stamps_below (backend_view ?s) (docs_key ?d [''t'']) max_int64"
  proof -
    have "version_nanos ''targets/t'' = None" by code_simp
    then show ?thesis by (auto simp: stamps_below_def record_keys_def backend_view_def split: if_splits)
  qed
  have "allowed = (\<exists>g\<in>set [user_grant ''x'' ''u'']. admits g ''u'' (space_set ''a''))"
    using access_follows_audience [OF target_sample_reversible _ _ room ok(1) [unfolded sample_targets_def] ok(2) [unfolded sample_targets_def]]
    by (simp add: max_int64_def)
  then have "allowed = True" by (simp add: admits_def user_grant_def)
  then show ?thesis using ok by auto
qed

end
