(* ===== verification/Target_Creds.thy ===== *)
theory Target_Creds
  imports Target_Store
begin

text \<open>
  Target credentials (src/internal/targets/credsealer.go and targets.go, src/pkg/keys/credsealer.go), the
  first-start seeding (src/internal/targets/bootstrap.go, env.go) and the rotation of the target wrap key
  (src/internal/rotate/rotate.go).

  The JSON encoding of the payload is a parameter, with decoding what was encoded as the hypothesis.
\<close>

subsection \<open>Credentials\<close>

record plain_creds =
  pc_id :: string
  pc_secret :: string

definition no_creds :: plain_creds where "no_creds = \<lparr>pc_id = [], pc_secret = []\<rparr>"

definition creds_complete :: "plain_creds \<Rightarrow> bool" where
  "creds_complete c \<longleftrightarrow> pc_id c \<noteq> [] \<and> pc_secret c \<noteq> []"

definition creds_empty :: "plain_creds \<Rightarrow> bool" where
  "creds_empty c \<longleftrightarrow> pc_id c = [] \<and> pc_secret c = []"

datatype role = RoleBackup | RoleMaintenance

record credential_set =
  cs_backup :: plain_creds
  cs_maintenance :: plain_creds

definition creds_for :: "credential_set \<Rightarrow> role \<Rightarrow> plain_creds" where
  "creds_for c r = (if r = RoleMaintenance \<and> creds_complete (cs_maintenance c) then cs_maintenance c else cs_backup c)"

definition creds_separated :: "credential_set \<Rightarrow> bool" where
  "creds_separated c \<longleftrightarrow> creds_complete (cs_maintenance c) \<and> pc_id (cs_maintenance c) \<noteq> pc_id (cs_backup c)"

subsection \<open>Sealing\<close>

record tw_sealer =
  tw_key :: bytes

definition new_tw_sealer :: "bytes \<Rightarrow> key_error + tw_sealer" where
  "new_tw_sealer k =
     (if length k \<noteq> srw_key_size then Inl (BadEnvelope ''TW key must be 32 bytes'') else Inr \<lparr>tw_key = k\<rparr>)"

definition tw_seal :: "crypto \<Rightarrow> 'r random \<Rightarrow> tw_sealer \<Rightarrow> bytes \<Rightarrow> ('r, key_error, bytes \<times> int) op" where
  "tw_seal cr random s plaintext =
     try_op id (seal_with cr random plaintext (tw_key s) wrap_tw kdf_none zero_params) (\<lambda>blob. ok_op (blob, envelope_version))"

definition tw_open :: "crypto \<Rightarrow> tw_sealer \<Rightarrow> bytes \<Rightarrow> key_error + bytes" where
  "tw_open cr s blob =
     (case inspect blob of
        Inl e \<Rightarrow> Inl e
      | Inr info \<Rightarrow>
         if ei_kind info \<noteq> wrap_tw then Inl (BadEnvelope ''not a TW envelope'') else env_open cr blob (tw_key s))"

definition tw_close :: "tw_sealer \<Rightarrow> tw_sealer" where
  "tw_close s = s\<lparr>tw_key := zeroize (tw_key s)\<rparr>"

record cred_payload =
  cp_pair :: plain_creds
  cp_maintenance :: "plain_creds option"

text \<open>The JSON codec, as one value.\<close>

record payload_json =
  js_marshal :: "cred_payload \<Rightarrow> bytes option"
  js_unmarshal :: "bytes \<Rightarrow> cred_payload option"

datatype cred_error =
    IncompleteCreds
  | IncompleteMaintenance
  | CannotEncodeCreds
  | CannotSealCreds
  | CannotOpenCreds
  | CannotDecodeCreds
  | CredSealerFailed key_error

definition new_cred_sealer :: "bytes \<Rightarrow> cred_error + tw_sealer" where
  "new_cred_sealer k = (case new_tw_sealer k of Inl e \<Rightarrow> Inl (CredSealerFailed e) | Inr s \<Rightarrow> Inr s)"

definition creds_payload :: "credential_set \<Rightarrow> cred_payload" where
  "creds_payload c = \<lparr>cp_pair = cs_backup c,
     cp_maintenance = (if creds_complete (cs_maintenance c) then Some (cs_maintenance c) else None)\<rparr>"

definition seal_creds ::
    "crypto \<Rightarrow> payload_json \<Rightarrow> 'r random \<Rightarrow> tw_sealer \<Rightarrow> credential_set \<Rightarrow> ('r, cred_error, bytes \<times> int) op" where
  "seal_creds cr js random s c =
     (if \<not> creds_complete (cs_backup c) then fail_op IncompleteCreds
      else if \<not> creds_empty (cs_maintenance c) \<and> \<not> creds_complete (cs_maintenance c) then fail_op IncompleteMaintenance
      else case js_marshal js (creds_payload c) of
          None \<Rightarrow> fail_op CannotEncodeCreds
        | Some pt \<Rightarrow> try_op (\<lambda>_. CannotSealCreds) (tw_seal cr random s pt) ok_op)"

definition open_creds :: "crypto \<Rightarrow> payload_json \<Rightarrow> tw_sealer \<Rightarrow> bytes \<Rightarrow> cred_error + credential_set" where
  "open_creds cr js s wrapped =
     (case tw_open cr s wrapped of
        Inl _ \<Rightarrow> Inl CannotOpenCreds
      | Inr pt \<Rightarrow>
         (case js_unmarshal js pt of
            None \<Rightarrow> Inl CannotDecodeCreds
          | Some p \<Rightarrow> Inr \<lparr>cs_backup = cp_pair p,
              cs_maintenance = (case cp_maintenance p of None \<Rightarrow> no_creds | Some m \<Rightarrow> m)\<rparr>))"

subsection \<open>Seeding a first target\<close>

record bootstrap_config =
  bc_enable :: bool
  bc_id :: string
  bc_name :: string
  bc_endpoint :: string
  bc_region :: string
  bc_bucket :: string
  bc_prefix :: string
  bc_path_style :: bool
  bc_disable_tls :: bool
  bc_creds :: plain_creds
  bc_maintenance :: plain_creds

datatype bootstrap_error =
    BootstrapIncomplete "string list"
  | BootstrapReadFailed target_error
  | BootstrapCannotSeal
  | BootstrapCreateFailed target_error
  | BootstrapGrantFailed target_error

definition default_bootstrap_id :: string where "default_bootstrap_id = ''default''"

text \<open>The joined errors, none of them meaning the configuration is complete.\<close>

definition bootstrap_validate :: "bootstrap_config \<Rightarrow> string list" where
  "bootstrap_validate c =
     (if bc_bucket c = [] \<or> bc_endpoint c = [] then [''an endpoint and a bucket are required''] else []) @
     (if \<not> creds_complete (bc_creds c) then [''S3 credentials are required''] else []) @
     (if \<not> creds_empty (bc_maintenance c) \<and> \<not> creds_complete (bc_maintenance c)
      then [''both halves of the maintenance credential are required, or neither''] else [])"

definition seed_target :: "bootstrap_config \<Rightarrow> bytes \<Rightarrow> int \<Rightarrow> target" where
  "seed_target c wrapped version =
     \<lparr>tg_id = (if bc_id c = [] then default_bootstrap_id else bc_id c),
      tg_name = (if bc_name c = [] then ''Buddy-S3'' else bc_name c),
      tg_endpoint = bc_endpoint c, tg_region = bc_region c, tg_bucket = bc_bucket c, tg_prefix = bc_prefix c,
      tg_path_style = bc_path_style c, tg_disable_tls = bc_disable_tls c, tg_wrapped = wrapped,
      tg_created = zero_time, tg_updated = zero_time, tg_version = version,
      tg_maintenance = creds_complete (bc_maintenance c)\<rparr>"

definition all_users_grant :: "string \<Rightarrow> grant" where
  "all_users_grant tid = \<lparr>gr_target = tid, gr_scope = scope_all_users, gr_user = [], gr_space = []\<rparr>"

definition bootstrap ::
    "crypto \<Rightarrow> payload_json \<Rightarrow> 'r random \<Rightarrow> tw_sealer \<Rightarrow> ('s, 'v) target_store \<Rightarrow> time \<Rightarrow> time \<Rightarrow> bootstrap_config \<Rightarrow>
     'r \<Rightarrow> 's \<Rightarrow> (bootstrap_error + bool) \<times> 'r \<times> 's" where
  "bootstrap cr js random sealer ts now now' c r s =
     (if \<not> bc_enable c then (Inr False, r, s)
      else if bootstrap_validate c \<noteq> [] then (Inl (BootstrapIncomplete (bootstrap_validate c)), r, s)
      else case list_targets ts s of
          (Inl e, s) \<Rightarrow> (Inl (BootstrapReadFailed e), r, s)
        | (Inr existing, s) \<Rightarrow>
            if existing \<noteq> [] then (Inr False, r, s)
            else case seal_creds cr js random sealer \<lparr>cs_backup = bc_creds c, cs_maintenance = bc_maintenance c\<rparr> r of
                (Inl _, r) \<Rightarrow> (Inl BootstrapCannotSeal, r, s)
              | (Inr (wrapped, version), r) \<Rightarrow>
                  let t = seed_target c wrapped version in
                  (case create_target ts now t s of
                     (Inl e, s) \<Rightarrow> (Inl (BootstrapCreateFailed e), r, s)
                   | (Inr _, s) \<Rightarrow>
                       (case put_grant ts now' (all_users_grant (tg_id t)) s of
                          (Inl e, s) \<Rightarrow> (Inl (BootstrapGrantFailed e), r, s)
                        | (Inr _, s) \<Rightarrow> (Inr True, r, s))))"

subsection \<open>Rotating the target wrap key\<close>

datatype tw_error =
    TwKeyPair "target_error rotate_error"
  | TwSealer cred_error
  | TwListFailed target_error
  | TwKeyMismatch string
  | TwSealFailed string cred_error
  | TwStoreFailed string target_error

fun rotate_tw_each ::
    "crypto \<Rightarrow> payload_json \<Rightarrow> 'r random \<Rightarrow> tw_sealer \<Rightarrow> tw_sealer \<Rightarrow> ('s, 'v) target_store \<Rightarrow> (string \<Rightarrow> time) \<Rightarrow>
     target list \<Rightarrow> rotation \<Rightarrow> 'r \<Rightarrow> 's \<Rightarrow> (rotation \<times> tw_error option) \<times> 'r \<times> 's" where
  "rotate_tw_each cr js random old new ts clk [] out r s = ((out, None), r, s)"
| "rotate_tw_each cr js random old new ts clk (t # all) out r s =
     (if tg_wrapped t = [] then
        rotate_tw_each cr js random old new ts clk all (out\<lparr>rot_skipped := rot_skipped out + 1\<rparr>) r s
      else case open_creds cr js old (tg_wrapped t) of
          Inl _ \<Rightarrow>
            (case open_creds cr js new (tg_wrapped t) of
               Inr _ \<Rightarrow> rotate_tw_each cr js random old new ts clk all (out\<lparr>rot_already := rot_already out + 1\<rparr>) r s
             | Inl _ \<Rightarrow> ((out, Some (TwKeyMismatch (tg_id t))), r, s))
        | Inr creds \<Rightarrow>
            (case seal_creds cr js random new creds r of
               (Inl e, r) \<Rightarrow> ((out, Some (TwSealFailed (tg_id t) e)), r, s)
             | (Inr (wrapped, version), r) \<Rightarrow>
                 (case update_target ts (clk (tg_id t)) (t\<lparr>tg_wrapped := wrapped, tg_version := version\<rparr>) s of
                    (Inl e, s) \<Rightarrow> ((out, Some (TwStoreFailed (tg_id t) e)), r, s)
                  | (Inr _, s) \<Rightarrow>
                      rotate_tw_each cr js random old new ts clk all (out\<lparr>rot_rotated := rot_rotated out + 1\<rparr>) r s)))"

definition rotate_tw ::
    "crypto \<Rightarrow> payload_json \<Rightarrow> 'r random \<Rightarrow> ('s, 'v) target_store \<Rightarrow> bytes \<Rightarrow> bytes \<Rightarrow> (string \<Rightarrow> time) \<Rightarrow>
     'r \<Rightarrow> 's \<Rightarrow> (rotation \<times> tw_error option) \<times> 'r \<times> 's" where
  "rotate_tw cr js random ts old_key new_key clk r s =
     (case check_key_pair old_key new_key srw_key_size of
        Some e \<Rightarrow> ((no_rotation, Some (TwKeyPair e)), r, s)
      | None \<Rightarrow>
     (case new_cred_sealer old_key of
        Inl e \<Rightarrow> ((no_rotation, Some (TwSealer e)), r, s)
      | Inr old \<Rightarrow>
     (case new_cred_sealer new_key of
        Inl e \<Rightarrow> ((no_rotation, Some (TwSealer e)), r, s)
      | Inr new \<Rightarrow>
     (case list_targets ts s of
        (Inl e, s) \<Rightarrow> ((no_rotation, Some (TwListFailed e)), r, s)
      | (Inr all, s) \<Rightarrow> rotate_tw_each cr js random old new ts clk all no_rotation r s))))"

subsection \<open>Properties\<close>

definition json_ok :: "payload_json \<Rightarrow> bool" where
  "json_ok js \<longleftrightarrow> (\<forall>p b. js_marshal js p = Some b \<longrightarrow> js_unmarshal js b = Some p)"

lemma tw_sealed_opens:
  assumes "crypto_ok cr" "fills random" "tw_seal cr random s pt r = (Inr (blob, v), r')"
  shows "tw_open cr s blob = Inr pt" "v = envelope_version"
proof -
  have seal: "seal_with cr random pt (tw_key s) wrap_tw kdf_none zero_params r = (Inr blob, r')" and "v = envelope_version"
    using assms(3) by (auto simp: tw_seal_def elim!: try_op_cases)
  obtain p salt r1 where body: "seal_body cr random pt (tw_key s) wrap_tw kdf_none p salt r1 = (Inr blob, r')"
    "ap_salt_len p = of_nat (length salt)" "length salt < 256"
    by (rule seal_with_cases [OF seal assms(2)])
  have "env_open cr blob (tw_key s) = Inr pt" by (rule sealed_opens [OF assms(1,2) seal])
  moreover obtain h nonce ct where "parse_envelope blob = Inr (h, nonce, ct)" "eh_kind h = uint (word_of_int wrap_tw :: 8 word)"
    using seal_body_opens(1) [OF assms(1,2) body] by blast
  ultimately show "tw_open cr s blob = Inr pt" "v = envelope_version"
    using \<open>v = envelope_version\<close> by (auto simp: tw_open_def inspect_def wrap_tw_def)
qed

lemma seal_creds_Inr:
  assumes "seal_creds cr js random s c r = (Inr (blob, v), r')"
  obtains pt where "js_marshal js (creds_payload c) = Some pt" "tw_seal cr random s pt r = (Inr (blob, v), r')"
    "creds_complete (cs_backup c)" "creds_empty (cs_maintenance c) \<or> creds_complete (cs_maintenance c)"
  using assms by (auto simp: seal_creds_def split: if_splits option.splits elim!: try_op_cases)

lemma sealed_creds_open:
  assumes "crypto_ok cr" "fills random" "json_ok js" "seal_creds cr js random s c r = (Inr (blob, v), r')"
  shows "open_creds cr js s blob = Inr c"
proof -
  obtain pt where pt: "js_marshal js (creds_payload c) = Some pt" "tw_seal cr random s pt r = (Inr (blob, v), r')"
    "creds_empty (cs_maintenance c) \<or> creds_complete (cs_maintenance c)"
    using assms(4) by (rule seal_creds_Inr)
  have "js_unmarshal js pt = Some (creds_payload c)" using pt(1) assms(3) by (auto simp: json_ok_def)
  moreover have "creds_empty (cs_maintenance c) \<Longrightarrow> cs_maintenance c = no_creds"
    by (cases "cs_maintenance c") (simp add: creds_empty_def no_creds_def)
  ultimately show ?thesis
    using tw_sealed_opens(1) [OF assms(1,2) pt(2)] pt(3)
    by (cases c) (auto simp: open_creds_def creds_payload_def creds_empty_def creds_complete_def)
qed

text \<open>What is sealed serves both roles.\<close>

lemma creds_for_roles:
  assumes "creds_complete (cs_backup c)" "creds_empty (cs_maintenance c) \<or> creds_complete (cs_maintenance c)"
  shows "creds_complete (creds_for c r)" "creds_for c RoleBackup = cs_backup c"
    and "creds_for c RoleMaintenance = (if creds_empty (cs_maintenance c) then cs_backup c else cs_maintenance c)"
  using assms by (auto simp: creds_for_def creds_empty_def creds_complete_def)

text \<open>C15: the credentials of a target survive sealing, and a sealed record always serves both roles. What
  the sealer seals it opens to exactly the same credential set; both roles then get a complete
  pair, a maintenance run gets the maintenance pair whenever one was given, and a pair that is
  half filled is never sealed.\<close>

theorem sealed_credentials_serve_both_roles:
  assumes "crypto_ok cr" "fills random" "json_ok js" "seal_creds cr js random sealer c r = (Inr (blob, v), r')"
  shows "open_creds cr js sealer blob = Inr c \<and> creds_complete (creds_for c RoleBackup) \<and> creds_complete (creds_for c RoleMaintenance) \<and>
    creds_for c RoleBackup = cs_backup c \<and>
    (creds_for c RoleMaintenance = (if creds_empty (cs_maintenance c) then cs_backup c else cs_maintenance c))"
proof -
  obtain pt where "js_marshal js (creds_payload c) = Some pt" "tw_seal cr random sealer pt r = (Inr (blob, v), r')"
    and pairs: "creds_complete (cs_backup c)" "creds_empty (cs_maintenance c) \<or> creds_complete (cs_maintenance c)"
    using assms(4) by (rule seal_creds_Inr)
  show ?thesis
    using creds_for_roles(1) [OF pairs, of RoleBackup] creds_for_roles(1) [OF pairs, of RoleMaintenance]
      creds_for_roles(2,3) [OF pairs] sealed_creds_open [OF assms]
    by (intro conjI)
qed

definition sample_creds :: credential_set where
  "sample_creds = \<lparr>cs_backup = \<lparr>pc_id = ''k'', pc_secret = ''s''\<rparr>, cs_maintenance = \<lparr>pc_id = ''m'', pc_secret = ''n''\<rparr>\<rparr>"

definition sample_json :: payload_json where
  "sample_json = \<lparr>js_marshal = (\<lambda>p. if p = creds_payload sample_creds then Some [7] else None),
     js_unmarshal = (\<lambda>_. Some (creds_payload sample_creds))\<rparr>"

lemma sample_json_ok: "json_ok sample_json"
  by (simp add: json_ok_def sample_json_def)

theorem sealed_credentials_serve_both_roles_witness:
  "\<exists>blob v r'. seal_creds plain_crypto sample_json counting_random \<lparr>tw_key = replicate 32 1\<rparr> sample_creds 3 = (Inr (blob, v), r') \<and>
     open_creds plain_crypto sample_json \<lparr>tw_key = replicate 32 1\<rparr> blob = Inr sample_creds \<and>
     creds_for sample_creds RoleMaintenance = \<lparr>pc_id = ''m'', pc_secret = ''n''\<rparr>"
proof -
  let ?run = "seal_creds plain_crypto sample_json counting_random \<lparr>tw_key = replicate 32 1\<rparr> sample_creds 3"
  have "case fst ?run of Inl _ \<Rightarrow> False | Inr _ \<Rightarrow> True" by code_simp
  then obtain blob v r' where run: "?run = (Inr (blob, v), r')"
    by (metis (no_types, lifting) prod.collapse sum.case_eq_if sum.collapse)
  show ?thesis
    using sealed_credentials_serve_both_roles [OF plain_crypto_ok counting_fills sample_json_ok run] run
    by (auto simp: sample_creds_def creds_empty_def)
qed

text \<open>A rotation step seals again what it opened.\<close>

lemma resealed_creds_same:
  assumes "crypto_ok cr" "fills random" "json_ok js" "open_creds cr js old w = Inr c"
    and "seal_creds cr js random new c r = (Inr (blob, v), r')"
  shows "open_creds cr js new blob = open_creds cr js old w"
  using sealed_creds_open [OF assms(1,2,3,5)] assms(4) by simp

subsection \<open>An interrupted seeding\<close>

definition sample_bootstrap :: bootstrap_config where
  "sample_bootstrap = \<lparr>bc_enable = True, bc_id = [], bc_name = [], bc_endpoint = ''s3'', bc_region = [], bc_bucket = ''b'', bc_prefix = [],
     bc_path_style = True, bc_disable_tls = False, bc_creds = cs_backup sample_creds, bc_maintenance = cs_maintenance sample_creds\<rparr>"

text \<open>Two starts of the service, and whether a user may use the seeded target afterwards.\<close>

definition two_starts :: "fault list \<Rightarrow> bool option \<times> bool option \<times> bool option" where
  "two_starts fs =
     (let start = bootstrap plain_crypto sample_json counting_random \<lparr>tw_key = replicate 32 1\<rparr> sample_targets 1 2 sample_bootstrap;
          answer = (\<lambda>x. case x of Inl _ \<Rightarrow> None | Inr b \<Rightarrow> Some b);
          (first, r, s) = start 0 \<lparr>contents = [], faults = fs\<rparr>;
          (second, r, s) = start r s
      in (answer first, answer second, case fst (may_use sample_targets ''u'' [] ''default'' s) of Inl _ \<Rightarrow> None | Inr b \<Rightarrow> Some b))"

text \<open>
  A seeding that fails between creating the target and granting it is never completed: the next
  start finds a target, seeds nothing and reports success, and nobody may use the target.
\<close>

lemma interrupted_seeding_grants_nobody:
  "two_starts [] = (Some True, Some False, Some True)"
  "two_starts (replicate 6 Works @ [FailsBefore]) = (None, Some False, Some False)"
  by code_simp+

end
