(* ===== verification/Cs3_Access.thy ===== *)
theory Cs3_Access
  imports Go_Flow Go_Strings "HOL-Library.Word"
begin

text \<open>
  Spaces, membership and authority (src/internal/cs3/cs3.go and role.go), and the checks the HTTP
  handlers make with them (src/internal/api/access.go).

  A role is the Go constant's integer, so handlers' comparisons are comparisons here. The decoded permission
  set of a grant is a record of the capabilities the code asks for; an \<open>Opaque\<close> entry that does not
  decode is \<open>None\<close>. The HTTP status and message of a refusal are the constructors of \<open>access_error\<close>.
\<close>

subsection \<open>Spaces\<close>

record resource_id =
  rid_storage :: string
  rid_space :: string
  rid_opaque :: string

definition resource_zero :: "resource_id \<Rightarrow> bool" where
  "resource_zero r \<longleftrightarrow> rid_storage r = [] \<and> rid_space r = [] \<and> rid_opaque r = []"

definition role_none :: int where "role_none = 0"
definition role_viewer :: int where "role_viewer = 1"
definition role_editor :: int where "role_editor = 2"
definition role_manager :: int where "role_manager = 3"
definition role_owner :: int where "role_owner = 4"

lemmas role_defs = role_none_def role_viewer_def role_editor_def role_manager_def role_owner_def

definition role_string :: "int \<Rightarrow> string" where
  "role_string r =
     (if r = role_viewer then ''viewer'' else if r = role_editor then ''editor''
      else if r = role_manager then ''manager'' else if r = role_owner then ''owner'' else ''none'')"

record member =
  mb_role :: int
  mb_expires :: time
  mb_group :: bool

record space =
  sp_id :: string
  sp_name :: string
  sp_type :: string
  sp_owner :: string
  sp_root :: resource_id
  sp_members :: "(string \<times> member) list"

definition clamp_int64 :: "64 word \<Rightarrow> int" where
  "clamp_int64 v = (if uint v > max_int64 then max_int64 else uint v)"

definition member_expired :: "member \<Rightarrow> time \<Rightarrow> bool" where
  "member_expired m now \<longleftrightarrow> \<not> is_zero_time (mb_expires m) \<and> \<not> now < mb_expires m"

text \<open>The loop over the caller's groups, with the best role so far.\<close>

fun best_group_role :: "space \<Rightarrow> time \<Rightarrow> int \<Rightarrow> string list \<Rightarrow> int" where
  "best_group_role sp now best [] = best"
| "best_group_role sp now best (g # gs) =
     (if g = [] then best_group_role sp now best gs
      else case map_of (sp_members sp) g of
          None \<Rightarrow> best_group_role sp now best gs
        | Some m \<Rightarrow> best_group_role sp now
            (if mb_group m \<and> \<not> member_expired m now \<and> mb_role m > best then mb_role m else best) gs)"

definition role_for :: "space \<Rightarrow> string \<Rightarrow> string list \<Rightarrow> time \<Rightarrow> int" where
  "role_for sp subject groups now =
     (if subject = [] then role_none
      else if sp_owner sp \<noteq> [] \<and> sp_owner sp = subject then role_owner
      else best_group_role sp now
        (case map_of (sp_members sp) subject of
           Some m \<Rightarrow> if \<not> mb_group m \<and> \<not> member_expired m now \<and> mb_role m > role_none then mb_role m else role_none
         | None \<Rightarrow> role_none) groups)"

definition group_grants :: "space \<Rightarrow> bool" where
  "group_grants sp \<longleftrightarrow> list_ex (\<lambda>(_, m). mb_group m) (sp_members sp)"

subsection \<open>Reading the grants of a Space\<close>

text \<open>What \<open>roleFromPermissions\<close> asks of a permission set.\<close>

record permissions =
  pm_add_grant :: bool
  pm_update_grant :: bool
  pm_remove_grant :: bool
  pm_deny_grant :: bool
  pm_upload :: bool
  pm_create_container :: bool
  pm_delete :: bool
  pm_move :: bool
  pm_restore_version :: bool
  pm_restore_recycle :: bool
  pm_purge_recycle :: bool
  pm_stat :: bool
  pm_get_path :: bool
  pm_list_container :: bool
  pm_download :: bool
  pm_list_versions :: bool
  pm_list_recycle :: bool

definition role_from_permissions :: "permissions \<Rightarrow> int" where
  "role_from_permissions p =
     (if pm_add_grant p \<or> pm_update_grant p \<or> pm_remove_grant p \<or> pm_deny_grant p then role_manager
      else if pm_upload p \<or> pm_create_container p \<or> pm_delete p \<or> pm_move p \<or> pm_restore_version p \<or>
        pm_restore_recycle p \<or> pm_purge_recycle p then role_editor
      else if pm_stat p \<or> pm_get_path p \<or> pm_list_container p \<or> pm_download p \<or> pm_list_versions p \<or> pm_list_recycle p
        then role_viewer
      else role_none)"

text \<open>The decoded \<open>Opaque\<close> entries: grants with the permission set when it decodes, the group markers and the expiries.\<close>

record opaque =
  op_grants :: "(string \<times> permissions option) list option"
  op_groups :: "string list"
  op_expirations :: "(string \<times> time) list"

fun members_from :: "opaque \<Rightarrow> (string \<times> permissions option) list \<Rightarrow> (string \<times> member) list" where
  "members_from op [] = []"
| "members_from op ((who, grant) # rest) =
     (case grant of
        None \<Rightarrow> members_from op rest
      | Some perms \<Rightarrow>
         if role_from_permissions perms = role_none then members_from op rest
         else (who, \<lparr>mb_role = role_from_permissions perms,
                 mb_expires = (case map_of (op_expirations op) who of None \<Rightarrow> zero_time | Some t \<Rightarrow> t),
                 mb_group = (who \<in> set (op_groups op))\<rparr>) # members_from op rest)"

definition parse_members :: "opaque option \<Rightarrow> (string \<times> member) list" where
  "parse_members op =
     (case op of
        None \<Rightarrow> []
      | Some op \<Rightarrow> (case op_grants op of None \<Rightarrow> [] | Some grants \<Rightarrow> members_from op grants))"

subsection \<open>One request's access checker\<close>

datatype access_error =
    SpacesNotConfigured
  | SpacesUpstream string
  | GroupsUnavailable
  | GroupsUpstream string
  | MissingIdentity
  | MissingSpaceId
  | AuthorizationUnavailable
  | Forbidden string

text \<open>
  The collaborators, and what the checker memoises: the list of Spaces and the caller's groups, each
  fetched at most once per request.
\<close>

record 'w access_deps =
  ad_spaces :: "('w, access_error, space list) op option"
  ad_groups :: "(string \<Rightarrow> ('w, access_error, string list) op) option"

record 'w checker =
  ac_world :: 'w
  ac_user :: string
  ac_now :: time
  ac_spaces :: "(access_error + space list) option"
  ac_groups :: "(access_error + string list) option"

definition new_checker :: "'w \<Rightarrow> string \<Rightarrow> time \<Rightarrow> 'w checker" where
  "new_checker w user now = \<lparr>ac_world = w, ac_user = user, ac_now = now, ac_spaces = None, ac_groups = None\<rparr>"

definition list_spaces :: "'w access_deps \<Rightarrow> ('w checker, access_error, space list) op" where
  "list_spaces deps a =
     (case ac_spaces a of
        Some r \<Rightarrow> (r, a)
      | None \<Rightarrow>
         (case ad_spaces deps of
            None \<Rightarrow> (Inl SpacesNotConfigured, a\<lparr>ac_spaces := Some (Inl SpacesNotConfigured)\<rparr>)
          | Some f \<Rightarrow> (case f (ac_world a) of (r, w) \<Rightarrow> (r, a\<lparr>ac_world := w, ac_spaces := Some r\<rparr>))))"

definition caller_groups :: "'w access_deps \<Rightarrow> ('w checker, access_error, string list) op" where
  "caller_groups deps a =
     (case ac_groups a of
        Some r \<Rightarrow> (r, a)
      | None \<Rightarrow>
         (case ad_groups deps of
            None \<Rightarrow> (Inl GroupsUnavailable, a\<lparr>ac_groups := Some (Inl GroupsUnavailable)\<rparr>)
          | Some f \<Rightarrow> (case f (ac_user a) (ac_world a) of (r, w) \<Rightarrow> (r, a\<lparr>ac_world := w, ac_groups := Some r\<rparr>))))"

definition permits :: "'w access_deps \<Rightarrow> space \<Rightarrow> int \<Rightarrow> ('w checker, access_error, bool) op" where
  "permits deps sp least a =
     (if role_for sp (ac_user a) [] (ac_now a) \<ge> least then (Inr True, a)
      else if \<not> group_grants sp then (Inr False, a)
      else try_op id (caller_groups deps) (\<lambda>groups a. (Inr (role_for sp (ac_user a) groups (ac_now a) \<ge> least), a)) a)"

definition effective_role :: "'w access_deps \<Rightarrow> space \<Rightarrow> ('w checker, access_error, int) op" where
  "effective_role deps sp a =
     (let direct = role_for sp (ac_user a) [] (ac_now a) in
      if direct \<ge> role_manager \<or> \<not> group_grants sp then (Inr direct, a)
      else try_op id (caller_groups deps) (\<lambda>groups a. (Inr (role_for sp (ac_user a) groups (ac_now a)), a)) a)"

fun member_ids_from :: "'w access_deps \<Rightarrow> space list \<Rightarrow> string list \<Rightarrow> ('w checker, access_error, string list) op" where
  "member_ids_from deps [] out a = (Inr out, a)"
| "member_ids_from deps (sp # all) out a =
     (case permits deps sp role_viewer a of
        (Inl e, a) \<Rightarrow> (Inl e, a)
      | (Inr ok, a) \<Rightarrow> member_ids_from deps all (if ok then out @ [sp_id sp] else out) a)"

definition member_space_ids :: "'w access_deps \<Rightarrow> ('w checker, access_error, string list) op" where
  "member_space_ids deps a =
     (case list_spaces deps a of
        (Inl e, a) \<Rightarrow> (if e = SpacesNotConfigured then (Inr [], a) else (Inl e, a))
      | (Inr all, a) \<Rightarrow> member_ids_from deps all [] a)"

definition forbidden_message :: "int \<Rightarrow> string" where
  "forbidden_message least =
     (if least \<le> role_viewer then ''not a member of this space''
      else ''requires the '' @ role_string least @ '' role on this space'')"

text \<open>
  \<open>requireRole\<close>: the identity and the checker come with the request (either may be missing), the Space id from
  its path. The answer is the Space's id, or what the response says.
\<close>

definition require_role ::
    "'w access_deps \<Rightarrow> bool \<Rightarrow> string \<Rightarrow> int \<Rightarrow> 'w checker option \<Rightarrow> (access_error + string) \<times> 'w checker option" where
  "require_role deps identified space_id least checker =
     (if \<not> identified then (Inl MissingIdentity, checker)
      else if space_id = [] then (Inl MissingSpaceId, checker)
      else case checker of
          None \<Rightarrow> (Inl AuthorizationUnavailable, None)
        | Some a \<Rightarrow>
         (case list_spaces deps a of
            (Inl e, a) \<Rightarrow> (Inl e, Some a)
          | (Inr all, a) \<Rightarrow>
             (case find (\<lambda>sp. sp_id sp = space_id) all of
                None \<Rightarrow> (Inl (Forbidden (forbidden_message least)), Some a)
              | Some sp \<Rightarrow>
                 (case permits deps sp least a of
                    (Inl e, a) \<Rightarrow> (Inl e, Some a)
                  | (Inr allowed, a) \<Rightarrow>
                      if allowed then (Inr space_id, Some a) else (Inl (Forbidden (forbidden_message least)), Some a)))))"

subsection \<open>Authority\<close>

text \<open>The reference: a principal reaches a role by owning the Space or by a grant of its own or of one of its
  groups that reaches the role and has not lapsed.\<close>

definition granted :: "space \<Rightarrow> time \<Rightarrow> string \<Rightarrow> bool \<Rightarrow> int \<Rightarrow> bool" where
  "granted sp now who as_group least \<longleftrightarrow>
     (\<exists>m. map_of (sp_members sp) who = Some m \<and> mb_group m = as_group \<and> (is_zero_time (mb_expires m) \<or> now < mb_expires m) \<and> least \<le> mb_role m)"

lemma granted_iff: "granted sp now who as_group least \<longleftrightarrow>
    (\<exists>m. map_of (sp_members sp) who = Some m \<and> mb_group m = as_group \<and> \<not> member_expired m now \<and> least \<le> mb_role m)"
  by (auto simp: granted_def member_expired_def)

definition authority :: "space \<Rightarrow> string \<Rightarrow> string list \<Rightarrow> time \<Rightarrow> int \<Rightarrow> bool" where
  "authority sp subject groups now least \<longleftrightarrow> subject \<noteq> [] \<and>
     (sp_owner sp = subject \<and> least \<le> role_owner \<or> sp_owner sp \<noteq> subject \<and> granted sp now subject False least \<or>
      sp_owner sp \<noteq> subject \<and> (\<exists>g\<in>set groups. g \<noteq> [] \<and> granted sp now g True least))"

lemma best_group_role_reaches:
  "least \<le> best_group_role sp now best groups \<longleftrightarrow> least \<le> best \<or> (\<exists>g\<in>set groups. g \<noteq> [] \<and> granted sp now g True least)"
proof (induction groups arbitrary: best)
  case (Cons g gs)
  show ?case
  proof (cases "g = []")
    case True
    then show ?thesis using Cons.IH by simp
  next
    case False
    then show ?thesis
      by (cases "map_of (sp_members sp) g") (auto simp: Cons.IH granted_iff)
  qed
qed simp

lemma role_for_reaches:
  assumes "role_viewer \<le> least"
  shows "least \<le> role_for sp subject groups now \<longleftrightarrow> authority sp subject groups now least"
  using assms
  by (auto simp: role_for_def authority_def best_group_role_reaches role_defs granted_iff split: option.splits)

lemma no_group_grants:
  assumes "\<not> group_grants sp" shows "\<not> granted sp now g True least"
proof
  assume "granted sp now g True least"
  then obtain m where "map_of (sp_members sp) g = Some m" "mb_group m" by (auto simp: granted_iff)
  then have "(g, m) \<in> set (sp_members sp)" by (simp add: map_of_SomeD)
  then show False using assms \<open>mb_group m\<close> by (auto simp: group_grants_def list_ex_iff)
qed

lemma permits_direct:
  "role_viewer \<le> least \<Longrightarrow> authority sp (ac_user a) [] (ac_now a) least \<Longrightarrow> permits deps sp least a = (Inr True, a)"
  by (simp add: permits_def role_for_reaches)

lemma authority_mono: "authority sp subject [] now least \<Longrightarrow> authority sp subject groups now least"
  by (auto simp: authority_def)

lemma authority_no_groups:
  "\<not> group_grants sp \<Longrightarrow> authority sp subject groups now least = authority sp subject [] now least"
  by (auto simp: authority_def no_group_grants)

lemma permits_answers:
  assumes "role_viewer \<le> least" "ac_groups a = None" "ad_groups deps = Some g" "g (ac_user a) (ac_world a) = (Inr groups, w)"
  shows "fst (permits deps sp least a) = Inr (authority sp (ac_user a) groups (ac_now a) least)"
  using assms authority_mono [of sp "ac_user a" "ac_now a" least groups] authority_no_groups [of sp "ac_user a" groups]
  by (auto simp: permits_def role_for_reaches try_op_def caller_groups_def)

text \<open>A failed group lookup denies: whoever is let in without one has the role directly.\<close>

lemma permits_without_groups:
  assumes "role_viewer \<le> least" "permits deps sp least a = (Inr True, a')" "fst (caller_groups deps a) = Inl e"
  shows "authority sp (ac_user a) [] (ac_now a) least"
  using assms by (auto simp: permits_def role_for_reaches try_op_def split: if_splits prod.splits sum.splits)

text \<open>C6: a request reaches a Space exactly by authority over it. When the upstream services answer, the handlers'
  guard lets a caller through for a role exactly if a Space of that id is listed and the caller owns
  it, or holds a grant of that role or a higher one that has not expired, directly or through one of
  their groups; otherwise the refusal is the same whether the Space exists or not. The shortcut of
  not asking for groups never changes the answer.\<close>

theorem guard_is_authority:
  assumes "role_viewer \<le> least" "space_id \<noteq> []"
    and "ad_spaces deps = Some f" "f w = (Inr all, w1)"
    and "ad_groups deps = Some g" "g user w1 = (Inr groups, w2)"
  shows "fst (require_role deps True space_id least (Some (new_checker w user now))) =
    (case find (\<lambda>sp. sp_id sp = space_id) all of
       Some sp \<Rightarrow> if authority sp user groups now least then Inr space_id else Inl (Forbidden (forbidden_message least))
     | None \<Rightarrow> Inl (Forbidden (forbidden_message least)))"
proof -
  let ?a = "\<lparr>ac_world = w1, ac_user = user, ac_now = now, ac_spaces = Some (Inr all), ac_groups = None\<rparr>"
  have listed: "list_spaces deps (new_checker w user now) = (Inr all, ?a)"
    using assms(3,4) by (simp add: list_spaces_def new_checker_def)
  have "fst (permits deps sp least ?a) = Inr (authority sp user groups now least)" for sp
    using permits_answers [of least ?a deps g groups w2 sp] assms(1,5,6) by simp
  then show ?thesis
    using assms(2) listed
    by (auto simp: require_role_def split: option.splits prod.splits sum.splits) (metis fst_conv sum.inject(2) sum.distinct(1))+
qed

definition sample_space :: space where
  "sample_space = \<lparr>sp_id = ''a'', sp_name = ''A'', sp_type = ''project'', sp_owner = ''a'',
     sp_root = \<lparr>rid_storage = [], rid_space = [], rid_opaque = []\<rparr>,
     sp_members = [(''u'', \<lparr>mb_role = role_viewer, mb_expires = zero_time, mb_group = False\<rparr>),
       (''g'', \<lparr>mb_role = role_manager, mb_expires = 9, mb_group = True\<rparr>)]\<rparr>"

definition sample_access :: "nat access_deps" where
  "sample_access = \<lparr>ad_spaces = Some (\<lambda>w. (Inr [sample_space], w + 1)), ad_groups = Some (\<lambda>u w. (Inr [''g''], w + 1))\<rparr>"

theorem guard_is_authority_witness:
  "fst (require_role sample_access True ''a'' role_manager (Some (new_checker 0 ''u'' 5))) = Inr ''a'' \<and>
   fst (require_role sample_access True ''a'' role_manager (Some (new_checker 0 ''u'' 9))) =
     Inl (Forbidden ''requires the manager role on this space'')"
proof -
  have "fst (require_role sample_access True ''a'' role_manager (Some (new_checker 0 ''u'' now))) =
    (case find (\<lambda>sp. sp_id sp = ''a'') [sample_space] of
       Some sp \<Rightarrow> if authority sp ''u'' [''g''] now role_manager then Inr ''a'' else Inl (Forbidden (forbidden_message role_manager))
     | None \<Rightarrow> Inl (Forbidden (forbidden_message role_manager)))" for now
    by (rule guard_is_authority [where f = "\<lambda>w. (Inr [sample_space], w + 1)" and g = "\<lambda>u w. (Inr [''g''], w + 1)"])
      (simp_all add: sample_access_def role_defs)
  moreover have "authority sample_space ''u'' [''g''] 5 role_manager" "\<not> authority sample_space ''u'' [''g''] 9 role_manager"
    by (simp_all add: authority_def granted_iff sample_space_def member_expired_def is_zero_time_def zero_time_def role_defs)
  moreover have "forbidden_message role_manager = ''requires the manager role on this space''" by code_simp
  ultimately show ?thesis by (simp add: sample_space_def)
qed

end
