(* ===== verification/Backup_Runner.thy ===== *)
theory Backup_Runner
  imports Target_Creds Cs3_Access Jobs_Outcome Space_Cfg Snap_Base
begin

text \<open>
  Backup and prune runs (src/internal/backup/runner.go and prune.go): taking a Space's run lock, opening the job
  record, resolving the configuration, the target's credentials for the run's role and the Data Key,
  running the engine, recording the outcome, and giving the lock back.

  Every collaborator is an interface of the code and an operation on a world here. A panic of the engine,
  which \<open>jobs.Recover\<close> turns into an error, is \<open>EnginePanic\<close>. Log lines are left out; whether
  the run's deadline has passed is asked of the world, as \<open>ctx.Err\<close> is.
\<close>

subsection \<open>What a run addresses\<close>

record location =
  lo_endpoint :: string
  lo_region :: string
  lo_bucket :: string
  lo_prefix :: string
  lo_access :: string
  lo_secret :: string
  lo_disable_tls :: bool

definition redacted :: "location \<Rightarrow> location" where
  "redacted l = l\<lparr>lo_access := [], lo_secret := []\<rparr>"

record s3_config =
  s3_endpoint :: string
  s3_region :: string
  s3_bucket :: string
  s3_access :: string
  s3_secret :: string
  s3_path_style :: bool
  s3_disable_tls :: bool

record repo =
  rp_location :: location
  rp_space :: string
  rp_dk :: bytes

record resolved_target =
  rt_location :: location
  rt_s3 :: s3_config
  rt_prefix :: string

datatype engine_failure = EngineError snap_error | EnginePanic string

datatype run_error =
    RunSpaceNotFound
  | RunNotConfigured
  | RunTargetUnavailable
  | RunInProgress
  | RunFailed snap_error
  | RunPruneFailed snap_error
  | RunPanicked string
  | RunTimedOut run_error
  | RunAcquireFailed jobs_error
  | RunCreateFailed jobs_error
  | RunListSpacesFailed string
  | RunConfigFailed cfg_error
  | RunTargetFailed target_error
  | RunKeysFailed store_key_error
  | RunNotAccepted string

subsection \<open>The collaborators\<close>

record 'w run_deps =
  rd_spaces :: "('w, string, space list) op"
  rd_config :: "string \<Rightarrow> ('w, cfg_error, space_config) op"
  rd_target :: "string \<Rightarrow> ('w, target_error, target) op"
  rd_open :: "bytes \<Rightarrow> cred_error + credential_set"
  rd_rk :: "string \<Rightarrow> ('w, store_key_error, wrapped_dk) op"
  rd_srw :: "string \<Rightarrow> ('w, store_key_error, wrapped_dk) op"
  rd_unwrap :: "wrapped_dk \<Rightarrow> key_error + bytes"
  rd_snapshot :: "repo \<Rightarrow> space \<Rightarrow> ('w, engine_failure, snap_info) op"
  rd_prune :: "repo \<Rightarrow> duration \<Rightarrow> ('w, engine_failure, prune_stats) op"
  rd_acquire :: "string \<Rightarrow> ('w, jobs_error, unit) op"
  rd_release :: "string \<Rightarrow> 'w \<Rightarrow> 'w"
  rd_create :: "job \<Rightarrow> ('w, jobs_error, job) op"
  rd_finish :: "string \<Rightarrow> outcome \<Rightarrow> duration \<Rightarrow> ('w, jobs_error, unit) op"
  rd_publish :: "(s3_config \<Rightarrow> string \<Rightarrow> string \<Rightarrow> bytes \<Rightarrow> ('w, string, unit) op) option"
  rd_probe :: "(s3_config \<Rightarrow> 'w \<Rightarrow> 'w) option"
  rd_background :: "('w, string, unit) op"
  rd_deadline :: "'w \<Rightarrow> bool"
  rd_now :: "'w \<Rightarrow> time"
  rd_timeout :: duration
  rd_outcome :: record_options

definition default_run_timeout :: duration where "default_run_timeout = 6 * hour"

definition run_timeout :: "'w run_deps \<Rightarrow> duration" where
  "run_timeout d = (if rd_timeout d > 0 then rd_timeout d else default_run_timeout)"

record pending =
  pn_space :: space
  pn_job :: job
  pn_started :: time

record run_result =
  rr_job :: string
  rr_space :: string
  rr_snapshot :: string
  rr_started :: time
  rr_finished :: time
  rr_files :: int
  rr_bytes :: int

record prune_result =
  pr_job :: string
  pr_space :: string
  pr_deleted :: nat
  pr_kept :: nat
  pr_started :: time
  pr_finished :: time

subsection \<open>Resolving a run\<close>

definition resolve_space :: "'w run_deps \<Rightarrow> string \<Rightarrow> ('w, run_error, space) op" where
  "resolve_space d sp =
     try_op RunListSpacesFailed (rd_spaces d) (\<lambda>all.
       case find (\<lambda>s. sp_id s = sp) all of Some s \<Rightarrow> ok_op s | None \<Rightarrow> fail_op RunSpaceNotFound)"

definition target_location :: "target \<Rightarrow> plain_creds \<Rightarrow> resolved_target" where
  "target_location t c =
     \<lparr>rt_location = \<lparr>lo_endpoint = tg_endpoint t, lo_region = tg_region t, lo_bucket = tg_bucket t, lo_prefix = tg_prefix t,
        lo_access = pc_id c, lo_secret = pc_secret c, lo_disable_tls = tg_disable_tls t\<rparr>,
      rt_s3 = \<lparr>s3_endpoint = tg_endpoint t, s3_region = tg_region t, s3_bucket = tg_bucket t,
        s3_access = pc_id c, s3_secret = pc_secret c, s3_path_style = tg_path_style t, s3_disable_tls = tg_disable_tls t\<rparr>,
      rt_prefix = tg_prefix t\<rparr>"

definition resolve_target :: "'w run_deps \<Rightarrow> string \<Rightarrow> role \<Rightarrow> ('w, run_error, resolved_target) op" where
  "resolve_target d tid r =
     (if tid = [] then fail_op RunNotConfigured
      else try_op (\<lambda>e. case e of NoTarget _ \<Rightarrow> RunTargetUnavailable | _ \<Rightarrow> RunTargetFailed e) (rd_target d tid) (\<lambda>t.
        case rd_open d (tg_wrapped t) of
          Inl _ \<Rightarrow> fail_op RunTargetUnavailable
        | Inr cs \<Rightarrow> ok_op (target_location t (creds_for cs r))))"

definition unwrap_data_key :: "'w run_deps \<Rightarrow> string \<Rightarrow> ('w, run_error, bytes) op" where
  "unwrap_data_key d sp =
     try_op (\<lambda>e. case e of NoEnvelope _ \<Rightarrow> RunNotConfigured | _ \<Rightarrow> RunKeysFailed e) (rd_srw d sp) (\<lambda>w.
       case rd_unwrap d w of Inl _ \<Rightarrow> fail_op RunNotConfigured | Inr dk \<Rightarrow> ok_op dk)"

definition open_repo :: "'w run_deps \<Rightarrow> string \<Rightarrow> role \<Rightarrow> ('w, run_error, repo \<times> space_config \<times> resolved_target) op" where
  "open_repo d sp r =
     try_op (\<lambda>e. case e of NoSpaceConfig _ \<Rightarrow> RunNotConfigured | _ \<Rightarrow> RunConfigFailed e) (rd_config d sp) (\<lambda>cfg.
     try_op id (resolve_target d (cfg_target cfg) r) (\<lambda>t.
     try_op id (unwrap_data_key d sp) (\<lambda>dk.
     ok_op (\<lparr>rp_location = rt_location t, rp_space = sp, rp_dk = dk\<rparr>, cfg, t))))"

subsection \<open>Publishing the envelopes\<close>

definition publish_envelope ::
    "'w run_deps \<Rightarrow> (s3_config \<Rightarrow> string \<Rightarrow> string \<Rightarrow> bytes \<Rightarrow> ('w, string, unit) op) \<Rightarrow> string \<Rightarrow> resolved_target \<Rightarrow>
     (string \<Rightarrow> ('w, store_key_error, wrapped_dk) op) \<Rightarrow> 'w \<Rightarrow> 'w" where
  "publish_envelope d pub sp t read w =
     (case read sp w of
        (Inl _, w) \<Rightarrow> w
      | (Inr env, w) \<Rightarrow> snd (pub (rt_s3 t) (rt_prefix t) sp (wd_blob env) w))"

definition publish_envelopes :: "'w run_deps \<Rightarrow> string \<Rightarrow> resolved_target \<Rightarrow> 'w \<Rightarrow> 'w" where
  "publish_envelopes d sp t w =
     (case rd_publish d of
        None \<Rightarrow> w
      | Some pub \<Rightarrow> publish_envelope d pub sp t (rd_srw d) (publish_envelope d pub sp t (rd_rk d) w))"

subsection \<open>Doing the work\<close>

definition snapshot_space :: "'w run_deps \<Rightarrow> space \<Rightarrow> ('w, run_error, snap_info) op" where
  "snapshot_space d sp =
     try_op id (open_repo d (sp_id sp) RoleBackup) (\<lambda>(rp, _, t) w.
       try_op (\<lambda>e. case e of EngineError x \<Rightarrow> RunFailed x | EnginePanic p \<Rightarrow> RunPanicked p)
         (rd_snapshot d rp sp) ok_op (publish_envelopes d (sp_id sp) t w))"

definition observe_immutability :: "'w run_deps \<Rightarrow> resolved_target \<Rightarrow> 'w \<Rightarrow> 'w" where
  "observe_immutability d t w = (case rd_probe d of None \<Rightarrow> w | Some probe \<Rightarrow> probe (rt_s3 t) w)"

definition prune_space :: "'w run_deps \<Rightarrow> space \<Rightarrow> ('w, run_error, prune_stats) op" where
  "prune_space d sp =
     try_op id (open_repo d (sp_id sp) RoleMaintenance) (\<lambda>(rp, cfg, t) w.
       try_op (\<lambda>e. case e of EngineError x \<Rightarrow> RunPruneFailed x | EnginePanic p \<Rightarrow> RunPanicked p)
         (rd_prune d rp (effective_window cfg)) ok_op (observe_immutability d t w))"

subsection \<open>The outcome\<close>

definition no_outcome :: outcome where
  "no_outcome = \<lparr>out_state = [], out_error = [], out_snapshot_id = [], out_file_count = 0, out_total_bytes = 0,
     out_deleted = 0, out_kept = 0\<rparr>"

text \<open>\<open>errors.Is\<close> over the sentinels: only a timed-out run wraps another error.\<close>

definition user_message :: "job_kind \<Rightarrow> run_error \<Rightarrow> string" where
  "user_message kind e =
     (case e of
        RunTimedOut _ \<Rightarrow> if kind = kind_prune then ''cleaning up expired backups timed out'' else ''the backup run timed out''
      | RunNotConfigured \<Rightarrow> ''backup is not configured for this space''
      | RunTargetUnavailable \<Rightarrow> ''the backup target is unavailable''
      | RunSpaceNotFound \<Rightarrow> ''space not found''
      | RunInProgress \<Rightarrow> ''a run is already in progress''
      | RunPruneFailed _ \<Rightarrow> ''cleaning up expired backups failed''
      | _ \<Rightarrow> ''the backup run failed'')"

definition settle :: "'w run_deps \<Rightarrow> pending \<Rightarrow> outcome \<Rightarrow> 'w \<Rightarrow> 'w" where
  "settle d p out w =
     (case record_outcome (rd_finish d (job_id (pn_job p)) out) (rd_outcome d) w of
        (Inl _, _, w) \<Rightarrow> w
      | (Inr _, _, w) \<Rightarrow> rd_release d (sp_id (pn_space p)) w)"

definition run_fail :: "'w run_deps \<Rightarrow> pending \<Rightarrow> run_error \<Rightarrow> 'w \<Rightarrow> 'w" where
  "run_fail d p e w =
     (let e = (if rd_deadline d w then RunTimedOut e else e) in
      settle d p (no_outcome\<lparr>out_state := state_failed, out_error := user_message (job_kind (pn_job p)) e\<rparr>) w)"

subsection \<open>A run\<close>

fun is_locked :: "jobs_error \<Rightarrow> bool" where
  "is_locked ErrLocked = True"
| "is_locked (JobsWrapped _ e) = is_locked e"
| "is_locked _ = False"

definition run_job :: "string \<Rightarrow> job_kind \<Rightarrow> string \<Rightarrow> job" where
  "run_job sp kind trigger =
     \<lparr>job_id = [], job_space = sp, job_kind = kind, job_state = state_running, job_trigger = trigger,
      created_at = zero_time, updated_at = zero_time, finished_at = zero_time, file_count = 0, total_bytes = 0,
      job_error = [], snapshot_id = [], snapshots_deleted = 0, snapshots_kept = 0, restore_folder = []\<rparr>"

definition run_begin :: "'w run_deps \<Rightarrow> string \<Rightarrow> job_kind \<Rightarrow> string \<Rightarrow> ('w, run_error, pending) op" where
  "run_begin d sp kind trigger =
     (if sp = [] then fail_op RunSpaceNotFound
      else try_op (\<lambda>e. if is_locked e then RunInProgress else RunAcquireFailed e) (rd_acquire d sp) (\<lambda>_ w.
        case resolve_space d sp w of
          (Inl e, w) \<Rightarrow> (Inl e, rd_release d sp w)
        | (Inr space, w) \<Rightarrow>
           (case rd_create d (run_job sp kind trigger) w of
              (Inl e, w) \<Rightarrow> (Inl (RunCreateFailed e), rd_release d sp w)
            | (Inr job, w) \<Rightarrow> (Inr \<lparr>pn_space = space, pn_job = job, pn_started = rd_now d w\<rparr>, w))))"

definition finish_run :: "'w run_deps \<Rightarrow> pending \<Rightarrow> ('w, run_error, run_result) op" where
  "finish_run d p w =
     (case snapshot_space d (pn_space p) w of
        (Inl e, w) \<Rightarrow> (Inl e, run_fail d p e w)
      | (Inr info, w) \<Rightarrow>
         (let w = settle d p (no_outcome\<lparr>out_state := state_succeeded, out_snapshot_id := si_id info,
                out_file_count := si_files info, out_total_bytes := si_bytes info\<rparr>) w
          in (Inr \<lparr>rr_job = job_id (pn_job p), rr_space = sp_id (pn_space p), rr_snapshot = si_id info,
                rr_started = pn_started p, rr_finished = rd_now d w, rr_files = si_files info, rr_bytes = si_bytes info\<rparr>, w)))"

definition finish_prune :: "'w run_deps \<Rightarrow> pending \<Rightarrow> ('w, run_error, prune_result) op" where
  "finish_prune d p w =
     (case prune_space d (pn_space p) w of
        (Inl e, w) \<Rightarrow> (Inl e, run_fail d p e w)
      | (Inr stats, w) \<Rightarrow>
         (let w = settle d p (no_outcome\<lparr>out_state := state_succeeded, out_deleted := int (ps_deleted stats),
                out_kept := int (ps_kept stats)\<rparr>) w
          in (Inr \<lparr>pr_job = job_id (pn_job p), pr_space = sp_id (pn_space p), pr_deleted = ps_deleted stats,
                pr_kept = ps_kept stats, pr_started = pn_started p, pr_finished = rd_now d w\<rparr>, w)))"

definition run_backup_as :: "'w run_deps \<Rightarrow> string \<Rightarrow> string \<Rightarrow> ('w, run_error, run_result) op" where
  "run_backup_as d trigger sp = try_op id (run_begin d sp kind_backup trigger) (finish_run d)"

definition run_backup :: "'w run_deps \<Rightarrow> string \<Rightarrow> ('w, run_error, run_result) op" where
  "run_backup d = run_backup_as d trigger_manual"

definition run_scheduled :: "'w run_deps \<Rightarrow> string \<Rightarrow> ('w, run_error, run_result) op" where
  "run_scheduled d = run_backup_as d trigger_schedule"

definition run_prune :: "'w run_deps \<Rightarrow> string \<Rightarrow> ('w, run_error, prune_result) op" where
  "run_prune d sp = try_op id (run_begin d sp kind_prune trigger_schedule) (finish_prune d)"

text \<open>
  \<open>StartBackup\<close>: the run is accepted and its job id answered; the goroutine that was handed the pending
  run finishes it later. A service that is stopping accepts none and the run is closed at once.
\<close>

definition start_backup :: "'w run_deps \<Rightarrow> string \<Rightarrow> ('w, run_error, string \<times> pending) op" where
  "start_backup d sp =
     try_op id (run_begin d sp kind_backup trigger_manual) (\<lambda>p w.
       case rd_background d w of
         (Inl e, w) \<Rightarrow> (Inl (RunNotAccepted e), run_fail d p (RunNotAccepted e) w)
       | (Inr _, w) \<Rightarrow> (Inr (job_id (pn_job p), p), w))"

end
