(* ===== verification/Run_Service.thy ===== *)
theory Run_Service
  imports Backup_Runner
begin

text \<open>
  What the order of a run's last steps is worth: the contract of the run lock and the job store as a run
  uses them (locale \<open>run_services\<close>), the wiring of the runner to the durable stores (as the service's start-up
  does it), and what follows for a run that cannot record how it ended.
\<close>

subsection \<open>The contract\<close>

text \<open>An operation that leaves the locks this process holds, and an invariant, alone.\<close>

definition quiet :: "('w \<Rightarrow> 'h) \<Rightarrow> ('w \<Rightarrow> bool) \<Rightarrow> ('w, 'e, 'a) op \<Rightarrow> bool" where
  "quiet held ok f \<longleftrightarrow> (\<forall>w. held (snd (f w)) = held w \<and> (ok w \<longrightarrow> ok (snd (f w))))"

lemma quietD: "quiet held ok f \<Longrightarrow> f w = (r, w') \<Longrightarrow> held w' = held w \<and> (ok w \<longrightarrow> ok w')"
  unfolding quiet_def by (metis snd_conv)

lemma quiet_ok_op: "quiet held ok (ok_op x)"
  by (simp add: quiet_def)

lemma quiet_fail_op: "quiet held ok (fail_op e)"
  by (simp add: quiet_def)

lemma quiet_try_op:
  assumes "quiet held ok f" "\<And>x. quiet held ok (K x)"
  shows "quiet held ok (try_op g f K)"
  unfolding quiet_def
proof
  fix w
  obtain r w1 where f: "f w = (r, w1)" by fastforce
  note one = quietD [OF assms(1) f]
  show "held (snd (try_op g f K w)) = held w \<and> (ok w \<longrightarrow> ok (snd (try_op g f K w)))"
    using one assms(2) [unfolded quiet_def] f by (cases r) (auto simp: try_op_def)
qed

text \<open>Retrying a quiet operation is quiet.\<close>

lemma attempts_quiet:
  "attempted f t rs w w' \<Longrightarrow> quiet held ok (f t) \<Longrightarrow> held w' = held w \<and> (ok w \<longrightarrow> ok w')"
proof (induction rule: attempted.induct)
  case (more m r m1 rs m2)
  then show ?case using quietD [OF more.prems more.hyps(1)] by auto
qed simp

lemma record_outcome_quiet:
  assumes "record_outcome f opts w = (r, spent, w')" "\<And>t. quiet held ok (f t)"
  shows "held w' = held w" "ok w \<Longrightarrow> ok w'"
proof -
  let ?o = "resolve_options opts"
  have "1 \<le> ro_attempts ?o" by (simp add: resolve_options_def default_outcome_attempts_def)
  then obtain rs where rs: "attempted f (ro_timeout ?o) rs w w'"
    using record_from_verdict [of f ?o 1 None 0 w r spent w'] assms(1) by (auto simp: record_outcome_def)
  show "held w' = held w" "ok w \<Longrightarrow> ok w'" using attempts_quiet [OF rs assms(2)] by auto
qed

text \<open>
  \<open>held w sp\<close>: this process holds the Space's lock; \<open>closed w i\<close>: the record of the job is terminal;
  \<open>ok\<close> is an invariant of the world.
\<close>

locale run_services =
  fixes d :: "'w run_deps" and held :: "'w \<Rightarrow> string \<Rightarrow> bool" and closed :: "'w \<Rightarrow> string \<Rightarrow> bool" and ok :: "'w \<Rightarrow> bool"
  assumes acquire_ok: "rd_acquire d sp w = (Inr u, w') \<Longrightarrow> \<not> held w sp \<and> held w' = (held w)(sp := True)"
    and acquire_fails: "rd_acquire d sp w = (Inl e, w') \<Longrightarrow> held w' = held w"
    and acquire_inv: "ok w \<Longrightarrow> ok (snd (rd_acquire d sp w))"
    and release_held: "held (rd_release d sp w) = (held w)(sp := False)"
    and release_closed: "ok w \<Longrightarrow> closed w i \<Longrightarrow> closed (rd_release d sp w) i"
    and release_inv: "ok w \<Longrightarrow> ok (rd_release d sp w)"
    and finish_closes: "ok w \<Longrightarrow> rd_finish d i out t w = (Inr u, w') \<Longrightarrow> closed w' i"
    and quiet_finish: "quiet held ok (rd_finish d i out t)"
    and quiet_create: "quiet held ok (rd_create d j)"
    and quiet_spaces: "quiet held ok (rd_spaces d)"
    and quiet_config: "quiet held ok (rd_config d sp)"
    and quiet_target: "quiet held ok (rd_target d tid)"
    and quiet_srw: "quiet held ok (rd_srw d sp)"
    and quiet_rk: "quiet held ok (rd_rk d sp)"
    and quiet_snapshot: "quiet held ok (rd_snapshot d rp space)"
    and quiet_prune: "quiet held ok (rd_prune d rp win)"
    and quiet_publish: "rd_publish d = Some pub \<Longrightarrow> quiet held ok (pub s3 p sp b)"
    and quiet_probe: "rd_probe d = Some probe \<Longrightarrow> held (probe s3 w) = held w \<and> (ok w \<longrightarrow> ok (probe s3 w))"
begin

lemma quiet_open_repo: "quiet held ok (open_repo d sp r)"
  unfolding open_repo_def resolve_target_def unwrap_data_key_def
  by (intro quiet_try_op quiet_config quiet_ok_op)
    (auto intro!: quiet_try_op quiet_target quiet_srw quiet_ok_op quiet_fail_op split: sum.splits)

lemma publish_quiet: "held (publish_envelopes d sp t w) = held w \<and> (ok w \<longrightarrow> ok (publish_envelopes d sp t w))"
proof -
  have one: "held (publish_envelope d pub sp t read w) = held w \<and> (ok w \<longrightarrow> ok (publish_envelope d pub sp t read w))"
    if p: "rd_publish d = Some pub" and r: "quiet held ok (read sp)" for pub read w
  proof -
    obtain q w1 where q: "read sp w = (q, w1)" by fastforce
    note a = quietD [OF r q]
    show ?thesis
      using a q quiet_publish [OF p, unfolded quiet_def] by (cases q) (auto simp: publish_envelope_def)
  qed
  show ?thesis
    using one [OF _ quiet_rk] one [OF _ quiet_srw] by (auto simp: publish_envelopes_def split: option.splits)
qed

lemma quiet_after:
  assumes "\<And>w. held (f w) = held w \<and> (ok w \<longrightarrow> ok (f w))" "quiet held ok K"
  shows "quiet held ok (\<lambda>w. K (f w))"
  using assms by (auto simp: quiet_def)

lemma quiet_snapshot_space: "quiet held ok (snapshot_space d sp)"
  unfolding snapshot_space_def
  by (rule quiet_try_op [OF quiet_open_repo], clarsimp)
    (rule quiet_after [OF publish_quiet], intro quiet_try_op quiet_snapshot quiet_ok_op)

lemma quiet_prune_space: "quiet held ok (prune_space d sp)"
proof -
  have "held (observe_immutability d t w) = held w \<and> (ok w \<longrightarrow> ok (observe_immutability d t w))" for t w
    using quiet_probe by (simp add: observe_immutability_def split: option.splits)
  then show ?thesis
    unfolding prune_space_def
    by (intro quiet_try_op [OF quiet_open_repo], clarsimp)
      (rule quiet_after, assumption, intro quiet_try_op quiet_prune quiet_ok_op)
qed

lemma attempts_close:
  "attempted (rd_finish d i out) t rs w w' \<Longrightarrow> rs \<noteq> [] \<Longrightarrow> last rs = Inr u \<Longrightarrow> ok w \<Longrightarrow> closed w' i"
proof (induction rule: attempted.induct)
  case (more m r m1 rs m2)
  then show ?case
  proof (cases "rs = []")
    case True
    then have "m2 = m1" using more.hyps(2) by (auto elim: attempted.cases)
    then show ?thesis using finish_closes [OF more.prems(3)] more True by simp
  next
    case False
    then show ?thesis using more quietD [OF quiet_finish more.hyps(1)] by auto
  qed
qed simp

lemma record_outcome_runs:
  assumes "record_outcome (rd_finish d i out) opts w = (r, spent, w')"
  shows "held w' = held w" "ok w \<Longrightarrow> ok w'" "ok w \<Longrightarrow> r = Inr u \<Longrightarrow> closed w' i"
proof -
  show "held w' = held w" "ok w \<Longrightarrow> ok w'" using record_outcome_quiet [OF assms quiet_finish] by auto
  show "closed w' i" if "ok w" "r = Inr u"
  proof -
    let ?o = "resolve_options opts"
    have "1 \<le> ro_attempts ?o" by (simp add: resolve_options_def default_outcome_attempts_def)
    then obtain rs where rs: "attempted (rd_finish d i out) (ro_timeout ?o) rs w w'" "verdict (ro_attempts ?o) rs r"
      using record_from_verdict [of "rd_finish d i out" ?o 1 None 0 w r spent w'] assms
      by (auto simp: record_outcome_def)
    have "\<exists>v. last rs = Inr v" "rs \<noteq> []"
      using rs(2) that(2) by (auto simp: verdict_def split: sum.splits if_splits)
    then show ?thesis using attempts_close [OF rs(1)] that(1) by blast
  qed
qed

text \<open>The order of the last steps: the lock is given back only over a closed record.\<close>

lemma settle_keeps_or_closes:
  assumes "ok w" "held w (sp_id (pn_space p))"
  shows "(held (settle d p out w) (sp_id (pn_space p)) \<or> closed (settle d p out w) (job_id (pn_job p))) \<and>
    (\<forall>sp. sp \<noteq> sp_id (pn_space p) \<longrightarrow> held (settle d p out w) sp = held w sp)"
proof -
  obtain r spent w1 where r: "record_outcome (rd_finish d (job_id (pn_job p)) out) (rd_outcome d) w = (r, spent, w1)"
    by (metis prod_cases3)
  note run = record_outcome_runs [OF r]
  show ?thesis
  proof (cases r)
    case (Inl e)
    then show ?thesis using r run(1) assms by (simp add: settle_def)
  next
    case (Inr u)
    then show ?thesis
      using r run(1) release_closed [OF run(2) run(3)] assms by (auto simp: settle_def release_held)
  qed
qed

lemma begin_holds:
  assumes "run_begin d sp kind trigger w = (r, w')"
  shows "case r of
      Inl e \<Rightarrow> held w' = held w
    | Inr p \<Rightarrow> sp_id (pn_space p) = sp \<and> \<not> held w sp \<and> held w' = (held w)(sp := True) \<and> (ok w \<longrightarrow> ok w')"
proof (cases "sp = []")
  case True
  then show ?thesis using assms by (auto simp: run_begin_def)
next
  case False
  obtain q w1 where a: "rd_acquire d sp w = (q, w1)" by fastforce
  show ?thesis
  proof (cases q)
    case (Inl e)
    then show ?thesis using assms False a acquire_fails [of sp w e w1] by (auto simp: run_begin_def try_op_def)
  next
    case (Inr u)
    note acq = acquire_ok [OF a [unfolded Inr]]
    have inv1: "ok w \<Longrightarrow> ok w1" using acquire_inv [of w sp] a by simp
    have quiet: "quiet held ok (resolve_space d sp)"
      unfolding resolve_space_def by (intro quiet_try_op quiet_spaces) (auto intro: quiet_ok_op quiet_fail_op split: option.splits)
    obtain q2 w2 where s: "resolve_space d sp w1 = (q2, w2)" by fastforce
    note two = quietD [OF quiet s]
    have undone: "held (rd_release d sp v) = held w" if "held v = (held w)(sp := True)" for v
      using that acq by (auto simp: release_held fun_eq_iff)
    show ?thesis
    proof (cases q2)
      case (Inl e)
      then show ?thesis
        using assms False a \<open>q = Inr u\<close> s two acq undone by (auto simp: run_begin_def try_op_def)
    next
      case (Inr space)
      have id: "sp_id space = sp"
        using s Inr by (auto simp: resolve_space_def elim!: try_op_cases split: option.splits dest: find_Some_set)
      obtain q3 w3 where c: "rd_create d (run_job sp kind trigger) w2 = (q3, w3)" by fastforce
      note three = quietD [OF quiet_create c]
      show ?thesis
        using assms False a \<open>q = Inr u\<close> s Inr c two three acq undone inv1 id
        by (cases q3) (auto simp: run_begin_def try_op_def)
    qed
  qed
qed

lemma finish_run_settles:
  assumes "ok w" "held w (sp_id (pn_space p))" "finish_run d p w = (r, w')"
  shows "(held w' (sp_id (pn_space p)) \<or> closed w' (job_id (pn_job p))) \<and>
    (\<forall>sp. sp \<noteq> sp_id (pn_space p) \<longrightarrow> held w' sp = held w sp)"
proof -
  obtain q w1 where q: "snapshot_space d (pn_space p) w = (q, w1)" by fastforce
  note one = quietD [OF quiet_snapshot_space q]
  show ?thesis
    using assms q one settle_keeps_or_closes [of w1 p]
    by (cases q) (auto simp: finish_run_def run_fail_def Let_def)
qed

lemma finish_prune_settles:
  assumes "ok w" "held w (sp_id (pn_space p))" "finish_prune d p w = (r, w')"
  shows "(held w' (sp_id (pn_space p)) \<or> closed w' (job_id (pn_job p))) \<and>
    (\<forall>sp. sp \<noteq> sp_id (pn_space p) \<longrightarrow> held w' sp = held w sp)"
proof -
  obtain q w1 where q: "prune_space d (pn_space p) w = (q, w1)" by fastforce
  note one = quietD [OF quiet_prune_space q]
  show ?thesis
    using assms q one settle_keeps_or_closes [of w1 p]
    by (cases q) (auto simp: finish_prune_def run_fail_def Let_def)
qed

end

subsection \<open>The durable wiring\<close>

text \<open>
  The collaborators as the service wires them: the lock, the job store and the stores of configurations,
  targets and keys share one backend; Spaces, the snapshot engine, the target's object store and the
  clock are outside.
\<close>

record ('v, 'x) service =
  sv_locker :: "'v backend locker"
  sv_out :: 'x

record 'x outside =
  ox_spaces :: "('x, string, space list) op"
  ox_snapshot :: "repo \<Rightarrow> space \<Rightarrow> ('x, engine_failure, snap_info) op"
  ox_prune :: "repo \<Rightarrow> duration \<Rightarrow> ('x, engine_failure, prune_stats) op"
  ox_publish :: "(s3_config \<Rightarrow> string \<Rightarrow> string \<Rightarrow> bytes \<Rightarrow> ('x, string, unit) op) option"
  ox_probe :: "(s3_config \<Rightarrow> 'x \<Rightarrow> 'x) option"
  ox_background :: "('x, string, unit) op"
  ox_deadline :: "'x \<Rightarrow> bool"
  ox_now :: "'x \<Rightarrow> time"
  ox_new_id :: "'x \<Rightarrow> string option"

record 'v service_stores =
  vs_jobs :: "('v backend, 'v, job) documents"
  vs_leases :: "('v backend, 'v, lease) documents"
  vs_config :: "('v backend, 'v, space_config) versions"
  vs_targets :: "('v backend, 'v) target_store"
  vs_keys :: "('v backend, 'v) key_store"

definition on_backend :: "('v backend, 'e, 'a) op \<Rightarrow> (('v, 'x) service, 'e, 'a) op" where
  "on_backend f s =
     (case f (js_backend (lk_jobs (sv_locker s))) of
        (r, b) \<Rightarrow> (r, s\<lparr>sv_locker := (sv_locker s)\<lparr>lk_jobs := (lk_jobs (sv_locker s))\<lparr>js_backend := b\<rparr>\<rparr>\<rparr>))"

definition on_locker :: "('v backend locker, 'e, 'a) op \<Rightarrow> (('v, 'x) service, 'e, 'a) op" where
  "on_locker f s = (case f (sv_locker s) of (r, l) \<Rightarrow> (r, s\<lparr>sv_locker := l\<rparr>))"

definition on_outside :: "('x, 'e, 'a) op \<Rightarrow> (('v, 'x) service, 'e, 'a) op" where
  "on_outside f s = (case f (sv_out s) of (r, x) \<Rightarrow> (r, s\<lparr>sv_out := x\<rparr>))"

definition wire_runner ::
    "'v service_stores \<Rightarrow> 'x outside \<Rightarrow> lease_options \<Rightarrow> (bytes \<Rightarrow> cred_error + credential_set) \<Rightarrow>
     (wrapped_dk \<Rightarrow> key_error + bytes) \<Rightarrow> duration \<Rightarrow> record_options \<Rightarrow> ('v, 'x) service run_deps" where
  "wire_runner st ox opts opener unwrap timeout ro = \<lparr>
     rd_spaces = on_outside (ox_spaces ox),
     rd_config = (\<lambda>sp. on_backend (cfg_get (vs_config st) sp)),
     rd_target = (\<lambda>tid. on_backend (get_target (vs_targets st) tid)),
     rd_open = opener,
     rd_rk = (\<lambda>sp. on_backend (get_rk (vs_keys st) sp)),
     rd_srw = (\<lambda>sp. on_backend (get_srw (vs_keys st) sp)),
     rd_unwrap = unwrap,
     rd_snapshot = (\<lambda>rp sp. on_outside (ox_snapshot ox rp sp)),
     rd_prune = (\<lambda>rp win. on_outside (ox_prune ox rp win)),
     rd_acquire = (\<lambda>sp s. case on_locker (lock_acquire (vs_leases st) opts sp (ox_now ox (sv_out s))) s of
        (r, s) \<Rightarrow> (map_sum id (\<lambda>_. ()) r, s)),
     rd_release = (\<lambda>sp s. s\<lparr>sv_locker := lock_release (vs_leases st) sp (sv_locker s)\<rparr>),
     rd_create = (\<lambda>j s. on_locker (on_jobs (job_create (vs_jobs st) j (ox_now ox (sv_out s)) (ox_new_id ox (sv_out s)))) s),
     rd_finish = (\<lambda>i out t s. on_locker (on_jobs (job_finish (vs_jobs st) i out (ox_now ox (sv_out s)))) s),
     rd_publish = map_option (\<lambda>pub s3 p sp b. on_outside (pub s3 p sp b)) (ox_publish ox),
     rd_probe = map_option (\<lambda>probe s3 s. s\<lparr>sv_out := probe s3 (sv_out s)\<rparr>) (ox_probe ox),
     rd_background = on_outside (ox_background ox),
     rd_deadline = (\<lambda>s. ox_deadline ox (sv_out s)),
     rd_now = (\<lambda>s. ox_now ox (sv_out s)),
     rd_timeout = timeout,
     rd_outcome = ro\<rparr>"

definition holds_lock :: "('v, 'x) service \<Rightarrow> string \<Rightarrow> bool" where
  "holds_lock s sp \<longleftrightarrow> holds_locally (sv_locker s) sp"

text \<open>The index of the job store points into the job documents only.\<close>

definition index_in_jobs :: "('v, 'x) service \<Rightarrow> bool" where
  "index_in_jobs s \<longleftrightarrow> (\<forall>i k. js_index (lk_jobs (sv_locker s)) i = Some k \<longrightarrow> has_segment_prefix k jobs_prefix)"

text \<open>The document the store keeps for the job is terminal.\<close>

definition closed_job :: "'v service_stores \<Rightarrow> ('v, 'x) service \<Rightarrow> string \<Rightarrow> bool" where
  "closed_job st s i \<longleftrightarrow> (\<exists>k j. js_index (lk_jobs (sv_locker s)) i = Some k \<and>
     doc_at (vs_jobs st) (backend_view (js_backend (lk_jobs (sv_locker s)))) k = Some j \<and> terminal (job_state j))"

lemma quiet_on_backend: "quiet holds_lock index_in_jobs (on_backend f)"
  by (auto simp: quiet_def on_backend_def holds_lock_def holds_locally_def index_in_jobs_def split: prod.splits)

lemma quiet_on_outside: "quiet holds_lock index_in_jobs (on_outside f)"
  by (auto simp: quiet_def on_outside_def holds_lock_def holds_locally_def index_in_jobs_def split: prod.splits)

subsection \<open>What the durable job store and lock do to it\<close>

definition job_docs_of :: "(job \<Rightarrow> 'v option) \<Rightarrow> ('v \<Rightarrow> job option) \<Rightarrow> ('v backend, 'v, job) documents" where
  "job_docs_of enc dec = new_job_docs backend_store enc dec"

lemma key_for_index:
  assumes "key_for (new_job_docs backend_store enc dec) i m = (r, m')"
    and inv: "\<forall>i k. js_index m i = Some k \<longrightarrow> has_segment_prefix k jobs_prefix"
  shows "(\<forall>i k. js_index m' i = Some k \<longrightarrow> has_segment_prefix k jobs_prefix) \<and> (\<forall>k. r = Inr k \<longrightarrow> js_index m' i = Some k)"
proof (cases "js_index m i = None \<and> \<not> js_indexed m")
  case False
  then show ?thesis using assms by (auto simp: key_for_def split: option.splits if_splits)
next
  case True
  let ?d = "new_job_docs backend_store enc dec"
  obtain q m1 where l: "on_docs (docs_keys ?d []) m = (q, m1)" by fastforce
  note same = on_docs_caches [OF l]
  show ?thesis
  proof (cases q)
    case (Inl e)
    then show ?thesis using assms True l same by (auto simp: key_for_def)
  next
    case (Inr keys)
    have "store_list backend_store jobs_prefix (js_backend m) = (Inr keys, js_backend m1)"
      using on_docs_backend [OF l] Inr by (simp add: docs_keys_def new_job_docs_def new_documents_def)
    then have "has_segment_prefix k jobs_prefix" if "k \<in> set keys" for k
      using backend.list_set that by blast
    then have "has_segment_prefix k jobs_prefix" if "index_keys keys (js_index m1) j = Some k" for j k
      using index_keys_named [OF that] inv same by metis
    then show ?thesis using assms(1) True l Inr same by (auto simp: key_for_def Let_def split: option.splits)
  qed
qed

lemma job_finish_index:
  assumes rev: "reversible enc dec" and inv: "\<forall>i k. js_index m i = Some k \<longrightarrow> has_segment_prefix k jobs_prefix"
    and f: "job_finish (new_job_docs backend_store enc dec) i out now m = (r, m')"
  shows "(\<forall>i k. js_index m' i = Some k \<longrightarrow> has_segment_prefix k jobs_prefix) \<and>
    (\<forall>u. r = Inr u \<longrightarrow> (\<exists>k j. js_index m' i = Some k \<and>
       doc_at (new_job_docs backend_store enc dec) (backend_view (js_backend m')) k = Some j \<and> terminal (job_state j)))"
proof (cases "terminal (out_state out)")
  case False
  then show ?thesis using f inv by (auto simp: job_finish_def)
next
  case settles: True
  let ?d = "new_job_docs backend_store enc dec"
  obtain q m1 where k: "key_for ?d i m = (q, m1)" by fastforce
  note idx = key_for_index [OF k inv]
  show ?thesis
  proof (cases q)
    case (Inl e)
    then show ?thesis using settles f k idx by (auto simp: job_finish_def)
  next
    case (Inr key)
    obtain g m2 where g: "on_docs (docs_get_key ?d key) m1 = (g, m2)" by fastforce
    note same2 = on_docs_caches [OF g]
    show ?thesis
    proof (cases g)
      case (Inl e)
      then show ?thesis using settles f k Inr g same2 idx by (auto simp: job_finish_def forget_def split: if_splits)
    next
      case j: (Inr j)
      obtain u m3 where w: "on_docs (docs_replace_key ?d key (apply_outcome j out now)) m2 = (u, m3)" by fastforce
      note same3 = on_docs_caches [OF w]
      show ?thesis
      proof (cases u)
        case (Inl e)
        then show ?thesis using settles f k Inr g j w same2 same3 idx by (auto simp: job_finish_def)
      next
        case wrote: (Inr v)
        have m': "m' = mark_settled key m3" "r = Inr ()"
          using settles f k Inr g j w wrote by (auto simp: job_finish_def)
        obtain raw where raw: "enc (apply_outcome j out now) = Some raw"
            "backend_view (js_backend m3) = (backend_view (js_backend m2))(key \<mapsto> raw)"
          using collection.docs_replace_key_ok [OF collection_new [OF backend.kv_store_axioms rev, of jobs_prefix]]
            on_docs_backend [OF w] wrote
          by (fastforce simp: new_job_docs_def new_documents_def)
        have "doc_at ?d (backend_view (js_backend m3)) key = Some (apply_outcome j out now)"
          using raw rev by (simp add: doc_at_def new_job_docs_def new_documents_def reversible_def)
        moreover have "terminal (job_state (apply_outcome j out now))"
          using settles by (simp add: apply_outcome_def Let_def)
        moreover have "js_index m3 i = Some key" using idx Inr same2 same3 by simp
        ultimately show ?thesis using m' idx same2 same3 by (auto simp: mark_settled_def)
      qed
    qed
  qed
qed

lemma job_create_index:
  assumes "\<forall>i k. js_index m i = Some k \<longrightarrow> has_segment_prefix k jobs_prefix"
    "job_create (new_job_docs backend_store enc dec) j now new_id m = (r, m')"
  shows "\<forall>i k. js_index m' i = Some k \<longrightarrow> has_segment_prefix k jobs_prefix"
proof -
  have "has_segment_prefix (docs_key (new_job_docs backend_store enc dec) ids) jobs_prefix" for ids
    by (simp add: has_segment_prefix_iff jobs_prefix_def docs_key_def new_job_docs_def new_documents_def)
  then show ?thesis
    using assms
    by (auto simp: job_create_def Let_def remember_def split: sum.splits prod.splits if_splits dest!: on_docs_caches)
qed

lemma lock_acquire_index:
  "lock_acquire ld opts sp now l = (r, l') \<Longrightarrow> js_index (lk_jobs l') = js_index (lk_jobs l)"
  by (auto simp: lock_acquire_def lease_write_def reserve_def undo_reserve_def on_jobs_def Let_def
      split: if_splits prod.splits sum.splits option.splits dest!: on_docs_caches)

lemma lock_release_keeps:
  fixes lenc :: "lease \<Rightarrow> 'v option"
  shows "js_index (lk_jobs (lock_release (new_lease_docs backend_store lenc ldec) sp l)) = js_index (lk_jobs l) \<and>
    lk_local (lock_release (new_lease_docs backend_store lenc ldec) sp l) = (lk_local l)(sp := None) \<and>
    (\<forall>k. has_segment_prefix k jobs_prefix \<longrightarrow>
       backend_view (js_backend (lk_jobs (lock_release (new_lease_docs backend_store lenc ldec) sp l))) k =
       backend_view (js_backend (lk_jobs l)) k)"
proof -
  let ?ld = "new_lease_docs backend_store lenc ldec"
  let ?l = "l\<lparr>lk_local := (lk_local l)(sp := None)\<rparr>"
  obtain q m where del: "on_docs (docs_delete ?ld [sp]) (lk_jobs ?l) = (q, m)" by fastforce
  note same = on_docs_caches [OF del] on_docs_backend [OF del]
  have "store_delete backend_store (docs_key ?ld [sp]) (js_backend (lk_jobs l)) = (q, js_backend m)"
    using same(2) by (simp add: docs_delete_def docs_delete_key_def)
  moreover have "k \<noteq> docs_key ?ld [sp]" if "has_segment_prefix k jobs_prefix" for k
    using prefixes_differ [OF that] has_segment_prefix_iff [of lease_prefix k]
    by (auto simp: lease_prefix_def docs_key_def)
  ultimately have "backend_view (js_backend m) k = backend_view (js_backend (lk_jobs l)) k" if "has_segment_prefix k jobs_prefix" for k
    using backend.delete_others that by metis
  then show ?thesis using del same by (simp add: lock_release_def on_jobs_def)
qed

lemma service_run_contract:
  assumes rev: "reversible jenc jdec" "reversible lenc ldec"
    and st: "vs_jobs st = new_job_docs backend_store jenc jdec" "vs_leases st = new_lease_docs backend_store lenc ldec"
  shows "run_services (wire_runner st ox opts opener unwrap timeout ro) holds_lock (closed_job st) index_in_jobs"
proof (unfold_locales, goal_cases)
  case (1 sp w u w')
  then obtain stop l' where a: "lock_acquire (vs_leases st) opts sp (ox_now ox (sv_out w)) (sv_locker w) = (Inr stop, l')" "w' = w\<lparr>sv_locker := l'\<rparr>"
    by (auto simp: wire_runner_def on_locker_def split: prod.splits sum.splits) (metis Inr_inject isl_map_sum map_sum.simps obj_sumE sum.disc(2) sum.distinct(1))
  then show ?case
    using run_locks.lock_acquire_outcome [OF service_locks [OF rev] a(1) [unfolded st(2)]]
    by (auto simp: holds_lock_def holds_locally_def fun_eq_iff)
next
  case (2 sp w e w')
  then obtain e' l' where a: "lock_acquire (vs_leases st) opts sp (ox_now ox (sv_out w)) (sv_locker w) = (Inl e', l')" "w' = w\<lparr>sv_locker := l'\<rparr>"
    by (auto simp: wire_runner_def on_locker_def split: prod.splits sum.splits) (metis map_sum.simps(2) obj_sumE sum.distinct(1))
  then show ?case
    using run_locks.lock_acquire_outcome [OF service_locks [OF rev] a(1) [unfolded st(2)]]
    by (auto simp: holds_lock_def holds_locally_def fun_eq_iff)
next
  case (3 w sp)
  then show ?case
    by (auto simp: wire_runner_def on_locker_def index_in_jobs_def split: prod.splits dest!: lock_acquire_index)
next
  case (4 sp w)
  then show ?case
    using lock_release_keeps [of lenc ldec sp "sv_locker w"]
    by (auto simp: wire_runner_def holds_lock_def holds_locally_def st fun_eq_iff)
next
  case (5 w i sp)
  then show ?case
    using lock_release_keeps [of lenc ldec sp "sv_locker w"]
    by (fastforce simp: wire_runner_def closed_job_def st doc_at_def index_in_jobs_def)
next
  case (6 w sp)
  then show ?case
    using lock_release_keeps [of lenc ldec sp "sv_locker w"] by (simp add: wire_runner_def index_in_jobs_def st)
next
  case (7 w i out t u w')
  then obtain m where "job_finish (new_job_docs backend_store jenc jdec) i out (ox_now ox (sv_out w)) (lk_jobs (sv_locker w)) = (Inr u, m)"
      "w' = w\<lparr>sv_locker := (sv_locker w)\<lparr>lk_jobs := m\<rparr>\<rparr>"
    by (auto simp: wire_runner_def on_locker_def on_jobs_def st split: prod.splits)
  then show ?case
    using job_finish_index [OF rev(1)] 7(1) by (auto simp: closed_job_def index_in_jobs_def st)
next
  case (8 i out t)
  then show ?case
    by (auto simp: quiet_def wire_runner_def on_locker_def on_jobs_def holds_lock_def holds_locally_def index_in_jobs_def st
        split: prod.splits dest!: job_finish_index [OF rev(1), rotated])
next
  case (9 j)
  then show ?case
    by (auto simp: quiet_def wire_runner_def on_locker_def on_jobs_def holds_lock_def holds_locally_def index_in_jobs_def st
        split: prod.splits dest: job_create_index)
next
  case 10 then show ?case by (simp add: wire_runner_def quiet_on_outside)
next
  case (11 sp) then show ?case by (simp add: wire_runner_def quiet_on_backend)
next
  case (12 tid) then show ?case by (simp add: wire_runner_def quiet_on_backend)
next
  case (13 sp) then show ?case by (simp add: wire_runner_def quiet_on_backend)
next
  case (14 sp) then show ?case by (simp add: wire_runner_def quiet_on_backend)
next
  case (15 rp space) then show ?case by (simp add: wire_runner_def quiet_on_outside)
next
  case (16 rp win) then show ?case by (simp add: wire_runner_def quiet_on_outside)
next
  case (17 pub s3 p sp b) then show ?case by (auto simp: wire_runner_def quiet_on_outside)
next
  case (18 probe s3 w) then show ?case by (auto simp: wire_runner_def holds_lock_def holds_locally_def index_in_jobs_def)
qed

text \<open>The runner over the documents of the lock theory, whatever the other stores and the outside are.\<close>

definition lock_stores ::
    "(lock_doc backend, lock_doc, space_config) versions \<Rightarrow> (lock_doc backend, lock_doc) target_store \<Rightarrow>
     (lock_doc backend, lock_doc) key_store \<Rightarrow> lock_doc service_stores" where
  "lock_stores cfg ts ks = \<lparr>vs_jobs = lock_job_docs, vs_leases = lock_lease_docs, vs_config = cfg, vs_targets = ts, vs_keys = ks\<rparr>"

interpretation durable_runs: run_services "wire_runner (lock_stores cfg ts ks) ox opts opener unwrap timeout ro" holds_lock
    "closed_job (lock_stores cfg ts ks)" index_in_jobs for cfg ts ks ox opts opener unwrap timeout ro
  by (rule service_run_contract [OF lock_docs_reversible]) (simp_all add: lock_stores_def lock_job_docs_def lock_lease_docs_def)

subsection \<open>A run's lock and record\<close>

text \<open>C7: a run gives its Space's lock back only over a closed job record. A run that is not accepted leaves
  the locks as they were; an accepted backup or prune, however it ends and whichever store operation
  fails, leaves the record of its job terminal or keeps the Space's lock, and never touches
  the lock of another Space.\<close>

theorem lock_returned_over_closed_record:
  assumes "reversible jenc jdec" "reversible lenc ldec"
    and "vs_jobs st = new_job_docs backend_store jenc jdec" "vs_leases st = new_lease_docs backend_store lenc ldec"
    and "index_in_jobs w"
    and "run_begin (wire_runner st ox opts opener unwrap timeout ro) sp kind trigger w = (r, w1)"
  shows "case r of
      Inl e \<Rightarrow> holds_lock w1 = holds_lock w
    | Inr p \<Rightarrow> \<not> holds_lock w sp \<and> holds_lock w1 sp \<and>
        (\<forall>w2. w2 = snd (finish_run (wire_runner st ox opts opener unwrap timeout ro) p w1) \<or>
              w2 = snd (finish_prune (wire_runner st ox opts opener unwrap timeout ro) p w1) \<longrightarrow>
          (holds_lock w2 sp \<or> closed_job st w2 (job_id (pn_job p))) \<and>
          (\<forall>i. i \<noteq> sp \<longrightarrow> holds_lock w2 i = holds_lock w i))"
proof -
  note contract = service_run_contract [OF assms(1-4), of ox opts opener unwrap timeout ro]
  note begun = run_services.begin_holds [OF contract assms(6)]
  show ?thesis
  proof (cases r)
    case (Inl e)
    then show ?thesis using begun by simp
  next
    case (Inr p)
    then have p: "sp_id (pn_space p) = sp" "\<not> holds_lock w sp" "holds_lock w1 = (holds_lock w)(sp := True)" "index_in_jobs w1"
      using begun assms(5) by auto
    then have "holds_lock w1 (sp_id (pn_space p))" by simp
    note run = run_services.finish_run_settles [OF contract p(4) this surjective_pairing]
      run_services.finish_prune_settles [OF contract p(4) this surjective_pairing]
    show ?thesis using Inr p run by auto
  qed
qed

subsection \<open>A run that cannot record its outcome\<close>

text \<open>What the process may do to the locker besides the release the run itself owes: acquire any Space,
  release others, renew leases, recover, and whatever the stores and other processes do to the documents.\<close>

inductive lock_use :: "('v backend, 'v, lease) documents \<Rightarrow> ('v backend, 'v, job) documents \<Rightarrow> lease_options \<Rightarrow> string \<Rightarrow>
    'v backend locker \<Rightarrow> 'v backend locker \<Rightarrow> bool" for ld d opts sp where
  use_acquire: "lock_acquire ld opts i now l = (r, l') \<Longrightarrow> lock_use ld d opts sp l l'"
| use_release: "i \<noteq> sp \<Longrightarrow> lock_use ld d opts sp l (lock_release ld i l)"
| use_renew: "lease_write ld opts i now l = (r, l') \<Longrightarrow> lock_use ld d opts sp l l'"
| use_recover: "lock_recover ld opts (Some d) now l = (r, l') \<Longrightarrow> lock_use ld d opts sp l l'"
| use_stores: "lock_use ld d opts sp l (l\<lparr>lk_jobs := m\<rparr>)"

lemma on_jobs_local: "on_jobs f l = (r, l') \<Longrightarrow> lk_local l' = lk_local l"
  by (auto simp: on_jobs_def split: prod.splits)

lemma finish_all_local: "finish_all d now js n l = (r, l') \<Longrightarrow> lk_local l' = lk_local l"
proof (induction js arbitrary: n l)
  case (Cons j js)
  then show ?case
    by (fastforce split: if_splits prod.splits sum.splits dest: on_jobs_local)
qed simp

lemma fail_abandoned_local: "fail_abandoned st sp now l = (r, l') \<Longrightarrow> lk_local l' = lk_local l"
  by (auto simp: fail_abandoned_def split: option.splits prod.splits sum.splits dest!: on_jobs_local finish_all_local)

lemma recover_leases_local: "recover_leases ld st now keys n l = (r, l') \<Longrightarrow> lk_local l' = lk_local l"
proof (induction keys arbitrary: n l)
  case (Cons k keys)
  obtain q l1 where g: "on_jobs (on_docs (docs_get_key ld k)) l = (q, l1)" by fastforce
  show ?case
  proof (cases q)
    case (Inl e)
    then show ?thesis using Cons g on_jobs_local [OF g] by auto
  next
    case (Inr rec)
    obtain u l2 where f: "fail_abandoned st (lease_space rec) now l1 = (u, l2)" by fastforce
    obtain v l3 where d: "on_jobs (on_docs (docs_delete_key ld k)) l2 = (v, l3)" by fastforce
    have same: "lk_local l1 = lk_local l" "lk_local l2 = lk_local l" "lk_local l3 = lk_local l"
      using on_jobs_local [OF g] fail_abandoned_local [OF f] on_jobs_local [OF d] by simp_all
    show ?thesis
    proof (cases "now < lease_expires rec \<or> holds_locally l1 (lease_space rec)")
      case True
      then show ?thesis using Cons g Inr same by auto
    next
      case False
      then show ?thesis
        using Cons.prems Cons.IH [of _ l3] g Inr f d same
        by (cases u; cases v) (auto split: if_splits)
    qed
  qed
qed simp

lemma close_orphans_local: "close_orphans ld d now js n l = (r, l') \<Longrightarrow> lk_local l' = lk_local l"
proof (induction js arbitrary: n l)
  case (Cons j js)
  obtain q l1 where g: "lease_live ld (job_space j) now l = (q, l1)" by fastforce
  obtain u l2 where f: "on_jobs (job_finish d (job_id j) interrupted now) l1 = (u, l2)" by fastforce
  have "lk_local l1 = lk_local l"
    using g by (auto simp: lease_live_def split: prod.splits sum.splits if_splits dest!: on_jobs_local)
  then show ?case
    using Cons.prems Cons.IH g f on_jobs_local [OF f] by (cases q; cases u) (auto split: if_splits)
qed simp

lemma lock_recover_local:
  assumes "lock_recover ld opts st now l = (r, l')" shows "lk_local l' = lk_local l"
proof -
  have expired: "recover_expired ld st now l = (q, l1) \<Longrightarrow> lk_local l1 = lk_local l" for q l l1
    by (auto simp: recover_expired_def split: prod.splits sum.splits dest!: on_jobs_local recover_leases_local)
  have orphans: "recover_orphans ld opts st now l = (q, l1) \<Longrightarrow> lk_local l1 = lk_local l" for q l l1
    by (auto simp: recover_orphans_def orphan_sweep_due_def split: option.splits prod.splits sum.splits if_splits bool.splits
        dest!: on_jobs_local close_orphans_local)
  obtain q l1 where e: "recover_expired ld st now l = (q, l1)" by fastforce
  obtain q2 l2 where o: "recover_orphans ld opts st now l1 = (q2, l2)" by fastforce
  show ?thesis
    using assms e o expired [OF e] orphans [OF o] by (cases q; cases q2) (auto simp: lock_recover_def)
qed

lemma lease_write_local: "lease_write ld opts i now l = (r, l') \<Longrightarrow> lk_local l' = lk_local l"
  by (auto simp: lease_write_def split: prod.splits sum.splits dest!: on_jobs_local)

lemma lock_release_local: "lk_local (lock_release ld i l) = (lk_local l)(i := None)"
proof -
  obtain q l1 where r: "on_jobs (on_docs (docs_delete ld [i])) (l\<lparr>lk_local := (lk_local l)(i := None)\<rparr>) = (q, l1)" by fastforce
  from on_jobs_local [OF r] r show ?thesis by (simp add: lock_release_def)
qed

lemma acquire_keeps_hold:
  assumes "lock_acquire ld opts i now l = (r, l')" "lk_local l sp \<noteq> None"
  shows "lk_local l' sp \<noteq> None"
  using assms
  by (auto simp: lock_acquire_def reserve_def undo_reserve_def Let_def split: if_splits prod.splits sum.splits
      dest!: on_jobs_local lease_write_local)

lemma use_keeps_hold: "lock_use ld d opts sp l l' \<Longrightarrow> lk_local l sp \<noteq> None \<Longrightarrow> lk_local l' sp \<noteq> None"
proof (induction rule: lock_use.induct)
  case (use_acquire i now l r l')
  then show ?case by (rule acquire_keeps_hold)
next
  case (use_release i l)
  then show ?case by (simp add: lock_release_local)
next
  case (use_renew i now l r l')
  then show ?case by (simp add: lease_write_local)
next
  case (use_recover now l r l')
  then show ?case by (simp add: lock_recover_local)
qed simp

text \<open>C12: an outcome that cannot be recorded wedges its Space. If no attempt to write a run's outcome succeeds,
  the run keeps its lock so that the lease expires and recovery frees the Space; but the hold in the
  process never goes away. Whatever happens afterwards, at whatever time, short of a release by
  that run, which has ended (acquires, releases of other Spaces, renewals, recoveries, any change
  of the stored documents), every acquire of the Space is refused and it counts as busy.\<close>

theorem unrecorded_outcome_wedges_space:
  assumes "reversible jenc jdec" "reversible lenc ldec"
    and "vs_jobs st = new_job_docs backend_store jenc jdec" "vs_leases st = new_lease_docs backend_store lenc ldec"
    and "sp_id (pn_space p) \<noteq> []" "holds_lock w (sp_id (pn_space p))"
    and "fst (record_outcome (rd_finish (wire_runner st ox opts opener unwrap timeout ro) (job_id (pn_job p)) out) ro w) = Inl e"
    and "(lock_use (vs_leases st) (vs_jobs st) opts (sp_id (pn_space p)))\<^sup>*\<^sup>*
      (sv_locker (settle (wire_runner st ox opts opener unwrap timeout ro) p out w)) l"
  shows "lock_acquire (vs_leases st) opts (sp_id (pn_space p)) now l = (Inl ErrLocked, l) \<and>
    lock_busy (vs_leases st) (sp_id (pn_space p)) now l = (Inr True, l)"
proof -
  let ?d = "wire_runner st ox opts opener unwrap timeout ro"
  note contract = service_run_contract [OF assms(1-4), of ox opts opener unwrap timeout ro]
  have ro: "rd_outcome ?d = ro" by (simp add: wire_runner_def)
  obtain spent w1 where r: "record_outcome (rd_finish ?d (job_id (pn_job p)) out) (rd_outcome ?d) w = (Inl e, spent, w1)"
    using assms(7) unfolding ro by (metis prod.collapse)
  then have "settle ?d p out w = w1" by (simp add: settle_def)
  moreover have "holds_lock w1 = holds_lock w" by (rule run_services.record_outcome_runs(1) [OF contract r])
  ultimately have "holds_lock (settle ?d p out w) (sp_id (pn_space p))" using assms(6) by simp
  then have start: "lk_local (sv_locker (settle ?d p out w)) (sp_id (pn_space p)) \<noteq> None"
    by (simp add: holds_lock_def holds_locally_def)
  have "lk_local l (sp_id (pn_space p)) \<noteq> None"
    using assms(8) start by (induction rule: rtranclp_induct) (auto dest: use_keeps_hold)
  then show ?thesis
    using assms(5) by (simp add: lock_acquire_def reserve_def lock_busy_def holds_locally_def)
qed

subsection \<open>Which credentials a run holds\<close>

text \<open>The same service with other credentials sealed for one of the roles.\<close>

definition with_maintenance :: "plain_creds \<Rightarrow> 'w run_deps \<Rightarrow> 'w run_deps" where
  "with_maintenance m d = d\<lparr>rd_open := (\<lambda>b. map_sum id (\<lambda>cs. cs\<lparr>cs_maintenance := m\<rparr>) (rd_open d b))\<rparr>"

definition with_backup :: "plain_creds \<Rightarrow> 'w run_deps \<Rightarrow> 'w run_deps" where
  "with_backup c d = d\<lparr>rd_open := (\<lambda>b. map_sum id (\<lambda>cs. cs\<lparr>cs_backup := c\<rparr>) (rd_open d b))\<rparr>"

lemma with_fields [simp]:
  "rd_config (with_maintenance m d) = rd_config d" "rd_config (with_backup c d) = rd_config d"
  "rd_target (with_maintenance m d) = rd_target d" "rd_target (with_backup c d) = rd_target d"
  "rd_rk (with_maintenance m d) = rd_rk d" "rd_rk (with_backup c d) = rd_rk d"
  "rd_srw (with_maintenance m d) = rd_srw d" "rd_srw (with_backup c d) = rd_srw d"
  "rd_unwrap (with_maintenance m d) = rd_unwrap d" "rd_unwrap (with_backup c d) = rd_unwrap d"
  "rd_snapshot (with_maintenance m d) = rd_snapshot d" "rd_snapshot (with_backup c d) = rd_snapshot d"
  "rd_prune (with_maintenance m d) = rd_prune d" "rd_prune (with_backup c d) = rd_prune d"
  "rd_release (with_maintenance m d) = rd_release d" "rd_release (with_backup c d) = rd_release d"
  "rd_finish (with_maintenance m d) = rd_finish d" "rd_finish (with_backup c d) = rd_finish d"
  "rd_publish (with_maintenance m d) = rd_publish d" "rd_publish (with_backup c d) = rd_publish d"
  "rd_probe (with_maintenance m d) = rd_probe d" "rd_probe (with_backup c d) = rd_probe d"
  "rd_deadline (with_maintenance m d) = rd_deadline d" "rd_deadline (with_backup c d) = rd_deadline d"
  "rd_now (with_maintenance m d) = rd_now d" "rd_now (with_backup c d) = rd_now d"
  "rd_outcome (with_maintenance m d) = rd_outcome d" "rd_outcome (with_backup c d) = rd_outcome d"
  by (simp_all add: with_maintenance_def with_backup_def)

lemma settle_with [simp]:
  "settle (with_maintenance m d) = settle d" "settle (with_backup c d) = settle d"
  unfolding fun_eq_iff settle_def with_fields by simp_all

lemma run_fail_with [simp]:
  "run_fail (with_maintenance m d) = run_fail d" "run_fail (with_backup c d) = run_fail d"
  unfolding fun_eq_iff run_fail_def with_fields settle_with by simp_all

lemma open_repo_with:
  "open_repo (with_maintenance m d) sp RoleBackup = open_repo d sp RoleBackup"
  "(\<And>b cs. rd_open d b = Inr cs \<Longrightarrow> creds_complete (cs_maintenance cs)) \<Longrightarrow>
    open_repo (with_backup c d) sp RoleMaintenance = open_repo d sp RoleMaintenance"
proof -
  have "resolve_target (with_maintenance m d) tid RoleBackup = resolve_target d tid RoleBackup" for tid
    unfolding resolve_target_def with_maintenance_def try_op_def
    by (auto simp: fun_eq_iff creds_for_def split: sum.splits prod.splits)
  then show "open_repo (with_maintenance m d) sp RoleBackup = open_repo d sp RoleBackup"
    by (simp add: open_repo_def unwrap_data_key_def)
  assume *: "\<And>b cs. rd_open d b = Inr cs \<Longrightarrow> creds_complete (cs_maintenance cs)"
  have "resolve_target (with_backup c d) tid RoleMaintenance = resolve_target d tid RoleMaintenance" for tid
    unfolding resolve_target_def with_backup_def try_op_def
    by (auto simp: fun_eq_iff creds_for_def * split: sum.splits prod.splits)
  then show "open_repo (with_backup c d) sp RoleMaintenance = open_repo d sp RoleMaintenance"
    by (simp add: open_repo_def unwrap_data_key_def)
qed

lemma publish_with [simp]: "publish_envelopes (with_maintenance m d) = publish_envelopes d"
  unfolding fun_eq_iff publish_envelopes_def publish_envelope_def with_fields by simp

text \<open>C29: a run never holds the other role's credential. A backup behaves the same, in its result and in everything
  it does to the world, whatever maintenance credential is sealed with the target; and a prune, when
  every target has a maintenance pair of its own, whatever the backup credential is.\<close>

theorem roles_do_not_mix:
  "finish_run (with_maintenance m d) p w = finish_run d p w \<and>
   ((\<forall>b cs. rd_open d b = Inr cs \<longrightarrow> creds_complete (cs_maintenance cs)) \<longrightarrow>
     finish_prune (with_backup c d) p w = finish_prune d p w)"
proof -
  have "snapshot_space (with_maintenance m d) sp = snapshot_space d sp" for sp
    unfolding snapshot_space_def open_repo_with(1) with_fields publish_with ..
  then have "finish_run (with_maintenance m d) p w = finish_run d p w"
    unfolding finish_run_def run_fail_with settle_with with_fields by simp
  moreover have "finish_prune (with_backup c d) p w = finish_prune d p w"
    if "\<forall>b cs. rd_open d b = Inr cs \<longrightarrow> creds_complete (cs_maintenance cs)"
  proof -
    have "prune_space (with_backup c d) sp = prune_space d sp" for sp
      using open_repo_with(2) [of d c "sp_id sp"] that
      unfolding prune_space_def observe_immutability_def with_fields by simp
    then show ?thesis unfolding finish_prune_def run_fail_with settle_with with_fields by simp
  qed
  ultimately show ?thesis by blast
qed

subsection \<open>A sample service\<close>

definition sample_outside :: "nat outside" where
  "sample_outside = \<lparr>ox_spaces = (\<lambda>x. (Inr [sample_space], x)),
     ox_snapshot = (\<lambda>rp sp x. (Inr \<lparr>si_id = ''s1'', si_start = 7, si_files = 2, si_bytes = 9\<rparr>, x + 1)),
     ox_prune = (\<lambda>rp win x. (Inr \<lparr>ps_deleted = 1, ps_kept = 2\<rparr>, x + 1)),
     ox_publish = None, ox_probe = None, ox_background = (\<lambda>x. (Inr (), x)), ox_deadline = (\<lambda>_. False),
     ox_now = (\<lambda>_. 7), ox_new_id = (\<lambda>_. Some ''j1'')\<rparr>"

definition sample_stores :: "lock_doc service_stores" where
  "sample_stores = lock_stores (new_versions backend_store config_prefix (\<lambda>_. None) (\<lambda>_. None))
     (new_target_store backend_store (\<lambda>_. None) (\<lambda>_. None) (\<lambda>_. None) (\<lambda>_. None))
     (new_key_store backend_store (\<lambda>_. None) (\<lambda>_. None) (\<lambda>_. None) (\<lambda>_. None))"

definition sample_runner :: "(lock_doc, nat) service run_deps" where
  "sample_runner = wire_runner sample_stores sample_outside sample_options (\<lambda>_. Inl CannotOpenCreds) (\<lambda>_. Inl CannotUnwrap)
     0 \<lparr>ro_attempts = 0, ro_timeout = 0, ro_backoff = 0\<rparr>"

definition sample_service :: "fault list \<Rightarrow> (lock_doc, nat) service" where
  "sample_service fs = \<lparr>sv_locker = new_locker \<lparr>contents = [], faults = fs\<rparr> 0, sv_out = 0\<rparr>"

lemma sample_stores_docs:
  "vs_jobs sample_stores = new_job_docs backend_store (\<lambda>j. Some (JobDoc j)) dec_job_doc"
  "vs_leases sample_stores = new_lease_docs backend_store (\<lambda>r. Some (LeaseDoc r)) dec_lease_doc"
  by (simp_all add: sample_stores_def lock_stores_def lock_job_docs_def lock_lease_docs_def)

lemma sample_index: "index_in_jobs (sample_service fs)"
  by (simp add: index_in_jobs_def sample_service_def new_locker_def new_job_store_def)

text \<open>A run begun in a sample service, and the state of its lock afterwards.\<close>

definition sample_begin :: "fault list \<Rightarrow> (run_error + pending) \<times> (lock_doc, nat) service" where
  "sample_begin fs = run_begin sample_runner ''a'' kind_backup trigger_schedule (sample_service fs)"

theorem lock_returned_over_closed_record_witness:
  "\<exists>p w1. sample_begin [] = (Inr p, w1) \<and> holds_lock w1 ''a'' \<and>
     closed_job sample_stores (snd (finish_run sample_runner p w1)) (job_id (pn_job p))"
proof -
  have "case sample_begin [] of (Inl _, _) \<Rightarrow> False | (Inr p, w1) \<Rightarrow> \<not> holds_lock (snd (finish_run sample_runner p w1)) ''a''"
    by code_simp
  then obtain p w1 where run: "sample_begin [] = (Inr p, w1)" "\<not> holds_lock (snd (finish_run sample_runner p w1)) ''a''"
    by (cases "sample_begin []") (auto split: sum.splits)
  show ?thesis
    using lock_returned_over_closed_record [OF lock_docs_reversible sample_stores_docs sample_index
        run(1) [unfolded sample_begin_def sample_runner_def]] run
    by (auto simp: sample_runner_def)
qed

text \<open>A store that fails every write once the run has begun; the outcome the run tries to record.\<close>

definition sample_failed :: outcome where
  "sample_failed = no_outcome\<lparr>out_state := state_failed, out_error := ''the backup run failed''\<rparr>"

theorem unrecorded_outcome_wedges_space_witness:
  "\<exists>p w1 l. sample_begin (replicate 3 Works @ replicate 9 FailsBefore) = (Inr p, w1) \<and>
     l = lock_release (vs_leases sample_stores) ''b'' (sv_locker (settle sample_runner p sample_failed w1)) \<and>
     lock_acquire (vs_leases sample_stores) sample_options ''a'' (100 * hour) l = (Inl ErrLocked, l)"
proof -
  let ?ro = "\<lparr>ro_attempts = 0, ro_timeout = 0, ro_backoff = 0\<rparr>"
  let ?fs = "replicate 3 Works @ replicate 9 FailsBefore"
  have "case sample_begin ?fs of
      (Inl _, _) \<Rightarrow> False
    | (Inr p, w1) \<Rightarrow> sp_id (pn_space p) = ''a'' \<and> holds_lock w1 ''a'' \<and>
        isl (fst (record_outcome (rd_finish sample_runner (job_id (pn_job p)) sample_failed) ?ro w1))"
    by code_simp
  then obtain p w1 e where run: "sample_begin ?fs = (Inr p, w1)" "sp_id (pn_space p) = ''a''" "holds_lock w1 ''a''"
      "fst (record_outcome (rd_finish sample_runner (job_id (pn_job p)) sample_failed) ?ro w1) = Inl e"
    by (cases "sample_begin ?fs") (auto split: sum.splits simp: isl_def)
  let ?l = "lock_release (vs_leases sample_stores) ''b'' (sv_locker (settle sample_runner p sample_failed w1))"
  have "(lock_use (vs_leases sample_stores) (vs_jobs sample_stores) sample_options ''a'')\<^sup>*\<^sup>*
      (sv_locker (settle sample_runner p sample_failed w1)) ?l"
    by (intro r_into_rtranclp use_release) simp
  then have "lock_acquire (vs_leases sample_stores) sample_options ''a'' (100 * hour) ?l = (Inl ErrLocked, ?l)"
    using unrecorded_outcome_wedges_space [OF lock_docs_reversible sample_stores_docs, of p w1] run
    by (simp add: sample_runner_def)
  then show ?thesis using run(1) by blast
qed

text \<open>An opener whose credentials have a complete pair for maintenance.\<close>

theorem roles_do_not_mix_witness:
  "\<exists>d :: (lock_doc, nat) service run_deps. rd_open d [] = Inr \<lparr>cs_backup = \<lparr>pc_id = ''k'', pc_secret = ''s''\<rparr>,
       cs_maintenance = \<lparr>pc_id = ''m'', pc_secret = ''t''\<rparr>\<rparr> \<and>
     (\<forall>p w. finish_prune (with_backup \<lparr>pc_id = ''other'', pc_secret = ''o''\<rparr> d) p w = finish_prune d p w)"
proof -
  let ?cs = "\<lparr>cs_backup = \<lparr>pc_id = ''k'', pc_secret = ''s''\<rparr>, cs_maintenance = \<lparr>pc_id = ''m'', pc_secret = ''t''\<rparr>\<rparr>"
  let ?d = "sample_runner\<lparr>rd_open := \<lambda>_. Inr ?cs\<rparr>"
  have "\<forall>b cs. rd_open ?d b = Inr cs \<longrightarrow> creds_complete (cs_maintenance cs)" by (simp add: creds_complete_def)
  then have "finish_prune (with_backup \<lparr>pc_id = ''other'', pc_secret = ''o''\<rparr> ?d) p w = finish_prune ?d p w" for p w
    by (rule conjunct2 [OF roles_do_not_mix, THEN mp])
  then show ?thesis by (intro exI [of _ ?d]) simp
qed

end
