(* ===== verification/Go_Paths.thy ===== *)
theory Go_Paths
  imports Go_Strings
begin

text \<open>
  The parts of Go's \<open>path\<close> and \<open>path/filepath\<close> packages (on a system whose separator is the slash) the code
  builds and checks names with: \<open>Clean\<close>, \<open>Join\<close> and \<open>IsLocal\<close>.

  Text is taken apart at its separators; a path is \<open>plain\<close> when none of its segments is empty or made of dots,
  which is what a file name is.
\<close>

subsection \<open>Taking a path apart\<close>

text \<open>\<open>strings.Split(s, "/")\<close>.\<close>

fun go_split :: "string \<Rightarrow> string list" where
  "go_split [] = [[]]"
| "go_split (c # cs) = (if c = CHR ''/'' then [] # go_split cs else (case go_split cs of s # ss \<Rightarrow> (c # s) # ss | [] \<Rightarrow> [[c]]))"

text \<open>\<open>Clean\<close> over the segments: what is kept so far, last segment first.\<close>

fun clean_segments :: "bool \<Rightarrow> string list \<Rightarrow> string list \<Rightarrow> string list" where
  "clean_segments rooted kept [] = rev kept"
| "clean_segments rooted kept (s # ss) =
     (if s = [] \<or> s = ''.'' then clean_segments rooted kept ss
      else if s \<noteq> ''..'' then clean_segments rooted (s # kept) ss
      else case kept of
          [] \<Rightarrow> clean_segments rooted (if rooted then [] else [s]) ss
        | k # ks \<Rightarrow> clean_segments rooted (if k = ''..'' then s # kept else ks) ss)"

definition path_clean :: "string \<Rightarrow> string" where
  "path_clean p =
     (let rooted = (p \<noteq> [] \<and> hd p = CHR ''/'');
          body = go_join ''/'' (clean_segments rooted [] (go_split p))
      in if rooted then ''/'' @ body else if body = [] then ''.'' else body)"

definition path_join :: "string list \<Rightarrow> string" where
  "path_join ps = (let ps = filter (\<lambda>p. p \<noteq> []) ps in if ps = [] then [] else path_clean (go_join ''/'' ps))"

text \<open>\<open>filepath.IsLocal\<close>: not absolute, not empty, and not leaving the directory it is resolved in.\<close>

definition path_is_local :: "string \<Rightarrow> bool" where
  "path_is_local p \<longleftrightarrow> p \<noteq> [] \<and> hd p \<noteq> CHR ''/'' \<and>
     (let p = (if ''.'' \<in> set (go_split p) \<or> ''..'' \<in> set (go_split p) then path_clean p else p)
      in p \<noteq> ''..'' \<and> go_cut_prefix ''../'' p = None)"

text \<open>\<open>strings.Trim(s, "/")\<close> and \<open>strings.TrimPrefix\<close>.\<close>

definition trim_slashes :: "string \<Rightarrow> string" where
  "trim_slashes s = (let l = dropWhile (\<lambda>c. c = CHR ''/'') s in rev (dropWhile (\<lambda>c. c = CHR ''/'') (rev l)))"

definition drop_slash :: "string \<Rightarrow> string" where
  "drop_slash s = (case go_cut_prefix ''/'' s of None \<Rightarrow> s | Some r \<Rightarrow> r)"

definition trim_prefix :: "string \<Rightarrow> string \<Rightarrow> string" where
  "trim_prefix p s = (case go_cut_prefix p s of None \<Rightarrow> s | Some r \<Rightarrow> r)"

text \<open>\<open>path.Dir\<close>.\<close>

definition path_dir :: "string \<Rightarrow> string" where
  "path_dir p = path_clean (rev (dropWhile (\<lambda>c. c \<noteq> CHR ''/'') (rev p)))"

subsection \<open>Plain paths\<close>

definition plain_name :: "string \<Rightarrow> bool" where
  "plain_name s \<longleftrightarrow> s \<noteq> [] \<and> s \<noteq> ''.'' \<and> s \<noteq> ''..'' \<and> CHR ''/'' \<notin> set s"

lemma go_split_nonempty [simp]: "go_split s \<noteq> []"
  by (induction s) (auto split: list.splits)

lemma go_split_plain: "CHR ''/'' \<notin> set s \<Longrightarrow> go_split s = [s]"
  by (induction s) auto

lemma go_split_append: "CHR ''/'' \<notin> set s \<Longrightarrow> go_split (s @ CHR ''/'' # t) = s # go_split t"
  by (induction s) auto

lemma go_split_no_slash: "s \<in> set (go_split p) \<Longrightarrow> CHR ''/'' \<notin> set s"
proof (induction p arbitrary: s)
  case (Cons c p)
  show ?case
  proof (cases "go_split p")
    case (Cons t ts)
    then show ?thesis using Cons.prems Cons.IH by (auto split: if_splits)
  qed simp
qed simp

lemma go_join_split: "go_join ''/'' (go_split p) = p"
proof (induction p)
  case (Cons c p)
  obtain s ss where s: "go_split p = s # ss" by (cases "go_split p") auto
  show ?case using Cons.IH s by (cases ss) auto
qed simp

lemma go_split_join:
  "ss \<noteq> [] \<Longrightarrow> \<forall>s\<in>set ss. CHR ''/'' \<notin> set s \<Longrightarrow> go_split (go_join ''/'' ss) = ss"
proof (induction ss)
  case (Cons s ss)
  then show ?case by (cases ss) (auto simp: go_split_plain go_split_append)
qed simp

lemma clean_segments_plain:
  "\<forall>s\<in>set ss. plain_name s \<Longrightarrow> clean_segments rooted kept (ss @ rest) = clean_segments rooted (rev ss @ kept) rest"
  by (induction ss arbitrary: kept) (auto simp: plain_name_def)

lemma go_join_first: "go_join sep (s # ss) = s @ (if ss = [] then [] else sep @ go_join sep ss)"
  by (cases ss) auto

lemma go_join_names:
  assumes "ss \<noteq> []" "\<forall>s\<in>set ss. s \<noteq> [] \<and> CHR ''/'' \<notin> set s"
  shows "go_join ''/'' ss \<noteq> []" "hd (go_join ''/'' ss) \<noteq> CHR ''/''"
proof -
  obtain s ss' where ss: "ss = s # ss'" using assms(1) by (cases ss) auto
  then have "s \<noteq> []" "CHR ''/'' \<notin> set s" using assms(2) by auto
  then show "go_join ''/'' ss \<noteq> []" "hd (go_join ''/'' ss) \<noteq> CHR ''/''"
    unfolding ss go_join_first by (cases s; auto)+
qed

lemma hd_join_plain:
  assumes "ss \<noteq> []" "\<forall>s\<in>set ss. plain_name s"
  shows "go_join ''/'' ss \<noteq> []" "hd (go_join ''/'' ss) \<noteq> CHR ''/''"
  using go_join_names [of ss] assms by (auto simp: plain_name_def)

lemma path_clean_plain:
  assumes "ss \<noteq> []" "\<forall>s\<in>set ss. plain_name s"
  shows "path_clean (go_join ''/'' ss) = go_join ''/'' ss"
proof -
  have "go_split (go_join ''/'' ss) = ss" using assms by (intro go_split_join) (auto simp: plain_name_def)
  then show ?thesis
    using hd_join_plain [OF assms] clean_segments_plain [OF assms(2), of False "[]" "[]"] assms(1)
    by (auto simp: path_clean_def Let_def)
qed

lemma go_join_append: "xs \<noteq> [] \<Longrightarrow> ys \<noteq> [] \<Longrightarrow> go_join sep (xs @ ys) = go_join sep xs @ sep @ go_join sep ys"
proof (induction xs)
  case (Cons x xs)
  then show ?case by (cases "xs = []") (simp_all add: go_join_first)
qed simp

lemma path_join_plain:
  assumes "xs \<noteq> []" "ys \<noteq> []" "\<forall>s\<in>set xs. plain_name s" "\<forall>s\<in>set ys. plain_name s"
  shows "path_join [go_join ''/'' xs, go_join ''/'' ys] = go_join ''/'' (xs @ ys)"
  using hd_join_plain [OF assms(1,3)] hd_join_plain [OF assms(2,4)] path_clean_plain [of "xs @ ys"] assms
  by (auto simp: path_join_def go_join_append)

lemma path_join_empty_plain:
  assumes "ys \<noteq> []" "\<forall>s\<in>set ys. plain_name s"
  shows "path_join [[], go_join ''/'' ys] = go_join ''/'' ys"
  using hd_join_plain [OF assms] path_clean_plain [OF assms] by (simp add: path_join_def)

subsection \<open>Local paths\<close>

text \<open>Cleaning an unrooted path leaves its climbing segments at the front.\<close>

definition climbs_first :: "string list \<Rightarrow> bool" where
  "climbs_first ss \<longleftrightarrow> (\<exists>n rest. ss = replicate n ''..'' @ rest \<and> (\<forall>s\<in>set rest. plain_name s))"

lemma climbs_first_names:
  assumes "climbs_first ss" shows "\<forall>s\<in>set ss. s \<noteq> [] \<and> CHR ''/'' \<notin> set s"
proof
  fix s assume s: "s \<in> set ss"
  obtain n rest where "ss = replicate n ''..'' @ rest" "\<forall>s\<in>set rest. plain_name s"
    using assms by (auto simp: climbs_first_def)
  then have "s = ''..'' \<or> plain_name s" using s by (auto split: if_splits)
  then show "s \<noteq> [] \<and> CHR ''/'' \<notin> set s" by (elim disjE) (simp_all add: plain_name_def)
qed

lemma climbs_first_clean:
  assumes "\<not> rooted" "climbs_first (rev kept)" "\<forall>s\<in>set ss. CHR ''/'' \<notin> set s"
  shows "climbs_first (clean_segments rooted kept ss)"
  using assms
proof (induction rooted kept ss rule: clean_segments.induct)
  case (2 rooted kept s ss)
  obtain n rest where k: "rev kept = replicate n ''..'' @ rest" "\<forall>s\<in>set rest. plain_name s"
    using "2.prems"(2) by (auto simp: climbs_first_def)
  show ?case
  proof (cases "s = [] \<or> s = ''.''")
    case True
    then show ?thesis using 2 by auto
  next
    case False
    show ?thesis
    proof (cases "s = ''..''")
      case plain: False
      then have "climbs_first (rev (s # kept))"
        using k False "2.prems"(3) by (auto simp: climbs_first_def plain_name_def intro!: exI [of _ n] exI [of _ "rest @ [s]"])
      then show ?thesis using 2 False plain by auto
    next
      case up: True
      show ?thesis
      proof (cases kept)
        case Nil
        have "climbs_first [''..'']" by (auto simp: climbs_first_def intro: exI [of _ 1])
        then show ?thesis using 2 Nil False up by auto
      next
        case (Cons x xs)
        show ?thesis
        proof (cases "x = ''..''")
          case True
          have "rest = []"
            using k Cons True by (cases rest rule: rev_cases) (auto simp: plain_name_def)
          then have "climbs_first (rev (s # kept))"
            using k up by (auto simp: climbs_first_def replicate_append_same intro!: exI [of _ "Suc n"])
          then show ?thesis using 2 Cons True False up by auto
        next
          case x: False
          obtain rest' where "rest = rest' @ [x]"
          proof (cases rest rule: rev_cases)
            case Nil
            then have "x \<in> set (replicate n ''..'')" using k(1) Cons by (metis append_Nil2 in_set_conv_decomp rev.simps(2))
            then show thesis using x by simp
          next
            case (snoc ys y)
            then show thesis using that k(1) Cons by simp
          qed
          then have "climbs_first (rev xs)" using k Cons by (auto simp: climbs_first_def)
          then show ?thesis using 2 Cons x False up by auto
        qed
      qed
    qed
  qed
qed simp

text \<open>The segments of a cleaned path; whether one path lies in the directory another names.\<close>

definition path_rooted :: "string \<Rightarrow> bool" where
  "path_rooted p \<longleftrightarrow> p \<noteq> [] \<and> hd p = CHR ''/''"

definition path_segments :: "string \<Rightarrow> string list" where
  "path_segments p = clean_segments (path_rooted p) [] (go_split p)"

definition path_within :: "string \<Rightarrow> string \<Rightarrow> bool" where
  "path_within dir p \<longleftrightarrow> path_rooted p = path_rooted dir \<and>
     (\<exists>rest. path_segments p = path_segments dir @ rest \<and> (\<forall>s\<in>set rest. plain_name s))"

lemma clean_segments_append:
  "clean_segments rooted kept (xs @ ys) = clean_segments rooted (rev (clean_segments rooted kept xs)) ys"
  by (induction rooted kept xs rule: clean_segments.induct) (auto split: list.splits)

lemma climb_stays:
  "kept \<noteq> [] \<Longrightarrow> last kept = ''..'' \<Longrightarrow> ''..'' \<in> set (clean_segments False kept ss)"
proof (induction False kept ss rule: clean_segments.induct)
  case (1 kept)
  then show ?case by (metis clean_segments.simps(1) last_in_set set_rev)
next
  case (2 kept s ss)
  then show ?case by (cases kept) (auto split: if_splits)
qed

lemma clean_over_base:
  "''..'' \<notin> set (clean_segments False kept ss) \<Longrightarrow> ''..'' \<notin> set kept \<Longrightarrow>
    clean_segments rooted (kept @ base) ss = rev base @ clean_segments False kept ss"
proof (induction False kept ss rule: clean_segments.induct)
  case (2 kept s ss)
  have "s \<noteq> ''..''" if "kept = []"
    using 2(5) that climb_stays [of "[''..'']" ss] by auto
  then show ?case using 2 by (cases kept) auto
qed simp

lemma clean_segments_nodots:
  "\<forall>s\<in>set ss. CHR ''/'' \<notin> set s \<Longrightarrow> ''..'' \<notin> set (clean_segments False [] ss) \<Longrightarrow>
    \<forall>s\<in>set (clean_segments False [] ss). plain_name s"
  using climbs_first_clean [of False "[]" ss]
  by (auto simp: climbs_first_def)

lemma clean_without_dots:
  "''..'' \<notin> set kept \<Longrightarrow> ''..'' \<notin> set ss \<Longrightarrow> ''..'' \<notin> set (clean_segments False kept ss)"
  by (induction False kept ss rule: clean_segments.induct) auto

text \<open>What \<open>IsLocal\<close> guarantees: a local path has no climbing segment left once it is cleaned.\<close>

lemma local_segments:
  assumes "path_is_local p"
  shows "\<not> path_rooted p" "''..'' \<notin> set (path_segments p)" "\<forall>s\<in>set (path_segments p). plain_name s"
proof -
  show root: "\<not> path_rooted p" using assms by (simp add: path_is_local_def path_rooted_def)
  have slash: "\<forall>s\<in>set (go_split p). CHR ''/'' \<notin> set s" using go_split_no_slash by blast
  show up: "''..'' \<notin> set (path_segments p)"
  proof (cases "''.'' \<in> set (go_split p) \<or> ''..'' \<in> set (go_split p)")
    case False
    then show ?thesis using clean_without_dots [of "[]" "go_split p"] root by (simp add: path_segments_def)
  next
    case True
    let ?ss = "clean_segments False [] (go_split p)"
    have c: "path_clean p = (if ?ss = [] then ''.'' else go_join ''/'' ?ss)" "path_clean p \<noteq> ''..''"
      "go_cut_prefix ''../'' (path_clean p) = None"
    proof -
      show "path_clean p \<noteq> ''..''" "go_cut_prefix ''../'' (path_clean p) = None"
        using assms True by (simp_all add: path_is_local_def Let_def)
      have "climbs_first ?ss" using climbs_first_clean [OF _ _ slash, of False "[]"] by (simp add: climbs_first_def)
      then have "?ss \<noteq> [] \<Longrightarrow> go_join ''/'' ?ss \<noteq> []"
        using go_join_names(1) [of ?ss] climbs_first_names by blast
      then show "path_clean p = (if ?ss = [] then ''.'' else go_join ''/'' ?ss)"
        using root by (auto simp: path_clean_def path_rooted_def Let_def)
    qed
    have "climbs_first ?ss" using climbs_first_clean [OF _ _ slash, of False "[]"] by (simp add: climbs_first_def)
    then obtain n rest where r: "?ss = replicate n ''..'' @ rest" "\<forall>s\<in>set rest. plain_name s"
      by (auto simp: climbs_first_def)
    have "n = 0"
    proof (cases n)
      case (Suc m)
      then have "?ss = ''..'' # (replicate m ''..'' @ rest)" using r by simp
      then have "path_clean p = ''..'' \<or> (\<exists>t. path_clean p = ''../'' @ t)"
        using c(1) by (auto simp: go_join_first split: if_splits)
      then show ?thesis using c(2,3) by auto
    qed simp
    then show ?thesis using r root by (auto simp: path_segments_def plain_name_def)
  qed
  show "\<forall>s\<in>set (path_segments p). plain_name s"
    using clean_segments_nodots [OF slash] up root by (simp add: path_segments_def)
qed

text \<open>Cleaning twice is cleaning once, and joining with a local path stays within.\<close>

lemma go_split_slash: "go_split (a @ CHR ''/'' # b) = go_split a @ go_split b"
proof (induction a)
  case (Cons c a)
  then show ?case by (cases "go_split a") auto
qed simp

lemma clean_rooted_plain:
  "rooted \<Longrightarrow> \<forall>s\<in>set kept. plain_name s \<Longrightarrow> \<forall>s\<in>set ss. CHR ''/'' \<notin> set s \<Longrightarrow>
    \<forall>s\<in>set (clean_segments rooted kept ss). plain_name s"
proof (induction rooted kept ss rule: clean_segments.induct)
  case (2 rooted kept s ss)
  show ?case
  proof (cases "s = [] \<or> s = ''.''")
    case True
    then show ?thesis using "2.IH"(1) [OF True] "2.prems" by simp
  next
    case dots: False
    show ?thesis
    proof (cases "s = ''..''")
      case True
      show ?thesis
      proof (cases kept)
        case Nil
        then show ?thesis using "2.IH"(3) "2.prems" True dots by simp
      next
        case (Cons k ks)
        then have "k \<noteq> ''..''" using "2.prems"(2) by (simp add: plain_name_def)
        then show ?thesis using "2.IH"(4) [OF dots _ Cons] "2.prems" True dots Cons by simp
      qed
    next
      case False
      then have "plain_name s" using dots "2.prems"(3) by (simp add: plain_name_def)
      then have "\<forall>s\<in>set (s # kept). plain_name s" using "2.prems"(2) by simp
      with "2.prems"(3) have "\<forall>t\<in>set (clean_segments rooted (s # kept) ss). plain_name t"
        by (intro "2.IH"(2) [OF dots False "2.prems"(1)]) simp_all
      moreover have "clean_segments rooted kept (s # ss) = clean_segments rooted (s # kept) ss" using dots False by simp
      ultimately show ?thesis by (simp only:)
    qed
  qed
qed simp

lemma clean_climbs:
  "clean_segments False (replicate m ''..'') (replicate n ''..'' @ ss) = clean_segments False (replicate (n + m) ''..'') ss"
proof (induction n arbitrary: m)
  case (Suc n)
  have "clean_segments False (replicate m ''..'') (''..'' # ss') = clean_segments False (replicate (Suc m) ''..'') ss'" for ss'
    by (cases m) auto
  then show ?case using Suc.IH [of "Suc m"] by simp
qed simp

lemma clean_idempotent: "climbs_first ss \<Longrightarrow> clean_segments False [] ss = ss"
proof -
  assume "climbs_first ss"
  then obtain n rest where r: "ss = replicate n ''..'' @ rest" "\<forall>s\<in>set rest. plain_name s"
    by (auto simp: climbs_first_def)
  then show ?thesis
    using clean_climbs [of 0 n rest] clean_segments_plain [OF r(2), of False "replicate n ''..''" "[]"] by simp
qed

lemma path_segments_clean: "path_segments (path_clean p) = path_segments p" "path_rooted (path_clean p) = path_rooted p"
proof -
  let ?ss = "path_segments p"
  have slash: "\<forall>s\<in>set (go_split p). CHR ''/'' \<notin> set s" using go_split_no_slash by blast
  have "path_segments (path_clean p) = ?ss \<and> path_rooted (path_clean p) = path_rooted p"
  proof (cases "path_rooted p")
    case True
    then have plain: "\<forall>s\<in>set ?ss. plain_name s"
      using clean_rooted_plain [OF _ _ slash, of True "[]"] by (simp add: path_segments_def)
    have c: "path_clean p = CHR ''/'' # go_join ''/'' ?ss"
      using True by (simp add: path_clean_def path_segments_def path_rooted_def Let_def)
    have "go_split (path_clean p) = [] # (if ?ss = [] then [[]] else ?ss)"
      using plain go_split_join [of ?ss] by (auto simp: c plain_name_def)
    moreover have root: "path_rooted (path_clean p)" by (simp add: c path_rooted_def)
    moreover have "clean_segments True [] ?ss = ?ss" using clean_segments_plain [OF plain, of True "[]" "[]"] by simp
    ultimately have "path_segments (path_clean p) = ?ss"
      unfolding path_segments_def [of "path_clean p"] by simp
    then show ?thesis using root True by simp
  next
    case False
    then have climbs: "climbs_first ?ss"
      using climbs_first_clean [OF _ _ slash, of False "[]"] by (simp add: path_segments_def climbs_first_def)
    have c: "path_clean p = (let body = go_join ''/'' ?ss in if body = [] then ''.'' else body)"
      using False by (auto simp: path_clean_def path_segments_def path_rooted_def Let_def)
    show ?thesis
    proof (cases ?ss)
      case Nil
      then show ?thesis using False by (simp add: c path_segments_def [of "''.''"] path_rooted_def)
    next
      case (Cons x xs)
      note ok = climbs_first_names [OF climbs]
      then have "go_split (go_join ''/'' ?ss) = ?ss" using Cons by (intro go_split_join) auto
      moreover have "go_join ''/'' ?ss \<noteq> []" "hd (go_join ''/'' ?ss) \<noteq> CHR ''/''"
        using go_join_names [OF _ ok] Cons by simp_all
      ultimately have "go_split (path_clean p) = ?ss" "\<not> path_rooted (path_clean p)"
        by (simp_all add: c path_rooted_def)
      moreover from this have "path_segments (path_clean p) = ?ss"
        using clean_idempotent [OF climbs] unfolding path_segments_def [of "path_clean p"] by simp
      ultimately show ?thesis using False by simp
    qed
  qed
  then show "path_segments (path_clean p) = path_segments p" "path_rooted (path_clean p) = path_rooted p" by auto
qed

lemma path_join_local:
  assumes "path_is_local p" "dir \<noteq> []"
  shows "path_within dir (path_join [dir, p])"
proof -
  have p: "p \<noteq> []" using assms(1) by (simp add: path_is_local_def)
  let ?x = "dir @ CHR ''/'' # p"
  have "path_join [dir, p] = path_clean ?x" using p assms(2) by (simp add: path_join_def)
  moreover have root: "path_rooted ?x = path_rooted dir" using assms(2) by (simp add: path_rooted_def)
  moreover have "path_segments ?x = path_segments dir @ path_segments p"
    using clean_over_base [of "[]" "go_split p" "path_rooted dir" "rev (path_segments dir)"] local_segments [OF assms(1)]
    by (simp add: path_segments_def go_split_slash clean_segments_append root)
  ultimately show ?thesis
    using local_segments(3) [OF assms(1)] by (simp add: path_within_def path_segments_clean)
qed

lemma plain_is_local: "plain_name p \<Longrightarrow> path_is_local p"
proof -
  assume p: "plain_name p"
  then have "go_split p = [p]" "p \<noteq> []" "hd p \<noteq> CHR ''/''"
    by (auto simp: plain_name_def go_split_plain hd_in_set dest: hd_in_set)
  moreover have "go_cut_prefix ''../'' p = None"
    using p by (auto simp: plain_name_def go_cut_prefix_Some simp flip: not_Some_eq)
  ultimately show ?thesis using p by (auto simp: path_is_local_def plain_name_def)
qed

subsection \<open>Parents\<close>

definition plain_path :: "string \<Rightarrow> bool" where
  "plain_path p \<longleftrightarrow> (\<forall>s\<in>set (go_split p). plain_name s)"

lemma plain_path_slash [simp]: "plain_path (a @ CHR ''/'' # b) \<longleftrightarrow> plain_path a \<and> plain_path b"
  by (auto simp: plain_path_def go_split_slash)

lemma plain_path_name: "plain_name n \<Longrightarrow> plain_path n"
  by (simp add: plain_path_def go_split_plain plain_name_def)

lemma plain_path_ends: assumes "plain_path p" shows "p \<noteq> []" "hd p \<noteq> CHR ''/''" "last p \<noteq> CHR ''/''"
proof -
  have j: "go_join ''/'' (go_split p) = p" by (rule go_join_split)
  have s: "\<forall>s\<in>set (go_split p). plain_name s" using assms by (simp add: plain_path_def)
  show "p \<noteq> []" "hd p \<noteq> CHR ''/''" using hd_join_plain [OF go_split_nonempty s] unfolding j by auto
  show "last p \<noteq> CHR ''/''"
  proof
    assume "last p = CHR ''/''"
    then have "p = butlast p @ CHR ''/'' # []" using \<open>p \<noteq> []\<close> by (metis append_butlast_last_id)
    then have "go_split p = go_split (butlast p) @ [[]]" using go_split_slash [of "butlast p" "[]"] by simp
    then show False using s by (simp add: plain_name_def)
  qed
qed

lemma trim_slashes_plain: assumes "plain_path p" shows "trim_slashes p = p"
proof -
  have "dropWhile (\<lambda>c. c = CHR ''/'') p = p" using plain_path_ends [OF assms] by (cases p) auto
  moreover have "dropWhile (\<lambda>c. c = CHR ''/'') (rev p) = rev p"
    using plain_path_ends [OF assms] by (cases p rule: rev_cases) auto
  ultimately show ?thesis by (simp add: trim_slashes_def)
qed

lemma path_dir_child: assumes "plain_path d" "CHR ''/'' \<notin> set n" shows "path_dir (d @ CHR ''/'' # n) = d"
proof -
  have "dropWhile (\<lambda>c. c \<noteq> CHR ''/'') (rev n @ CHR ''/'' # rev d) = CHR ''/'' # rev d"
    using assms(2) by (subst dropWhile_append2) auto
  then have "path_dir (d @ CHR ''/'' # n) = path_clean (d @ [CHR ''/''])" by (simp add: path_dir_def)
  moreover have "go_split (d @ [CHR ''/'']) = go_split d @ [[]]" using go_split_slash [of d "[]"] by simp
  moreover have "clean_segments False [] (go_split d @ [[]]) = go_split d"
    using clean_segments_plain [of "go_split d" False "[]" "[[]]"] assms(1) by (simp add: plain_path_def)
  ultimately show ?thesis
    using plain_path_ends [OF assms(1)] go_join_split [of d] by (auto simp: path_clean_def Let_def hd_append)
qed

lemma plain_path_cases:
  assumes "plain_path p"
  obtains (name) "plain_name p" "path_dir p = ''.''"
    | (below) d n where "p = d @ CHR ''/'' # n" "plain_path d" "plain_name n" "path_dir p = d"
proof (cases "CHR ''/'' \<in> set p")
  case False
  then have "plain_name p" using assms by (simp add: plain_path_def go_split_plain)
  moreover have "rev (dropWhile (\<lambda>c. c \<noteq> CHR ''/'') (rev p)) = []" using False by auto
  then have "path_dir p = ''.''" unfolding path_dir_def by (simp only:) code_simp
  ultimately show thesis by (rule name)
next
  case True
  then obtain d n where p: "p = d @ CHR ''/'' # n" "CHR ''/'' \<notin> set n" by (metis split_list_last)
  then have "plain_path d" "plain_path n" using assms by simp_all
  moreover from this have "plain_name n" using p(2) by (simp add: plain_path_def go_split_plain)
  ultimately show thesis using below p path_dir_child by blast
qed

text \<open>A parent is shorter than what it is the parent of.\<close>

lemma clean_segments_size:
  "(\<Sum>s\<leftarrow>clean_segments rooted kept ss. Suc (length s)) \<le> (\<Sum>s\<leftarrow>kept. Suc (length s)) + (\<Sum>s\<leftarrow>ss. Suc (length s))"
proof (induction rooted kept ss rule: clean_segments.induct)
  case (1 rooted kept)
  then show ?case by (simp flip: rev_map)
next
  case (2 rooted kept s ss)
  then show ?case by (cases kept) (auto split: if_splits)
qed

lemma go_join_size: "ss \<noteq> [] \<Longrightarrow> Suc (length (go_join ''/'' ss)) = (\<Sum>s\<leftarrow>ss. Suc (length s))"
  by (induction ss) (auto simp: go_join_first)

lemma path_clean_size: assumes "path_clean p \<noteq> ''.''" shows "length (path_clean p) \<le> length p"
proof -
  let ?r = "p \<noteq> [] \<and> hd p = CHR ''/''"
  let ?ss = "clean_segments ?r [] (go_split p)"
  have all: "(\<Sum>s\<leftarrow>go_split p. Suc (length s)) = Suc (length p)"
    using go_join_size [of "go_split p"] go_join_split [of p] by simp
  show ?thesis
  proof (cases ?r)
    case True
    then obtain q where p: "p = CHR ''/'' # q" by (cases p) auto
    then have "?ss = clean_segments True [] (go_split q)" by simp
    moreover have "(\<Sum>s\<leftarrow>go_split q. Suc (length s)) = Suc (length q)"
      using go_join_size [of "go_split q"] go_join_split [of q] by simp
    ultimately have "length (go_join ''/'' ?ss) \<le> length q"
      using clean_segments_size [of True "[]" "go_split q"] go_join_size [of ?ss] by (cases "?ss = []") auto
    then show ?thesis using True p by (simp add: path_clean_def Let_def)
  next
    case False
    then have "length (go_join ''/'' ?ss) \<le> length p"
      using clean_segments_size [of ?r "[]" "go_split p"] go_join_size [of ?ss] all by (cases "?ss = []") auto
    moreover have r: "?r = False" using False by blast
    ultimately show ?thesis using assms unfolding path_clean_def Let_def r by (simp split: if_splits)
  qed
qed

lemma path_dir_shorter: assumes "path_dir p \<noteq> ''.''" "p \<noteq> []" "last p \<noteq> CHR ''/''" shows "length (path_dir p) < length p"
proof -
  let ?q = "dropWhile (\<lambda>c. c \<noteq> CHR ''/'') (rev p)"
  have "length (path_dir p) \<le> length ?q" using path_clean_size [of "rev ?q"] assms(1) by (simp add: path_dir_def)
  moreover obtain c q where "rev p = c # q" "c \<noteq> CHR ''/''" using assms(2,3) by (cases p rule: rev_cases) auto
  then have "length ?q < length p"
    using length_dropWhile_le [of "\<lambda>c. c \<noteq> CHR ''/''" q] length_rev [of p] by simp
  ultimately show ?thesis by simp
qed

lemma trim_slashes_ends: "trim_slashes p \<noteq> [] \<Longrightarrow> last (trim_slashes p) \<noteq> CHR ''/''"
  using hd_dropWhile [of "\<lambda>c. c = CHR ''/''" "rev (dropWhile (\<lambda>c. c = CHR ''/'') p)"]
  by (auto simp: trim_slashes_def Let_def last_rev)

lemma trim_slashes_size: "length (trim_slashes p) \<le> length p"
  using length_dropWhile_le [of "\<lambda>c. c = CHR ''/''" p]
    length_dropWhile_le [of "\<lambda>c. c = CHR ''/''" "rev (dropWhile (\<lambda>c. c = CHR ''/'') p)"]
  by (simp add: trim_slashes_def Let_def)

end
