(* ===== verification/Snap_Walk.thy ===== *)
theory Snap_Walk
  imports Snap_Engine Go_Paths "HOL-Library.Word"
begin

text \<open>
  Reading a snapshot's tree back out (src/internal/snapshot/engine.go, \<open>Walk\<close> and \<open>walkDir\<close>): entries are handed to a
  callback one at a time, a directory before what is in it, and the first error ends the walk.

  A tree is what the library reads: a directory's entries, followed by the error its listing broke off with, if
  it did; a file's content, or the error it cannot be opened with. The reference is the list of entries in the order
  of the walk (\<open>tree_entries\<close>); the walk is the callback applied along it.
\<close>

subsection \<open>The walk\<close>

datatype fs_entry =
    FsDir string time "fs_entry list" "string option"
  | FsFile string int time "string + 8 word list"
  | FsOther string

record restored_entry =
  rn_path :: string
  rn_dir :: bool
  rn_size :: int
  rn_mod :: time
  rn_content :: "(string + 8 word list) option"

definition dir_entry :: "string \<Rightarrow> time \<Rightarrow> restored_entry" where
  "dir_entry rel m = \<lparr>rn_path = rel, rn_dir = True, rn_size = 0, rn_mod = m, rn_content = None\<rparr>"

definition file_entry :: "string \<Rightarrow> int \<Rightarrow> time \<Rightarrow> string + 8 word list \<Rightarrow> restored_entry" where
  "file_entry rel n m c = \<lparr>rn_path = rel, rn_dir = False, rn_size = n, rn_mod = m, rn_content = Some c\<rparr>"

fun walk_dir ::
    "(restored_entry \<Rightarrow> ('s, 'e, unit) op) \<Rightarrow> (string \<Rightarrow> 'e) \<Rightarrow> string \<Rightarrow> fs_entry list \<Rightarrow> string option \<Rightarrow> ('s, 'e, unit) op" where
  "walk_dir fn rd dir [] broke = (case broke of None \<Rightarrow> ok_op () | Some e \<Rightarrow> fail_op (rd e))"
| "walk_dir fn rd dir (FsDir name m kids kbroke # es) broke =
     try_op id (fn (dir_entry (path_join [dir, name]) m)) (\<lambda>_.
     try_op id (walk_dir fn rd (path_join [dir, name]) kids kbroke) (\<lambda>_. walk_dir fn rd dir es broke))"
| "walk_dir fn rd dir (FsFile name n m c # es) broke =
     try_op id (fn (file_entry (path_join [dir, name]) n m c)) (\<lambda>_. walk_dir fn rd dir es broke)"
| "walk_dir fn rd dir (FsOther name # es) broke = walk_dir fn rd dir es broke"

definition engine_walk ::
    "('s, 'x, 'p, 't) kopia \<Rightarrow> (manifest \<Rightarrow> ('s, snap_error, fs_entry) op) \<Rightarrow> string \<Rightarrow> string \<Rightarrow> string \<Rightarrow>
     (restored_entry \<Rightarrow> ('s, snap_error, unit) op) \<Rightarrow> ('s, snap_error, unit) op" where
  "engine_walk k root dk space i fn =
     with_repo k dk space False
       (try_op id (find_manifest k (source_info space) i) (\<lambda>man.
        try_op (SnapWrapped ''snapshot: open snapshot root'') (root man) (\<lambda>r.
        case r of FsDir _ _ kids broke \<Rightarrow> walk_dir fn LibraryError [] kids broke | _ \<Rightarrow> fail_op NotADirectory)))"

fun no_such_snapshot :: "snap_error \<Rightarrow> bool" where
  "no_such_snapshot (NoSuchSnapshot i) = True"
| "no_such_snapshot (SnapWrapped w e) = no_such_snapshot e"
| "no_such_snapshot e = False"

subsection \<open>The walk visits the entries in order\<close>

fun tree_entries :: "string \<Rightarrow> fs_entry list \<Rightarrow> string option \<Rightarrow> restored_entry list \<times> string option" where
  "tree_entries dir [] broke = ([], broke)"
| "tree_entries dir (FsDir name m kids kbroke # es) broke =
     (case tree_entries (path_join [dir, name]) kids kbroke of
        (inner, Some e) \<Rightarrow> (dir_entry (path_join [dir, name]) m # inner, Some e)
      | (inner, None) \<Rightarrow> apfst (\<lambda>after. dir_entry (path_join [dir, name]) m # inner @ after) (tree_entries dir es broke))"
| "tree_entries dir (FsFile name n m c # es) broke =
     apfst ((#) (file_entry (path_join [dir, name]) n m c)) (tree_entries dir es broke)"
| "tree_entries dir (FsOther name # es) broke = tree_entries dir es broke"

fun visit :: "('a \<Rightarrow> ('s, 'e, unit) op) \<Rightarrow> 'a list \<Rightarrow> ('s, 'e, unit) op" where
  "visit fn [] = ok_op ()"
| "visit fn (x # xs) = try_op id (fn x) (\<lambda>_. visit fn xs)"

lemma try_op_assoc: "try_op id (try_op id f K) L = try_op id f (\<lambda>x. try_op id (K x) L)"
  by (auto simp: try_op_def fun_eq_iff split: prod.splits sum.splits)

lemma try_op_ok: "try_op id (ok_op x) K = K x"
  by (simp add: try_op_def ok_op_def fun_eq_iff)

lemma try_op_fail: "try_op id (fail_op e) K = fail_op e"
  by (simp add: try_op_def fail_op_def fun_eq_iff)

lemma visit_append: "visit fn (xs @ ys) = try_op id (visit fn xs) (\<lambda>_. visit fn ys)"
  by (induction xs) (simp_all only: append_Nil append_Cons visit.simps try_op_assoc try_op_ok)

definition ended :: "(string \<Rightarrow> 'e) \<Rightarrow> string option \<Rightarrow> ('s, 'e, unit) op" where
  "ended rd broke = (case broke of None \<Rightarrow> ok_op () | Some e \<Rightarrow> fail_op (rd e))"

theorem walk_visits:
  "walk_dir fn rd dir es broke =
     try_op id (visit fn (fst (tree_entries dir es broke))) (\<lambda>_. ended rd (snd (tree_entries dir es broke)))"
proof (induction fn rd dir es broke rule: walk_dir.induct)
  case (1 fn rd dir broke)
  show ?case by (simp only: walk_dir.simps tree_entries.simps visit.simps fst_conv snd_conv try_op_ok ended_def)
next
  case (2 fn rd dir name m kids kbroke es broke)
  obtain inner e where inner: "tree_entries (path_join [dir, name]) kids kbroke = (inner, e)" by fastforce
  show ?case
  proof (cases e)
    case None
    show ?thesis
      unfolding walk_dir.simps 2 tree_entries.simps inner None prod.case option.case visit.simps visit_append
        fst_apfst snd_apfst fst_conv snd_conv ended_def try_op_assoc try_op_ok ..
  next
    case (Some x)
    show ?thesis
      unfolding walk_dir.simps 2 tree_entries.simps inner Some prod.case option.case visit.simps
        fst_conv snd_conv ended_def try_op_assoc try_op_fail ..
  qed
next
  case (3 fn rd dir name n m c es broke)
  show ?case unfolding walk_dir.simps 3 tree_entries.simps visit.simps fst_apfst snd_apfst try_op_assoc ..
next
  case (4 fn rd dir name es broke)
  show ?case unfolding walk_dir.simps 4 tree_entries.simps ..
qed

subsection \<open>Where the entries lie\<close>

text \<open>A tree as a file system has it: names are file names, and no two of a directory are the same.\<close>

fun entry_name :: "fs_entry \<Rightarrow> string" where
  "entry_name (FsDir name _ _ _) = name"
| "entry_name (FsFile name _ _ _) = name"
| "entry_name (FsOther name) = name"

fun sound_tree :: "fs_entry list \<Rightarrow> bool" where
  "sound_tree [] = True"
| "sound_tree (FsDir name m kids kbroke # es) \<longleftrightarrow>
     plain_name name \<and> name \<notin> set (map entry_name es) \<and> sound_tree kids \<and> sound_tree es"
| "sound_tree (FsFile name n m c # es) \<longleftrightarrow> plain_name name \<and> name \<notin> set (map entry_name es) \<and> sound_tree es"
| "sound_tree (FsOther name # es) \<longleftrightarrow> plain_name name \<and> name \<notin> set (map entry_name es) \<and> sound_tree es"

definition below :: "string list \<Rightarrow> string set \<Rightarrow> string \<Rightarrow> bool" where
  "below ps names p \<longleftrightarrow> (\<exists>name more. name \<in> names \<and> p = go_join ''/'' (ps @ name # more) \<and> (\<forall>s\<in>set (name # more). plain_name s))"

lemma path_join_below:
  assumes "\<forall>s\<in>set ps. plain_name s" "plain_name name"
  shows "path_join [go_join ''/'' ps, name] = go_join ''/'' (ps @ [name])"
proof (cases "ps = []")
  case True
  then show ?thesis using path_join_empty_plain [of "[name]"] assms(2) by simp
next
  case False
  then show ?thesis using path_join_plain [of ps "[name]"] assms by simp
qed

lemma below_into: "below (ps @ [name]) names p \<Longrightarrow> plain_name name \<Longrightarrow> below ps {name} p"
proof -
  assume "below (ps @ [name]) names p" and n: "plain_name name"
  then obtain x more where "p = go_join ''/'' (ps @ name # x # more)" "\<forall>s\<in>set (x # more). plain_name s"
    by (auto simp: below_def)
  then show ?thesis using n unfolding below_def by (intro exI [of _ name] exI [of _ "x # more"]) simp
qed

lemma below_mono: "below ps a p \<Longrightarrow> a \<subseteq> b \<Longrightarrow> below ps b p"
  unfolding below_def by blast

lemma below_self: "plain_name name \<Longrightarrow> below ps {name} (go_join ''/'' (ps @ [name]))"
  unfolding below_def by (intro exI [of _ name] exI [of _ "[]"]) simp

lemma entries_below:
  "sound_tree es \<Longrightarrow> \<forall>s\<in>set ps. plain_name s \<Longrightarrow> dir = go_join ''/'' ps \<Longrightarrow>
    x \<in> set (fst (tree_entries dir es broke)) \<Longrightarrow> below ps (set (map entry_name es)) (rn_path x)"
proof (induction dir es broke arbitrary: ps rule: tree_entries.induct)
  case (2 dir name m kids kbroke es broke)
  let ?sub = "path_join [dir, name]"
  have plain: "plain_name name" "sound_tree kids" "sound_tree es" using "2.prems"(1) by simp_all
  have sub: "?sub = go_join ''/'' (ps @ [name])" using path_join_below [OF "2.prems"(2) plain(1)] "2.prems"(3) by simp
  obtain inner e where inner: "tree_entries ?sub kids kbroke = (inner, e)" by fastforce
  have subs: "\<forall>s\<in>set (ps @ [name]). plain_name s" using "2.prems"(2) plain(1) by simp
  consider "rn_path x = ?sub" | "x \<in> set inner" | "e = None" "x \<in> set (fst (tree_entries dir es broke))"
    using "2.prems"(4) inner by (cases e) (auto simp: dir_entry_def)
  then show ?case
  proof cases
    case 1
    then show ?thesis using below_mono [OF below_self [OF plain(1), of ps]] by (simp add: sub)
  next
    case 2
    then have "below (ps @ [name]) (set (map entry_name kids)) (rn_path x)"
      using "2.IH"(1) [OF plain(2) subs sub] inner by simp
    then show ?thesis using below_mono [OF below_into [OF _ plain(1)]] by simp
  next
    case 3
    then have "below ps (set (map entry_name es)) (rn_path x)"
      using "2.IH"(2) [OF inner [symmetric] _ plain(3) "2.prems"(2,3)] by simp
    then show ?thesis by (rule below_mono) auto
  qed
next
  case (3 dir name n m c es broke)
  have plain: "plain_name name" "sound_tree es" using "3.prems"(1) by simp_all
  have sub: "path_join [dir, name] = go_join ''/'' (ps @ [name])"
    using path_join_below [OF "3.prems"(2) plain(1)] "3.prems"(3) by simp
  consider "rn_path x = path_join [dir, name]" | "x \<in> set (fst (tree_entries dir es broke))"
    using "3.prems"(4) by (auto simp: file_entry_def)
  then show ?case
  proof cases
    case 1
    then show ?thesis using below_mono [OF below_self [OF plain(1), of ps]] by (simp add: sub)
  next
    case 2
    then have "below ps (set (map entry_name es)) (rn_path x)" using "3.IH" plain(2) "3.prems"(2,3) by simp
    then show ?thesis by (rule below_mono) auto
  qed
next
  case (4 dir name es broke)
  then have "below ps (set (map entry_name es)) (rn_path x)" by simp
  then show ?case by (rule below_mono) auto
qed simp

lemma below_disjoint:
  assumes "below ps a p" "below ps b p" "\<forall>s\<in>set ps. plain_name s" shows "a \<inter> b \<noteq> {}"
proof -
  obtain x xs where x: "x \<in> a" "p = go_join ''/'' (ps @ x # xs)" "\<forall>s\<in>set (x # xs). plain_name s"
    using assms(1) by (auto simp: below_def)
  obtain y ys where y: "y \<in> b" "p = go_join ''/'' (ps @ y # ys)" "\<forall>s\<in>set (y # ys). plain_name s"
    using assms(2) by (auto simp: below_def)
  have "ps @ x # xs = ps @ y # ys"
    by (rule go_join_inject [of _ _ "CHR ''/''"]) (use x y assms(3) in \<open>auto simp: plain_name_def\<close>)
  then show ?thesis using x(1) y(1) by auto
qed

lemma entries_distinct:
  "sound_tree es \<Longrightarrow> \<forall>s\<in>set ps. plain_name s \<Longrightarrow> dir = go_join ''/'' ps \<Longrightarrow>
    distinct (map rn_path (fst (tree_entries dir es broke)))"
proof (induction dir es broke arbitrary: ps rule: tree_entries.induct)
  case (2 dir name m kids kbroke es broke)
  let ?sub = "path_join [dir, name]"
  have plain: "plain_name name" "sound_tree kids" "sound_tree es" "name \<notin> set (map entry_name es)" using "2.prems"(1) by simp_all
  have sub: "?sub = go_join ''/'' (ps @ [name])" using path_join_below [OF "2.prems"(2) plain(1)] "2.prems"(3) by simp
  obtain inner e where inner: "tree_entries ?sub kids kbroke = (inner, e)" by fastforce
  have subs: "\<forall>s\<in>set (ps @ [name]). plain_name s" using "2.prems"(2) plain(1) by simp
  have "distinct (map rn_path inner)" using "2.IH"(1) [OF plain(2) subs sub] inner by simp
  moreover have inside: "below (ps @ [name]) (set (map entry_name kids)) (rn_path y)" if "y \<in> set inner" for y
    using entries_below [OF plain(2) subs sub, of y kbroke] that inner by simp
  moreover have "?sub \<notin> rn_path ` set inner"
  proof
    assume "?sub \<in> rn_path ` set inner"
    then obtain y where "y \<in> set inner" "rn_path y = go_join ''/'' (ps @ [name])" using sub by auto
    then obtain x more where "go_join ''/'' (ps @ [name]) = go_join ''/'' ((ps @ [name]) @ x # more)"
      "\<forall>s\<in>set (x # more). plain_name s" using inside unfolding below_def by metis
    then have "ps @ [name] = (ps @ [name]) @ x # more"
      by (intro go_join_inject [of _ _ "CHR ''/''"]) (use subs in \<open>auto simp: plain_name_def\<close>)
    then show False by simp
  qed
  moreover have "rn_path y \<noteq> rn_path z \<and> ?sub \<noteq> rn_path z"
    if "y \<in> set inner" "z \<in> set (fst (tree_entries dir es broke))" for y z
  proof -
    have z: "below ps (set (map entry_name es)) (rn_path z)"
      using entries_below [OF plain(3) "2.prems"(2,3) that(2)] .
    have "below ps {name} (rn_path y)" using below_into [OF inside [OF that(1)] plain(1)] .
    moreover have "\<not> below ps {name} (rn_path z)" using below_disjoint [OF _ z "2.prems"(2), of "{name}"] plain(4) by auto
    ultimately show ?thesis using below_self [OF plain(1), of ps] sub by metis
  qed
  moreover have "?sub \<noteq> rn_path z" if "z \<in> set (fst (tree_entries dir es broke))" for z
    using below_disjoint [OF _ entries_below [OF plain(3) "2.prems"(2,3) that] "2.prems"(2), of "{name}"] below_self [OF plain(1), of ps] plain(4) sub
    by auto
  moreover have "e = None \<Longrightarrow> distinct (map rn_path (fst (tree_entries dir es broke)))"
    using "2.IH"(2) [OF inner [symmetric] _ plain(3) "2.prems"(2,3)] by simp
  ultimately have "distinct (map rn_path inner)" "?sub \<notin> rn_path ` set inner"
    "rn_path ` set inner \<inter> rn_path ` set (fst (tree_entries dir es broke)) = {}"
    "?sub \<notin> rn_path ` set (fst (tree_entries dir es broke))"
    "e = None \<Longrightarrow> distinct (map rn_path (fst (tree_entries dir es broke)))"
    by blast+
  then show ?case using inner by (cases e) (simp_all add: dir_entry_def)
next
  case (3 dir name n m c es broke)
  have plain: "plain_name name" "sound_tree es" "name \<notin> set (map entry_name es)" using "3.prems"(1) by simp_all
  have sub: "path_join [dir, name] = go_join ''/'' (ps @ [name])"
    using path_join_below [OF "3.prems"(2) plain(1)] "3.prems"(3) by simp
  have "path_join [dir, name] \<noteq> rn_path z" if "z \<in> set (fst (tree_entries dir es broke))" for z
    using below_disjoint [OF _ entries_below [OF plain(2) "3.prems"(2,3) that] "3.prems"(2), of "{name}"] below_self [OF plain(1), of ps] plain(3) sub
    by auto
  then show ?case using "3.IH" [OF plain(2) "3.prems"(2,3)] by (auto simp: file_entry_def)
qed simp_all

end
