(* ===== verification/Go_Dates.thy ===== *)
theory Go_Dates
  imports Go_Strings
begin

text \<open>
  The calendar of Go's \<open>time\<close> package: the civil date of an instant in UTC, and the layouts the code formats
  with. Two instants format alike only when they lie in the same unit of the layout.
\<close>

subsection \<open>The civil calendar\<close>

definition leap_year :: "int \<Rightarrow> bool" where
  "leap_year y \<longleftrightarrow> y mod 4 = 0 \<and> (y mod 100 \<noteq> 0 \<or> y mod 400 = 0)"

text \<open>The year, and the day in it counted from zero, of a day counted from 1 January of year 1.\<close>

definition civil_year :: "int \<Rightarrow> int \<times> int" where
  "civil_year d =
     (let n400 = d div 146097; d = d mod 146097;
          n100 = min 3 (d div 36524); d = d - 36524 * n100;
          n4 = d div 1461; d = d mod 1461;
          n1 = min 3 (d div 365); d = d - 365 * n1
      in (400 * n400 + 100 * n100 + 4 * n4 + n1 + 1, d))"

definition month_lengths :: "int \<Rightarrow> int list" where
  "month_lengths y = [31, if leap_year y then 29 else 28, 31, 30, 31, 30, 31, 31, 30, 31, 30, 31]"

fun month_day :: "int list \<Rightarrow> int \<Rightarrow> int \<Rightarrow> int \<times> int" where
  "month_day [] m d = (m, d + 1)"
| "month_day (l # ls) m d = (if d < l then (m, d + 1) else month_day ls (m + 1) (d - l))"

definition unix_day_offset :: int where "unix_day_offset = 719162"

definition civil_date :: "time \<Rightarrow> int \<times> int \<times> int" where
  "civil_date t =
     (let (y, yday) = civil_year (t div (86400 * second) + unix_day_offset)
      in (y, month_day (month_lengths y) 1 yday))"

definition civil_clock :: "time \<Rightarrow> int \<times> int \<times> int" where
  "civil_clock t = (let s = t div second mod 86400 in (s div 3600, s div 60 mod 60, s mod 60))"

text \<open>\<open>appendInt\<close>: a number padded with zeros, its sign in front.\<close>

definition append_int :: "nat \<Rightarrow> int \<Rightarrow> string" where
  "append_int w n = (if n < 0 then CHR ''-'' # pad_zero w (dec_digits (nat (- n))) else pad_zero w (dec_digits (nat n)))"

text \<open>\<open>Format("2006-01-02T15-04-05Z")\<close>.\<close>

definition format_stamp :: "time \<Rightarrow> string" where
  "format_stamp t =
     (case (civil_date t, civil_clock t) of ((y, m, d), (h, mi, s)) \<Rightarrow>
        append_int 4 y @ ''-'' @ append_int 2 m @ ''-'' @ append_int 2 d @ ''T'' @
        append_int 2 h @ ''-'' @ append_int 2 mi @ ''-'' @ append_int 2 s @ ''Z'')"

text \<open>\<open>Format("2 January 2006")\<close>.\<close>

definition month_names :: "string list" where
  "month_names = [''January'', ''February'', ''March'', ''April'', ''May'', ''June'', ''July'', ''August'', ''September'',
     ''October'', ''November'', ''December'']"

definition format_day :: "time \<Rightarrow> string" where
  "format_day t =
     (case civil_date t of (y, m, d) \<Rightarrow> append_int 0 d @ '' '' @ month_names ! nat (m - 1) @ '' '' @ append_int 4 y)"

lemma format_stamp_examples:
  "format_stamp 0 = ''1970-01-01T00-00-00Z''"
  "format_stamp (951827696 * second) = ''2000-02-29T12-34-56Z''"
  "format_day (1735689599 * second) = ''31 December 2024''"
  by code_simp+

subsection \<open>The calendar loses nothing\<close>

text \<open>A quotient cut off at a bound leaves a remainder that is never negative.\<close>

lemma cut_quotient:
  fixes a k c :: int
  assumes "0 \<le> a" "a \<le> c * k + k" "0 < k" "0 \<le> c"
  shows "0 \<le> min c (a div k)" "k * min c (a div k) \<le> a" "a - k * min c (a div k) \<le> k"
proof -
  have q: "0 \<le> a div k" "k * (a div k) \<le> a" "a - k * (a div k) < k"
    using assms by (simp_all add: pos_imp_zdiv_nonneg_iff minus_mult_div_eq_mod minus_mod_eq_mult_div [symmetric])
  show "0 \<le> min c (a div k)" using q assms by simp
  have "k * min c (a div k) \<le> k * (a div k)" using assms(3) by simp
  then show "k * min c (a div k) \<le> a" using q(2) by linarith
  show "a - k * min c (a div k) \<le> k"
  proof (cases "a div k \<le> c")
    case True
    then show ?thesis using q by (simp add: min_def)
  next
    case False
    then show ?thesis using assms(2) by (simp add: min_def algebra_simps)
  qed
qed

lemma civil_year_parts:
  assumes "civil_year d = (y, k)"
  obtains e n100 q n1 where "y = 400 * e + 100 * n100 + 4 * q + n1 + 1" "d = 146097 * e + 36524 * n100 + 1461 * q + 365 * n1 + k"
    "0 \<le> n100" "n100 \<le> 3" "0 \<le> q" "q \<le> 24" "0 \<le> n1" "n1 \<le> 3" "0 \<le> k" "e = d div 146097"
proof -
  define a where "a = d mod 146097"
  define n100 where "n100 = min 3 (a div 36524)"
  define b where "b = a - 36524 * n100"
  define n1 where "n1 = min 3 (b mod 1461 div 365)"
  have "civil_year d = (400 * (d div 146097) + 100 * n100 + 4 * (b div 1461) + n1 + 1, b mod 1461 - 365 * n1)"
    unfolding civil_year_def Let_def n1_def b_def n100_def a_def by (rule refl)
  then have y: "y = 400 * (d div 146097) + 100 * n100 + 4 * (b div 1461) + n1 + 1" "k = b mod 1461 - 365 * n1"
    using assms by simp_all
  have a: "0 \<le> a" "a \<le> 146096" using pos_mod_bound [of 146097 d] by (simp_all add: a_def)
  have n100: "0 \<le> n100" "n100 \<le> 3" using a(1) by (simp_all add: n100_def pos_imp_zdiv_nonneg_iff)
  have b: "0 \<le> b"
    using cut_quotient(2) [of a 4 36524] a by (cases "a div 36524 \<le> 3") (auto simp: b_def n100_def min_def)
  have b': "b \<le> 36524"
  proof (cases "a div 36524 \<le> 3")
    case True
    then have "b = a mod 36524" by (simp add: b_def n100_def min_def minus_mult_div_eq_mod)
    then show ?thesis using pos_mod_bound [of 36524 a] by simp
  next
    case False
    then show ?thesis using a(2) by (simp add: b_def n100_def min_def)
  qed
  have r: "0 \<le> b mod 1461" by simp
  have n1: "0 \<le> n1" "n1 \<le> 3" using r(1) by (simp_all add: n1_def pos_imp_zdiv_nonneg_iff)
  have "365 * n1 \<le> 365 * (b mod 1461 div 365)" by (simp add: n1_def)
  also have "\<dots> \<le> b mod 1461" using mult_div_mod_eq [of 365 "b mod 1461"] pos_mod_sign [of 365 "b mod 1461"] by linarith
  finally have k: "0 \<le> k" using y(2) by simp
  have q: "0 \<le> b div 1461" "b div 1461 \<le> 24"
    using b zdiv_mono1 [OF b', of 1461] by (simp_all add: pos_imp_zdiv_nonneg_iff)
  have "d = 146097 * (d div 146097) + a" by (simp add: a_def)
  moreover have "a = 36524 * n100 + b" by (simp add: b_def)
  moreover have "b = 1461 * (b div 1461) + b mod 1461" by simp
  ultimately have "d = 146097 * (d div 146097) + 36524 * n100 + 1461 * (b div 1461) + 365 * n1 + k"
    using y(2) by linarith
  from that [OF y(1) this n100 q n1 k refl] show thesis .
qed

lemma civil_year_day:
  assumes "civil_year d = (y, k)"
  shows "d = 365 * (y - 1) + (y - 1) div 4 - (y - 1) div 100 + (y - 1) div 400 + k" "0 \<le> k" "0 \<le> d \<Longrightarrow> 1 \<le> y"
proof -
  obtain e n100 q n1 where p: "y = 400 * e + 100 * n100 + 4 * q + n1 + 1" "d = 146097 * e + 36524 * n100 + 1461 * q + 365 * n1 + k"
    "0 \<le> n100" "n100 \<le> 3" "0 \<le> q" "q \<le> 24" "0 \<le> n1" "n1 \<le> 3" "0 \<le> k" "e = d div 146097"
    using assms by (rule civil_year_parts)
  have cycles: "(y - 1) div 4 = 100 * e + 25 * n100 + q" "(y - 1) div 100 = 4 * e + n100" "(y - 1) div 400 = e"
    using p(1,3-8) by linarith+
  show "d = 365 * (y - 1) + (y - 1) div 4 - (y - 1) div 100 + (y - 1) div 400 + k"
    unfolding cycles p(2) unfolding p(1) by (simp add: algebra_simps)
  show "0 \<le> k" by (rule p(9))
  assume "0 \<le> d"
  then have "0 \<le> e" using p(10) by (simp add: pos_imp_zdiv_nonneg_iff)
  then show "1 \<le> y" using p(1,3,5,7) by linarith
qed

lemma month_day_inj:
  "month_day ls m d = month_day ls m d' \<Longrightarrow> d = d'"
  "month_day ls m d = (m', k) \<Longrightarrow> m \<le> m'"
  "0 \<le> d \<Longrightarrow> \<forall>l\<in>set ls. 0 \<le> l \<Longrightarrow> month_day ls m d = (m', k) \<Longrightarrow> 1 \<le> k"
proof -
  have lower: "m \<le> fst (month_day ls m d)" for ls m d
  proof (induction ls m d rule: month_day.induct)
    case (2 l ls m d)
    then show ?case by (cases "d < l") auto
  qed simp
  then show "month_day ls m d = (m', k) \<Longrightarrow> m \<le> m'" by (metis fst_conv)
  show "month_day ls m d = month_day ls m d' \<Longrightarrow> d = d'"
  proof (induction ls m d arbitrary: d' rule: month_day.induct)
    case (2 l ls m d)
    have "m < fst (month_day ls (m + 1) x)" for x using lower [of "m + 1" ls x] by simp
    then have "month_day ls (m + 1) x \<noteq> (m, z)" for x z by (metis fst_conv less_irrefl)
    then show ?case using "2.IH" [of "d' - l"] "2.prems" by (auto split: if_splits dest: sym)
  qed simp
  show "0 \<le> d \<Longrightarrow> \<forall>l\<in>set ls. 0 \<le> l \<Longrightarrow> month_day ls m d = (m', k) \<Longrightarrow> 1 \<le> k"
  proof (induction ls m d rule: month_day.induct)
    case (2 l ls m d)
    then show ?case by (cases "d < l") auto
  qed simp
qed

lemma civil_date_inj: "civil_date a = civil_date b \<Longrightarrow> a div (86400 * second) = b div (86400 * second)"
proof -
  assume eq: "civil_date a = civil_date b"
  obtain y k where a: "civil_year (a div (86400 * second) + unix_day_offset) = (y, k)" by fastforce
  obtain y' k' where b: "civil_year (b div (86400 * second) + unix_day_offset) = (y', k')" by fastforce
  have "y = y'" "month_day (month_lengths y) 1 k = month_day (month_lengths y') 1 k'"
    using eq a b by (auto simp: civil_date_def)
  then have "k = k'" using month_day_inj(1) by blast
  then show ?thesis using civil_year_day(1) [OF a] civil_year_day(1) [OF b] \<open>y = y'\<close> by simp
qed

lemma civil_clock_inj:
  assumes "civil_clock a = civil_clock b" shows "a div second mod 86400 = b div second mod 86400"
proof -
  have s: "s = 60 * (60 * (s div 3600) + s div 60 mod 60) + s mod 60" for s :: int
  proof -
    have "s div 3600 = s div 60 div 60" by (simp add: zdiv_zmult2_eq [symmetric])
    then show ?thesis by (metis mult.commute div_mult_mod_eq)
  qed
  have "a div second mod 86400 div 3600 = b div second mod 86400 div 3600"
    "a div second mod 86400 div 60 mod 60 = b div second mod 86400 div 60 mod 60"
    "a div second mod 86400 mod 60 = b div second mod 86400 mod 60"
    using assms unfolding civil_clock_def Let_def prod.inject by blast+
  then show ?thesis by (metis s)
qed

lemma same_second: "a div (86400 * second) = b div (86400 * second) \<Longrightarrow> a div second mod 86400 = b div second mod 86400 \<Longrightarrow>
    a div second = b div second"
proof -
  have d: "t div (86400 * second) = t div second div 86400" for t
    by (simp add: second_def zdiv_zmult2_eq [symmetric])
  assume "a div (86400 * second) = b div (86400 * second)" "a div second mod 86400 = b div second mod 86400"
  then show ?thesis unfolding d by (metis div_mult_mod_eq)
qed

lemma append_int_digits:
  assumes "0 \<le> n" "digit_val c = None" shows "c \<notin> set (append_int w n)"
proof
  assume "c \<in> set (append_int w n)"
  then have "c = CHR ''0'' \<or> c \<in> set (dec_digits (nat n))" using assms(1) set_pad_zero by (auto simp: append_int_def)
  then obtain d where "d < 10" "c = digit_char d" using dec_digits_chars digit_char_zero by (metis zero_less_numeral)
  then show False using assms(2) digit_val_char by simp
qed

lemma append_int_sep:
  assumes "append_int w n @ c # r = append_int w n' @ c # r'" "0 \<le> n" "0 \<le> n'" "digit_val c = None"
  shows "n = n' \<and> r = r'"
proof -
  have "go_cut c (append_int w n @ c # r) = go_cut c (append_int w n' @ c # r')" using assms(1) by simp
  then have "append_int w n = append_int w n'" "r = r'"
    using append_int_digits [OF assms(2,4)] append_int_digits [OF assms(3,4)] by (simp_all add: go_cut_append)
  moreover have "dec_val 0 (append_int w n) = Some (nat n)" "dec_val 0 (append_int w n') = Some (nat n')"
    using assms(2,3) by (simp_all add: append_int_def dec_val_pad_zero)
  ultimately show ?thesis using assms(2,3) by simp
qed

text \<open>Two instants since 1970 have the same stamp exactly when they lie in the same second.\<close>

lemma civil_date_range:
  assumes "0 \<le> t" "civil_date t = (y, m, d)" shows "0 \<le> y" "0 \<le> m" "0 \<le> d"
proof -
  obtain y' k where c: "civil_year (t div (86400 * second) + unix_day_offset) = (y', k)" by fastforce
  have day: "0 \<le> t div (86400 * second) + unix_day_offset"
    using assms(1) by (simp add: unix_day_offset_def second_def pos_imp_zdiv_nonneg_iff)
  have eq: "y' = y" "month_day (month_lengths y) 1 k = (m, d)" using assms(2) c by (auto simp: civil_date_def)
  have "\<forall>l\<in>set (month_lengths y). 0 \<le> l" by (simp add: month_lengths_def)
  then show "0 \<le> y" "0 \<le> m" "0 \<le> d"
    using civil_year_day(3) [OF c day] eq(1) month_day_inj(2) [OF eq(2)] month_day_inj(3) [OF civil_year_day(2) [OF c] _ eq(2)]
    by simp_all
qed

lemma civil_clock_range: "civil_clock t = (h, mi, s) \<Longrightarrow> 0 \<le> h \<and> 0 \<le> mi \<and> 0 \<le> s"
  unfolding civil_clock_def Let_def prod.inject
  using pos_mod_sign [of 86400 "t div second"] by (metis pos_imp_zdiv_nonneg_iff pos_mod_sign zero_less_numeral)

lemma format_stamp_iff:
  assumes "0 \<le> a" "0 \<le> b"
  shows "format_stamp a = format_stamp b \<longleftrightarrow> a div second = b div second"
proof
  obtain y m d h mi s where fa: "civil_date a = (y, m, d)" "civil_clock a = (h, mi, s)" by (metis prod_cases3)
  obtain y' m' d' h' mi' s' where fb: "civil_date b = (y', m', d')" "civil_clock b = (h', mi', s')" by (metis prod_cases3)
  note ra = civil_date_range [OF assms(1) fa(1)] civil_clock_range [OF fa(2)]
  note rb = civil_date_range [OF assms(2) fb(1)] civil_clock_range [OF fb(2)]
  assume eq: "format_stamp a = format_stamp b"
  have sep: "digit_val (CHR ''-'') = None" "digit_val (CHR ''T'') = None" "digit_val (CHR ''Z'') = None" by code_simp+
  note eq = eq [unfolded format_stamp_def fa fb prod.case append_Cons append_Nil]
  note y = append_int_sep [OF eq ra(1) rb(1) sep(1)]
  note m = append_int_sep [OF conjunct2 [OF y] ra(2) rb(2) sep(1)]
  note d = append_int_sep [OF conjunct2 [OF m] ra(3) rb(3) sep(2)]
  note h = append_int_sep [OF conjunct2 [OF d] _ _ sep(1)]
  note mi = append_int_sep [OF conjunct2 [OF h] _ _ sep(1)]
  note s = append_int_sep [OF conjunct2 [OF mi] _ _ sep(3)]
  have "civil_date a = civil_date b" "civil_clock a = civil_clock b"
    using y m d h mi s ra rb fa fb by simp_all
  then show "a div second = b div second" using civil_date_inj civil_clock_inj same_second by blast
next
  assume "a div second = b div second"
  moreover have "t div (86400 * second) = t div second div 86400" for t
    by (simp add: second_def zdiv_zmult2_eq [symmetric])
  ultimately show "format_stamp a = format_stamp b" by (simp add: format_stamp_def civil_date_def civil_clock_def)
qed

end
