(* ===== verification/Restore_Run.thy ===== *)
theory Restore_Run
  imports Run_Service Snap_Walk Go_Dates
begin

text \<open>
  Restores (src/internal/restore/restore.go): a snapshot of a Space is read back into a fresh folder of that
  Space. The life cycle of a run is the one of a backup: lock, job record, work, outcome, lock back.

  The collaborators are the backup runner's (its record, extended) with the writer into the Space and the engine's
  reading side; the fields only a backup uses are not touched. The walk hands entries to a callback that writes, so
  it works on the pair of the totals the callback counts and the world.
\<close>

subsection \<open>Collaborators and records\<close>

datatype restore_error =
    RsSpaceNotFound
  | RsNotConfigured
  | RsTargetUnavailable
  | RsSnapshotNotFound
  | RsInProgress
  | RsFailed
  | RsPanicked string
  | RsAcquireFailed jobs_error
  | RsCreateFailed jobs_error
  | RsListSpacesFailed string
  | RsConfigFailed cfg_error
  | RsTargetFailed target_error
  | RsKeysFailed store_key_error
  | RsNotAccepted string

record restore_stats =
  st_files :: int
  st_bytes :: int

definition no_stats :: restore_stats where "no_stats = \<lparr>st_files = 0, st_bytes = 0\<rparr>"

record 'w restore_deps = "'w run_deps" +
  re_mkdir :: "space \<Rightarrow> string \<Rightarrow> ('w, string, unit) op"
  re_upload :: "space \<Rightarrow> string \<Rightarrow> int \<Rightarrow> time \<Rightarrow> bytes \<Rightarrow> ('w, string, unit) op"
  re_list :: "repo \<Rightarrow> ('w, snap_error, snap_info list) op"
  re_walk :: "repo \<Rightarrow> string \<Rightarrow> (restored_entry \<Rightarrow> (restore_stats \<times> 'w, engine_failure, unit) op) \<Rightarrow>
    (restore_stats \<times> 'w, engine_failure, unit) op"

definition restore_root :: string where "restore_root = ''Restore''"

definition restore_folder_name :: "time \<Rightarrow> string" where
  "restore_folder_name t = path_join [restore_root, format_stamp t]"

definition restore_default_timeout :: duration where "restore_default_timeout = 6 * hour"

definition restore_run_timeout :: "'w restore_deps \<Rightarrow> duration" where
  "restore_run_timeout d = (if rd_timeout d > 0 then rd_timeout d else restore_default_timeout)"

record pending_restore =
  pr_space' :: space
  pr_snapshot :: string
  pr_job' :: job
  pr_folder :: string
  pr_begun :: time

record restore_result =
  rs_job :: string
  rs_space :: string
  rs_snapshot :: string
  rs_folder :: string
  rs_files :: int
  rs_bytes :: int
  rs_started :: time
  rs_finished :: time

subsection \<open>Resolving\<close>

definition restore_space :: "'w restore_deps \<Rightarrow> string \<Rightarrow> ('w, restore_error, space) op" where
  "restore_space d sp =
     try_op RsListSpacesFailed (rd_spaces d) (\<lambda>all.
       case find (\<lambda>s. sp_id s = sp) all of Some s \<Rightarrow> ok_op s | None \<Rightarrow> fail_op RsSpaceNotFound)"

definition restore_target :: "'w restore_deps \<Rightarrow> string \<Rightarrow> ('w, restore_error, location) op" where
  "restore_target d tid =
     (if tid = [] then fail_op RsNotConfigured
      else try_op (\<lambda>e. case e of NoTarget _ \<Rightarrow> RsTargetUnavailable | _ \<Rightarrow> RsTargetFailed e) (rd_target d tid) (\<lambda>t.
        case rd_open d (tg_wrapped t) of
          Inl _ \<Rightarrow> fail_op RsTargetUnavailable
        | Inr cs \<Rightarrow> ok_op (rt_location (target_location t (creds_for cs RoleBackup)))))"

definition restore_data_key :: "'w restore_deps \<Rightarrow> string \<Rightarrow> ('w, restore_error, bytes) op" where
  "restore_data_key d sp =
     try_op (\<lambda>e. case e of NoEnvelope _ \<Rightarrow> RsNotConfigured | _ \<Rightarrow> RsKeysFailed e) (rd_srw d sp) (\<lambda>w.
       case rd_unwrap d w of Inl _ \<Rightarrow> fail_op RsNotConfigured | Inr dk \<Rightarrow> ok_op dk)"

definition restore_open_repo :: "'w restore_deps \<Rightarrow> string \<Rightarrow> ('w, restore_error, repo) op" where
  "restore_open_repo d sp =
     try_op (\<lambda>e. case e of NoSpaceConfig _ \<Rightarrow> RsNotConfigured | _ \<Rightarrow> RsConfigFailed e) (rd_config d sp) (\<lambda>cfg.
     try_op id (restore_target d (cfg_target cfg)) (\<lambda>loc.
     try_op id (restore_data_key d sp) (\<lambda>dk.
     ok_op \<lparr>rp_location = loc, rp_space = sp, rp_dk = dk\<rparr>)))"

definition restore_list_snapshots :: "'w restore_deps \<Rightarrow> string \<Rightarrow> ('w, restore_error, snap_info list) op" where
  "restore_list_snapshots d sp =
     try_op id (restore_space d sp) (\<lambda>space.
     try_op id (restore_open_repo d (sp_id space)) (\<lambda>rp.
     try_op (\<lambda>_. RsTargetUnavailable) (re_list d rp) ok_op))"

subsection \<open>Writing the snapshot back\<close>

definition upload_entry ::
    "'w restore_deps \<Rightarrow> space \<Rightarrow> string \<Rightarrow> restored_entry \<Rightarrow> ('w, string, unit) op" where
  "upload_entry d space dest e =
     (case rn_content e of
        None \<Rightarrow> fail_op ''no content''
      | Some (Inl why) \<Rightarrow> fail_op why
      | Some (Inr content) \<Rightarrow> re_upload d space dest (rn_size e) (rn_mod e) content)"

definition restore_entry ::
    "'w restore_deps \<Rightarrow> pending_restore \<Rightarrow> restored_entry \<Rightarrow> (restore_stats \<times> 'w, engine_failure, unit) op" where
  "restore_entry d p e = (\<lambda>(st, w).
     let dest = path_join [pr_folder p, rn_path e] in
     if rn_dir e then
       (case re_mkdir d (pr_space' p) dest w of
          (Inl why, w) \<Rightarrow> (Inl (EngineError (LibraryError why)), (st, w))
        | (Inr _, w) \<Rightarrow> (Inr (), (st, w)))
     else
       (case upload_entry d (pr_space' p) dest e w of
          (Inl why, w) \<Rightarrow> (Inl (EngineError (LibraryError why)), (st, w))
        | (Inr _, w) \<Rightarrow> (Inr (), (\<lparr>st_files = st_files st + 1, st_bytes = st_bytes st + rn_size e\<rparr>, w))))"

definition walk_failed :: "engine_failure \<Rightarrow> restore_error" where
  "walk_failed e =
     (case e of
        EnginePanic p \<Rightarrow> RsPanicked p
      | EngineError x \<Rightarrow> if no_such_snapshot x then RsSnapshotNotFound else RsFailed)"

definition restore_snapshot :: "'w restore_deps \<Rightarrow> pending_restore \<Rightarrow> ('w, restore_error, restore_stats) op" where
  "restore_snapshot d p =
     try_op id (restore_open_repo d (sp_id (pr_space' p))) (\<lambda>rp.
     try_op (\<lambda>_. RsFailed) (re_mkdir d (pr_space' p) restore_root) (\<lambda>_.
     try_op (\<lambda>_. RsFailed) (re_mkdir d (pr_space' p) (pr_folder p)) (\<lambda>_ w.
       case re_walk d rp (pr_snapshot p) (restore_entry d p) (no_stats, w) of
         (Inl e, (_, w)) \<Rightarrow> (Inl (walk_failed e), w)
       | (Inr _, (st, w)) \<Rightarrow> (Inr st, w))))"

subsection \<open>A run\<close>

definition restore_message :: "restore_error \<Rightarrow> string" where
  "restore_message e =
     (case e of
        RsNotConfigured \<Rightarrow> ''backup is not configured for this space''
      | RsTargetUnavailable \<Rightarrow> ''the backup target is unavailable''
      | RsSnapshotNotFound \<Rightarrow> ''no such snapshot''
      | RsSpaceNotFound \<Rightarrow> ''space not found''
      | RsInProgress \<Rightarrow> ''a run is already in progress''
      | _ \<Rightarrow> ''the restore run failed'')"

definition restore_settle :: "'w restore_deps \<Rightarrow> pending_restore \<Rightarrow> outcome \<Rightarrow> 'w \<Rightarrow> 'w" where
  "restore_settle d p out w =
     (case record_outcome (rd_finish d (job_id (pr_job' p)) out) (rd_outcome d) w of
        (Inl _, _, w) \<Rightarrow> w
      | (Inr _, _, w) \<Rightarrow> rd_release d (sp_id (pr_space' p)) w)"

definition restore_fail :: "'w restore_deps \<Rightarrow> pending_restore \<Rightarrow> restore_error \<Rightarrow> 'w \<Rightarrow> 'w" where
  "restore_fail d p e = restore_settle d p (no_outcome\<lparr>out_state := state_failed, out_error := restore_message e\<rparr>)"

definition restore_job :: "string \<Rightarrow> string \<Rightarrow> string \<Rightarrow> job" where
  "restore_job sp i folder = (run_job sp kind_restore [])\<lparr>snapshot_id := i, restore_folder := folder\<rparr>"

definition restore_begin :: "'w restore_deps \<Rightarrow> string \<Rightarrow> string \<Rightarrow> ('w, restore_error, pending_restore) op" where
  "restore_begin d sp i =
     (if sp = [] then fail_op RsSpaceNotFound
      else if i = [] then fail_op RsSnapshotNotFound
      else try_op (\<lambda>e. if is_locked e then RsInProgress else RsAcquireFailed e) (rd_acquire d sp) (\<lambda>_ w.
        case restore_space d sp w of
          (Inl e, w) \<Rightarrow> (Inl e, rd_release d sp w)
        | (Inr space, w) \<Rightarrow>
           (let now = rd_now d w; folder = restore_folder_name now in
            case rd_create d (restore_job sp i folder) w of
              (Inl e, w) \<Rightarrow> (Inl (RsCreateFailed e), rd_release d sp w)
            | (Inr job, w) \<Rightarrow>
               (Inr \<lparr>pr_space' = space, pr_snapshot = i, pr_job' = job, pr_folder = folder, pr_begun = now\<rparr>, w))))"

definition restore_finish :: "'w restore_deps \<Rightarrow> pending_restore \<Rightarrow> ('w, restore_error, restore_result) op" where
  "restore_finish d p w =
     (case restore_snapshot d p w of
        (Inl e, w) \<Rightarrow> (Inl e, restore_fail d p e w)
      | (Inr st, w) \<Rightarrow>
         (let w = restore_settle d p (no_outcome\<lparr>out_state := state_succeeded, out_file_count := st_files st,
                out_total_bytes := st_bytes st\<rparr>) w
          in (Inr \<lparr>rs_job = job_id (pr_job' p), rs_space = sp_id (pr_space' p), rs_snapshot = pr_snapshot p,
                rs_folder = pr_folder p, rs_files = st_files st, rs_bytes = st_bytes st, rs_started = pr_begun p,
                rs_finished = rd_now d w\<rparr>, w)))"

definition run_restore :: "'w restore_deps \<Rightarrow> string \<Rightarrow> string \<Rightarrow> ('w, restore_error, restore_result) op" where
  "run_restore d sp i = try_op id (restore_begin d sp i) (restore_finish d)"

definition start_restore :: "'w restore_deps \<Rightarrow> string \<Rightarrow> string \<Rightarrow> ('w, restore_error, string \<times> pending_restore) op" where
  "start_restore d sp i =
     try_op id (restore_begin d sp i) (\<lambda>p w.
       case rd_background d w of
         (Inl e, w) \<Rightarrow> (Inl (RsNotAccepted e), restore_fail d p (RsNotAccepted e) w)
       | (Inr _, w) \<Rightarrow> (Inr (job_id (pr_job' p), p), w))"

end
