(* ===== verification/Restore_Safety.thy ===== *)
theory Restore_Safety
  imports Restore_Run
begin

text \<open>
  What a restore does to the Space it writes into, and to its lock and record: the engine's walk as a tree that is
  read and closed (\<open>tree_walk\<close>), the places a restore writes to, the wiring to the durable stores, and the
  properties of restores over it.
\<close>

subsection \<open>The engine's walk\<close>

text \<open>
  The repository is opened, the tree read and walked, and the repository closed whatever came of it. The library reads a
  directory when the walk reaches it; here what could be read, up to the read that \<open>broke\<close>, is read ahead of the
  writes, which go to another storage.
\<close>

definition tree_walk ::
    "('w, engine_failure, fs_entry list \<times> string option) op \<Rightarrow> ('w, engine_failure, unit) op \<Rightarrow>
     (restored_entry \<Rightarrow> ('t \<times> 'w, engine_failure, unit) op) \<Rightarrow> ('t \<times> 'w, engine_failure, unit) op" where
  "tree_walk tree close fn = (\<lambda>(t, w).
     case tree w of
       (Inl e, w) \<Rightarrow> (Inl e, (t, w))
     | (Inr (es, broke), w) \<Rightarrow>
        (case walk_dir fn (\<lambda>m. EngineError (LibraryError m)) [] es broke (t, w) of (r, (t, w)) \<Rightarrow>
        (case close w of (c, w) \<Rightarrow> ((case r of Inl e \<Rightarrow> Inl e | Inr _ \<Rightarrow> c), (t, w)))))"

lemma quiet_visit: "(\<And>x. x \<in> set xs \<Longrightarrow> quiet h k (fn x)) \<Longrightarrow> quiet h k (visit fn xs)"
proof (induction xs)
  case Nil
  show ?case by (simp add: quiet_ok_op)
next
  case (Cons x xs)
  then show ?case unfolding visit.simps by (intro quiet_try_op) simp_all
qed

lemma quiet_walk_dir:
  assumes "\<And>e. e \<in> set (fst (tree_entries dir es broke)) \<Longrightarrow> quiet h k (fn e)"
  shows "quiet h k (walk_dir fn rd dir es broke)"
  unfolding walk_visits ended_def
  by (intro quiet_try_op quiet_visit assms) (auto simp: quiet_ok_op quiet_fail_op split: option.splits)

lemma quiet_tree_walk:
  fixes tree :: "('w, engine_failure, fs_entry list \<times> string option) op"
    and fn :: "restored_entry \<Rightarrow> ('t \<times> 'w, engine_failure, unit) op"
  assumes "quiet h k tree" "quiet h k close"
    and "\<And>w es broke w' e. tree w = (Inr (es, broke), w') \<Longrightarrow> e \<in> set (fst (tree_entries [] es broke)) \<Longrightarrow>
      quiet (h \<circ> snd) (k \<circ> snd) (fn e)"
  shows "quiet (h \<circ> snd) (k \<circ> snd) (tree_walk tree close fn)"
  unfolding quiet_def
proof
  fix tw :: "'t \<times> 'w"
  obtain t w where tw: "tw = (t, w)" by fastforce
  obtain q w1 where read: "tree w = (q, w1)" by fastforce
  note one = quietD [OF assms(1) read]
  show "(h \<circ> snd) (snd (tree_walk tree close fn tw)) = (h \<circ> snd) tw \<and>
      ((k \<circ> snd) tw \<longrightarrow> (k \<circ> snd) (snd (tree_walk tree close fn tw)))"
  proof (cases q)
    case (Inl e)
    then show ?thesis using one read by (simp add: tw tree_walk_def)
  next
    case (Inr eb)
    obtain es broke where eb: "eb = (es, broke)" by fastforce
    obtain r t2 w2 where walk: "walk_dir fn (\<lambda>m. EngineError (LibraryError m)) [] es broke (t, w1) = (r, (t2, w2))"
      by (metis prod_cases3)
    have "quiet (h \<circ> snd) (k \<circ> snd) (walk_dir fn (\<lambda>m. EngineError (LibraryError m)) [] es broke)"
      using assms(3) read Inr eb by (intro quiet_walk_dir) blast
    note two = quietD [OF this walk]
    obtain c w3 where close: "close w2 = (c, w3)" by fastforce
    note three = quietD [OF assms(2) close]
    show ?thesis using one two three read Inr eb walk close by (simp add: tw tree_walk_def)
  qed
qed

subsection \<open>The work of a restore\<close>

text \<open>Where a restore into a folder may write.\<close>

definition restore_place :: "string \<Rightarrow> string \<Rightarrow> bool" where
  "restore_place folder q \<longleftrightarrow> (\<exists>rest. rest \<noteq> [] \<and> (\<forall>s\<in>set rest. plain_name s) \<and> q = folder @ ''/'' @ go_join ''/'' rest)"

lemma plain_stamp: "plain_name (format_stamp t)"
proof -
  have digits: "CHR ''/'' \<notin> set (append_int n x)" for n x
  proof
    assume "CHR ''/'' \<in> set (append_int n x)"
    then obtain m where "CHR ''/'' \<in> set (pad_zero n (dec_digits m))" by (auto simp: append_int_def split: if_splits)
    then have "CHR ''/'' = CHR ''0'' \<or> CHR ''/'' \<in> set (dec_digits m)" by (rule set_pad_zero)
    then obtain e where "e < 10" "CHR ''/'' = digit_char e" using dec_digits_chars by force
    then show False using digit_char_not_sign by metis
  qed
  have "last (format_stamp t) = CHR ''Z''" "format_stamp t \<noteq> []"
    by (auto simp: format_stamp_def split: prod.splits)
  moreover have "CHR ''/'' \<notin> set (format_stamp t)"
    using digits by (auto simp: format_stamp_def split: prod.splits)
  ultimately show ?thesis by (auto simp: plain_name_def)
qed

lemma restore_folder_join: "restore_folder_name t = restore_root @ ''/'' @ format_stamp t"
  using path_join_plain [of "[restore_root]" "[format_stamp t]"] plain_stamp
  by (simp add: restore_folder_name_def restore_root_def plain_name_def)

lemma restore_destination:
  assumes "sound_tree es" "e \<in> set (fst (tree_entries [] es broke))"
  shows "restore_place (restore_folder_name t) (path_join [restore_folder_name t, rn_path e])"
proof -
  have "below [] (set (map entry_name es)) (rn_path e)" using entries_below [OF assms(1) _ _ assms(2), of "[]"] by simp
  then obtain x more where p: "rn_path e = go_join ''/'' (x # more)" "\<forall>s\<in>set (x # more). plain_name s"
    by (auto simp: below_def)
  have folder: "restore_folder_name t = go_join ''/'' [restore_root, format_stamp t]"
    by (simp add: restore_folder_join)
  have "path_join [restore_folder_name t, rn_path e] = go_join ''/'' ([restore_root, format_stamp t] @ x # more)"
    unfolding folder p(1) by (rule path_join_plain) (use p(2) plain_stamp in \<open>auto simp: restore_root_def plain_name_def\<close>)
  also have "\<dots> = restore_folder_name t @ ''/'' @ go_join ''/'' (x # more)" by (simp add: restore_folder_join)
  finally show ?thesis using p(2) unfolding restore_place_def by blast
qed

lemma quiet_restore_entry:
  assumes "quiet h k (re_mkdir d (pr_space' p) (path_join [pr_folder p, rn_path e]))"
    and "\<And>n m c. quiet h k (re_upload d (pr_space' p) (path_join [pr_folder p, rn_path e]) n m c)"
  shows "quiet (h \<circ> snd) (k \<circ> snd) (restore_entry d p e)"
proof -
  let ?dest = "path_join [pr_folder p, rn_path e]"
  have up: "quiet h k (upload_entry d (pr_space' p) ?dest e)"
    using assms(2) by (auto simp: upload_entry_def quiet_fail_op split: option.splits sum.splits)
  have "h (snd (snd (restore_entry d p e (st, w)))) = h w \<and> (k w \<longrightarrow> k (snd (snd (restore_entry d p e (st, w)))))" for st w
  proof (cases "rn_dir e")
    case True
    obtain q w1 where q: "re_mkdir d (pr_space' p) ?dest w = (q, w1)" by fastforce
    from quietD [OF assms(1) q] q True show ?thesis by (cases q) (simp_all add: restore_entry_def)
  next
    case False
    obtain q w1 where q: "upload_entry d (pr_space' p) ?dest e w = (q, w1)" by fastforce
    from quietD [OF up q] q False show ?thesis by (cases q) (simp_all add: restore_entry_def)
  qed
  then show ?thesis by (simp add: quiet_def)
qed

lemma quiet_restore_snapshot:
  assumes walks: "\<And>rp i. re_walk d rp i = tree_walk (tree rp i) (close rp)"
    and config: "\<And>sp. quiet h k (rd_config d sp)" and target: "\<And>tid. quiet h k (rd_target d tid)" and srw: "\<And>sp. quiet h k (rd_srw d sp)"
    and tree: "\<And>rp i. quiet h k (tree rp i)" and close: "\<And>rp. quiet h k (close rp)"
    and root: "quiet h k (re_mkdir d (pr_space' p) restore_root)" and folder: "quiet h k (re_mkdir d (pr_space' p) (pr_folder p))"
    and entries: "\<And>rp i w es broke w' e. tree rp i w = (Inr (es, broke), w') \<Longrightarrow> e \<in> set (fst (tree_entries [] es broke)) \<Longrightarrow>
      quiet h k (re_mkdir d (pr_space' p) (path_join [pr_folder p, rn_path e])) \<and>
      (\<forall>n m c. quiet h k (re_upload d (pr_space' p) (path_join [pr_folder p, rn_path e]) n m c))"
  shows "quiet h k (restore_snapshot d p)"
proof -
  have repo: "quiet h k (restore_open_repo d sp)" for sp
    unfolding restore_open_repo_def restore_target_def restore_data_key_def
    by (intro quiet_try_op config quiet_ok_op) (auto intro!: quiet_try_op target srw quiet_ok_op quiet_fail_op split: sum.splits)
  have walk: "quiet (h \<circ> snd) (k \<circ> snd) (re_walk d rp i (restore_entry d p))" for rp i
    unfolding walks using entries by (intro quiet_tree_walk tree close quiet_restore_entry) blast+
  have "quiet h k (\<lambda>w. case re_walk d rp (pr_snapshot p) (restore_entry d p) (no_stats, w) of
      (Inl e, (_, w)) \<Rightarrow> (Inl (walk_failed e), w) | (Inr _, (st, w)) \<Rightarrow> (Inr st, w))" for rp
    unfolding quiet_def
  proof
    fix w
    obtain r st w1 where r: "re_walk d rp (pr_snapshot p) (restore_entry d p) (no_stats, w) = (r, (st, w1))"
      by (metis prod_cases3)
    from quietD [OF walk r] r
    show "h (snd (case re_walk d rp (pr_snapshot p) (restore_entry d p) (no_stats, w) of
          (Inl e, (_, w)) \<Rightarrow> (Inl (walk_failed e), w) | (Inr _, (st, w)) \<Rightarrow> (Inr st, w))) = h w \<and>
        (k w \<longrightarrow> k (snd (case re_walk d rp (pr_snapshot p) (restore_entry d p) (no_stats, w) of
          (Inl e, (_, w)) \<Rightarrow> (Inl (walk_failed e), w) | (Inr _, (st, w)) \<Rightarrow> (Inr st, w))))"
      by (cases r) auto
  qed
  then show ?thesis
    unfolding restore_snapshot_def by (intro quiet_try_op repo root folder)
qed

text \<open>The whole run, when giving a lock back and taking one leave the view and the invariant alone.\<close>

lemma quiet_restore_settle:
  assumes "\<And>i out t. quiet h k (rd_finish d i out t)" "\<And>sp w. h (rd_release d sp w) = h w \<and> (k w \<longrightarrow> k (rd_release d sp w))"
  shows "h (restore_settle d p out w) = h w \<and> (k w \<longrightarrow> k (restore_settle d p out w))"
proof -
  obtain r spent w1 where r: "record_outcome (rd_finish d (job_id (pr_job' p)) out) (rd_outcome d) w = (r, spent, w1)"
    by (metis prod_cases3)
  from record_outcome_quiet [OF r assms(1)] assms(2) [of _ w1] r show ?thesis
    by (cases r) (auto simp: restore_settle_def)
qed

lemma quiet_restore_finish:
  assumes "quiet h k (restore_snapshot d p)" "\<And>out w. h (restore_settle d p out w) = h w \<and> (k w \<longrightarrow> k (restore_settle d p out w))"
  shows "quiet h k (restore_finish d p)"
  unfolding quiet_def
proof
  fix w
  obtain q w1 where q: "restore_snapshot d p w = (q, w1)" by fastforce
  from quietD [OF assms(1) q] assms(2) [of _ w1] q
  show "h (snd (restore_finish d p w)) = h w \<and> (k w \<longrightarrow> k (snd (restore_finish d p w)))"
    by (cases q) (auto simp: restore_finish_def restore_fail_def Let_def)
qed

lemma quiet_restore_space: "quiet h k (rd_spaces d) \<Longrightarrow> quiet h k (restore_space d sp)"
  unfolding restore_space_def by (intro quiet_try_op) (auto simp: quiet_ok_op quiet_fail_op split: option.splits)

lemma quiet_run_restore:
  assumes "\<And>sp. quiet h k (rd_acquire d sp)" "\<And>sp w. h (rd_release d sp w) = h w \<and> (k w \<longrightarrow> k (rd_release d sp w))"
    and "quiet h k (rd_spaces d)" "\<And>j. quiet h k (rd_create d j)" "\<And>i out t. quiet h k (rd_finish d i out t)"
    and snapshot: "\<And>p. (\<exists>t. pr_folder p = restore_folder_name t) \<Longrightarrow> quiet h k (restore_snapshot d p)"
  shows "quiet h k (run_restore d sp i)"
  unfolding quiet_def
proof
  fix w
  obtain q w1 where b: "restore_begin d sp i w = (q, w1)" by fastforce
  have begun: "h w1 = h w \<and> (k w \<longrightarrow> k w1) \<and> (\<forall>p. q = Inr p \<longrightarrow> (\<exists>t. pr_folder p = restore_folder_name t))"
  proof (cases "sp = [] \<or> i = []")
    case True
    then show ?thesis using b by (auto simp: restore_begin_def split: if_splits)
  next
    case False
    obtain a w2 where a: "rd_acquire d sp w = (a, w2)" by fastforce
    obtain s w3 where s: "restore_space d sp w2 = (s, w3)" by fastforce
    obtain c w4 where c: "rd_create d (restore_job sp i (restore_folder_name (rd_now d w3))) w3 = (c, w4)" by fastforce
    note steps = quietD [OF assms(1) a] quietD [OF quiet_restore_space [OF assms(3)] s] quietD [OF assms(4) c]
      assms(2) [of sp w3] assms(2) [of sp w4]
    show ?thesis
      using b False a s c steps
      by (cases a; cases s; cases c) (auto simp: restore_begin_def try_op_def Let_def)
  qed
  show "h (snd (run_restore d sp i w)) = h w \<and> (k w \<longrightarrow> k (snd (run_restore d sp i w)))"
  proof (cases q)
    case (Inl e)
    then show ?thesis using b begun by (simp add: run_restore_def try_op_def)
  next
    case (Inr p)
    obtain f w2 where f: "restore_finish d p w1 = (f, w2)" by fastforce
    have "quiet h k (restore_finish d p)"
      using begun Inr by (intro quiet_restore_finish snapshot quiet_restore_settle assms(2,5)) blast
    from quietD [OF this f] show ?thesis using b begun Inr f by (simp add: run_restore_def try_op_def)
  qed
qed

subsection \<open>The durable wiring\<close>

text \<open>Outside are also the writer into the Space and the reading side of the engine.\<close>

record 'x restore_outside = "'x outside" +
  ow_mkdir :: "space \<Rightarrow> string \<Rightarrow> ('x, string, unit) op"
  ow_upload :: "space \<Rightarrow> string \<Rightarrow> int \<Rightarrow> time \<Rightarrow> bytes \<Rightarrow> ('x, string, unit) op"
  ow_list :: "repo \<Rightarrow> ('x, snap_error, snap_info list) op"
  ow_tree :: "repo \<Rightarrow> string \<Rightarrow> ('x, engine_failure, fs_entry list \<times> string option) op"
  ow_close :: "repo \<Rightarrow> ('x, engine_failure, unit) op"

definition wire_restorer ::
    "'v service_stores \<Rightarrow> 'x restore_outside \<Rightarrow> lease_options \<Rightarrow> (bytes \<Rightarrow> cred_error + credential_set) \<Rightarrow>
     (wrapped_dk \<Rightarrow> key_error + bytes) \<Rightarrow> duration \<Rightarrow> record_options \<Rightarrow> ('v, 'x) service restore_deps" where
  "wire_restorer st ox opts opener unwrap timeout ro =
     run_deps.extend (wire_runner st (outside.truncate ox) opts opener unwrap timeout ro)
       (restore_deps.fields
          (\<lambda>sp q. on_outside (ow_mkdir ox sp q))
          (\<lambda>sp q n m c. on_outside (ow_upload ox sp q n m c))
          (\<lambda>rp. on_outside (ow_list ox rp))
          (\<lambda>rp i. tree_walk (on_outside (ow_tree ox rp i)) (on_outside (ow_close ox rp))))"

lemma wire_restorer_fields:
  "rd_spaces (wire_restorer st ox opts opener unwrap timeout ro) = on_outside (ox_spaces ox)"
  "rd_config (wire_restorer st ox opts opener unwrap timeout ro) = rd_config (wire_runner st (outside.truncate ox) opts opener unwrap timeout ro)"
  "rd_target (wire_restorer st ox opts opener unwrap timeout ro) = rd_target (wire_runner st (outside.truncate ox) opts opener unwrap timeout ro)"
  "rd_srw (wire_restorer st ox opts opener unwrap timeout ro) = rd_srw (wire_runner st (outside.truncate ox) opts opener unwrap timeout ro)"
  "rd_acquire (wire_restorer st ox opts opener unwrap timeout ro) = rd_acquire (wire_runner st (outside.truncate ox) opts opener unwrap timeout ro)"
  "rd_release (wire_restorer st ox opts opener unwrap timeout ro) = rd_release (wire_runner st (outside.truncate ox) opts opener unwrap timeout ro)"
  "rd_create (wire_restorer st ox opts opener unwrap timeout ro) = rd_create (wire_runner st (outside.truncate ox) opts opener unwrap timeout ro)"
  "rd_finish (wire_restorer st ox opts opener unwrap timeout ro) = rd_finish (wire_runner st (outside.truncate ox) opts opener unwrap timeout ro)"
  "rd_outcome (wire_restorer st ox opts opener unwrap timeout ro) = ro"
  "re_mkdir (wire_restorer st ox opts opener unwrap timeout ro) = (\<lambda>sp q. on_outside (ow_mkdir ox sp q))"
  "re_upload (wire_restorer st ox opts opener unwrap timeout ro) = (\<lambda>sp q n m c. on_outside (ow_upload ox sp q n m c))"
  "re_walk (wire_restorer st ox opts opener unwrap timeout ro) =
    (\<lambda>rp i. tree_walk (on_outside (ow_tree ox rp i)) (on_outside (ow_close ox rp)))"
  by (simp_all add: wire_restorer_def run_deps.extend_def restore_deps.fields_def wire_runner_def outside.truncate_def)

text \<open>An invariant of what is outside.\<close>

lemma keeps_on_backend: "quiet (\<lambda>_ _. True) (J \<circ> sv_out) (on_backend f)"
  by (auto simp: quiet_def on_backend_def split: prod.splits)

lemma keeps_on_locker: "quiet (\<lambda>_ _. True) (J \<circ> sv_out) (on_locker f)"
  by (auto simp: quiet_def on_locker_def split: prod.splits)

lemma keeps_on_outside: "\<forall>x. J x \<longrightarrow> J (snd (f x)) \<Longrightarrow> quiet (\<lambda>_ _. True) (J \<circ> sv_out) (on_outside f)"
  by (auto simp: quiet_def on_outside_def split: prod.splits)

lemma on_outside_Inr: "on_outside f w = (Inr x, w') \<Longrightarrow> \<exists>y. f (sv_out w) = (Inr x, y)"
  by (auto simp: on_outside_def split: prod.splits)

text \<open>C17: a restore writes nowhere but into its own folder. Whatever fact about what is outside is kept by
  reading, by making the folder Restore and a restore's folder in it, and by writing at places below such a
  folder, is kept by a whole restore, whichever operation fails: live files are never touched. What is
  relied on is that a snapshot's tree is a tree of file names.\<close>

theorem restore_writes_only_its_folder:
  fixes w :: "('v, 'x) service"
  assumes "\<forall>rp i x es broke x'. ow_tree ox rp i x = (Inr (es, broke), x') \<longrightarrow> sound_tree es"
    and "\<forall>x. J x \<longrightarrow> J (snd (ox_spaces ox x))"
    and "\<forall>rp i x. J x \<longrightarrow> J (snd (ow_tree ox rp i x))" "\<forall>rp x. J x \<longrightarrow> J (snd (ow_close ox rp x))"
    and "\<forall>sp q t x. q = restore_root \<or> q = restore_folder_name t \<or> restore_place (restore_folder_name t) q \<longrightarrow>
      J x \<longrightarrow> J (snd (ow_mkdir ox sp q x))"
    and "\<forall>sp q t n m c x. restore_place (restore_folder_name t) q \<longrightarrow> J x \<longrightarrow> J (snd (ow_upload ox sp q n m c x))"
    and "J (sv_out w)"
  shows "J (sv_out (snd (run_restore (wire_restorer st ox opts opener unwrap timeout ro) sp i w)))"
proof -
  let ?d = "wire_restorer st ox opts opener unwrap timeout ro" and ?h = "\<lambda>(_ :: ('v, 'x) service) (_ :: string). True" and ?k = "J \<circ> sv_out :: ('v, 'x) service \<Rightarrow> bool"
  have out: "quiet ?h ?k (on_outside (ow_tree ox rp i))" "quiet ?h ?k (on_outside (ow_close ox rp))" for rp i
    using assms(3,4) by (intro keeps_on_outside; blast)+
  have snapshot: "quiet ?h ?k (restore_snapshot ?d p)" if "\<exists>t. pr_folder p = restore_folder_name t" for p
  proof (rule quiet_restore_snapshot [where tree = "\<lambda>rp i. on_outside (ow_tree ox rp i)" and close = "\<lambda>rp. on_outside (ow_close ox rp)"])
    from that obtain t where folder: "pr_folder p = restore_folder_name t" ..
    show "quiet ?h ?k (re_mkdir ?d (pr_space' p) restore_root)"
      unfolding wire_restorer_fields using assms(5) by (intro keeps_on_outside) blast
    show "quiet ?h ?k (re_mkdir ?d (pr_space' p) (pr_folder p))"
      unfolding wire_restorer_fields folder using assms(5) by (intro keeps_on_outside) blast
    fix rp i w es broke w' e
    assume tree: "on_outside (ow_tree ox rp i) w = (Inr (es, broke), w')" and e: "e \<in> set (fst (tree_entries [] es broke))"
    have "sound_tree es" using on_outside_Inr [OF tree] assms(1) by blast
    then have place: "restore_place (restore_folder_name t) (path_join [pr_folder p, rn_path e])"
      unfolding folder using e by (rule restore_destination)
    have "quiet ?h ?k (re_mkdir ?d (pr_space' p) (path_join [pr_folder p, rn_path e]))"
      unfolding wire_restorer_fields using assms(5) place by (intro keeps_on_outside) blast
    moreover have "quiet ?h ?k (re_upload ?d (pr_space' p) (path_join [pr_folder p, rn_path e]) n m c)" for n m c
      unfolding wire_restorer_fields using assms(6) place by (intro keeps_on_outside) blast
    ultimately show "quiet ?h ?k (re_mkdir ?d (pr_space' p) (path_join [pr_folder p, rn_path e])) \<and>
        (\<forall>n m c. quiet ?h ?k (re_upload ?d (pr_space' p) (path_join [pr_folder p, rn_path e]) n m c))" by blast
  qed (simp_all add: wire_restorer_fields wire_runner_def keeps_on_backend out)
  have "quiet ?h ?k (run_restore ?d sp i)"
  proof (rule quiet_run_restore)
    show "quiet ?h ?k (rd_acquire ?d sp)" for sp
      by (auto simp: wire_restorer_fields wire_runner_def quiet_def on_locker_def split: prod.splits)
    show "?h (rd_release ?d sp w) = ?h w \<and> (?k w \<longrightarrow> ?k (rd_release ?d sp w))" for sp w
      by (simp add: wire_restorer_fields wire_runner_def)
    show "quiet ?h ?k (rd_spaces ?d)"
      unfolding wire_restorer_fields using assms(2) by (rule keeps_on_outside)
    show "quiet ?h ?k (rd_create ?d j)" for j
      by (auto simp: wire_restorer_fields wire_runner_def quiet_def on_locker_def split: prod.splits)
    show "quiet ?h ?k (rd_finish ?d j out t)" for j out t
      by (auto simp: wire_restorer_fields wire_runner_def quiet_def on_locker_def split: prod.splits)
  qed (rule snapshot)
  then show ?thesis using assms(7) by (simp add: quiet_def)
qed

subsection \<open>What a successful restore has written\<close>

definition restored_files :: "restored_entry list \<Rightarrow> restored_entry list" where
  "restored_files es = filter (\<lambda>e. \<not> rn_dir e) es"

lemma visit_counts:
  "visit (restore_entry d p) es (st, w) = (Inr u, (st', w')) \<Longrightarrow>
    st_files st' = st_files st + int (length (restored_files es)) \<and>
    st_bytes st' = st_bytes st + sum_list (map rn_size (restored_files es))"
proof (induction es arbitrary: st w)
  case (Cons e es)
  obtain st1 w1 where e: "restore_entry d p e (st, w) = (Inr (), (st1, w1))"
    and rest: "visit (restore_entry d p) es (st1, w1) = (Inr u, (st', w'))"
    using Cons.prems by (cases "restore_entry d p e (st, w)") (auto elim!: try_op_cases)
  have "st_files st1 = st_files st + (if rn_dir e then 0 else 1) \<and> st_bytes st1 = st_bytes st + (if rn_dir e then 0 else rn_size e)"
    using e by (auto simp: restore_entry_def Let_def split: if_splits prod.splits sum.splits)
  with Cons.IH [OF rest] show ?case by (auto simp: restored_files_def)
qed (simp add: restored_files_def)

lemma join_inject_plain:
  assumes "\<forall>s\<in>set xs. plain_name s" "xs \<noteq> []" "below [] a p" "below [] b q"
    and "path_join [go_join ''/'' xs, p] = path_join [go_join ''/'' xs, q]"
  shows "p = q"
proof -
  obtain x more where p: "p = go_join ''/'' (x # more)" "\<forall>s\<in>set (x # more). plain_name s"
    using assms(3) by (auto simp: below_def)
  obtain y more' where q: "q = go_join ''/'' (y # more')" "\<forall>s\<in>set (y # more'). plain_name s"
    using assms(4) by (auto simp: below_def)
  have "go_join ''/'' (xs @ x # more) = go_join ''/'' (xs @ y # more')"
    using assms(5) path_join_plain [OF assms(2) _ assms(1) p(2)] path_join_plain [OF assms(2) _ assms(1) q(2)] p(1) q(1) by simp
  then have "xs @ x # more = xs @ y # more'"
    by (intro go_join_inject [of _ _ "CHR ''/''"]) (use p(2) q(2) assms(1) in \<open>auto simp: plain_name_def\<close>)
  then show ?thesis using p q by simp
qed

lemma destinations_distinct:
  assumes "sound_tree es"
  shows "distinct (map (\<lambda>e. path_join [restore_folder_name t, rn_path e]) (fst (tree_entries [] es broke)))"
proof -
  let ?es = "fst (tree_entries [] es broke)"
  have "distinct (map rn_path ?es)" using entries_distinct [OF assms, of "[]" "[]"] by simp
  moreover have "inj_on (\<lambda>q. path_join [restore_folder_name t, q]) (rn_path ` set ?es)"
  proof (rule inj_onI)
    fix a b assume a: "a \<in> rn_path ` set ?es" and b: "b \<in> rn_path ` set ?es"
      and eq: "path_join [restore_folder_name t, a] = path_join [restore_folder_name t, b]"
    have below: "below [] (set (map entry_name es)) (rn_path e)" if "e \<in> set ?es" for e
      using entries_below [OF assms _ _ that, of "[]"] by simp
    have folder: "restore_folder_name t = go_join ''/'' [restore_root, format_stamp t]" by (simp add: restore_folder_join)
    show "a = b"
      by (rule join_inject_plain [OF _ _ _ _ eq [unfolded folder]])
        (use a b below plain_stamp in \<open>auto simp: restore_root_def plain_name_def\<close>)
  qed
  ultimately show ?thesis
    using distinct_map [of "\<lambda>q. path_join [restore_folder_name t, q]" "map rn_path ?es"] by (simp add: comp_def)
qed


subsection \<open>A restore's lock and record\<close>

lemma restore_settle_is_settle:
  "restore_settle (wire_restorer st ox opts opener unwrap timeout ro) p out =
     settle (wire_runner st (outside.truncate ox) opts opener unwrap timeout ro)
       \<lparr>pn_space = pr_space' p, pn_job = pr_job' p, pn_started = pr_begun p\<rparr> out"
proof
  fix w
  have "rd_outcome (wire_runner st (outside.truncate ox) opts opener unwrap timeout ro) = ro" by (simp add: wire_runner_def)
  then show "restore_settle (wire_restorer st ox opts opener unwrap timeout ro) p out w =
     settle (wire_runner st (outside.truncate ox) opts opener unwrap timeout ro)
       \<lparr>pn_space = pr_space' p, pn_job = pr_job' p, pn_started = pr_begun p\<rparr> out w"
    unfolding restore_settle_def settle_def wire_restorer_fields pending.select_convs by simp
qed

text \<open>The contract of a run's lock and record holds of restores too: as for backups and prunes.\<close>

lemma restore_settles:
  assumes "reversible jenc jdec" "reversible lenc ldec"
    and "vs_jobs st = new_job_docs backend_store jenc jdec" "vs_leases st = new_lease_docs backend_store lenc ldec"
    and "index_in_jobs w" "holds_lock w (sp_id (pr_space' p))"
    and "restore_finish (wire_restorer st ox opts opener unwrap timeout ro) p w = (r, w')"
  shows "(holds_lock w' (sp_id (pr_space' p)) \<or> closed_job st w' (job_id (pr_job' p))) \<and>
    (\<forall>sp. sp \<noteq> sp_id (pr_space' p) \<longrightarrow> holds_lock w' sp = holds_lock w sp)"
proof -
  let ?d = "wire_restorer st ox opts opener unwrap timeout ro"
  note contract = service_run_contract [OF assms(1-4), of "outside.truncate ox" opts opener unwrap timeout ro]
  have snapshot: "quiet holds_lock index_in_jobs (restore_snapshot ?d p)"
    by (rule quiet_restore_snapshot [where tree = "\<lambda>rp i. on_outside (ow_tree ox rp i)" and close = "\<lambda>rp. on_outside (ow_close ox rp)"])
      (simp_all add: wire_restorer_fields quiet_on_outside run_services.quiet_config [OF contract]
        run_services.quiet_target [OF contract] run_services.quiet_srw [OF contract])
  obtain q w1 where q: "restore_snapshot ?d p w = (q, w1)" by fastforce
  note one = quietD [OF snapshot q]
  have "(holds_lock (restore_settle ?d p out w1) (sp_id (pr_space' p)) \<or> closed_job st (restore_settle ?d p out w1) (job_id (pr_job' p))) \<and>
      (\<forall>sp. sp \<noteq> sp_id (pr_space' p) \<longrightarrow> holds_lock (restore_settle ?d p out w1) sp = holds_lock w1 sp)" for out
    using run_services.settle_keeps_or_closes [OF contract, of w1 "\<lparr>pn_space = pr_space' p, pn_job = pr_job' p, pn_started = pr_begun p\<rparr>" out]
      one assms(5,6) by (simp add: restore_settle_is_settle)
  then show ?thesis
    using assms(7) q one by (cases q) (auto simp: restore_finish_def restore_fail_def Let_def)
qed

subsection \<open>A sample restore\<close>

datatype stored_doc =
    StJob job | StLease lease | StConfig space_config | StTarget target | StGrants "grant list" | StKey wrapped_dk | StKeys space_keys

fun st_job :: "stored_doc \<Rightarrow> job option" where "st_job (StJob j) = Some j" | "st_job _ = None"
fun st_lease :: "stored_doc \<Rightarrow> lease option" where "st_lease (StLease r) = Some r" | "st_lease _ = None"
fun st_config :: "stored_doc \<Rightarrow> space_config option" where "st_config (StConfig c) = Some c" | "st_config _ = None"
fun st_target :: "stored_doc \<Rightarrow> target option" where "st_target (StTarget t) = Some t" | "st_target _ = None"
fun st_grants :: "stored_doc \<Rightarrow> grant list option" where "st_grants (StGrants gs) = Some gs" | "st_grants _ = None"
fun st_key :: "stored_doc \<Rightarrow> wrapped_dk option" where "st_key (StKey k) = Some k" | "st_key _ = None"
fun st_keys :: "stored_doc \<Rightarrow> space_keys option" where "st_keys (StKeys k) = Some k" | "st_keys _ = None"

definition restore_stores :: "stored_doc service_stores" where
  "restore_stores = \<lparr>vs_jobs = new_job_docs backend_store (\<lambda>j. Some (StJob j)) st_job,
     vs_leases = new_lease_docs backend_store (\<lambda>r. Some (StLease r)) st_lease,
     vs_config = new_cfg_store backend_store (\<lambda>c. Some (StConfig c)) st_config,
     vs_targets = new_target_store backend_store (\<lambda>t. Some (StTarget t)) st_target (\<lambda>gs. Some (StGrants gs)) st_grants,
     vs_keys = new_key_store backend_store (\<lambda>k. Some (StKey k)) st_key (\<lambda>k. Some (StKeys k)) st_keys\<rparr>"

text \<open>A service whose Space \<open>a\<close> is set up, a user's live file, and a snapshot with two files in it.\<close>

definition restore_backend :: "stored_doc backend" where
  "restore_backend =
     snd (put_srw (vs_keys restore_stores) 3 ''a'' \<lparr>wd_version = 1, wd_kind = wrap_srw, wd_blob = [7], wd_created = 3\<rparr>
      (snd (create_target (vs_targets restore_stores) 2 (sample_target ''t'')
        (snd (cfg_put (vs_config restore_stores) \<lparr>cfg_space = ''a'', cfg_target = ''t'', cfg_window = 0, cfg_schedule = [],
           cfg_enabled = True, cfg_created = 0, cfg_updated = 0\<rparr> 1 \<lparr>contents = [], faults = []\<rparr>)))))"

type_synonym files = "(string \<times> bytes) list"

definition restore_service :: "(stored_doc, files) service" where
  "restore_service = \<lparr>sv_locker = new_locker restore_backend 0, sv_out = [(''Documents/a'', [9])]\<rparr>"

definition sample_tree :: "fs_entry list" where
  "sample_tree = [FsDir ''d'' 0 [FsFile ''f'' 3 0 (Inr [1, 2, 3])] None, FsOther ''link'', FsFile ''g'' 2 0 (Inr [4, 5])]"

definition restore_world :: "files restore_outside" where
  "restore_world = \<lparr>ox_spaces = (\<lambda>x. (Inr [sample_space], x)),
     ox_snapshot = (\<lambda>_ _ x. (Inl (EnginePanic []), x)), ox_prune = (\<lambda>_ _ x. (Inl (EnginePanic []), x)),
     ox_publish = None, ox_probe = None, ox_background = (\<lambda>x. (Inr (), x)), ox_deadline = (\<lambda>_. False),
     ox_now = (\<lambda>_. 7), ox_new_id = (\<lambda>_. Some ''j1''),
     ow_mkdir = (\<lambda>_ _ x. (Inr (), x)), ow_upload = (\<lambda>_ q _ _ c x. (Inr (), x @ [(q, c)])),
     ow_list = (\<lambda>_ x. (Inr [], x)), ow_tree = (\<lambda>_ _ x. (Inr (sample_tree, None), x)), ow_close = (\<lambda>_ x. (Inr (), x))\<rparr>"

definition sample_restorer :: "(stored_doc, files) service restore_deps" where
  "sample_restorer = wire_restorer restore_stores restore_world sample_options
     (\<lambda>_. Inr \<lparr>cs_backup = \<lparr>pc_id = ''k'', pc_secret = ''s''\<rparr>, cs_maintenance = no_creds\<rparr>) (\<lambda>_. Inr [1])
     0 \<lparr>ro_attempts = 0, ro_timeout = 0, ro_backoff = 0\<rparr>"

lemma sample_tree_sound: "\<forall>rp i x es broke x'. ow_tree restore_world rp i x = (Inr (es, broke), x') \<longrightarrow> sound_tree es"
  by (auto simp: restore_world_def sample_tree_def plain_name_def)

definition live_file :: "files \<Rightarrow> bool" where
  "live_file x \<longleftrightarrow> filter (\<lambda>(q, _). q = ''Documents/a'') x = [(''Documents/a'', [9])]"

theorem restore_writes_only_its_folder_witness:
  "\<exists>res w. run_restore sample_restorer ''a'' ''s1'' restore_service = (Inr res, w) \<and> rs_files res = 2 \<and> live_file (sv_out w)"
proof -
  have "case run_restore sample_restorer ''a'' ''s1'' restore_service of (Inl _, _) \<Rightarrow> False | (Inr res, _) \<Rightarrow> rs_files res = 2"
    by code_simp
  then obtain res w where run: "run_restore sample_restorer ''a'' ''s1'' restore_service = (Inr res, w)" "rs_files res = 2"
    by (cases "run_restore sample_restorer ''a'' ''s1'' restore_service") (auto split: sum.splits)
  have elsewhere: "restore_place (restore_folder_name t) q \<Longrightarrow> q \<noteq> ''Documents/a''" for t q
    by (auto simp: restore_place_def restore_folder_join restore_root_def)
  have "live_file (sv_out (snd (run_restore (wire_restorer restore_stores restore_world sample_options
     (\<lambda>_. Inr \<lparr>cs_backup = \<lparr>pc_id = ''k'', pc_secret = ''s''\<rparr>, cs_maintenance = no_creds\<rparr>) (\<lambda>_. Inr [1])
     0 \<lparr>ro_attempts = 0, ro_timeout = 0, ro_backoff = 0\<rparr>) ''a'' ''s1'' restore_service)))"
    by (rule restore_writes_only_its_folder [OF sample_tree_sound])
      (use elsewhere in \<open>auto simp: restore_world_def live_file_def restore_service_def\<close>)
  then show ?thesis using run by (auto simp: sample_restorer_def)
qed


end
