(* ===== verification/Notify_Events.thy ===== *)
theory Notify_Events
  imports Jobs_State Go_Flow "HOL-Library.Sublist"
begin

text \<open>
  Notification events (src/internal/notify/notify.go) and their durable store (src/internal/notify/state.go): what
  an event is and who may see it, one document per event under \<open>notifications/<scope>/<nanos>-<id>\<close>, and the
  notifier, which records an event first and hands it to the sinks afterwards.

  The scope is a Space's id or the operator's own, so that one listing never mixes the two audiences. The lemmas
  give the invariant of the stored events and what a listing and a trim can and cannot do to it.
\<close>

subsection \<open>Events\<close>

definition kind_run_failed :: string where "kind_run_failed = ''run_failed''"
definition kind_backup_stale :: string where "kind_backup_stale = ''backup_stale''"
definition kind_target_unavailable :: string where "kind_target_unavailable = ''target_unavailable''"
definition kind_state_unreadable :: string where "kind_state_unreadable = ''state_unreadable''"

definition audience_members :: string where "audience_members = ''space_members''"
definition audience_operator :: string where "audience_operator = ''operator''"

lemmas event_constants = kind_run_failed_def kind_backup_stale_def kind_target_unavailable_def
  kind_state_unreadable_def audience_members_def audience_operator_def

record event =
  ev_id :: string
  ev_kind :: string
  ev_audience :: string
  ev_space :: string
  ev_message :: string
  ev_created :: time

definition scope_operator :: string where "scope_operator = ''operator''"

definition event_scope :: "event \<Rightarrow> string" where
  "event_scope e = (if ev_audience e = audience_operator then scope_operator else ev_space e)"

datatype notify_error =
    EventKindRequired
  | EventNeedsSpace
  | OperatorNamesSpace
  | UnknownAudience
  | EventMessageRequired
  | EventIdFailed
  | EventSpaceRequired
  | NotifyState string state_error
  | NotifyWrapped string notify_error

definition validate_event :: "event \<Rightarrow> notify_error option" where
  "validate_event e =
     (if ev_kind e = [] then Some EventKindRequired
      else if ev_audience e = audience_members \<and> ev_space e = [] then Some EventNeedsSpace
      else if ev_audience e = audience_operator \<and> ev_space e \<noteq> [] then Some OperatorNamesSpace
      else if ev_audience e \<noteq> audience_members \<and> ev_audience e \<noteq> audience_operator then Some UnknownAudience
      else if ev_message e = [] then Some EventMessageRequired
      else None)"

subsection \<open>The durable store\<close>

definition event_prefix :: string where "event_prefix = ''notifications''"

definition event_time_width :: nat where "event_time_width = 19"

definition new_event_docs ::
    "('s, 'v) store \<Rightarrow> (event \<Rightarrow> 'v option) \<Rightarrow> ('v \<Rightarrow> event option) \<Rightarrow> ('s, 'v, event) documents" where
  "new_event_docs st enc dec = new_documents st event_prefix enc dec"

definition event_document_name :: "time \<Rightarrow> string \<Rightarrow> string" where
  "event_document_name created i = format_int_width event_time_width (unix_nano created) @ ''-'' @ i"

definition event_created_from_key :: "string \<Rightarrow> time option" where
  "event_created_from_key key =
     (case go_cut (CHR ''-'') (go_after_last (CHR ''/'') key) of
        None \<Rightarrow> None
      | Some (stamp, rest) \<Rightarrow> parse_int64 stamp)"

text \<open>\<open>now\<close> is the clock's reading and \<open>new_id\<close> the random id, or \<open>None\<close> when there is no randomness.\<close>

definition event_stamped :: "event \<Rightarrow> time \<Rightarrow> event" where
  "event_stamped e now = (if is_zero_time (ev_created e) then e\<lparr>ev_created := now\<rparr> else e)"

definition event_append ::
    "('s, 'v, event) documents \<Rightarrow> event \<Rightarrow> time \<Rightarrow> string option \<Rightarrow> ('s, notify_error, event) op" where
  "event_append d e now new_id =
     require_op (validate_event e)
       (let e = event_stamped e now in
        case (if ev_id e \<noteq> [] then Some (ev_id e) else new_id) of
          None \<Rightarrow> fail_op EventIdFailed
        | Some i \<Rightarrow>
            let e = e\<lparr>ev_id := i\<rparr>; key = docs_key d [event_scope e, event_document_name (ev_created e) i]
            in try_op (NotifyState ''notify: store event'') (docs_create_key d key e) (\<lambda>_. ok_op e))"

text \<open>A key that cannot be read is left out of the answer.\<close>

fun event_walk :: "('s, 'v, event) documents \<Rightarrow> string list \<Rightarrow> event list \<Rightarrow> 's \<Rightarrow> event list \<times> 's" where
  "event_walk d [] out s = (out, s)"
| "event_walk d (k # ks) out s =
     (case docs_get_key d k s of
        (Inl e, s) \<Rightarrow> event_walk d ks out s
      | (Inr e, s) \<Rightarrow> event_walk d ks (out @ [e]) s)"

definition newest_keys :: "string list \<Rightarrow> int \<Rightarrow> string list" where
  "newest_keys ks limit =
     rev (if limit > 0 \<and> int (length ks) > limit then drop (length ks - nat limit) ks else ks)"

definition event_list_scope ::
    "('s, 'v, event) documents \<Rightarrow> string \<Rightarrow> int \<Rightarrow> ('s, notify_error, event list) op" where
  "event_list_scope d scope limit =
     try_op (NotifyState ''notify: list events'') (docs_keys d [scope]) (\<lambda>ks s.
       case event_walk d (newest_keys ks limit) [] s of (out, s) \<Rightarrow> (Inr out, s))"

definition event_list :: "('s, 'v, event) documents \<Rightarrow> string \<Rightarrow> int \<Rightarrow> ('s, notify_error, event list) op" where
  "event_list d sp limit = (if sp = [] then fail_op EventSpaceRequired else event_list_scope d sp limit)"

definition event_list_operator :: "('s, 'v, event) documents \<Rightarrow> int \<Rightarrow> ('s, notify_error, event list) op" where
  "event_list_operator d limit = event_list_scope d scope_operator limit"

text \<open>A trim that fails midway still says how many it removed.\<close>

fun event_prune_keys ::
    "('s, 'v, event) documents \<Rightarrow> time \<Rightarrow> string list \<Rightarrow> nat \<Rightarrow> ('s, nat \<times> notify_error, nat) op" where
  "event_prune_keys d cutoff [] removed s = (Inr removed, s)"
| "event_prune_keys d cutoff (k # ks) removed s =
     (case event_created_from_key k of
        None \<Rightarrow> event_prune_keys d cutoff ks removed s
      | Some created \<Rightarrow>
          if \<not> created < cutoff then event_prune_keys d cutoff ks removed s
          else (case docs_delete_key d k s of
                  (Inr u, s) \<Rightarrow> event_prune_keys d cutoff ks (removed + 1) s
                | (Inl e, s) \<Rightarrow>
                    if \<not> is_not_found e then (Inl (removed, NotifyState ''notify: prune events'' e), s)
                    else event_prune_keys d cutoff ks (removed + 1) s))"

definition event_prune_before ::
    "('s, 'v, event) documents \<Rightarrow> time \<Rightarrow> ('s, nat \<times> notify_error, nat) op" where
  "event_prune_before d cutoff s =
     (case docs_keys d [] s of
        (Inl e, s) \<Rightarrow> (Inl (0, NotifyState ''notify: list events'' e), s)
      | (Inr ks, s) \<Rightarrow> event_prune_keys d cutoff ks 0 s)"

subsection \<open>The notifier\<close>

record 'w notifier =
  nt_append :: "event \<Rightarrow> ('w, notify_error, event) op"
  nt_sinks :: "(event \<Rightarrow> ('w, string, unit) op) list"
  nt_now :: "'w \<Rightarrow> time"

fun deliver_all :: "(event \<Rightarrow> ('w, string, unit) op) list \<Rightarrow> event \<Rightarrow> 'w \<Rightarrow> 'w" where
  "deliver_all [] e w = w"
| "deliver_all (sink # sinks) e w = deliver_all sinks e (snd (sink e w))"

definition notify :: "'w notifier \<Rightarrow> event \<Rightarrow> ('w, notify_error, event) op" where
  "notify n e =
     require_op (validate_event e) (\<lambda>w.
       try_op (NotifyWrapped ''notify: record event'') (nt_append n (event_stamped e (nt_now n w)))
         (\<lambda>recorded w. (Inr recorded, deliver_all (nt_sinks n) recorded w)) w)"

definition space_event :: "'w notifier \<Rightarrow> string \<Rightarrow> string \<Rightarrow> string \<Rightarrow> ('w, notify_error, event) op" where
  "space_event n kind sp msg =
     notify n \<lparr>ev_id = [], ev_kind = kind, ev_audience = audience_members, ev_space = sp, ev_message = msg,
       ev_created = zero_time\<rparr>"

definition operator_event :: "'w notifier \<Rightarrow> string \<Rightarrow> string \<Rightarrow> ('w, notify_error, event) op" where
  "operator_event n kind msg =
     notify n \<lparr>ev_id = [], ev_kind = kind, ev_audience = audience_operator, ev_space = [], ev_message = msg,
       ev_created = zero_time\<rparr>"


subsection \<open>What is stored\<close>

text \<open>Every stored event is valid and filed under its own scope, time and id.\<close>

definition event_place :: "('s, 'v, event) documents \<Rightarrow> event \<Rightarrow> string" where
  "event_place d e = docs_key d [event_scope e, event_document_name (ev_created e) (ev_id e)]"

definition events_filed :: "('s, 'v, event) documents \<Rightarrow> (string \<rightharpoonup> 'v) \<Rightarrow> bool" where
  "events_filed d v \<longleftrightarrow>
     (\<forall>k e. has_segment_prefix k event_prefix \<longrightarrow> doc_at d v k = Some e \<longrightarrow> validate_event e = None \<and> k = event_place d e)"

definition stored_events :: "('s, 'v, event) documents \<Rightarrow> (string \<rightharpoonup> 'v) \<Rightarrow> event set" where
  "stored_events d v = {e. \<exists>k. has_segment_prefix k event_prefix \<and> doc_at d v k = Some e}"

lemma event_scope_not_nil: "validate_event e = None \<Longrightarrow> event_scope e \<noteq> []"
  by (auto simp: validate_event_def event_scope_def scope_operator_def split: if_splits)

lemma validate_event_update [simp]:
  "validate_event (e\<lparr>ev_id := i\<rparr>) = validate_event e" "validate_event (e\<lparr>ev_created := t\<rparr>) = validate_event e"
  by (simp_all add: validate_event_def)

lemma event_scope_update [simp]:
  "event_scope (e\<lparr>ev_id := i\<rparr>) = event_scope e" "event_scope (e\<lparr>ev_created := t\<rparr>) = event_scope e"
  by (simp_all add: event_scope_def)

lemma validate_event_stamped [simp]: "validate_event (event_stamped e now) = validate_event e"
  by (simp add: event_stamped_def)

lemma event_stamped_simps [simp]:
  "event_scope (event_stamped e now) = event_scope e" "ev_kind (event_stamped e now) = ev_kind e"
  "ev_space (event_stamped e now) = ev_space e" "ev_audience (event_stamped e now) = ev_audience e"
  "ev_message (event_stamped e now) = ev_message e" "ev_id (event_stamped e now) = ev_id e"
  by (simp_all add: event_stamped_def)

text \<open>What an append may write: the event, stamped, with an id.\<close>

definition event_given :: "event \<Rightarrow> time \<Rightarrow> string option \<Rightarrow> event option" where
  "event_given e now new_id =
     map_option (\<lambda>i. (event_stamped e now)\<lparr>ev_id := i\<rparr>) (if ev_id e \<noteq> [] then Some (ev_id e) else new_id)"

lemma subseq_set: "subseq xs ys \<Longrightarrow> x \<in> set xs \<Longrightarrow> x \<in> set ys"
  by (induction rule: list_emb.induct) auto

locale event_docs = collection st view d
  for st :: "('s, 'v) store" and view :: "'s \<Rightarrow> string \<rightharpoonup> 'v" and d :: "('s, 'v, event) documents" +
  assumes prefix: "d_prefix d = event_prefix"
begin

lemma event_key_prefix: "has_segment_prefix (docs_key d ids) event_prefix"
  by (simp add: has_segment_prefix_iff event_prefix_def docs_key_def prefix)

lemma scope_key_prefix:
  assumes "sp \<noteq> []" "has_segment_prefix k (docs_key d [sp])"
  shows "has_segment_prefix k event_prefix"
proof -
  have "\<exists>r. k = docs_key d [sp] @ r"
    using assms by (auto simp: has_segment_prefix_iff last_docs_key)
  then show ?thesis
    by (auto simp: has_segment_prefix_iff docs_key_def prefix event_prefix_def)
qed

lemma append_cases:
  assumes "event_append d e now i s = (r, s')"
  shows "(view s' = view s \<and> (\<exists>x. r = Inl x)) \<or>
    (\<exists>e' raw. event_given e now i = Some e' \<and> validate_event e = None \<and> d_encode d e' = Some raw \<and>
       view s (event_place d e') = None \<and> view s' = (view s)(event_place d e' \<mapsto> raw) \<and> (\<forall>x. r = Inr x \<longrightarrow> x = e'))"
proof (cases "validate_event e = None")
  case False
  then show ?thesis using assms by (auto simp: event_append_def elim: require_op_cases)
next
  case ok: True
  show ?thesis
  proof (cases "event_given e now i")
    case None
    then show ?thesis
      using assms ok by (auto simp: event_append_def event_given_def require_op_def fail_op_def Let_def split: if_splits)
  next
    case (Some e')
    then have run: "try_op (NotifyState ''notify: store event'') (docs_create_key d (event_place d e') e') (\<lambda>_. ok_op e') s = (r, s')"
      using assms ok
      by (auto simp: event_append_def event_given_def event_place_def require_op_def Let_def split: option.splits if_splits)
    obtain q s1 where c: "docs_create_key d (event_place d e') e' s = (q, s1)" by fastforce
    show ?thesis
      proof (cases q)
      case (Inr u)
      obtain raw where "d_encode d e' = Some raw" "view s (event_place d e') = None" "view s1 = (view s)(event_place d e' \<mapsto> raw)"
        using docs_create_key_ok [OF c [unfolded Inr]] by blast
      then show ?thesis using run c Inr Some ok by (auto simp: try_op_def)
    next
      case (Inl x)
      have "r = Inl (NotifyState ''notify: store event'' x)" "s' = s1" using run c Inl by (simp_all add: try_op_def)
      then show ?thesis using docs_create_key_fails [OF c [unfolded Inl]] Some ok by auto
    qed
  qed
qed

lemma append_filed:
  assumes "events_filed d (view s)" "event_append d e now i s = (r, s')"
  shows "events_filed d (view s')"
proof -
  from append_cases [OF assms(2)] consider "view s' = view s"
    | e' raw where "event_given e now i = Some e'" "validate_event e = None" "d_encode d e' = Some raw"
        "view s' = (view s)(event_place d e' \<mapsto> raw)"
    by blast
  then show ?thesis
  proof cases
    case 1
    then show ?thesis using assms(1) by simp
  next
    case 2
    have "validate_event e' = None" using 2 by (auto simp: event_given_def)
    moreover have "doc_at d (view s') k = (if k = event_place d e' then Some e' else doc_at d (view s) k)" for k
      using 2 by (simp add: doc_at_def codec)
    ultimately show ?thesis using assms(1) by (auto simp: events_filed_def)
  qed
qed

lemma append_stored:
  assumes "event_append d e now i s = (r, s')"
  shows "(stored_events d (view s') = stored_events d (view s) \<and> (\<exists>x. r = Inl x)) \<or>
    (\<exists>e'. event_given e now i = Some e' \<and> validate_event e = None \<and>
       stored_events d (view s') = insert e' (stored_events d (view s)) \<and> (\<forall>x. r = Inr x \<longrightarrow> x = e'))"
proof -
  from append_cases [OF assms] consider "view s' = view s" "\<exists>x. r = Inl x"
    | e' raw where "event_given e now i = Some e'" "validate_event e = None" "d_encode d e' = Some raw"
        "view s (event_place d e') = None" "view s' = (view s)(event_place d e' \<mapsto> raw)" "\<forall>x. r = Inr x \<longrightarrow> x = e'"
    by blast
  then show ?thesis
  proof cases
    case 2
    have at: "doc_at d (view s') k = (if k = event_place d e' then Some e' else doc_at d (view s) k)" for k
      using 2 by (simp add: doc_at_def codec)
    have free: "doc_at d (view s) (event_place d e') = None" using 2 by (simp add: doc_at_def)
    have pre: "has_segment_prefix (event_place d e') event_prefix" by (simp add: event_place_def event_key_prefix)
    have "x \<in> stored_events d (view s') \<longleftrightarrow> x \<in> insert e' (stored_events d (view s))" for x
    proof (cases "x = e'")
      case True
      then show ?thesis using at pre by (auto simp: stored_events_def)
    next
      case False
      have "x \<in> stored_events d (view s') \<longleftrightarrow> x \<in> stored_events d (view s)"
        unfolding stored_events_def mem_Collect_eq by (intro ex_cong1) (use at free False in auto)
      then show ?thesis using False by simp
    qed
    then show ?thesis using 2 by blast
  qed simp
qed

lemma walk_view: "event_walk d ks out s = (es, s') \<Longrightarrow> view s' = view s"
proof (induction ks arbitrary: out s)
  case (Cons k ks)
  obtain q s1 where g: "docs_get_key d k s = (q, s1)" by fastforce
  then show ?case using Cons docs_get_key_view [OF g] by (cases q) fastforce+
qed simp

lemma walk_read:
  "event_walk d ks out s = (es, s') \<Longrightarrow> \<exists>es'. es = out @ es' \<and> subseq es' (List.map_filter (doc_at d (view s)) ks)"
proof (induction ks arbitrary: out s)
  case (Cons k ks)
  obtain q s1 where g: "docs_get_key d k s = (q, s1)" by fastforce
  have v: "view s1 = view s" by (rule docs_get_key_view [OF g])
  show ?case
  proof (cases q)
    case (Inl x)
    then obtain es' where "es = out @ es'" "subseq es' (List.map_filter (doc_at d (view s)) ks)"
      using Cons.IH [of out s1] Cons.prems g v by auto
    then show ?thesis by (cases "doc_at d (view s) k") auto
  next
    case (Inr x)
    then obtain es' where "es = (out @ [x]) @ es'" "subseq es' (List.map_filter (doc_at d (view s)) ks)"
      using Cons.IH [of "out @ [x]" s1] Cons.prems g v by auto
    then show ?thesis using docs_get_key_ok [OF g [unfolded Inr]] by auto
  qed
qed simp

text \<open>A listing answers events of its own scope only.\<close>

lemma list_scope_view: "event_list_scope d scope limit s = (r, s') \<Longrightarrow> view s' = view s"
  by (auto simp: event_list_scope_def elim!: try_op_cases split: prod.splits dest!: walk_view docs_keys_view)

lemma set_newest_keys: "set (newest_keys ks n) \<subseteq> set ks"
  by (auto simp: newest_keys_def dest: in_set_dropD)

lemma list_scope_keys:
  assumes "event_list_scope d scope limit s = (Inr es, s')"
  obtains ks where "sorted ks" "distinct ks" "set ks = {k \<in> dom (view s). has_segment_prefix k (docs_key d [scope])}"
    "subseq es (List.map_filter (doc_at d (view s)) (newest_keys ks limit))"
proof -
  from assms obtain ks s1 where l: "docs_keys d [scope] s = (Inr ks, s1)"
    and w: "event_walk d (newest_keys ks limit) [] s1 = (es, s')"
    by (auto simp: event_list_scope_def elim!: try_op_cases split: prod.splits)
  have "store_list st (docs_key d [scope]) s = (Inr ks, s1)" using l by (simp add: docs_keys_def store_of)
  from list_ok [OF this] walk_read [OF w] docs_keys_view [OF l] show thesis by (intro that) auto
qed

lemma list_scope_events:
  assumes "events_filed d (view s)" "scope \<noteq> []" "event_list_scope d scope limit s = (Inr es, s')" "e \<in> set es"
  shows "e \<in> stored_events d (view s) \<and> event_scope e = scope \<and> validate_event e = None"
proof -
  obtain ks where ks: "set ks = {k \<in> dom (view s). has_segment_prefix k (docs_key d [scope])}"
    "subseq es (List.map_filter (doc_at d (view s)) (newest_keys ks limit))"
    by (rule list_scope_keys [OF assms(3)])
  have "e \<in> set (List.map_filter (doc_at d (view s)) (newest_keys ks limit))"
    by (rule subseq_set [OF ks(2) assms(4)])
  then obtain k where k: "k \<in> set ks" "doc_at d (view s) k = Some e"
    unfolding in_set_map_filter using set_newest_keys [of ks limit] by blast
  have p: "has_segment_prefix k (docs_key d [scope])" using k ks by blast
  have pre: "has_segment_prefix k event_prefix" by (rule scope_key_prefix [OF assms(2) p])
  then have f: "validate_event e = None" "k = event_place d e" using assms(1) k by (auto simp: events_filed_def)
  then have "event_scope e = scope"
    using p docs_key_below [OF event_scope_not_nil [OF f(1)] assms(2), of d] by (auto simp: event_place_def)
  then show ?thesis using f k pre by (auto simp: stored_events_def)
qed

text \<open>A trim removes only events whose key says they are older than the cutoff.\<close>

lemma prune_keys_view:
  "event_prune_keys d cutoff ks n s = (r, s') \<Longrightarrow> view s' k = view s k \<or>
    (view s' k = None \<and> k \<in> set ks \<and> (\<exists>t. event_created_from_key k = Some t \<and> t < cutoff))"
proof (induction ks arbitrary: n s)
  case (Cons a ks)
  show ?case
  proof (cases "\<exists>t. event_created_from_key a = Some t \<and> t < cutoff")
    case False
    then have "event_prune_keys d cutoff ks n s = (r, s')" using Cons.prems by (auto split: option.splits if_splits)
    then show ?thesis using Cons.IH by auto
  next
    case True
    obtain q s1 where g: "docs_delete_key d a s = (q, s1)" by fastforce
    have del: "view s1 = view s \<or> view s1 = (view s)(a := None)"
      using g by (cases q) (auto simp: docs_delete_key_def store_of dest: delete_ok delete_fails)
    have "s1 = s' \<or> event_prune_keys d cutoff ks (n + 1) s1 = (r, s')"
      using Cons.prems True g by (auto split: sum.splits if_splits)
    then show ?thesis using Cons.IH [of "n + 1" s1] del True by (auto split: if_splits)
  qed
qed simp

lemma prune_view:
  assumes "event_prune_before d cutoff s = (r, s')"
  shows "view s' k = view s k \<or> (view s' k = None \<and> has_segment_prefix k event_prefix \<and>
    (\<exists>t. event_created_from_key k = Some t \<and> t < cutoff))"
proof -
  obtain q s1 where l: "docs_keys d [] s = (q, s1)" by fastforce
  note v = docs_keys_view [OF l]
  show ?thesis
  proof (cases q)
    case (Inl x)
    then show ?thesis using assms l v by (simp add: event_prune_before_def)
  next
    case (Inr ks)
    have "store_list st event_prefix s = (Inr ks, s1)" using l Inr by (simp add: docs_keys_def store_of prefix)
    then have "set ks \<subseteq> {k. has_segment_prefix k event_prefix}" using list_set by blast
    then show ?thesis
      using assms l v Inr prune_keys_view [of cutoff ks 0 s1 r s' k] by (auto simp: event_prune_before_def)
  qed
qed

lemma prune_filed:
  assumes "events_filed d (view s)" "event_prune_before d cutoff s = (r, s')"
  shows "events_filed d (view s')"
proof -
  have "doc_at d (view s') k = doc_at d (view s) k \<or> doc_at d (view s') k = None" for k
    using prune_view [OF assms(2), of k] by (auto simp: doc_at_def)
  then show ?thesis using assms(1) unfolding events_filed_def by (metis option.simps(3))
qed

end

subsection \<open>On the service's own store\<close>

lemma event_docs_new: "kv_store st view \<Longrightarrow> reversible enc dec \<Longrightarrow> event_docs st view (new_event_docs st enc dec)"
  using collection_new [of st view enc dec event_prefix]
  by (simp add: event_docs_def event_docs_axioms_def new_event_docs_def new_documents_def)

interpretation raw_events: event_docs backend_store backend_view "new_event_docs backend_store Some Some"
  by (rule event_docs_new [OF backend.kv_store_axioms]) (simp add: reversible_def)

lemmas service_events = event_docs_new [OF backend.kv_store_axioms]

text \<open>
  What happens to the stored events while the service runs: an event is recorded, for the operator or for a
  Space, or old ones are trimmed; each call may fail at any of its store operations. A Space's id is not the
  operator's scope (the ids OpenCloud gives are not).
\<close>

inductive event_step ::
    "('v backend, 'v, event) documents \<Rightarrow> 'v backend \<Rightarrow> 'v backend \<Rightarrow> bool" for d where
  recorded: "event_append d e now i s = (r, s') \<Longrightarrow> ev_space e \<noteq> scope_operator \<Longrightarrow> event_step d s s'"
| trimmed: "event_prune_before d cutoff s = (r, s') \<Longrightarrow> event_step d s s'"
| elsewhere: "(\<And>k. has_segment_prefix k event_prefix \<Longrightarrow> backend_view s' k = backend_view s k) \<Longrightarrow> event_step d s s'"

definition audiences_apart :: "('v backend, 'v, event) documents \<Rightarrow> 'v backend \<Rightarrow> bool" where
  "audiences_apart d s \<longleftrightarrow> events_filed d (backend_view s) \<and>
     (\<forall>e\<in>stored_events d (backend_view s). ev_space e \<noteq> scope_operator)"

lemma doc_at_same: "v k = w k \<Longrightarrow> doc_at d v k = doc_at d w k"
  by (simp add: doc_at_def)

lemma event_step_apart:
  assumes "reversible enc dec" "event_step (new_event_docs backend_store enc dec) s s'"
    "audiences_apart (new_event_docs backend_store enc dec) s"
  shows "audiences_apart (new_event_docs backend_store enc dec) s'"
  using assms(2)
proof cases
  case (recorded e now i r)
  note ev = service_events [OF assms(1)]
  show ?thesis
    using event_docs.append_stored [OF ev recorded(1)] event_docs.append_filed [OF ev _ recorded(1)] assms(3) recorded(2)
    by (auto simp: audiences_apart_def event_given_def)
next
  case (trimmed cutoff r)
  note ev = service_events [OF assms(1)]
  let ?d = "new_event_docs backend_store enc dec"
  have "doc_at ?d (backend_view s') k = doc_at ?d (backend_view s) k \<or> doc_at ?d (backend_view s') k = None" for k
    using event_docs.prune_view [OF ev trimmed(1), of k] by (auto simp: doc_at_def)
  then have "doc_at ?d (backend_view s) k = Some e" if "doc_at ?d (backend_view s') k = Some e" for k e
    using that by (metis option.simps(3))
  then have "stored_events ?d (backend_view s') \<subseteq> stored_events ?d (backend_view s)"
    by (auto simp: stored_events_def)
  then show ?thesis using event_docs.prune_filed [OF ev _ trimmed(1)] assms(3) by (auto simp: audiences_apart_def)
next
  case elsewhere
  have "doc_at (new_event_docs backend_store enc dec) (backend_view s') k =
      doc_at (new_event_docs backend_store enc dec) (backend_view s) k" if "has_segment_prefix k event_prefix" for k
    by (rule doc_at_same) (rule elsewhere [OF that])
  then have "stored_events (new_event_docs backend_store enc dec) (backend_view s') =
      stored_events (new_event_docs backend_store enc dec) (backend_view s)"
    and "events_filed (new_event_docs backend_store enc dec) (backend_view s') \<longleftrightarrow>
      events_filed (new_event_docs backend_store enc dec) (backend_view s)"
    unfolding stored_events_def events_filed_def by (simp_all cong: conj_cong)
  then show ?thesis using assms(3) by (simp add: audiences_apart_def)
qed

text \<open>C26: what the operator is shown never names a Space, and what a Space's members are shown is about their
  Space. From a store without events, whatever events are recorded and trimmed and whichever store calls
  fail on the way, the operator's listing holds operator events without a Space id only, and a
  Space's listing holds that Space's member events only, whatever the limit. No Space is taken to have the id
  operator, under which the operator's events are filed: notify.go says of it that it is not a valid Space id.\<close>

theorem audiences_never_mix:
  assumes "reversible enc dec"
    and "\<forall>k. has_segment_prefix k event_prefix \<longrightarrow> backend_view s0 k = None"
    and "(event_step (new_event_docs backend_store enc dec))\<^sup>*\<^sup>* s0 s"
  shows "(event_list_operator (new_event_docs backend_store enc dec) limit s = (Inr es, s1) \<longrightarrow>
      (\<forall>e\<in>set es. ev_audience e = audience_operator \<and> ev_space e = [])) \<and>
    (sp \<noteq> scope_operator \<longrightarrow> event_list (new_event_docs backend_store enc dec) sp limit s = (Inr es, s1) \<longrightarrow>
      (\<forall>e\<in>set es. ev_audience e = audience_members \<and> ev_space e = sp))"
proof -
  let ?d = "new_event_docs backend_store enc dec"
  have "audiences_apart ?d s0"
    using assms(2) by (auto simp: audiences_apart_def events_filed_def stored_events_def doc_at_def)
  with assms(3) have ok: "audiences_apart ?d s"
    by (induction rule: rtranclp_induct) (auto intro: event_step_apart [OF assms(1)])
  note listed = event_docs.list_scope_events [OF service_events [OF assms(1)], of s _ limit]
  have filed: "events_filed ?d (backend_view s)" using ok by (simp add: audiences_apart_def)
  have apart: "ev_space e \<noteq> scope_operator" if "e \<in> stored_events ?d (backend_view s)" for e
    using ok that by (auto simp: audiences_apart_def)
  show ?thesis
  proof (intro conjI impI ballI)
    fix e assume "event_list_operator ?d limit s = (Inr es, s1)" "e \<in> set es"
    then have e: "e \<in> stored_events ?d (backend_view s) \<and> event_scope e = scope_operator \<and> validate_event e = None"
      using listed [OF filed, of scope_operator] by (simp add: event_list_operator_def scope_operator_def)
    then show "ev_audience e = audience_operator" "ev_space e = []"
      using apart by (auto simp: validate_event_def event_scope_def split: if_splits)
  next
    fix e assume sp: "sp \<noteq> scope_operator" and "event_list ?d sp limit s = (Inr es, s1)" "e \<in> set es"
    then have "e \<in> stored_events ?d (backend_view s) \<and> event_scope e = sp \<and> validate_event e = None"
      using listed [OF filed, of sp] by (auto simp: event_list_def fail_op_def split: if_splits)
    then show "ev_audience e = audience_members" "ev_space e = sp"
      using sp by (auto simp: validate_event_def event_scope_def split: if_splits)
  qed
qed

definition sample_member_event :: event where
  "sample_member_event = \<lparr>ev_id = [], ev_kind = kind_run_failed, ev_audience = audience_members, ev_space = ''s'',
     ev_message = ''m'', ev_created = zero_time\<rparr>"

definition sample_operator_event :: event where
  "sample_operator_event = \<lparr>ev_id = [], ev_kind = kind_target_unavailable, ev_audience = audience_operator, ev_space = [],
     ev_message = ''o'', ev_created = zero_time\<rparr>"

abbreviation raw_event_docs :: "(event backend, event, event) documents" where
  "raw_event_docs \<equiv> new_event_docs backend_store Some Some"

definition sample_events :: "event backend" where
  "sample_events =
     snd (event_append raw_event_docs sample_operator_event 6 (Some ''bb'')
       (snd (event_append raw_event_docs sample_member_event 5 (Some ''aa'') \<lparr>contents = [], faults = [Works]\<rparr>)))"

lemma sample_events_reached: "(event_step raw_event_docs)\<^sup>*\<^sup>* \<lparr>contents = [], faults = [Works]\<rparr> sample_events"
proof -
  have one: "event_step raw_event_docs s (snd (event_append raw_event_docs e t i s))" if "ev_space e \<noteq> scope_operator" for e t i s
    using recorded [OF _ that, of raw_event_docs t i s] by (metis prod.collapse)
  have a: "ev_space sample_member_event \<noteq> scope_operator" and b: "ev_space sample_operator_event \<noteq> scope_operator"
    by code_simp+
  show ?thesis
    unfolding sample_events_def
    by (rule rtranclp.rtrancl_into_rtrancl, rule r_into_rtranclp, rule one [OF a], rule one [OF b])
qed

theorem audiences_never_mix_witness:
  "\<exists>es s1. event_list_operator raw_event_docs 5 sample_events = (Inr es, s1) \<and> length es = 1 \<and>
     (\<forall>e\<in>set es. ev_audience e = audience_operator \<and> ev_space e = [])"
proof -
  have "fst (event_list_operator raw_event_docs 5 sample_events) = Inr [sample_operator_event\<lparr>ev_id := ''bb'', ev_created := 6\<rparr>]"
    by code_simp
  then obtain s1 where l: "event_list_operator raw_event_docs 5 sample_events =
      (Inr [sample_operator_event\<lparr>ev_id := ''bb'', ev_created := 6\<rparr>], s1)"
    by (metis prod.collapse)
  have empty: "\<forall>k. has_segment_prefix k event_prefix \<longrightarrow> backend_view \<lparr>contents = [], faults = [Works]\<rparr> k = (None :: event option)"
    by (simp add: backend_view_def)
  have rev: "reversible (Some :: event \<Rightarrow> _) Some" by (simp add: reversible_def)
  show ?thesis
    using l audiences_never_mix [OF rev empty sample_events_reached, of 5 _ s1 "''s''"] by simp
qed

end
