(* ===== verification/Notify_Monitor.thy ===== *)
theory Notify_Monitor
  imports Notify_Events Sched_Core Run_Service Go_Dates
begin

text \<open>
  Stale backups and failed runs (src/internal/notify/stale.go, monitor.go and reporter.go): the rule that says when
  a Space's backups have gone stale, the sweep that tells the Space's members, the report of unreadable
  records to the operator, and what a finished run is reported as.

  The sweep logs what it could not do and goes on; the model returns those log entries, so that a Space that was
  not told is accounted for.
\<close>

subsection \<open>The staleness rule\<close>

definition stale_lookback :: int where "stale_lookback = 50"
definition default_min_stale_after :: duration where "default_min_stale_after = 36 * hour"
definition default_repeat_after :: duration where "default_repeat_after = 7 * 24 * hour"
definition stale_factor :: int where "stale_factor = 2"
definition event_lookback :: int where "event_lookback = 20"

record staleness =
  sl_stale :: bool
  sl_since :: time

definition not_stale :: staleness where "not_stale = \<lparr>sl_stale = False, sl_since = zero_time\<rparr>"

definition schedule_interval :: "cron_library \<Rightarrow> string \<Rightarrow> time \<Rightarrow> duration option" where
  "schedule_interval cron expr from_time =
     (case next_after cron expr from_time of
        Inl e \<Rightarrow> None
      | Inr first \<Rightarrow>
          if is_zero_time first then None
          else (case next_after cron expr first of
                  Inl e \<Rightarrow> None
                | Inr after \<Rightarrow>
                    if is_zero_time after then None
                    else (let interval = time_sub after first in if interval \<le> 0 then None else Some interval)))"

definition stale_threshold :: "cron_library \<Rightarrow> duration \<Rightarrow> space_config \<Rightarrow> time \<Rightarrow> duration" where
  "stale_threshold cron floor cfg from_time =
     (let threshold = (if floor \<le> 0 then default_min_stale_after else floor) in
      case schedule_interval cron (effective_schedule cfg) from_time of
        None \<Rightarrow> threshold
      | Some interval \<Rightarrow>
          (let scaled = wrap_int64 (stale_factor * interval) in if scaled > threshold then scaled else threshold))"

definition assess :: "cron_library \<Rightarrow> duration \<Rightarrow> space_config \<Rightarrow> job list \<Rightarrow> time \<Rightarrow> staleness" where
  "assess cron floor cfg backups now =
     (if \<not> cfg_enabled cfg then not_stale
      else (let since = (case last_of backups kind_backup state_succeeded of
                           Some j \<Rightarrow> created_at j | None \<Rightarrow> cfg_created cfg) in
            if is_zero_time since then not_stale
            else \<lparr>sl_stale = time_sub now since > stale_threshold cron floor cfg since, sl_since = since\<rparr>))"

text \<open>A caller that hands over the newest records decides as the whole history does, as long as a success is among them
  or there is none.\<close>

lemma find_take_Some: "find P (take n xs) = Some x \<Longrightarrow> find P xs = Some x"
proof (induction xs arbitrary: n)
  case (Cons a xs)
  show ?case
  proof (cases n)
    case (Suc k)
    show ?thesis
    proof (cases "P a")
      case False
      then have "find P (take k xs) = Some x" using Cons.prems Suc by simp
      then show ?thesis using Cons.IH False by simp
    qed (use Cons.prems Suc in simp)
  qed (use Cons.prems in simp)
qed simp

lemma assess_in_window:
  assumes "last_of (take n backups) kind_backup state_succeeded \<noteq> None \<or> last_of backups kind_backup state_succeeded = None"
  shows "assess cron floor cfg (take n backups) now = assess cron floor cfg backups now"
proof -
  have "last_of (take n backups) kind_backup state_succeeded = last_of backups kind_backup state_succeeded"
  proof (cases "last_of (take n backups) kind_backup state_succeeded")
    case (Some j)
    then have "last_of backups kind_backup state_succeeded = Some j"
      unfolding last_of_find by (rule find_take_Some)
    then show ?thesis using Some by simp
  next
    case None
    then show ?thesis using assms by simp
  qed
  then show ?thesis by (simp add: assess_def)
qed

text \<open>Fifty failures in a row hide the success before them: the Space is measured from its configuration's creation.\<close>

lemma failures_hide_success:
  assumes "\<forall>j\<in>set failures. job_state j \<noteq> state_succeeded" "int (length failures) = stale_lookback"
    and "cfg_enabled cfg" "\<not> is_zero_time (cfg_created cfg)"
  shows "sl_since (assess cron floor cfg (take (nat stale_lookback) (failures @ older)) now) = cfg_created cfg"
proof -
  have "take (nat stale_lookback) (failures @ older) = failures" using assms(2) by simp
  moreover have "last_of failures kind_backup state_succeeded = None"
    using assms(1) by (auto simp: last_of_find find_None_iff state_succeeded_def)
  ultimately show ?thesis using assms(3,4) by (simp add: assess_def Let_def)
qed

subsection \<open>The monitor\<close>

datatype monitor_log =
    ConfigsUnread
  | StateUnreadable nat
  | OperatorHistoryUnread
  | UnreadableNotRecorded
  | StalenessUnknown string
  | EventHistoryUnread string
  | StaleNotRecorded string

record 'w monitor =
  mo_configs :: "('w, cfg_error, space_config list \<times> string list) op"
  mo_history :: "string \<Rightarrow> job_kind \<Rightarrow> int \<Rightarrow> ('w, jobs_error, job list) op"
  mo_events :: "string \<Rightarrow> int \<Rightarrow> ('w, notify_error, event list) op"
  mo_operator_events :: "int \<Rightarrow> ('w, notify_error, event list) op"
  mo_notifier :: "'w notifier"
  mo_cron :: cron_library
  mo_min_stale :: duration
  mo_repeat :: duration

definition new_monitor :: "'w monitor \<Rightarrow> 'w monitor" where
  "new_monitor m =
     m\<lparr>mo_min_stale := (if mo_min_stale m \<le> 0 then default_min_stale_after else mo_min_stale m),
       mo_repeat := (if mo_repeat m \<le> 0 then default_repeat_after else mo_repeat m)\<rparr>"

definition stale_message :: "time \<Rightarrow> string" where
  "stale_message since =
     ''This space has had no successful backup since '' @ format_day since @ ''. Check its backup settings.''"

definition unreadable_message :: "nat \<Rightarrow> string" where
  "unreadable_message n =
     dec_digits n @ '' stored record(s) could not be read. Spaces whose configuration is affected are not being backed up.''"

definition told_within :: "duration \<Rightarrow> string \<Rightarrow> event list \<Rightarrow> time \<Rightarrow> bool" where
  "told_within repeat kind events now =
     (case find (\<lambda>e. ev_kind e = kind) events of
        None \<Rightarrow> False
      | Some e \<Rightarrow> time_sub now (ev_created e) < repeat)"

definition notified_recently :: "'w monitor \<Rightarrow> string \<Rightarrow> time \<Rightarrow> ('w, notify_error, bool) op" where
  "notified_recently m sp now =
     try_op id (mo_events m sp event_lookback) (\<lambda>es. ok_op (told_within (mo_repeat m) kind_backup_stale es now))"

definition notified_recently_to_operator :: "'w monitor \<Rightarrow> string \<Rightarrow> time \<Rightarrow> ('w, notify_error, bool) op" where
  "notified_recently_to_operator m kind now =
     try_op id (mo_operator_events m event_lookback) (\<lambda>es. ok_op (told_within (mo_repeat m) kind es now))"

definition is_stale :: "'w monitor \<Rightarrow> space_config \<Rightarrow> time \<Rightarrow> ('w, jobs_error, staleness) op" where
  "is_stale m cfg now =
     try_op (JobsWrapped ''notify: read run history'') (mo_history m (cfg_space cfg) kind_backup stale_lookback)
       (\<lambda>history. ok_op (assess (mo_cron m) (mo_min_stale m) cfg history now))"

definition report_unreadable :: "'w monitor \<Rightarrow> nat \<Rightarrow> time \<Rightarrow> 'w \<Rightarrow> monitor_log list \<times> 'w" where
  "report_unreadable m bad now w =
     (if bad = 0 then ([], w)
      else (case notified_recently_to_operator m kind_state_unreadable now w of
              (Inl e, w) \<Rightarrow> ([StateUnreadable bad, OperatorHistoryUnread], w)
            | (Inr True, w) \<Rightarrow> ([StateUnreadable bad], w)
            | (Inr False, w) \<Rightarrow>
                (case operator_event (mo_notifier m) kind_state_unreadable (unreadable_message bad) w of
                   (Inl e, w) \<Rightarrow> ([StateUnreadable bad, UnreadableNotRecorded], w)
                 | (Inr e, w) \<Rightarrow> ([StateUnreadable bad], w))))"

definition sweep_space :: "'w monitor \<Rightarrow> time \<Rightarrow> space_config \<Rightarrow> 'w \<Rightarrow> monitor_log list \<times> 'w" where
  "sweep_space m now cfg w =
     (if \<not> cfg_enabled cfg then ([], w)
      else (case is_stale m cfg now w of
              (Inl e, w) \<Rightarrow> ([StalenessUnknown (cfg_space cfg)], w)
            | (Inr v, w) \<Rightarrow>
                if \<not> sl_stale v then ([], w)
                else (case notified_recently m (cfg_space cfg) now w of
                        (Inl e, w) \<Rightarrow> ([EventHistoryUnread (cfg_space cfg)], w)
                      | (Inr True, w) \<Rightarrow> ([], w)
                      | (Inr False, w) \<Rightarrow>
                          (case space_event (mo_notifier m) kind_backup_stale (cfg_space cfg)
                                  (stale_message (sl_since v)) w of
                             (Inl e, w) \<Rightarrow> ([StaleNotRecorded (cfg_space cfg)], w)
                           | (Inr e, w) \<Rightarrow> ([], w)))))"

fun sweep_spaces :: "'w monitor \<Rightarrow> time \<Rightarrow> space_config list \<Rightarrow> 'w \<Rightarrow> monitor_log list \<times> 'w" where
  "sweep_spaces m now [] w = ([], w)"
| "sweep_spaces m now (cfg # cfgs) w =
     (case sweep_space m now cfg w of (logs, w) \<Rightarrow>
      case sweep_spaces m now cfgs w of (others, w) \<Rightarrow> (logs @ others, w))"

definition sweep :: "'w monitor \<Rightarrow> time \<Rightarrow> 'w \<Rightarrow> monitor_log list \<times> 'w" where
  "sweep m now w =
     (case mo_configs m w of
        (Inl e, w) \<Rightarrow> ([ConfigsUnread], w)
      | (Inr (cfgs, unreadable), w) \<Rightarrow>
          (case report_unreadable m (length unreadable) now w of (logs, w) \<Rightarrow>
           case sweep_spaces m now cfgs w of (others, w) \<Rightarrow> (logs @ others, w)))"

subsection \<open>Finished runs\<close>

record classification =
  cl_member :: string
  cl_operational :: bool
  cl_operator :: string
  cl_silent :: bool

definition default_classification :: classification where
  "default_classification = \<lparr>cl_member = ''The last backup run failed.'', cl_operational = False, cl_operator = [],
     cl_silent = False\<rparr>"

datatype report_log = FailureNotRecorded string | OperatorNotRecorded

definition operator_fallback :: string where
  "operator_fallback = ''A backup target could not be used. Check the target's endpoint and credentials.''"

definition report_member :: "'w notifier \<Rightarrow> string \<Rightarrow> string \<Rightarrow> 'w \<Rightarrow> report_log list \<times> 'w" where
  "report_member n sp msg w =
     (case space_event n kind_run_failed sp msg w of
        (Inl e, w) \<Rightarrow> ([FailureNotRecorded sp], w)
      | (Inr e, w) \<Rightarrow> ([], w))"

definition report_operator :: "'w notifier \<Rightarrow> string \<Rightarrow> 'w \<Rightarrow> report_log list \<times> 'w" where
  "report_operator n msg w =
     (case operator_event n kind_target_unavailable msg w of
        (Inl e, w) \<Rightarrow> ([OperatorNotRecorded], w)
      | (Inr e, w) \<Rightarrow> ([], w))"

definition run_finished ::
    "'w notifier option \<Rightarrow> ('e \<Rightarrow> classification) option \<Rightarrow> string \<Rightarrow> 'e option \<Rightarrow> 'w \<Rightarrow> report_log list \<times> 'w" where
  "run_finished notifier classify sp err w =
     (case (notifier, err) of
        (Some n, Some e) \<Rightarrow>
          (let c = (case classify of None \<Rightarrow> default_classification | Some f \<Rightarrow> f e);
               member = (if cl_member c = [] then cl_member default_classification else cl_member c);
               operator = (if cl_operator c = [] then operator_fallback else cl_operator c)
           in if cl_silent c then ([], w)
              else (case report_member n sp member w of (logs, w) \<Rightarrow>
                    if \<not> cl_operational c then (logs, w)
                    else (case report_operator n operator w of (others, w) \<Rightarrow> (logs @ others, w))))
      | _ \<Rightarrow> ([], w))"

subsection \<open>What a sweep does to the recorded events\<close>

text \<open>A recorded event is the one given, with an id, and with the time it was stamped with.\<close>

definition event_like :: "event \<Rightarrow> event \<Rightarrow> bool" where
  "event_like e e' \<longleftrightarrow> ev_kind e' = ev_kind e \<and> ev_audience e' = ev_audience e \<and> ev_space e' = ev_space e \<and>
     ev_message e' = ev_message e \<and> (is_zero_time (ev_created e) \<or> ev_created e' = ev_created e)"

definition stale_event_for :: "string \<Rightarrow> event \<Rightarrow> bool" where
  "stale_event_for sp e \<longleftrightarrow> ev_kind e = kind_backup_stale \<and> ev_audience e = audience_members \<and> ev_space e = sp"

definition unreadable_event :: "event \<Rightarrow> bool" where
  "unreadable_event e \<longleftrightarrow> ev_kind e = kind_state_unreadable \<and> ev_audience e = audience_operator \<and> ev_space e = []"

text \<open>What the Space's runs say of it, when a listing of them may answer any \<open>js\<close> that \<open>listed\<close> allows.\<close>

definition runs_say ::
    "'w monitor \<Rightarrow> ('h \<Rightarrow> string \<Rightarrow> job list \<Rightarrow> bool) \<Rightarrow> 'h \<Rightarrow> space_config \<Rightarrow> time \<Rightarrow> bool \<Rightarrow> bool" where
  "runs_say m listed r cfg now stale \<longleftrightarrow>
     (\<exists>js. listed r (cfg_space cfg) js \<and> sl_stale (assess (mo_cron m) (mo_min_stale m) cfg js now) = stale)"

definition names_space :: "string \<Rightarrow> monitor_log \<Rightarrow> bool" where
  "names_space sp l \<longleftrightarrow> l = StalenessUnknown sp \<or> l = EventHistoryUnread sp \<or> l = StaleNotRecorded sp"

text \<open>
  \<open>seen w\<close> are the recorded events, \<open>rest w\<close> is what the monitor must leave alone, \<open>ok\<close> is an invariant, and
  \<open>listed r sp js\<close> says that \<open>js\<close> are runs a listing of the Space's history may answer while \<open>rest\<close> is \<open>r\<close>. Recording
  may fail after its effect.
\<close>

locale event_log =
  fixes m :: "'w monitor" and seen :: "'w \<Rightarrow> event set" and rest :: "'w \<Rightarrow> 'h" and ok :: "'w \<Rightarrow> bool"
    and listed :: "'h \<Rightarrow> string \<Rightarrow> job list \<Rightarrow> bool"
  assumes quiet_configs: "quiet (\<lambda>w. (seen w, rest w)) ok (mo_configs m)"
    and quiet_history: "quiet (\<lambda>w. (seen w, rest w)) ok (mo_history m sp kind n)"
    and history_listed: "ok w \<Longrightarrow> mo_history m sp kind_backup stale_lookback w = (Inr js, w') \<Longrightarrow> listed (rest w) sp js"
    and quiet_events: "quiet (\<lambda>w. (seen w, rest w)) ok (mo_events m sp n)"
    and quiet_operator_events: "quiet (\<lambda>w. (seen w, rest w)) ok (mo_operator_events m n)"
    and events_listed: "ok w \<Longrightarrow> mo_events m sp n w = (Inr es, w') \<Longrightarrow> e \<in> set es \<Longrightarrow> e \<in> seen w \<and> event_scope e = sp"
    and events_valid: "ok w \<Longrightarrow> e \<in> seen w \<Longrightarrow> validate_event e = None \<and> ev_space e \<noteq> scope_operator"
    and append_seen: "ok w \<Longrightarrow> ev_space e \<noteq> scope_operator \<Longrightarrow> nt_append (mo_notifier m) e w = (r, w') \<Longrightarrow>
      ok w' \<and> rest w' = rest w \<and> ((seen w' = seen w \<and> (\<exists>x. r = Inl x)) \<or>
        (\<exists>e'. event_like e e' \<and> seen w' = insert e' (seen w) \<and> (\<forall>x. r = Inr x \<longrightarrow> x = e')))"
    and quiet_sinks: "sink \<in> set (nt_sinks (mo_notifier m)) \<Longrightarrow> quiet (\<lambda>w. (seen w, rest w)) ok (sink e)"
begin

lemma deliver_quiet:
  "set sinks \<subseteq> set (nt_sinks (mo_notifier m)) \<Longrightarrow> ok w \<Longrightarrow>
    ok (deliver_all sinks e w) \<and> seen (deliver_all sinks e w) = seen w \<and> rest (deliver_all sinks e w) = rest w"
proof (induction sinks arbitrary: w)
  case (Cons sink sinks)
  obtain r w1 where d: "sink e w = (r, w1)" by fastforce
  show ?case using quietD [OF quiet_sinks [of sink e] d] Cons d by auto
qed simp

text \<open>Notifying: the event is recorded or it is not, and nothing else changes.\<close>

lemma notify_seen:
  assumes "ok w" "ev_space e \<noteq> scope_operator" "notify (mo_notifier m) e w = (r, w')"
  shows "ok w' \<and> rest w' = rest w \<and> ((seen w' = seen w \<and> (\<exists>x. r = Inl x)) \<or>
    (\<exists>e'. event_like (event_stamped e (nt_now (mo_notifier m) w)) e' \<and> seen w' = insert e' (seen w)))"
proof (cases "validate_event e")
  case (Some x)
  then show ?thesis using assms by (auto simp: notify_def require_op_def)
next
  case None
  let ?e = "event_stamped e (nt_now (mo_notifier m) w)"
  obtain q w1 where a: "nt_append (mo_notifier m) ?e w = (q, w1)" by fastforce
  note one = append_seen [OF assms(1) _ a]
  show ?thesis
  proof (cases q)
    case (Inl x)
    then show ?thesis using assms None a one by (auto simp: notify_def require_op_def try_op_def)
  next
    case (Inr x)
    then have "w' = deliver_all (nt_sinks (mo_notifier m)) x w1"
      using assms None a by (simp add: notify_def require_op_def try_op_def)
    then show ?thesis using one Inr assms(2) deliver_quiet [of "nt_sinks (mo_notifier m)" w1 x] by auto
  qed
qed

lemma space_event_seen:
  assumes "ok w" "sp \<noteq> scope_operator" "space_event (mo_notifier m) kind sp msg w = (r, w')"
  shows "ok w' \<and> rest w' = rest w \<and> ((seen w' = seen w \<and> (\<exists>x. r = Inl x)) \<or>
    (\<exists>e'. ev_kind e' = kind \<and> ev_audience e' = audience_members \<and> ev_space e' = sp \<and> ev_message e' = msg \<and>
      (is_zero_time (nt_now (mo_notifier m) w) \<or> ev_created e' = nt_now (mo_notifier m) w) \<and> seen w' = insert e' (seen w)))"
  using notify_seen [OF assms(1) _ assms(3) [unfolded space_event_def]] assms(2)
  by (auto simp: event_like_def event_stamped_def is_zero_time_def)

lemma operator_event_seen:
  assumes "ok w" "operator_event (mo_notifier m) kind msg w = (r, w')"
  shows "ok w' \<and> rest w' = rest w \<and> (seen w' = seen w \<or>
    (\<exists>e'. ev_kind e' = kind \<and> ev_audience e' = audience_operator \<and> ev_space e' = [] \<and> seen w' = insert e' (seen w)))"
  using notify_seen [OF assms(1) _ assms(2) [unfolded operator_event_def]]
  by (auto simp: event_like_def scope_operator_def)

lemma report_unreadable_seen:
  assumes "ok w" "report_unreadable m n now w = (logs, w')"
  shows "ok w' \<and> rest w' = rest w \<and> seen w \<subseteq> seen w' \<and> (\<forall>e\<in>seen w' - seen w. unreadable_event e \<and> n \<noteq> 0)"
proof (cases "n = 0")
  case True
  then show ?thesis using assms by (simp add: report_unreadable_def)
next
  case False
  obtain q w1 where t: "notified_recently_to_operator m kind_state_unreadable now w = (q, w1)" by fastforce
  have "quiet (\<lambda>w. (seen w, rest w)) ok (notified_recently_to_operator m kind_state_unreadable now)"
    unfolding notified_recently_to_operator_def by (intro quiet_try_op quiet_operator_events quiet_ok_op)
  note one = quietD [OF this t]
  show ?thesis
  proof (cases "q = Inr False")
    case False
    then have "w' = w1"
      using assms(2) \<open>n \<noteq> 0\<close> t by (auto simp: report_unreadable_def split: sum.splits bool.splits)
    then show ?thesis using one assms(1) by simp
  next
    case True
    obtain r w2 where o2: "operator_event (mo_notifier m) kind_state_unreadable (unreadable_message n) w1 = (r, w2)"
      by fastforce
    have "w' = w2" using assms(2) \<open>n \<noteq> 0\<close> t True o2 by (auto simp: report_unreadable_def split: sum.splits)
    then show ?thesis
      using operator_event_seen [OF _ o2] one assms(1) \<open>n \<noteq> 0\<close> by (auto simp: unreadable_event_def)
  qed
qed

lemma is_stale_reads:
  assumes "ok w" "is_stale m cfg now w = (r, w')"
  shows "ok w' \<and> seen w' = seen w \<and> rest w' = rest w" "r = Inr v \<Longrightarrow> runs_say m listed (rest w) cfg now (sl_stale v)"
proof -
  have "quiet (\<lambda>w. (seen w, rest w)) ok (is_stale m cfg now)"
    unfolding is_stale_def by (intro quiet_try_op quiet_history quiet_ok_op)
  from quietD [OF this assms(2)] show "ok w' \<and> seen w' = seen w \<and> rest w' = rest w" using assms(1) by simp
  show "r = Inr v \<Longrightarrow> runs_say m listed (rest w) cfg now (sl_stale v)"
    using assms(2) history_listed [OF assms(1)] unfolding is_stale_def runs_say_def by (fastforce elim!: try_op_cases)
qed

lemma notified_recently_reads:
  assumes "ok w" "sp \<noteq> scope_operator" "notified_recently m sp now w = (r, w')"
  shows "ok w' \<and> seen w' = seen w \<and> rest w' = rest w"
    and "r = Inr True \<Longrightarrow> \<exists>e\<in>seen w. stale_event_for sp e \<and> time_sub now (ev_created e) < mo_repeat m"
proof -
  have "quiet (\<lambda>w. (seen w, rest w)) ok (notified_recently m sp now)"
    unfolding notified_recently_def by (intro quiet_try_op quiet_events quiet_ok_op)
  from quietD [OF this assms(3)] show "ok w' \<and> seen w' = seen w \<and> rest w' = rest w" using assms(1) by simp
  assume "r = Inr True"
  then obtain es e where l: "mo_events m sp event_lookback w = (Inr es, w')"
    and e: "find (\<lambda>e. ev_kind e = kind_backup_stale) es = Some e" "time_sub now (ev_created e) < mo_repeat m"
    using assms(3) by (auto simp: notified_recently_def told_within_def elim!: try_op_cases split: option.splits)
  have "e \<in> set es" "ev_kind e = kind_backup_stale" using find_Some_set [OF e(1)] by auto
  moreover have "e \<in> seen w \<and> event_scope e = sp" using events_listed [OF assms(1) l] calculation by blast
  moreover have "validate_event e = None" using events_valid [OF assms(1)] calculation by blast
  ultimately have "stale_event_for sp e"
    using assms(2) by (auto simp: stale_event_for_def event_scope_def validate_event_def split: if_splits)
  then show "\<exists>e\<in>seen w. stale_event_for sp e \<and> time_sub now (ev_created e) < mo_repeat m"
    using e \<open>e \<in> seen w \<and> event_scope e = sp\<close> by blast
qed

text \<open>One Space: either nothing is recorded, for a reason, or the members of a stale Space are told.\<close>

lemma sweep_space_run:
  assumes "ok w" "cfg_space cfg \<noteq> scope_operator" "sweep_space m now cfg w = (logs, w')"
  shows "ok w' \<and> rest w' = rest w \<and>
    ((seen w' = seen w \<and> (\<not> cfg_enabled cfg \<or> (\<exists>l\<in>set logs. names_space (cfg_space cfg) l) \<or>
        runs_say m listed (rest w) cfg now False \<or>
        (\<exists>e\<in>seen w. stale_event_for (cfg_space cfg) e \<and> time_sub now (ev_created e) < mo_repeat m))) \<or>
     (cfg_enabled cfg \<and> runs_say m listed (rest w) cfg now True \<and>
        (\<exists>e v. stale_event_for (cfg_space cfg) e \<and> (is_zero_time (nt_now (mo_notifier m) v) \<or> ev_created e = nt_now (mo_notifier m) v) \<and>
           seen w' = insert e (seen w))))"
proof (cases "cfg_enabled cfg")
  case False
  then show ?thesis using assms by (auto simp: sweep_space_def)
next
  case on: True
  obtain q w1 where q: "is_stale m cfg now w = (q, w1)" by fastforce
  note one = is_stale_reads(1) [OF assms(1) q]
  show ?thesis
  proof (cases q)
    case (Inl e)
    then show ?thesis using assms one on q by (auto simp: sweep_space_def names_space_def)
  next
    case (Inr v)
    note says = is_stale_reads(2) [OF assms(1) q Inr]
    show ?thesis
    proof (cases "sl_stale v")
      case False
      then show ?thesis using assms one on q Inr says by (simp add: sweep_space_def)
    next
      case stale: True
      obtain p w2 where p: "notified_recently m (cfg_space cfg) now w1 = (p, w2)" by fastforce
      have ok1: "ok w1" using one by simp
      note two = notified_recently_reads [OF ok1 assms(2) p]
      show ?thesis
      proof (cases "p = Inr False")
        case False
        then have "w' = w2" "p = Inr True \<or> names_space (cfg_space cfg) (hd logs) \<and> logs \<noteq> []"
          using assms(3) on q Inr stale p
          by (auto simp: sweep_space_def names_space_def split: sum.splits bool.splits)
        then show ?thesis using one two assms(1) on by (auto intro: list.set_sel)
      next
        case True
        obtain r w3 where e: "space_event (mo_notifier m) kind_backup_stale (cfg_space cfg) (stale_message (sl_since v)) w2 = (r, w3)"
          by fastforce
        have w': "w' = w3" "(\<exists>x. r = Inl x) \<Longrightarrow> names_space (cfg_space cfg) (hd logs) \<and> logs \<noteq> []"
          using assms(3) on q Inr stale p True e
          by (auto simp: sweep_space_def names_space_def split: sum.splits)
        have ok2: "ok w2" using two by simp
        note three = space_event_seen [OF ok2 assms(2) e]
        from three show ?thesis
        proof (elim conjE disjE)
          assume "seen w3 = seen w2" "\<exists>x. r = Inl x" "ok w3" "rest w3 = rest w2"
          then show ?thesis using w' one two by (auto intro: list.set_sel)
        next
          assume "ok w3" "rest w3 = rest w2" "\<exists>e'. ev_kind e' = kind_backup_stale \<and> ev_audience e' = audience_members \<and>
            ev_space e' = cfg_space cfg \<and> ev_message e' = stale_message (sl_since v) \<and>
            (is_zero_time (nt_now (mo_notifier m) w2) \<or> ev_created e' = nt_now (mo_notifier m) w2) \<and> seen w3 = insert e' (seen w2)"
          then show ?thesis
            using w'(1) one two(1) on says stale by (auto simp: stale_event_for_def)
        qed
      qed
    qed
  qed
qed

text \<open>Every Space of a sweep: told, or the log says why not, or its history says it need not be.\<close>

definition clock_after :: "time \<Rightarrow> bool" where
  "clock_after now \<longleftrightarrow> zero_time < now \<and> 0 < mo_repeat m \<and> (\<forall>v. now \<le> nt_now (mo_notifier m) v)"

definition accounted :: "space_config \<Rightarrow> time \<Rightarrow> 'h \<Rightarrow> monitor_log list \<Rightarrow> event set \<Rightarrow> bool" where
  "accounted cfg now r logs es \<longleftrightarrow> (\<exists>l\<in>set logs. names_space (cfg_space cfg) l) \<or> runs_say m listed r cfg now False \<or>
     (\<exists>e\<in>es. stale_event_for (cfg_space cfg) e \<and> time_sub now (ev_created e) < mo_repeat m)"

lemma accounted_mono:
  "accounted cfg now r logs es \<Longrightarrow> set logs \<subseteq> set logs' \<Longrightarrow> es \<subseteq> es' \<Longrightarrow> accounted cfg now r logs' es'"
  by (auto simp: accounted_def)

lemma just_told: "clock_after now \<Longrightarrow> is_zero_time (nt_now (mo_notifier m) v) \<or> t = nt_now (mo_notifier m) v \<Longrightarrow> time_sub now t < mo_repeat m"
proof -
  assume c: "clock_after now" and "is_zero_time (nt_now (mo_notifier m) v) \<or> t = nt_now (mo_notifier m) v"
  then have "now \<le> t" by (auto simp: clock_after_def is_zero_time_def dest!: spec [of _ v])
  then have "time_sub now t \<le> 0" by (simp add: time_sub_def min_int64_def)
  then show ?thesis using c by (simp add: clock_after_def)
qed

lemma sweep_space_accounts:
  assumes "ok w" "cfg_space cfg \<noteq> scope_operator" "sweep_space m now cfg w = (logs, w')"
  shows "seen w \<subseteq> seen w'"
    and "e \<in> seen w' - seen w \<Longrightarrow> cfg_enabled cfg \<and> runs_say m listed (rest w) cfg now True \<and> stale_event_for (cfg_space cfg) e"
    and "clock_after now \<Longrightarrow> cfg_enabled cfg \<Longrightarrow> accounted cfg now (rest w) logs (seen w')"
proof -
  note run = sweep_space_run [OF assms]
  show "seen w \<subseteq> seen w'"
    and "e \<in> seen w' - seen w \<Longrightarrow> cfg_enabled cfg \<and> runs_say m listed (rest w) cfg now True \<and> stale_event_for (cfg_space cfg) e"
    using run by auto
  assume c: "clock_after now" and "cfg_enabled cfg"
  with run show "accounted cfg now (rest w) logs (seen w')"
    unfolding accounted_def using just_told [OF c] by (metis insertI1)
qed

lemma sweep_spaces_accounts:
  assumes "ok w" "\<forall>cfg\<in>set cfgs. cfg_space cfg \<noteq> scope_operator" "sweep_spaces m now cfgs w = (logs, w')"
  shows "ok w' \<and> rest w' = rest w \<and> seen w \<subseteq> seen w' \<and>
    (\<forall>e\<in>seen w' - seen w. \<exists>cfg\<in>set cfgs. cfg_enabled cfg \<and> runs_say m listed (rest w) cfg now True \<and> stale_event_for (cfg_space cfg) e) \<and>
    (clock_after now \<longrightarrow> (\<forall>cfg\<in>set cfgs. cfg_enabled cfg \<longrightarrow> accounted cfg now (rest w) logs (seen w')))"
  using assms
proof (induction cfgs arbitrary: w logs)
  case (Cons cfg cfgs)
  obtain l1 w1 where one: "sweep_space m now cfg w = (l1, w1)" by fastforce
  obtain l2 w2 where two: "sweep_spaces m now cfgs w1 = (l2, w2)" by fastforce
  have res: "logs = l1 @ l2" "w' = w2" using Cons.prems(3) one two by auto
  have cfg: "cfg_space cfg \<noteq> scope_operator" using Cons.prems(2) by simp
  have mid: "ok w1" "rest w1 = rest w" using sweep_space_run [OF Cons.prems(1) cfg one] by blast+
  note a = sweep_space_accounts [OF Cons.prems(1) cfg one]
  have b: "ok w' \<and> rest w' = rest w \<and> seen w1 \<subseteq> seen w' \<and>
      (\<forall>e\<in>seen w' - seen w1. \<exists>cfg\<in>set cfgs. cfg_enabled cfg \<and> runs_say m listed (rest w) cfg now True \<and> stale_event_for (cfg_space cfg) e) \<and>
      (clock_after now \<longrightarrow> (\<forall>cfg\<in>set cfgs. cfg_enabled cfg \<longrightarrow> accounted cfg now (rest w) l2 (seen w')))"
    using Cons.IH [OF mid(1) _ two [folded res(2)]] Cons.prems(2) mid(2) by simp
  have first: "accounted cfg now (rest w) logs (seen w')" if "clock_after now" "cfg_enabled cfg"
    using accounted_mono [OF a(3) [OF that], of logs "seen w'"] b res by simp
  have others: "accounted c now (rest w) logs (seen w')" if "clock_after now" "c \<in> set cfgs" "cfg_enabled c" for c
  proof -
    have "accounted c now (rest w) l2 (seen w')" using b that by blast
    then show ?thesis by (rule accounted_mono) (simp_all add: res)
  qed
  show ?case
  proof (intro conjI impI ballI)
    fix e assume "e \<in> seen w' - seen w"
    then show "\<exists>c\<in>set (cfg # cfgs). cfg_enabled c \<and> runs_say m listed (rest w) c now True \<and> stale_event_for (cfg_space c) e"
      using a(2) [of e] b by (cases "e \<in> seen w1") auto
  qed (use a(1) b first others in auto)
qed simp

lemma sweep_accounts:
  assumes "ok w" "mo_configs m w = (Inr (cfgs, bad), w1)" "\<forall>cfg\<in>set cfgs. cfg_space cfg \<noteq> scope_operator"
    and "sweep m now w = (logs, w')"
  shows "ok w' \<and> rest w' = rest w \<and> seen w \<subseteq> seen w' \<and>
    (\<forall>e\<in>seen w' - seen w. (unreadable_event e \<and> bad \<noteq> []) \<or>
      (\<exists>cfg\<in>set cfgs. cfg_enabled cfg \<and> runs_say m listed (rest w) cfg now True \<and> stale_event_for (cfg_space cfg) e)) \<and>
    (clock_after now \<longrightarrow> (\<forall>cfg\<in>set cfgs. cfg_enabled cfg \<longrightarrow> accounted cfg now (rest w) logs (seen w')))"
proof -
  have one: "ok w1" "rest w1 = rest w" "seen w1 = seen w"
    using quietD [OF quiet_configs assms(2)] assms(1) by auto
  obtain l2 w2 where two: "report_unreadable m (length bad) now w1 = (l2, w2)" by fastforce
  note r = report_unreadable_seen [OF one(1) two]
  obtain l3 w3 where three: "sweep_spaces m now cfgs w2 = (l3, w3)" by fastforce
  have res: "logs = l2 @ l3" "w' = w3" using assms(2,4) two three by (auto simp: sweep_def)
  have ok2: "ok w2" using r by blast
  have rest2: "rest w2 = rest w" using r one by simp
  note s = sweep_spaces_accounts [OF ok2 assms(3) three, unfolded rest2]
  have "accounted cfg now (rest w) logs (seen w')" if "clock_after now" "cfg \<in> set cfgs" "cfg_enabled cfg" for cfg
  proof -
    have "accounted cfg now (rest w) l3 (seen w3)" using s that by blast
    then show ?thesis by (rule accounted_mono) (simp_all add: res)
  qed
  moreover have "(unreadable_event e \<and> bad \<noteq> []) \<or>
      (\<exists>cfg\<in>set cfgs. cfg_enabled cfg \<and> runs_say m listed (rest w) cfg now True \<and> stale_event_for (cfg_space cfg) e)"
    if "e \<in> seen w' - seen w" for e
  proof (cases "e \<in> seen w2")
    case True
    then show ?thesis using r one that by auto
  next
    case False
    then show ?thesis using s res that by auto
  qed
  ultimately show ?thesis using r s res one rest2 by auto
qed

text \<open>A finished run: a success and a silent failure are not reported; a failure is told to the Space's members, and to
  the operator without naming the Space.\<close>

lemma report_member_seen:
  assumes "ok w" "sp \<noteq> scope_operator" "report_member (mo_notifier m) sp msg w = (logs, w')"
  shows "ok w' \<and> rest w' = rest w \<and> seen w \<subseteq> seen w' \<and>
    (\<forall>e\<in>seen w' - seen w. ev_kind e = kind_run_failed \<and> ev_audience e = audience_members \<and> ev_space e = sp \<and> ev_message e = msg)"
proof -
  obtain r w1 where s: "space_event (mo_notifier m) kind_run_failed sp msg w = (r, w1)" by fastforce
  have "w' = w1" using assms(3) s by (auto simp: report_member_def split: sum.splits)
  then show ?thesis using space_event_seen [OF assms(1,2) s] by auto
qed

lemma report_operator_seen:
  assumes "ok w" "report_operator (mo_notifier m) msg w = (logs, w')"
  shows "ok w' \<and> rest w' = rest w \<and> seen w \<subseteq> seen w' \<and>
    (\<forall>e\<in>seen w' - seen w. ev_kind e = kind_target_unavailable \<and> ev_audience e = audience_operator \<and> ev_space e = [])"
proof -
  obtain r w1 where s: "operator_event (mo_notifier m) kind_target_unavailable msg w = (r, w1)" by fastforce
  have "w' = w1" using assms(2) s by (auto simp: report_operator_def split: sum.splits)
  then show ?thesis using operator_event_seen [OF assms(1) s] by auto
qed

lemma run_finished_seen:
  assumes "ok w" "sp \<noteq> scope_operator" "run_finished (Some (mo_notifier m)) classify sp err w = (logs, w')"
  shows "ok w' \<and> rest w' = rest w \<and> seen w \<subseteq> seen w' \<and>
    (\<forall>e\<in>seen w' - seen w. err \<noteq> None \<and>
      ((ev_kind e = kind_run_failed \<and> ev_audience e = audience_members \<and> ev_space e = sp) \<or>
       (ev_kind e = kind_target_unavailable \<and> ev_audience e = audience_operator \<and> ev_space e = [])))"
proof (cases err)
  case None
  then show ?thesis using assms by (simp add: run_finished_def)
next
  case (Some x)
  let ?c = "case classify of None \<Rightarrow> default_classification | Some f \<Rightarrow> f x"
  let ?m = "if cl_member ?c = [] then cl_member default_classification else cl_member ?c"
  let ?o = "if cl_operator ?c = [] then operator_fallback else cl_operator ?c"
  obtain l1 w1 where a: "report_member (mo_notifier m) sp ?m w = (l1, w1)" by fastforce
  obtain l2 w2 where b: "report_operator (mo_notifier m) ?o w1 = (l2, w2)" by fastforce
  note one = report_member_seen [OF assms(1,2) a]
  have "ok w1" using one by blast
  note two = report_operator_seen [OF this b]
  have "w' = w \<or> w' = w1 \<or> w' = w2"
    using assms(3) Some a b by (auto simp: run_finished_def Let_def split: if_splits)
  then show ?thesis using one two Some assms(1) by auto
qed

end

end
