(* ===== verification/Notify_Service.thy ===== *)
theory Notify_Service
  imports Notify_Monitor
begin

text \<open>
  The monitor and the notifier wired to the service's durable stores, and what a sweep then does to the stored
  events: stale Spaces are told, nobody else is, and nothing but events is written.
\<close>

subsection \<open>Reading leaves the store alone\<close>

text \<open>What reads of the store keep, every operation built from reads keeps.\<close>

definition reads_keep :: "('s \<Rightarrow> bool) \<Rightarrow> ('s, 'v) store \<Rightarrow> bool" where
  "reads_keep P st \<longleftrightarrow> (\<forall>s. P s \<longrightarrow> (\<forall>k. P (snd (store_get st k s))) \<and> (\<forall>p. P (snd (store_list st p s))))"

lemma get_keeps:
  assumes "reads_keep P (d_store d)" "P s" "docs_get_key d k s = (r, s')" shows "P s'"
proof -
  obtain q s1 where g: "store_get (d_store d) k s = (q, s1)" by fastforce
  then have "s1 = s'" using assms(3) by (simp add: docs_get_key_def split: sum.splits option.splits)
  then show ?thesis using assms(1,2) g unfolding reads_keep_def by (metis snd_conv)
qed

lemma list_keeps:
  assumes "reads_keep P st" "P s" "store_list st p s = (r, s')" shows "P s'"
  using assms unfolding reads_keep_def by (metis snd_conv)

lemma keys_keeps:
  assumes "reads_keep P (d_store d)" "P s" "docs_keys d ids s = (r, s')" shows "P s'"
  using assms(3) unfolding docs_keys_def by (rule list_keeps [OF assms(1,2)])

lemma read_each_keeps: "reads_keep P (d_store d) \<Longrightarrow> P s \<Longrightarrow> docs_read_each d ks out un s = (r, s') \<Longrightarrow> P s'"
proof (induction ks arbitrary: out un s)
  case (Cons k ks)
  obtain q s1 where g: "docs_get_key d k s = (q, s1)" by fastforce
  then show ?case using Cons get_keeps [OF Cons.prems(1,2) g] by (auto split: sum.splits)
qed simp

lemma legacy_keeps: "reads_keep P (d_store l) \<Longrightarrow> P s \<Longrightarrow> read_legacy l p vs ks out un s = (r, s') \<Longrightarrow> P s'"
proof (induction ks arbitrary: out un s)
  case (Cons k ks)
  obtain q s1 where g: "docs_get_key l k s = (q, s1)" by fastforce
  then show ?case using Cons get_keeps [OF Cons.prems(1,2) g] by (auto split: sum.splits option.splits if_splits)
qed simp

lemma latest_keeps:
  assumes "reads_keep P (d_store (v_docs v))" "\<forall>l. v_legacy v = Some l \<longrightarrow> reads_keep P (d_store l)"
    and "P s" "versions_latest v s = (r, s')"
  shows "P s'"
proof -
  obtain q s1 where a: "store_list (d_store (v_docs v)) (d_prefix (v_docs v)) s = (q, s1)" by fastforce
  note one = list_keeps [OF assms(1,3) a]
  show ?thesis
  proof (cases q)
    case (Inl e)
    then show ?thesis using assms(4) a one by (simp add: versions_latest_def)
  next
    case (Inr keys)
    let ?by = "newest_by_id [] keys"
    obtain q2 s2 where b: "docs_read_each (v_docs v) (map (newest_key_of ?by) (sorted_set_list (map fst ?by))) [] [] s1 = (q2, s2)"
      by fastforce
    note two = read_each_keeps [OF assms(1) one b]
    show ?thesis
    proof (cases q2)
      case (Inl e)
      then show ?thesis using assms(4) a Inr b two by (simp add: versions_latest_def)
    next
      case read: (Inr x)
      obtain out un where x: "x = (out, un)" by fastforce
      have c: "append_legacy v out un (sorted_set_list (map fst ?by)) s2 = (r, s')"
        using assms(4) a Inr b read x by (simp add: versions_latest_def)
      show ?thesis
      proof (cases "v_legacy v")
        case None
        then show ?thesis using c two by (simp add: append_legacy_def)
      next
        case (Some l)
        obtain q3 s3 where k: "docs_keys l [] s2 = (q3, s3)" by fastforce
        have l: "reads_keep P (d_store l)" using assms(2) Some by simp
        show ?thesis
          using c Some k keys_keeps [OF l two k] legacy_keeps [OF l]
          by (cases q3) (auto simp: append_legacy_def)
      qed
    qed
  qed
qed

lemma list_walk_keeps:
  "reads_keep P (d_store d) \<Longrightarrow> P (js_backend m) \<Longrightarrow> list_walk d kind n ks out m = (r, m') \<Longrightarrow> P (js_backend m')"
proof (induction ks arbitrary: out m)
  case (Cons k ks)
  obtain q m1 where g: "on_docs (docs_get_key d k) m = (q, m1)" by fastforce
  have one: "P (js_backend m1)" by (rule get_keeps [OF Cons.prems(1,2) on_docs_backend [OF g]])
  show ?case
  proof (cases q)
    case (Inl e)
    then show ?thesis using Cons.prems Cons.IH g one by (auto split: if_splits)
  next
    case (Inr j)
    then show ?thesis
      using Cons.prems g one Cons.IH [of m out] Cons.IH [of "remember (job_id j) k m1"]
      by (auto simp: Let_def split: if_splits)
  qed
qed simp

lemma list_recent_keeps:
  assumes "reads_keep P (d_store d)" "P (js_backend m)" "list_recent_of_kind d sp kind n m = (r, m')"
  shows "P (js_backend m')"
proof -
  obtain q m1 where k: "on_docs (docs_keys d [sp]) m = (q, m1)" by fastforce
  have one: "P (js_backend m1)" by (rule keys_keeps [OF assms(1,2) on_docs_backend [OF k]])
  show ?thesis
  proof (cases q)
    case (Inl e)
    then show ?thesis
      using assms k one by (auto simp: list_recent_of_kind_def list_recent_def split: if_splits)
  next
    case (Inr ks)
    obtain out m2 where w: "list_walk d kind n (rev ks) [] m1 = (out, m2)" by fastforce
    then show ?thesis
      using assms k one Inr list_walk_keeps [OF assms(1) one w]
      by (auto simp: list_recent_of_kind_def list_recent_def split: if_splits)
  qed
qed

lemma event_walk_keeps: "reads_keep P (d_store d) \<Longrightarrow> P s \<Longrightarrow> event_walk d ks out s = (r, s') \<Longrightarrow> P s'"
proof (induction ks arbitrary: out s)
  case (Cons k ks)
  obtain q s1 where g: "docs_get_key d k s = (q, s1)" by fastforce
  then show ?case using Cons get_keeps [OF Cons.prems(1,2) g] by (auto split: sum.splits)
qed simp

lemma list_scope_keeps:
  assumes "reads_keep P (d_store d)" "P s" "event_list_scope d scope n s = (r, s')"
  shows "P s'"
proof -
  obtain q s1 where k: "docs_keys d [scope] s = (q, s1)" by fastforce
  note one = keys_keeps [OF assms(1,2) k]
  show ?thesis
    using assms(3) k one event_walk_keeps [OF assms(1) one]
    by (cases q) (auto simp: event_list_scope_def try_op_def split: prod.splits)
qed

context kv_store
begin

lemma reads_keep_view: "reads_keep (\<lambda>s'. view s' = v) st"
  by (auto simp: reads_keep_def) (metis prod.collapse get_view, metis prod.collapse list_view)

lemma latest_reads:
  assumes "d_store (v_docs v) = st" "\<forall>l. v_legacy v = Some l \<longrightarrow> d_store l = st" "versions_latest v s = (r, s')"
  shows "view s' = view s"
  by (rule latest_keeps [OF _ _ _ assms(3), where P = "\<lambda>s'. view s' = view s"])
    (use assms reads_keep_view in auto)

lemma list_recent_reads:
  assumes "d_store d = st" "list_recent_of_kind d sp kind n m = (r, m')"
  shows "view (js_backend m') = view (js_backend m)"
  by (rule list_recent_keeps [OF _ _ assms(2), where P = "\<lambda>s'. view s' = view (js_backend m)"])
    (use assms reads_keep_view in auto)

end

text \<open>A schedule without failures stays one.\<close>

lemma backend_reads_reliable: "reads_keep backend_reliable backend_store"
  unfolding reads_keep_def by (metis backend.get_reliable backend.list_reliable snd_conv)

lemma create_reliable: "backend_reliable s \<Longrightarrow> store_create backend_store k v s = (r, s') \<Longrightarrow> backend_reliable s'"
  by (metis backend.create_reliable snd_conv)

subsection \<open>The wiring\<close>

definition wire_notifier ::
    "('v backend, 'v, event) documents \<Rightarrow> 'x outside \<Rightarrow> (event \<Rightarrow> ('x, string, unit) op) list \<Rightarrow> ('v, 'x) service notifier" where
  "wire_notifier ed ox sinks = \<lparr>
     nt_append = (\<lambda>e s. on_backend (event_append ed e (ox_now ox (sv_out s)) (ox_new_id ox (sv_out s))) s),
     nt_sinks = map (\<lambda>sink e. on_outside (sink e)) sinks,
     nt_now = (\<lambda>s. ox_now ox (sv_out s))\<rparr>"

definition wire_monitor ::
    "'v service_stores \<Rightarrow> ('v backend, 'v, event) documents \<Rightarrow> 'x outside \<Rightarrow> (event \<Rightarrow> ('x, string, unit) op) list \<Rightarrow>
     cron_library \<Rightarrow> duration \<Rightarrow> duration \<Rightarrow> ('v, 'x) service monitor" where
  "wire_monitor st ed ox sinks cron floor repeat = new_monitor \<lparr>
     mo_configs = on_backend (cfg_list (vs_config st)),
     mo_history = (\<lambda>sp kind n. on_locker (on_jobs (list_recent_of_kind (vs_jobs st) sp kind n))),
     mo_events = (\<lambda>sp n. on_backend (event_list ed sp n)),
     mo_operator_events = (\<lambda>n. on_backend (event_list_operator ed n)),
     mo_notifier = wire_notifier ed ox sinks,
     mo_cron = cron, mo_min_stale = floor, mo_repeat = repeat\<rparr>"

abbreviation sv_docs :: "('v, 'x) service \<Rightarrow> string \<rightharpoonup> 'v" where
  "sv_docs s \<equiv> backend_view (js_backend (lk_jobs (sv_locker s)))"

text \<open>Everything stored that is not an event.\<close>

definition other_docs :: "('v, 'x) service \<Rightarrow> string \<rightharpoonup> 'v" where
  "other_docs s = (\<lambda>k. if has_segment_prefix k event_prefix then None else sv_docs s k)"

definition events_seen :: "('v backend, 'v, event) documents \<Rightarrow> ('v, 'x) service \<Rightarrow> event set" where
  "events_seen ed s = stored_events ed (sv_docs s)"

definition events_apart :: "('v backend, 'v, event) documents \<Rightarrow> ('v, 'x) service \<Rightarrow> bool" where
  "events_apart ed s \<longleftrightarrow> audiences_apart ed (js_backend (lk_jobs (sv_locker s)))"

text \<open>
  What a listing of a Space's backup runs may answer: stored runs of the Space, newest first; and, where
  the store answers every call (\<open>exact\<close>), its newest runs, up to as many as the staleness rule looks at.
\<close>

definition runs_listed ::
    "('v backend, 'v, job) documents \<Rightarrow> bool \<Rightarrow> (string \<rightharpoonup> 'v) \<Rightarrow> string \<Rightarrow> job list \<Rightarrow> bool" where
  "runs_listed d exact docs sp js \<longleftrightarrow>
     set js \<subseteq> space_jobs d docs sp kind_backup \<and> sorted_wrt (\<lambda>a b. created_at b \<le> created_at a) js \<and>
     (exact \<longrightarrow> sp \<noteq> [] \<longrightarrow> int (length js) \<le> stale_lookback \<and>
        (\<forall>j\<in>space_jobs d docs sp kind_backup - set js.
           int (length js) = stale_lookback \<and> (\<forall>j'\<in>set js. created_at j \<le> created_at j')))"

definition service_ok ::
    "('v backend, 'v, job) documents \<Rightarrow> ('v backend, 'v, event) documents \<Rightarrow> bool \<Rightarrow> ('v, 'x) service \<Rightarrow> bool" where
  "service_ok d ed exact w \<longleftrightarrow> events_apart ed w \<and> history_ok d (other_docs w) \<and>
     (exact \<longrightarrow> backend_reliable (js_backend (lk_jobs (sv_locker w))))"

text \<open>The run history is not under the events' prefix.\<close>

lemma other_docs_jobs: "has_segment_prefix k jobs_prefix \<Longrightarrow> other_docs w k = sv_docs w k"
  by (auto simp: other_docs_def has_segment_prefix_iff jobs_prefix_def event_prefix_def)

lemma doc_at_other: "has_segment_prefix k jobs_prefix \<Longrightarrow> doc_at d (other_docs w) k = doc_at d (sv_docs w) k"
  by (simp add: doc_at_def other_docs_jobs)

lemma history_other: "history_ok d (other_docs w) \<longleftrightarrow> history_ok d (sv_docs w)"
  unfolding history_ok_def using doc_at_other by (metis (no_types))

definition keeps_reads :: "('s \<Rightarrow> 'a \<times> 's) \<Rightarrow> ('s, 'v) store \<Rightarrow> bool" where
  "keeps_reads f st \<longleftrightarrow> (\<forall>P s. reads_keep P st \<longrightarrow> P s \<longrightarrow> P (snd (f s)))"

lemma keeps_readsD: "keeps_reads f st \<Longrightarrow> reads_keep P st \<Longrightarrow> P s \<Longrightarrow> f s = (r, s') \<Longrightarrow> P s'"
  unfolding keeps_reads_def by (metis snd_conv)

lemma docs_quiet:
  fixes g :: "(('v, 'x) service, 'e, 'a) op"
  assumes "\<And>w r w'. g w = (r, w') \<Longrightarrow> sv_docs w' = sv_docs w"
    and "\<And>w r w'. g w = (r, w') \<Longrightarrow> backend_reliable (js_backend (lk_jobs (sv_locker w))) \<Longrightarrow>
      backend_reliable (js_backend (lk_jobs (sv_locker w')))"
  shows "quiet (\<lambda>w. (events_seen ed w, other_docs w)) (service_ok d ed exact) g"
proof -
  have "other_docs w' = other_docs w \<and> events_seen ed w' = events_seen ed w \<and> (service_ok d ed exact w \<longrightarrow> service_ok d ed exact w')"
    if g: "g w = (r, w')" for w r w'
  proof -
    have "other_docs w' = other_docs w" by (simp only: other_docs_def assms(1) [OF g])
    then show ?thesis
      using assms [OF g] by (simp add: events_seen_def service_ok_def events_apart_def audiences_apart_def)
  qed
  then show ?thesis unfolding quiet_def by (metis prod.collapse)
qed

lemma reads_quiet_backend:
  assumes "keeps_reads f backend_store"
  shows "quiet (\<lambda>w. (events_seen ed w, other_docs w)) (service_ok d ed exact) (on_backend f)"
proof -
  have "backend_view s' = backend_view s" if "f s = (r, s')" for s r s'
    by (rule keeps_readsD [OF assms backend.reads_keep_view _ that, of "backend_view s"]) simp
  moreover have "backend_reliable s \<Longrightarrow> backend_reliable s'" if "f s = (r, s')" for s r s'
    by (rule keeps_readsD [OF assms backend_reads_reliable _ that])
  ultimately show ?thesis by (intro docs_quiet) (auto simp: on_backend_def split: prod.splits)
qed

lemma history_quiet:
  assumes "d_store d = backend_store"
  shows "quiet (\<lambda>w. (events_seen ed w, other_docs w)) (service_ok d' ed exact)
    (on_locker (on_jobs (list_recent_of_kind d sp kind n)))"
proof -
  have "backend_view (js_backend m') = backend_view (js_backend m)" if "list_recent_of_kind d sp kind n m = (r, m')" for m r m'
    by (rule backend.list_recent_reads [OF assms that])
  moreover have "backend_reliable (js_backend m')" if "list_recent_of_kind d sp kind n m = (r, m')" "backend_reliable (js_backend m)" for m r m'
    using list_recent_keeps [where P = backend_reliable, OF _ that(2) that(1)] by (simp add: assms backend_reads_reliable)
  ultimately show ?thesis by (intro docs_quiet) (auto simp: on_locker_def on_jobs_def split: prod.splits)
qed

lemma outside_quiet: "quiet (\<lambda>w. (events_seen ed w, other_docs w)) (service_ok d ed exact) (on_outside f)"
  by (rule docs_quiet) (auto simp: on_outside_def split: prod.splits)

text \<open>What the history answers.\<close>

lemma history_answers:
  fixes w :: "('v, 'x) service"
  assumes rev: "reversible enc dec" and ok: "service_ok (new_job_docs backend_store enc dec) ed exact w"
    and h: "on_locker (on_jobs (list_recent_of_kind (new_job_docs backend_store enc dec) sp kind_backup stale_lookback)) w = (Inr js, w')"
  shows "runs_listed (new_job_docs backend_store enc dec) exact (other_docs w) sp js"
proof -
  let ?d = "new_job_docs backend_store enc dec" and ?m = "lk_jobs (sv_locker w)"
  note jd = service_jobs [OF rev]
  note job = reliable_job_docs.axioms(2) [OF jd]
  obtain m' where l: "list_recent ?d sp kind_backup stale_lookback ?m = (Inr js, m')"
    using h by (auto simp: on_locker_def on_jobs_def list_recent_of_kind_def split: prod.splits if_splits)
  obtain ks m1 out where k: "on_docs (docs_keys ?d [sp]) ?m = (Inr ks, m1)"
    and walk: "list_walk ?d kind_backup stale_lookback (rev ks) [] m1 = (out, m')" and js: "js = sort_newest_first out"
    using l by (auto simp: list_recent_def split: prod.splits sum.splits)
  have keys: "store_list backend_store (docs_key ?d [sp]) (js_backend ?m) = (Inr ks, js_backend m1)"
    using on_docs_backend [OF k] by (simp add: docs_keys_def)
  have below: "set ks = {k \<in> dom (sv_docs w). has_segment_prefix k (docs_key ?d [sp])}"
    by (rule backend.list_set [OF keys])
  have view: "backend_view (js_backend m1) = sv_docs w" by (rule backend.list_view [OF keys])
  have read: "set out \<subseteq> {j. \<exists>k\<in>set ks. doc_at ?d (sv_docs w) k = Some j \<and> job_kind j = kind_backup}"
    using job_docs.list_walk_sound [OF job walk] by (auto simp: view kind_backup_def)
  have prefix: "has_segment_prefix k jobs_prefix" if "has_segment_prefix k (docs_key ?d [sp])" for k
  proof (cases "sp = []")
    case True
    then show ?thesis
      using that by (simp add: has_segment_prefix_def trim_slash_def docs_key_def state_key_single jobs_prefix_def)
  qed (use job_docs.space_key_prefix [OF job _ that] in simp)
  have same: "space_jobs ?d (other_docs w) sp kind_backup = space_jobs ?d (sv_docs w) sp kind_backup"
    unfolding space_jobs_def by (intro Collect_cong ex_cong1 conj_cong refl) (simp only: doc_at_other [OF prefix])
  have sub: "set js \<subseteq> space_jobs ?d (sv_docs w) sp kind_backup"
    using read below by (auto simp: js space_jobs_def)
  have sorted: "sorted_wrt (\<lambda>a b. created_at b \<le> created_at a) js"
    unfolding js by (rule sort_newest_first_sorted)
  have "int (length js) \<le> stale_lookback \<and> (\<forall>j\<in>space_jobs ?d (sv_docs w) sp kind_backup - set js.
      int (length js) = stale_lookback \<and> (\<forall>j'\<in>set js. created_at j \<le> created_at j'))" if "exact" "sp \<noteq> []"
    using reliable_job_docs.list_recent_newest [OF jd _ _ that(2) l] ok that(1)
    by (auto simp: service_ok_def history_other stale_lookback_def)
  then show ?thesis using sub sorted by (simp add: runs_listed_def same)
qed

lemma wire_monitor_fields [simp]:
  "mo_configs (wire_monitor st ed ox sinks cron floor repeat) = on_backend (cfg_list (vs_config st))"
  "mo_history (wire_monitor st ed ox sinks cron floor repeat) = (\<lambda>sp kind n. on_locker (on_jobs (list_recent_of_kind (vs_jobs st) sp kind n)))"
  "mo_events (wire_monitor st ed ox sinks cron floor repeat) = (\<lambda>sp n. on_backend (event_list ed sp n))"
  "mo_operator_events (wire_monitor st ed ox sinks cron floor repeat) = (\<lambda>n. on_backend (event_list_operator ed n))"
  "mo_notifier (wire_monitor st ed ox sinks cron floor repeat) = wire_notifier ed ox sinks"
  "nt_now (wire_notifier ed ox sinks) = (\<lambda>s. ox_now ox (sv_out s))"
  by (simp_all add: wire_monitor_def new_monitor_def wire_notifier_def)

lemma wire_monitor_repeat: "0 < mo_repeat (wire_monitor st ed ox sinks cron floor repeat)"
  by (simp add: wire_monitor_def new_monitor_def default_repeat_after_def duration_defs)

definition stores_on_backend :: "'v service_stores \<Rightarrow> bool" where
  "stores_on_backend st \<longleftrightarrow>
     (\<exists>enc dec. reversible enc dec \<and> vs_jobs st = new_job_docs backend_store enc dec) \<and>
     d_store (v_docs (vs_config st)) = backend_store \<and>
     (\<forall>l. v_legacy (vs_config st) = Some l \<longrightarrow> d_store l = backend_store)"

lemma config_reads:
  assumes "stores_on_backend st" shows "keeps_reads (cfg_list (vs_config st)) backend_store"
  unfolding keeps_reads_def
proof (intro allI impI)
  fix P :: "'a backend \<Rightarrow> bool" and s assume p: "reads_keep P backend_store" "P s"
  obtain r s' where l: "versions_latest (vs_config st) s = (r, s')" by fastforce
  have "P s'"
    by (rule latest_keeps [where P = P, OF _ _ p(2) l]) (use assms p(1) in \<open>auto simp: stores_on_backend_def\<close>)
  then show "P (snd (cfg_list (vs_config st) s))"
    using l by (auto simp: cfg_list_def split: sum.splits prod.splits)
qed

lemma event_reads: "keeps_reads (event_list_scope (new_event_docs backend_store enc dec) sp n) backend_store"
  unfolding keeps_reads_def
proof (intro allI impI)
  fix P :: "'a backend \<Rightarrow> bool" and s assume p: "reads_keep P backend_store" "P s"
  show "P (snd (event_list_scope (new_event_docs backend_store enc dec) sp n s))"
    by (rule list_scope_keeps [where P = P, OF _ p(2) prod.collapse [symmetric]])
      (use p(1) in \<open>simp add: new_event_docs_def new_documents_def\<close>)
qed

lemma append_reliable:
  assumes "event_append (new_event_docs backend_store enc dec) e t i s = (r, s')" "backend_reliable s"
  shows "backend_reliable s'"
  using assms
  by (auto simp: event_append_def require_op_def fail_op_def ok_op_def docs_create_key_def new_event_docs_def new_documents_def
      Let_def split: option.splits sum.splits if_splits elim!: try_op_cases dest: create_reliable)

lemma on_backend_view:
  "on_backend f w = (r, w') \<Longrightarrow> \<exists>b. f (js_backend (lk_jobs (sv_locker w))) = (r, b) \<and> js_backend (lk_jobs (sv_locker w')) = b"
  by (auto simp: on_backend_def split: prod.splits)

lemma append_service:
  fixes w :: "('v, 'x) service"
  assumes rev: "reversible enc dec" and ok: "service_ok d (new_event_docs backend_store enc dec) exact w"
    and e: "ev_space e \<noteq> scope_operator"
    and a: "on_backend (event_append (new_event_docs backend_store enc dec) e t i) w = (r, w')"
  shows "service_ok d (new_event_docs backend_store enc dec) exact w' \<and> other_docs w' = other_docs w \<and>
    ((events_seen (new_event_docs backend_store enc dec) w' = events_seen (new_event_docs backend_store enc dec) w \<and> (\<exists>x. r = Inl x)) \<or>
     (\<exists>e'. event_like e e' \<and>
        events_seen (new_event_docs backend_store enc dec) w' = insert e' (events_seen (new_event_docs backend_store enc dec) w) \<and>
        (\<forall>x. r = Inr x \<longrightarrow> x = e')))"
proof -
  let ?d = "new_event_docs backend_store enc dec"
  note ev = service_events [OF rev]
  obtain b where b: "event_append ?d e t i (js_backend (lk_jobs (sv_locker w))) = (r, b)"
      "js_backend (lk_jobs (sv_locker w')) = b"
    using on_backend_view [OF a] by blast
  have like: "event_given e t i = Some e' \<Longrightarrow> event_like e e'" for e'
    by (auto simp: event_given_def event_like_def event_stamped_def split: if_splits)
  have "events_apart ?d w'"
    using event_step_apart [OF rev recorded [OF b(1) e]] ok b(2) by (simp add: events_apart_def service_ok_def)
  moreover have other: "other_docs w' = other_docs w"
    using event_docs.append_cases [OF ev b(1)] b(2) event_docs.event_key_prefix [OF ev]
    by (auto simp: other_docs_def fun_eq_iff event_place_def)
  ultimately have "service_ok d ?d exact w'"
    using ok append_reliable [OF b(1)] b(2) by (simp add: service_ok_def)
  with other show ?thesis
    using event_docs.append_stored [OF ev b(1)] b(2) like unfolding events_seen_def by blast
qed

text \<open>The wired monitor keeps the contract, whatever fails.\<close>

lemma service_event_log:
  assumes rev: "reversible enc dec" and st: "stores_on_backend st"
  shows "event_log (wire_monitor st (new_event_docs backend_store enc dec) ox sinks cron floor repeat)
    (events_seen (new_event_docs backend_store enc dec)) other_docs
    (service_ok (vs_jobs st) (new_event_docs backend_store enc dec) exact) (runs_listed (vs_jobs st) exact)"
proof -
  let ?d = "new_event_docs backend_store enc dec"
  note ev = service_events [OF rev]
  obtain jenc jdec where jobs: "reversible jenc jdec" "vs_jobs st = new_job_docs backend_store jenc jdec"
    using st by (auto simp: stores_on_backend_def)
  have lists: "quiet (\<lambda>w. (events_seen ?d w, other_docs w)) (service_ok (vs_jobs st) ?d exact) (on_backend (event_list_scope ?d sp n))" for sp n
    by (rule reads_quiet_backend [OF event_reads])
  show ?thesis
  proof (unfold_locales, goal_cases)
    case 1
    show ?case unfolding wire_monitor_fields by (rule reads_quiet_backend [OF config_reads [OF st]])
  next
    case (2 sp kind n)
    show ?case unfolding wire_monitor_fields by (rule history_quiet) (simp add: jobs(2))
  next
    case (3 w sp js w')
    then show ?case using history_answers [OF jobs(1)] unfolding jobs(2) wire_monitor_fields by blast
  next
    case (4 sp n)
    show ?case
      using lists by (cases "sp = []") (auto simp: event_list_def fail_op_def quiet_def on_backend_def events_seen_def
        other_docs_def service_ok_def events_apart_def)
  next
    case (5 n)
    show ?case using lists by (simp add: event_list_operator_def)
  next
    case (6 w sp n es w' e)
    then obtain b where "event_list ?d sp n (js_backend (lk_jobs (sv_locker w))) = (Inr es, b)"
      using on_backend_view by fastforce
    then have "event_list_scope ?d sp n (js_backend (lk_jobs (sv_locker w))) = (Inr es, b)" "sp \<noteq> []"
      by (auto simp: event_list_def fail_op_def split: if_splits)
    then show ?case
      using event_docs.list_scope_events [OF ev _ _ _ 6(3)] 6(1)
      by (auto simp: service_ok_def events_apart_def audiences_apart_def events_seen_def)
  next
    case (7 w e)
    then show ?case
      by (auto simp: service_ok_def events_apart_def audiences_apart_def events_seen_def events_filed_def stored_events_def)
  next
    case (8 w e r w')
    then show ?case
      using append_service [OF rev 8(1,2)] by (simp add: wire_notifier_def)
  next
    case (9 sink e)
    then show ?case using outside_quiet by (auto simp: wire_notifier_def)
  qed
qed


subsection \<open>A service with a stale Space\<close>

datatype monitor_doc = MdJob job | MdConfig space_config | MdEvent event

fun md_job :: "monitor_doc \<Rightarrow> job option" where "md_job (MdJob j) = Some j" | "md_job _ = None"
fun md_config :: "monitor_doc \<Rightarrow> space_config option" where "md_config (MdConfig c) = Some c" | "md_config _ = None"
fun md_event :: "monitor_doc \<Rightarrow> event option" where "md_event (MdEvent e) = Some e" | "md_event _ = None"

definition monitor_event_docs :: "(monitor_doc backend, monitor_doc, event) documents" where
  "monitor_event_docs = new_event_docs backend_store (\<lambda>e. Some (MdEvent e)) md_event"

definition monitor_stores ::
    "(monitor_doc backend, monitor_doc, lease) documents \<Rightarrow> (monitor_doc backend, monitor_doc) target_store \<Rightarrow>
     (monitor_doc backend, monitor_doc) key_store \<Rightarrow> monitor_doc service_stores" where
  "monitor_stores ls ts ks = \<lparr>vs_jobs = new_job_docs backend_store (\<lambda>j. Some (MdJob j)) md_job, vs_leases = ls,
     vs_config = new_cfg_store backend_store (\<lambda>c. Some (MdConfig c)) md_config, vs_targets = ts, vs_keys = ks\<rparr>"

lemma monitor_events_reversible: "reversible (\<lambda>e. Some (MdEvent e)) md_event"
  by (simp add: reversible_def)

lemma monitor_stores_on_backend: "stores_on_backend (monitor_stores ls ts ks)"
proof -
  have "reversible (\<lambda>j. Some (MdJob j)) md_job" by (simp add: reversible_def)
  then show ?thesis
    by (auto simp: stores_on_backend_def monitor_stores_def new_cfg_store_def with_legacy_def new_versions_def
        new_documents_def)
qed

interpretation durable_monitor: event_log "wire_monitor (monitor_stores ls ts ks) monitor_event_docs ox sinks cron floor repeat"
    "events_seen monitor_event_docs" other_docs
    "service_ok (vs_jobs (monitor_stores ls ts ks)) monitor_event_docs exact" "runs_listed (vs_jobs (monitor_stores ls ts ks)) exact"
  for ls ts ks ox sinks cron floor repeat exact
  unfolding monitor_event_docs_def by (rule service_event_log [OF monitor_events_reversible monitor_stores_on_backend])

text \<open>The Space \<open>a\<close> is backed up at every tick, was set up long ago and has no run yet.\<close>

definition every_tick :: cron_library where "every_tick expr = Some (\<lambda>t. t + 1)"

definition sample_space_config :: space_config where
  "sample_space_config = \<lparr>cfg_space = ''a'', cfg_target = ''t'', cfg_window = 0, cfg_schedule = [], cfg_enabled = True,
     cfg_created = 1, cfg_updated = 1\<rparr>"

definition quiet_outside :: "unit outside" where
  "quiet_outside = \<lparr>ox_spaces = (\<lambda>x. (Inr [], x)), ox_snapshot = (\<lambda>_ _ x. (Inl (EnginePanic []), x)),
     ox_prune = (\<lambda>_ _ x. (Inl (EnginePanic []), x)), ox_publish = None, ox_probe = None,
     ox_background = (\<lambda>x. (Inr (), x)), ox_deadline = (\<lambda>_. False), ox_now = (\<lambda>_. 60),
     ox_new_id = (\<lambda>_. Some ''f'')\<rparr>"

definition event_entry :: "string \<Rightarrow> time \<Rightarrow> string \<Rightarrow> string \<times> monitor_doc" where
  "event_entry kind t i =
     (let e = \<lparr>ev_id = i, ev_kind = kind, ev_audience = audience_members, ev_space = ''a'', ev_message = ''m'', ev_created = t\<rparr>
      in (event_place monitor_event_docs e, MdEvent e))"

definition watched_service :: "(string \<times> monitor_doc) list \<Rightarrow> (monitor_doc, unit) service" where
  "watched_service es = \<lparr>sv_locker = new_locker
     \<lparr>contents = (''spacecfg/a'', MdConfig sample_space_config) # es, faults = []\<rparr> 0, sv_out = ()\<rparr>"

abbreviation no_lease_docs :: "(monitor_doc backend, monitor_doc, lease) documents" where
  "no_lease_docs \<equiv> new_lease_docs backend_store (\<lambda>_. None) (\<lambda>_. None)"

definition sample_monitor_stores :: "monitor_doc service_stores" where
  "sample_monitor_stores = monitor_stores no_lease_docs
     (new_target_store backend_store (\<lambda>_. None) (\<lambda>_. None) (\<lambda>_. None) (\<lambda>_. None))
     (new_key_store backend_store (\<lambda>_. None) (\<lambda>_. None) (\<lambda>_. None) (\<lambda>_. None))"

definition sample_monitor :: "(monitor_doc, unit) service monitor" where
  "sample_monitor = wire_monitor sample_monitor_stores monitor_event_docs quiet_outside [] every_tick 5 30"

definition sweep_now :: time where "sweep_now = 60"



text \<open>When the store last held a warning to the members of \<open>a\<close>.\<close>

definition warned_at :: "(monitor_doc, unit) service \<Rightarrow> time list" where
  "warned_at s = map ev_created (filter (stale_event_for ''a'')
     (List.map_filter (\<lambda>(k, x). md_event x) (contents (js_backend (lk_jobs (sv_locker s))))))"

definition crowded_service :: "(monitor_doc, unit) service" where
  "crowded_service = watched_service
     (event_entry kind_backup_stale 40 ''e'' # map (\<lambda>i. event_entry kind_run_failed i ''e'') [41..60])"

text \<open>A warning is repeated inside the repeat interval once twenty other events have been recorded after it.
  The members of a Space were warned at 40 and twenty failed runs were reported after that; the
  sweep at 60, with a repeat interval of 30, warns them again, because it looks for the last warning among
  the Space's twenty newest events of any kind.\<close>

lemma crowded_warning_repeats:
  "warned_at crowded_service = [40] \<and> sweep_now - 40 < mo_repeat sample_monitor \<and>
   warned_at (snd (sweep sample_monitor sweep_now crowded_service)) = [40, 60]"
  by code_simp

end
