(* ===== verification/Notify_Mail.thy ===== *)
theory Notify_Mail
  imports Notify_Events
begin

text \<open>
  Mail to the operator (src/internal/notify/sinks.go): the message, the conversation with the mail server step by
  step, and how a failure is worded. The SMTP client and the connection are parameters: operations on a state of
  any type. A TLS upgrade, the login and the rest of the conversation are made in the order of the code.
\<close>

subsection \<open>Configuration and message\<close>

record smtp_config =
  sm_host :: string
  sm_port :: int
  sm_username :: string
  sm_password :: string
  sm_from :: string
  sm_operator_to :: string
  sm_timeout :: duration

definition default_smtp_timeout :: duration where "default_smtp_timeout = 30 * second"

text \<open>The environment's variables, and the configuration they become (src/internal/notify/env.go).\<close>

record smtp_env =
  se_host :: string
  se_port :: int
  se_username :: string
  se_password :: string
  se_from :: string
  se_operator_to :: string

definition smtp_env_config :: "smtp_env \<Rightarrow> smtp_config" where
  "smtp_env_config e =
     \<lparr>sm_host = se_host e, sm_port = se_port e, sm_username = se_username e, sm_password = se_password e,
      sm_from = se_from e, sm_operator_to = se_operator_to e, sm_timeout = 0\<rparr>"

definition smtp_valid :: "smtp_config \<Rightarrow> bool" where
  "smtp_valid c \<longleftrightarrow> sm_host c \<noteq> [] \<and> sm_port c > 0 \<and> sm_from c \<noteq> [] \<and> sm_operator_to c \<noteq> []"

definition new_smtp_sink :: "smtp_config \<Rightarrow> smtp_config option" where
  "new_smtp_sink c = (if smtp_valid c then Some c else None)"

definition subject_for :: "event \<Rightarrow> string" where
  "subject_for e =
     (if ev_kind e = kind_target_unavailable then ''[backup] a backup target is unavailable''
      else if ev_kind e = kind_backup_stale then ''[backup] a backup is out of date''
      else if ev_kind e = kind_run_failed then ''[backup] a backup run failed''
      else ''[backup] notification'')"

definition mail_cr :: char where "mail_cr = CHR 0x0D"
definition mail_lf :: char where "mail_lf = CHR 0x0A"
definition crlf :: string where "crlf = [mail_cr, mail_lf]"

definition sanitize_header :: "string \<Rightarrow> string" where
  "sanitize_header v = map (\<lambda>c. if c = mail_cr \<or> c = mail_lf then CHR '' '' else c) v"

text \<open>\<open>ReplaceAll(body, "\r\n", "\n")\<close>.\<close>

fun unix_lines :: "string \<Rightarrow> string" where
  "unix_lines (a # b # s) = (if a = mail_cr \<and> b = mail_lf then mail_lf # unix_lines s else a # unix_lines (b # s))"
| "unix_lines s = s"

definition content_type :: string where "content_type = ''Content-Type: text/plain; charset=utf-8''"

definition build_message :: "string \<Rightarrow> string \<Rightarrow> string \<Rightarrow> string \<Rightarrow> string" where
  "build_message sender rcpt subject body =
     ''From: '' @ sanitize_header sender @ crlf @
     ''To: '' @ sanitize_header rcpt @ crlf @
     ''Subject: '' @ sanitize_header subject @ crlf @
     content_type @ crlf @ crlf @ unix_lines body @ crlf"

subsection \<open>Failures\<close>

datatype smtp_failure =
    ServerReply int string
  | TimedOut
  | Cancelled
  | BadCertificate string
  | BadTlsRecord string
  | NetworkError string
  | NoSmtpAuth
  | UnexpectedEof
  | OtherFailure string
  | AtStep string smtp_failure

definition at_step :: "string \<Rightarrow> smtp_failure option \<Rightarrow> smtp_failure option" where
  "at_step step e = map_option (AtStep step) e"

fun failure_text :: "smtp_failure \<Rightarrow> string" where
  "failure_text (ServerReply n msg) = msg"
| "failure_text TimedOut = ''context deadline exceeded''"
| "failure_text Cancelled = ''context canceled''"
| "failure_text (BadCertificate t) = t"
| "failure_text (BadTlsRecord t) = t"
| "failure_text (NetworkError t) = t"
| "failure_text NoSmtpAuth = ''smtp server does not support AUTH''"
| "failure_text UnexpectedEof = ''EOF''"
| "failure_text (OtherFailure t) = t"
| "failure_text (AtStep step e) = step @ '': '' @ failure_text e"

definition local_auth_refusal :: "smtp_failure \<Rightarrow> bool" where
  "local_auth_refusal e \<longleftrightarrow> failure_text e = ''unencrypted connection'' \<or> failure_text e = ''wrong host name''"

text \<open>The reply a failure carries, however deep.\<close>

fun reply_code :: "smtp_failure \<Rightarrow> int option" where
  "reply_code (ServerReply n msg) = Some n"
| "reply_code (AtStep step e) = reply_code e"
| "reply_code e = None"

fun is_timeout :: "smtp_failure \<Rightarrow> bool" where
  "is_timeout TimedOut = True" | "is_timeout (AtStep s e) = is_timeout e" | "is_timeout e = False"

fun is_cancelled :: "smtp_failure \<Rightarrow> bool" where
  "is_cancelled Cancelled = True" | "is_cancelled (AtStep s e) = is_cancelled e" | "is_cancelled e = False"

fun is_local_failure :: "smtp_failure \<Rightarrow> bool" where
  "is_local_failure (BadCertificate t) = True"
| "is_local_failure (BadTlsRecord t) = True"
| "is_local_failure (NetworkError t) = True"
| "is_local_failure NoSmtpAuth = True"
| "is_local_failure UnexpectedEof = True"
| "is_local_failure (AtStep s e) = is_local_failure e"
| "is_local_failure e = False"

definition describe_smtp_failure :: "smtp_failure \<Rightarrow> string" where
  "describe_smtp_failure e =
     (let (step, e) = (case e of AtStep s x \<Rightarrow> (s @ '': '', x) | _ \<Rightarrow> ([], e)) in
      case reply_code e of
        Some n \<Rightarrow> step @ ''server replied '' @ (if n < 0 then ''-'' else []) @ dec_digits (nat \<bar>n\<bar>)
      | None \<Rightarrow>
          if is_timeout e then step @ ''timed out''
          else if is_cancelled e then step @ ''cancelled''
          else if is_local_failure e then step @ failure_text e
          else if local_auth_refusal e then step @ ''refused to send credentials: '' @ failure_text e
          else step @ ''unexpected failure'')"

subsection \<open>The conversation\<close>

record smtp_auth =
  au_username :: string
  au_password :: string
  au_host :: string

record 'c smtp_client =
  mc_extension :: "string \<Rightarrow> 'c \<Rightarrow> bool"
  mc_starttls :: "string \<Rightarrow> ('c, smtp_failure, unit) op"
  mc_auth :: "smtp_auth \<Rightarrow> ('c, smtp_failure, unit) op"
  mc_mail :: "string \<Rightarrow> ('c, smtp_failure, unit) op"
  mc_rcpt :: "string \<Rightarrow> ('c, smtp_failure, unit) op"
  mc_data :: "('c, smtp_failure, unit) op"
  mc_write :: "string \<Rightarrow> ('c, smtp_failure, unit) op"
  mc_close_data :: "('c, smtp_failure, unit) op"
  mc_quit :: "('c, smtp_failure, unit) op"

definition converse_tls :: "'c smtp_client \<Rightarrow> string \<Rightarrow> ('c, smtp_failure, unit) op" where
  "converse_tls c host s =
     (if mc_extension c ''STARTTLS'' s then try_op (AtStep ''starttls'') (mc_starttls c host) ok_op s else (Inr (), s))"

definition converse_auth :: "'c smtp_client \<Rightarrow> smtp_auth option \<Rightarrow> ('c, smtp_failure, unit) op" where
  "converse_auth c auth s =
     (case auth of
        None \<Rightarrow> (Inr (), s)
      | Some a \<Rightarrow>
          if \<not> mc_extension c ''AUTH'' s then (Inl (AtStep ''auth'' NoSmtpAuth), s)
          else try_op (AtStep ''auth'') (mc_auth c a) ok_op s)"

fun converse_rcpts :: "'c smtp_client \<Rightarrow> string list \<Rightarrow> ('c, smtp_failure, unit) op" where
  "converse_rcpts c [] = ok_op ()"
| "converse_rcpts c (r # rs) = try_op (AtStep ''rcpt to'') (mc_rcpt c r) (\<lambda>_. converse_rcpts c rs)"

definition converse ::
    "'c smtp_client \<Rightarrow> string \<Rightarrow> smtp_auth option \<Rightarrow> string \<Rightarrow> string list \<Rightarrow> string \<Rightarrow> ('c, smtp_failure, unit) op" where
  "converse c host auth sender rcpts msg =
     try_op id (converse_tls c host) (\<lambda>_.
     try_op id (converse_auth c auth) (\<lambda>_.
     try_op (AtStep ''mail from'') (mc_mail c sender) (\<lambda>_.
     try_op id (converse_rcpts c rcpts) (\<lambda>_.
     try_op (AtStep ''data'') (mc_data c) (\<lambda>_.
     try_op (AtStep ''data'') (mc_write c msg) (\<lambda>_.
     try_op (AtStep ''data'') (mc_close_data c) (\<lambda>_.
     try_op (AtStep ''quit'') (mc_quit c) ok_op)))))))"

text \<open>A failure after the context ended is reported as the context's, at the step it interrupted.\<close>

definition ended_by :: "smtp_failure option \<Rightarrow> smtp_failure \<Rightarrow> smtp_failure" where
  "ended_by cause e =
     (case cause of
        None \<Rightarrow> e
      | Some c \<Rightarrow> (case e of AtStep step x \<Rightarrow> AtStep step c | _ \<Rightarrow> c))"

record 'c smtp_network =
  sn_dial :: "string \<Rightarrow> duration \<Rightarrow> ('c, smtp_failure, unit) op"
  sn_deadline :: "('c, smtp_failure, unit) op"
  sn_greet :: "string \<Rightarrow> ('c, smtp_failure, 'c smtp_client) op"
  sn_cause :: "'c \<Rightarrow> smtp_failure option"
  sn_close :: "'c \<Rightarrow> 'c"

definition send_mail ::
    "'c smtp_network \<Rightarrow> smtp_config \<Rightarrow> string \<Rightarrow> smtp_auth option \<Rightarrow> string \<Rightarrow> string list \<Rightarrow> string \<Rightarrow>
     ('c, smtp_failure, unit) op" where
  "send_mail n cfg addr auth sender rcpts msg s =
     (let timeout = (if sm_timeout cfg \<le> 0 then default_smtp_timeout else sm_timeout cfg) in
      case sn_dial n addr timeout s of
        (Inl e, s) \<Rightarrow> (Inl (AtStep ''connect'' e), s)
      | (Inr u, s) \<Rightarrow>
          (case sn_deadline n s of
             (Inl e, s) \<Rightarrow> (Inl (AtStep ''connect'' e), sn_close n s)
           | (Inr u, s) \<Rightarrow>
               (case sn_greet n (sm_host cfg) s of
                  (Inl e, s) \<Rightarrow> (let s = sn_close n s in (Inl (ended_by (sn_cause n s) (AtStep ''greeting'' e)), s))
                | (Inr c, s) \<Rightarrow>
                    (case converse c (sm_host cfg) auth sender rcpts msg s of
                       (Inl e, s) \<Rightarrow> (Inl (ended_by (sn_cause n s) e), sn_close n s)
                     | (Inr u, s) \<Rightarrow> (Inr (), sn_close n s)))))"

text \<open>Member events have no mail path: nothing is sent and nothing fails.\<close>

definition smtp_deliver ::
    "(string \<Rightarrow> smtp_auth option \<Rightarrow> string \<Rightarrow> string list \<Rightarrow> string \<Rightarrow> ('c, smtp_failure, unit) op) \<Rightarrow> smtp_config \<Rightarrow>
     event \<Rightarrow> ('c, string, unit) op" where
  "smtp_deliver send cfg e =
     (if ev_audience e \<noteq> audience_operator then ok_op ()
      else
        let msg = build_message (sm_from cfg) (sm_operator_to cfg) (subject_for e) (ev_message e);
            addr = sm_host cfg @ '':'' @ dec_digits (nat (sm_port cfg));
            auth = (if sm_username cfg \<noteq> []
                    then Some \<lparr>au_username = sm_username cfg, au_password = sm_password cfg, au_host = sm_host cfg\<rparr> else None)
        in try_op (\<lambda>x. ''notify: could not send mail: '' @ describe_smtp_failure x)
             (send addr auth (sm_from cfg) [sm_operator_to cfg] msg) ok_op)"

subsection \<open>What a mail contains\<close>

lemma sanitized_plain: "c \<in> set (sanitize_header v) \<Longrightarrow> c \<noteq> mail_cr \<and> c \<noteq> mail_lf"
  by (auto simp: sanitize_header_def mail_cr_def mail_lf_def)

text \<open>The lines of a message up to the first empty one, as a mail reader splits them.\<close>

fun next_line :: "string \<Rightarrow> string \<times> string" where
  "next_line [] = ([], [])"
| "next_line (a # s) =
     (if a = mail_cr \<and> s \<noteq> [] \<and> hd s = mail_lf then ([], tl s)
      else (case next_line s of (l, rest) \<Rightarrow> (a # l, rest)))"

fun header_lines :: "nat \<Rightarrow> string \<Rightarrow> string list" where
  "header_lines 0 s = []"
| "header_lines (Suc n) s =
     (case next_line s of (l, rest) \<Rightarrow> if l = [] then [] else l # header_lines n rest)"

lemma next_line_crlf: "mail_cr \<notin> set l \<Longrightarrow> next_line (l @ crlf @ s) = (l, s)"
  by (induction l) (auto simp: crlf_def)

lemma header_plain: "mail_cr \<notin> set (sanitize_header v)"
  using sanitized_plain by blast

text \<open>C38: no header can be smuggled into a mail. Whatever the configured addresses, the subject and the
  message text contain, line breaks included, a mail reader finds exactly four header lines before the
  body, From, To, Subject and Content-Type, and the body starts after them.\<close>

theorem mail_has_exactly_its_headers:
  "header_lines (Suc (Suc (Suc (Suc (Suc n))))) (build_message sender rcpt subject body) =
     [''From: '' @ sanitize_header sender, ''To: '' @ sanitize_header rcpt, ''Subject: '' @ sanitize_header subject,
      content_type] \<and>
   mail_cr \<notin> set (concat (header_lines 5 (build_message sender rcpt subject body))) \<and>
   mail_lf \<notin> set (concat (header_lines 5 (build_message sender rcpt subject body)))"
proof -
  have none: "mail_cr \<notin> set ''From: ''" "mail_cr \<notin> set ''To: ''" "mail_cr \<notin> set ''Subject: ''" "mail_cr \<notin> set content_type"
    "mail_lf \<notin> set ''From: ''" "mail_lf \<notin> set ''To: ''" "mail_lf \<notin> set ''Subject: ''" "mail_lf \<notin> set content_type"
    by (simp_all add: mail_cr_def mail_lf_def content_type_def)
  have one: "next_line ((h @ sanitize_header v) @ crlf @ s) = (h @ sanitize_header v, s)" if "mail_cr \<notin> set h" for h v s
    using that header_plain by (intro next_line_crlf) auto
  have lines: "header_lines (Suc (Suc (Suc (Suc (Suc k))))) (build_message sender rcpt subject body) =
     [''From: '' @ sanitize_header sender, ''To: '' @ sanitize_header rcpt, ''Subject: '' @ sanitize_header subject,
      content_type]" for k
    using one [OF none(1), of sender] one [OF none(2), of rcpt] one [OF none(3), of subject] next_line_crlf [OF none(4)]
      next_line_crlf [of "[]"]
    by (simp add: build_message_def content_type_def)
  have "header_lines 5 (build_message sender rcpt subject body) = header_lines (Suc (Suc (Suc (Suc (Suc 0))))) (build_message sender rcpt subject body)"
    by (simp add: numeral_eq_Suc)
  then show ?thesis using lines sanitized_plain none by auto
qed

text \<open>What a mail server said is not repeated: only the reply's number is.\<close>

lemma server_text_not_repeated:
  "describe_smtp_failure (AtStep step (ServerReply n msg)) = describe_smtp_failure (AtStep step (ServerReply n msg'))"
  "describe_smtp_failure (ServerReply n msg) = describe_smtp_failure (ServerReply n msg')"
  by (simp_all add: describe_smtp_failure_def)

text \<open>Where the server offers TLS, a login is not tried unless the upgrade succeeded.\<close>

lemma no_login_before_tls:
  assumes "mc_extension c ''STARTTLS'' s" "mc_starttls c host s = (Inl e, s')"
  shows "converse c host auth sender rcpts msg s = (Inl (AtStep ''starttls'' e), s')"
  using assms by (simp add: converse_def converse_tls_def try_op_def)

text \<open>A member's event is never mailed.\<close>

lemma member_event_not_mailed: "ev_audience e = audience_members \<Longrightarrow> smtp_deliver send cfg e s = (Inr (), s)"
  by (simp add: smtp_deliver_def audience_members_def audience_operator_def)

end
