(* ===== verification/Take_Layout.thy ===== *)
theory Take_Layout
  imports Backup_Runner Go_Paths
begin

text \<open>
  Where things lie: the object keys of a Space's repository and envelopes on a target
  (src/internal/snapshot/storage.go), the local directory that stands in for a bucket
  (src/internal/objstore/dir.go), and a Take-Out's manifest with the paths it names
  (src/pkg/takeout/takeout.go). The JSON codec is a parameter.
\<close>

subsection \<open>Keys on a target\<close>

definition spaces_segment :: string where "spaces_segment = ''spaces''"
definition keys_segment :: string where "keys_segment = ''keys''"
definition envelope_object :: string where "envelope_object = ''recovery.ocbke''"
definition server_envelope_object :: string where "server_envelope_object = ''server.ocbke''"

definition repo_prefix :: "location \<Rightarrow> string \<Rightarrow> string" where
  "repo_prefix loc sp = drop_slash (path_join [trim_slashes (lo_prefix loc), spaces_segment, sp]) @ ''/''"

definition envelope_key :: "location \<Rightarrow> string \<Rightarrow> string" where
  "envelope_key loc sp = drop_slash (path_join [trim_slashes (lo_prefix loc), keys_segment, sp, envelope_object])"

definition server_envelope_key :: "location \<Rightarrow> string \<Rightarrow> string" where
  "server_envelope_key loc sp = drop_slash (path_join [trim_slashes (lo_prefix loc), keys_segment, sp, server_envelope_object])"

subsection \<open>A directory in a bucket's place\<close>

datatype dir_error = DirNoRoot | DirEmptyKey

definition dir_resolve :: "string \<Rightarrow> string \<Rightarrow> dir_error + string" where
  "dir_resolve root key =
     (if root = [] then Inl DirNoRoot
      else (let clean = path_clean (CHR ''/'' # drop_slash key) in
            if clean = ''/'' then Inl DirEmptyKey else Inr (path_join [root, drop_slash clean])))"

subsection \<open>The manifest\<close>

definition manifest_format :: string where "manifest_format = ''opencloud-backup-takeout''"
definition manifest_version :: int where "manifest_version = 1"
definition manifest_file :: string where "manifest_file = ''manifest.json''"
definition envelope_file :: string where "envelope_file = ''recovery.ocbke''"
definition repo_dir :: string where "repo_dir = ''repo''"

datatype take_error =
    NoTakeOut
  | NoTakeOutEnvelope
  | TakeOutCorrupt string
  | NewerTakeOut int
  | TakeOutFailed string
  | TakeOutWrapped string take_error
  | RepositoryOpenerRequired
  | SpaceRequired
  | OutDirRequired

record source_ref =
  sr_endpoint :: string
  sr_bucket :: string
  sr_prefix :: string
  sr_repo_prefix :: string
  sr_envelope_key :: string

record envelope_ref =
  er_version :: int
  er_kind :: string
  er_kdf :: string
  er_time :: "32 word"
  er_memory :: "32 word"
  er_lanes :: "8 word"

record blob_ref =
  br_id :: string
  br_size :: int
  br_digest :: string

record take_manifest =
  tm_format :: string
  tm_version :: int
  tm_space :: string
  tm_created :: time
  tm_source :: source_ref
  tm_repo_dir :: string
  tm_envelope_file :: string
  tm_envelope :: "envelope_ref option"
  tm_blob_count :: int
  tm_total :: int
  tm_blobs :: "blob_ref list"

definition stays_inside :: "string \<Rightarrow> bool" where
  "stays_inside p \<longleftrightarrow> p = [] \<or> path_is_local p"

definition bad_blob_id :: "string \<Rightarrow> bool" where
  "bad_blob_id i \<longleftrightarrow> i = [] \<or> i = ''.'' \<or> (\<exists>c\<in>set i. c = CHR ''/'' \<or> c = CHR 0x5C) \<or> \<not> path_is_local i"

definition check_local_paths :: "take_manifest \<Rightarrow> take_error option" where
  "check_local_paths m =
     (if \<not> stays_inside (tm_repo_dir m) then Some (TakeOutCorrupt ''manifest field repo_dir points outside the take-out'')
      else if \<not> stays_inside (tm_envelope_file m) then Some (TakeOutCorrupt ''manifest field envelope_file points outside the take-out'')
      else if \<exists>b\<in>set (tm_blobs m). bad_blob_id (br_id b) then Some (TakeOutCorrupt ''manifest lists a blob outside the repository'')
      else None)"

definition parse_manifest :: "(bytes \<Rightarrow> take_manifest option) \<Rightarrow> bytes \<Rightarrow> take_error + take_manifest" where
  "parse_manifest dec data =
     (case dec data of
        None \<Rightarrow> Inl (TakeOutCorrupt ''manifest is unreadable'')
      | Some m \<Rightarrow>
          if tm_format m \<noteq> manifest_format then Inl NoTakeOut
          else if tm_version m < 1 then Inl (TakeOutCorrupt ''manifest has no format version'')
          else if tm_version m > manifest_version then Inl (NewerTakeOut (tm_version m))
          else if tm_space m = [] then Inl (TakeOutCorrupt ''manifest names no space'')
          else case check_local_paths m of Some e \<Rightarrow> Inl e | None \<Rightarrow> Inr m)"

definition manifest_repo_path :: "take_manifest \<Rightarrow> string \<Rightarrow> string" where
  "manifest_repo_path m dir = path_join [dir, if tm_repo_dir m = [] then repo_dir else tm_repo_dir m]"

definition manifest_envelope_path :: "take_manifest \<Rightarrow> string \<Rightarrow> string" where
  "manifest_envelope_path m dir = path_join [dir, if tm_envelope_file m = [] then envelope_file else tm_envelope_file m]"

subsection \<open>Nothing leads outside\<close>

lemma fixed_names_local: "path_is_local repo_dir" "path_is_local envelope_file" "path_is_local manifest_file"
  unfolding repo_dir_def envelope_file_def manifest_file_def
  by (rule plain_is_local, simp add: plain_name_def)+

lemma path_within_trans:
  assumes "path_within a b" "path_within b c" shows "path_within a c"
proof -
  obtain r where r: "path_segments b = path_segments a @ r" "\<forall>s\<in>set r. plain_name s"
    using assms(1) unfolding path_within_def by blast
  obtain q where q: "path_segments c = path_segments b @ q" "\<forall>s\<in>set q. plain_name s"
    using assms(2) unfolding path_within_def by blast
  have "path_segments c = path_segments a @ (r @ q)" "\<forall>s\<in>set (r @ q). plain_name s" using r q by auto
  then show ?thesis using assms unfolding path_within_def by blast
qed

lemma not_local_up: "\<not> path_is_local ''..''"
  by code_simp

lemma good_blob_id:
  assumes "\<not> bad_blob_id i" shows "plain_name i"
proof -
  have "i \<noteq> []" "i \<noteq> ''.''" "path_is_local i" "CHR ''/'' \<notin> set i"
    using assms unfolding bad_blob_id_def by blast+
  moreover have "i \<noteq> ''..''" using not_local_up calculation(3) by blast
  ultimately show ?thesis unfolding plain_name_def by blast
qed

text \<open>C22: a manifest cannot point outside the Take-Out it came in. Whatever its bytes decode to, when they are
  accepted the repository directory and the envelope file lie inside the directory the reader was given, and
  every blob it lists is a plain name, so that its file lies inside the repository directory.\<close>

theorem manifest_paths_stay_inside:
  assumes "parse_manifest dec data = Inr m" "dir \<noteq> []"
  shows "path_within dir (manifest_repo_path m dir) \<and> path_within dir (manifest_envelope_path m dir) \<and>
    (\<forall>b\<in>set (tm_blobs m). path_within (manifest_repo_path m dir) (path_join [manifest_repo_path m dir, br_id b]) \<and>
       path_within dir (path_join [manifest_repo_path m dir, br_id b]))"
proof -
  have ok: "stays_inside (tm_repo_dir m)" "stays_inside (tm_envelope_file m)" "\<forall>b\<in>set (tm_blobs m). \<not> bad_blob_id (br_id b)"
    using assms(1) by (auto simp: parse_manifest_def check_local_paths_def split: option.splits if_splits)
  have repo: "path_within dir (manifest_repo_path m dir)"
    unfolding manifest_repo_path_def
    using ok(1) fixed_names_local by (intro path_join_local assms(2)) (auto simp: stays_inside_def)
  moreover have "path_within dir (manifest_envelope_path m dir)"
    unfolding manifest_envelope_path_def
    using ok(2) fixed_names_local by (intro path_join_local assms(2)) (auto simp: stays_inside_def)
  moreover have "path_within (manifest_repo_path m dir) (path_join [manifest_repo_path m dir, br_id b]) \<and>
       path_within dir (path_join [manifest_repo_path m dir, br_id b])" if b: "b \<in> set (tm_blobs m)" for b
  proof -
    have "manifest_repo_path m dir \<noteq> []"
      using assms(2) by (auto simp: manifest_repo_path_def path_join_def path_clean_def repo_dir_def Let_def)
    then have inner: "path_within (manifest_repo_path m dir) (path_join [manifest_repo_path m dir, br_id b])"
      using good_blob_id ok(3) b by (intro path_join_local plain_is_local) auto
    then show ?thesis using repo path_within_trans by blast
  qed
  ultimately show ?thesis by blast
qed

definition sample_manifest :: take_manifest where
  "sample_manifest = \<lparr>tm_format = manifest_format, tm_version = 1, tm_space = ''s'', tm_created = 0,
     tm_source = \<lparr>sr_endpoint = [], sr_bucket = [], sr_prefix = [], sr_repo_prefix = [], sr_envelope_key = []\<rparr>,
     tm_repo_dir = ''a/../b'', tm_envelope_file = [], tm_envelope = None, tm_blob_count = 1, tm_total = 3,
     tm_blobs = [\<lparr>br_id = ''p1'', br_size = 3, br_digest = []\<rparr>]\<rparr>"

theorem manifest_paths_stay_inside_witness:
  "parse_manifest (\<lambda>_. Some sample_manifest) [] = Inr sample_manifest \<and>
   manifest_repo_path sample_manifest ''usb'' = ''usb/b'' \<and> path_within ''usb'' (manifest_repo_path sample_manifest ''usb'')"
proof -
  have p: "parse_manifest (\<lambda>_. Some sample_manifest) [] = Inr sample_manifest" by code_simp
  have "manifest_repo_path sample_manifest ''usb'' = ''usb/b''" by code_simp
  then show ?thesis using p manifest_paths_stay_inside [OF p, of "''usb''"] by auto
qed

text \<open>A crafted manifest is refused.\<close>

lemma climbing_manifest_refused:
  "parse_manifest (\<lambda>_. Some (sample_manifest\<lparr>tm_repo_dir := ''a/../../b''\<rparr>)) [] =
     Inl (TakeOutCorrupt ''manifest field repo_dir points outside the take-out'')"
  "parse_manifest (\<lambda>_. Some (sample_manifest\<lparr>tm_envelope_file := ''/etc/passwd''\<rparr>)) [] =
     Inl (TakeOutCorrupt ''manifest field envelope_file points outside the take-out'')"
  by code_simp+

subsection \<open>Envelopes lie outside every repository\<close>

lemma join_from_prefix:
  assumes "\<forall>s\<in>set ps. plain_name s" "\<forall>s\<in>set xs. plain_name s" "xs \<noteq> []"
  shows "drop_slash (path_join (go_join ''/'' ps # xs)) = go_join ''/'' (ps @ xs)"
proof -
  have keep: "filter (\<lambda>p. p \<noteq> []) xs = xs" using assms(2) by (auto simp: filter_id_conv plain_name_def)
  have "path_join (go_join ''/'' ps # xs) = go_join ''/'' (ps @ xs)"
  proof (cases "ps = []")
    case True
    then show ?thesis using keep assms path_clean_plain [of xs] by (simp add: path_join_def)
  next
    case False
    then have "go_join ''/'' (go_join ''/'' ps # xs) = go_join ''/'' (ps @ xs)"
      using assms(3) by (simp add: go_join_append go_join_first)
    then show ?thesis
      using False keep assms hd_join_plain(1) [of ps] path_clean_plain [of "ps @ xs"] by (auto simp: path_join_def)
  qed
  moreover have "go_cut_prefix ''/'' (go_join ''/'' (ps @ xs)) = None"
    using hd_join_plain [of "ps @ xs"] assms by (cases "go_join ''/'' (ps @ xs)") auto
  ultimately show ?thesis by (simp add: drop_slash_def)
qed

lemma segments_plain:
  "plain_name spaces_segment" "plain_name keys_segment" "plain_name envelope_object" "plain_name server_envelope_object"
  by (simp_all add: plain_name_def spaces_segment_def keys_segment_def envelope_object_def server_envelope_object_def)

lemma target_keys:
  assumes "trim_slashes (lo_prefix loc) = go_join ''/'' ps" "\<forall>s\<in>set ps. plain_name s" "plain_name sp"
  shows "repo_prefix loc sp = go_join ''/'' (ps @ [spaces_segment, sp]) @ ''/''"
    "envelope_key loc sp = go_join ''/'' (ps @ [keys_segment, sp, envelope_object])"
    "server_envelope_key loc sp = go_join ''/'' (ps @ [keys_segment, sp, server_envelope_object])"
  using join_from_prefix [OF assms(2)] assms(3) segments_plain
  by (simp_all add: repo_prefix_def envelope_key_def server_envelope_key_def assms(1))

text \<open>Under one target no envelope lies in a repository, and no two envelopes share a key.\<close>

lemma envelopes_outside_repositories:
  assumes "trim_slashes (lo_prefix loc) = go_join ''/'' ps" "\<forall>s\<in>set ps. plain_name s" "plain_name sp" "plain_name sp'"
  shows "go_cut_prefix (repo_prefix loc sp) (envelope_key loc sp') = None"
    "go_cut_prefix (repo_prefix loc sp) (server_envelope_key loc sp') = None"
    "envelope_key loc sp \<noteq> server_envelope_key loc sp'"
    "envelope_key loc sp = envelope_key loc sp' \<longleftrightarrow> sp = sp'"
proof -
  note k = target_keys [OF assms(1,2,3)] target_keys [OF assms(1,2,4)]
  note plain = assms segments_plain
  have split: "go_split (go_join ''/'' (ps @ xs)) = ps @ xs" if "xs \<noteq> []" "\<forall>s\<in>set xs. plain_name s" for xs
  proof (rule go_split_join)
    show "ps @ xs \<noteq> []" using that(1) by simp
    show "\<forall>s\<in>set (ps @ xs). CHR ''/'' \<notin> set s" using that(2) assms(2) unfolding plain_name_def set_append by blast
  qed
  have inj: "go_join ''/'' (ps @ xs) = go_join ''/'' (ps @ ys) \<longleftrightarrow> xs = ys"
    if "xs \<noteq> []" "\<forall>s\<in>set xs. plain_name s" "ys \<noteq> []" "\<forall>s\<in>set ys. plain_name s" for xs ys
    using split [OF that(1,2)] split [OF that(3,4)] by (metis same_append_eq)
  have apart: "go_cut_prefix (go_join ''/'' (ps @ [spaces_segment, sp]) @ ''/'') (go_join ''/'' (ps @ [keys_segment, sp', x])) = None"
    if x: "plain_name x" for x
  proof (rule ccontr)
    assume "go_cut_prefix (go_join ''/'' (ps @ [spaces_segment, sp]) @ ''/'') (go_join ''/'' (ps @ [keys_segment, sp', x])) \<noteq> None"
    then obtain r where "go_join ''/'' (ps @ [keys_segment, sp', x]) = go_join ''/'' (ps @ [spaces_segment, sp]) @ CHR ''/'' # r"
      by (auto simp: go_cut_prefix_Some)
    then have "ps @ [keys_segment, sp', x] = ps @ [spaces_segment, sp] @ go_split r"
      using split [of "[keys_segment, sp', x]"] split [of "[spaces_segment, sp]"] x plain by (simp add: go_split_slash)
    then show False by (simp add: keys_segment_def spaces_segment_def)
  qed
  show "go_cut_prefix (repo_prefix loc sp) (envelope_key loc sp') = None"
    "go_cut_prefix (repo_prefix loc sp) (server_envelope_key loc sp') = None"
    using apart plain by (simp_all add: k)
  show "envelope_key loc sp \<noteq> server_envelope_key loc sp'" "envelope_key loc sp = envelope_key loc sp' \<longleftrightarrow> sp = sp'"
    using inj plain by (simp_all add: k envelope_object_def server_envelope_object_def)
qed

text \<open>A key never leads out of the directory that stands for the bucket.\<close>

lemma dir_resolve_inside:
  assumes "dir_resolve root key = Inr p" shows "path_within root p"
proof -
  let ?x = "CHR ''/'' # drop_slash key"
  let ?ss = "clean_segments True [] (go_split ?x)"
  have plain: "\<forall>s\<in>set ?ss. plain_name s"
    by (rule clean_rooted_plain) (use go_split_no_slash in auto)
  have c: "path_clean ?x = CHR ''/'' # go_join ''/'' ?ss" by (simp add: path_clean_def Let_def)
  have root: "root \<noteq> []" "path_clean ?x \<noteq> ''/''" "p = path_join [root, drop_slash (path_clean ?x)]"
    using assms by (auto simp: dir_resolve_def Let_def split: if_splits)
  then have some: "?ss \<noteq> []" by (auto simp: c)
  have d: "drop_slash (path_clean ?x) = go_join ''/'' ?ss" unfolding c by (simp add: drop_slash_def [of "CHR ''/'' # _"])
  have "path_is_local (go_join ''/'' ?ss)"
  proof -
    have "go_split (go_join ''/'' ?ss) = ?ss" using plain some by (intro go_split_join) (auto simp: plain_name_def)
    moreover have "''.'' \<notin> set ?ss" "''..'' \<notin> set ?ss" using plain by (auto simp: plain_name_def)
    moreover have "go_cut_prefix ''../'' (go_join ''/'' ?ss) = None"
    proof (rule ccontr)
      assume "go_cut_prefix ''../'' (go_join ''/'' ?ss) \<noteq> None"
      then obtain r where "go_join ''/'' ?ss = ''..'' @ CHR ''/'' # r" by (auto simp: go_cut_prefix_Some)
      then have "go_split (go_join ''/'' ?ss) = ''..'' # go_split r" by (simp add: go_split_append)
      then show False using calculation by (metis list.set_intros(1))
    qed
    moreover have "go_join ''/'' ?ss \<noteq> ''..''"
    proof
      assume "go_join ''/'' ?ss = ''..''"
      then have "?ss = [''..'']" using calculation(1) go_split_plain [of "''..''"] by simp
      then show False using plain by (simp add: plain_name_def)
    qed
    ultimately show ?thesis
      using hd_join_plain [OF some plain] by (simp add: path_is_local_def)
  qed
  then show ?thesis using root d by (simp add: path_join_local)
qed

end
