(* ===== verification/Take_Copy.thy ===== *)
theory Take_Copy
  imports Take_Layout
begin

text \<open>
  Blob storages and the copy of a repository (src/internal/snapshot/storage.go and copy.go). A blob storage is a
  record of the operations the code makes on kopia's; opening one on a directory is a parameter, and so is the
  digest. The copy works on ciphertext: no key occurs in it.
\<close>

record 'w file_system =
  fs_mkdir :: "string \<Rightarrow> ('w, string, unit) op"
  fs_write :: "string \<Rightarrow> bytes \<Rightarrow> ('w, string, unit) op"
  fs_read :: "string \<Rightarrow> ('w, string option, bytes) op"
  fs_stat :: "string \<Rightarrow> ('w, string, unit) op"

record 'w blob_storage =
  bs_list :: "('w, string, (string \<times> time) list) op"
  bs_get :: "string \<Rightarrow> ('w, string, bytes) op"
  bs_put :: "string \<Rightarrow> bytes \<Rightarrow> time option \<Rightarrow> ('w, string, unit) op"
  bs_close :: "'w \<Rightarrow> 'w"

type_synonym 'w kopia_dirs = "string \<Rightarrow> bool \<Rightarrow> ('w, string, 'w blob_storage) op"

definition dir_open :: "'w file_system \<Rightarrow> 'w kopia_dirs \<Rightarrow> string \<Rightarrow> bool \<Rightarrow> ('w, string, 'w blob_storage) op" where
  "dir_open fs kd dir create =
     (if dir = [] then fail_op ''snapshot: repository directory not configured''
      else try_op id (if create then fs_mkdir fs dir else ok_op ()) (\<lambda>_. try_op id (kd dir create) ok_op))"

definition filesystem_open ::
    "'w file_system \<Rightarrow> 'w kopia_dirs \<Rightarrow> string \<Rightarrow> location \<Rightarrow> string \<Rightarrow> bool \<Rightarrow> ('w, string, 'w blob_storage) op" where
  "filesystem_open fs kd root loc sp create =
     (if root = [] then fail_op ''snapshot: filesystem opener root not configured''
      else if sp = [] then fail_op ''snapshot: space id required''
      else (let dir = path_join [root, repo_prefix loc sp] in
            try_op id (if create then fs_mkdir fs dir else ok_op ()) (\<lambda>_. try_op id (kd dir create) ok_op)))"

text \<open>The production opener (src/internal/snapshot/s3repo/s3repo.go): kopia's S3 driver, never without both credentials.\<close>

definition go_blank :: "string \<Rightarrow> bool" where
  "go_blank s \<longleftrightarrow> (\<forall>c\<in>set s. c \<in> {CHR 0x09, CHR 0x0A, CHR 0x0B, CHR 0x0C, CHR 0x0D, CHR '' ''})"

definition strip_scheme :: "string \<Rightarrow> string" where
  "strip_scheme endpoint =
     (let e = trim_prefix ''https://'' (trim_prefix ''http://'' endpoint) in
      if e \<noteq> [] \<and> last e = CHR ''/'' then butlast e else e)"

record kopia_s3_options =
  ko_bucket :: string
  ko_prefix :: string
  ko_endpoint :: string
  ko_no_tls :: bool
  ko_access :: string
  ko_secret :: string
  ko_region :: string

definition s3_open ::
    "(kopia_s3_options \<Rightarrow> bool \<Rightarrow> ('w, string, 'w blob_storage) op) \<Rightarrow> location \<Rightarrow> string \<Rightarrow> bool \<Rightarrow>
     ('w, string, 'w blob_storage) op" where
  "s3_open driver loc sp create =
     (if lo_bucket loc = [] then fail_op ''snapshot: target bucket not configured''
      else if sp = [] then fail_op ''snapshot: space id required''
      else if go_blank (lo_access loc) \<or> go_blank (lo_secret loc)
      then fail_op ''snapshot: target S3 access key id and secret access key are both required''
      else try_op (\<lambda>e. ''snapshot: open target storage: '' @ e)
        (driver \<lparr>ko_bucket = lo_bucket loc, ko_prefix = repo_prefix loc sp, ko_endpoint = strip_scheme (lo_endpoint loc),
           ko_no_tls = lo_disable_tls loc, ko_access = lo_access loc, ko_secret = lo_secret loc, ko_region = lo_region loc\<rparr>
          create) ok_op)"

subsection \<open>The copy\<close>

record copied_blob =
  cb_id :: string
  cb_size :: int
  cb_digest :: string

datatype copy_error =
    DestinationRequired
  | ListBlobsFailed string
  | EmptyRepository
  | OpenFailed string
  | ReadBlobFailed string string
  | WriteBlobFailed string string
  | RepositoryMissing
  | BlobUnreadable string
  | BlobMismatch string

definition copied :: "(bytes \<Rightarrow> string) \<Rightarrow> string \<Rightarrow> bytes \<Rightarrow> copied_blob" where
  "copied sha i data = \<lparr>cb_id = i, cb_size = int (length data), cb_digest = sha data\<rparr>"

text \<open>A storage that rejects the source's time stamp is written to without it.\<close>

definition put_with_fallback :: "'w blob_storage \<Rightarrow> string \<Rightarrow> bytes \<Rightarrow> time \<Rightarrow> ('w, copy_error, unit) op" where
  "put_with_fallback dest i data stamp w =
     (case bs_put dest i data (Some stamp) w of
        (Inr u, w) \<Rightarrow> (Inr (), w)
      | (Inl e, w) \<Rightarrow>
          (case bs_put dest i data None w of
             (Inr u, w) \<Rightarrow> (Inr (), w)
           | (Inl e, w) \<Rightarrow> (Inl (WriteBlobFailed i e), w)))"

fun copy_blobs ::
    "(bytes \<Rightarrow> string) \<Rightarrow> 'w blob_storage \<Rightarrow> 'w blob_storage \<Rightarrow> (string \<times> time) list \<Rightarrow> copied_blob list \<Rightarrow>
     ('w, copy_error, copied_blob list) op" where
  "copy_blobs sha src dest [] refs = ok_op refs"
| "copy_blobs sha src dest ((i, stamp) # ids) refs =
     try_op (ReadBlobFailed i) (bs_get src i) (\<lambda>data.
     try_op id (put_with_fallback dest i data stamp) (\<lambda>_.
     copy_blobs sha src dest ids (refs @ [copied sha i data])))"

definition copy_repo ::
    "(bytes \<Rightarrow> string) \<Rightarrow> 'w file_system \<Rightarrow> 'w kopia_dirs \<Rightarrow> 'w blob_storage \<Rightarrow> string \<Rightarrow> ('w, copy_error, copied_blob list) op" where
  "copy_repo sha fs kd src dest_dir =
     (if dest_dir = [] then fail_op DestinationRequired
      else try_op ListBlobsFailed (bs_list src) (\<lambda>ids.
        if ids = [] then fail_op EmptyRepository
        else try_op OpenFailed (dir_open fs kd dest_dir True) (\<lambda>dest.
          defer_op (bs_close dest) (copy_blobs sha src dest ids []))))"

subsection \<open>The check\<close>

fun verify_blobs ::
    "(bytes \<Rightarrow> string) \<Rightarrow> 'w blob_storage \<Rightarrow> copied_blob list \<Rightarrow> ('w, copy_error, unit) op" where
  "verify_blobs sha st [] = ok_op ()"
| "verify_blobs sha st (r # rs) =
     try_op (\<lambda>_. BlobUnreadable (cb_id r)) (bs_get st (cb_id r)) (\<lambda>data.
       if int (length data) \<noteq> cb_size r \<or> sha data \<noteq> cb_digest r then fail_op (BlobMismatch (cb_id r))
       else verify_blobs sha st rs)"

definition verify_repo_dir ::
    "(bytes \<Rightarrow> string) \<Rightarrow> 'w file_system \<Rightarrow> 'w kopia_dirs \<Rightarrow> string \<Rightarrow> copied_blob list \<Rightarrow> ('w, copy_error, unit) op" where
  "verify_repo_dir sha fs kd dir refs =
     try_op (\<lambda>_. RepositoryMissing) (fs_stat fs dir) (\<lambda>_.
     try_op OpenFailed (dir_open fs kd dir False) (\<lambda>st.
     defer_op (bs_close st) (verify_blobs sha st refs)))"

subsection \<open>A disk\<close>

text \<open>A source elsewhere: reading it leaves the disk alone, and a blob's content does not change.\<close>

definition source_of ::
    "('w \<Rightarrow> string \<rightharpoonup> bytes) \<Rightarrow> ('w \<Rightarrow> string \<Rightarrow> string \<rightharpoonup> bytes) \<Rightarrow> 'w blob_storage \<Rightarrow> (string \<Rightarrow> bytes) \<Rightarrow> bool" where
  "source_of files blobs src content \<longleftrightarrow>
     (\<forall>w. files (snd (bs_list src w)) = files w \<and> blobs (snd (bs_list src w)) = blobs w) \<and>
     (\<forall>i w. files (snd (bs_get src i w)) = files w \<and> blobs (snd (bs_get src i w)) = blobs w) \<and>
     (\<forall>i w b w'. bs_get src i w = (Inr b, w') \<longrightarrow> b = content i)"

text \<open>
  What is relied on of the file system and of kopia's directory storages: a write that succeeds is read back, a
  call touches nothing but what it names, and, while the disk is \<open>ready\<close>, what is there can be read. \<open>files\<close> are
  the files by path, \<open>blobs\<close> the blobs by directory and id.
\<close>

locale take_disk =
  fixes fs :: "'w file_system" and kd :: "'w kopia_dirs" and files :: "'w \<Rightarrow> string \<rightharpoonup> bytes"
    and blobs :: "'w \<Rightarrow> string \<Rightarrow> string \<rightharpoonup> bytes" and ready :: "'w \<Rightarrow> bool"
  assumes mkdir_same: "fs_mkdir fs p w = (r, w') \<Longrightarrow> files w' = files w \<and> blobs w' = blobs w"
    and write_same: "fs_write fs p b w = (r, w') \<Longrightarrow> blobs w' = blobs w \<and> (\<forall>q. q \<noteq> p \<longrightarrow> files w' q = files w q)"
    and write_ok: "fs_write fs p b w = (Inr u, w') \<Longrightarrow> files w' p = Some b"
    and read_same: "fs_read fs p w = (q, w') \<Longrightarrow> files w' = files w \<and> blobs w' = blobs w"
    and read_ok: "fs_read fs p w = (Inr b, w') \<Longrightarrow> files w p = Some b"
    and open_same: "kd dir create w = (o1, w') \<Longrightarrow> files w' = files w \<and> blobs w' = blobs w"
    and put_same: "kd dir create w0 = (Inr st, w1) \<Longrightarrow> bs_put st i b t w = (r, w') \<Longrightarrow>
      files w' = files w \<and> (\<forall>d j. d \<noteq> dir \<or> j \<noteq> i \<longrightarrow> blobs w' d j = blobs w d j)"
    and put_ok: "kd dir create w0 = (Inr st, w1) \<Longrightarrow> bs_put st i b t w = (Inr u, w') \<Longrightarrow> blobs w' dir i = Some b"
    and close_same: "kd dir create w0 = (Inr st, w1) \<Longrightarrow>
      files (bs_close st w) = files w \<and> blobs (bs_close st w) = blobs w \<and> (ready w \<longrightarrow> ready (bs_close st w))"
    and read_ready: "ready w \<Longrightarrow> files w p = Some b \<Longrightarrow> \<exists>w'. fs_read fs p w = (Inr b, w') \<and> ready w'"
    and stat_file: "ready w \<Longrightarrow> files w p \<noteq> None \<Longrightarrow> \<exists>w'. fs_stat fs p w = (Inr (), w') \<and> ready w' \<and> files w' = files w \<and> blobs w' = blobs w"
    and stat_repo: "ready w \<Longrightarrow> blobs w p i \<noteq> None \<Longrightarrow> \<exists>w'. fs_stat fs p w = (Inr (), w') \<and> ready w' \<and> files w' = files w \<and> blobs w' = blobs w"
    and open_ready: "ready w \<Longrightarrow> blobs w dir i \<noteq> None \<Longrightarrow> \<exists>st w'. kd dir False w = (Inr st, w') \<and> ready w'"
    and get_ready: "kd dir create w0 = (Inr st, w1) \<Longrightarrow> ready w \<Longrightarrow> blobs w dir i = Some b \<Longrightarrow>
      \<exists>w'. bs_get st i w = (Inr b, w') \<and> ready w' \<and> files w' = files w \<and> blobs w' = blobs w"
begin

lemma put_with_fallback_stores:
  assumes st: "kd dir create w0 = (Inr st, w1)" and p: "put_with_fallback st i b t w = (Inr u, w')"
  shows "files w' = files w \<and> blobs w' dir i = Some b \<and> (\<forall>d j. d \<noteq> dir \<or> j \<noteq> i \<longrightarrow> blobs w' d j = blobs w d j)"
proof -
  obtain q w2 where a: "bs_put st i b (Some t) w = (q, w2)" by fastforce
  show ?thesis
  proof (cases q)
    case (Inr x)
    then show ?thesis
      using p a put_same [OF st a] put_ok [OF st a [unfolded Inr]] by (auto simp: put_with_fallback_def)
  next
    case (Inl e)
    obtain r w3 where b: "bs_put st i b None w2 = (r, w3)" by fastforce
    then obtain x where r: "r = Inr x" "w' = w3" using p a Inl by (cases r) (auto simp: put_with_fallback_def)
    show ?thesis
      using put_same [OF st a] put_same [OF st b] put_ok [OF st b [unfolded r(1)]] r(2) by auto
  qed
qed

lemma copy_blobs_stores:
  assumes st: "kd dir create w0 = (Inr dest, w1)" and src: "source_of files blobs src content"
    and c: "copy_blobs sha src dest ids refs w = (Inr out, w')"
  shows "files w' = files w \<and> out = refs @ map (\<lambda>(i, t). copied sha i (content i)) ids \<and>
    (\<forall>i\<in>fst ` set ids. blobs w' dir i = Some (content i)) \<and>
    (\<forall>d j. d \<noteq> dir \<or> j \<notin> fst ` set ids \<longrightarrow> blobs w' d j = blobs w d j)"
  using c
proof (induction ids arbitrary: refs w)
  case (Cons a ids)
  obtain i t where a: "a = (i, t)" by fastforce
  from Cons.prems obtain data w2 w3 where g: "bs_get src i w = (Inr data, w2)"
    and p: "put_with_fallback dest i data t w2 = (Inr (), w3)"
    and rest: "copy_blobs sha src dest ids (refs @ [copied sha i data]) w3 = (Inr out, w')"
    unfolding a copy_blobs.simps by (elim try_op_cases) auto
  have data: "data = content i" "files w2 = files w" "blobs w2 = blobs w"
    using src g unfolding source_of_def by (metis snd_conv)+
  note one = put_with_fallback_stores [OF st p]
  note two = Cons.IH [OF rest]
  show ?case
  proof (intro conjI allI impI ballI)
    show "files w' = files w" using one two data by simp
    show "out = refs @ map (\<lambda>(i, t). copied sha i (content i)) (a # ids)" using two data by (simp add: a)
    fix j assume "j \<in> fst ` set (a # ids)"
    then show "blobs w' dir j = Some (content j)"
      using one two data by (cases "j \<in> fst ` set ids") (auto simp: a)
  next
    fix d j assume "d \<noteq> dir \<or> j \<notin> fst ` set (a # ids)"
    then show "blobs w' d j = blobs w d j" using one two data by (auto simp: a)
  qed
qed simp

lemma dir_open_storage:
  assumes "dir_open fs kd dir create w = (Inr st, w')"
  obtains w0 where "kd dir create w0 = (Inr st, w')" "files w' = files w" "blobs w' = blobs w"
proof -
  from assms have "dir \<noteq> []" by (auto simp: dir_open_def split: if_splits)
  then obtain u w0 w1 where m: "(if create then fs_mkdir fs dir else ok_op ()) w = (Inr u, w0)"
    and k: "kd dir create w0 = (Inr st, w1)" and "w' = w1"
    using assms by (auto simp: dir_open_def elim!: try_op_cases)
  have "files w0 = files w \<and> blobs w0 = blobs w" using m mkdir_same [of dir w] by (cases create) auto
  then show thesis using that k \<open>w' = w1\<close> open_same [OF k] by simp
qed

text \<open>A copy that succeeds has every blob of the source, verbatim, and records it.\<close>

lemma copy_repo_stores:
  assumes src: "source_of files blobs src content" and c: "copy_repo sha fs kd src dir w = (Inr refs, w')"
  obtains ids v where "bs_list src w = (Inr ids, v)" "ids \<noteq> []" "files w' = files w"
    "refs = map (\<lambda>(i, t). copied sha i (content i)) ids" "\<forall>i\<in>fst ` set ids. blobs w' dir i = Some (content i)"
    "\<forall>d j. d \<noteq> dir \<or> j \<notin> fst ` set ids \<longrightarrow> blobs w' d j = blobs w d j"
proof -
  from c obtain ids w1 dest w2 w3 where l: "bs_list src w = (Inr ids, w1)" and ne: "ids \<noteq> []"
    and o2: "dir_open fs kd dir True w1 = (Inr dest, w2)" and b: "copy_blobs sha src dest ids [] w2 = (Inr refs, w3)"
    and w': "w' = bs_close dest w3"
    by (auto simp: copy_repo_def split: if_splits elim!: try_op_cases defer_op_cases)
  have one: "files w1 = files w" "blobs w1 = blobs w" using src l unfolding source_of_def by (metis snd_conv)+
  obtain w0 where k: "kd dir True w0 = (Inr dest, w2)" "files w2 = files w1" "blobs w2 = blobs w1"
    by (rule dir_open_storage [OF o2])
  show thesis
    by (rule that [OF l ne]) (use copy_blobs_stores [OF k(1) src b] close_same [OF k(1), of w3] one k w' in auto)
qed

text \<open>And the check then passes.\<close>

lemma verify_blobs_passes:
  assumes st: "kd dir create w0 = (Inr st, w1)"
    and "ready w" "\<forall>r\<in>set refs. \<exists>b. blobs w dir (cb_id r) = Some b \<and> r = copied sha (cb_id r) b"
  shows "\<exists>w'. verify_blobs sha st refs w = (Inr (), w') \<and> ready w' \<and> files w' = files w \<and> blobs w' = blobs w"
  using assms(2,3)
proof (induction refs arbitrary: w)
  case (Cons r refs)
  obtain b where b: "blobs w dir (cb_id r) = Some b" "r = copied sha (cb_id r) b" using Cons.prems(2) by auto
  have eq: "cb_size r = int (length b)" "cb_digest r = sha b"
    using arg_cong [OF b(2), of cb_size] arg_cong [OF b(2), of cb_digest] by (simp_all add: copied_def)
  obtain w2 where g: "bs_get st (cb_id r) w = (Inr b, w2)" "ready w2" "files w2 = files w" "blobs w2 = blobs w"
    using get_ready [OF st Cons.prems(1) b(1)] by blast
  then obtain w' where "verify_blobs sha st refs w2 = (Inr (), w')" "ready w'" "files w' = files w" "blobs w' = blobs w"
    using Cons.IH [of w2] Cons.prems(2) by auto
  then show ?case using g eq by (auto simp: try_op_def)
qed simp

lemma verify_repo_dir_passes:
  assumes "ready w" "refs \<noteq> []" "dir \<noteq> []"
    and "\<forall>r\<in>set refs. \<exists>b. blobs w dir (cb_id r) = Some b \<and> r = copied sha (cb_id r) b"
  shows "\<exists>w'. verify_repo_dir sha fs kd dir refs w = (Inr (), w') \<and> ready w' \<and> files w' = files w \<and> blobs w' = blobs w"
proof -
  obtain r where "r \<in> set refs" using assms(2) by (cases refs) auto
  then have some: "blobs w dir (cb_id r) \<noteq> None" using assms(4) by auto
  obtain w1 where s: "fs_stat fs dir w = (Inr (), w1)" "ready w1" "files w1 = files w" "blobs w1 = blobs w"
    using stat_repo [OF assms(1) some] by blast
  have some1: "blobs w1 dir (cb_id r) \<noteq> None" using some s by simp
  obtain st w2 where k: "kd dir False w1 = (Inr st, w2)" "ready w2" using open_ready [OF s(2) some1] by blast
  note same = open_same [OF k(1)]
  have o2: "dir_open fs kd dir False w1 = (Inr st, w2)" using assms(3) k by (simp add: dir_open_def try_op_def ok_op_def)
  obtain w3 where v: "verify_blobs sha st refs w2 = (Inr (), w3)" "ready w3" "files w3 = files w2" "blobs w3 = blobs w2"
    using verify_blobs_passes [OF k(1) k(2), of refs sha] assms(4) same s by auto
  show ?thesis
    using s k o2 v same close_same [OF k(1), of w3]
    by (auto simp: verify_repo_dir_def try_op_def defer_op_def)
qed

end

end
