(* ===== verification/Take_Out.thy ===== *)
theory Take_Out
  imports Take_Copy Key_Service Snap_Base
begin

text \<open>
  The life of a Take-Out: publishing a Space's envelopes to its target (src/internal/takeout/remote/publish.go),
  extracting repository and envelope into a directory (src/internal/takeout/remote/extract.go), checking the
  directory (src/pkg/takeout/verify.go) and restoring from it with the Recovery Key
  (src/pkg/takeout/decrypt/decrypt.go). The target's object store, the disk and the snapshot engine on a local
  repository are records of operations; the JSON codec and the digest are parameters.
\<close>

subsection \<open>Publishing envelopes\<close>

datatype object_error = ObjectNotFound string | ObjectFailed string

text \<open>An object is opened and then read to its end, which may break off.\<close>

record 'w object_store =
  os_get :: "string \<Rightarrow> ('w, object_error, string + bytes) op"
  os_put :: "string \<Rightarrow> bytes \<Rightarrow> ('w, object_error, unit) op"

datatype publish_error =
    PublishNoStore
  | PublishNoSpace
  | PublishUnreadable
  | PublishRefused string
  | PublishReadFailed string
  | PublishStore object_error

definition wrap_kind_name :: "int \<Rightarrow> string" where
  "wrap_kind_name k = (if k = wrap_rk then ''rk'' else if k = wrap_srw then ''srw'' else if k = wrap_tw then ''tw'' else ''unknown'')"

definition stored_envelope_matches :: "'w object_store \<Rightarrow> string \<Rightarrow> bytes \<Rightarrow> ('w, publish_error, bool) op" where
  "stored_envelope_matches st key blob w =
     (case os_get st key w of
        (Inl (ObjectNotFound k), w) \<Rightarrow> (Inr False, w)
      | (Inl e, w) \<Rightarrow> (Inl (PublishStore e), w)
      | (Inr (Inl why), w) \<Rightarrow> (Inl (PublishReadFailed why), w)
      | (Inr (Inr existing), w) \<Rightarrow> (Inr (existing = blob), w))"

definition published_key :: "location \<Rightarrow> string \<Rightarrow> int \<Rightarrow> string option" where
  "published_key loc sp kind =
     (if kind = wrap_rk then Some (envelope_key loc sp)
      else if kind = wrap_srw then Some (server_envelope_key loc sp) else None)"

definition at_prefix :: "string \<Rightarrow> location" where
  "at_prefix p = \<lparr>lo_endpoint = [], lo_region = [], lo_bucket = [], lo_prefix = p, lo_access = [], lo_secret = [],
     lo_disable_tls = False\<rparr>"

definition publish_to :: "'w object_store option \<Rightarrow> string \<Rightarrow> string \<Rightarrow> bytes \<Rightarrow> ('w, publish_error, unit) op" where
  "publish_to store pre sp blob =
     (case store of
        None \<Rightarrow> fail_op PublishNoStore
      | Some st \<Rightarrow>
          if sp = [] then fail_op PublishNoSpace
          else (case inspect blob of
                  Inl e \<Rightarrow> fail_op PublishUnreadable
                | Inr info \<Rightarrow>
                    (case published_key (at_prefix pre) sp (ei_kind info) of
                       None \<Rightarrow> fail_op (PublishRefused (wrap_kind_name (ei_kind info)))
                     | Some key \<Rightarrow>
                         try_op id (stored_envelope_matches st key blob) (\<lambda>same.
                           if same then ok_op () else try_op PublishStore (os_put st key blob) ok_op))))"

definition s3_publish ::
    "(s3_config \<Rightarrow> ('w, object_error, 'w object_store) op) \<Rightarrow> s3_config \<Rightarrow> string \<Rightarrow> string \<Rightarrow> bytes \<Rightarrow>
     ('w, publish_error, unit) op" where
  "s3_publish new_s3 cfg pre sp blob = try_op PublishStore (new_s3 cfg) (\<lambda>st. publish_to (Some st) pre sp blob)"

subsection \<open>Extracting\<close>

record 'w extract_options =
  xo_repos :: "(location \<Rightarrow> string \<Rightarrow> bool \<Rightarrow> ('w, string, 'w blob_storage) op) option"
  xo_objects :: "'w object_store option"
  xo_location :: location
  xo_space :: string
  xo_out :: string
  xo_allow_missing :: bool
  xo_now :: "'w \<Rightarrow> time"

record envelope_copy =
  ec_blob :: bytes
  ec_ref :: envelope_ref

definition object_text :: "object_error \<Rightarrow> string" where
  "object_text e = (case e of ObjectNotFound k \<Rightarrow> ''objstore: object not found: '' @ k | ObjectFailed t \<Rightarrow> t)"

definition describe_envelope :: "envelope_info \<Rightarrow> envelope_ref" where
  "describe_envelope info = \<lparr>er_version = ei_version info, er_kind = wrap_kind_name (ei_kind info), er_kdf = ei_kdf info,
     er_time = ap_time (ei_argon info), er_memory = ap_memory (ei_argon info), er_lanes = ap_lanes (ei_argon info)\<rparr>"

definition read_envelope ::
    "'w object_store option \<Rightarrow> string \<Rightarrow> bool \<Rightarrow> ('w, take_error, envelope_copy option) op" where
  "read_envelope src key allow_missing w =
     (case src of
        None \<Rightarrow>
          if allow_missing then (Inr None, w)
          else (Inl (TakeOutFailed ''takeout: object store is required to fetch the key envelope''), w)
      | Some st \<Rightarrow>
          (case os_get st key w of
             (Inl (ObjectNotFound k), w) \<Rightarrow> if allow_missing then (Inr None, w) else (Inl NoTakeOutEnvelope, w)
           | (Inl e, w) \<Rightarrow> (Inl (TakeOutFailed (object_text e)), w)
           | (Inr (Inl why), w) \<Rightarrow> (Inl (TakeOutFailed (''takeout: read key envelope: '' @ why)), w)
           | (Inr (Inr blob), w) \<Rightarrow>
               (case inspect blob of
                  Inl e \<Rightarrow> (Inl (TakeOutCorrupt ''key envelope is unreadable''), w)
                | Inr info \<Rightarrow>
                    if ei_kind info \<noteq> wrap_rk then (Inl (TakeOutCorrupt ''stored envelope is not a recovery-key envelope''), w)
                    else (Inr (Some \<lparr>ec_blob = blob, ec_ref = describe_envelope info\<rparr>), w))))"

definition manifest_blob :: "copied_blob \<Rightarrow> blob_ref" where
  "manifest_blob c = \<lparr>br_id = cb_id c, br_size = cb_size c, br_digest = cb_digest c\<rparr>"

definition copied_of :: "blob_ref \<Rightarrow> copied_blob" where
  "copied_of b = \<lparr>cb_id = br_id b, cb_size = br_size b, cb_digest = br_digest b\<rparr>"

definition write_manifest ::
    "'w file_system \<Rightarrow> (take_manifest \<Rightarrow> bytes option) \<Rightarrow> string \<Rightarrow> take_manifest \<Rightarrow> ('w, take_error, unit) op" where
  "write_manifest fs enc dir m =
     (case enc m of
        None \<Rightarrow> fail_op (TakeOutFailed ''takeout: encode manifest'')
      | Some data \<Rightarrow>
          try_op (\<lambda>e. TakeOutFailed (''takeout: write manifest: '' @ e))
            (fs_write fs (path_join [dir, manifest_file]) (data @ [10])) ok_op)"

definition manifest_for :: "location \<Rightarrow> string \<Rightarrow> time \<Rightarrow> copied_blob list \<Rightarrow> envelope_ref option \<Rightarrow> take_manifest" where
  "manifest_for loc sp now blobs env =
     \<lparr>tm_format = manifest_format, tm_version = manifest_version, tm_space = sp, tm_created = now,
      tm_source = \<lparr>sr_endpoint = lo_endpoint (redacted loc), sr_bucket = lo_bucket (redacted loc),
        sr_prefix = lo_prefix (redacted loc), sr_repo_prefix = repo_prefix loc sp, sr_envelope_key = envelope_key loc sp\<rparr>,
      tm_repo_dir = repo_dir, tm_envelope_file = (if env = None then [] else envelope_file), tm_envelope = env,
      tm_blob_count = int (length blobs), tm_total = sum_list (map cb_size blobs), tm_blobs = map manifest_blob blobs\<rparr>"

text \<open>The envelope is written before the manifest that names it.\<close>

definition write_take_out ::
    "'w file_system \<Rightarrow> (take_manifest \<Rightarrow> bytes option) \<Rightarrow> string \<Rightarrow> envelope_copy option \<Rightarrow> take_manifest \<Rightarrow>
     ('w, take_error, take_manifest) op" where
  "write_take_out fs enc out env m =
     try_op id
       (case env of
          None \<Rightarrow> ok_op ()
        | Some e \<Rightarrow> try_op (\<lambda>x. TakeOutFailed (''takeout: write key envelope: '' @ x))
            (fs_write fs (path_join [out, envelope_file]) (ec_blob e)) ok_op)
       (\<lambda>_. try_op id (write_manifest fs enc out m) (\<lambda>_. ok_op m))"

definition take_extract ::
    "(bytes \<Rightarrow> string) \<Rightarrow> 'w file_system \<Rightarrow> 'w kopia_dirs \<Rightarrow> (take_manifest \<Rightarrow> bytes option) \<Rightarrow> 'w extract_options \<Rightarrow>
     ('w, take_error, take_manifest) op" where
  "take_extract sha fs kd enc o1 =
     (case xo_repos o1 of
        None \<Rightarrow> fail_op RepositoryOpenerRequired
      | Some repos \<Rightarrow>
          if xo_space o1 = [] then fail_op SpaceRequired
          else if xo_out o1 = [] then fail_op OutDirRequired
          else
            try_op id (read_envelope (xo_objects o1) (envelope_key (xo_location o1) (xo_space o1)) (xo_allow_missing o1)) (\<lambda>env.
            try_op (\<lambda>e. TakeOutFailed (''takeout: create output directory: '' @ e)) (fs_mkdir fs (xo_out o1)) (\<lambda>_.
            try_op (\<lambda>e. TakeOutFailed (''takeout: open target repository: '' @ e)) (repos (xo_location o1) (xo_space o1) False) (\<lambda>src.
            defer_op (bs_close src)
              (try_op (\<lambda>e. TakeOutFailed ''takeout: copy repository'')
                 (copy_repo sha fs kd src (path_join [xo_out o1, repo_dir])) (\<lambda>blobs w.
               write_take_out fs enc (xo_out o1) env
                 (manifest_for (xo_location o1) (xo_space o1) (xo_now o1 w) blobs (map_option ec_ref env)) w))))))"

subsection \<open>Checking\<close>

definition read_manifest ::
    "'w file_system \<Rightarrow> (bytes \<Rightarrow> take_manifest option) \<Rightarrow> string \<Rightarrow> ('w, take_error, take_manifest) op" where
  "read_manifest fs dec dir w =
     (case fs_read fs (path_join [dir, manifest_file]) w of
        (Inl None, w) \<Rightarrow> (Inl NoTakeOut, w)
      | (Inl (Some why), w) \<Rightarrow> (Inl (TakeOutFailed (''takeout: read manifest: '' @ why)), w)
      | (Inr data, w) \<Rightarrow> (parse_manifest dec data, w))"

definition copy_error_text :: "copy_error \<Rightarrow> string" where
  "copy_error_text e =
     (case e of
        DestinationRequired \<Rightarrow> ''snapshot: destination directory required''
      | ListBlobsFailed t \<Rightarrow> ''snapshot: list repository blobs: '' @ t
      | EmptyRepository \<Rightarrow> ''snapshot: repository is empty''
      | OpenFailed t \<Rightarrow> t
      | ReadBlobFailed i t \<Rightarrow> ''snapshot: read blob '' @ i @ '': '' @ t
      | WriteBlobFailed i t \<Rightarrow> ''snapshot: write blob '' @ i @ '': '' @ t
      | RepositoryMissing \<Rightarrow> ''snapshot: repository directory is missing''
      | BlobUnreadable i \<Rightarrow> ''snapshot: blob '' @ i @ '' is missing or unreadable''
      | BlobMismatch i \<Rightarrow> ''snapshot: blob '' @ i @ '' does not match its recorded digest'')"

definition take_verify ::
    "(bytes \<Rightarrow> string) \<Rightarrow> 'w file_system \<Rightarrow> 'w kopia_dirs \<Rightarrow> (bytes \<Rightarrow> take_manifest option) \<Rightarrow> string \<Rightarrow>
     ('w, take_error, unit) op" where
  "take_verify sha fs kd dec dir =
     try_op id (read_manifest fs dec dir) (\<lambda>m.
     try_op (\<lambda>e. TakeOutCorrupt (copy_error_text e))
       (verify_repo_dir sha fs kd (manifest_repo_path m dir) (map copied_of (tm_blobs m))) (\<lambda>_.
     if tm_envelope_file m \<noteq> []
     then try_op (\<lambda>_. TakeOutCorrupt ''key envelope is missing'') (fs_stat fs (manifest_envelope_path m dir)) ok_op
     else ok_op ()))"

subsection \<open>Restoring with the Recovery Key\<close>

datatype decrypt_error =
    DecryptTakeOut take_error
  | WrongRecoveryKey
  | UnsupportedEnvelope
  | BadEnvelopeFile
  | BadEnvelopeFileRead string
  | EnvelopeFileMismatch
  | RecoveryKeyRequired
  | DecryptOutDirRequired
  | NoSnapshots
  | DecryptNoSuchSnapshot string
  | DecryptFailed string

record decrypt_options =
  do_dir :: string
  do_key :: bytes
  do_out :: string
  do_snapshot :: string
  do_work :: string
  do_envelope :: string

record decrypt_result =
  dr_space :: string
  dr_snapshot :: string
  dr_start :: time
  dr_out :: string

record offline_repo =
  or_dir :: string
  or_work :: string
  or_space :: string
  or_dk :: bytes

record 'w offline_engine =
  oe_new :: "string \<Rightarrow> string \<Rightarrow> ('w, string, unit) op"
  oe_list :: "offline_repo \<Rightarrow> ('w, string, snap_info list) op"
  oe_restore :: "offline_repo \<Rightarrow> string \<Rightarrow> string \<Rightarrow> ('w, string, unit) op"

definition is_future_version :: "bytes \<Rightarrow> bool" where
  "is_future_version blob \<longleftrightarrow>
     6 \<le> length blob \<and> take 5 blob = envelope_magic \<and> uint (blob ! 5) > envelope_version"

fun is_bad_envelope :: "key_error \<Rightarrow> bool" where
  "is_bad_envelope (BadEnvelope t) = True"
| "is_bad_envelope (KeyWrapped t e) = is_bad_envelope e"
| "is_bad_envelope e = False"

definition read_failure :: "string option \<Rightarrow> string" where
  "read_failure e = (if e = None then ''file not found'' else ''file could not be read'')"

definition decrypt_read_envelope ::
    "'w file_system \<Rightarrow> decrypt_options \<Rightarrow> take_manifest \<Rightarrow> ('w, decrypt_error, bytes) op" where
  "decrypt_read_envelope fs o1 m =
     (if do_envelope o1 \<noteq> []
      then try_op (\<lambda>e. BadEnvelopeFileRead (read_failure e)) (fs_read fs (do_envelope o1)) ok_op
      else if tm_envelope_file m = [] \<and> tm_envelope m = None then fail_op (DecryptTakeOut NoTakeOutEnvelope)
      else try_op (\<lambda>e. DecryptTakeOut (case e of None \<Rightarrow> NoTakeOutEnvelope | Some why \<Rightarrow> TakeOutFailed (''takeout: read key envelope: '' @ why)))
        (fs_read fs (manifest_envelope_path m (do_dir o1))) ok_op)"

definition envelope_damaged :: "decrypt_options \<Rightarrow> string \<Rightarrow> decrypt_error" where
  "envelope_damaged o1 detail = (if do_envelope o1 \<noteq> [] then BadEnvelopeFile else DecryptTakeOut (TakeOutCorrupt detail))"

definition open_envelope :: "crypto \<Rightarrow> decrypt_options \<Rightarrow> bytes \<Rightarrow> decrypt_error + bytes" where
  "open_envelope cr o1 blob =
     (case inspect blob of
        Inl e \<Rightarrow>
          if is_bad_envelope e \<and> is_future_version blob then Inl UnsupportedEnvelope
          else Inl (envelope_damaged o1 ''key envelope is unreadable'')
      | Inr info \<Rightarrow>
          if ei_kind info \<noteq> wrap_rk then Inl (envelope_damaged o1 ''stored envelope is not a recovery-key envelope'')
          else (case unwrap_rk cr \<lparr>wd_version = ei_version info, wd_kind = wrap_rk, wd_blob = blob, wd_created = zero_time\<rparr> (do_key o1) of
                  Inl e \<Rightarrow> Inl WrongRecoveryKey
                | Inr dk \<Rightarrow> Inr dk))"

definition decrypt_data_key ::
    "crypto \<Rightarrow> 'w file_system \<Rightarrow> decrypt_options \<Rightarrow> take_manifest \<Rightarrow> ('w, decrypt_error, bytes) op" where
  "decrypt_data_key cr fs o1 m =
     (if do_key o1 = [] then fail_op RecoveryKeyRequired
      else try_op id (decrypt_read_envelope fs o1 m) (\<lambda>blob w. (open_envelope cr o1 blob, w)))"

definition unreadable_repo :: "decrypt_options \<Rightarrow> decrypt_error" where
  "unreadable_repo o1 =
     (if do_envelope o1 \<noteq> [] then EnvelopeFileMismatch else DecryptTakeOut (TakeOutCorrupt ''repository could not be read''))"

definition offline_open ::
    "'w file_system \<Rightarrow> 'w offline_engine \<Rightarrow> decrypt_options \<Rightarrow> take_manifest \<Rightarrow> bytes \<Rightarrow> ('w, decrypt_error, offline_repo) op" where
  "offline_open fs eng o1 m dk =
     (let dir = manifest_repo_path m (do_dir o1) in
      try_op (\<lambda>_. DecryptTakeOut (TakeOutCorrupt ''repository directory is missing'')) (fs_stat fs dir) (\<lambda>_.
      try_op DecryptFailed (oe_new eng dir (do_work o1)) (\<lambda>_.
      ok_op \<lparr>or_dir = dir, or_work = do_work o1, or_space = tm_space m, or_dk = dk\<rparr>)))"

definition select_snapshot :: "snap_info list \<Rightarrow> string \<Rightarrow> decrypt_error + snap_info" where
  "select_snapshot infos i =
     (case infos of
        [] \<Rightarrow> Inl NoSnapshots
      | newest # _ \<Rightarrow>
          if i = [] then Inr newest
          else (case find (\<lambda>s. si_id s = i) infos of Some s \<Rightarrow> Inr s | None \<Rightarrow> Inl (DecryptNoSuchSnapshot i)))"

definition offline_list_snapshots ::
    "crypto \<Rightarrow> 'w file_system \<Rightarrow> (bytes \<Rightarrow> take_manifest option) \<Rightarrow> 'w offline_engine \<Rightarrow> decrypt_options \<Rightarrow>
     ('w, decrypt_error, snap_info list) op" where
  "offline_list_snapshots cr fs dec eng o1 =
     try_op DecryptTakeOut (read_manifest fs dec (do_dir o1)) (\<lambda>m.
     try_op id (decrypt_data_key cr fs o1 m) (\<lambda>dk.
     try_op id (offline_open fs eng o1 m dk) (\<lambda>rp.
     try_op (\<lambda>_. unreadable_repo o1) (oe_list eng rp) ok_op)))"

definition decrypt ::
    "crypto \<Rightarrow> 'w file_system \<Rightarrow> (bytes \<Rightarrow> take_manifest option) \<Rightarrow> 'w offline_engine \<Rightarrow> decrypt_options \<Rightarrow>
     ('w, decrypt_error, decrypt_result) op" where
  "decrypt cr fs dec eng o1 =
     (if do_out o1 = [] then fail_op DecryptOutDirRequired
      else
        try_op DecryptTakeOut (read_manifest fs dec (do_dir o1)) (\<lambda>m.
        try_op id (decrypt_data_key cr fs o1 m) (\<lambda>dk.
        try_op id (offline_open fs eng o1 m dk) (\<lambda>rp.
        try_op (\<lambda>_. unreadable_repo o1) (oe_list eng rp) (\<lambda>infos.
        try_op id (\<lambda>w. (select_snapshot infos (do_snapshot o1), w)) (\<lambda>chosen.
        try_op (\<lambda>e. DecryptFailed (''takeout: create output directory: '' @ e)) (fs_mkdir fs (do_out o1)) (\<lambda>_.
        try_op (\<lambda>e. DecryptFailed (''takeout: restore failed: '' @ e)) (oe_restore eng rp (si_id chosen) (do_out o1)) (\<lambda>_.
        ok_op \<lparr>dr_space = tm_space m, dr_snapshot = si_id chosen, dr_start = si_start chosen, dr_out = do_out o1\<rparr>))))))))"

end
