(* ===== verification/Take_Safety.thy ===== *)
theory Take_Safety
  imports Take_Out
begin

text \<open>
  What a Take-Out is worth: an envelope is published where its kind belongs, an extracted directory passes its
  own check and holds the repository verbatim, and the Recovery Key opens it.
\<close>

subsection \<open>A bucket\<close>

text \<open>\<open>objects\<close> are the stored objects. A put that fails has taken effect or has not.\<close>

locale bucket =
  fixes st :: "'w object_store" and objects :: "'w \<Rightarrow> string \<rightharpoonup> bytes"
  assumes get_same: "os_get st k w = (r, w') \<Longrightarrow> objects w' = objects w"
    and get_stored: "os_get st k w = (Inr (Inr b), w') \<Longrightarrow> objects w k = Some b"
    and put_stores: "os_put st k b w = (Inr u, w') \<Longrightarrow> objects w' = (objects w)(k \<mapsto> b)"
    and put_fails: "os_put st k b w = (Inl e, w') \<Longrightarrow> objects w' = objects w \<or> objects w' = (objects w)(k \<mapsto> b)"
begin

lemma matches_same:
  assumes "stored_envelope_matches st k b w = (r, w')"
  shows "objects w' = objects w" "r = Inr True \<Longrightarrow> objects w k = Some b"
proof -
  obtain q w1 where g: "os_get st k w = (q, w1)" by fastforce
  have "w' = w1" "r = Inr True \<Longrightarrow> q = Inr (Inr b)"
    using assms g by (auto simp: stored_envelope_matches_def split: sum.splits object_error.splits)
  then show "objects w' = objects w" "r = Inr True \<Longrightarrow> objects w k = Some b"
    using get_same [OF g] get_stored [of k w b w1] g by auto
qed

lemma publish_effect:
  assumes "publish_to (Some st) pre sp blob w = (r, w')"
  shows "(objects w' = objects w \<and> (\<forall>u. r \<noteq> Inr u)) \<or>
    (\<exists>info k. sp \<noteq> [] \<and> inspect blob = Inr info \<and> published_key (at_prefix pre) sp (ei_kind info) = Some k \<and>
      (objects w' = (objects w)(k \<mapsto> blob) \<or> (objects w' = objects w \<and> (\<forall>u. r \<noteq> Inr u))))"
proof (cases "sp \<noteq> [] \<and> (\<exists>info k. inspect blob = Inr info \<and> published_key (at_prefix pre) sp (ei_kind info) = Some k)")
  case False
  then have "w' = w \<and> (\<exists>e. r = Inl e)"
    using assms by (auto simp: publish_to_def split: if_splits sum.splits option.splits)
  then show ?thesis by auto
next
  case True
  then obtain info k where k: "sp \<noteq> []" "inspect blob = Inr info" "published_key (at_prefix pre) sp (ei_kind info) = Some k"
    by blast
  obtain q w1 where m: "stored_envelope_matches st k blob w = (q, w1)" by fastforce
  note one = matches_same [OF m]
  have "objects w' = (objects w)(k \<mapsto> blob) \<or> (objects w' = objects w \<and> (\<forall>u. r \<noteq> Inr u))"
  proof (cases q)
    case (Inl e)
    then show ?thesis using assms k m one by (auto simp: publish_to_def try_op_def)
  next
    case (Inr same)
    show ?thesis
    proof (cases same)
      case True
      then show ?thesis using assms k m one Inr by (auto simp: publish_to_def try_op_def)
    next
      case False
      obtain p w2 where p: "os_put st k blob w1 = (p, w2)" by fastforce
      have "w' = w2" "r = map_sum PublishStore id p"
        using assms k m Inr False p by (cases p; simp add: publish_to_def try_op_def)+
      then show ?thesis
        using one p put_stores [of k blob w1 _ w2] put_fails [of k blob w1 _ w2] by (cases p) auto
    qed
  qed
  then show ?thesis using k by blast
qed

end

text \<open>C21: an envelope is filed where its own header says it belongs. Whatever is published for a Space and
  however the calls fail, the only object that changes is the one for the kind the blob's header declares,
  and it then holds exactly the blob: a server envelope never replaces a recovery envelope, and a blob that is
  neither changes nothing. A publication that succeeds has left the blob there.\<close>

theorem envelope_filed_by_kind:
  assumes "bucket st objects" "publish_to (Some st) pre sp blob w = (r, w')"
  shows "(\<forall>k. objects w' k \<noteq> objects w k \<longrightarrow> objects w' k = Some blob \<and>
      (\<exists>info. inspect blob = Inr info \<and>
        ((ei_kind info = wrap_rk \<and> k = envelope_key (at_prefix pre) sp) \<or>
         (ei_kind info = wrap_srw \<and> k = server_envelope_key (at_prefix pre) sp)))) \<and>
    (\<forall>u. r = Inr u \<longrightarrow> (\<exists>info k. inspect blob = Inr info \<and> published_key (at_prefix pre) sp (ei_kind info) = Some k \<and>
      objects w' k = Some blob))"
proof -
  note effect = bucket.publish_effect [OF assms]
  have kind: "(ei_kind info = wrap_rk \<and> k = envelope_key (at_prefix pre) sp) \<or>
      (ei_kind info = wrap_srw \<and> k = server_envelope_key (at_prefix pre) sp)"
    if "published_key (at_prefix pre) sp (ei_kind info) = Some k" for info k
    using that by (auto simp: published_key_def split: if_splits)
  have "objects w' k = Some blob \<and> (\<exists>info. inspect blob = Inr info \<and> published_key (at_prefix pre) sp (ei_kind info) = Some k)"
    if "objects w' k \<noteq> objects w k" for k
    using effect that by (auto split: if_splits)
  moreover have "\<exists>info k. inspect blob = Inr info \<and> published_key (at_prefix pre) sp (ei_kind info) = Some k \<and> objects w' k = Some blob"
    if "r = Inr u" for u
    using effect that by (auto split: if_splits)
  ultimately show ?thesis using kind by blast
qed

subsection \<open>An extracted directory passes its check\<close>

lemma path_join_segments:
  assumes "path_is_local p" "dir \<noteq> []"
  shows "path_segments (path_join [dir, p]) = path_segments dir @ path_segments p"
proof -
  have p: "p \<noteq> []" using assms(1) by (simp add: path_is_local_def)
  let ?x = "dir @ CHR ''/'' # p"
  have "path_join [dir, p] = path_clean ?x" using p assms(2) by (simp add: path_join_def)
  moreover have root: "path_rooted ?x = path_rooted dir" using assms(2) by (simp add: path_rooted_def)
  moreover have "path_segments ?x = path_segments dir @ path_segments p"
    using clean_over_base [of "[]" "go_split p" "path_rooted dir" "rev (path_segments dir)"] local_segments [OF assms(1)]
    by (simp add: path_segments_def go_split_slash clean_segments_append root)
  ultimately show ?thesis by (simp add: path_segments_clean)
qed

lemma manifest_apart: "dir \<noteq> [] \<Longrightarrow> path_join [dir, manifest_file] \<noteq> path_join [dir, envelope_file]"
proof
  assume d: "dir \<noteq> []" and "path_join [dir, manifest_file] = path_join [dir, envelope_file]"
  then have "path_segments dir @ path_segments manifest_file = path_segments dir @ path_segments envelope_file"
    using path_join_segments [OF fixed_names_local(2) d] path_join_segments [OF fixed_names_local(3) d] by simp
  moreover have "path_segments manifest_file \<noteq> path_segments envelope_file" by code_simp
  ultimately show False by simp
qed

lemma copied_manifest [simp]: "copied_of (manifest_blob c) = c" "br_id (manifest_blob c) = cb_id c"
  by (simp_all add: copied_of_def manifest_blob_def)

lemma inspect_rk:
  assumes "read_envelope os key missing w = (Inr (Some e), w')"
  shows "\<exists>st info. os = Some st \<and> os_get st key w = (Inr (Inr (ec_blob e)), w') \<and> inspect (ec_blob e) = Inr info \<and> ei_kind info = wrap_rk"
  using assms by (auto simp: read_envelope_def split: option.splits prod.splits sum.splits object_error.splits if_splits)

lemma envelope_key_at_prefix: "envelope_key (at_prefix (lo_prefix loc)) sp = envelope_key loc sp"
  by (simp add: envelope_key_def at_prefix_def)

text \<open>What is sealed carries its kind where the header is inspected.\<close>

lemma sealed_kind:
  assumes "crypto_ok cr" "fills random" "seal_with cr random dk rk wrap_rk kdf params r = (Inr blob, r')" "inspect blob = Inr info"
  shows "ei_kind info = wrap_rk"
proof -
  obtain p salt r1 where "seal_body cr random dk rk wrap_rk kdf p salt r1 = (Inr blob, r')"
    "ap_salt_len p = of_nat (length salt)" "length salt < 256"
    by (rule seal_with_cases [OF assms(3,2)])
  then obtain h nonce ct where "parse_envelope blob = Inr (h, nonce, ct)" "eh_kind h = uint (word_of_int wrap_rk :: 8 word)"
    using seal_body_opens(1) [OF assms(1,2)] by blast
  then show ?thesis using assms(4) by (auto simp: inspect_def wrap_rk_def)
qed

text \<open>A target whose repositories are sources, with ids that are plain names.\<close>

definition target_of ::
    "('w \<Rightarrow> string \<rightharpoonup> bytes) \<Rightarrow> ('w \<Rightarrow> string \<Rightarrow> string \<rightharpoonup> bytes) \<Rightarrow>
     (location \<Rightarrow> string \<Rightarrow> bool \<Rightarrow> ('w, string, 'w blob_storage) op) \<Rightarrow> (string \<Rightarrow> bytes) \<Rightarrow> bool" where
  "target_of files blobs repos content \<longleftrightarrow>
     (\<forall>loc sp w src w'. repos loc sp False w = (Inr src, w') \<longrightarrow>
        source_of files blobs src content \<and>
        (\<forall>v. files (bs_close src v) = files v \<and> blobs (bs_close src v) = blobs v) \<and>
        (\<forall>v ids v'. bs_list src v = (Inr ids, v') \<longrightarrow> (\<forall>i\<in>fst ` set ids. \<not> bad_blob_id i)))"

text \<open>The repository of the Space, opened on the target, lists these blobs.\<close>

definition listing_of ::
    "(location \<Rightarrow> string \<Rightarrow> bool \<Rightarrow> ('w, string, 'w blob_storage) op) \<Rightarrow> location \<Rightarrow> string \<Rightarrow> 'w blob_storage \<Rightarrow>
     (string \<times> time) list \<Rightarrow> bool" where
  "listing_of repos loc sp src ids \<longleftrightarrow>
     (\<exists>w w' v v'. repos loc sp False w = (Inr src, w') \<and> bs_list src v = (Inr ids, v'))"

text \<open>A listing that succeeds is of all the blobs \<open>there\<close>.\<close>

definition lists_all ::
    "(location \<Rightarrow> string \<Rightarrow> bool \<Rightarrow> ('w, string, 'w blob_storage) op) \<Rightarrow> (location \<Rightarrow> string \<Rightarrow> string set) \<Rightarrow> bool" where
  "lists_all repos there \<longleftrightarrow> (\<forall>loc sp src ids. listing_of repos loc sp src ids \<longrightarrow> fst ` set ids = there loc sp)"

context take_disk
begin

text \<open>What a successful extraction leaves on the disk.\<close>

lemma write_take_out_files:
  assumes "write_take_out fs enc out env m w = (Inr m', w')" "out \<noteq> []"
  shows "m' = m \<and> blobs w' = blobs w \<and> (\<exists>data. enc m = Some data \<and> files w' (path_join [out, manifest_file]) = Some (data @ [10])) \<and>
    (\<forall>e. env = Some e \<longrightarrow> files w' (path_join [out, envelope_file]) = Some (ec_blob e))"
proof -
  let ?env = "case env of None \<Rightarrow> ok_op () | Some e \<Rightarrow> try_op (\<lambda>x. TakeOutFailed (''takeout: write key envelope: '' @ x))
      (fs_write fs (path_join [out, envelope_file]) (ec_blob e)) ok_op"
  from assms(1) obtain w1 u where e0: "?env w = (Inr u, w1)" and m0: "write_manifest fs enc out m w1 = (Inr (), w')" and m': "m' = m"
    unfolding write_take_out_def by (elim try_op_cases) auto
  have e: "?env w = (Inr (), w1)" using e0 by simp
  obtain data where data: "enc m = Some data" using m0 by (cases "enc m") (simp_all add: write_manifest_def)
  have f: "fs_write fs (path_join [out, manifest_file]) (data @ [10]) w1 = (Inr (), w')"
    using m0 data by (auto simp: write_manifest_def elim!: try_op_cases)
  have "blobs w1 = blobs w \<and> (\<forall>e. env = Some e \<longrightarrow> files w1 (path_join [out, envelope_file]) = Some (ec_blob e))"
    using e write_same write_ok by (auto elim!: try_op_cases split: option.splits)
  then show ?thesis
    using m' data write_same [OF f] write_ok [OF f] manifest_apart [OF assms(2)] by auto
qed

lemma take_extract_leaves:
  assumes "take_extract sha fs kd enc o1 w = (Inr m, w')" "xo_repos o1 = Some repos" "target_of files blobs repos content"
  obtains env v now and ids :: "(string \<times> time) list" where
    "read_envelope (xo_objects o1) (envelope_key (xo_location o1) (xo_space o1)) (xo_allow_missing o1) w = (Inr env, v)"
    "m = manifest_for (xo_location o1) (xo_space o1) now (map (\<lambda>(i, t). copied sha i (content i)) ids) (map_option ec_ref env)"
    "ids \<noteq> []" "\<forall>i\<in>fst ` set ids. \<not> bad_blob_id i" "xo_space o1 \<noteq> []" "xo_out o1 \<noteq> []"
    "\<forall>i\<in>fst ` set ids. blobs w' (path_join [xo_out o1, repo_dir]) i = Some (content i)"
    "\<exists>data. enc m = Some data \<and> files w' (path_join [xo_out o1, manifest_file]) = Some (data @ [10])"
    "\<forall>e. env = Some e \<longrightarrow> files w' (path_join [xo_out o1, envelope_file]) = Some (ec_blob e)"
    "\<exists>src. listing_of repos (xo_location o1) (xo_space o1) src ids"
proof -
  from assms(1,2) obtain env v w2 w3 src w4 refs w5 where some: "xo_space o1 \<noteq> []" "xo_out o1 \<noteq> []"
    and e: "read_envelope (xo_objects o1) (envelope_key (xo_location o1) (xo_space o1)) (xo_allow_missing o1) w = (Inr env, v)"
    and o2: "repos (xo_location o1) (xo_space o1) False w2 = (Inr src, w3)"
    and c: "copy_repo sha fs kd src (path_join [xo_out o1, repo_dir]) w3 = (Inr refs, w4)"
    and wr: "write_take_out fs enc (xo_out o1) env
        (manifest_for (xo_location o1) (xo_space o1) (xo_now o1 w4) refs (map_option ec_ref env)) w4 = (Inr m, w5)"
    and w': "w' = bs_close src w5"
    by (auto simp: take_extract_def split: if_splits elim!: try_op_cases defer_op_cases)
  have src: "source_of files blobs src content" "\<forall>v. files (bs_close src v) = files v \<and> blobs (bs_close src v) = blobs v"
    "\<forall>v ids v'. bs_list src v = (Inr ids, v') \<longrightarrow> (\<forall>i\<in>fst ` set ids. \<not> bad_blob_id i)"
    using assms(3) o2 unfolding target_of_def by blast+
  obtain ids v2 where ids: "bs_list src w3 = (Inr ids, v2)" "ids \<noteq> []"
    "refs = map (\<lambda>(i, t). copied sha i (content i)) ids"
    "\<forall>i\<in>fst ` set ids. blobs w4 (path_join [xo_out o1, repo_dir]) i = Some (content i)"
    by (rule copy_repo_stores [OF src(1) c])
  note left = write_take_out_files [OF wr some(2)]
  show thesis
  proof (rule that [of env v "xo_now o1 w4" ids])
    show "read_envelope (xo_objects o1) (envelope_key (xo_location o1) (xo_space o1)) (xo_allow_missing o1) w = (Inr env, v)" by (rule e)
    show "ids \<noteq> []" "xo_space o1 \<noteq> []" "xo_out o1 \<noteq> []" using ids(2) some by blast+
    show "m = manifest_for (xo_location o1) (xo_space o1) (xo_now o1 w4) (map (\<lambda>(i, t). copied sha i (content i)) ids) (map_option ec_ref env)"
      using left ids(3) by blast
    show "\<forall>i\<in>fst ` set ids. \<not> bad_blob_id i" using src(3) ids(1) by blast
    show "\<forall>i\<in>fst ` set ids. blobs w' (path_join [xo_out o1, repo_dir]) i = Some (content i)"
      using left ids(4) src(2) w' by simp
    show "\<exists>data. enc m = Some data \<and> files w' (path_join [xo_out o1, manifest_file]) = Some (data @ [10])"
      using left src(2) w' by simp
    show "\<forall>e. env = Some e \<longrightarrow> files w' (path_join [xo_out o1, envelope_file]) = Some (ec_blob e)"
      using left src(2) w' by simp
    show "\<exists>src. listing_of repos (xo_location o1) (xo_space o1) src ids"
      unfolding listing_of_def using o2 ids(1) by blast
  qed
qed

lemma extracted_manifest_ok:
  assumes "\<forall>i\<in>fst ` set ids. \<not> bad_blob_id i" "sp \<noteq> []"
    and m: "m = manifest_for loc sp now (map (\<lambda>(i, t). copied sha i (content i)) ids) env" and "dec data = Some m"
  shows "parse_manifest dec data = Inr m"
proof -
  have "\<not> bad_blob_id (br_id b)" if "b \<in> set (tm_blobs m)" for b
    using that assms(1) unfolding m by (force simp: manifest_for_def copied_def)
  moreover have "tm_format m = manifest_format" "tm_version m = 1" "tm_space m = sp" "stays_inside (tm_repo_dir m)"
    "stays_inside (tm_envelope_file m)"
    using fixed_names_local by (simp_all add: m manifest_for_def manifest_version_def stays_inside_def)
  ultimately show ?thesis
    using assms(2,4) by (simp add: parse_manifest_def check_local_paths_def manifest_version_def)
qed

lemma manifest_reads_back:
  assumes "take_extract sha fs kd enc o1 w = (Inr m, w')" "xo_repos o1 = Some repos" "target_of files blobs repos content"
    and "\<forall>m data. enc m = Some data \<longrightarrow> dec (data @ [10]) = Some m" "ready w'"
  obtains w1 where "read_manifest fs dec (xo_out o1) w' = (Inr m, w1)" "ready w1" "files w1 = files w'" "blobs w1 = blobs w'"
proof -
  obtain env v now and ids :: "(string \<times> time) list" where
    e: "read_envelope (xo_objects o1) (envelope_key (xo_location o1) (xo_space o1)) (xo_allow_missing o1) w = (Inr env, v)"
    and m: "m = manifest_for (xo_location o1) (xo_space o1) now (map (\<lambda>(i, t). copied sha i (content i)) ids) (map_option ec_ref env)"
    and ids: "ids \<noteq> []" "\<forall>i\<in>fst ` set ids. \<not> bad_blob_id i" and some: "xo_space o1 \<noteq> []" "xo_out o1 \<noteq> []"
    and b: "\<forall>i\<in>fst ` set ids. blobs w' (path_join [xo_out o1, repo_dir]) i = Some (content i)"
    and f: "\<exists>data. enc m = Some data \<and> files w' (path_join [xo_out o1, manifest_file]) = Some (data @ [10])"
    and env: "\<forall>e. env = Some e \<longrightarrow> files w' (path_join [xo_out o1, envelope_file]) = Some (ec_blob e)"
    and list: "\<exists>src. listing_of repos (xo_location o1) (xo_space o1) src ids"
    by (rule take_extract_leaves [OF assms(1,2,3)])
  obtain data where d: "enc m = Some data" "files w' (path_join [xo_out o1, manifest_file]) = Some (data @ [10])" using f by blast
  have dec: "dec (data @ [10]) = Some m" using assms(4) d(1) by blast
  have p: "parse_manifest dec (data @ [10]) = Inr m" by (rule extracted_manifest_ok [where sha = sha and content = content and ids = ids and dec = dec and data = "data @ [10]", OF ids(2) some(1) m dec])
  obtain w1 where r: "fs_read fs (path_join [xo_out o1, manifest_file]) w' = (Inr (data @ [10]), w1)" "ready w1"
    using read_ready [OF assms(5) d(2)] by blast
  show thesis
    by (rule that [of w1]) (use r p read_same [OF r(1)] in \<open>simp_all add: read_manifest_def\<close>)
qed

lemma extracted_passes:
  assumes x: "take_extract sha fs kd enc o1 w = (Inr m, w')" "xo_repos o1 = Some repos" "target_of files blobs repos content"
    and codec: "\<forall>m data. enc m = Some data \<longrightarrow> dec (data @ [10]) = Some m" and ready: "ready w'"
    and all: "lists_all repos there"
  shows "tm_blobs m \<noteq> [] \<and> br_id ` set (tm_blobs m) = there (xo_location o1) (xo_space o1) \<and>
    (\<forall>b\<in>set (tm_blobs m). blobs w' (manifest_repo_path m (xo_out o1)) (br_id b) = Some (content (br_id b))) \<and>
    fst (take_verify sha fs kd dec (xo_out o1) w') = Inr ()"
proof -
  obtain env v now and ids :: "(string \<times> time) list" where
    e: "read_envelope (xo_objects o1) (envelope_key (xo_location o1) (xo_space o1)) (xo_allow_missing o1) w = (Inr env, v)"
    and m: "m = manifest_for (xo_location o1) (xo_space o1) now (map (\<lambda>(i, t). copied sha i (content i)) ids) (map_option ec_ref env)"
    and ids: "ids \<noteq> []" "\<forall>i\<in>fst ` set ids. \<not> bad_blob_id i" and some: "xo_space o1 \<noteq> []" "xo_out o1 \<noteq> []"
    and b: "\<forall>i\<in>fst ` set ids. blobs w' (path_join [xo_out o1, repo_dir]) i = Some (content i)"
    and f: "\<exists>data. enc m = Some data \<and> files w' (path_join [xo_out o1, manifest_file]) = Some (data @ [10])"
    and env: "\<forall>e. env = Some e \<longrightarrow> files w' (path_join [xo_out o1, envelope_file]) = Some (ec_blob e)"
    and list: "\<exists>src. listing_of repos (xo_location o1) (xo_space o1) src ids"
    by (rule take_extract_leaves [OF x])
  let ?dir = "path_join [xo_out o1, repo_dir]"
  have refs: "map copied_of (tm_blobs m) = map (\<lambda>(i, t). copied sha i (content i)) ids"
    and dir: "manifest_repo_path m (xo_out o1) = ?dir"
    and listed: "br_id ` set (tm_blobs m) = fst ` set ids"
    by (simp_all add: m manifest_for_def manifest_repo_path_def repo_dir_def copied_def case_prod_beta image_image)
  have dirs: "?dir \<noteq> []" using some(2) by (auto simp: path_join_def path_clean_def repo_dir_def Let_def)
  obtain w1 where r: "read_manifest fs dec (xo_out o1) w' = (Inr m, w1)" "ready w1" "files w1 = files w'" "blobs w1 = blobs w'"
    by (rule manifest_reads_back [OF x codec ready])
  have "\<forall>r\<in>set (map copied_of (tm_blobs m)). \<exists>b. blobs w1 ?dir (cb_id r) = Some b \<and> r = copied sha (cb_id r) b"
    unfolding refs using b r(4) by (force simp: copied_def)
  moreover have "map copied_of (tm_blobs m) \<noteq> []" using refs ids by simp
  ultimately obtain w2 where v: "verify_repo_dir sha fs kd ?dir (map copied_of (tm_blobs m)) w1 = (Inr (), w2)" "ready w2" "files w2 = files w1"
    using verify_repo_dir_passes [OF r(2) _ dirs] by blast
  have "fst (take_verify sha fs kd dec (xo_out o1) w') = Inr ()"
  proof (cases "tm_envelope_file m = []")
    case True
    then show ?thesis by (simp add: take_verify_def try_op_def r(1) dir v(1) ok_op_def)
  next
    case False
    then obtain c where "env = Some c" by (cases env) (simp_all add: m manifest_for_def)
    then have "files w2 (manifest_envelope_path m (xo_out o1)) \<noteq> None"
      using env v(3) r(3) by (simp add: m manifest_for_def manifest_envelope_path_def envelope_file_def)
    then obtain w3 where "fs_stat fs (manifest_envelope_path m (xo_out o1)) w2 = (Inr (), w3)" using stat_file [OF v(2)] by blast
    then show ?thesis using False by (simp add: take_verify_def try_op_def r(1) dir v(1) ok_op_def)
  qed
  moreover have "tm_blobs m \<noteq> []" using ids(1) by (simp add: m manifest_for_def)
  moreover have "\<forall>b\<in>set (tm_blobs m). blobs w' ?dir (br_id b) = Some (content (br_id b))"
    using b listed by blast
  moreover have "br_id ` set (tm_blobs m) = there (xo_location o1) (xo_space o1)"
    using listed list all unfolding lists_all_def by metis
  ultimately show ?thesis unfolding dir by blast
qed

text \<open>And the envelope in the directory opens.\<close>

lemma extracted_opens:
  assumes x: "take_extract sha fs kd enc o1 w = (Inr m, w')" "xo_repos o1 = Some repos" "target_of files blobs repos content"
    and codec: "\<forall>m data. enc m = Some data \<longrightarrow> dec (data @ [10]) = Some m" and ready: "ready w'"
    and store: "xo_objects o1 = Some st" "bucket st objects" "\<not> xo_allow_missing o1"
    and blob: "objects w (envelope_key (xo_location o1) (xo_space o1)) = Some blob" "env_open cr blob rk = Inr dk" "rk \<noteq> []"
    and o2: "do_dir o2 = xo_out o1" "do_key o2 = rk" "do_envelope o2 = []"
  shows "fst (try_op DecryptTakeOut (read_manifest fs dec (do_dir o2)) (decrypt_data_key cr fs o2) w') = Inr dk"
proof -
  obtain env v now and ids :: "(string \<times> time) list" where
    e: "read_envelope (xo_objects o1) (envelope_key (xo_location o1) (xo_space o1)) (xo_allow_missing o1) w = (Inr env, v)"
    and m: "m = manifest_for (xo_location o1) (xo_space o1) now (map (\<lambda>(i, t). copied sha i (content i)) ids) (map_option ec_ref env)"
    and ids: "ids \<noteq> []" "\<forall>i\<in>fst ` set ids. \<not> bad_blob_id i" and some: "xo_space o1 \<noteq> []" "xo_out o1 \<noteq> []"
    and b: "\<forall>i\<in>fst ` set ids. blobs w' (path_join [xo_out o1, repo_dir]) i = Some (content i)"
    and f: "\<exists>data. enc m = Some data \<and> files w' (path_join [xo_out o1, manifest_file]) = Some (data @ [10])"
    and env: "\<forall>e. env = Some e \<longrightarrow> files w' (path_join [xo_out o1, envelope_file]) = Some (ec_blob e)"
    and list: "\<exists>src. listing_of repos (xo_location o1) (xo_space o1) src ids"
    by (rule take_extract_leaves [OF x])
  obtain c where c: "env = Some c"
    using e store(1,3) by (cases env) (auto simp: read_envelope_def split: prod.splits sum.splits object_error.splits if_splits)
  obtain st1 info where i: "xo_objects o1 = Some st1" "inspect (ec_blob c) = Inr info" "ei_kind info = wrap_rk"
    "os_get st1 (envelope_key (xo_location o1) (xo_space o1)) w = (Inr (Inr (ec_blob c)), v)"
    using inspect_rk [OF e [unfolded c]] by blast
  have same: "ec_blob c = blob"
    using bucket.get_stored [OF store(2), of "envelope_key (xo_location o1) (xo_space o1)" w "ec_blob c" v] i(1,4) store(1) blob(1) by simp
  obtain w1 where r: "read_manifest fs dec (xo_out o1) w' = (Inr m, w1)" "ready w1" "files w1 = files w'" "blobs w1 = blobs w'"
    by (rule manifest_reads_back [OF x codec ready])
  have "files w1 (manifest_envelope_path m (xo_out o1)) = Some blob"
    using env c same r(3) by (simp add: m manifest_for_def manifest_envelope_path_def envelope_file_def)
  then obtain w2 where "fs_read fs (manifest_envelope_path m (xo_out o1)) w1 = (Inr blob, w2)" using read_ready [OF r(2)] by blast
  moreover have "tm_envelope m \<noteq> None" by (simp add: m c manifest_for_def)
  moreover have "open_envelope cr o2 blob = Inr dk"
    using i(2,3) same blob(2) o2 by (simp add: open_envelope_def unwrap_rk_def)
  ultimately show ?thesis
    using r(1) o2 blob(3) by (auto simp: try_op_def decrypt_data_key_def decrypt_read_envelope_def ok_op_def)
qed

end

text \<open>C20: an extracted Take-Out is complete. When the extraction reports success, its manifest lists exactly the
  blobs that the Space's repository on the target has, every one of them lies in the directory with the content it
  has on the target, and the check of the directory, which reads back the manifest, every blob and the
  envelope file, passes as long as the disk can be read. Relied on of the target: a listing that succeeds is of
  all its blobs, and their content does not change meanwhile.\<close>

theorem extracted_take_out_verifies:
  assumes "take_disk fs kd files blobs ready" "xo_repos o1 = Some repos" "target_of files blobs repos content"
    and "lists_all repos there" "\<forall>m data. enc m = Some data \<longrightarrow> dec (data @ [10]) = Some m"
    and "take_extract sha fs kd enc o1 w = (Inr m, w')" "ready w'"
  shows "tm_blobs m \<noteq> [] \<and> br_id ` set (tm_blobs m) = there (xo_location o1) (xo_space o1) \<and>
    (\<forall>i\<in>there (xo_location o1) (xo_space o1). blobs w' (manifest_repo_path m (xo_out o1)) i = Some (content i)) \<and>
    fst (take_verify sha fs kd dec (xo_out o1) w') = Inr ()"
proof -
  note left = take_disk.extracted_passes [OF assms(1,6,2,3,5,7,4)]
  then have eq: "br_id ` set (tm_blobs m) = there (xo_location o1) (xo_space o1)" by (elim conjE)
  have "\<forall>b\<in>set (tm_blobs m). blobs w' (manifest_repo_path m (xo_out o1)) (br_id b) = Some (content (br_id b))"
    using left by (elim conjE)
  then have "\<forall>i\<in>br_id ` set (tm_blobs m). blobs w' (manifest_repo_path m (xo_out o1)) i = Some (content i)" by simp
  then have "\<forall>i\<in>there (xo_location o1) (xo_space o1). blobs w' (manifest_repo_path m (xo_out o1)) i = Some (content i)"
    unfolding eq .
  then show ?thesis using left by (elim conjE) (intro conjI)
qed

text \<open>C16: the Recovery Key opens the Take-Out, with no server. When the envelope that a Recovery Key made was
  published for the Space and nothing has replaced it, a Take-Out extracted later carries it, and the offline
  tool, given the directory and the same key, unwraps the Data Key that was sealed.\<close>

theorem take_out_opens_with_recovery_key:
  assumes "take_disk fs kd files blobs ready" "bucket st objects" "crypto_ok cr" "fills random"
    and "xo_repos o1 = Some repos" "target_of files blobs repos content"
    and "\<forall>m data. enc m = Some data \<longrightarrow> dec (data @ [10]) = Some m"
    and "wrap_with_rk cr random dk rk params now r = (Inr wd, r')"
    and "publish_to (Some st) (lo_prefix (xo_location o1)) (xo_space o1) (wd_blob wd) w0 = (Inr u, w1)"
    and "objects w (envelope_key (xo_location o1) (xo_space o1)) = objects w1 (envelope_key (xo_location o1) (xo_space o1))"
    and "xo_objects o1 = Some st" "\<not> xo_allow_missing o1"
    and "take_extract sha fs kd enc o1 w = (Inr m, w')" "ready w'"
    and "do_dir o2 = xo_out o1" "do_key o2 = rk" "do_envelope o2 = []"
  shows "fst (try_op DecryptTakeOut (read_manifest fs dec (do_dir o2)) (decrypt_data_key cr fs o2) w') = Inr dk"
proof -
  note sealed = wrap_with_rk_Inr(1) [OF assms(8)]
  have rk: "rk \<noteq> []" using sealed by (auto simp: seal_with_def split: if_splits)
  have opens: "env_open cr (wd_blob wd) rk = Inr dk" by (rule sealed_opens [OF assms(3,4) sealed])
  have kind: "ei_kind info = wrap_rk" if "inspect (wd_blob wd) = Inr info" for info
    using sealed_kind [OF assms(3,4) sealed] that by simp
  obtain info k where "inspect (wd_blob wd) = Inr info" "published_key (at_prefix (lo_prefix (xo_location o1))) (xo_space o1) (ei_kind info) = Some k"
    "objects w1 k = Some (wd_blob wd)"
    using bucket.publish_effect [OF assms(2,9)] by (auto split: if_splits)
  then have "objects w1 (envelope_key (xo_location o1) (xo_space o1)) = Some (wd_blob wd)"
    using kind by (simp add: published_key_def envelope_key_at_prefix)
  then show ?thesis
    using take_disk.extracted_opens [OF assms(1,13,5,6,7,14,11,2,12) _ opens rk assms(15,16,17)] assms(10) by simp
qed

subsection \<open>A disk and a bucket that run out\<close>

text \<open>
  A memory that serves as both, for concrete instances: with \<open>dk_fuel\<close> \<open>Some n\<close> it fails every call after the
  next \<open>n\<close>, with \<open>None\<close> it is in order.
\<close>

record disk =
  dk_files :: "(string \<times> bytes) list"
  dk_blobs :: "((string \<times> string) \<times> bytes) list"
  dk_objects :: "(string \<times> bytes) list"
  dk_fuel :: "nat option"

definition strike :: "'e \<Rightarrow> (disk, 'e, 'a) op \<Rightarrow> (disk, 'e, 'a) op" where
  "strike e K d = (case dk_fuel d of None \<Rightarrow> K d | Some n \<Rightarrow> if n = 0 then (Inl e, d) else K (d\<lparr>dk_fuel := Some (n - 1)\<rparr>))"

definition disk_repo :: "disk \<Rightarrow> string \<Rightarrow> (string \<times> time) list" where
  "disk_repo d dir = map (\<lambda>x. (snd (fst x), 0)) (filter (\<lambda>x. fst (fst x) = dir) (dk_blobs d))"

definition disk_fs :: "disk file_system" where
  "disk_fs = \<lparr>fs_mkdir = (\<lambda>p. strike ''disk'' (ok_op ())),
     fs_write = (\<lambda>p b. strike ''disk'' (\<lambda>d. (Inr (), d\<lparr>dk_files := (p, b) # dk_files d\<rparr>))),
     fs_read = (\<lambda>p. strike (Some ''disk'') (\<lambda>d. (case map_of (dk_files d) p of None \<Rightarrow> Inl None | Some b \<Rightarrow> Inr b, d))),
     fs_stat = (\<lambda>p. strike ''disk'' (\<lambda>d.
       (if map_of (dk_files d) p \<noteq> None \<or> disk_repo d p \<noteq> [] then Inr () else Inl ''no such file'', d)))\<rparr>"

definition disk_storage :: "string \<Rightarrow> disk blob_storage" where
  "disk_storage dir = \<lparr>bs_list = strike ''disk'' (\<lambda>d. (Inr (disk_repo d dir), d)),
     bs_get = (\<lambda>i. strike ''disk'' (\<lambda>d. (case map_of (dk_blobs d) (dir, i) of None \<Rightarrow> Inl ''not found'' | Some b \<Rightarrow> Inr b, d))),
     bs_put = (\<lambda>i b t. strike ''disk'' (\<lambda>d. (Inr (), d\<lparr>dk_blobs := ((dir, i), b) # dk_blobs d\<rparr>))),
     bs_close = id\<rparr>"

definition disk_kopia :: "disk kopia_dirs" where
  "disk_kopia dir create = strike ''disk'' (\<lambda>d.
     (if \<not> create \<and> disk_repo d dir = [] then Inl ''no repository'' else Inr (disk_storage dir), d))"

definition disk_bucket :: "disk object_store" where
  "disk_bucket = \<lparr>os_get = (\<lambda>k. strike (ObjectFailed ''down'') (\<lambda>d.
       (case map_of (dk_objects d) k of None \<Rightarrow> Inl (ObjectNotFound k) | Some b \<Rightarrow> Inr (Inr b), d))),
     os_put = (\<lambda>k b. strike (ObjectFailed ''down'') (\<lambda>d. (Inr (), d\<lparr>dk_objects := (k, b) # dk_objects d\<rparr>)))\<rparr>"

interpretation disk_objects: bucket disk_bucket "\<lambda>d. map_of (dk_objects d)"
  by unfold_locales (auto simp: disk_bucket_def strike_def split: option.splits if_splits)

lemma disk_repo_empty: "disk_repo d dir = [] \<Longrightarrow> map_of (dk_blobs d) (dir, i) = None"
  by (force simp: disk_repo_def filter_empty_conv map_of_eq_None_iff)

lemma disk_repo_some: "map_of (dk_blobs d) (dir, i) = Some b \<Longrightarrow> disk_repo d dir \<noteq> []"
  using disk_repo_empty by fastforce

interpretation plain_disk: take_disk disk_fs disk_kopia "\<lambda>d. map_of (dk_files d)" "\<lambda>d dir i. map_of (dk_blobs d) (dir, i)"
    "\<lambda>d. dk_fuel d = None"
  by unfold_locales
    (auto simp: disk_fs_def disk_kopia_def disk_storage_def strike_def ok_op_def disk_repo_some split: option.splits if_splits)

text \<open>A published envelope and a target with two blobs.\<close>

definition empty_disk :: disk where
  "empty_disk = \<lparr>dk_files = [], dk_blobs = [], dk_objects = [], dk_fuel = None\<rparr>"

definition sample_content :: "string \<Rightarrow> bytes" where "sample_content i = map (\<lambda>_. 7) i"

definition sample_repos :: "location \<Rightarrow> string \<Rightarrow> bool \<Rightarrow> (disk, string, disk blob_storage) op" where
  "sample_repos loc sp create = ok_op \<lparr>bs_list = strike ''net'' (ok_op [(''p1'', 0), (''q'', 5)]),
     bs_get = (\<lambda>i. strike ''net'' (ok_op (sample_content i))), bs_put = (\<lambda>i b t. fail_op ''read-only''), bs_close = id\<rparr>"

definition sample_sealed :: wrapped_dk where
  "sample_sealed = (case wrap_with_rk plain_crypto counting_random (replicate 32 9) [3]
       \<lparr>ap_time = 1, ap_memory = 1, ap_lanes = 1, ap_salt_len = 1\<rparr> 0 0 of (Inr wd, _) \<Rightarrow> wd | _ \<Rightarrow> zero_wrapped)"

definition sample_published :: disk where
  "sample_published = snd (publish_to (Some disk_bucket) ''t'' ''s'' (wd_blob sample_sealed) empty_disk)"

definition sample_extract :: "disk extract_options" where
  "sample_extract = \<lparr>xo_repos = Some sample_repos, xo_objects = Some disk_bucket, xo_location = at_prefix ''t'',
     xo_space = ''s'', xo_out = ''usb'', xo_allow_missing = False, xo_now = (\<lambda>_. 5)\<rparr>"

definition sample_digest :: "bytes \<Rightarrow> string" where "sample_digest b = map (\<lambda>_. CHR ''d'') b"

definition sample_taken :: take_manifest where
  "sample_taken = manifest_for (at_prefix ''t'') ''s'' 5
     [copied sample_digest ''p1'' (sample_content ''p1''), copied sample_digest ''q'' (sample_content ''q'')]
     (case inspect (wd_blob sample_sealed) of Inr info \<Rightarrow> Some (describe_envelope info) | _ \<Rightarrow> None)"

definition sample_encode :: "take_manifest \<Rightarrow> bytes option" where
  "sample_encode m = (if m = sample_taken then Some [1] else None)"

definition sample_decode :: "bytes \<Rightarrow> take_manifest option" where
  "sample_decode b = (if b = [1, 10] then Some sample_taken else None)"

definition sample_usb :: disk where
  "sample_usb = snd (take_extract sample_digest disk_fs disk_kopia sample_encode sample_extract sample_published)"

lemma sample_published_there:
  "publish_to (Some disk_bucket) ''t'' ''s'' (wd_blob sample_sealed) empty_disk = (Inr (), sample_published)"
  by (rule prod_eqI; code_simp)

lemma sample_take_out:
  "take_extract sample_digest disk_fs disk_kopia sample_encode sample_extract sample_published = (Inr sample_taken, sample_usb)"
  by (rule prod_eqI; code_simp)

lemma sample_target:
  "target_of (\<lambda>d. map_of (dk_files d)) (\<lambda>d dir i. map_of (dk_blobs d) (dir, i)) sample_repos sample_content"
proof -
  have "\<not> bad_blob_id ''p1''" "\<not> bad_blob_id ''q''" by code_simp+
  then show ?thesis
    by (auto simp: target_of_def source_of_def sample_repos_def strike_def ok_op_def split: option.splits if_splits)
qed

lemma sample_codec: "\<forall>m data. sample_encode m = Some data \<longrightarrow> sample_decode (data @ [10]) = Some m"
  by (simp add: sample_encode_def sample_decode_def)

theorem envelope_filed_by_kind_witness:
  "map_of (dk_objects sample_published) ''t/keys/s/recovery.ocbke'' = Some (wd_blob sample_sealed) \<and>
   (\<exists>info k. inspect (wd_blob sample_sealed) = Inr info \<and> published_key (at_prefix ''t'') ''s'' (ei_kind info) = Some k \<and>
     map_of (dk_objects sample_published) k = Some (wd_blob sample_sealed))"
proof
  show "map_of (dk_objects sample_published) ''t/keys/s/recovery.ocbke'' = Some (wd_blob sample_sealed)" by code_simp
  show "\<exists>info k. inspect (wd_blob sample_sealed) = Inr info \<and> published_key (at_prefix ''t'') ''s'' (ei_kind info) = Some k \<and>
     map_of (dk_objects sample_published) k = Some (wd_blob sample_sealed)"
    using envelope_filed_by_kind [OF disk_objects.bucket_axioms sample_published_there] by blast
qed

lemma sample_lists: "lists_all sample_repos (\<lambda>loc sp. {''p1'', ''q''})"
  by (auto simp: lists_all_def listing_of_def sample_repos_def strike_def ok_op_def split: option.splits if_splits)

theorem extracted_take_out_verifies_witness:
  "fst (take_verify sample_digest disk_fs disk_kopia sample_decode ''usb'' sample_usb) = Inr () \<and>
   br_id ` set (tm_blobs sample_taken) = {''p1'', ''q''}"
proof -
  have "dk_fuel sample_usb = None" "xo_repos sample_extract = Some sample_repos" "xo_out sample_extract = ''usb''"
    by code_simp (simp_all add: sample_extract_def)
  then show ?thesis
    using extracted_take_out_verifies [OF plain_disk.take_disk_axioms _ sample_target sample_lists sample_codec sample_take_out] by simp
qed

definition sample_offline :: decrypt_options where
  "sample_offline = \<lparr>do_dir = ''usb'', do_key = [3], do_out = ''out'', do_snapshot = [], do_work = ''w'', do_envelope = []\<rparr>"

theorem take_out_opens_with_recovery_key_witness:
  "fst (try_op DecryptTakeOut (read_manifest disk_fs sample_decode ''usb'')
     (decrypt_data_key plain_crypto disk_fs sample_offline) sample_usb) = Inr (replicate 32 9)"
proof -
  have w: "wrap_with_rk plain_crypto counting_random (replicate 32 9) [3]
      \<lparr>ap_time = 1, ap_memory = 1, ap_lanes = 1, ap_salt_len = 1\<rparr> 0 0 = (Inr sample_sealed, 2)"
    by code_simp
  have "dk_fuel sample_usb = None" by code_simp
  then show ?thesis
    using take_out_opens_with_recovery_key [OF plain_disk.take_disk_axioms disk_objects.bucket_axioms plain_crypto_ok counting_fills
        _ sample_target sample_codec w _ _ _ _ sample_take_out, of empty_disk "()" sample_published sample_offline]
      sample_published_there
    by (simp add: sample_extract_def sample_offline_def at_prefix_def)
qed

end
