(* ===== verification/Inst_Guard.thy ===== *)
theory Inst_Guard
  imports State_Docs Go_Flow "HOL-Library.Word"
begin

text \<open>
  The single-instance guard (src/internal/instance/instance.go). A starting service announces itself in the state
  store, after it has looked at every other announcement: a live one is watched until it runs out, and the
  service refuses to start when it is renewed meanwhile. Time passes, and other processes act, in \<open>gu_wait\<close>; the
  watch is a loop that may not end, so it is a partial function and that it ends is proved.
\<close>

definition instance_prefix :: string where "instance_prefix = ''instances''"
definition default_instance_ttl :: duration where "default_instance_ttl = 2 * minute"

record inst_record =
  ir_id :: string
  ir_started :: time
  ir_expires :: time

datatype inst_error =
    NoStateStore
  | NoInstanceId string
  | InstancesUnlisted state_error
  | AnotherInstance bool
  | InstanceWaitEnded string
  | InstanceUnwritten state_error

text \<open>\<open>gu_wait d\<close> is the select on \<open>ctx.Done()\<close> and \<open>after(d)\<close>: an error when the context ended first.\<close>

record ('s, 'v) guard =
  gu_docs :: "('s, 'v, inst_record) documents"
  gu_ttl :: duration
  gu_id :: string
  gu_now :: "'s \<Rightarrow> time"
  gu_wait :: "duration \<Rightarrow> 's \<Rightarrow> string option \<times> 's"

definition hex_pair :: "8 word \<Rightarrow> string" where
  "hex_pair b = [''0123456789abcdef'' ! (unat b div 16), ''0123456789abcdef'' ! (unat b mod 16)]"

definition inst_new_id :: "(nat \<Rightarrow> ('r, string, 8 word list) op) \<Rightarrow> ('r, inst_error, string) op" where
  "inst_new_id random = try_op NoInstanceId (random 8) (\<lambda>b. ok_op (concat (map hex_pair b)))"

definition new_guard ::
    "('s, 'v) store option \<Rightarrow> (inst_record \<Rightarrow> 'v option) \<Rightarrow> ('v \<Rightarrow> inst_record option) \<Rightarrow> duration \<Rightarrow> string \<Rightarrow>
     ('s \<Rightarrow> time) \<Rightarrow> (duration \<Rightarrow> 's \<Rightarrow> string option \<times> 's) \<Rightarrow> (nat \<Rightarrow> ('r, string, 8 word list) op) \<Rightarrow>
     ('r, inst_error, ('s, 'v) guard) op" where
  "new_guard store enc dec ttl ident clock wait random =
     (case store of
        None \<Rightarrow> fail_op NoStateStore
      | Some st \<Rightarrow>
          try_op id (if ident = [] then inst_new_id random else ok_op ident) (\<lambda>i.
          ok_op \<lparr>gu_docs = new_documents st instance_prefix enc dec, gu_ttl = (if ttl \<le> 0 then default_instance_ttl else ttl),
            gu_id = i, gu_now = clock, gu_wait = wait\<rparr>))"

definition watch_interval :: "('s, 'v) guard \<Rightarrow> duration" where
  "watch_interval g = gu_ttl g div 12"

text \<open>The watch over one live record.\<close>

partial_function (option) await_expiry ::
    "('s, 'v) guard \<Rightarrow> string \<Rightarrow> inst_record \<Rightarrow> 's \<Rightarrow> ((inst_error + unit) \<times> 's) option" where
  "await_expiry g key seen s =
     (let remaining = time_sub (ir_expires seen) (gu_now g s) in
      if remaining \<le> 0 then Some (Inr (), s)
      else
        (let (ended, s1) = gu_wait g (min (watch_interval g) remaining) s in
         if ended \<noteq> None then Some (Inl (InstanceWaitEnded (the ended)), s1)
         else
           (let (r, s2) = docs_get_key (gu_docs g) key s1 in
            case r of
              Inl e \<Rightarrow> if is_not_found e then Some (Inr (), s2) else Some (Inl (AnotherInstance True), s2)
            | Inr rc \<Rightarrow>
                if ir_expires rc \<noteq> ir_expires seen then Some (Inl (AnotherInstance False), s2)
                else await_expiry g key seen s2)))"

fun check_each :: "('s, 'v) guard \<Rightarrow> string list \<Rightarrow> 's \<Rightarrow> ((inst_error + unit) \<times> 's) option" where
  "check_each g [] s = Some (Inr (), s)"
| "check_each g (k # ks) s =
     (case docs_get_key (gu_docs g) k s of
        (Inl e, s) \<Rightarrow> Some (Inl (AnotherInstance True), s)
      | (Inr rc, s) \<Rightarrow>
          if ir_id rc = gu_id g then check_each g ks s
          else
            (case (if gu_now g s < ir_expires rc then await_expiry g k rc s else Some (Inr (), s)) of
               None \<Rightarrow> None
             | Some (Inl e, s) \<Rightarrow> Some (Inl e, s)
             | Some (Inr _, s) \<Rightarrow> check_each g ks (snd (docs_delete_key (gu_docs g) k s))))"

definition check_alone :: "('s, 'v) guard \<Rightarrow> 's \<Rightarrow> ((inst_error + unit) \<times> 's) option" where
  "check_alone g s =
     (case docs_keys (gu_docs g) [] s of
        (Inl e, s) \<Rightarrow> Some (Inl (InstancesUnlisted e), s)
      | (Inr keys, s) \<Rightarrow> check_each g keys s)"

definition inst_write :: "('s, 'v) guard \<Rightarrow> ('s, inst_error, unit) op" where
  "inst_write g s =
     (let now = gu_now g s in
      try_op InstanceUnwritten
        (docs_replace (gu_docs g) \<lparr>ir_id = gu_id g, ir_started = now, ir_expires = now + gu_ttl g\<rparr> [gu_id g]) ok_op s)"

definition claim :: "('s, 'v) guard \<Rightarrow> 's \<Rightarrow> ((inst_error + unit) \<times> 's) option" where
  "claim g s =
     (case check_alone g s of
        None \<Rightarrow> None
      | Some (Inl e, s) \<Rightarrow> Some (Inl e, s)
      | Some (Inr _, s) \<Rightarrow> Some (inst_write g s))"

text \<open>One turn of the renewal, and standing down; both only log a failure.\<close>

definition inst_renew_interval :: "('s, 'v) guard \<Rightarrow> duration" where
  "inst_renew_interval g = (if gu_ttl g div 3 \<le> 0 then gu_ttl g else gu_ttl g div 3)"

definition inst_renew :: "('s, 'v) guard \<Rightarrow> 's \<Rightarrow> 's" where
  "inst_renew g s = snd (inst_write g (snd (gu_wait g (inst_renew_interval g) s)))"

definition inst_release :: "('s, 'v) guard \<Rightarrow> 's \<Rightarrow> 's" where
  "inst_release g s = snd (docs_delete (gu_docs g) [gu_id g] s)"

text \<open>Reasoning about a watch that has returned: by how it ended.\<close>

lemma time_sub_pos: "time_sub a b \<le> 0 \<longleftrightarrow> a \<le> b"
  by (auto simp: time_sub_def min_int64_def max_int64_def min_def max_def)

lemma await_expiry_induct [consumes 1, case_names expired ended failed renewed again]:
  assumes ret: "await_expiry g key seen s = Some (r, s')"
    and expired: "\<And>s. ir_expires seen \<le> gu_now g s \<Longrightarrow> P s (Inr ()) s"
    and ended: "\<And>s d e s1. gu_wait g d s = (Some e, s1) \<Longrightarrow> P s (Inl (InstanceWaitEnded e)) s1"
    and failed: "\<And>s d s1 e s2. gu_wait g d s = (None, s1) \<Longrightarrow> docs_get_key (gu_docs g) key s1 = (Inl e, s2) \<Longrightarrow>
      P s (if is_not_found e then Inr () else Inl (AnotherInstance True)) s2"
    and renewed: "\<And>s d s1 rc s2. gu_wait g d s = (None, s1) \<Longrightarrow> docs_get_key (gu_docs g) key s1 = (Inr rc, s2) \<Longrightarrow>
      ir_expires rc \<noteq> ir_expires seen \<Longrightarrow> P s (Inl (AnotherInstance False)) s2"
    and again: "\<And>s d s1 rc s2 r s'. gu_wait g d s = (None, s1) \<Longrightarrow> d \<le> ir_expires seen - gu_now g s \<Longrightarrow>
      docs_get_key (gu_docs g) key s1 = (Inr rc, s2) \<Longrightarrow> ir_expires rc = ir_expires seen \<Longrightarrow> P s2 r s' \<Longrightarrow> P s r s'"
  shows "P s r s'"
proof -
  let ?Q = "\<lambda>g' k e s x. g' = g \<longrightarrow> k = key \<longrightarrow> e = seen \<longrightarrow> P s (fst x) (snd x)"
  have "?Q g key seen s (r, s')"
  proof (rule await_expiry.raw_induct [where P = ?Q, OF _ ret])
    fix f g' k e s x
    assume IH: "\<And>g' k e s x. f g' k e s = Some x \<Longrightarrow> ?Q g' k e s x"
      and step: "(let remaining = time_sub (ir_expires e) (gu_now g' s) in
      if remaining \<le> 0 then Some (Inr (), s)
      else
        (let (ended, s1) = gu_wait g' (min (watch_interval g') remaining) s in
         if ended \<noteq> None then Some (Inl (InstanceWaitEnded (the ended)), s1)
         else
           (let (r, s2) = docs_get_key (gu_docs g') k s1 in
            case r of
              Inl e \<Rightarrow> if is_not_found e then Some (Inr (), s2) else Some (Inl (AnotherInstance True), s2)
            | Inr rc \<Rightarrow>
                if ir_expires rc \<noteq> ir_expires e then Some (Inl (AnotherInstance False), s2)
                else f g' k e s2))) = Some x"
    show "?Q g' k e s x"
    proof (intro impI)
      assume eq: "g' = g" "k = key" "e = seen"
      let ?d = "min (watch_interval g) (time_sub (ir_expires seen) (gu_now g s))"
      obtain w s1 where w: "gu_wait g ?d s = (w, s1)" by fastforce
      obtain q s2 where d: "docs_get_key (gu_docs g) key s1 = (q, s2)" by fastforce
      show "P s (fst x) (snd x)"
      proof (cases "ir_expires seen \<le> gu_now g s")
        case True
        then show ?thesis using step expired by (auto simp: eq Let_def time_sub_pos)
      next
        case False
        show ?thesis
        proof (cases w)
          case (Some y)
          then show ?thesis using step False w ended [of ?d s y s1] by (auto simp: eq Let_def time_sub_pos)
        next
          case None
          have le: "?d \<le> ir_expires seen - gu_now g s"
            using False by (auto simp: time_sub_def min_int64_def max_int64_def min_def max_def)
          show ?thesis
          proof (cases q)
            case (Inl y)
            then show ?thesis
              using step False w d None failed [of ?d s s1 y s2] by (auto simp: eq Let_def time_sub_pos split: if_splits)
          next
            case (Inr rc)
            then show ?thesis
              using step False w d None renewed [of ?d s s1 rc s2] again [OF _ le, of s1 rc s2] IH [of g key seen s2 x]
              by (auto simp: eq Let_def time_sub_pos split: if_splits)
          qed
        qed
      qed
    qed
  qed
  then show ?thesis by simp
qed

subsection \<open>A claim returns\<close>

text \<open>What is relied on of the clock: it never goes back, and a wait that is not broken off lasts as long as asked.\<close>

locale guarded = collection st view "gu_docs g"
  for st :: "('s, 'v) store" and view :: "'s \<Rightarrow> string \<rightharpoonup> 'v" and g :: "('s, 'v) guard" +
  assumes clock_wait: "gu_wait g d s = (None, s') \<Longrightarrow> gu_now g s + d \<le> gu_now g s'"
    and clock_get: "docs_get_key (gu_docs g) k s = (r, s') \<Longrightarrow> gu_now g s \<le> gu_now g s'"
begin

lemma await_expiry_returns:
  assumes "12 \<le> gu_ttl g"
  shows "\<exists>r s'. await_expiry g key seen s = Some (r, s')"
proof (induction "nat (ir_expires seen - gu_now g s)" arbitrary: s rule: less_induct)
  case less
  let ?rem = "time_sub (ir_expires seen) (gu_now g s)"
  show ?case
  proof (cases "?rem \<le> 0")
    case True
    then show ?thesis by (subst await_expiry.simps) (simp add: Let_def)
  next
    case False
    obtain ended s1 where w: "gu_wait g (min (watch_interval g) ?rem) s = (ended, s1)" by fastforce
    obtain r s2 where d: "docs_get_key (gu_docs g) key s1 = (r, s2)" by fastforce
    have "\<exists>r s'. await_expiry g key seen s2 = Some (r, s')" if "ended = None"
    proof (rule less)
      have "1 \<le> min (watch_interval g) ?rem" using assms False by (simp add: watch_interval_def)
      moreover have "gu_now g s + min (watch_interval g) ?rem \<le> gu_now g s2"
        using clock_wait [OF w [unfolded that]] clock_get [OF d] by simp
      moreover have "0 < ir_expires seen - gu_now g s"
        using False by (auto simp: time_sub_def min_int64_def max_int64_def min_def max_def split: if_splits)
      ultimately have "gu_now g s < gu_now g s2" "gu_now g s < ir_expires seen" by linarith+
      then show "nat (ir_expires seen - gu_now g s2) < nat (ir_expires seen - gu_now g s)" by simp
    qed
    then show ?thesis
      using False w d by (subst await_expiry.simps) (auto simp: Let_def split: sum.splits)
  qed
qed

lemma check_each_returns:
  assumes "12 \<le> gu_ttl g"
  shows "\<exists>r s'. check_each g ks s = Some (r, s')"
proof (induction ks arbitrary: s)
  case (Cons k ks)
  obtain q s1 where d: "docs_get_key (gu_docs g) k s = (q, s1)" by fastforce
  show ?case
  proof (cases q)
    case (Inl e)
    then show ?thesis using d by simp
  next
    case (Inr rc)
    obtain r s2 where "(if gu_now g s1 < ir_expires rc then await_expiry g k rc s1 else Some (Inr (), s1)) = Some (r, s2)"
      using await_expiry_returns [OF assms, of k rc s1] by (cases "gu_now g s1 < ir_expires rc") auto
    then show ?thesis using d Inr Cons.IH by (cases r) auto
  qed
qed simp

lemma claim_returns: "12 \<le> gu_ttl g \<Longrightarrow> \<exists>r s'. claim g s = Some (r, s')"
proof -
  assume ttl: "12 \<le> gu_ttl g"
  obtain q s1 where "docs_keys (gu_docs g) [] s = (q, s1)" by fastforce
  then obtain r s' where "check_alone g s = Some (r, s')"
    using check_each_returns [OF ttl, of "projr q" s1] by (cases q) (auto simp: check_alone_def)
  then show ?thesis by (cases r) (simp_all add: claim_def prod_eq_iff)
qed

end

subsection \<open>A running instance is noticed\<close>

text \<open>
  \<open>held\<close>: the record at \<open>ko\<close> is another instance's and live, and neither the passing of time nor what this
  instance does to other records changes that, because the other instance renews it.
\<close>

locale watched_instance = guarded st view g
  for st :: "('s, 'v) store" and view :: "'s \<Rightarrow> string \<rightharpoonup> 'v" and g :: "('s, 'v) guard" +
  fixes held :: "'s \<Rightarrow> bool" and ko :: string
  assumes held_live: "held s \<Longrightarrow>
      \<exists>rc. doc_at (gu_docs g) (view s) ko = Some rc \<and> ir_id rc \<noteq> gu_id g \<and> gu_now g s < ir_expires rc"
    and held_wait: "held s \<Longrightarrow> gu_wait g d s = (None, s') \<Longrightarrow> held s'"
    and held_get: "held s \<Longrightarrow> docs_get_key (gu_docs g) k s = (r, s') \<Longrightarrow> held s'"
    and held_keys: "held s \<Longrightarrow> docs_keys (gu_docs g) [] s = (q, s') \<Longrightarrow> held s'"
    and held_delete: "held s \<Longrightarrow> k \<noteq> ko \<Longrightarrow> docs_delete_key (gu_docs g) k s = (u, s') \<Longrightarrow> held s'"
begin

lemma await_expiry_keeps: "await_expiry g k seen s = Some (r, s') \<Longrightarrow> held s \<Longrightarrow> r = Inr () \<Longrightarrow> held s'"
proof (induction rule: await_expiry_induct)
  case (failed s d s1 e s2)
  then show ?case by (blast intro: held_wait held_get)
next
  case (again s d s1 rc s2 r s')
  then show ?case by (blast intro: held_wait held_get)
qed auto

lemma held_there: "held s \<Longrightarrow> view s ko \<noteq> None"
  using held_live [of s] by (cases "view s ko") (auto simp: doc_at_def)

lemma await_expiry_refuses:
  "await_expiry g ko seen s = Some (r, s') \<Longrightarrow> held s \<Longrightarrow>
    map_option ir_expires (doc_at (gu_docs g) (view s) ko) = Some (ir_expires seen) \<Longrightarrow> \<exists>e. r = Inl e"
proof (induction rule: await_expiry_induct)
  case (expired s)
  then show ?case using held_live [of s] by auto
next
  case (failed s d s1 e s2)
  then have "\<not> is_not_found e" using held_there held_wait docs_get_key_missing by blast
  then show ?case by simp
next
  case (again s d s1 rc s2 r s')
  have "held s2" by (rule held_get [OF held_wait [OF again.prems(1) again.hyps(1)] again.hyps(3)])
  moreover have "doc_at (gu_docs g) (view s2) ko = Some rc"
    using docs_get_key_ok again.hyps(3) docs_get_key_view [OF again.hyps(3)] by simp
  ultimately show ?case using again.IH again.hyps(4) by simp
qed auto

lemma check_each_refuses:
  assumes "check_each g ks s = Some (r, s')" "ko \<in> set ks" "held s"
  shows "\<exists>e. r = Inl e"
  using assms
proof (induction ks arbitrary: s)
  case (Cons k ks)
  obtain q s1 where d: "docs_get_key (gu_docs g) k s = (q, s1)" by fastforce
  have h1: "held s1" by (rule held_get [OF Cons.prems(3) d])
  show ?case
  proof (cases q)
    case (Inl e)
    then show ?thesis using Cons.prems(1) d by auto
  next
    case (Inr rc)
    have at: "doc_at (gu_docs g) (view s1) k = Some rc" using docs_get_key_ok d Inr docs_get_key_view [OF d] by simp
    show ?thesis
    proof (cases "k = ko")
      case True
      then have other: "ir_id rc \<noteq> gu_id g" "gu_now g s1 < ir_expires rc" using held_live [OF h1] at by auto
      show ?thesis
      proof (cases "await_expiry g k rc s1")
        case None
        then show ?thesis using Cons.prems(1) d Inr other by simp
      next
        case (Some a)
        obtain v s2 where a: "a = (v, s2)" by fastforce
        have "\<exists>e. v = Inl e" by (rule await_expiry_refuses [OF _ h1]) (use Some a True at other in auto)
        then show ?thesis using Cons.prems(1) d Inr other Some a by auto
      qed
    next
      case False
      then have ko: "ko \<in> set ks" using Cons.prems(2) by simp
      show ?thesis
      proof (cases "ir_id rc = gu_id g")
        case True
        then show ?thesis using Cons.prems(1) d Inr Cons.IH [OF _ ko h1] by simp
      next
        case other: False
        let ?a = "if gu_now g s1 < ir_expires rc then await_expiry g k rc s1 else Some (Inr (), s1)"
        show ?thesis
        proof (cases ?a)
          case None
          then show ?thesis using Cons.prems(1) d Inr other by simp
        next
          case (Some a)
          obtain v s2 where a: "a = (v, s2)" by fastforce
          show ?thesis
          proof (cases v)
            case (Inl e)
            then show ?thesis using Cons.prems(1) d Inr other Some a by auto
          next
            case v: (Inr u)
            then have h2: "held s2"
              using await_expiry_keeps [of k rc s1 v s2] h1 Some a by (auto split: if_splits)
            obtain z s3 where del: "docs_delete_key (gu_docs g) k s2 = (z, s3)" by fastforce
            have "held s3" by (rule held_delete [OF h2 False del])
            then show ?thesis using Cons.prems(1) d Inr other Some a v del Cons.IH [OF _ ko, of s3] by simp
          qed
        qed
      qed
    qed
  qed
qed simp

lemma claim_refuses:
  assumes "12 \<le> gu_ttl g" "held s" "has_segment_prefix ko (d_prefix (gu_docs g))"
  shows "\<exists>e s'. claim g s = Some (Inl e, s')"
proof -
  obtain q s1 where l: "docs_keys (gu_docs g) [] s = (q, s1)" by fastforce
  have h1: "held s1" by (rule held_keys [OF assms(2) l])
  show ?thesis
  proof (cases q)
    case (Inl e)
    then show ?thesis using l by (simp add: claim_def check_alone_def)
  next
    case (Inr ks)
    have "view s ko \<noteq> None" by (rule held_there [OF assms(2)])
    then have "ko \<in> set ks" using list_set [of "d_prefix (gu_docs g)" s ks s1] l Inr assms(3) by (auto simp: docs_keys_def store_of)
    moreover obtain r s' where c: "check_each g ks s1 = Some (r, s')" using check_each_returns [OF assms(1)] by blast
    ultimately obtain e where "r = Inl e" using check_each_refuses h1 by blast
    then show ?thesis using l Inr c by (simp add: claim_def check_alone_def)
  qed
qed

end

subsection \<open>A dead instance is waited out\<close>

text \<open>Nobody else is running and the store answers: a wait only moves the clock, and by what was asked.\<close>

locale lone_instance = guarded st view g + reliable_collection st view reliable "gu_docs g"
  for st :: "('s, 'v) store" and view :: "'s \<Rightarrow> string \<rightharpoonup> 'v" and reliable :: "'s \<Rightarrow> bool" and g :: "('s, 'v) guard" +
  assumes wait_lone: "reliable s \<Longrightarrow>
      \<exists>s'. gu_wait g d s = (None, s') \<and> reliable s' \<and> view s' = view s \<and> gu_now g s' = gu_now g s + max 0 d"
    and get_clock: "docs_get_key (gu_docs g) k s = (r, s') \<Longrightarrow> gu_now g s' = gu_now g s"
    and keys_clock: "docs_keys (gu_docs g) ids s = (q, s') \<Longrightarrow> gu_now g s' = gu_now g s"
    and delete_clock: "docs_delete_key (gu_docs g) k s = (u, s') \<Longrightarrow> gu_now g s' = gu_now g s"
    and replace_clock: "docs_replace_key (gu_docs g) k x s = (u, s') \<Longrightarrow> gu_now g s' = gu_now g s"
begin

lemma get_lone:
  assumes "reliable s" "doc_at (gu_docs g) (view s) k = Some x" "docs_get_key (gu_docs g) k s = (r, s')"
  shows "r = Inr x \<and> reliable s' \<and> view s' = view s \<and> gu_now g s' = gu_now g s"
proof -
  obtain raw where "view s k = Some raw" "d_decode (gu_docs g) raw = Some x"
    using assms(2) by (cases "view s k") (auto simp: doc_at_def)
  then show ?thesis
    using docs_get_key_reliable [OF assms(1), of k] assms(3) docs_get_key_view [OF assms(3)] get_clock [OF assms(3)] by auto
qed

lemma await_expiry_lone:
  "await_expiry g k seen s = Some (r, s') \<Longrightarrow> reliable s \<Longrightarrow> doc_at (gu_docs g) (view s) k = Some rc \<Longrightarrow>
    ir_expires rc = ir_expires seen \<Longrightarrow> gu_now g s \<le> T \<Longrightarrow> ir_expires seen \<le> T \<Longrightarrow>
    r = Inr () \<and> reliable s' \<and> view s' = view s \<and> gu_now g s' \<le> T"
proof (induction rule: await_expiry_induct)
  case (ended s d e s1)
  then show ?case using wait_lone [of s d] by auto
next
  case (failed s d s1 e s2)
  then show ?case using wait_lone [of s d] get_lone [of s1 k rc "Inl e" s2] by auto
next
  case (renewed s d s1 x s2)
  then show ?case using wait_lone [of s d] get_lone [of s1 k rc "Inr x" s2] by auto
next
  case (again s d s1 x s2 r s')
  have "reliable s1 \<and> view s1 = view s \<and> gu_now g s1 = gu_now g s + max 0 d"
    using wait_lone [OF again.prems(1), of d] again.hyps(1) by auto
  moreover from this have "reliable s2 \<and> view s2 = view s1 \<and> gu_now g s2 = gu_now g s1"
    using get_lone [of s1 k rc "Inr x" s2] again.prems(2) again.hyps(3) by auto
  ultimately show ?case using again.IH again.prems again.hyps(2) by (auto simp: max_def)
qed auto

lemma check_each_lone:
  assumes "12 \<le> gu_ttl g"
  shows "reliable s \<Longrightarrow> distinct ks \<Longrightarrow>
    \<forall>k\<in>set ks. \<exists>x. doc_at (gu_docs g) (view s) k = Some x \<and> ir_expires x \<le> T \<Longrightarrow> gu_now g s \<le> T \<Longrightarrow>
    \<exists>s'. check_each g ks s = Some (Inr (), s') \<and> reliable s' \<and> gu_now g s' \<le> T \<and>
      (\<forall>k. view s' k = (if k \<in> set ks \<and> map_option ir_id (doc_at (gu_docs g) (view s) k) \<noteq> Some (gu_id g) then None else view s k))"
proof (induction ks arbitrary: s)
  case (Cons k ks)
  obtain q s1 where d: "docs_get_key (gu_docs g) k s = (q, s1)" by fastforce
  obtain x where x: "doc_at (gu_docs g) (view s) k = Some x" "ir_expires x \<le> T" using Cons.prems(3) by auto
  have one: "q = Inr x" "reliable s1" "view s1 = view s" "gu_now g s1 = gu_now g s"
    using get_lone [OF Cons.prems(1) x(1) d] by auto
  show ?case
  proof (cases "ir_id x = gu_id g")
    case True
    obtain s' where "check_each g ks s1 = Some (Inr (), s') \<and> reliable s' \<and> gu_now g s' \<le> T \<and>
      (\<forall>j. view s' j = (if j \<in> set ks \<and> map_option ir_id (doc_at (gu_docs g) (view s1) j) \<noteq> Some (gu_id g) then None else view s1 j))"
      using Cons.IH [of s1] Cons.prems one by auto
    then show ?thesis using d one x True by auto
  next
    case False
    obtain s2 where a: "(if gu_now g s1 < ir_expires x then await_expiry g k x s1 else Some (Inr (), s1)) = Some (Inr (), s2)"
      "reliable s2" "view s2 = view s" "gu_now g s2 \<le> T"
    proof (cases "gu_now g s1 < ir_expires x")
      case True
      obtain r s2 where "await_expiry g k x s1 = Some (r, s2)" using await_expiry_returns [OF assms] by blast
      then show thesis using that True await_expiry_lone [of k x s1 r s2 x T] one x Cons.prems(4) by auto
    next
      case False
      then show thesis using that one Cons.prems(4) by auto
    qed
    have "view s2 k \<noteq> None" using x a(3) by (cases "view s k") (auto simp: doc_at_def)
    then obtain s3 where del: "docs_delete_key (gu_docs g) k s2 = (Inr (), s3)" "reliable s3"
      using delete_reliable [OF a(2), of k] by (auto simp: docs_delete_key_def store_of)
    then have v3: "view s3 = (view s)(k := None)" "gu_now g s3 \<le> T"
      using delete_ok [of k s2] a(3,4) delete_clock [OF del(1)] by (auto simp: docs_delete_key_def store_of)
    have same: "doc_at (gu_docs g) (view s3) j = doc_at (gu_docs g) (view s) j" if "j \<noteq> k" for j
      using that v3(1) by (simp add: doc_at_def)
    have k: "k \<notin> set ks" using Cons.prems(2) by simp
    have "\<forall>j\<in>set ks. \<exists>y. doc_at (gu_docs g) (view s3) j = Some y \<and> ir_expires y \<le> T"
      using Cons.prems(3) same k by (metis list.set_intros(2))
    then obtain s' where s': "check_each g ks s3 = Some (Inr (), s')" "reliable s'" "gu_now g s' \<le> T"
      "\<forall>j. view s' j = (if j \<in> set ks \<and> map_option ir_id (doc_at (gu_docs g) (view s3) j) \<noteq> Some (gu_id g) then None else view s3 j)"
      using Cons.IH [OF del(2)] Cons.prems(2) v3(2) by auto
    have "view s' j = (if j \<in> set (k # ks) \<and> map_option ir_id (doc_at (gu_docs g) (view s) j) \<noteq> Some (gu_id g) then None else view s j)" for j
      using s'(4) same [of j] v3(1) k x(1) False by (cases "j = k") auto
    then show ?thesis using s'(1-3) d one a(1) del(1) False by simp
  qed
qed simp

lemma claim_lone:
  assumes ttl: "12 \<le> gu_ttl g" and r: "reliable s"
    and recs: "\<And>k. view s k \<noteq> None \<Longrightarrow> has_segment_prefix k (d_prefix (gu_docs g)) \<Longrightarrow>
      \<exists>x. doc_at (gu_docs g) (view s) k = Some x \<and> ir_expires x \<le> T \<and> k = docs_key (gu_docs g) [ir_id x]"
    and T: "gu_now g s \<le> T"
    and enc: "\<And>x. d_encode (gu_docs g) x \<noteq> None"
  shows "\<exists>s' x. claim g s = Some (Inr (), s') \<and> gu_now g s' \<le> T \<and>
    doc_at (gu_docs g) (view s') (docs_key (gu_docs g) [gu_id g]) = Some x \<and> ir_id x = gu_id g \<and>
    ir_expires x = gu_now g s' + gu_ttl g \<and>
    (\<forall>k. has_segment_prefix k (d_prefix (gu_docs g)) \<longrightarrow> view s' k \<noteq> None \<longrightarrow> k = docs_key (gu_docs g) [gu_id g])"
proof -
  obtain ks s1 where l: "docs_keys (gu_docs g) [] s = (Inr ks, s1)" "reliable s1" using docs_keys_reliable [OF r] by blast
  have one: "view s1 = view s" "gu_now g s1 = gu_now g s" using docs_keys_view [OF l(1)] keys_clock [OF l(1)] by auto
  have ks: "distinct ks" "set ks = {k \<in> dom (view s). has_segment_prefix k (d_prefix (gu_docs g))}"
    using list_ok [of "d_prefix (gu_docs g)" s ks s1] l(1) by (auto simp: docs_keys_def store_of)
  have each: "\<forall>k\<in>set ks. \<exists>x. doc_at (gu_docs g) (view s1) k = Some x \<and> ir_expires x \<le> T"
    using recs ks(2) one(1) by (metis (mono_tags, lifting) domIff mem_Collect_eq)
  obtain s2 where c: "check_each g ks s1 = Some (Inr (), s2)" "reliable s2" "gu_now g s2 \<le> T"
    "\<forall>k. view s2 k = (if k \<in> set ks \<and> map_option ir_id (doc_at (gu_docs g) (view s1) k) \<noteq> Some (gu_id g) then None else view s1 k)"
    using check_each_lone [OF ttl l(2) ks(1) each] T one(2) by auto
  let ?own = "docs_key (gu_docs g) [gu_id g]"
  let ?x = "\<lparr>ir_id = gu_id g, ir_started = gu_now g s2, ir_expires = gu_now g s2 + gu_ttl g\<rparr>"
  obtain raw where raw: "d_encode (gu_docs g) ?x = Some raw" using enc by blast
  obtain s3 where w: "docs_replace_key (gu_docs g) ?own ?x s2 = (Inr (), s3)"
    using docs_replace_key_reliable [OF c(2) raw] by blast
  have v3: "view s3 = (view s2)(?own \<mapsto> raw)" using docs_replace_key_ok [OF w] raw by auto
  have cl: "claim g s = Some (Inr (), s3)"
    using l(1) c(1) w by (simp add: claim_def check_alone_def inst_write_def docs_replace_def try_op_def ok_op_def)
  have "k = ?own" if pre: "has_segment_prefix k (d_prefix (gu_docs g))" and v: "view s3 k \<noteq> None" for k
  proof (rule ccontr)
    assume no: "k \<noteq> ?own"
    then have v2: "view s2 k \<noteq> None" using v v3 by simp
    then have there: "view s k \<noteq> None" using c(4) one(1) by (metis (no_types))
    obtain x where x: "doc_at (gu_docs g) (view s) k = Some x" "k = docs_key (gu_docs g) [ir_id x]"
      using recs [OF there pre] by blast
    then have "ir_id x \<noteq> gu_id g" using no by auto
    moreover have "k \<in> set ks" using ks(2) pre there by auto
    ultimately show False using v2 c(4) x(1) one(1) by auto
  qed
  moreover have "doc_at (gu_docs g) (view s3) ?own = Some ?x" using v3 raw codec by (simp add: doc_at_def)
  moreover have "gu_now g s3 = gu_now g s2" by (rule replace_clock [OF w])
  ultimately show ?thesis using cl c(3) by auto
qed

end

subsection \<open>Properties\<close>

text \<open>C25: starting never hangs on another instance's record. With a clock that moves on while the guard waits,
  and a lifetime of at least 12 ns, a claim returns, whatever is in the store, whatever the other processes write
  while it watches and whichever calls fail.\<close>

theorem claim_always_returns:
  assumes "guarded st view g" "12 \<le> gu_ttl g"
  shows "\<exists>r s'. claim g s = Some (r, s')"
  by (rule guarded.claim_returns [OF assms])

text \<open>C19: a second instance does not start beside a running one. While another instance keeps its record live,
  a claim is refused, whatever else lies in the store and whichever calls fail.\<close>

theorem running_instance_refuses:
  assumes "watched_instance st view g held ko" "12 \<le> gu_ttl g" "held s" "has_segment_prefix ko (d_prefix (gu_docs g))"
  shows "\<exists>e s'. claim g s = Some (Inl e, s')"
  by (rule watched_instance.claim_refuses [OF assms])

text \<open>C24: a crashed instance delays the next one by no more than its record's lifetime. When nobody else is running
  and the store answers, a claim succeeds as soon as the last record has run out, and leaves this instance's
  record, valid for its lifetime, as the only one.\<close>

theorem dead_instances_waited_out:
  assumes "lone_instance st view reliable g" "12 \<le> gu_ttl g" "reliable s" "gu_now g s \<le> T"
    and "\<And>k. view s k \<noteq> None \<Longrightarrow> has_segment_prefix k (d_prefix (gu_docs g)) \<Longrightarrow>
      \<exists>x. doc_at (gu_docs g) (view s) k = Some x \<and> ir_expires x \<le> T \<and> k = docs_key (gu_docs g) [ir_id x]"
    and "\<And>x. d_encode (gu_docs g) x \<noteq> None"
  shows "\<exists>s' x. claim g s = Some (Inr (), s') \<and> gu_now g s' \<le> T \<and>
    doc_at (gu_docs g) (view s') (docs_key (gu_docs g) [gu_id g]) = Some x \<and> ir_id x = gu_id g \<and>
    ir_expires x = gu_now g s' + gu_ttl g \<and>
    (\<forall>k. has_segment_prefix k (d_prefix (gu_docs g)) \<longrightarrow> view s' k \<noteq> None \<longrightarrow> k = docs_key (gu_docs g) [gu_id g])"
  by (rule lone_instance.claim_lone [OF assms(1,2,3,5,4,6)])

subsection \<open>A world to run in\<close>

text \<open>A store, a clock, and what another instance does: renew its record for another \<open>iw_life\<close> at each wait, or nothing.\<close>

record inst_world =
  iw_store :: "inst_record backend"
  iw_clock :: time
  iw_other :: "(string \<times> duration) option"

definition in_world :: "(inst_record backend, 'e, 'a) op \<Rightarrow> (inst_world, 'e, 'a) op" where
  "in_world f s = (case f (iw_store s) of (r, b) \<Rightarrow> (r, s\<lparr>iw_store := b\<rparr>))"

definition inst_store :: "(inst_world, inst_record) store" where
  "inst_store = \<lparr>store_get = (\<lambda>k. in_world (store_get backend_store k)),
     store_create = (\<lambda>k v. in_world (store_create backend_store k v)),
     store_replace = (\<lambda>k v. in_world (store_replace backend_store k v)),
     store_delete = (\<lambda>k. in_world (store_delete backend_store k)),
     store_list = (\<lambda>p. in_world (store_list backend_store p))\<rparr>"

definition inst_view :: "inst_world \<Rightarrow> string \<rightharpoonup> inst_record" where
  "inst_view s = backend_view (iw_store s)"

definition inst_wait :: "duration \<Rightarrow> inst_world \<Rightarrow> string option \<times> inst_world" where
  "inst_wait d s =
     (let now = iw_clock s + max 0 d; b = iw_store s in
      (None, s\<lparr>iw_clock := now,
         iw_store := (case iw_other s of
            None \<Rightarrow> b
          | Some (i, life) \<Rightarrow> b\<lparr>contents := AList.update (''instances/'' @ i) \<lparr>ir_id = i, ir_started = now, ir_expires = now + life\<rparr> (contents b)\<rparr>)\<rparr>))"

definition sample_guard :: "(inst_world, inst_record) guard" where
  "sample_guard = \<lparr>gu_docs = new_documents inst_store instance_prefix Some Some, gu_ttl = 24, gu_id = ''me'',
     gu_now = iw_clock, gu_wait = inst_wait\<rparr>"

lemma in_world_cases: "in_world f s = (r, s') \<Longrightarrow> \<exists>b. f (iw_store s) = (r, b) \<and> s' = s\<lparr>iw_store := b\<rparr>"
  by (auto simp: in_world_def split: prod.splits)

lemmas backend_laws = backend.get_view backend.get_ok backend.get_missing backend.get_not_malformed backend.create_ok
  backend.create_exists backend.create_fails backend.replace_ok backend.replace_fails backend.delete_ok
  backend.delete_missing backend.delete_fails backend.list_view backend.list_ok backend.list_fails

definition inst_quiet :: "inst_world \<Rightarrow> bool" where
  "inst_quiet s \<longleftrightarrow> backend_reliable (iw_store s) \<and> iw_other s = None"

interpretation inst: reliable_store inst_store inst_view inst_quiet
proof (unfold_locales, goal_cases)
  case (16 s k)
  then show ?case using backend.get_reliable [of "iw_store s" k] by (auto simp: inst_store_def inst_view_def inst_quiet_def in_world_def)
next
  case (17 s k v)
  then show ?case using backend.create_reliable [of "iw_store s" k v] by (auto simp: inst_store_def inst_view_def inst_quiet_def in_world_def)
next
  case (18 s k v)
  then show ?case using backend.replace_reliable [of "iw_store s" k v] by (auto simp: inst_store_def inst_view_def inst_quiet_def in_world_def)
next
  case (19 s k)
  then show ?case using backend.delete_reliable [of "iw_store s" k] by (auto simp: inst_store_def inst_view_def inst_quiet_def in_world_def)
next
  case (20 s p)
  then show ?case using backend.list_reliable [of "iw_store s" p] by (auto simp: inst_store_def inst_view_def inst_quiet_def in_world_def)
qed (simp_all add: inst_store_def inst_view_def, (force dest: in_world_cases backend_laws)+)

lemma inst_collection: "collection inst_store inst_view (gu_docs sample_guard)"
  using collection_new [OF inst.kv_store_axioms, of Some Some instance_prefix] by (simp add: sample_guard_def reversible_def)

lemma in_world_clock: "in_world f s = (r, s') \<Longrightarrow> iw_clock s' = iw_clock s \<and> iw_other s' = iw_other s"
  by (auto dest: in_world_cases)

lemma sample_get: "docs_get_key (gu_docs sample_guard) k s = (r, s') \<Longrightarrow> iw_clock s' = iw_clock s \<and> iw_other s' = iw_other s"
  by (auto simp: docs_get_key_def sample_guard_def new_documents_def inst_store_def dest: in_world_clock split: prod.splits sum.splits option.splits)

lemma sample_keys: "docs_keys (gu_docs sample_guard) ids s = (r, s') \<Longrightarrow> iw_clock s' = iw_clock s \<and> iw_other s' = iw_other s"
  by (auto simp: docs_keys_def sample_guard_def new_documents_def inst_store_def dest: in_world_clock)

lemma sample_delete: "docs_delete_key (gu_docs sample_guard) k s = (r, s') \<Longrightarrow> iw_clock s' = iw_clock s \<and> iw_other s' = iw_other s"
  by (auto simp: docs_delete_key_def sample_guard_def new_documents_def inst_store_def dest: in_world_clock)

lemma sample_replace: "docs_replace_key (gu_docs sample_guard) k x s = (r, s') \<Longrightarrow> iw_clock s' = iw_clock s \<and> iw_other s' = iw_other s"
  by (auto simp: docs_replace_key_def docs_encode_def sample_guard_def new_documents_def inst_store_def dest: in_world_clock)

lemma sample_parts: "gu_now sample_guard = iw_clock" "gu_wait sample_guard = inst_wait" "gu_id sample_guard = ''me''"
  "gu_ttl sample_guard = 24" "d_prefix (gu_docs sample_guard) = instance_prefix"
  by (simp_all add: sample_guard_def new_documents_def)

lemma sample_guarded: "guarded inst_store inst_view sample_guard"
  using inst_collection unfolding guarded_def guarded_axioms_def
  by (auto simp: sample_parts inst_wait_def Let_def dest: sample_get)

interpretation sample_lone: lone_instance inst_store inst_view inst_quiet sample_guard
proof -
  have "inst_quiet s \<Longrightarrow> \<exists>s'. inst_wait d s = (None, s') \<and> inst_quiet s' \<and> inst_view s' = inst_view s \<and> iw_clock s' = iw_clock s + max 0 d"
    for s d by (auto simp: inst_wait_def inst_quiet_def inst_view_def Let_def)
  then have "lone_instance_axioms inst_view inst_quiet sample_guard"
    unfolding lone_instance_axioms_def by (auto simp: sample_parts dest: sample_get sample_keys sample_delete sample_replace)
  then show "lone_instance inst_store inst_view inst_quiet sample_guard"
    using sample_guarded inst_collection inst.reliable_store_axioms by (simp add: lone_instance_def reliable_collection_def)
qed

definition other_runs :: "inst_world \<Rightarrow> bool" where
  "other_runs s \<longleftrightarrow> iw_other s = Some (''o'', 6) \<and>
     (\<exists>t. inst_view s ''instances/o'' = Some \<lparr>ir_id = ''o'', ir_started = t, ir_expires = t + 6\<rparr> \<and> iw_clock s < t + 6)"

lemma sample_doc: "doc_at (gu_docs sample_guard) m k = m k"
  by (cases "m k") (simp_all add: doc_at_def sample_guard_def new_documents_def)

interpretation sample_watched: watched_instance inst_store inst_view sample_guard other_runs "''instances/o''"
proof -
  have live: "\<exists>rc. doc_at (gu_docs sample_guard) (inst_view s) ''instances/o'' = Some rc \<and> ir_id rc \<noteq> ''me'' \<and> iw_clock s < ir_expires rc"
    if "other_runs s" for s
    using that by (auto simp: other_runs_def sample_doc)
  have wait: "other_runs s'" if "other_runs s" "inst_wait d s = (None, s')" for s d s'
    using that by (auto simp: other_runs_def inst_wait_def inst_view_def backend_view_def Let_def map_of_alist_update)
  have get: "other_runs s'" if "other_runs s" "docs_get_key (gu_docs sample_guard) k s = (r, s')" for k r s s'
    using that(1) sample_get [OF that(2)] sample_lone.docs_get_key_view [OF that(2)] by (simp add: other_runs_def)
  have keys: "other_runs s'" if "other_runs s" "docs_keys (gu_docs sample_guard) [] s = (q, s')" for q s s'
    using that(1) sample_keys [OF that(2)] sample_lone.docs_keys_view [OF that(2)] by (simp add: other_runs_def)
  have del: "other_runs s'" if "other_runs s" "k \<noteq> ''instances/o''" "docs_delete_key (gu_docs sample_guard) k s = (u, s')" for k u s s'
    using that(1) sample_delete [OF that(3)] sample_lone.docs_delete_key_others [OF that(3) that(2) [symmetric]]
    by (simp add: other_runs_def)
  have "watched_instance_axioms inst_view sample_guard other_runs ''instances/o''"
    unfolding watched_instance_axioms_def sample_parts using live wait get keys del by blast
  then show "watched_instance inst_store inst_view sample_guard other_runs ''instances/o''"
    using sample_guarded by (simp add: watched_instance_def)
qed

text \<open>A record left by a crash, with 10 ns to run, and a store that fails the first listing.\<close>

definition crashed_world :: inst_world where
  "crashed_world = \<lparr>iw_store = \<lparr>contents = [(''instances/o'', \<lparr>ir_id = ''o'', ir_started = 0, ir_expires = 10\<rparr>)], faults = []\<rparr>,
     iw_clock = 0, iw_other = None\<rparr>"

definition running_world :: inst_world where
  "running_world = \<lparr>iw_store = \<lparr>contents = [(''instances/o'', \<lparr>ir_id = ''o'', ir_started = 0, ir_expires = 6\<rparr>)], faults = [Works, Works, FailsAfter]\<rparr>,
     iw_clock = 3, iw_other = Some (''o'', 6)\<rparr>"

theorem claim_always_returns_witness: "\<exists>r s'. claim sample_guard running_world = Some (r, s')"
  by (rule claim_always_returns [OF sample_guarded]) (simp add: sample_guard_def)

theorem running_instance_refuses_witness: "\<exists>e s'. claim sample_guard running_world = Some (Inl e, s')"
proof -
  have "other_runs running_world" by (simp add: other_runs_def running_world_def inst_view_def backend_view_def)
  moreover have "has_segment_prefix ''instances/o'' instance_prefix" by code_simp
  ultimately show ?thesis
    using running_instance_refuses [OF sample_watched.watched_instance_axioms] by (simp add: sample_parts)
qed

theorem dead_instances_waited_out_witness:
  "\<exists>s' x. claim sample_guard crashed_world = Some (Inr (), s') \<and> iw_clock s' \<le> 10 \<and>
    inst_view s' ''instances/me'' = Some x \<and> ir_expires x = iw_clock s' + 24"
proof -
  have key: "docs_key (gu_docs sample_guard) [''me''] = ''instances/me''" "docs_key (gu_docs sample_guard) [''o''] = ''instances/o''"
    by code_simp+
  have "\<exists>x. doc_at (gu_docs sample_guard) (inst_view crashed_world) k = Some x \<and> ir_expires x \<le> 10 \<and> k = docs_key (gu_docs sample_guard) [ir_id x]"
    if "inst_view crashed_world k \<noteq> None" for k
    using that key by (auto simp: sample_doc crashed_world_def inst_view_def backend_view_def split: if_splits)
  note recs = this
  have quiet: "inst_quiet crashed_world" by (simp add: inst_quiet_def crashed_world_def backend_reliable_def)
  have ttl: "12 \<le> gu_ttl sample_guard" and now: "gu_now sample_guard crashed_world \<le> 10"
    and enc: "d_encode (gu_docs sample_guard) x \<noteq> None" for x
    by (simp_all add: sample_guard_def crashed_world_def new_documents_def)
  obtain s' x where "claim sample_guard crashed_world = Some (Inr (), s')" "gu_now sample_guard s' \<le> 10"
    "doc_at (gu_docs sample_guard) (inst_view s') (docs_key (gu_docs sample_guard) [gu_id sample_guard]) = Some x"
    "ir_expires x = gu_now sample_guard s' + gu_ttl sample_guard"
    using dead_instances_waited_out [OF sample_lone.lone_instance_axioms ttl quiet now recs enc] by blast
  then show ?thesis unfolding sample_parts sample_doc key by blast
qed

end
