(* ===== verification/Wait_Loops.thy ===== *)
theory Wait_Loops
  imports Go_Flow
begin

text \<open>
  The two loops that wait for OpenCloud: for a dependency that is not there yet at start-up
  (src/internal/retry/retry.go), and for a file it has not finished processing (src/internal/cs3/notready.go). Time
  passes in the pauses; an attempt is any operation. Both loops may not end, so they are partial functions, and
  that they end is proved from the clock. Log lines are left out.
\<close>

subsection \<open>Waiting for a dependency\<close>

definition retry_initial :: duration where "retry_initial = second"
definition retry_max :: duration where "retry_max = 30 * second"

text \<open>\<open>uo_sleep\<close> is a pause that the end of the context breaks off; \<open>uo_ended\<close> is \<open>ctx.Err()\<close>.\<close>

record ('w, 'e) until_options =
  uo_transient :: "('e \<Rightarrow> bool) option"
  uo_initial :: duration
  uo_max :: duration
  uo_ended :: "'w \<Rightarrow> string option"
  uo_sleep :: "duration \<Rightarrow> 'w \<Rightarrow> string option \<times> 'w"

datatype 'e until_error = UntilEnded string 'e | UntilFailed 'e

definition is_transient :: "('w, 'e) until_options \<Rightarrow> 'e \<Rightarrow> bool" where
  "is_transient opts e = (case uo_transient opts of None \<Rightarrow> False | Some p \<Rightarrow> p e)"

definition retry_defaults :: "('w, 'e) until_options \<Rightarrow> ('w, 'e) until_options" where
  "retry_defaults opts =
     (let initial = if uo_initial opts \<le> 0 then retry_initial else uo_initial opts;
          longest = if uo_max opts \<le> 0 then retry_max else uo_max opts in
      opts\<lparr>uo_initial := initial, uo_max := max longest initial\<rparr>)"

partial_function (option) until_from ::
    "('w, 'e) until_options \<Rightarrow> ('w, 'e, unit) op \<Rightarrow> duration \<Rightarrow> 'w \<Rightarrow> (('e until_error + unit) \<times> 'w) option" where
  "until_from opts attempt delay w =
     (let (r, w1) = attempt w in
      case r of
        Inr u \<Rightarrow> Some (Inr (), w1)
      | Inl e \<Rightarrow>
          if uo_ended opts w1 \<noteq> None then Some (Inl (UntilEnded (the (uo_ended opts w1)) e), w1)
          else if \<not> is_transient opts e then Some (Inl (UntilFailed e), w1)
          else
            (let (ended, w2) = uo_sleep opts delay w1 in
             if ended \<noteq> None then Some (Inl (UntilEnded (the ended) e), w2)
             else until_from opts attempt (min (2 * delay) (uo_max opts)) w2))"

definition until ::
    "('w, 'e) until_options \<Rightarrow> ('w, 'e, unit) op \<Rightarrow> 'w \<Rightarrow> (('e until_error + unit) \<times> 'w) option" where
  "until opts attempt = (let o1 = retry_defaults opts in until_from o1 attempt (uo_initial o1))"

text \<open>What is relied on: a context with a deadline, and a clock that moves on while the loop sleeps.\<close>

definition waits_by_deadline ::
    "('w, 'e) until_options \<Rightarrow> ('w, 'e, unit) op \<Rightarrow> ('w \<Rightarrow> time) \<Rightarrow> time \<Rightarrow> bool" where
  "waits_by_deadline opts attempt clock deadline \<longleftrightarrow>
     (\<forall>w r w'. attempt w = (r, w') \<longrightarrow> clock w \<le> clock w') \<and>
     (\<forall>w. uo_ended opts w = None \<longrightarrow> clock w < deadline) \<and>
     (\<forall>d w w'. uo_sleep opts d w = (None, w') \<longrightarrow> clock w + d \<le> clock w')"

lemma until_from_result:
  assumes "waits_by_deadline opts attempt clock deadline" "0 < delay" "0 < uo_max opts"
  shows "\<exists>r w'. until_from opts attempt delay w = Some (r, w') \<and> (\<forall>e. r = Inl (UntilFailed e) \<longrightarrow> \<not> is_transient opts e) \<and>
    (r = Inr () \<longrightarrow> (\<exists>v. attempt v = (Inr (), w')))"
  using assms(2)
proof (induction "nat (deadline - clock w)" arbitrary: w delay rule: less_induct)
  case less
  obtain q w1 where a: "attempt w = (q, w1)" by fastforce
  have c1: "clock w \<le> clock w1" using assms(1) a unfolding waits_by_deadline_def by blast
  show ?case
  proof (cases q)
    case (Inr u)
    then show ?thesis using a by (subst until_from.simps) auto
  next
    case (Inl e)
    show ?thesis
    proof (cases "uo_ended opts w1 = None \<and> is_transient opts e")
      case False
      then show ?thesis using a Inl by (subst until_from.simps) (auto simp: Let_def)
    next
      case True
      obtain z w2 where s: "uo_sleep opts delay w1 = (z, w2)" by fastforce
      show ?thesis
      proof (cases z)
        case (Some y)
        then show ?thesis using a Inl True s by (subst until_from.simps) (auto simp: Let_def)
      next
        case None
        have "clock w1 < deadline" "clock w1 + delay \<le> clock w2"
          using assms(1) True s None unfolding waits_by_deadline_def by blast+
        then have "nat (deadline - clock w2) < nat (deadline - clock w)" using c1 less.prems by simp
        moreover have "0 < min (2 * delay) (uo_max opts)" using less.prems assms(3) by simp
        ultimately show ?thesis
          using less.hyps [of w2 "min (2 * delay) (uo_max opts)"] a Inl True s None
          by (subst until_from.simps) (simp add: Let_def)
      qed
    qed
  qed
qed

text \<open>Start-up waits only for what waiting can fix, and not for ever. Under a context with a deadline the
  wait always ends; it ends well only when an attempt succeeded, and it returns an attempt's error as it is only
  when that error is not one to wait out.\<close>

lemma until_ends_by_deadline:
  assumes "waits_by_deadline opts attempt clock deadline"
  shows "\<exists>r w'. until opts attempt w = Some (r, w') \<and> (\<forall>e. r = Inl (UntilFailed e) \<longrightarrow> \<not> is_transient opts e) \<and>
    (r = Inr () \<longrightarrow> (\<exists>v. attempt v = (Inr (), w')))"
proof -
  have "waits_by_deadline (retry_defaults opts) attempt clock deadline"
    using assms by (simp add: waits_by_deadline_def retry_defaults_def Let_def)
  moreover have "0 < uo_initial (retry_defaults opts)" "0 < uo_max (retry_defaults opts)"
    by (auto simp: retry_defaults_def Let_def duration_defs retry_initial_def max_def)
  moreover have "is_transient (retry_defaults opts) = is_transient opts"
    by (simp add: retry_defaults_def is_transient_def Let_def fun_eq_iff)
  ultimately show ?thesis using until_from_result [of "retry_defaults opts"] by (simp add: until_def Let_def)
qed

text \<open>A dependency that comes up at time 5, waited for until 100 with pauses of 1, 2, 3, 3.\<close>

definition sample_until :: "(time, string) until_options" where
  "sample_until = \<lparr>uo_transient = Some (\<lambda>e. e = ''down''), uo_initial = 1, uo_max = 3,
     uo_ended = (\<lambda>w. if 100 \<le> w then Some ''deadline'' else None), uo_sleep = (\<lambda>d w. (None, w + d))\<rparr>"

definition sample_attempt :: "(time, string, unit) op" where
  "sample_attempt w = (if w < 5 then Inl ''down'' else Inr (), w)"

lemma sample_until_waits: "waits_by_deadline sample_until sample_attempt id 100"
  by (auto simp: waits_by_deadline_def sample_until_def sample_attempt_def split: if_splits)

subsection \<open>Waiting for a file\<close>

definition not_ready_wait :: duration where "not_ready_wait = 2 * minute"
definition not_ready_first :: duration where "not_ready_first = second div 4"
definition not_ready_longest :: duration where "not_ready_longest = 5 * second"

record 'w ready_clock =
  rc_wait :: duration
  rc_now :: "'w \<Rightarrow> time"
  rc_pause :: "duration \<Rightarrow> 'w \<Rightarrow> string option \<times> 'w"

datatype 'e ready_error = ReadFailed 'e | GaveUp duration 'e | ReadyWaitEnded string

definition not_ready_window :: "'w ready_clock \<Rightarrow> duration" where
  "not_ready_window c = (if rc_wait c > 0 then rc_wait c else not_ready_wait)"

partial_function (option) ready_from ::
    "'w ready_clock \<Rightarrow> ('e \<Rightarrow> bool) \<Rightarrow> ('w, 'e, 'a) op \<Rightarrow> time \<Rightarrow> duration \<Rightarrow> 'w \<Rightarrow> (('e ready_error + 'a) \<times> 'w) option" where
  "ready_from c not_ready open1 deadline delay w =
     (let (r, w1) = open1 w in
      case r of
        Inr x \<Rightarrow> Some (Inr x, w1)
      | Inl e \<Rightarrow>
          if \<not> not_ready e then Some (Inl (ReadFailed e), w1)
          else
            (let remaining = time_sub deadline (rc_now c w1) in
             if remaining \<le> 0 then Some (Inl (GaveUp (not_ready_window c) e), w1)
             else
               (let (ended, w2) = rc_pause c (min delay remaining) w1 in
                if ended \<noteq> None then Some (Inl (ReadyWaitEnded (the ended)), w2)
                else ready_from c not_ready open1 deadline (min (2 * delay) not_ready_longest) w2)))"

definition open_when_ready ::
    "'w ready_clock \<Rightarrow> ('e \<Rightarrow> bool) \<Rightarrow> ('w, 'e, 'a) op \<Rightarrow> 'w \<Rightarrow> (('e ready_error + 'a) \<times> 'w) option" where
  "open_when_ready c not_ready open1 w =
     ready_from c not_ready open1 (rc_now c w + not_ready_window c) not_ready_first w"

definition steady_clock :: "'w ready_clock \<Rightarrow> ('w, 'e, 'a) op \<Rightarrow> bool" where
  "steady_clock c open1 \<longleftrightarrow>
     (\<forall>w r w'. open1 w = (r, w') \<longrightarrow> rc_now c w \<le> rc_now c w') \<and>
     (\<forall>d w w'. rc_pause c d w = (None, w') \<longrightarrow> rc_now c w + d \<le> rc_now c w')"

lemma ready_from_result:
  assumes "steady_clock c open1" "0 < delay"
  shows "\<exists>r w'. ready_from c not_ready open1 deadline delay w = Some (r, w') \<and>
    (\<forall>d e. r = Inl (GaveUp d e) \<longrightarrow> not_ready e \<and> deadline \<le> rc_now c w') \<and> (\<forall>e. r = Inl (ReadFailed e) \<longrightarrow> \<not> not_ready e) \<and>
    (\<forall>x. r = Inr x \<longrightarrow> (\<exists>v. open1 v = (Inr x, w')))"
  using assms(2)
proof (induction "nat (deadline - rc_now c w)" arbitrary: w delay rule: less_induct)
  case less
  obtain q w1 where a: "open1 w = (q, w1)" by fastforce
  have c1: "rc_now c w \<le> rc_now c w1" using assms(1) a unfolding steady_clock_def by blast
  show ?case
  proof (cases q)
    case (Inr x)
    then show ?thesis using a by (subst ready_from.simps) auto
  next
    case (Inl e)
    let ?rem = "time_sub deadline (rc_now c w1)"
    show ?thesis
    proof (cases "not_ready e \<and> 0 < ?rem")
      case False
      then show ?thesis using a Inl by (subst ready_from.simps) (auto simp: Let_def time_sub_def min_int64_def max_int64_def min_def max_def)
    next
      case True
      obtain z w2 where s: "rc_pause c (min delay ?rem) w1 = (z, w2)" by fastforce
      show ?thesis
      proof (cases z)
        case (Some y)
        then show ?thesis using a Inl True s by (subst ready_from.simps) (auto simp: Let_def)
      next
        case None
        have "rc_now c w1 + min delay ?rem \<le> rc_now c w2" using assms(1) s None unfolding steady_clock_def by blast
        moreover have "0 < min delay ?rem" using less.prems True by simp
        moreover have "rc_now c w1 < deadline"
          using True by (auto simp: time_sub_def min_int64_def max_int64_def min_def max_def split: if_splits)
        ultimately have "nat (deadline - rc_now c w2) < nat (deadline - rc_now c w)" using c1 by linarith
        moreover have "0 < min (2 * delay) not_ready_longest" using less.prems by (simp add: not_ready_longest_def second_def)
        ultimately show ?thesis
          using less.hyps [of w2 "min (2 * delay) not_ready_longest"] a Inl True s None
          by (subst ready_from.simps) (simp add: Let_def not_le)
      qed
    qed
  qed
qed

text \<open>A read of a file that is still being processed always ends, and gives up only when the window has passed.\<close>

lemma open_when_ready_returns:
  assumes "steady_clock c open1"
  shows "\<exists>r w'. open_when_ready c not_ready open1 w = Some (r, w') \<and>
    (\<forall>d e. r = Inl (GaveUp d e) \<longrightarrow> not_ready e \<and> rc_now c w + not_ready_window c \<le> rc_now c w') \<and>
    (\<forall>e. r = Inl (ReadFailed e) \<longrightarrow> \<not> not_ready e) \<and> (\<forall>x. r = Inr x \<longrightarrow> (\<exists>v. open1 v = (Inr x, w')))"
  unfolding open_when_ready_def
  by (rule ready_from_result [OF assms]) (simp add: not_ready_first_def second_def)

end
