(* ===== verification/Cs3_Client.thy ===== *)
theory Cs3_Client
  imports Cs3_Access Go_Paths Wait_Loops Key_Recovery
begin

text \<open>
  The client of OpenCloud's gateway (src/internal/cs3: client.go, writer.go, token.go, dataorigin.go,
  unreachable.go, provision.go): the worker's token and when it is reused, space-relative references, listing,
  reading and writing files. The gateway's calls and the HTTP transfers are parameters; what arrives of a body is
  its bytes and the error it broke off with. The stall guard is a timer of the transport and left out: a stalled
  transfer is one of the failures of a transfer.
\<close>

subsection \<open>Errors\<close>

datatype rpc_code = CodeOk | CodeNotFound | CodeAlreadyExists | CodeTooEarly | CodeUnauthenticated | CodeUnavailable
  | CodeOther string

definition code_text :: "rpc_code \<Rightarrow> string" where
  "code_text c =
     (case c of
        CodeOk \<Rightarrow> ''CODE_OK''
      | CodeNotFound \<Rightarrow> ''CODE_NOT_FOUND''
      | CodeAlreadyExists \<Rightarrow> ''CODE_ALREADY_EXISTS''
      | CodeTooEarly \<Rightarrow> ''CODE_TOO_EARLY''
      | CodeUnauthenticated \<Rightarrow> ''CODE_UNAUTHENTICATED''
      | CodeUnavailable \<Rightarrow> ''CODE_UNAVAILABLE''
      | CodeOther t \<Rightarrow> t)"

datatype cs3_error =
    Cs3NotFound string
  | Cs3AlreadyExists string
  | Cs3NotReady
  | Cs3GaveUp duration
  | Cs3WaitEnded string
  | Cs3Stalled
  | Cs3Status string rpc_code
  | Cs3Transport string string
  | Cs3BadStatus string nat
  | Cs3Refused string

text \<open>What waiting can fix: the gateway could not be asked. \<open>unavailable\<close> is gRPC's own verdict on a transport error.\<close>

definition unreachable :: "(string \<Rightarrow> bool) \<Rightarrow> cs3_error \<Rightarrow> bool" where
  "unreachable unavailable e =
     (case e of
        Cs3Status oper c \<Rightarrow> c = CodeUnavailable
      | Cs3Transport oper t \<Rightarrow> unavailable t
      | _ \<Rightarrow> False)"

subsection \<open>References\<close>

record reference =
  rf_root :: resource_id
  rf_path :: string

definition split_space_id :: "string \<Rightarrow> resource_id" where
  "split_space_id i =
     (let (storage, sp) = (case go_cut (CHR ''$'') i of None \<Rightarrow> (i, i) | Some (a, b) \<Rightarrow> (a, b));
          (sp', opaque) = (case go_cut (CHR ''!'') sp of None \<Rightarrow> (sp, sp) | Some (a, b) \<Rightarrow> (a, b)) in
      \<lparr>rid_storage = storage, rid_space = sp', rid_opaque = opaque\<rparr>)"

definition space_root_id :: "space \<Rightarrow> resource_id" where
  "space_root_id sp = (if resource_zero (sp_root sp) then split_space_id (sp_id sp) else sp_root sp)"

definition clean_rel :: "string \<Rightarrow> string" where
  "clean_rel rel =
     (let r = trim_slashes (trim_prefix ''./'' rel) in if r = [] \<or> r = ''.'' then [] else path_clean r)"

definition reference_to :: "space \<Rightarrow> string \<Rightarrow> reference" where
  "reference_to sp rel = \<lparr>rf_root = space_root_id sp, rf_path = (if rel = [] then ''.'' else ''./'' @ rel)\<rparr>"

definition base_name :: "string \<Rightarrow> string" where
  "base_name p = go_after_last (CHR ''/'') (rev (dropWhile (\<lambda>c. c = CHR ''/'') (rev p)))"

subsection \<open>The gateway and the data server\<close>

record storage_space =
  ss_id :: string
  ss_name :: string
  ss_type :: string
  ss_owner :: string
  ss_root :: resource_id
  ss_opaque :: "opaque option"

record resource_info =
  ri_path :: string
  ri_container :: bool
  ri_size :: "64 word"
  ri_mtime :: "64 word"

record transfer_protocol =
  tp_name :: string
  tp_endpoint :: string
  tp_token :: string

record data_request =
  dr_url :: string
  dr_access :: string
  dr_transfer :: "string option"
  dr_range :: "int option"
  dr_length :: int
  dr_mtime :: "int option"

record 'w gateway =
  gw_authenticate :: "string \<Rightarrow> string \<Rightarrow> ('w, string, rpc_code \<times> string) op"
  gw_spaces :: "string \<Rightarrow> ('w, string, rpc_code \<times> storage_space list) op"
  gw_container :: "reference \<Rightarrow> string \<Rightarrow> ('w, string, rpc_code \<times> resource_info list) op"
  gw_download :: "reference \<Rightarrow> string \<Rightarrow> ('w, string, rpc_code \<times> transfer_protocol list) op"
  gw_upload :: "reference \<Rightarrow> int \<Rightarrow> int option \<Rightarrow> string \<Rightarrow> ('w, string, rpc_code \<times> transfer_protocol list) op"
  gw_stat :: "reference \<Rightarrow> string \<Rightarrow> ('w, string, rpc_code \<times> unit) op"
  gw_delete :: "reference \<Rightarrow> string \<Rightarrow> ('w, string, rpc_code \<times> unit) op"
  gw_create_container :: "reference \<Rightarrow> string \<Rightarrow> ('w, string, rpc_code \<times> unit) op"
  gw_create_space :: "string \<Rightarrow> string \<Rightarrow> string \<Rightarrow> ('w, string, rpc_code \<times> string \<times> string) op"
  dt_get :: "data_request \<Rightarrow> ('w, string, nat \<times> bytes \<times> string option) op"
  dt_put :: "data_request \<Rightarrow> bytes \<Rightarrow> ('w, string option, nat) op"

text \<open>\<open>cc_origin\<close> rewrites an endpoint's scheme and host, if it parses; \<open>cc_claims\<close> is the JSON of a token's payload.\<close>

record 'w cs3_client =
  cc_gw :: "'w gateway"
  cc_client_id :: string
  cc_secret :: string
  cc_origin :: "(string \<Rightarrow> string option) option"
  cc_base64 :: "string \<Rightarrow> bytes option"
  cc_claims :: "bytes \<Rightarrow> int option"
  cc_clock :: "'w ready_clock"

text \<open>The client's own state is the token it holds (\<open>CachedAuth\<close>).\<close>

record 'w client_state =
  cl_world :: 'w
  cl_token :: string
  cl_expires :: time

definition on_world :: "('e \<Rightarrow> 'f) \<Rightarrow> ('w, 'e, 'a) op \<Rightarrow> ('w client_state, 'f, 'a) op" where
  "on_world wrap f c = (case f (cl_world c) of (r, w) \<Rightarrow> (map_sum wrap id r, c\<lparr>cl_world := w\<rparr>))"

subsection \<open>The token\<close>

definition token_refresh_margin :: duration where "token_refresh_margin = 30 * second"
definition token_fallback_ttl :: duration where "token_fallback_ttl = 30 * second"

fun split_at :: "char \<Rightarrow> string \<Rightarrow> string list" where
  "split_at d [] = [[]]"
| "split_at d (c # s) =
     (if c = d then [] # split_at d s else (case split_at d s of [] \<Rightarrow> [[c]] | p # ps \<Rightarrow> (c # p) # ps))"

definition token_expiry :: "'w cs3_client \<Rightarrow> string \<Rightarrow> time option" where
  "token_expiry cc tok =
     (case split_at (CHR ''.'') tok of
        [h, p, s] \<Rightarrow>
          (case cc_base64 cc p of
             None \<Rightarrow> None
           | Some b \<Rightarrow> (case cc_claims cc b of None \<Rightarrow> None | Some e \<Rightarrow> if e \<le> 0 then None else Some (e * second)))
      | _ \<Rightarrow> None)"

definition service_account_token :: "'w cs3_client \<Rightarrow> ('w client_state, cs3_error, string) op" where
  "service_account_token cc =
     try_op id (on_world (Cs3Transport ''cs3 authenticate'') (gw_authenticate (cc_gw cc) (cc_client_id cc) (cc_secret cc)))
       (\<lambda>(code, tok).
          if code \<noteq> CodeOk then fail_op (Cs3Status ''Authenticate'' code)
          else if tok = [] then fail_op (Cs3Refused ''cs3 authenticate: empty token'')
          else ok_op tok)"

definition client_now :: "'w cs3_client \<Rightarrow> 'w client_state \<Rightarrow> time" where
  "client_now cc c = rc_now (cc_clock cc) (cl_world c)"

definition token_cached :: "'w cs3_client \<Rightarrow> 'w client_state \<Rightarrow> bool" where
  "token_cached cc c \<longleftrightarrow> cl_token c \<noteq> [] \<and> client_now cc c < cl_expires c"

definition auth_token :: "'w cs3_client \<Rightarrow> ('w client_state, cs3_error, string) op" where
  "auth_token cc c =
     (if token_cached cc c then (Inr (cl_token c), c)
      else
        (case service_account_token cc c of
           (Inl e, c) \<Rightarrow> (Inl e, c)
         | (Inr tok, c) \<Rightarrow>
             (Inr tok, c\<lparr>cl_token := tok,
                cl_expires := (case token_expiry cc tok of
                   None \<Rightarrow> client_now cc c + token_fallback_ttl
                 | Some e \<Rightarrow> e - token_refresh_margin)\<rparr>)))"

definition forget_token :: "'w client_state \<Rightarrow> 'w client_state" where
  "forget_token c = c\<lparr>cl_token := [], cl_expires := zero_time\<rparr>"

definition note_status :: "rpc_code \<Rightarrow> 'w client_state \<Rightarrow> 'w client_state" where
  "note_status code c = (if code = CodeUnauthenticated then forget_token c else c)"

text \<open>A gateway call with the worker's token: the answer's status is noted and handed on with the token used.\<close>

definition rpc ::
    "'w cs3_client \<Rightarrow> string \<Rightarrow> (string \<Rightarrow> ('w, string, rpc_code \<times> 'a) op) \<Rightarrow>
     (string \<Rightarrow> rpc_code \<Rightarrow> 'a \<Rightarrow> ('w client_state, cs3_error, 'b) op) \<Rightarrow> ('w client_state, cs3_error, 'b) op" where
  "rpc cc label call K =
     try_op id (auth_token cc) (\<lambda>tok.
     try_op id (on_world (Cs3Transport label) (call tok)) (\<lambda>(code, x) c. K tok code x (note_status code c)))"

subsection \<open>Reading\<close>

definition to_space :: "storage_space \<Rightarrow> space" where
  "to_space s = \<lparr>sp_id = ss_id s, sp_name = ss_name s, sp_type = ss_type s, sp_owner = ss_owner s, sp_root = ss_root s,
     sp_members = parse_members (ss_opaque s)\<rparr>"

definition client_list_spaces :: "'w cs3_client \<Rightarrow> ('w client_state, cs3_error, space list) op" where
  "client_list_spaces cc =
     rpc cc ''cs3 list storage spaces'' (gw_spaces (cc_gw cc)) (\<lambda>tok code ss.
       if code \<noteq> CodeOk then fail_op (Cs3Status ''ListStorageSpaces'' code) else ok_op (map to_space ss))"

record cs3_entry =
  en_path :: string
  en_dir :: bool
  en_size :: int
  en_mtime :: int

definition to_entry :: "string \<Rightarrow> resource_info \<Rightarrow> cs3_entry option" where
  "to_entry rel info =
     (let name = base_name (ri_path info) in
      if name = [] \<or> name = ''.'' then None
      else Some \<lparr>en_path = path_join [rel, name], en_dir = ri_container info, en_size = clamp_int64 (ri_size info),
        en_mtime = clamp_int64 (ri_mtime info)\<rparr>)"

definition client_list_dir :: "'w cs3_client \<Rightarrow> space \<Rightarrow> string \<Rightarrow> ('w client_state, cs3_error, cs3_entry list) op" where
  "client_list_dir cc sp rel =
     rpc cc ''cs3 list container'' (gw_container (cc_gw cc) (reference_to sp (clean_rel rel))) (\<lambda>tok code infos.
       if code \<noteq> CodeOk then fail_op (Cs3Status ''ListContainer'' code)
       else ok_op (List.map_filter (to_entry (clean_rel rel)) infos))"

definition pick_protocol :: "string \<Rightarrow> transfer_protocol list \<Rightarrow> (string \<times> string) option" where
  "pick_protocol preferred ps =
     (let usable = filter (\<lambda>p. tp_endpoint p \<noteq> []) ps in
      case find (\<lambda>p. tp_name p = preferred) usable of
        Some p \<Rightarrow> Some (tp_endpoint p, tp_token p)
      | None \<Rightarrow> (case usable of [] \<Rightarrow> None | p # _ \<Rightarrow> Some (tp_endpoint p, tp_token p)))"

definition data_endpoint :: "'w cs3_client \<Rightarrow> string \<Rightarrow> string \<Rightarrow> cs3_error + string" where
  "data_endpoint cc endpoint transfer =
     (case cc_origin cc of
        None \<Rightarrow> Inr endpoint
      | Some rewrite \<Rightarrow>
          if transfer \<noteq> [] then Inr endpoint
          else (case rewrite endpoint of
                  None \<Rightarrow> Inl (Cs3Refused ''cs3: gateway returned an unparseable data endpoint'')
                | Some u \<Rightarrow> Inr u))"

text \<open>The body from \<open>offset\<close> on, whether or not the server honours the range.\<close>

definition stream_from ::
    "'w cs3_client \<Rightarrow> string \<Rightarrow> string \<Rightarrow> string \<Rightarrow> int \<Rightarrow> ('w client_state, cs3_error, bytes \<times> string option) op" where
  "stream_from cc endpoint access transfer offset =
     try_op id
       (on_world (Cs3Transport ''cs3 download'')
          (dt_get (cc_gw cc) \<lparr>dr_url = endpoint, dr_access = access, dr_transfer = (if transfer = [] then None else Some transfer),
             dr_range = (if offset > 0 then Some offset else None), dr_length = 0, dr_mtime = None\<rparr>))
       (\<lambda>(status, body, broken) c.
          if status = 206 then (Inr (body, broken), c)
          else if status = 200 then
            (if offset = 0 then (Inr (body, broken), c)
             else if length body < nat offset then
               (Inl (Cs3Transport ''cs3 download: seek'' (case broken of None \<Rightarrow> ''EOF'' | Some t \<Rightarrow> t)), c)
             else (Inr (drop (nat offset) body, broken), c))
          else if status = 401 then (Inl (Cs3BadStatus ''cs3 download'' status), forget_token c)
          else if status = 404 then (Inl (Cs3NotFound []), c)
          else if status = 425 then (Inl Cs3NotReady, c)
          else (Inl (Cs3BadStatus ''cs3 download'' status), c))"

definition open_once :: "'w cs3_client \<Rightarrow> space \<Rightarrow> string \<Rightarrow> int \<Rightarrow> ('w client_state, cs3_error, bytes \<times> string option) op" where
  "open_once cc sp rel offset =
     rpc cc ''cs3 initiate download'' (gw_download (cc_gw cc) (reference_to sp rel)) (\<lambda>tok code ps.
       if code = CodeTooEarly then fail_op Cs3NotReady
       else if code \<noteq> CodeOk then fail_op (Cs3Status ''InitiateFileDownload'' code)
       else case pick_protocol ''spaces'' ps of
           None \<Rightarrow> fail_op (Cs3Refused ''cs3 initiate download: no download endpoint returned'')
         | Some (endpoint, transfer) \<Rightarrow>
             (case data_endpoint cc endpoint transfer of
                Inl e \<Rightarrow> fail_op e
              | Inr url \<Rightarrow> stream_from cc url tok transfer offset))"

definition client_clock :: "'w cs3_client \<Rightarrow> 'w client_state ready_clock" where
  "client_clock cc = \<lparr>rc_wait = rc_wait (cc_clock cc), rc_now = client_now cc,
     rc_pause = (\<lambda>d c. case rc_pause (cc_clock cc) d (cl_world c) of (z, w) \<Rightarrow> (z, c\<lparr>cl_world := w\<rparr>))\<rparr>"

definition read_error :: "cs3_error ready_error \<Rightarrow> cs3_error" where
  "read_error e = (case e of ReadFailed e \<Rightarrow> e | GaveUp d e \<Rightarrow> Cs3GaveUp d | ReadyWaitEnded t \<Rightarrow> Cs3WaitEnded t)"

definition client_open_file ::
    "'w cs3_client \<Rightarrow> space \<Rightarrow> string \<Rightarrow> int \<Rightarrow> 'w client_state \<Rightarrow>
     ((cs3_error + bytes \<times> string option) \<times> 'w client_state) option" where
  "client_open_file cc sp rel offset c =
     (if offset < 0 then Some (Inl (Cs3Refused ''cs3 open file: negative offset''), c)
      else if clean_rel rel = [] then Some (Inl (Cs3Refused ''cs3 open file: empty path''), c)
      else map_option (apfst (map_sum read_error id))
        (open_when_ready (client_clock cc) (\<lambda>e. e = Cs3NotReady) (open_once cc sp (clean_rel rel) offset) c))"

subsection \<open>Writing\<close>

definition client_make_dir :: "'w cs3_client \<Rightarrow> space \<Rightarrow> string \<Rightarrow> ('w client_state, cs3_error, unit) op" where
  "client_make_dir cc sp rel =
     (if clean_rel rel = [] then ok_op ()
      else rpc cc ''cs3 create container'' (gw_create_container (cc_gw cc) (reference_to sp (clean_rel rel))) (\<lambda>tok code x.
        if code = CodeOk \<or> code = CodeAlreadyExists then ok_op () else fail_op (Cs3Refused (''cs3 CreateContainer: code='' @ code_text code))))"

definition client_delete :: "'w cs3_client \<Rightarrow> space \<Rightarrow> string \<Rightarrow> ('w client_state, cs3_error, unit) op" where
  "client_delete cc sp rel =
     (if clean_rel rel = [] then fail_op (Cs3Refused ''cs3 delete: refusing to delete a space root'')
      else rpc cc ''cs3 delete'' (gw_delete (cc_gw cc) (reference_to sp (clean_rel rel))) (\<lambda>tok code x.
        if code = CodeOk then ok_op ()
        else if code = CodeNotFound then fail_op (Cs3NotFound (clean_rel rel))
        else fail_op (Cs3Refused (''cs3 Delete: code='' @ code_text code))))"

definition unix_seconds :: "time \<Rightarrow> int option" where
  "unix_seconds t = (if is_zero_time t then None else Some (t div second))"

definition confirm_created :: "'w cs3_client \<Rightarrow> space \<Rightarrow> string \<Rightarrow> string \<Rightarrow> ('w client_state, cs3_error, unit) op" where
  "confirm_created cc sp rel tok =
     try_op id (on_world (Cs3Transport ''cs3 upload: confirm empty file'') (gw_stat (cc_gw cc) (reference_to sp rel) tok))
       (\<lambda>(code, x).
          if code \<noteq> CodeOk
          then fail_op (Cs3Refused (''cs3 upload: the server did not create the empty file '' @ rel @
            '' during upload initiation (stat: '' @ code_text code @ '')''))
          else ok_op ())"

definition put_body ::
    "'w cs3_client \<Rightarrow> string \<Rightarrow> string \<Rightarrow> string \<Rightarrow> int \<Rightarrow> time \<Rightarrow> bytes \<Rightarrow> ('w client_state, cs3_error, unit) op" where
  "put_body cc endpoint access transfer len mtime body =
     try_op id
       (on_world (\<lambda>e. case e of None \<Rightarrow> Cs3Stalled | Some t \<Rightarrow> Cs3Transport ''cs3 upload'' t)
          (dt_put (cc_gw cc) \<lparr>dr_url = endpoint, dr_access = access, dr_transfer = (if transfer = [] then None else Some transfer),
             dr_range = None, dr_length = len, dr_mtime = unix_seconds mtime\<rparr> body))
       (\<lambda>status c.
          let c = (if status = 401 then forget_token c else c) in
          if status < 200 \<or> 299 < status then (Inl (Cs3BadStatus ''cs3 upload'' status), c) else (Inr (), c))"

definition client_upload ::
    "'w cs3_client \<Rightarrow> space \<Rightarrow> string \<Rightarrow> int \<Rightarrow> time \<Rightarrow> bytes \<Rightarrow> ('w client_state, cs3_error, unit) op" where
  "client_upload cc sp rel0 len mtime body =
     (let rel = clean_rel rel0 in
      if rel = [] then fail_op (Cs3Refused ''cs3 upload: empty path'')
      else if len < 0 then fail_op (Cs3Refused ''cs3 upload: negative size'')
      else rpc cc ''cs3 initiate upload'' (gw_upload (cc_gw cc) (reference_to sp rel) len (unix_seconds mtime)) (\<lambda>tok code ps.
        if code = CodeAlreadyExists then fail_op (Cs3AlreadyExists rel)
        else if code \<noteq> CodeOk then fail_op (Cs3Status ''InitiateFileUpload'' code)
        else if len = 0 then confirm_created cc sp rel tok
        else case pick_protocol ''simple'' ps of
            None \<Rightarrow> fail_op (Cs3Refused ''cs3 initiate upload: no upload endpoint returned'')
          | Some (endpoint, transfer) \<Rightarrow>
              (case data_endpoint cc endpoint transfer of
                 Inl e \<Rightarrow> fail_op e
               | Inr url \<Rightarrow> put_body cc url tok transfer len mtime body)))"

subsection \<open>Provisioning\<close>

definition create_project_space :: "'w cs3_client \<Rightarrow> string \<Rightarrow> ('w client_state, cs3_error, string) op" where
  "create_project_space cc name =
     (if name = [] then fail_op (Cs3Refused ''cs3: space name is required'')
      else
        try_op id (auth_token cc) (\<lambda>tok.
        try_op id (on_world (Cs3Transport ''cs3 create storage space'') (gw_create_space (cc_gw cc) ''project'' name tok))
          (\<lambda>(code, message, i).
             if code \<noteq> CodeOk then fail_op (Cs3Refused (''cs3 create storage space: '' @ code_text code @ '': '' @ message))
             else if i = [] then fail_op (Cs3Refused ''cs3 create storage space: OpenCloud returned no space id'')
             else ok_op i)))"

end
