(* ===== verification/Cs3_State.thy ===== *)
theory Cs3_State
  imports Cs3_Client State_Store
begin

text \<open>
  The service's state in a folder of an OpenCloud Space (src/internal/cs3state/cs3state.go), over the calls it
  makes on the Space. A transport error is a \<open>cs3_error\<close>; the store's callers see the errors of the store interface.
\<close>

subsection \<open>The store\<close>

definition default_state_prefix :: string where "default_state_prefix = ''.backup-service-state''"
definition max_document_bytes :: nat where "max_document_bytes = 1048576"
definition space_type_personal :: string where "space_type_personal = ''personal''"

text \<open>What the store calls of the client.\<close>

record 'w space_client =
  sc_spaces :: "('w, cs3_error, space list) op"
  sc_list :: "space \<Rightarrow> string \<Rightarrow> ('w, cs3_error, cs3_entry list) op"
  sc_open :: "space \<Rightarrow> string \<Rightarrow> int \<Rightarrow> ('w, cs3_error, bytes \<times> string option) op"
  sc_mkdir :: "space \<Rightarrow> string \<Rightarrow> ('w, cs3_error, unit) op"
  sc_upload :: "space \<Rightarrow> string \<Rightarrow> int \<Rightarrow> time \<Rightarrow> bytes \<Rightarrow> ('w, cs3_error, unit) op"
  sc_delete :: "space \<Rightarrow> string \<Rightarrow> ('w, cs3_error, unit) op"

record 'w cs3_config =
  ck_client :: "'w space_client"
  ck_space :: string
  ck_prefix :: string
  ck_account :: string

record 'w cs3_store =
  st_world :: 'w
  st_space :: "space option"
  st_dirs :: "string list"

datatype cs3_store_error = ClientRequired | StateSpaceRequired

definition new_cs3_store ::
    "'w space_client option \<Rightarrow> string \<Rightarrow> string \<Rightarrow> string \<Rightarrow> 'w \<Rightarrow> cs3_store_error + 'w cs3_config \<times> 'w cs3_store" where
  "new_cs3_store client i p account w =
     (case client of
        None \<Rightarrow> Inl ClientRequired
      | Some cl \<Rightarrow>
          if i = [] then Inl StateSpaceRequired
          else Inr (\<lparr>ck_client = cl, ck_space = i, ck_prefix = trim_slashes (if p = [] then default_state_prefix else p),
                ck_account = trim_white account\<rparr>, \<lparr>st_world = w, st_space = None, st_dirs = []\<rparr>))"

definition cs3_error_text :: "cs3_error \<Rightarrow> string" where
  "cs3_error_text e =
     (case e of
        Cs3NotFound p \<Rightarrow> ''cs3: resource not found: '' @ p
      | Cs3AlreadyExists p \<Rightarrow> ''cs3: resource already exists: '' @ p
      | Cs3NotReady \<Rightarrow> ''cs3: file is still being processed by OpenCloud''
      | Cs3GaveUp d \<Rightarrow> ''cs3 download: gave up''
      | Cs3WaitEnded t \<Rightarrow> ''cs3 download: '' @ t
      | Cs3Stalled \<Rightarrow> ''cs3: transfer stalled''
      | Cs3Status oper c \<Rightarrow> ''cs3 '' @ oper @ '': code='' @ code_text c
      | Cs3Transport label t \<Rightarrow> label @ '': '' @ t
      | Cs3BadStatus label n \<Rightarrow> label @ '': unexpected status''
      | Cs3Refused t \<Rightarrow> t)"

definition cs3_not_found :: "cs3_error \<Rightarrow> bool" where
  "cs3_not_found e \<longleftrightarrow>
     (case e of Cs3NotFound p \<Rightarrow> True | _ \<Rightarrow> sublist ''CODE_NOT_FOUND'' (cs3_error_text e))"

text \<open>A call on the Space; its errors become the store's, except where the caller looks at them.\<close>

definition on_space :: "('w, 'e, 'a) op \<Rightarrow> ('w cs3_store, 'e, 'a) op" where
  "on_space f s = (case f (st_world s) of (r, w) \<Rightarrow> (r, s\<lparr>st_world := w\<rparr>))"

definition resolve :: "'w cs3_config \<Rightarrow> ('w cs3_store, state_error, space) op" where
  "resolve cfg s =
     (case st_space s of
        Some sp \<Rightarrow> (Inr sp, s)
      | None \<Rightarrow>
          (case on_space (sc_spaces (ck_client cfg)) s of
             (Inl e, s) \<Rightarrow> (Inl BackendError, s)
           | (Inr ss, s) \<Rightarrow>
               (case find (\<lambda>sp. sp_id sp = ck_space cfg) ss of
                  None \<Rightarrow> (Inl BackendError, s)
                | Some sp \<Rightarrow> (Inr sp, s\<lparr>st_space := Some sp\<rparr>))))"

definition path_for :: "'w cs3_config \<Rightarrow> string \<Rightarrow> string" where
  "path_for cfg key = (let k = trim_slashes key in if k = [] then ck_prefix cfg else ck_prefix cfg @ CHR ''/'' # k)"

definition cs3_key_for :: "'w cs3_config \<Rightarrow> string \<Rightarrow> string option" where
  "cs3_key_for cfg full =
     (let f = trim_slashes full in
      if f = ck_prefix cfg then None
      else (case go_cut_prefix (ck_prefix cfg @ ''/'') f of None \<Rightarrow> None | Some r \<Rightarrow> if r = [] then None else Some r))"

definition cs3_get :: "'w cs3_config \<Rightarrow> string \<Rightarrow> ('w cs3_store, state_error, bytes) op" where
  "cs3_get cfg key =
     try_op id (resolve cfg) (\<lambda>sp s.
       (case on_space (sc_open (ck_client cfg) sp (path_for cfg key) 0) s of
          (Inl e, s) \<Rightarrow> (Inl (if cs3_not_found e then NotFoundError key else BackendError), s)
        | (Inr (body, broken), s) \<Rightarrow>
            if length body \<le> max_document_bytes \<and> broken \<noteq> None then (Inl BackendError, s)
            else if length body > max_document_bytes then (Inl BackendError, s)
            else (Inr body, s)))"

text \<open>Folders are made from the top down and remembered.\<close>

function ensure_dir :: "'w cs3_config \<Rightarrow> space \<Rightarrow> string \<Rightarrow> ('w cs3_store, state_error, unit) op" where
  "ensure_dir cfg sp dir0 s =
     (let dir = trim_slashes dir0; parent = path_dir dir in
      if dir = [] \<or> dir = ''.'' \<or> dir \<in> set (st_dirs s) then (Inr (), s)
      else
        (case (if parent \<noteq> ''.'' \<and> parent \<noteq> ''/'' \<and> parent \<noteq> dir then ensure_dir cfg sp parent s else (Inr (), s)) of
           (Inl e, s) \<Rightarrow> (Inl e, s)
         | (Inr _, s) \<Rightarrow>
             (case on_space (sc_mkdir (ck_client cfg) sp dir) s of
                (Inl e, s) \<Rightarrow> (Inl BackendError, s)
              | (Inr _, s) \<Rightarrow> (Inr (), s\<lparr>st_dirs := dir # st_dirs s\<rparr>))))"
  by pat_completeness auto

termination
  by (relation "measure (\<lambda>(cfg, sp, dir, s). length dir)") (auto intro!: less_le_trans [OF path_dir_shorter trim_slashes_size] simp: trim_slashes_ends)

declare ensure_dir.simps [simp del]

definition prepare_write :: "'w cs3_config \<Rightarrow> string \<Rightarrow> bytes \<Rightarrow> ('w cs3_store, state_error, space \<times> string) op" where
  "prepare_write cfg key v =
     (if length v > max_document_bytes then fail_op BackendError
      else try_op id (resolve cfg) (\<lambda>sp.
        try_op id (ensure_dir cfg sp (path_dir (path_for cfg key))) (\<lambda>_. ok_op (sp, path_for cfg key))))"

definition cs3_exists :: "'w cs3_config \<Rightarrow> space \<Rightarrow> string \<Rightarrow> ('w cs3_store, state_error, bool) op" where
  "cs3_exists cfg sp full s =
     (case on_space (sc_list (ck_client cfg) sp (path_dir full)) s of
        (Inl e, s) \<Rightarrow> if cs3_not_found e then (Inr False, s) else (Inl BackendError, s)
      | (Inr es, s) \<Rightarrow> (Inr (\<exists>e\<in>set es. trim_slashes (en_path e) = full), s))"

definition cs3_upload :: "'w cs3_config \<Rightarrow> space \<Rightarrow> string \<Rightarrow> bytes \<Rightarrow> ('w cs3_store, cs3_error, unit) op" where
  "cs3_upload cfg sp full v = on_space (sc_upload (ck_client cfg) sp full (int (length v)) zero_time v)"

definition already_exists :: "cs3_error \<Rightarrow> bool" where
  "already_exists e = (case e of Cs3AlreadyExists p \<Rightarrow> True | _ \<Rightarrow> False)"

definition cs3_create :: "'w cs3_config \<Rightarrow> string \<Rightarrow> bytes \<Rightarrow> ('w cs3_store, state_error, unit) op" where
  "cs3_create cfg key v =
     try_op id (prepare_write cfg key v) (\<lambda>(sp, full).
     try_op id (cs3_exists cfg sp full) (\<lambda>there.
       if there then fail_op (ExistsError key)
       else try_op (\<lambda>e. if already_exists e then ExistsError key else BackendError) (cs3_upload cfg sp full v) ok_op))"

definition cs3_replace :: "'w cs3_config \<Rightarrow> string \<Rightarrow> bytes \<Rightarrow> ('w cs3_store, state_error, unit) op" where
  "cs3_replace cfg key v =
     try_op id (prepare_write cfg key v) (\<lambda>(sp, full) s.
       (case cs3_upload cfg sp full v s of
          (Inr _, s) \<Rightarrow> (Inr (), s)
        | (Inl e, s) \<Rightarrow>
            if \<not> already_exists e then (Inl BackendError, s)
            else
              (case on_space (sc_delete (ck_client cfg) sp full) s of
                 (r, s) \<Rightarrow>
                   if (case r of Inl (Cs3NotFound p) \<Rightarrow> False | Inl _ \<Rightarrow> True | Inr _ \<Rightarrow> False) then (Inl BackendError, s)
                   else
                     (case cs3_upload cfg sp full v s of
                        (Inl e, s) \<Rightarrow> (Inl BackendError, s)
                      | (Inr _, s) \<Rightarrow> (Inr (), s)))))"

definition cs3_delete :: "'w cs3_config \<Rightarrow> string \<Rightarrow> ('w cs3_store, state_error, unit) op" where
  "cs3_delete cfg key =
     try_op id (resolve cfg) (\<lambda>sp.
       try_op (\<lambda>e. if cs3_not_found e then NotFoundError key else BackendError)
         (on_space (sc_delete (ck_client cfg) sp (path_for cfg key))) ok_op)"

text \<open>\<open>insertSorted\<close> moves past the greater keys at the end.\<close>

definition insert_sorted :: "string \<Rightarrow> string list \<Rightarrow> string list" where
  "insert_sorted k xs =
     (let greater = rev (takeWhile (\<lambda>x. k < x) (rev xs)) in take (length xs - length greater) xs @ k # greater)"

text \<open>The listing recurses into folders; \<open>depth\<close> is the fuel, one unit per level.\<close>

fun walk_entries ::
    "(string \<Rightarrow> string list \<Rightarrow> ('w cs3_store, state_error, string list) op) \<Rightarrow> 'w cs3_config \<Rightarrow> cs3_entry list \<Rightarrow>
     string list \<Rightarrow> ('w cs3_store, state_error, string list) op" where
  "walk_entries deeper cfg [] out = ok_op out"
| "walk_entries deeper cfg (e # es) out =
     (if en_dir e then try_op id (deeper (en_path e) out) (walk_entries deeper cfg es)
      else walk_entries deeper cfg es
        (case cs3_key_for cfg (en_path e) of None \<Rightarrow> out | Some k \<Rightarrow> insert_sorted k out))"

fun cs3_walk :: "nat \<Rightarrow> 'w cs3_config \<Rightarrow> space \<Rightarrow> string \<Rightarrow> string list \<Rightarrow> ('w cs3_store, state_error, string list) op" where
  "cs3_walk 0 cfg sp dir out s = (Inl BackendError, s)"
| "cs3_walk (Suc depth) cfg sp dir out s =
     (case on_space (sc_list (ck_client cfg) sp dir) s of
        (Inl e, s) \<Rightarrow> if cs3_not_found e then (Inr out, s) else (Inl BackendError, s)
      | (Inr es, s) \<Rightarrow> walk_entries (cs3_walk depth cfg sp) cfg es out s)"

definition cs3_list :: "nat \<Rightarrow> 'w cs3_config \<Rightarrow> string \<Rightarrow> ('w cs3_store, state_error, string list) op" where
  "cs3_list depth cfg p = try_op id (resolve cfg) (\<lambda>sp. cs3_walk depth cfg sp (path_for cfg p) [])"

text \<open>Where folders nest at most \<open>n\<close> names deep, fuel above what is left of that depth changes nothing.\<close>

lemma walk_entries_cong:
  "(\<And>e. e \<in> set es \<Longrightarrow> en_dir e \<Longrightarrow> f (en_path e) = g (en_path e)) \<Longrightarrow> walk_entries f cfg es out = walk_entries g cfg es out"
proof (induction es arbitrary: out)
  case (Cons e es)
  have "walk_entries f cfg es = walk_entries g cfg es" by (rule ext) (rule Cons.IH, rule Cons.prems, auto)
  then show ?case using Cons.prems [of e] by simp
qed simp

lemma walk_fuel:
  assumes shallow: "\<And>sp d w es w' e. sc_list (ck_client cfg) sp d w = (Inr es, w') \<Longrightarrow> e \<in> set es \<Longrightarrow> en_dir e \<Longrightarrow>
      length (go_split d) < n \<and> length (go_split d) < length (go_split (en_path e))"
  shows "k < depth \<Longrightarrow> k < depth' \<Longrightarrow> n \<le> length (go_split dir) + k \<Longrightarrow>
    cs3_walk depth cfg sp dir out s = cs3_walk depth' cfg sp dir out s"
proof (induction k arbitrary: depth depth' dir out s rule: less_induct)
  case (less k)
  obtain m m' where m: "depth = Suc m" "depth' = Suc m'" using less.prems(1,2) by (cases depth; cases depth') auto
  have "walk_entries (cs3_walk m cfg sp) cfg es out s1 = walk_entries (cs3_walk m' cfg sp) cfg es out s1"
    if es: "sc_list (ck_client cfg) sp dir (st_world s) = (Inr es, w)" for es w s1
  proof (rule fun_cong [where x = s1], rule walk_entries_cong)
    fix e
    assume "e \<in> set es" "en_dir e"
    then have "length (go_split dir) < n" "length (go_split dir) < length (go_split (en_path e))" using shallow [OF es] by blast+
    then have "k - 1 < k" "n \<le> length (go_split (en_path e)) + (k - 1)" "k - 1 < m" "k - 1 < m'" using less.prems m by auto
    then show "cs3_walk m cfg sp (en_path e) = cs3_walk m' cfg sp (en_path e)" by (intro ext less.IH [of "k - 1"]) simp_all
  qed
  then show ?case unfolding m cs3_walk.simps on_space_def by (auto split: prod.splits sum.splits)
qed

subsection \<open>A Space no user can reach\<close>

datatype check_error = UnsafePersonal string | UnsafeMembers string nat | CheckUnresolved state_error

definition foreign_member_count :: "'w cs3_config \<Rightarrow> space \<Rightarrow> nat" where
  "foreign_member_count cfg sp =
     length (filter (\<lambda>who. \<not> (ck_account cfg \<noteq> [] \<and> who = ck_account cfg)) (remdups (map fst (sp_members sp))))"

definition cs3_check :: "'w cs3_config \<Rightarrow> ('w cs3_store, check_error, unit) op" where
  "cs3_check cfg =
     try_op CheckUnresolved (resolve cfg) (\<lambda>sp.
       if sp_type sp = space_type_personal then fail_op (UnsafePersonal (sp_name sp))
       else if foreign_member_count cfg sp > 0 then fail_op (UnsafeMembers (sp_name sp) (foreign_member_count cfg sp))
       else ok_op ())"

end
