(* ===== verification/Cs3_Contract.thy ===== *)
theory Cs3_Contract
  imports Cs3_State State_Versions
begin

text \<open>
  What the state store relies on of a Space, and that it then keeps the contract \<open>kv_store\<close>. Documents lie at
  \<open>leaf\<close> paths, which are never folders; every other path is a folder or nothing.
\<close>

subsection \<open>A Space's tree\<close>

text \<open>\<open>docs\<close> are the files of the Space \<open>i\<close> by path. A write or a deletion that fails has taken effect or has not.\<close>

locale space_tree =
  fixes cl :: "'w space_client" and docs :: "'w \<Rightarrow> string \<rightharpoonup> bytes" and i :: string and leaf :: "string \<Rightarrow> bool"
  assumes docs_leaf: "docs w p = Some b \<Longrightarrow> leaf p \<and> plain_path p"
    and leaf_top: "leaf (d @ CHR ''/'' # r) \<Longrightarrow> \<not> leaf d"
    and spaces_same: "sc_spaces cl w = (q, w') \<Longrightarrow> docs w' = docs w"
    and list_same: "sp_id sp = i \<Longrightarrow> sc_list cl sp d w = (l, w') \<Longrightarrow> docs w' = docs w"
    and list_missing: "sp_id sp = i \<Longrightarrow> sc_list cl sp d w = (Inl e, w') \<Longrightarrow> cs3_not_found e \<Longrightarrow>
      docs w (d @ CHR ''/'' # r) = None"
    and list_distinct: "sp_id sp = i \<Longrightarrow> sc_list cl sp d w = (Inr es, w') \<Longrightarrow> plain_path d \<Longrightarrow> \<not> leaf d \<Longrightarrow>
      distinct (map en_path es)"
    and list_sound: "sp_id sp = i \<Longrightarrow> sc_list cl sp d w = (Inr es, w') \<Longrightarrow> plain_path d \<Longrightarrow> \<not> leaf d \<Longrightarrow> en \<in> set es \<Longrightarrow>
      (\<exists>n. plain_name n \<and> en_path en = d @ CHR ''/'' # n) \<and>
      (if en_dir en then \<not> leaf (en_path en) else docs w (en_path en) \<noteq> None)"
    and list_complete: "sp_id sp = i \<Longrightarrow> sc_list cl sp d w = (Inr es, w') \<Longrightarrow> plain_path d \<Longrightarrow> \<not> leaf d \<Longrightarrow> plain_name n \<Longrightarrow>
      (docs w (d @ CHR ''/'' # n) \<noteq> None \<longrightarrow> (\<exists>e\<in>set es. \<not> en_dir e \<and> en_path e = d @ CHR ''/'' # n)) \<and>
      (docs w (d @ CHR ''/'' # n @ CHR ''/'' # r) \<noteq> None \<longrightarrow> (\<exists>e\<in>set es. en_dir e \<and> en_path e = d @ CHR ''/'' # n))"
    and open_same: "sp_id sp = i \<Longrightarrow> sc_open cl sp p k w = (o1, w') \<Longrightarrow> docs w' = docs w"
    and open_ok: "sp_id sp = i \<Longrightarrow> leaf p \<Longrightarrow> sc_open cl sp p 0 w = (Inr (b, None), w') \<Longrightarrow> docs w p = Some b"
    and open_missing: "sp_id sp = i \<Longrightarrow> leaf p \<Longrightarrow> sc_open cl sp p 0 w = (Inl e, w') \<Longrightarrow> cs3_not_found e \<Longrightarrow> docs w p = None"
    and mkdir_same: "sp_id sp = i \<Longrightarrow> plain_path d \<Longrightarrow> \<not> leaf d \<Longrightarrow> sc_mkdir cl sp d w = (u, w') \<Longrightarrow> docs w' = docs w"
    and upload_ok: "sp_id sp = i \<Longrightarrow> leaf p \<Longrightarrow> plain_path p \<Longrightarrow> sc_upload cl sp p (int (length b)) t b w = (Inr x, w') \<Longrightarrow>
      docs w' = (docs w)(p \<mapsto> b)"
    and upload_exists: "sp_id sp = i \<Longrightarrow> leaf p \<Longrightarrow> plain_path p \<Longrightarrow> sc_upload cl sp p (int (length b)) t b w = (Inl e, w') \<Longrightarrow>
      already_exists e \<Longrightarrow> docs w p \<noteq> None \<and> docs w' = docs w"
    and upload_fails: "sp_id sp = i \<Longrightarrow> leaf p \<Longrightarrow> plain_path p \<Longrightarrow> sc_upload cl sp p (int (length b)) t b w = (Inl e, w') \<Longrightarrow>
      docs w' = docs w \<or> docs w' = (docs w)(p \<mapsto> b)"
    and delete_ok: "sp_id sp = i \<Longrightarrow> leaf p \<Longrightarrow> sc_delete cl sp p w = (Inr x, w') \<Longrightarrow>
      docs w p \<noteq> None \<and> docs w' = (docs w)(p := None)"
    and delete_missing: "sp_id sp = i \<Longrightarrow> leaf p \<Longrightarrow> sc_delete cl sp p w = (Inl e, w') \<Longrightarrow> cs3_not_found e \<Longrightarrow>
      docs w p = None \<and> docs w' = docs w"
    and delete_fails: "sp_id sp = i \<Longrightarrow> leaf p \<Longrightarrow> sc_delete cl sp p w = (Inl e, w') \<Longrightarrow>
      docs w' = docs w \<or> docs w' = (docs w)(p := None)"

locale cs3_space = space_tree cl docs i leaf
  for cl :: "'w space_client" and docs :: "'w \<Rightarrow> string \<rightharpoonup> bytes" and i :: string and leaf :: "string \<Rightarrow> bool" +
  fixes cfg :: "'w cs3_config"
  assumes client: "ck_client cfg = cl" and space_id: "ck_space cfg = i" and pre: "plain_path (ck_prefix cfg)"

text \<open>What the store holds, and the state and the keys it is used with.\<close>

definition cs3_view :: "('w \<Rightarrow> string \<rightharpoonup> bytes) \<Rightarrow> 'w cs3_config \<Rightarrow> 'w cs3_store \<Rightarrow> string \<rightharpoonup> bytes" where
  "cs3_view docs cfg s k = docs (st_world s) (ck_prefix cfg @ CHR ''/'' # k)"

definition cs3_resolved :: "'w cs3_config \<Rightarrow> 'w cs3_store \<Rightarrow> bool" where
  "cs3_resolved cfg s \<longleftrightarrow> (case st_space s of None \<Rightarrow> True | Some sp \<Rightarrow> sp_id sp = ck_space cfg)"

definition document_key :: "(string \<Rightarrow> bool) \<Rightarrow> 'w cs3_config \<Rightarrow> string \<Rightarrow> bool" where
  "document_key leaf cfg k \<longleftrightarrow> plain_path k \<and> leaf (ck_prefix cfg @ CHR ''/'' # k)"

definition folder_key :: "(string \<Rightarrow> bool) \<Rightarrow> 'w cs3_config \<Rightarrow> string \<Rightarrow> bool" where
  "folder_key leaf cfg p \<longleftrightarrow> (if p = [] then \<not> leaf (ck_prefix cfg) else plain_path p \<and> \<not> leaf (ck_prefix cfg @ CHR ''/'' # p))"

definition cs3_state_store :: "nat \<Rightarrow> 'w cs3_config \<Rightarrow> ('w cs3_store, bytes) store" where
  "cs3_state_store depth cfg = \<lparr>store_get = cs3_get cfg, store_create = cs3_create cfg, store_replace = cs3_replace cfg,
     store_delete = cs3_delete cfg, store_list = cs3_list depth cfg\<rparr>"

text \<open>A store used within bounds: outside them it fails and does nothing.\<close>

definition within ::
    "('s \<Rightarrow> bool) \<Rightarrow> (string \<Rightarrow> bool) \<Rightarrow> (string \<Rightarrow> bool) \<Rightarrow> ('s, 'v) store \<Rightarrow> ('s, 'v) store" where
  "within ok doc folder st = \<lparr>
     store_get = (\<lambda>k s. if ok s \<and> doc k then store_get st k s else (Inl BackendError, s)),
     store_create = (\<lambda>k v s. if ok s \<and> doc k then store_create st k v s else (Inl BackendError, s)),
     store_replace = (\<lambda>k v s. if ok s \<and> doc k then store_replace st k v s else (Inl BackendError, s)),
     store_delete = (\<lambda>k s. if ok s \<and> doc k then store_delete st k s else (Inl BackendError, s)),
     store_list = (\<lambda>p s. if ok s \<and> folder p then store_list st p s else (Inl BackendError, s))\<rparr>"

text \<open>A plain path starts with a name.\<close>

lemma plain_path_first:
  assumes "plain_path x"
  shows "plain_name (takeWhile (\<lambda>c. c \<noteq> CHR ''/'') x)"
    "takeWhile (\<lambda>c. c \<noteq> CHR ''/'') x = x \<or> (\<exists>y. x = takeWhile (\<lambda>c. c \<noteq> CHR ''/'') x @ CHR ''/'' # y)"
proof -
  let ?n = "takeWhile (\<lambda>c. c \<noteq> CHR ''/'') x" and ?y = "dropWhile (\<lambda>c. c \<noteq> CHR ''/'') x"
  have slash: "CHR ''/'' \<notin> set ?n" by (auto dest: set_takeWhileD)
  have "plain_name ?n \<and> (?n = x \<or> (\<exists>y. x = ?n @ CHR ''/'' # y))"
  proof (cases ?y)
    case Nil
    then have x: "?n = x" using takeWhile_dropWhile_id [of "\<lambda>c. c \<noteq> CHR ''/''" x] by (simp only: append_Nil2)
    have "plain_name x" using assms slash unfolding x using go_split_plain [of x] by (simp add: plain_path_def)
    then show ?thesis unfolding x by blast
  next
    case (Cons c y)
    then have "c = CHR ''/''" using hd_dropWhile [of "\<lambda>c. c \<noteq> CHR ''/''" x] by simp
    then have x: "x = ?n @ CHR ''/'' # y" using Cons takeWhile_dropWhile_id [of "\<lambda>c. c \<noteq> CHR ''/''" x] by simp
    have "plain_path (?n @ CHR ''/'' # y)" using assms x by simp
    then have "plain_name ?n" using go_split_append [OF slash, of y] by (simp add: plain_path_def)
    then show ?thesis using x by blast
  qed
  then show "plain_name ?n" "?n = x \<or> (\<exists>y. x = ?n @ CHR ''/'' # y)" by blast+
qed

lemma first_name:
  assumes "plain_path x"
  obtains n where "plain_name n" "x = n \<or> (\<exists>y. x = n @ CHR ''/'' # y)"
  using plain_path_first [OF assms] that by metis

subsection \<open>Keys in order\<close>

lemma insert_sorted_set: "set (insert_sorted k xs) = insert k (set xs)"
  and insert_sorted_distinct: "distinct xs \<Longrightarrow> k \<notin> set xs \<Longrightarrow> distinct (insert_sorted k xs)"
  and insert_sorted_sorted: "sorted xs \<Longrightarrow> sorted (insert_sorted k xs)"
proof -
  let ?g = "rev (takeWhile (\<lambda>x. k < x) (rev xs))"
  let ?l = "rev (dropWhile (\<lambda>x. k < x) (rev xs))"
  have xs: "xs = ?l @ ?g" by (simp flip: rev_append)
  have l: "take (length xs - length ?g) xs = ?l"
    by (metis append_eq_conv_conj diff_add_inverse2 length_append xs)
  have ins: "insert_sorted k xs = ?l @ k # ?g" unfolding insert_sorted_def Let_def l ..
  have s: "set xs = set ?l \<union> set ?g" by (subst xs) auto
  show "set (insert_sorted k xs) = insert k (set xs)" unfolding ins s by auto
  show "distinct (insert_sorted k xs)" if "distinct xs" "k \<notin> set xs"
  proof -
    have "distinct (?l @ ?g)" using that(1) xs by simp
    then show ?thesis using that(2) s unfolding ins by auto
  qed
  show "sorted (insert_sorted k xs)" if "sorted xs"
  proof -
    have so: "sorted (?l @ ?g)" using that xs by simp
    have g: "\<forall>x\<in>set ?g. k < x" by (auto dest: set_takeWhileD)
    have "\<forall>x\<in>set ?l. x \<le> k"
    proof (cases ?l rule: rev_cases)
      case (snoc ys y)
      then have "\<not> k < y" using hd_dropWhile [of "\<lambda>x. k < x" "rev xs"] by (metis last_snoc list.simps(3) rev.simps(1) rev_is_Nil_conv last_rev snoc_eq_iff_butlast)
      then show ?thesis using so unfolding snoc by (auto simp: sorted_append)
    next
      case Nil
      then show ?thesis unfolding Nil by simp
    qed
    then show ?thesis using so g unfolding ins by (auto simp: sorted_append intro: less_imp_le)
  qed
qed

text \<open>A walk that adds the keys of \<open>new\<close> to what is listed already.\<close>

definition adds_keys ::
    "('w \<Rightarrow> string \<rightharpoonup> bytes) \<Rightarrow> string set \<Rightarrow> state_error + string list \<Rightarrow> string list \<Rightarrow> 'w cs3_store \<Rightarrow> 'w cs3_store \<Rightarrow> bool" where
  "adds_keys docs new r out s s' \<longleftrightarrow>
     docs (st_world s') = docs (st_world s) \<and> st_space s' = st_space s \<and> (\<forall>e. r = Inl e \<longrightarrow> e = BackendError) \<and>
     (\<forall>out'. r = Inr out' \<longrightarrow> set out' = set out \<union> new \<and> (sorted out \<longrightarrow> sorted out') \<and>
       (distinct out \<longrightarrow> set out \<inter> new = {} \<longrightarrow> distinct out'))"

lemma adds_keys_then:
  assumes "adds_keys docs a (Inr out1) out s s1" "adds_keys docs b r out1 s1 s'" "a \<inter> b = {}"
  shows "adds_keys docs (a \<union> b) r out s s'"
  using assms unfolding adds_keys_def by (cases r) (auto 0 3)

lemma adds_keys_key: "adds_keys docs {k} (Inr (insert_sorted k out)) out s s"
  by (auto simp: adds_keys_def insert_sorted_set insert_sorted_sorted insert_sorted_distinct)

lemma adds_keys_none: "adds_keys docs {} (Inr out) out s s"
  by (simp add: adds_keys_def)

lemma adds_keys_fails: "adds_keys docs a (Inl e) out s s' \<Longrightarrow> adds_keys docs b (Inl e) out s s'"
  by (simp add: adds_keys_def)

subsection \<open>Every operation keeps the contract\<close>

lemma on_space_cases: "on_space f s = (r, s') \<Longrightarrow> \<exists>w. f (st_world s) = (r, w) \<and> s' = s\<lparr>st_world := w\<rparr>"
  by (auto simp: on_space_def split: prod.splits)

context cs3_space
begin

abbreviation "view \<equiv> cs3_view docs cfg"
abbreviation "ok \<equiv> cs3_resolved cfg"
abbreviation "doc \<equiv> document_key leaf cfg"

lemma path_of: assumes "doc k" shows "path_for cfg k = ck_prefix cfg @ CHR ''/'' # k" "plain_path (path_for cfg k)" "leaf (path_for cfg k)"
proof -
  have "k \<noteq> []" "trim_slashes k = k" using assms plain_path_ends trim_slashes_plain by (auto simp: document_key_def)
  then show p: "path_for cfg k = ck_prefix cfg @ CHR ''/'' # k" by (simp add: path_for_def)
  show "plain_path (path_for cfg k)" "leaf (path_for cfg k)" using assms pre unfolding p by (simp_all add: document_key_def)
qed

lemma path_of_folder:
  assumes "folder_key leaf cfg p"
  shows "plain_path (path_for cfg p)" "\<not> leaf (path_for cfg p)"
    "path_for cfg p = (if p = [] then ck_prefix cfg else ck_prefix cfg @ CHR ''/'' # p)"
proof -
  have "plain_path (path_for cfg p) \<and> \<not> leaf (path_for cfg p) \<and>
    path_for cfg p = (if p = [] then ck_prefix cfg else ck_prefix cfg @ CHR ''/'' # p)"
  proof (cases "p = []")
    case True
    then have "path_for cfg p = ck_prefix cfg" by (simp add: path_for_def trim_slashes_def)
    then show ?thesis using True assms pre by (simp add: folder_key_def)
  next
    case False
    then have "plain_path p" "\<not> leaf (ck_prefix cfg @ CHR ''/'' # p)" using assms by (simp_all add: folder_key_def)
    moreover from this have "path_for cfg p = ck_prefix cfg @ CHR ''/'' # p" using False trim_slashes_plain by (simp add: path_for_def)
    ultimately show ?thesis using False pre by simp
  qed
  then show "plain_path (path_for cfg p)" "\<not> leaf (path_for cfg p)"
    "path_for cfg p = (if p = [] then ck_prefix cfg else ck_prefix cfg @ CHR ''/'' # p)" by blast+
qed

lemma key_of: "plain_path (ck_prefix cfg @ CHR ''/'' # k) \<Longrightarrow> cs3_key_for cfg (ck_prefix cfg @ CHR ''/'' # k) = Some k"
proof -
  assume a: "plain_path (ck_prefix cfg @ CHR ''/'' # k)"
  then have "k \<noteq> []" using plain_path_ends by auto
  moreover have "go_cut_prefix (ck_prefix cfg @ ''/'') (ck_prefix cfg @ CHR ''/'' # k) = Some k"
    by (simp add: go_cut_prefix_Some)
  ultimately show ?thesis using trim_slashes_plain [OF a] by (simp add: cs3_key_for_def)
qed

lemma view_upd: "docs (st_world s') = (docs (st_world s))(ck_prefix cfg @ CHR ''/'' # k := x) \<Longrightarrow> view s' = (view s)(k := x)"
  by (auto simp: cs3_view_def fun_eq_iff)

lemma view_same: "docs (st_world s') = docs (st_world s) \<Longrightarrow> view s' = view s"
  by (simp add: cs3_view_def fun_eq_iff)

lemma resolve_same:
  assumes "resolve cfg s = (r, s')" "ok s"
  shows "docs (st_world s') = docs (st_world s)" "ok s'" "\<And>sp. r = Inr sp \<Longrightarrow> sp_id sp = i" "\<And>e. r = Inl e \<Longrightarrow> e = BackendError"
proof -
  have "docs (st_world s') = docs (st_world s) \<and> ok s' \<and> (\<forall>sp. r = Inr sp \<longrightarrow> sp_id sp = i) \<and> (\<forall>e. r = Inl e \<longrightarrow> e = BackendError)"
  proof (cases "st_space s")
    case (Some sp)
    then show ?thesis using assms space_id by (auto simp: resolve_def cs3_resolved_def)
  next
    case None
    obtain q s1 where q: "on_space (sc_spaces cl) s = (q, s1)" by fastforce
    then obtain w where w: "sc_spaces cl (st_world s) = (q, w)" "s1 = s\<lparr>st_world := w\<rparr>" using on_space_cases by blast
    note same = spaces_same [OF w(1)]
    show ?thesis
      using assms(1) None q w same client space_id
      by (auto simp: resolve_def cs3_resolved_def find_Some_iff split: sum.splits option.splits)
  qed
  then show "docs (st_world s') = docs (st_world s)" "ok s'" "\<And>sp. r = Inr sp \<Longrightarrow> sp_id sp = i" "\<And>e. r = Inl e \<Longrightarrow> e = BackendError"
    by blast+
qed

lemma ensure_dir_same:
  "ensure_dir cfg sp dir s = (r, s') \<Longrightarrow> sp_id sp = i \<Longrightarrow> plain_path dir \<Longrightarrow> leaf (dir @ CHR ''/'' # x) \<Longrightarrow>
    docs (st_world s') = docs (st_world s) \<and> st_space s' = st_space s \<and> (\<forall>e. r = Inl e \<longrightarrow> e = BackendError)"
proof (induction "length dir" arbitrary: dir s r s' x rule: less_induct)
  case less
  have dir: "trim_slashes dir = dir" "dir \<noteq> []" using trim_slashes_plain plain_path_ends less.prems(3) by blast+
  have top: "\<not> leaf dir" by (rule leaf_top [OF less.prems(4)])
  have make: "docs (st_world s2) = docs (st_world s1) \<and> st_space s2 = st_space s1" if "on_space (sc_mkdir cl sp dir) s1 = (u, s2)" for s1 u s2
    using on_space_cases [OF that] mkdir_same [OF less.prems(2,3) top] by auto
  let ?rec = "if path_dir dir \<noteq> ''.'' \<and> path_dir dir \<noteq> ''/'' \<and> path_dir dir \<noteq> dir then ensure_dir cfg sp (path_dir dir) s else (Inr (), s)"
  obtain q s1 where rec: "?rec = (q, s1)" by fastforce
  have one: "docs (st_world s1) = docs (st_world s) \<and> st_space s1 = st_space s \<and> (\<forall>e. q = Inl e \<longrightarrow> e = BackendError)"
    using less.prems(3)
  proof (cases rule: plain_path_cases)
    case name
    then show ?thesis using rec by auto
  next
    case (below d n)
    then have shorter: "length d < length dir" and l: "leaf (d @ CHR ''/'' # (n @ CHR ''/'' # x))" using less.prems(4) by auto
    show ?thesis
      using rec below(4) less.hyps [OF shorter _ less.prems(2) below(2) l] by (auto split: if_splits)
  qed
  show ?case
  proof (cases "dir = ''.'' \<or> dir \<in> set (st_dirs s)")
    case True
    then show ?thesis using less.prems(1) dir unfolding ensure_dir.simps [of cfg sp dir s] Let_def dir(1) by auto
  next
    case False
    obtain u s2 where mk: "on_space (sc_mkdir cl sp dir) s1 = (u, s2)" by fastforce
    show ?thesis
      using less.prems(1) dir False one mk make [OF mk]
      unfolding ensure_dir.simps [of cfg sp dir s] Let_def dir(1) rec client
      by (cases q; cases u) auto
  qed
qed

lemma doc_parent:
  assumes "doc k"
  obtains n where "path_for cfg k = path_dir (path_for cfg k) @ CHR ''/'' # n" "plain_path (path_dir (path_for cfg k))" "plain_name n"
    "\<not> leaf (path_dir (path_for cfg k))"
  using path_of(2) [OF assms]
proof (cases rule: plain_path_cases)
  case name
  then show thesis using path_of(1) [OF assms] by (simp add: plain_name_def)
next
  case (below d n)
  then show thesis using that [of n] leaf_top [of d n] path_of(3) [OF assms] by auto
qed

lemma prepare_write_same:
  assumes "prepare_write cfg k v s = (r, s')" "ok s" "doc k"
  shows "docs (st_world s') = docs (st_world s)" "ok s'" "\<And>x. r = Inr x \<Longrightarrow> sp_id (fst x) = i \<and> snd x = path_for cfg k"
    "\<And>e. r = Inl e \<Longrightarrow> e = BackendError"
proof -
  obtain n where n: "path_for cfg k = path_dir (path_for cfg k) @ CHR ''/'' # n" "plain_path (path_dir (path_for cfg k))"
    by (rule doc_parent [OF assms(3)])
  have l: "leaf (path_dir (path_for cfg k) @ CHR ''/'' # n)" using path_of(3) [OF assms(3)] n(1) by simp
  have "docs (st_world s') = docs (st_world s) \<and> ok s' \<and> (\<forall>x. r = Inr x \<longrightarrow> sp_id (fst x) = i \<and> snd x = path_for cfg k) \<and>
    (\<forall>e. r = Inl e \<longrightarrow> e = BackendError)"
  proof (cases "max_document_bytes < length v")
    case True
    then show ?thesis using assms by (simp add: prepare_write_def)
  next
    case False
    obtain q s1 where q: "resolve cfg s = (q, s1)" by fastforce
    note one = resolve_same [OF q assms(2)]
    show ?thesis
    proof (cases q)
      case (Inl e)
      then show ?thesis using assms(1) False q one by (auto simp: prepare_write_def try_op_def)
    next
      case (Inr sp)
      obtain u s2 where e: "ensure_dir cfg sp (path_dir (path_for cfg k)) s1 = (u, s2)" by fastforce
      have two: "docs (st_world s2) = docs (st_world s1) \<and> st_space s2 = st_space s1 \<and> (\<forall>e. u = Inl e \<longrightarrow> e = BackendError)"
        by (rule ensure_dir_same [OF e one(3) [OF Inr] n(2) l])
      then have "ok s2" using one(2) by (simp add: cs3_resolved_def)
      then show ?thesis
        using assms(1) False q one(1,3) Inr e two by (cases u) (auto simp: prepare_write_def try_op_def ok_op_def)
    qed
  qed
  then show "docs (st_world s') = docs (st_world s)" "ok s'" "\<And>x. r = Inr x \<Longrightarrow> sp_id (fst x) = i \<and> snd x = path_for cfg k"
    "\<And>e. r = Inl e \<Longrightarrow> e = BackendError" by blast+
qed

lemma exists_same:
  assumes "cs3_exists cfg sp (path_for cfg k) s = (r, s')" "sp_id sp = i" "doc k"
  shows "docs (st_world s') = docs (st_world s) \<and> st_space s' = st_space s \<and>
    (\<forall>b. r = Inr b \<longrightarrow> b = (docs (st_world s) (path_for cfg k) \<noteq> None)) \<and> (\<forall>e. r = Inl e \<longrightarrow> e = BackendError)"
proof -
  let ?d = "path_dir (path_for cfg k)"
  obtain n where n: "path_for cfg k = ?d @ CHR ''/'' # n" "plain_path ?d" "plain_name n" "\<not> leaf ?d"
    by (rule doc_parent [OF assms(3)])
  obtain q s1 where "on_space (sc_list cl sp ?d) s = (q, s1)" by fastforce
  then obtain w where l: "sc_list cl sp ?d (st_world s) = (q, w)" "s1 = s\<lparr>st_world := w\<rparr>" "on_space (sc_list cl sp ?d) s = (q, s1)"
    using on_space_cases by blast
  note same = list_same [OF assms(2) l(1)]
  show ?thesis
  proof (cases q)
    case (Inl e)
    then show ?thesis
      using assms(1) l same list_missing [OF assms(2) l(1) [unfolded Inl], of n] n(1) client by (auto simp: cs3_exists_def split: if_splits)
  next
    case (Inr es)
    note at = l(1) [unfolded Inr] n(2,4)
    have trim: "trim_slashes (en_path en) = en_path en" if "en \<in> set es" for en
      using list_sound [OF assms(2) at that] n(2) trim_slashes_plain [of "en_path en"] plain_path_name by auto
    have "(\<exists>en\<in>set es. trim_slashes (en_path en) = path_for cfg k) \<longleftrightarrow> docs (st_world s) (path_for cfg k) \<noteq> None"
    proof
      assume "\<exists>en\<in>set es. trim_slashes (en_path en) = path_for cfg k"
      then obtain en where en: "en \<in> set es" "en_path en = path_for cfg k" using trim by auto
      then show "docs (st_world s) (path_for cfg k) \<noteq> None"
        using list_sound [OF assms(2) at en(1)] path_of(3) [OF assms(3)] by (auto split: if_splits)
    next
      assume "docs (st_world s) (path_for cfg k) \<noteq> None"
      then obtain en where "en \<in> set es" "en_path en = path_for cfg k"
        using list_complete [OF assms(2) at n(3)] n(1) by metis
      then show "\<exists>en\<in>set es. trim_slashes (en_path en) = path_for cfg k" using trim by auto
    qed
    then show ?thesis using assms(1) l same Inr client by (auto simp: cs3_exists_def)
  qed
qed

lemma view_at: "doc k \<Longrightarrow> view s k = docs (st_world s) (path_for cfg k)"
  by (simp add: cs3_view_def path_of)

lemma view_written: "doc k \<Longrightarrow> docs (st_world s') = (docs (st_world s))(path_for cfg k := x) \<Longrightarrow> view s' = (view s)(k := x)"
  using view_upd path_of(1) by metis

lemma get_effect:
  assumes "cs3_get cfg k s = (r, s')" "ok s" "doc k"
  shows "view s' = view s \<and> ok s' \<and> (\<forall>b. r = Inr b \<longrightarrow> view s k = Some b) \<and>
    (\<forall>e. r = Inl e \<longrightarrow> \<not> is_malformed e \<and> (is_not_found e \<longrightarrow> view s k = None))"
proof -
  obtain q s1 where q: "resolve cfg s = (q, s1)" by fastforce
  note one = resolve_same [OF q assms(2)]
  show ?thesis
  proof (cases q)
    case (Inl e)
    then show ?thesis using assms(1) q one view_same [OF one(1)] by (auto simp: cs3_get_def try_op_def)
  next
    case (Inr sp)
    note id = one(3) [OF Inr] and p = path_of(3) [OF assms(3)]
    obtain u s2 where "on_space (sc_open cl sp (path_for cfg k) 0) s1 = (u, s2)" by fastforce
    then obtain w where l: "sc_open cl sp (path_for cfg k) 0 (st_world s1) = (u, w)" "s2 = s1\<lparr>st_world := w\<rparr>"
      "on_space (sc_open cl sp (path_for cfg k) 0) s1 = (u, s2)" using on_space_cases by blast
    have same: "view s2 = view s" "ok s2"
      using open_same [OF id l(1)] one(1,2) l(2) by (auto simp: cs3_view_def fun_eq_iff cs3_resolved_def)
    have at: "view s k = docs (st_world s1) (path_for cfg k)" using view_at [OF assms(3), of s] one(1) by simp
    show ?thesis
    proof (cases u)
      case (Inl e)
      then show ?thesis
        using assms(1) q Inr l same at open_missing [OF id p l(1) [unfolded Inl]] client by (auto simp: cs3_get_def try_op_def split: if_splits)
    next
      case u: (Inr bb)
      obtain body broken where bb: "bb = (body, broken)" by fastforce
      have "docs (st_world s1) (path_for cfg k) = Some body" if "broken = None"
        using open_ok [OF id p] l(1) unfolding u bb that by blast
      then show ?thesis
        using assms(1) q Inr l same at client u bb by (auto simp: cs3_get_def try_op_def split: if_splits)
    qed
  qed
qed

lemma upload_effect:
  assumes "cs3_upload cfg sp (path_for cfg k) v s = (r, s')" "sp_id sp = i" "doc k"
  shows "st_space s' = st_space s \<and> (\<forall>u. r = Inr u \<longrightarrow> view s' = (view s)(k \<mapsto> v)) \<and>
    (\<forall>e. r = Inl e \<longrightarrow> view s' = view s \<or> view s' = (view s)(k \<mapsto> v)) \<and>
    (\<forall>e. r = Inl e \<longrightarrow> already_exists e \<longrightarrow> view s k \<noteq> None \<and> view s' = view s)"
proof -
  obtain w where w: "sc_upload cl sp (path_for cfg k) (int (length v)) zero_time v (st_world s) = (r, w)" "s' = s\<lparr>st_world := w\<rparr>"
    using on_space_cases [of "sc_upload cl sp (path_for cfg k) (int (length v)) zero_time v" s r s'] assms(1) client
    by (auto simp: cs3_upload_def)
  note p = path_of(3,2) [OF assms(3)]
  have sv: "st_world s' = w" using w(2) by simp
  note written = view_written [OF assms(3), of s' s] and kept = view_same [of s' s]
  show ?thesis
  proof (cases r)
    case (Inr u)
    then show ?thesis using upload_ok [OF assms(2) p w(1) [unfolded Inr]] written sv w(2) by simp
  next
    case (Inl e)
    have "docs w = docs (st_world s) \<or> docs w = (docs (st_world s))(path_for cfg k \<mapsto> v)"
      by (rule upload_fails [OF assms(2) p w(1) [unfolded Inl]])
    moreover have "docs (st_world s) (path_for cfg k) \<noteq> None \<and> docs w = docs (st_world s)" if "already_exists e"
      by (rule upload_exists [OF assms(2) p w(1) [unfolded Inl] that])
    ultimately show ?thesis using written kept sv w(2) Inl view_at [OF assms(3), of s] by auto
  qed
qed

lemma delete_effect:
  assumes "on_space (sc_delete cl sp (path_for cfg k)) s = (r, s')" "sp_id sp = i" "doc k"
  shows "st_space s' = st_space s \<and> (\<forall>u. r = Inr u \<longrightarrow> view s k \<noteq> None \<and> view s' = (view s)(k := None)) \<and>
    (\<forall>e. r = Inl e \<longrightarrow> view s' = view s \<or> view s' = (view s)(k := None)) \<and>
    (\<forall>e. r = Inl e \<longrightarrow> cs3_not_found e \<longrightarrow> view s k = None \<and> view s' = view s)"
proof -
  obtain w where w: "sc_delete cl sp (path_for cfg k) (st_world s) = (r, w)" "s' = s\<lparr>st_world := w\<rparr>"
    using on_space_cases [OF assms(1)] by blast
  note p = path_of(3) [OF assms(3)]
  have sv: "st_world s' = w" using w(2) by simp
  note written = view_written [OF assms(3), of s' s] and kept = view_same [of s' s]
  show ?thesis
  proof (cases r)
    case (Inr u)
    then show ?thesis using delete_ok [OF assms(2) p w(1) [unfolded Inr]] written sv w(2) view_at [OF assms(3), of s] by simp
  next
    case (Inl e)
    have "docs w = docs (st_world s) \<or> docs w = (docs (st_world s))(path_for cfg k := None)"
      by (rule delete_fails [OF assms(2) p w(1) [unfolded Inl]])
    moreover have "docs (st_world s) (path_for cfg k) = None \<and> docs w = docs (st_world s)" if "cs3_not_found e"
      by (rule delete_missing [OF assms(2) p w(1) [unfolded Inl] that])
    ultimately show ?thesis using written kept sv w(2) Inl view_at [OF assms(3), of s] by auto
  qed
qed

lemma create_effect:
  assumes "cs3_create cfg k v s = (r, s')" "ok s" "doc k"
  shows "ok s' \<and> (\<forall>u. r = Inr u \<longrightarrow> view s k = None \<and> view s' = (view s)(k \<mapsto> v)) \<and>
    (\<forall>e. r = Inl e \<longrightarrow> view s' = view s \<or> (view s k = None \<and> view s' = (view s)(k \<mapsto> v))) \<and>
    (\<forall>e. r = Inl e \<longrightarrow> is_exists e \<longrightarrow> view s k \<noteq> None \<and> view s' = view s)"
proof -
  obtain q s1 where q: "prepare_write cfg k v s = (q, s1)" by fastforce
  note one = prepare_write_same [OF q assms(2,3)]
  have v1: "view s1 = view s" by (rule view_same [OF one(1)])
  show ?thesis
  proof (cases q)
    case (Inl e)
    then show ?thesis using assms(1) q one(2,4) v1 by (auto simp: cs3_create_def try_op_def)
  next
    case (Inr x)
    obtain sp where x: "x = (sp, path_for cfg k)" "sp_id sp = i" using one(3) [OF Inr] by (cases x) auto
    obtain b s2 where b: "cs3_exists cfg sp (path_for cfg k) s1 = (b, s2)" by fastforce
    note two = exists_same [OF b x(2) assms(3)]
    have v2: "view s2 = view s" "ok s2" using two v1 one(2) view_same [of s2 s1] by (auto simp: cs3_resolved_def)
    show ?thesis
    proof (cases "b = Inr False")
      case False
      then show ?thesis
        using assms(1) q Inr x b two v1 v2 view_at [OF assms(3), of s1]
        by (cases b) (auto simp: cs3_create_def try_op_def)
    next
      case True
      then have none: "view s k = None" using two v1 view_at [OF assms(3), of s1] by auto
      obtain u s3 where u: "cs3_upload cfg sp (path_for cfg k) v s2 = (u, s3)" by fastforce
      note three = upload_effect [OF u x(2) assms(3)]
      have ok3: "ok s3" using three v2(2) by (simp add: cs3_resolved_def)
      show ?thesis
        using assms(1) q Inr x b True u three ok3 v2(1) none
        by (cases u) (auto simp: cs3_create_def try_op_def ok_op_def split: if_splits)
    qed
  qed
qed

lemma replace_effect:
  assumes "cs3_replace cfg k v s = (r, s')" "ok s" "doc k"
  shows "ok s' \<and> (\<forall>u. r = Inr u \<longrightarrow> view s' = (view s)(k \<mapsto> v)) \<and>
    (\<forall>e. r = Inl e \<longrightarrow> view s' = view s \<or> view s' = (view s)(k \<mapsto> v) \<or> view s' = (view s)(k := None))"
proof -
  obtain q s1 where q: "prepare_write cfg k v s = (q, s1)" by fastforce
  note one = prepare_write_same [OF q assms(2,3)]
  have v1: "view s1 = view s" by (rule view_same [OF one(1)])
  show ?thesis
  proof (cases q)
    case (Inl e)
    then show ?thesis using assms(1) q one(2,4) v1 by (auto simp: cs3_replace_def try_op_def)
  next
    case (Inr x)
    obtain sp where x: "x = (sp, path_for cfg k)" "sp_id sp = i" using one(3) [OF Inr] by (cases x) auto
    obtain u s2 where u: "cs3_upload cfg sp (path_for cfg k) v s1 = (u, s2)" by fastforce
    note two = upload_effect [OF u x(2) assms(3)]
    have ok2: "ok s2" using two one(2) by (simp add: cs3_resolved_def)
    show ?thesis
    proof (cases "\<exists>e. u = Inl e \<and> already_exists e")
      case False
      then show ?thesis
        using assms(1) q Inr x u two ok2 v1 by (cases u) (auto simp: cs3_replace_def try_op_def)
    next
      case True
      then obtain e where e: "u = Inl e" "already_exists e" by blast
      have v2: "view s2 = view s" using two e v1 by auto
      obtain d s3 where d: "on_space (sc_delete cl sp (path_for cfg k)) s2 = (d, s3)" by fastforce
      note three = delete_effect [OF d x(2) assms(3)]
      have ok3: "ok s3" using three ok2 by (simp add: cs3_resolved_def)
      have v3: "view s3 = view s \<or> view s3 = (view s)(k := None)" using three v2 by (cases d) auto
      obtain z s4 where z: "cs3_upload cfg sp (path_for cfg k) v s3 = (z, s4)" by fastforce
      note four = upload_effect [OF z x(2) assms(3)]
      have ok4: "ok s4" using four ok3 by (simp add: cs3_resolved_def)
      have v4: "(\<forall>y. z = Inr y \<longrightarrow> view s4 = (view s)(k \<mapsto> v)) \<and>
          (view s4 = view s \<or> view s4 = (view s)(k \<mapsto> v) \<or> view s4 = (view s)(k := None))"
        using four v3 by (cases z) auto
      show ?thesis
        using assms(1) q Inr x u e d z v3 v4 ok3 ok4 client
        by (cases z) (auto simp: cs3_replace_def try_op_def split: if_splits)
    qed
  qed
qed

lemma remove_effect:
  assumes "cs3_delete cfg k s = (r, s')" "ok s" "doc k"
  shows "ok s' \<and> (\<forall>u. r = Inr u \<longrightarrow> view s k \<noteq> None \<and> view s' = (view s)(k := None)) \<and>
    (\<forall>e. r = Inl e \<longrightarrow> view s' = view s \<or> view s' = (view s)(k := None)) \<and>
    (\<forall>e. r = Inl e \<longrightarrow> is_not_found e \<longrightarrow> view s k = None \<and> view s' = view s)"
proof -
  obtain q s1 where q: "resolve cfg s = (q, s1)" by fastforce
  note one = resolve_same [OF q assms(2)]
  have v1: "view s1 = view s" by (rule view_same [OF one(1)])
  show ?thesis
  proof (cases q)
    case (Inl e)
    then show ?thesis using assms(1) q one(2,4) v1 by (auto simp: cs3_delete_def try_op_def)
  next
    case (Inr sp)
    obtain d s2 where d: "on_space (sc_delete cl sp (path_for cfg k)) s1 = (d, s2)" by fastforce
    note two = delete_effect [OF d one(3) [OF Inr] assms(3)]
    have ok2: "ok s2" using two one(2) by (simp add: cs3_resolved_def)
    show ?thesis
      using assms(1) q Inr d two ok2 v1 client
      by (cases d) (auto simp: cs3_delete_def try_op_def ok_op_def split: if_splits)
  qed
qed

text \<open>The keys under a folder, and those an entry of its listing stands for.\<close>

abbreviation "keys_in dir s \<equiv> {k. view s k \<noteq> None \<and> (\<exists>x. ck_prefix cfg @ CHR ''/'' # k = dir @ CHR ''/'' # x)}"
abbreviation "covered s en \<equiv> (if en_dir en then keys_in (en_path en) s else {k. ck_prefix cfg @ CHR ''/'' # k = en_path en})"
abbreviation "inside dir \<equiv> dir = ck_prefix cfg \<or> (\<exists>x. dir = ck_prefix cfg @ CHR ''/'' # x)"

abbreviation "adds \<equiv> adds_keys docs"

lemma entry_of_key:
  assumes "plain_name n" "en_path en = dir @ CHR ''/'' # n" "k \<in> covered s en"
  shows "en_path en = dir @ CHR ''/'' # takeWhile (\<lambda>c. c \<noteq> CHR ''/'') (drop (Suc (length dir)) (ck_prefix cfg @ CHR ''/'' # k))"
proof -
  have n: "\<forall>c\<in>set n. c \<noteq> CHR ''/''" using assms(1) by (auto simp: plain_name_def)
  obtain x where x: "ck_prefix cfg @ CHR ''/'' # k = dir @ CHR ''/'' # n @ x" "x = [] \<or> hd x = CHR ''/''"
    using assms(2,3) by (cases "en_dir en") auto
  have "takeWhile (\<lambda>c. c \<noteq> CHR ''/'') (n @ x) = n"
    using n x(2) by (cases x) (simp_all add: takeWhile_append2)
  then show ?thesis unfolding x(1) assms(2) by simp
qed

lemma walk_entries_adds:
  assumes deeper: "\<And>en out s r s'. en \<in> set es \<Longrightarrow> en_dir en \<Longrightarrow> docs (st_world s) = D \<Longrightarrow> deeper (en_path en) out s = (r, s') \<Longrightarrow>
      adds (keys_in (en_path en) s) r out s s'"
    and entry: "\<And>en. en \<in> set es \<Longrightarrow> \<exists>n. plain_name n \<and> en_path en = dir @ CHR ''/'' # n"
    and dist: "distinct (map en_path es)" and dir: "plain_path dir" "inside dir"
  shows "walk_entries deeper cfg es out s = (r, s') \<Longrightarrow> docs (st_world s) = D \<Longrightarrow> adds (\<Union>en\<in>set es. covered s en) r out s s'"
  using deeper entry dist
proof (induction es arbitrary: out s)
  case Nil
  then show ?case by (auto simp: ok_op_def adds_keys_none)
next
  case (Cons en es)
  obtain n where n: "plain_name n" "en_path en = dir @ CHR ''/'' # n" using Cons.prems(4) by force
  have apart: "covered s en \<inter> (\<Union>en'\<in>set es. covered s en') = {}"
  proof (rule ccontr)
    assume "covered s en \<inter> (\<Union>en'\<in>set es. covered s en') \<noteq> {}"
    then obtain k en' where k: "k \<in> covered s en" "en' \<in> set es" "k \<in> covered s en'" by blast
    obtain n' where n': "plain_name n'" "en_path en' = dir @ CHR ''/'' # n'" using Cons.prems(4) k(2) by force
    have "en_path en = en_path en'" using entry_of_key [OF n k(1)] entry_of_key [OF n' k(3)] by simp
    then show False using Cons.prems(5) k(2) by (metis distinct.simps(2) image_eqI list.map(2) set_map)
  qed
  have tail: "adds (\<Union>en'\<in>set es. covered s1 en') r out1 s1 s'"
    if "walk_entries deeper cfg es out1 s1 = (r, s')" "docs (st_world s1) = D" for out1 s1
  proof (rule Cons.IH [OF that])
    show "adds (keys_in (en_path e) sa) q o1 sa sb"
      if "e \<in> set es" "en_dir e" "docs (st_world sa) = D" "deeper (en_path e) o1 sa = (q, sb)" for e o1 sa q sb
      by (rule Cons.prems(3) [OF _ that(2-4)]) (simp add: that(1))
    show "\<exists>n. plain_name n \<and> en_path e = dir @ CHR ''/'' # n" if "e \<in> set es" for e
      by (rule Cons.prems(4)) (simp add: that)
    show "distinct (map en_path es)" using Cons.prems(5) by simp
  qed
  show ?case
  proof (cases "en_dir en")
    case False
    obtain k where k: "en_path en = ck_prefix cfg @ CHR ''/'' # k" using n(2) dir(2) by auto
    have "plain_path (en_path en)" using n dir(1) plain_path_name by simp
    then have key: "cs3_key_for cfg (en_path en) = Some k" using k key_of by simp
    have c: "covered s en = {k}" using False k by auto
    have "adds (covered s en) (Inr (insert_sorted k out)) out s s" unfolding c by (rule adds_keys_key)
    moreover have "adds (\<Union>en'\<in>set es. covered s en') r (insert_sorted k out) s s'"
      using tail [of "insert_sorted k out" s] Cons.prems(1,2) False key by simp
    ultimately have "adds (covered s en \<union> (\<Union>en'\<in>set es. covered s en')) r out s s'" by (rule adds_keys_then [OF _ _ apart])
    then show ?thesis by (simp only: list.set UN_insert)
  next
    case True
    obtain q s1 where q: "deeper (en_path en) out s = (q, s1)" by fastforce
    have one: "adds (covered s en) q out s s1" using Cons.prems(3) [OF _ True Cons.prems(2) q] True by simp
    show ?thesis
    proof (cases q)
      case (Inl e)
      then show ?thesis using Cons.prems(1) True q adds_keys_fails [OF one [unfolded Inl]] by (auto simp: try_op_def)
    next
      case (Inr out1)
      have d: "docs (st_world s1) = docs (st_world s)" using one by (simp only: adds_keys_def)
      then have v: "view s1 = view s" by (rule view_same)
      have "adds (\<Union>en'\<in>set es. covered s1 en') r out1 s1 s'"
        using Cons.prems(1,2) True q d Inr by (intro tail) (simp_all add: try_op_def)
      then have "adds (\<Union>en'\<in>set es. covered s en') r out1 s1 s'" unfolding v .
      then have "adds (covered s en \<union> (\<Union>en'\<in>set es. covered s en')) r out s s'" by (rule adds_keys_then [OF one [unfolded Inr] _ apart])
      then show ?thesis by (simp only: list.set UN_insert)
    qed
  qed
qed

lemma listing_covers:
  assumes "sp_id sp = i" "sc_list cl sp dir (st_world s) = (Inr es, w)" "plain_path dir" "\<not> leaf dir"
  shows "(\<Union>en\<in>set es. covered s en) = keys_in dir s"
proof (intro equalityI subsetI)
  fix k
  assume "k \<in> (\<Union>en\<in>set es. covered s en)"
  then obtain en where en: "en \<in> set es" "k \<in> covered s en" by blast
  obtain n where n: "en_path en = dir @ CHR ''/'' # n" using list_sound [OF assms en(1)] by blast
  show "k \<in> keys_in dir s"
    using list_sound [OF assms en(1)] en(2) n by (cases "en_dir en") (auto simp: cs3_view_def)
next
  fix k
  assume "k \<in> keys_in dir s"
  then obtain x where x: "ck_prefix cfg @ CHR ''/'' # k = dir @ CHR ''/'' # x" "view s k \<noteq> None" by blast
  then have d: "docs (st_world s) (dir @ CHR ''/'' # x) \<noteq> None" by (simp add: cs3_view_def)
  then have "plain_path x" using docs_leaf by fastforce
  then obtain n where n: "plain_name n" "x = n \<or> (\<exists>y. x = n @ CHR ''/'' # y)" by (rule first_name)
  show "k \<in> (\<Union>en\<in>set es. covered s en)"
  proof (cases "x = n")
    case True
    then obtain en where "en \<in> set es" "\<not> en_dir en" "en_path en = dir @ CHR ''/'' # n"
      using list_complete [OF assms n(1)] d by blast
    then show ?thesis using x(1) True by (intro UN_I [of en]) simp_all
  next
    case False
    then obtain y where y: "x = n @ CHR ''/'' # y" using n(2) by blast
    then obtain en where "en \<in> set es" "en_dir en" "en_path en = dir @ CHR ''/'' # n"
      using list_complete [OF assms n(1)] d by blast
    then show ?thesis using x y by (intro UN_I [of en]) simp_all
  qed
qed

lemma walk_adds:
  "cs3_walk depth cfg sp dir out s = (r, s') \<Longrightarrow> sp_id sp = i \<Longrightarrow> plain_path dir \<Longrightarrow> \<not> leaf dir \<Longrightarrow> inside dir \<Longrightarrow>
    adds (keys_in dir s) r out s s'"
proof (induction depth arbitrary: dir out s r s')
  case 0
  then show ?case by (auto simp: adds_keys_def)
next
  case (Suc depth)
  obtain q s1 where q: "on_space (sc_list cl sp dir) s = (q, s1)" by fastforce
  then obtain w where w: "sc_list cl sp dir (st_world s) = (q, w)" "s1 = s\<lparr>st_world := w\<rparr>" using on_space_cases by blast
  have d: "docs (st_world s1) = docs (st_world s)" "st_space s1 = st_space s" using list_same [OF Suc.prems(2) w(1)] w(2) by simp_all
  have v: "view s1 = view s" by (rule view_same [OF d(1)])
  show ?case
  proof (cases q)
    case (Inl e)
    show ?thesis
    proof (cases "cs3_not_found e")
      case True
      have none: "keys_in dir s = {}"
        using list_missing [OF Suc.prems(2) w(1) [unfolded Inl] True] by (auto simp: cs3_view_def)
      show ?thesis unfolding none using Suc.prems(1) q d Inl client True by (auto simp: adds_keys_def)
    next
      case False
      then show ?thesis using Suc.prems(1) q d Inl client by (auto simp: adds_keys_def)
    qed
  next
    case (Inr es)
    note at = Suc.prems(2) w(1) [unfolded Inr] Suc.prems(3,4)
    have walk: "walk_entries (cs3_walk depth cfg sp) cfg es out s1 = (r, s')" using Suc.prems(1) q Inr client by simp
    have names: "\<exists>n. plain_name n \<and> en_path en = dir @ CHR ''/'' # n" if "en \<in> set es" for en
      using list_sound [OF at that] by blast
    have "adds (\<Union>en\<in>set es. covered s1 en) r out s1 s'"
    proof (rule walk_entries_adds [OF _ names list_distinct [OF at] Suc.prems(3,5) walk])
      show "adds (keys_in (en_path en) sa) q o1 sa sb"
        if "en \<in> set es" "en_dir en" "docs (st_world sa) = docs (st_world s1)" "cs3_walk depth cfg sp (en_path en) o1 sa = (q, sb)"
        for en o1 sa q sb
      proof (rule Suc.IH [OF that(4) Suc.prems(2)])
        note entry = names [OF that(1)]
        obtain n where n: "plain_name n" "en_path en = dir @ CHR ''/'' # n" using entry by blast
        show "plain_path (en_path en)" using n Suc.prems(3) plain_path_name by simp
        show "\<not> leaf (en_path en)" using list_sound [OF at that(1)] that(2) by simp
        show "inside (en_path en)" using n(2) Suc.prems(5) by auto
      qed
    qed simp_all
    moreover have "(\<Union>en\<in>set es. covered s1 en) = keys_in dir s" unfolding v by (rule listing_covers [OF at])
    ultimately show ?thesis using d by (simp add: adds_keys_def)
  qed
qed

lemma list_effect:
  assumes "cs3_list depth cfg p s = (r, s')" "ok s" "folder_key leaf cfg p"
  shows "view s' = view s \<and> ok s' \<and> (\<forall>e. r = Inl e \<longrightarrow> e = BackendError) \<and>
    (\<forall>ks. r = Inr ks \<longrightarrow> sorted ks \<and> distinct ks \<and> set ks = {k \<in> dom (view s). has_segment_prefix k p})"
    (is "_ \<and> _ \<and> _ \<and> (\<forall>ks. _ \<longrightarrow> _ \<and> _ \<and> _ = ?ks)")
proof -
  obtain q s1 where q: "resolve cfg s = (q, s1)" by fastforce
  note one = resolve_same [OF q assms(2)]
  have v1: "view s1 = view s" by (rule view_same [OF one(1)])
  note p = path_of_folder [OF assms(3)]
  show ?thesis
  proof (cases q)
    case (Inl e)
    then show ?thesis using assms(1) q one(2,4) v1 by (auto simp: cs3_list_def try_op_def)
  next
    case (Inr sp)
    have "cs3_walk depth cfg sp (path_for cfg p) [] s1 = (r, s')" using assms(1) q Inr by (simp add: cs3_list_def try_op_def)
    then have a: "adds (keys_in (path_for cfg p) s1) r [] s1 s'"
      by (rule walk_adds [OF _ one(3) [OF Inr] p(1,2)]) (use p(3) in auto)
    then have d: "view s' = view s" "ok s'" using one(2) v1 view_same [of s' s1] by (auto simp: adds_keys_def cs3_resolved_def)
    have "keys_in (path_for cfg p) s1 = ?ks"
    proof (cases "p = []")
      case True
      then have path: "path_for cfg p = ck_prefix cfg" using p(3) by simp
      have all: "has_segment_prefix k p" for k using True by (simp add: has_segment_prefix_def)
      show ?thesis
        by (simp only: v1 path all dom_def mem_Collect_eq append_assoc append_Cons same_append_eq list.inject simp_thms)
    next
      case False
      then have pp: "plain_path p" "\<not> leaf (ck_prefix cfg @ CHR ''/'' # p)" using assms(3) by (simp_all add: folder_key_def)
      have none: "view s p = None" using pp(2) docs_leaf unfolding cs3_view_def by (metis not_Some_eq)
      have path: "path_for cfg p = ck_prefix cfg @ CHR ''/'' # p" using p(3) False by simp
      have "k \<in> keys_in (path_for cfg p) s1 \<longleftrightarrow> k \<in> ?ks" for k
      proof -
        have "k \<in> keys_in (path_for cfg p) s1 \<longleftrightarrow> view s k \<noteq> None \<and> (\<exists>x. k = p @ CHR ''/'' # x)"
          by (simp only: mem_Collect_eq v1 path append_assoc append_Cons same_append_eq list.inject simp_thms)
        also have "\<dots> \<longleftrightarrow> view s k \<noteq> None \<and> has_segment_prefix k p"
          unfolding has_segment_prefix_iff [OF plain_path_ends(1,3) [OF pp(1)]] by (cases "k = p") (simp_all add: none)
        finally show ?thesis by (simp only: mem_Collect_eq dom_def)
      qed
      then show ?thesis by (rule set_eqI)
    qed
    then have "adds ?ks r [] s1 s'" using a by (simp only:)
    then show ?thesis unfolding adds_keys_def using d by simp
  qed
qed

lemma keeps_contract: "kv_store (within ok doc (folder_key leaf cfg) (cs3_state_store depth cfg)) view"
  apply unfold_locales
  subgoal for k s r s' using get_effect [of k s r s'] by (auto simp: within_def cs3_state_store_def split: if_splits)
  subgoal for k s v s' using get_effect [of k s "Inr v" s'] by (auto simp: within_def cs3_state_store_def split: if_splits)
  subgoal for k s e s' using get_effect [of k s "Inl e" s'] by (auto simp: within_def cs3_state_store_def split: if_splits)
  subgoal for k s e s' using get_effect [of k s "Inl e" s'] by (auto simp: within_def cs3_state_store_def split: if_splits)
  subgoal for k v s u s' using create_effect [of k v s "Inr u" s'] by (auto simp: within_def cs3_state_store_def split: if_splits)
  subgoal for k v s e s' using create_effect [of k v s "Inl e" s'] by (auto simp: within_def cs3_state_store_def split: if_splits)
  subgoal for k v s e s' using create_effect [of k v s "Inl e" s'] by (auto simp: within_def cs3_state_store_def split: if_splits)
  subgoal for k v s u s' using replace_effect [of k v s "Inr u" s'] by (auto simp: within_def cs3_state_store_def split: if_splits)
  subgoal for k v s e s' using replace_effect [of k v s "Inl e" s'] by (auto simp: within_def cs3_state_store_def split: if_splits)
  subgoal for k s u s' using remove_effect [of k s "Inr u" s'] by (auto simp: within_def cs3_state_store_def split: if_splits)
  subgoal for k s e s' using remove_effect [of k s "Inl e" s'] by (auto simp: within_def cs3_state_store_def split: if_splits)
  subgoal for k s e s' using remove_effect [of k s "Inl e" s'] by (auto simp: within_def cs3_state_store_def split: if_splits)
  subgoal for p s ls s' using list_effect [of depth p s ls s'] by (auto simp: within_def cs3_state_store_def split: if_splits)
  subgoal for p s ks s' using list_effect [of depth p s "Inr ks" s'] by (auto simp: within_def cs3_state_store_def split: if_splits)
  subgoal for p s e s' using list_effect [of depth p s "Inl e" s'] by (auto simp: within_def cs3_state_store_def split: if_splits)
  done

end

end
