(* ===== verification/Cs3_World.thy ===== *)
theory Cs3_World
  imports Cs3_Contract
begin

text \<open>
  A Space the state store can run on: its documents by path, uploads that refuse to clobber (as the \<open>fakeSpace\<close> of
  src/internal/cs3state/cs3state_test.go does) and a schedule of failures, before or after the call had its effect.
  Documents lie three names deep, a folder is there while a document lies below it. The theory interprets the
  Space's laws on it and states the store's contract as a property.
\<close>

definition state_document :: "string \<Rightarrow> bool" where
  "state_document p \<longleftrightarrow> plain_path p \<and> length (go_split p) = 3"

definition space_docs :: "bytes backend \<Rightarrow> string \<rightharpoonup> bytes" where
  "space_docs b p = (if state_document p then map_of (contents b) p else None)"

definition space_call ::
    "(bytes memory \<Rightarrow> (cs3_error + 'a) \<times> bytes memory) \<Rightarrow> (bytes backend, cs3_error, 'a) op" where
  "space_call f b =
     (case next_fault b of
        (Works, b) \<Rightarrow> (case f (contents b) of (r, m) \<Rightarrow> (r, b\<lparr>contents := m\<rparr>))
      | (FailsAfter, b) \<Rightarrow> (Inl Cs3Stalled, b\<lparr>contents := snd (f (contents b))\<rparr>)
      | (_, b) \<Rightarrow> (Inl Cs3Stalled, b))"

definition tree_child :: "string \<Rightarrow> string \<Rightarrow> cs3_entry option" where
  "tree_child d p =
     (case go_cut_prefix (d @ ''/'') p of
        None \<Rightarrow> None
      | Some r \<Rightarrow>
          (let n = takeWhile (\<lambda>c. c \<noteq> CHR ''/'') r in
           Some \<lparr>en_path = d @ CHR ''/'' # n, en_dir = (n \<noteq> r), en_size = 0, en_mtime = 0\<rparr>))"

definition tree_entries :: "string \<Rightarrow> bytes memory \<Rightarrow> cs3_entry list" where
  "tree_entries d m = remdups (List.map_filter (tree_child d) (filter state_document (map fst m)))"

definition tree_list :: "string \<Rightarrow> bytes memory \<Rightarrow> (cs3_error + cs3_entry list) \<times> bytes memory" where
  "tree_list d m = (if tree_entries d m = [] then Inl (Cs3Status ''ListContainer'' CodeNotFound) else Inr (tree_entries d m), m)"

definition tree_open :: "string \<Rightarrow> bytes memory \<Rightarrow> (cs3_error + bytes \<times> string option) \<times> bytes memory" where
  "tree_open p m = (case map_of m p of None \<Rightarrow> Inl (Cs3Status ''InitiateFileDownload'' CodeNotFound) | Some b \<Rightarrow> Inr (b, None), m)"

definition tree_upload :: "string \<Rightarrow> bytes \<Rightarrow> bytes memory \<Rightarrow> (cs3_error + unit) \<times> bytes memory" where
  "tree_upload p b m = (if map_of m p \<noteq> None then (Inl (Cs3AlreadyExists p), m) else (Inr (), AList.update p b m))"

definition tree_delete :: "string \<Rightarrow> bytes memory \<Rightarrow> (cs3_error + unit) \<times> bytes memory" where
  "tree_delete p m = (if map_of m p = None then (Inl (Cs3NotFound p), m) else (Inr (), AList.delete p m))"

definition tree_client :: "space list \<Rightarrow> bytes backend space_client" where
  "tree_client sps = \<lparr>sc_spaces = space_call (\<lambda>m. (Inr sps, m)), sc_list = (\<lambda>sp d. space_call (tree_list d)),
     sc_open = (\<lambda>sp p k. space_call (tree_open p)), sc_mkdir = (\<lambda>sp d. space_call (\<lambda>m. (Inr (), m))),
     sc_upload = (\<lambda>sp p len t b. space_call (tree_upload p b)), sc_delete = (\<lambda>sp p. space_call (tree_delete p))\<rparr>"

lemma space_call_cases:
  assumes "space_call f b = (r, b')"
  shows "(f (contents b) = (r, contents b')) \<or> (r = Inl Cs3Stalled \<and> (contents b' = contents b \<or> contents b' = snd (f (contents b))))"
proof -
  obtain u c where n: "next_fault b = (u, c)" by fastforce
  show ?thesis using assms next_fault_contents [OF n] by (cases u) (auto simp: space_call_def n split: prod.splits)
qed

lemma stalled_verdicts: "\<not> cs3_not_found Cs3Stalled" "\<not> already_exists Cs3Stalled"
  by code_simp+

lemma not_found_verdicts: "\<not> already_exists (Cs3Status x CodeNotFound)" "\<not> already_exists (Cs3NotFound p)"
  by (simp_all add: already_exists_def)

lemma cut_child: "go_cut_prefix (d @ ''/'') (d @ CHR ''/'' # r) = Some r"
  by (simp add: go_cut_prefix_Some)

lemma tree_child_Some:
  "tree_child d p = Some en \<longleftrightarrow> (\<exists>r. p = d @ CHR ''/'' # r \<and> en = \<lparr>en_path = d @ CHR ''/'' # takeWhile (\<lambda>c. c \<noteq> CHR ''/'') r,
     en_dir = (takeWhile (\<lambda>c. c \<noteq> CHR ''/'') r \<noteq> r), en_size = 0, en_mtime = 0\<rparr>)"
  by (auto simp: tree_child_def go_cut_prefix_Some cut_child Let_def split: option.splits)

lemma tree_entries_iff:
  "en \<in> set (tree_entries d m) \<longleftrightarrow> (\<exists>r. state_document (d @ CHR ''/'' # r) \<and> map_of m (d @ CHR ''/'' # r) \<noteq> None \<and>
     tree_child d (d @ CHR ''/'' # r) = Some en)"
proof -
  have "en \<in> set (tree_entries d m) \<longleftrightarrow> (\<exists>p. state_document p \<and> map_of m p \<noteq> None \<and> tree_child d p = Some en)"
    by (force simp: tree_entries_def List.map_filter_def map_of_eq_None_iff)
  also have "\<dots> \<longleftrightarrow> (\<exists>r. state_document (d @ CHR ''/'' # r) \<and> map_of m (d @ CHR ''/'' # r) \<noteq> None \<and>
     tree_child d (d @ CHR ''/'' # r) = Some en)"
    using tree_child_Some by metis
  finally show ?thesis .
qed

lemma document_top: "state_document (d @ CHR ''/'' # r) \<Longrightarrow> \<not> state_document d"
  by (auto simp: state_document_def go_split_slash)

lemma child_named:
  assumes "state_document (d @ CHR ''/'' # r)" "tree_child d (d @ CHR ''/'' # r) = Some en"
  obtains n where "plain_name n" "en_path en = d @ CHR ''/'' # n" "en_size en = 0" "en_mtime en = 0"
    "if en_dir en then \<exists>y. r = n @ CHR ''/'' # y else r = n"
proof -
  let ?n = "takeWhile (\<lambda>c. c \<noteq> CHR ''/'') r"
  have en: "en = \<lparr>en_path = d @ CHR ''/'' # ?n, en_dir = (?n \<noteq> r), en_size = 0, en_mtime = 0\<rparr>"
    using assms(2) by (simp add: tree_child_def cut_child Let_def)
  have r: "plain_path r" using assms(1) by (simp add: state_document_def)
  show thesis
  proof (rule that)
    show "plain_name ?n" by (rule plain_path_first(1) [OF r])
    show "if en_dir en then \<exists>y. r = ?n @ CHR ''/'' # y else r = ?n"
    proof (cases "?n = r")
      case True
      then show ?thesis unfolding en by (simp only: cs3_entry.simps simp_thms if_False)
    next
      case False
      then have "\<exists>y. r = ?n @ CHR ''/'' # y" using plain_path_first(2) [OF r] by blast
      then show ?thesis using False unfolding en by (simp only: cs3_entry.simps simp_thms if_True)
    qed
  qed (simp_all add: en)
qed

lemma tree_entry:
  assumes "en \<in> set (tree_entries d m)"
  obtains n where "plain_name n" "en_path en = d @ CHR ''/'' # n" "en_size en = 0" "en_mtime en = 0"
    "if en_dir en then \<not> state_document (en_path en) \<and> (\<exists>y. state_document (en_path en @ CHR ''/'' # y))
     else state_document (en_path en) \<and> map_of m (en_path en) \<noteq> None"
proof -
  obtain r where r: "state_document (d @ CHR ''/'' # r)" "map_of m (d @ CHR ''/'' # r) \<noteq> None" "tree_child d (d @ CHR ''/'' # r) = Some en"
    using assms tree_entries_iff by blast
  obtain n where n: "plain_name n" "en_path en = d @ CHR ''/'' # n" "en_size en = 0" "en_mtime en = 0"
    "if en_dir en then \<exists>y. r = n @ CHR ''/'' # y else r = n" by (rule child_named [OF r(1,3)])
  show thesis
  proof (cases "en_dir en")
    case True
    then obtain y where "r = n @ CHR ''/'' # y" using n(5) by auto
    then have "state_document (en_path en @ CHR ''/'' # y)" using r(1) n(2) by simp
    then show thesis using that [OF n(1-4)] True document_top by auto
  next
    case False
    then show thesis using that [OF n(1-4)] r n(2,5) by auto
  qed
qed

lemma tree_entries_distinct: "distinct (map en_path (tree_entries d m))"
proof -
  have "inj_on en_path (set (tree_entries d m))"
  proof (rule inj_onI)
    fix a b
    assume a: "a \<in> set (tree_entries d m)" and b: "b \<in> set (tree_entries d m)" and eq: "en_path a = en_path b"
    have "en_dir a = en_dir b" by (rule tree_entry [OF a], rule tree_entry [OF b]) (auto simp: eq split: if_splits dest: document_top)
    moreover have "en_size a = en_size b \<and> en_mtime a = en_mtime b" by (rule tree_entry [OF a], rule tree_entry [OF b]) simp
    ultimately show "a = b" using eq by (cases a, cases b) simp
  qed
  then show ?thesis by (simp add: distinct_map tree_entries_def)
qed

lemma tree_entries_file:
  assumes "state_document (d @ CHR ''/'' # n)" "map_of m (d @ CHR ''/'' # n) \<noteq> None" "plain_name n"
  shows "\<exists>en\<in>set (tree_entries d m). \<not> en_dir en \<and> en_path en = d @ CHR ''/'' # n"
proof -
  have "takeWhile (\<lambda>c. c \<noteq> CHR ''/'') n = n" using assms(3) by (auto simp: plain_name_def)
  then have "tree_child d (d @ CHR ''/'' # n) = Some \<lparr>en_path = d @ CHR ''/'' # n, en_dir = False, en_size = 0, en_mtime = 0\<rparr>"
    by (simp add: tree_child_def cut_child Let_def)
  then show ?thesis using assms(1,2) tree_entries_iff by (intro bexI) auto
qed

lemma tree_entries_folder:
  assumes "state_document (d @ CHR ''/'' # n @ CHR ''/'' # r)" "map_of m (d @ CHR ''/'' # n @ CHR ''/'' # r) \<noteq> None" "plain_name n"
  shows "\<exists>en\<in>set (tree_entries d m). en_dir en \<and> en_path en = d @ CHR ''/'' # n"
proof -
  have "takeWhile (\<lambda>c. c \<noteq> CHR ''/'') (n @ CHR ''/'' # r) = n"
    using assms(3) by (subst takeWhile_append2) (auto simp: plain_name_def)
  then have "tree_child d (d @ CHR ''/'' # n @ CHR ''/'' # r) = Some \<lparr>en_path = d @ CHR ''/'' # n, en_dir = True, en_size = 0, en_mtime = 0\<rparr>"
    by (simp only: tree_child_def cut_child Let_def option.case) simp
  then show ?thesis using assms(1,2) tree_entries_iff by (intro bexI) auto
qed

lemma tree_entries_none: "state_document (d @ CHR ''/'' # r) \<Longrightarrow> map_of m (d @ CHR ''/'' # r) \<noteq> None \<Longrightarrow> tree_entries d m \<noteq> []"
proof -
  assume a: "state_document (d @ CHR ''/'' # r)" "map_of m (d @ CHR ''/'' # r) \<noteq> None"
  obtain en where "tree_child d (d @ CHR ''/'' # r) = Some en" by (simp add: tree_child_def cut_child Let_def)
  then have "en \<in> set (tree_entries d m)" using a tree_entries_iff by blast
  then show ?thesis by auto
qed

subsection \<open>The laws hold on it\<close>

lemma space_docs_same: "contents b' = contents b \<Longrightarrow> space_docs b' = space_docs b"
  by (simp add: space_docs_def fun_eq_iff)

lemma space_docs_put: "state_document p \<Longrightarrow> contents b' = AList.update p v (contents b) \<Longrightarrow> space_docs b' = (space_docs b)(p \<mapsto> v)"
  by (auto simp: space_docs_def fun_eq_iff update_conv)

lemma space_docs_drop: "state_document p \<Longrightarrow> contents b' = AList.delete p (contents b) \<Longrightarrow> space_docs b' = (space_docs b)(p := None)"
  by (auto simp: space_docs_def fun_eq_iff delete_conv)

lemma space_call_reads:
  assumes "space_call f b = (r, b')" "\<And>m. snd (f m) = m"
  shows "space_docs b' = space_docs b" "r = fst (f (contents b)) \<or> r = Inl Cs3Stalled"
proof -
  have "snd (f (contents b)) = contents b" by (rule assms(2))
  then show "space_docs b' = space_docs b"
    using space_call_cases [OF assms(1)] space_docs_same by (metis snd_conv)
  show "r = fst (f (contents b)) \<or> r = Inl Cs3Stalled" using space_call_cases [OF assms(1)] by (metis fst_conv)
qed

lemma tree_list_call:
  assumes "space_call (tree_list d) b = (r, b')"
  shows "space_docs b' = space_docs b" "\<And>es. r = Inr es \<Longrightarrow> es = tree_entries d (contents b)"
    "\<And>e. r = Inl e \<Longrightarrow> cs3_not_found e \<Longrightarrow> tree_entries d (contents b) = []"
proof -
  have pure: "snd (tree_list d m) = m" for m by (simp add: tree_list_def)
  note r = space_call_reads [OF assms pure]
  show "space_docs b' = space_docs b" by (rule r(1))
  show "es = tree_entries d (contents b)" if "r = Inr es" for es using r(2) that by (auto simp: tree_list_def split: if_splits)
  show "tree_entries d (contents b) = []" if "r = Inl e" "cs3_not_found e" for e
    using r(2) that stalled_verdicts(1) by (auto simp: tree_list_def split: if_splits)
qed

lemma tree_open_call:
  assumes "space_call (tree_open p) b = (r, b')"
  shows "space_docs b' = space_docs b" "\<And>v z. r = Inr (v, z) \<Longrightarrow> map_of (contents b) p = Some v"
    "\<And>e. r = Inl e \<Longrightarrow> cs3_not_found e \<Longrightarrow> map_of (contents b) p = None"
proof -
  have pure: "snd (tree_open p m) = m" for m by (simp add: tree_open_def)
  note r = space_call_reads [OF assms pure]
  show "space_docs b' = space_docs b" by (rule r(1))
  show "map_of (contents b) p = Some v" if "r = Inr (v, z)" for v z
    using r(2) that by (auto simp: tree_open_def split: option.splits)
  show "map_of (contents b) p = None" if "r = Inl e" "cs3_not_found e" for e
    using r(2) that stalled_verdicts(1) by (auto simp: tree_open_def split: option.splits)
qed

lemma tree_upload_call:
  assumes "space_call (tree_upload p v) b = (r, b')" "state_document p"
  shows "r = Inr u \<Longrightarrow> space_docs b' = (space_docs b)(p \<mapsto> v)"
    "r = Inl e \<Longrightarrow> space_docs b' = space_docs b \<or> space_docs b' = (space_docs b)(p \<mapsto> v)"
    "r = Inl e \<Longrightarrow> already_exists e \<Longrightarrow> space_docs b p \<noteq> None \<and> space_docs b' = space_docs b"
proof -
  note put = space_docs_put [OF assms(2), of b' v b] and same = space_docs_same [of b' b]
  note call = space_call_cases [OF assms(1), unfolded tree_upload_def]
  show "space_docs b' = (space_docs b)(p \<mapsto> v)" if "r = Inr u" using call that put by (auto split: if_splits)
  show "space_docs b' = space_docs b \<or> space_docs b' = (space_docs b)(p \<mapsto> v)" if "r = Inl e"
    using call that put same by (auto split: if_splits)
  show "space_docs b p \<noteq> None \<and> space_docs b' = space_docs b" if "r = Inl e" "already_exists e"
    using call that same stalled_verdicts(2) assms(2) by (auto simp: space_docs_def split: if_splits)
qed

lemma tree_delete_call:
  assumes "space_call (tree_delete p) b = (r, b')" "state_document p"
  shows "r = Inr u \<Longrightarrow> space_docs b p \<noteq> None \<and> space_docs b' = (space_docs b)(p := None)"
    "r = Inl e \<Longrightarrow> space_docs b' = space_docs b \<or> space_docs b' = (space_docs b)(p := None)"
    "r = Inl e \<Longrightarrow> cs3_not_found e \<Longrightarrow> space_docs b p = None \<and> space_docs b' = space_docs b"
proof -
  note drop = space_docs_drop [OF assms(2), of b' b] and same = space_docs_same [of b' b]
  note call = space_call_cases [OF assms(1), unfolded tree_delete_def]
  show "space_docs b p \<noteq> None \<and> space_docs b' = (space_docs b)(p := None)" if "r = Inr u"
    using call that drop assms(2) by (auto simp: space_docs_def split: if_splits)
  show "space_docs b' = space_docs b \<or> space_docs b' = (space_docs b)(p := None)" if "r = Inl e"
    using call that drop same by (auto split: if_splits)
  show "space_docs b p = None \<and> space_docs b' = space_docs b" if "r = Inl e" "cs3_not_found e"
    using call that same stalled_verdicts(1) assms(2) by (auto simp: space_docs_def split: if_splits)
qed

interpretation tree: space_tree "tree_client sps" space_docs i state_document for sps i
proof
  fix w p b
  assume "space_docs w p = Some b"
  then show "state_document p \<and> plain_path p" by (simp add: space_docs_def state_document_def split: if_splits)
next
  fix d r
  assume "state_document (d @ CHR ''/'' # r)"
  then show "\<not> state_document d" by (rule document_top)
next
  fix w q w'
  assume "sc_spaces (tree_client sps) w = (q, w')"
  then show "space_docs w' = space_docs w" using space_call_reads(1) [of "\<lambda>m. (Inr sps, m)" w q w'] by (simp add: tree_client_def)
next
  fix sp d w l w'
  assume "sc_list (tree_client sps) sp d w = (l, w')"
  then show "space_docs w' = space_docs w" using tree_list_call(1) by (simp add: tree_client_def)
next
  fix sp d w e w' r
  assume a: "sc_list (tree_client sps) sp d w = (Inl e, w')" "cs3_not_found e"
  then have "tree_entries d (contents w) = []" using tree_list_call(3) [of d w "Inl e" w' e] by (simp add: tree_client_def)
  then show "space_docs w (d @ CHR ''/'' # r) = None"
    using tree_entries_none [of d r "contents w"]
    by (cases "map_of (contents w) (d @ CHR ''/'' # r)") (auto simp: space_docs_def)
next
  fix sp d w es w'
  assume "sc_list (tree_client sps) sp d w = (Inr es, w')"
  then have "es = tree_entries d (contents w)" using tree_list_call(2) [of d w "Inr es" w' es] by (simp add: tree_client_def)
  then show "distinct (map en_path es)" using tree_entries_distinct by simp
next
  fix sp d w es w' en
  assume "sc_list (tree_client sps) sp d w = (Inr es, w')" "en \<in> set es"
  then have "en \<in> set (tree_entries d (contents w))" using tree_list_call(2) [of d w "Inr es" w' es] by (simp add: tree_client_def)
  then obtain n where n: "plain_name n" "en_path en = d @ CHR ''/'' # n" "en_size en = 0" "en_mtime en = 0"
    "if en_dir en then \<not> state_document (en_path en) \<and> (\<exists>y. state_document (en_path en @ CHR ''/'' # y))
     else state_document (en_path en) \<and> map_of (contents w) (en_path en) \<noteq> None" by (rule tree_entry)
  show "(\<exists>n. plain_name n \<and> en_path en = d @ CHR ''/'' # n) \<and>
    (if en_dir en then \<not> state_document (en_path en) else space_docs w (en_path en) \<noteq> None)"
    using n by (cases "en_dir en") (auto simp: space_docs_def)
next
  fix sp d w es w' n r
  assume "sc_list (tree_client sps) sp d w = (Inr es, w')" and n: "plain_name n"
  then have es: "es = tree_entries d (contents w)" using tree_list_call(2) [of d w "Inr es" w' es] by (simp add: tree_client_def)
  show "(space_docs w (d @ CHR ''/'' # n) \<noteq> None \<longrightarrow> (\<exists>e\<in>set es. \<not> en_dir e \<and> en_path e = d @ CHR ''/'' # n)) \<and>
    (space_docs w (d @ CHR ''/'' # n @ CHR ''/'' # r) \<noteq> None \<longrightarrow> (\<exists>e\<in>set es. en_dir e \<and> en_path e = d @ CHR ''/'' # n))"
    unfolding es using tree_entries_file [OF _ _ n] tree_entries_folder [OF _ _ n] by (auto simp: space_docs_def split: if_splits)
next
  fix sp p k w o1 w'
  assume "sc_open (tree_client sps) sp p k w = (o1, w')"
  then show "space_docs w' = space_docs w" using tree_open_call(1) by (simp add: tree_client_def)
next
  fix sp p w b w'
  assume "state_document p" "sc_open (tree_client sps) sp p 0 w = (Inr (b, None), w')"
  then show "space_docs w p = Some b" using tree_open_call(2) by (simp add: tree_client_def space_docs_def)
next
  fix sp p w e w'
  assume "state_document p" "sc_open (tree_client sps) sp p 0 w = (Inl e, w')" "cs3_not_found e"
  then show "space_docs w p = None" using tree_open_call(3) by (simp add: tree_client_def space_docs_def)
next
  fix sp d w u w'
  assume "sc_mkdir (tree_client sps) sp d w = (u, w')"
  then show "space_docs w' = space_docs w" using space_call_reads(1) [of "\<lambda>m. (Inr (), m)" w u w'] by (simp add: tree_client_def)
next
  fix sp p t b w x w'
  assume "state_document p" "sc_upload (tree_client sps) sp p (int (length b)) t b w = (Inr x, w')"
  then show "space_docs w' = (space_docs w)(p \<mapsto> b)" using tree_upload_call(1) by (simp add: tree_client_def)
next
  fix sp p t b w e w'
  assume "state_document p" "sc_upload (tree_client sps) sp p (int (length b)) t b w = (Inl e, w')" "already_exists e"
  then show "space_docs w p \<noteq> None \<and> space_docs w' = space_docs w" using tree_upload_call(3) by (simp add: tree_client_def)
next
  fix sp p t b w e w'
  assume "state_document p" "sc_upload (tree_client sps) sp p (int (length b)) t b w = (Inl e, w')"
  then show "space_docs w' = space_docs w \<or> space_docs w' = (space_docs w)(p \<mapsto> b)" using tree_upload_call(2) by (simp add: tree_client_def)
next
  fix sp p w x w'
  assume "state_document p" "sc_delete (tree_client sps) sp p w = (Inr x, w')"
  then show "space_docs w p \<noteq> None \<and> space_docs w' = (space_docs w)(p := None)" using tree_delete_call(1) by (simp add: tree_client_def)
next
  fix sp p w e w'
  assume "state_document p" "sc_delete (tree_client sps) sp p w = (Inl e, w')" "cs3_not_found e"
  then show "space_docs w p = None \<and> space_docs w' = space_docs w" using tree_delete_call(3) by (simp add: tree_client_def)
next
  fix sp p w e w'
  assume "state_document p" "sc_delete (tree_client sps) sp p w = (Inl e, w')"
  then show "space_docs w' = space_docs w \<or> space_docs w' = (space_docs w)(p := None)" using tree_delete_call(2) by (simp add: tree_client_def)
qed

definition tree_config :: "space list \<Rightarrow> string \<Rightarrow> string \<Rightarrow> bytes backend cs3_config" where
  "tree_config sps i account = \<lparr>ck_client = tree_client sps, ck_space = i, ck_prefix = default_state_prefix, ck_account = account\<rparr>"

interpretation tree_store: cs3_space "tree_client sps" space_docs i state_document "tree_config sps i account" for sps i account
proof
  show "plain_path (ck_prefix (tree_config sps i account))" unfolding tree_config_def cs3_config.simps by code_simp
qed (simp_all add: tree_config_def)

subsection \<open>Properties\<close>

text \<open>C9: Over a Space whose calls keep the laws of a tree of documents, whatever of them fails, the state store used with
  well-formed document and folder keys keeps the contract every durable collection rests on: creates never overwrite,
  a failed call leaves the old or the new value (a replacement possibly neither), and a listing is the sorted,
  complete list of the keys under its prefix.\<close>

theorem cs3_store_keeps_contract:
  assumes "cs3_space cl docs i leaf cfg"
  shows "kv_store (within (cs3_resolved cfg) (document_key leaf cfg) (folder_key leaf cfg) (cs3_state_store depth cfg))
    (cs3_view docs cfg)"
  using assms by (rule cs3_space.keeps_contract)

lemma cs3_store_keeps_contract_witness:
  "kv_store (within (cs3_resolved (tree_config [] ''s1'' ''svc'')) (document_key state_document (tree_config [] ''s1'' ''svc''))
     (folder_key state_document (tree_config [] ''s1'' ''svc'')) (cs3_state_store 9 (tree_config [] ''s1'' ''svc'')))
   (cs3_view space_docs (tree_config [] ''s1'' ''svc''))"
  by (rule cs3_store_keeps_contract [OF tree_store.cs3_space_axioms])

definition demo_space :: space where
  "demo_space = \<lparr>sp_id = ''s1'', sp_name = ''State'', sp_type = ''project'', sp_owner = [],
     sp_root = \<lparr>rid_storage = ''s1'', rid_space = ''s1'', rid_opaque = ''s1''\<rparr>, sp_members = []\<rparr>"

definition demo_store :: "bytes backend cs3_store" where
  "demo_store = \<lparr>st_world = \<lparr>contents = [(''.backup-service-state/jobs/a'', [1, 2])], faults = [Works, FailsAfter]\<rparr>,
     st_space = Some demo_space, st_dirs = []\<rparr>"

text \<open>Creating a document under a key that is taken changes nothing the store holds, however the calls on the
  Space fail and whether or not its uploads overwrite.\<close>

lemma cs3_create_never_overwrites:
  assumes "cs3_space cl docs i leaf cfg" "cs3_resolved cfg s" "document_key leaf cfg k"
    and "cs3_view docs cfg s k = Some old" "cs3_create cfg k v s = (r, s')"
  shows "cs3_view docs cfg s' = cs3_view docs cfg s \<and> (\<exists>e. r = Inl e)"
  using cs3_space.create_effect [OF assms(1,5,2,3)] assms(4) by (cases r) auto

text \<open>C27: The service's state is not kept where a user can reach it. A Space that passes the check is not a personal
  one, is the configured one, and has nobody among its members but the service's own account.\<close>

theorem state_space_is_private:
  assumes "cs3_check cfg s = (Inr u, s')" "cs3_resolved cfg s"
  shows "\<exists>sp. st_space s' = Some sp \<and> sp_id sp = ck_space cfg \<and> sp_type sp \<noteq> space_type_personal \<and>
    (\<forall>m\<in>set (sp_members sp). ck_account cfg \<noteq> [] \<and> fst m = ck_account cfg)"
proof -
  obtain q s1 where q: "resolve cfg s = (q, s1)" by fastforce
  then obtain sp where sp: "q = Inr sp" using assms(1) by (cases q) (auto simp: cs3_check_def try_op_def)
  have "st_space s1 = Some sp \<and> sp_id sp = ck_space cfg"
    using q sp assms(2) by (auto simp: resolve_def cs3_resolved_def on_space_def find_Some_iff split: option.splits sum.splits prod.splits)
  moreover have "s' = s1" "sp_type sp \<noteq> space_type_personal" "foreign_member_count cfg sp = 0"
    using assms(1) q sp by (auto simp: cs3_check_def try_op_def ok_op_def fail_op_def split: if_splits)
  ultimately show ?thesis by (auto simp: foreign_member_count_def filter_empty_conv)
qed

lemma state_space_is_private_witness:
  "\<exists>sp. st_space (snd (cs3_check (tree_config [] ''s1'' ''svc'') demo_store)) = Some sp \<and> sp_type sp \<noteq> space_type_personal"
proof -
  have "cs3_check (tree_config [] ''s1'' ''svc'') demo_store = (Inr (), demo_store)" by code_simp
  moreover have "cs3_resolved (tree_config [] ''s1'' ''svc'') demo_store" by code_simp
  ultimately show ?thesis using state_space_is_private by fastforce
qed

text \<open>A read from an offset gives the same bytes whether the server honours ranges or sends the whole file.\<close>

lemma stream_offset:
  assumes "0 \<le> offset" "nat offset \<le> length file"
    and "dt_get (cc_gw cc) \<lparr>dr_url = endpoint, dr_access = access, dr_transfer = (if transfer = [] then None else Some transfer),
      dr_range = (if offset > 0 then Some offset else None), dr_length = 0, dr_mtime = None\<rparr> (cl_world c) = (Inr (status, body, broken), w)"
    and "status = 206 \<and> body = drop (nat offset) file \<or> status = 200 \<and> body = file"
  shows "stream_from cc endpoint access transfer offset c = (Inr (drop (nat offset) file, broken), c\<lparr>cl_world := w\<rparr>)"
  using assms by (auto simp: stream_from_def try_op_def on_world_def)

end
