(* ===== verification/Api_Http.thy ===== *)
theory Api_Http
  imports Cs3_Access Go_Dates Sched_Cron
begin

text \<open>
  What every HTTP handler of src/internal/api shares: responses and the error envelope (api.go), the only way a
  request body is read (decode.go), the role gate as a handler uses it (access.go), request ids (observe.go) and how
  times are written. A response is its status and its JSON body; the log line of a request and the headers that are the
  same on every response are left out. What the JSON decoder makes of a body is a parameter of each request type.
\<close>

subsection \<open>Responses\<close>

datatype json = JBool bool | JInt int | JStr string | JList "json list" | JObj "(string \<times> json) list"

record response =
  rs_status :: nat
  rs_body :: "json option"

text \<open>A handler answers and leaves the world changed.\<close>

type_synonym 'w handler = "'w \<Rightarrow> response \<times> 'w"

definition write_json :: "nat \<Rightarrow> json \<Rightarrow> response" where
  "write_json status v = \<lparr>rs_status = status, rs_body = Some v\<rparr>"

definition error_body :: "string \<Rightarrow> string \<Rightarrow> json" where
  "error_body code message = JObj [(''error'', JObj [(''code'', JStr code), (''message'', JStr message)])]"

definition write_error :: "nat \<Rightarrow> string \<Rightarrow> string \<Rightarrow> response" where
  "write_error status code message = write_json status (error_body code message)"

text \<open>\<open>omitempty\<close>.\<close>

definition opt_str :: "string \<Rightarrow> string \<Rightarrow> (string \<times> json) list" where
  "opt_str name v = (if v = [] then [] else [(name, JStr v)])"

definition opt_int :: "string \<Rightarrow> int \<Rightarrow> (string \<times> json) list" where
  "opt_int name v = (if v = 0 then [] else [(name, JInt v)])"

text \<open>\<open>Format("2006-01-02T15:04:05Z")\<close> in UTC, empty for the zero time.\<close>

definition format_time :: "time \<Rightarrow> string" where
  "format_time t =
     (if is_zero_time t then []
      else case (civil_date t, civil_clock t) of ((y, m, d), (h, mi, s)) \<Rightarrow>
        append_int 4 y @ ''-'' @ append_int 2 m @ ''-'' @ append_int 2 d @ ''T'' @
        append_int 2 h @ '':'' @ append_int 2 mi @ '':'' @ append_int 2 s @ ''Z'')"

subsection \<open>Requests\<close>

record identity =
  id_subject :: string
  id_user :: string
  id_expiry :: time
  id_username :: string
  id_token :: string

record request =
  rq_identity :: "identity option"
  rq_admin :: bool
  rq_space :: string
  rq_target :: string
  rq_job :: string
  rq_limit :: string
  rq_content_type :: "string list"
  rq_body :: string

text \<open>The JSON decoder under a size limit: its first value, and what a second read finds after it.\<close>

datatype 'r first_value = FirstTooLarge | FirstMalformed | FirstValue 'r
datatype second_value = AtEnd | SecondTooLarge | SecondMalformed | SecondValue

type_synonym 'r body_decoder = "nat \<Rightarrow> string \<Rightarrow> 'r first_value \<times> second_value"

definition lower_char :: "char \<Rightarrow> char" where
  "lower_char c = (if 65 \<le> (of_char c :: nat) \<and> (of_char c :: nat) \<le> 90 then char_of (of_char c + 32 :: nat) else c)"

definition equal_fold :: "string \<Rightarrow> string \<Rightarrow> bool" where
  "equal_fold a b \<longleftrightarrow> map lower_char a = map lower_char b"

text \<open>\<open>mime.ParseMediaType\<close> is a parameter: the media type and its parameters, if the value parses.\<close>

type_synonym mime_parser = "string \<Rightarrow> (string \<times> (string \<times> string) list) option"

definition declares_json :: "mime_parser \<Rightarrow> string list \<Rightarrow> bool" where
  "declares_json mime values \<longleftrightarrow>
     (case values of
        [v] \<Rightarrow>
          (case mime v of
             None \<Rightarrow> False
           | Some (media, params) \<Rightarrow>
               media = ''application/json'' \<and>
               (case map_of params ''charset'' of None \<Rightarrow> True | Some c \<Rightarrow> equal_fold c ''utf-8''))
      | _ \<Rightarrow> False)"

definition payload_too_large :: response where
  "payload_too_large = write_error 413 ''payload_too_large'' ''request body too large''"

definition malformed_body :: response where
  "malformed_body = write_error 400 ''bad_request'' ''malformed request body''"

definition expect_eof :: "second_value \<Rightarrow> response option" where
  "expect_eof v =
     (case v of AtEnd \<Rightarrow> None | SecondTooLarge \<Rightarrow> Some payload_too_large | SecondMalformed \<Rightarrow> Some malformed_body
      | SecondValue \<Rightarrow> Some malformed_body)"

definition decode_json_body :: "mime_parser \<Rightarrow> 'r body_decoder \<Rightarrow> nat \<Rightarrow> request \<Rightarrow> response + 'r" where
  "decode_json_body mime dec limit rq =
     (if \<not> declares_json mime (rq_content_type rq)
      then Inl (write_error 415 ''unsupported_media_type'' ''request body must be declared as application/json'')
      else case dec limit (rq_body rq) of
          (FirstTooLarge, _) \<Rightarrow> Inl payload_too_large
        | (FirstMalformed, _) \<Rightarrow> Inl malformed_body
        | (FirstValue v, rest) \<Rightarrow> (case expect_eof rest of Some r \<Rightarrow> Inl r | None \<Rightarrow> Inr v))"

text \<open>\<open>?limit=\<close>, which \<open>strconv.Atoi\<close> reads.\<close>

definition default_history_limit :: int where "default_history_limit = 50"
definition max_history_limit :: int where "max_history_limit = 200"

definition parse_limit :: "request \<Rightarrow> response + int" where
  "parse_limit rq =
     (if rq_limit rq = [] then Inr default_history_limit
      else case parse_int64 (rq_limit rq) of
          None \<Rightarrow> Inl (write_error 400 ''bad_request'' ''limit must be a positive integer'')
        | Some n \<Rightarrow>
            if n < 1 then Inl (write_error 400 ''bad_request'' ''limit must be a positive integer'')
            else Inr (if n > max_history_limit then max_history_limit else n))"

subsection \<open>Request ids\<close>

definition max_request_id_len :: nat where "max_request_id_len = 128"

definition request_id_char :: "char \<Rightarrow> bool" where
  "request_id_char c \<longleftrightarrow>
     (let n = of_char c :: nat in 97 \<le> n \<and> n \<le> 122 \<or> 65 \<le> n \<and> n \<le> 90 \<or> 48 \<le> n \<and> n \<le> 57 \<or> c \<in> set ''._:-'')"

definition valid_request_id :: "string \<Rightarrow> bool" where
  "valid_request_id i \<longleftrightarrow> i \<noteq> [] \<and> length i \<le> max_request_id_len \<and> list_all request_id_char i"

definition request_id_from :: "string \<Rightarrow> string \<Rightarrow> string" where
  "request_id_from header fresh = (if valid_request_id header then header else fresh)"

subsection \<open>The gates\<close>

record 'w gate =
  ga_access :: "'w access_deps"
  ga_now :: "'w \<Rightarrow> time"
  ga_mime :: mime_parser

definition access_response :: "access_error \<Rightarrow> response" where
  "access_response e =
     (case e of
        MissingIdentity \<Rightarrow> write_error 401 ''unauthorized'' ''missing identity''
      | MissingSpaceId \<Rightarrow> write_error 400 ''bad_request'' ''missing space id''
      | AuthorizationUnavailable \<Rightarrow> write_error 500 ''internal_error'' ''authorization unavailable''
      | SpacesNotConfigured \<Rightarrow> write_error 503 ''unavailable'' ''space backend not configured''
      | GroupsUnavailable \<Rightarrow> write_error 503 ''unavailable'' ''group membership cannot be verified''
      | Forbidden m \<Rightarrow> write_error 403 ''forbidden'' m
      | SpacesUpstream t \<Rightarrow> write_error 502 ''upstream_error'' ''could not verify space membership''
      | GroupsUpstream t \<Rightarrow> write_error 502 ''upstream_error'' ''could not verify space membership'')"

definition rq_user :: "request \<Rightarrow> string" where
  "rq_user rq = (case rq_identity rq of None \<Rightarrow> [] | Some i \<Rightarrow> id_user i)"

text \<open>\<open>withAccess\<close> gives an identified request a checker; the world the checks leave behind goes on.\<close>

definition with_access :: "'w gate \<Rightarrow> request \<Rightarrow> 'w \<Rightarrow> 'w checker option" where
  "with_access g rq w =
     (case rq_identity rq of None \<Rightarrow> None | Some i \<Rightarrow> Some (new_checker w (id_user i) (ga_now g w)))"

definition checked_world :: "'w \<Rightarrow> 'w checker option \<Rightarrow> 'w" where
  "checked_world w c = (case c of None \<Rightarrow> w | Some a \<Rightarrow> ac_world a)"

text \<open>
  A step of a handler is an operation whose error is the response it answers with; \<open>respond\<close> runs one to its end.
\<close>

type_synonym ('w, 'a) step = "('w, response, 'a) op"

definition respond :: "('w, response) step \<Rightarrow> 'w handler" where
  "respond f w = (case f w of (Inl r, w) \<Rightarrow> (r, w) | (Inr r, w) \<Rightarrow> (r, w))"

definition with_role :: "'w gate \<Rightarrow> int \<Rightarrow> request \<Rightarrow> ('w, string) step" where
  "with_role g least rq w =
     (case require_role (ga_access g) (rq_identity rq \<noteq> None) (rq_space rq) least (with_access g rq w) of
        (Inl e, c) \<Rightarrow> (Inl (access_response e), checked_world w c)
      | (Inr sp, c) \<Rightarrow> (Inr sp, checked_world w c))"

definition pass :: "response + 'a \<Rightarrow> ('w, 'a) step" where
  "pass r w = (r, w)"

definition unavailable :: "string \<Rightarrow> response" where
  "unavailable message = write_error 503 ''unavailable'' message"

definition present_or :: "response \<Rightarrow> 'a option \<Rightarrow> ('w, 'a) step" where
  "present_or r x = (case x of None \<Rightarrow> fail_op r | Some y \<Rightarrow> ok_op y)"

definition refuse_if :: "bool \<Rightarrow> response \<Rightarrow> ('w, 'a) step \<Rightarrow> ('w, 'a) step" where
  "refuse_if b r f = (if b then fail_op r else f)"

definition internal_error :: "string \<Rightarrow> 'e \<Rightarrow> response" where
  "internal_error message e = write_error 500 ''internal_error'' message"

definition body_of :: "'w gate \<Rightarrow> 'r body_decoder \<Rightarrow> nat \<Rightarrow> request \<Rightarrow> ('w, 'r) step" where
  "body_of g dec limit rq = pass (decode_json_body (ga_mime g) dec limit rq)"

subsection \<open>What a step leaves alone\<close>

definition keeps :: "('w \<Rightarrow> bool) \<Rightarrow> ('w, 'e, 'a) op \<Rightarrow> bool" where
  "keeps P f \<longleftrightarrow> (\<forall>w r w'. f w = (r, w') \<longrightarrow> P w \<longrightarrow> P w')"

named_theorems keep "steps that keep a predicate of the world"

lemma keepsD: "keeps P f \<Longrightarrow> f w = (r, w') \<Longrightarrow> P w \<Longrightarrow> P w'"
  by (auto simp: keeps_def)

lemma keepsI: "(\<And>w r w'. f w = (r, w') \<Longrightarrow> P w \<Longrightarrow> P w') \<Longrightarrow> keeps P f"
  by (auto simp: keeps_def)

lemma keeps_try [keep]:
  assumes "keeps P f" "\<And>x. keeps P (K x)" shows "keeps P (try_op e f K)"
proof (rule keepsI)
  fix w r w'
  assume t: "try_op e f K w = (r, w')" and w: "P w"
  obtain q w1 where q: "f w = (q, w1)" by fastforce
  have "P w1" by (rule keepsD [OF assms(1) q w])
  then show "P w'" using t q keepsD [OF assms(2)] by (cases q) (auto simp: try_op_def)
qed

lemma keeps_ok [keep]: "keeps P (ok_op x)" and keeps_fail [keep]: "keeps P (fail_op e)"
  and keeps_pass [keep]: "keeps P (pass r)" and keeps_present [keep]: "keeps P (present_or missing y)"
  and keeps_body [keep]: "keeps P (body_of g dec limit rq)"
  by (auto simp: keeps_def ok_op_def fail_op_def pass_def present_or_def body_of_def split: option.splits)

lemma keeps_refuse [keep]: "keeps P f \<Longrightarrow> keeps P (refuse_if b r f)"
  by (simp add: refuse_if_def keeps_fail)

lemma keeps_if [keep]: "keeps P f \<Longrightarrow> keeps P g \<Longrightarrow> keeps P (if b then f else g)"
  by simp

lemma keeps_require [keep]: "keeps P f \<Longrightarrow> keeps P (require_op e f)"
  by (auto simp: keeps_def require_op_def fail_op_def split: option.splits)

lemma keeps_respond: "keeps P f \<Longrightarrow> respond f w = (r, w') \<Longrightarrow> P w \<Longrightarrow> P w'"
  by (cases "f w"; cases "fst (f w)") (auto simp: respond_def keeps_def)

lemma try_present [simp]: "try_op e (present_or r (Some x)) K = K x"
  by (rule ext) (simp add: try_op_def present_or_def ok_op_def)

text \<open>The role gate only asks: what the listing of Spaces and of groups keep, it keeps.\<close>

definition access_keeps :: "('w \<Rightarrow> bool) \<Rightarrow> 'w access_deps \<Rightarrow> bool" where
  "access_keeps P deps \<longleftrightarrow> (\<forall>f. ad_spaces deps = Some f \<longrightarrow> keeps P f) \<and> (\<forall>f u. ad_groups deps = Some f \<longrightarrow> keeps P (f u))"

lemma list_spaces_keeps:
  assumes "access_keeps P deps" shows "keeps (\<lambda>a. P (ac_world a)) (list_spaces deps)"
  using assms by (auto simp: keeps_def access_keeps_def list_spaces_def split: option.splits prod.splits)

lemma caller_groups_keeps:
  assumes "access_keeps P deps" shows "keeps (\<lambda>a. P (ac_world a)) (caller_groups deps)"
  using assms by (auto simp: keeps_def access_keeps_def caller_groups_def split: option.splits prod.splits)

lemma permits_keeps:
  assumes "access_keeps P deps" shows "keeps (\<lambda>a. P (ac_world a)) (permits deps sp least)"
proof (rule keepsI)
  fix a r a'
  assume p: "permits deps sp least a = (r, a')" and w: "P (ac_world a)"
  have t: "keeps (\<lambda>a. P (ac_world a)) (try_op id (caller_groups deps) (\<lambda>groups a. (Inr (role_for sp (ac_user a) groups (ac_now a) \<ge> least), a)))"
    by (rule keeps_try [OF caller_groups_keeps [OF assms]]) (auto simp: keeps_def)
  show "P (ac_world a')" using p w keepsD [OF t] by (auto simp: permits_def split: if_splits)
qed

lemma with_role_keeps [keep]:
  assumes "access_keeps P (ga_access g)" shows "keeps P (with_role g least rq)"
proof (rule keepsI)
  fix w r w'
  assume a: "with_role g least rq w = (r, w')" and w: "P w"
  obtain q c where q: "require_role (ga_access g) (rq_identity rq \<noteq> None) (rq_space rq) least (with_access g rq w) = (q, c)" by fastforce
  have w': "w' = checked_world w c" using a q by (auto simp: with_role_def split: sum.splits)
  have "P (checked_world w c)"
  proof (cases "rq_identity rq")
    case None
    then show ?thesis using q w by (auto simp: require_role_def with_access_def checked_world_def)
  next
    case (Some i)
    let ?a = "new_checker w (id_user i) (ga_now g w)"
    have a0: "P (ac_world ?a)" using w by (simp add: new_checker_def)
    obtain l a1 where l: "list_spaces (ga_access g) ?a = (l, a1)" by fastforce
    have a1: "P (ac_world a1)" by (rule keepsD [OF list_spaces_keeps [OF assms] l a0])
    note pk = keepsD [OF permits_keeps [OF assms] _ a1]
    show ?thesis
      using q Some l a0 a1 pk
      by (auto simp: require_role_def with_access_def checked_world_def split: if_splits sum.splits option.splits prod.splits)
  qed
  then show "P w'" unfolding w' .
qed

text \<open>Behind the gate lies only what a caller with the role reaches.\<close>

lemma with_role_authority:
  assumes "with_role g least rq w = (Inr sp, w')"
  shows "sp = rq_space rq \<and> sp \<noteq> [] \<and> rq_identity rq \<noteq> None"
  using assms by (auto simp: with_role_def require_role_def split: if_splits sum.splits option.splits prod.splits)

subsection \<open>What a step ends in\<close>

text \<open>The weakest precondition of a step, which its parts compute.\<close>

definition wp :: "('w, 'e, 'a) op \<Rightarrow> ('e + 'a \<Rightarrow> 'w \<Rightarrow> bool) \<Rightarrow> 'w \<Rightarrow> bool" where
  "wp f Q w \<longleftrightarrow> (case f w of (q, w') \<Rightarrow> Q q w')"

named_theorems wp_simps "weakest preconditions of composed steps"

lemma wp_try [wp_simps]:
  "wp (try_op e f K) Q w = wp f (\<lambda>q w'. case q of Inl x \<Rightarrow> Q (Inl (e x)) w' | Inr y \<Rightarrow> wp (K y) Q w') w"
  by (cases "f w"; cases "fst (f w)") (auto simp: wp_def try_op_def)

lemma wp_ok [wp_simps]: "wp (ok_op x) Q w = Q (Inr x) w"
  by (simp add: wp_def ok_op_def)

lemma wp_fail [wp_simps]: "wp (fail_op e) Q w = Q (Inl e) w"
  by (simp add: wp_def fail_op_def)

lemma wp_pass [wp_simps]: "wp (pass r) Q w = Q r w"
  by (simp add: wp_def pass_def)

lemma wp_body [wp_simps]: "wp (body_of g dec limit rq) Q w = Q (decode_json_body (ga_mime g) dec limit rq) w"
  by (simp add: wp_simps body_of_def)

lemma wp_present [wp_simps]: "wp (present_or r x) Q w = (case x of None \<Rightarrow> Q (Inl r) w | Some y \<Rightarrow> Q (Inr y) w)"
  by (simp add: wp_simps present_or_def split: option.split)

lemma wp_refuse [wp_simps]: "wp (refuse_if b r f) Q w = (if b then Q (Inl r) w else wp f Q w)"
  by (simp add: wp_simps refuse_if_def)

lemma wp_require [wp_simps]: "wp (require_op x f) Q w = (case x of None \<Rightarrow> wp f Q w | Some e \<Rightarrow> Q (Inl e) w)"
  by (cases x) (simp_all add: wp_def require_op_def)

lemma wp_mono: "wp f P w \<Longrightarrow> (\<And>q w'. f w = (q, w') \<Longrightarrow> P q w' \<Longrightarrow> Q q w') \<Longrightarrow> wp f Q w"
  by (auto simp: wp_def)

lemma wp_run: "(\<And>q w'. f w = (q, w') \<Longrightarrow> Q q w') \<Longrightarrow> wp f Q w"
  by (auto simp: wp_def)

lemma wp_respond: "wp f (\<lambda>q w'. Q (case q of Inl r \<Rightarrow> r | Inr r \<Rightarrow> r) w') w \<Longrightarrow> respond f w = (r, w') \<Longrightarrow> Q r w'"
  by (cases "f w"; cases "fst (f w)") (auto simp: respond_def wp_def)

lemma wp_respond_world: "wp f (\<lambda>_. S) w \<Longrightarrow> respond f w = (r, w') \<Longrightarrow> S w'"
  by (cases "f w"; cases "fst (f w)") (auto simp: respond_def wp_def)

lemma wp_with_role:
  assumes "access_keeps P (ga_access g)" "P w"
    and "\<And>r w1. P w1 \<Longrightarrow> Q (Inl r) w1"
    and "\<And>w1. with_role g least rq w = (Inr (rq_space rq), w1) \<Longrightarrow> rq_space rq \<noteq> [] \<Longrightarrow> P w1 \<Longrightarrow> Q (Inr (rq_space rq)) w1"
  shows "wp (with_role g least rq) Q w"
proof (rule wp_run)
  fix q w1
  assume a: "with_role g least rq w = (q, w1)"
  have p: "P w1" by (rule keepsD [OF with_role_keeps [OF assms(1)] a assms(2)])
  show "Q q w1" using a p assms(3,4) with_role_authority [of g least rq w] by (cases q) auto
qed

subsection \<open>A caller\<close>

text \<open>The owner of one Space, and their request.\<close>

definition owned_space :: "string \<Rightarrow> string \<Rightarrow> space" where
  "owned_space sp owner = \<lparr>sp_id = sp, sp_name = ''Family'', sp_type = ''project'', sp_owner = owner,
     sp_root = \<lparr>rid_storage = [], rid_space = [], rid_opaque = []\<rparr>, sp_members = []\<rparr>"

definition owner_gate :: "'w gate" where
  "owner_gate = \<lparr>ga_access = \<lparr>ad_spaces = Some (\<lambda>w. (Inr [owned_space ''a'' ''u''], w)), ad_groups = None\<rparr>, ga_now = (\<lambda>w. 0),
     ga_mime = (\<lambda>v. Some (v, []))\<rparr>"

definition owner_request :: request where
  "owner_request = \<lparr>rq_identity = Some \<lparr>id_subject = ''s'', id_user = ''u'', id_expiry = 0, id_username = [], id_token = ''t''\<rparr>,
     rq_admin = False, rq_space = ''a'', rq_target = [], rq_job = [], rq_limit = [],
     rq_content_type = [''application/json''], rq_body = []\<rparr>"

lemma owner_gate_keeps: "access_keeps P (ga_access owner_gate)"
  by (simp add: access_keeps_def owner_gate_def keeps_def)

end
