(* ===== verification/Api_Keys.thy ===== *)
theory Api_Keys
  imports Api_Http Key_Rotate
begin

text \<open>
  The key endpoints (src/internal/api/keys.go): the ceremony that sets a Space's keys up, the rotation of its Recovery
  Key, the status and the retrieval of the recovery envelope. Setup and rotation check first and then write under the
  Space's lock; the model has the two parts as separate operations, so that requests can interleave between them.
  Base 64 and SHA-256 are parameters.
\<close>

definition max_key_request_bytes :: nat where "max_key_request_bytes = 16384"

record setup_request =
  sq_envelope :: string
  sq_data_key :: string

record rotate_request =
  rr_envelope :: string
  rr_replaces :: string

record 'w key_ops =
  ko_put_rk :: "string \<Rightarrow> wrapped_dk \<Rightarrow> ('w, store_key_error, unit) op"
  ko_put_srw :: "string \<Rightarrow> wrapped_dk \<Rightarrow> ('w, store_key_error, unit) op"
  ko_get_rk :: "string \<Rightarrow> ('w, store_key_error, wrapped_dk) op"
  ko_status :: "string \<Rightarrow> ('w, store_key_error, key_status) op"

record 'w keys_api =
  ka_gate :: "'w gate"
  ka_store :: "'w key_ops option"
  ka_wrap :: "(bytes \<Rightarrow> ('w, key_error, wrapped_dk) op) option"
  ka_decode64 :: "string \<Rightarrow> bytes option"
  ka_encode64 :: "bytes \<Rightarrow> string"
  ka_sha256 :: "bytes \<Rightarrow> bytes"
  ka_setup_body :: "setup_request body_decoder"
  ka_rotate_body :: "rotate_request body_decoder"

subsection \<open>Answers\<close>

definition key_status_json :: "key_status \<Rightarrow> json" where
  "key_status_json st = JObj ([(''space_id'', JStr (ks_space st)), (''configured'', JBool (ks_configured st)),
     (''has_recovery_wrap'', JBool (ks_has_rk st)), (''has_server_wrap'', JBool (ks_has_srw st))] @
     opt_int ''recovery_wrap_version'' (ks_rk_version st) @ opt_int ''server_wrap_version'' (ks_srw_version st) @
     opt_str ''created_at'' (format_time (ks_created st)) @ opt_str ''updated_at'' (format_time (ks_updated st)))"

definition key_service_missing :: response where
  "key_service_missing = unavailable ''key service not configured''"

definition space_not_set_up :: response where
  "space_not_set_up = write_error 404 ''not_found'' ''backup not configured for this space''"

definition keys_exist :: response where
  "keys_exist = write_error 409 ''conflict'' ''backup keys already exist for this space; rotate the recovery key instead''"

subsection \<open>Checks\<close>

definition read_key_status :: "'w key_ops \<Rightarrow> string \<Rightarrow> ('w, key_status) step" where
  "read_key_status st sp = try_op (internal_error ''could not read key status'') (ko_status st sp) ok_op"

definition assert_not_configured :: "'w key_ops \<Rightarrow> string \<Rightarrow> ('w, unit) step" where
  "assert_not_configured st sp =
     try_op id (read_key_status st sp) (\<lambda>k. if ks_configured k then fail_op keys_exist else ok_op ())"

definition assert_configured :: "'w key_ops \<Rightarrow> string \<Rightarrow> ('w, unit) step" where
  "assert_configured st sp =
     try_op id (read_key_status st sp) (\<lambda>k. if \<not> ks_configured k then fail_op space_not_set_up else ok_op ())"

definition decode_recovery_envelope :: "'w keys_api \<Rightarrow> string \<Rightarrow> response + bytes" where
  "decode_recovery_envelope api encoded =
     (case ka_decode64 api encoded of
        None \<Rightarrow> Inl (write_error 400 ''bad_request'' ''invalid recovery envelope encoding'')
      | Some b \<Rightarrow> if b = [] then Inl (write_error 400 ''bad_request'' ''invalid recovery envelope encoding'') else Inr b)"

fun weak_envelope :: "key_error \<Rightarrow> bool" where
  "weak_envelope (WeakEnvelope m) = True"
| "weak_envelope (KeyWrapped m e) = weak_envelope e"
| "weak_envelope _ = False"

definition checked_envelope :: "bytes \<Rightarrow> response + envelope_info" where
  "checked_envelope blob =
     (case check_recovery_envelope blob of
        Inl e \<Rightarrow> Inl (write_error 400 ''bad_request''
          (if weak_envelope e then ''recovery envelope key derivation is too weak'' else ''invalid recovery envelope''))
      | Inr info \<Rightarrow> Inr info)"

definition hex_digits :: string where "hex_digits = ''0123456789abcdef''"

definition hex_string :: "bytes \<Rightarrow> string" where
  "hex_string b = concat (map (\<lambda>x. [hex_digits ! (unat x div 16), hex_digits ! (unat x mod 16)]) b)"

definition envelope_digest :: "'w keys_api \<Rightarrow> bytes \<Rightarrow> string" where
  "envelope_digest api blob = hex_string (ka_sha256 api blob)"

definition lower_hex :: "char \<Rightarrow> bool" where
  "lower_hex c \<longleftrightarrow> (let n = of_char c :: nat in 48 \<le> n \<and> n \<le> 57 \<or> 97 \<le> n \<and> n \<le> 102)"

definition is_envelope_digest :: "string \<Rightarrow> bool" where
  "is_envelope_digest s \<longleftrightarrow> length s = 64 \<and> list_all lower_hex s"

subsection \<open>Ceremonies\<close>

text \<open>What a request has become once it was checked and waits for the Space's lock.\<close>

datatype ceremony =
    Setup string bytes bytes envelope_info
  | Rotate string string bytes envelope_info

fun ceremony_space :: "ceremony \<Rightarrow> string" where
  "ceremony_space (Setup sp dk blob info) = sp"
| "ceremony_space (Rotate sp replaces blob info) = sp"

definition setup_checked :: "'w keys_api \<Rightarrow> request \<Rightarrow> ('w, ceremony) step" where
  "setup_checked api rq =
     try_op id (with_role (ka_gate api) role_manager rq) (\<lambda>sp.
     case (ka_store api, ka_wrap api) of
       (Some st, Some wrap) \<Rightarrow>
         try_op id (assert_not_configured st sp) (\<lambda>_.
         try_op id (body_of (ka_gate api) (ka_setup_body api) max_key_request_bytes rq) (\<lambda>body.
         try_op id (pass (decode_recovery_envelope api (sq_envelope body))) (\<lambda>blob.
         case ka_decode64 api (sq_data_key body) of
           None \<Rightarrow> fail_op (write_error 400 ''bad_request'' ''invalid data key'')
         | Some dk \<Rightarrow>
             if length dk \<noteq> dk_size then fail_op (write_error 400 ''bad_request'' ''invalid data key'')
             else try_op id (pass (checked_envelope blob)) (\<lambda>info. ok_op (Setup sp dk blob info)))))
     | _ \<Rightarrow> fail_op key_service_missing)"

definition rotation_checked :: "'w keys_api \<Rightarrow> request \<Rightarrow> ('w, ceremony) step" where
  "rotation_checked api rq =
     try_op id (with_role (ka_gate api) role_manager rq) (\<lambda>sp.
     try_op id (present_or key_service_missing (ka_store api)) (\<lambda>st.
     try_op id (assert_configured st sp) (\<lambda>_.
     try_op id (body_of (ka_gate api) (ka_rotate_body api) max_key_request_bytes rq) (\<lambda>body.
     refuse_if (\<not> is_envelope_digest (rr_replaces body))
       (write_error 400 ''bad_request'' ''replaces_sha256 must name the envelope being replaced'')
     (try_op id (pass (decode_recovery_envelope api (rr_envelope body))) (\<lambda>blob.
      try_op id (pass (checked_envelope blob)) (\<lambda>info. ok_op (Rotate sp (rr_replaces body) blob info))))))))"

definition recovery_wrap :: "envelope_info \<Rightarrow> bytes \<Rightarrow> wrapped_dk" where
  "recovery_wrap info blob = \<lparr>wd_version = ei_version info, wd_kind = wrap_rk, wd_blob = blob, wd_created = zero_time\<rparr>"

definition put_recovery :: "'w key_ops \<Rightarrow> string \<Rightarrow> envelope_info \<Rightarrow> bytes \<Rightarrow> ('w, unit) step" where
  "put_recovery st sp info blob =
     try_op (internal_error ''could not store recovery envelope'') (ko_put_rk st sp (recovery_wrap info blob)) ok_op"

definition setup_locked ::
    "'w key_ops \<Rightarrow> (bytes \<Rightarrow> ('w, key_error, wrapped_dk) op) \<Rightarrow> string \<Rightarrow> bytes \<Rightarrow> bytes \<Rightarrow> envelope_info \<Rightarrow> ('w, response) step" where
  "setup_locked st wrap sp dk blob info =
     try_op id (assert_not_configured st sp) (\<lambda>_.
     try_op (internal_error ''could not complete key setup'') (wrap dk) (\<lambda>srw.
     try_op id (put_recovery st sp info blob) (\<lambda>_.
     try_op (internal_error ''could not store server envelope'') (ko_put_srw st sp srw) (\<lambda>_.
     try_op id (read_key_status st sp) (\<lambda>k. ok_op (write_json 201 (key_status_json k)))))))"

definition rotation_locked ::
    "'w keys_api \<Rightarrow> 'w key_ops \<Rightarrow> string \<Rightarrow> string \<Rightarrow> bytes \<Rightarrow> envelope_info \<Rightarrow> ('w, response) step" where
  "rotation_locked api st sp replaces blob info =
     try_op (internal_error ''could not read recovery envelope'') (ko_get_rk st sp) (\<lambda>cur.
     refuse_if (envelope_digest api (wd_blob cur) \<noteq> replaces)
       (write_error 409 ''conflict'' ''the recovery key was replaced since this request was prepared'')
     (try_op id (put_recovery st sp info blob) (\<lambda>_.
      try_op id (read_key_status st sp) (\<lambda>k. ok_op (write_json 200 (key_status_json k))))))"

definition ceremony_locked :: "'w keys_api \<Rightarrow> ceremony \<Rightarrow> ('w, response) step" where
  "ceremony_locked api c =
     (case c of
        Setup sp dk blob info \<Rightarrow>
          (case (ka_store api, ka_wrap api) of
             (Some st, Some wrap) \<Rightarrow> setup_locked st wrap sp dk blob info
           | _ \<Rightarrow> fail_op key_service_missing)
      | Rotate sp replaces blob info \<Rightarrow>
          (case ka_store api of Some st \<Rightarrow> rotation_locked api st sp replaces blob info | None \<Rightarrow> fail_op key_service_missing))"

definition handle_key_setup :: "'w keys_api \<Rightarrow> request \<Rightarrow> 'w handler" where
  "handle_key_setup api rq = respond (try_op id (setup_checked api rq) (ceremony_locked api))"

definition handle_rotate_recovery_key :: "'w keys_api \<Rightarrow> request \<Rightarrow> 'w handler" where
  "handle_rotate_recovery_key api rq = respond (try_op id (rotation_checked api rq) (ceremony_locked api))"

subsection \<open>Reads\<close>

definition handle_key_status :: "'w keys_api \<Rightarrow> request \<Rightarrow> 'w handler" where
  "handle_key_status api rq = respond
     (try_op id (with_role (ka_gate api) role_viewer rq) (\<lambda>sp.
      try_op id (present_or key_service_missing (ka_store api)) (\<lambda>st.
      try_op id (read_key_status st sp) (\<lambda>k. ok_op (write_json 200 (key_status_json k))))))"

definition recovery_json :: "'w keys_api \<Rightarrow> string \<Rightarrow> bytes \<Rightarrow> envelope_info \<Rightarrow> json" where
  "recovery_json api sp blob info = JObj ([(''space_id'', JStr sp), (''envelope'', JStr (ka_encode64 api blob)),
     (''version'', JInt (ei_version info)), (''kdf'', JStr (ei_kdf info))] @
     opt_int ''argon_time'' (uint (ap_time (ei_argon info))) @ opt_int ''argon_memory_kib'' (uint (ap_memory (ei_argon info))) @
     opt_int ''argon_lanes'' (uint (ap_lanes (ei_argon info))))"

definition handle_recovery_envelope :: "'w keys_api \<Rightarrow> request \<Rightarrow> 'w handler" where
  "handle_recovery_envelope api rq = respond
     (try_op id (with_role (ka_gate api) role_viewer rq) (\<lambda>sp.
      try_op id (present_or key_service_missing (ka_store api)) (\<lambda>st.
      try_op (\<lambda>e. case e of NoEnvelope _ \<Rightarrow> space_not_set_up | _ \<Rightarrow> internal_error ''could not read recovery envelope'' e)
        (ko_get_rk st sp) (\<lambda>cur.
      case inspect (wd_blob cur) of
        Inl e \<Rightarrow> fail_op (internal_error ''could not read recovery envelope'' e)
      | Inr info \<Rightarrow> ok_op (write_json 200 (recovery_json api sp (wd_blob cur) info))))))"

end
