(* ===== verification/Api_Ceremony.thy ===== *)
theory Api_Ceremony
  imports Api_Keys
begin

text \<open>
  Key ceremonies of many clients at once: requests are checked at any time, each later runs its part under the Space's
  lock, and any of its reads and writes may fail. A Space that has its keys keeps its Data Key, on the service's durable
  store as on the in-memory one, as long as no record of the durable store's older layout is left: while such a
  record cannot be read, the store's status is not the truth, and a setup can replace a Data Key.
\<close>

subsection \<open>What the endpoints rely on of a key store\<close>

text \<open>
  \<open>recs w\<close> is what is stored; \<open>rk\<close> and \<open>srw\<close> are the Spaces' recovery and server envelopes in it. The status need be
  right only where \<open>truthful\<close> holds, and a write need take effect only where there is room for it. A write may fail
  after its effect.
\<close>

locale key_records =
  fixes st :: "'w key_ops" and recs :: "'w \<Rightarrow> 'r" and rk srw :: "'r \<Rightarrow> string \<Rightarrow> wrapped_dk option"
    and truthful rk_room srw_room :: "'r \<Rightarrow> bool"
  assumes status_same: "ko_status st sp w = (q, w') \<Longrightarrow> recs w' = recs w"
    and status_true: "truthful (recs w) \<Longrightarrow> ko_status st sp w = (Inr k, w') \<Longrightarrow>
      ks_configured k \<longleftrightarrow> rk (recs w) sp \<noteq> None \<and> srw (recs w) sp \<noteq> None"
    and get_same: "ko_get_rk st sp w = (g, w') \<Longrightarrow> recs w' = recs w"
    and get_ok: "ko_get_rk st sp w = (Inr v, w') \<Longrightarrow> rk (recs w) sp = Some v"
    and put_rk_effect: "rk_room (recs w) \<Longrightarrow> ko_put_rk st sp v w = (p, w') \<Longrightarrow>
      srw (recs w') = srw (recs w) \<and> (srw_room (recs w) \<longrightarrow> srw_room (recs w')) \<and> (truthful (recs w) \<longrightarrow> truthful (recs w')) \<and>
      (rk (recs w') = (rk (recs w))(sp \<mapsto> v) \<or> rk (recs w') = rk (recs w) \<and> p \<noteq> Inr ())"
    and put_srw_effect: "srw_room (recs w) \<Longrightarrow> ko_put_srw st sp v w = (p, w') \<Longrightarrow>
      rk (recs w') = rk (recs w) \<and> (truthful (recs w) \<longrightarrow> truthful (recs w')) \<and>
      (srw (recs w') = (srw (recs w))(sp \<mapsto> v) \<or> srw (recs w') = srw (recs w) \<and> p \<noteq> Inr ())"

text \<open>
  The endpoints over it. Asking who the caller is and wrapping a key leave the records alone; \<open>in_srw\<close> is the Data Key in a server
  envelope, \<open>in_rk\<close> the one in a recovery envelope, which the server cannot see.
\<close>

locale key_endpoints = key_records st recs rk srw truthful rk_room srw_room
  for st :: "'w key_ops" and recs :: "'w \<Rightarrow> 'r" and rk srw :: "'r \<Rightarrow> string \<Rightarrow> wrapped_dk option"
    and truthful rk_room srw_room :: "'r \<Rightarrow> bool" +
  fixes api :: "'w keys_api" and wrap :: "bytes \<Rightarrow> ('w, key_error, wrapped_dk) op" and in_rk in_srw :: "bytes \<Rightarrow> bytes"
  assumes store: "ka_store api = Some st" and wrapper: "ka_wrap api = Some wrap"
    and asking: "access_keeps (\<lambda>w. recs w = a) (ga_access (ka_gate api))"
    and wrap_same: "wrap dk w = (q, w') \<Longrightarrow> recs w' = recs w"
    and wrap_ok: "wrap dk w = (Inr v, w') \<Longrightarrow> in_srw (wd_blob v) = dk"

text \<open>
  An honest client: at setup its envelope holds the Data Key it sends, at a rotation its new envelope holds what the
  envelope it names holds.
\<close>

fun honest :: "'w keys_api \<Rightarrow> (bytes \<Rightarrow> bytes) \<Rightarrow> ceremony \<Rightarrow> bool" where
  "honest api in_rk (Setup sp dk blob info) \<longleftrightarrow> in_rk blob = dk"
| "honest api in_rk (Rotate sp replaces blob info) \<longleftrightarrow> (\<forall>b. envelope_digest api b = replaces \<longrightarrow> in_rk b = in_rk blob)"

text \<open>The world and the requests that wait for a lock. Sections under the locks run one at a time.\<close>

inductive key_step :: "'w keys_api \<Rightarrow> (bytes \<Rightarrow> bytes) \<Rightarrow> 'w \<times> ceremony list \<Rightarrow> 'w \<times> ceremony list \<Rightarrow> bool"
  for api :: "'w keys_api" and in_rk :: "bytes \<Rightarrow> bytes" where
  setup_arrives: "setup_checked api rq w = (Inr c, w') \<Longrightarrow> honest api in_rk c \<Longrightarrow> key_step api in_rk (w, cs) (w', c # cs)"
| setup_refused: "setup_checked api rq w = (Inl r, w') \<Longrightarrow> key_step api in_rk (w, cs) (w', cs)"
| rotation_arrives: "rotation_checked api rq w = (Inr c, w') \<Longrightarrow> honest api in_rk c \<Longrightarrow> key_step api in_rk (w, cs) (w', c # cs)"
| rotation_refused: "rotation_checked api rq w = (Inl r, w') \<Longrightarrow> key_step api in_rk (w, cs) (w', cs)"
| locked: "c \<in> set cs \<Longrightarrow> ceremony_locked api c w = (q, w') \<Longrightarrow> key_step api in_rk (w, cs) (w', remove1 c cs)"

definition set_up :: "('r \<Rightarrow> string \<Rightarrow> wrapped_dk option) \<Rightarrow> ('r \<Rightarrow> string \<Rightarrow> wrapped_dk option) \<Rightarrow> 'r \<Rightarrow> string \<Rightarrow> bool" where
  "set_up rk srw r sp \<longleftrightarrow> rk r sp \<noteq> None \<and> srw r sp \<noteq> None"

text \<open>No server envelope without a recovery envelope of the same Data Key.\<close>

definition one_key ::
    "(bytes \<Rightarrow> bytes) \<Rightarrow> (bytes \<Rightarrow> bytes) \<Rightarrow> ('r \<Rightarrow> string \<Rightarrow> wrapped_dk option) \<Rightarrow> ('r \<Rightarrow> string \<Rightarrow> wrapped_dk option) \<Rightarrow> 'r \<Rightarrow> bool" where
  "one_key in_rk in_srw rk srw r \<longleftrightarrow>
     (\<forall>sp s. srw r sp = Some s \<longrightarrow> (\<exists>v. rk r sp = Some v \<and> in_rk (wd_blob v) = in_srw (wd_blob s)))"

text \<open>Server envelopes stay.\<close>

definition same_key :: "('r \<Rightarrow> string \<Rightarrow> wrapped_dk option) \<Rightarrow> 'r \<Rightarrow> 'r \<Rightarrow> bool" where
  "same_key srw r r' \<longleftrightarrow> (\<forall>sp s. srw r sp = Some s \<longrightarrow> srw r' sp = Some s)"

context key_endpoints
begin

lemma status_keeps: "keeps (\<lambda>w. recs w = a) (ko_status st sp)"
  and get_keeps: "keeps (\<lambda>w. recs w = a) (ko_get_rk st sp)"
  using status_same get_same by (auto simp: keeps_def)

lemma key_status_keeps: "keeps (\<lambda>w. recs w = a) (read_key_status st sp)"
  unfolding read_key_status_def by (intro keep status_keeps)

lemma status_read: "read_key_status st sp w = (q, w') \<Longrightarrow> recs w' = recs w"
  using keepsD [OF key_status_keeps, of sp w q w' "recs w"] by simp

lemma checks_keep:
  "keeps (\<lambda>w. recs w = a) (assert_not_configured st sp)"
  "keeps (\<lambda>w. recs w = a) (assert_configured st sp)"
  unfolding assert_not_configured_def assert_configured_def
  by (intro keep key_status_keeps; simp add: keep split: if_splits)+

lemma checked_keeps:
  "keeps (\<lambda>w. recs w = a) (setup_checked api rq)"
  "keeps (\<lambda>w. recs w = a) (rotation_checked api rq)"
proof -
  show "keeps (\<lambda>w. recs w = a) (rotation_checked api rq)"
    unfolding rotation_checked_def store try_present by (intro keep asking checks_keep)
  show "keeps (\<lambda>w. recs w = a) (setup_checked api rq)"
    unfolding setup_checked_def store wrapper
    by (simp only: prod.case option.case) (intro keep asking checks_keep; auto intro!: keep split: option.splits)
qed

text \<open>Under the lock: a setup runs only for a Space that is not set up and writes one Data Key under both wraps, a rotation
  writes an envelope of the Data Key that is there.\<close>

lemma setup_locked_effect:
  assumes "setup_locked st wrap sp dk blob info w = (q, w')" "in_rk blob = dk" "one_key in_rk in_srw rk srw (recs w)"
    and ok: "truthful (recs w)" "rk_room (recs w)" "srw_room (recs w)"
  shows "one_key in_rk in_srw rk srw (recs w') \<and> same_key srw (recs w) (recs w') \<and> truthful (recs w')"
proof -
  obtain k w1 where k: "assert_not_configured st sp w = (k, w1)" by fastforce
  have same: "recs w1 = recs w" using keepsD [OF checks_keep(1) k, of "recs w"] by simp
  show ?thesis
  proof (cases k)
    case (Inl e)
    then show ?thesis using assms(1,3) ok(1) k same by (auto simp: setup_locked_def try_op_def same_key_def)
  next
    case (Inr x)
    obtain s0 where "ko_status st sp w = (Inr s0, w1)" "\<not> ks_configured s0"
      using k Inr by (auto simp: assert_not_configured_def read_key_status_def try_op_def ok_op_def fail_op_def split: sum.splits prod.splits if_splits)
    then have new: "srw (recs w) sp = None"
      using status_true [OF ok(1)] assms(3) unfolding one_key_def by (metis not_None_eq)
    obtain v w2 where v: "wrap dk w1 = (v, w2)" by fastforce
    have same2: "recs w2 = recs w" using wrap_same [OF v] same by simp
    show ?thesis
    proof (cases v)
      case (Inl e)
      then show ?thesis using assms(1,3) ok(1) k Inr v same2 by (auto simp: setup_locked_def try_op_def same_key_def)
    next
      case v2: (Inr sv)
      have dk: "in_srw (wd_blob sv) = dk" using wrap_ok v v2 by blast
      let ?rv = "recovery_wrap info blob"
      obtain p w3 where p: "ko_put_rk st sp ?rv w2 = (p, w3)" by fastforce
      note three = put_rk_effect [OF ok(2) [folded same2] p, unfolded same2]
      show ?thesis
      proof (cases p)
        case (Inl e)
        have "w' = w3" using assms(1) k Inr v v2 p Inl by (auto simp: setup_locked_def try_op_def put_recovery_def)
        then show ?thesis using three ok(1) assms(3) new by (auto simp: one_key_def same_key_def split: if_splits)
      next
        case p2: (Inr u)
        have w3: "rk (recs w3) = (rk (recs w))(sp \<mapsto> ?rv)" "srw (recs w3) = srw (recs w)" "srw_room (recs w3)" "truthful (recs w3)"
          using three ok(1,3) p2 by auto
        obtain z w4 where z: "ko_put_srw st sp sv w3 = (z, w4)" by fastforce
        have w4: "rk (recs w4) = (rk (recs w))(sp \<mapsto> ?rv)" "srw (recs w4) = srw (recs w) \<or> srw (recs w4) = (srw (recs w))(sp \<mapsto> sv)" "truthful (recs w4)"
          using put_srw_effect [OF w3(3) z] w3 by auto
        have fin: "recs w' = recs w4"
        proof (cases z)
          case (Inl e)
          then show ?thesis using assms(1) k Inr v v2 p p2 z by (auto simp: setup_locked_def try_op_def put_recovery_def ok_op_def)
        next
          case z2: (Inr y)
          obtain l w5 where l: "read_key_status st sp w4 = (l, w5)" by fastforce
          then show ?thesis
            using assms(1) k Inr v v2 p p2 z z2 l status_read [OF l]
            by (cases l) (auto simp: setup_locked_def try_op_def put_recovery_def ok_op_def)
        qed
        have blobs: "in_rk (wd_blob ?rv) = dk" using assms(2) by (simp add: recovery_wrap_def)
        show ?thesis using fin w4 assms(3) new blobs dk by (auto simp: one_key_def same_key_def split: if_splits)
      qed
    qed
  qed
qed

lemma rotation_locked_effect:
  assumes "rotation_locked api st sp replaces blob info w = (q, w')"
    and "\<forall>b. envelope_digest api b = replaces \<longrightarrow> in_rk b = in_rk blob" and room: "rk_room (recs w)"
  shows "(truthful (recs w) \<longrightarrow> truthful (recs w')) \<and> srw (recs w') = srw (recs w) \<and> (rk (recs w') = rk (recs w) \<or> (\<exists>cur. rk (recs w) sp = Some cur \<and>
    in_rk blob = in_rk (wd_blob cur) \<and> rk (recs w') = (rk (recs w))(sp \<mapsto> recovery_wrap info blob)))"
proof -
  obtain g w1 where g: "ko_get_rk st sp w = (g, w1)" by fastforce
  have same: "recs w1 = recs w" using get_same [OF g] .
  show ?thesis
  proof (cases "\<exists>cur. g = Inr cur \<and> envelope_digest api (wd_blob cur) = replaces")
    case False
    then have "w' = w1" using assms(1) g by (cases g) (auto simp: rotation_locked_def try_op_def refuse_if_def fail_op_def)
    then show ?thesis using same by simp
  next
    case True
    then obtain cur where cur: "g = Inr cur" "envelope_digest api (wd_blob cur) = replaces" by blast
    have held: "rk (recs w) sp = Some cur" "in_rk blob = in_rk (wd_blob cur)" using get_ok g cur assms(2) by auto
    obtain p w2 where p: "ko_put_rk st sp (recovery_wrap info blob) w1 = (p, w2)" by fastforce
    note two = put_rk_effect [OF room [folded same] p, unfolded same]
    have "recs w' = recs w2"
    proof (cases p)
      case (Inl e)
      then show ?thesis using assms(1) g cur p by (auto simp: rotation_locked_def try_op_def refuse_if_def put_recovery_def)
    next
      case (Inr u)
      obtain l w3 where l: "read_key_status st sp w2 = (l, w3)" by fastforce
      then show ?thesis
        using assms(1) g cur p Inr l status_read [OF l]
        by (cases l) (auto simp: rotation_locked_def try_op_def refuse_if_def put_recovery_def ok_op_def)
    qed
    then show ?thesis using two held by auto
  qed
qed

lemma locked_effect:
  assumes "ceremony_locked api c w = (q, w')" "honest api in_rk c" "one_key in_rk in_srw rk srw (recs w)"
    and ok: "truthful (recs w)" "rk_room (recs w)" "srw_room (recs w)"
  shows "one_key in_rk in_srw rk srw (recs w') \<and> same_key srw (recs w) (recs w') \<and> truthful (recs w')"
proof (cases c)
  case (Setup sp dk blob info)
  then show ?thesis
    using assms store wrapper by (intro setup_locked_effect) (auto simp: ceremony_locked_def)
next
  case (Rotate sp replaces blob info)
  then have e: "(truthful (recs w) \<longrightarrow> truthful (recs w')) \<and> srw (recs w') = srw (recs w) \<and> (rk (recs w') = rk (recs w) \<or> (\<exists>cur. rk (recs w) sp = Some cur \<and>
    in_rk blob = in_rk (wd_blob cur) \<and> rk (recs w') = (rk (recs w))(sp \<mapsto> recovery_wrap info blob)))"
    using assms store by (intro rotation_locked_effect) (auto simp: ceremony_locked_def)
  have "\<exists>r. rk (recs w') sp' = Some r \<and> in_rk (wd_blob r) = in_srw (wd_blob s)" if s: "srw (recs w') sp' = Some s" for sp' s
  proof -
    obtain r where r: "rk (recs w) sp' = Some r" "in_rk (wd_blob r) = in_srw (wd_blob s)"
      using e assms(3) s by (auto simp: one_key_def)
    show ?thesis
      by (cases "rk (recs w') = rk (recs w) \<or> sp' \<noteq> sp") (use e r in \<open>auto simp: recovery_wrap_def\<close>)
  qed
  then show ?thesis using e ok(1) by (simp add: one_key_def same_key_def)
qed

lemma step_effect:
  assumes "key_step api in_rk (w, cs) (w', cs')" "list_all (honest api in_rk) cs" "one_key in_rk in_srw rk srw (recs w)"
    and ok: "truthful (recs w)" "rk_room (recs w)" "srw_room (recs w)"
  shows "list_all (honest api in_rk) cs' \<and> one_key in_rk in_srw rk srw (recs w') \<and> same_key srw (recs w) (recs w') \<and> truthful (recs w')"
  using assms(1)
proof (cases rule: key_step.cases)
  case (locked c q)
  then have "honest api in_rk c" using assms(2) by (simp add: list_all_iff)
  then have "one_key in_rk in_srw rk srw (recs w') \<and> same_key srw (recs w) (recs w') \<and> truthful (recs w')"
    by (rule locked_effect [OF locked(3) _ assms(3) ok])
  moreover have "list_all (honest api in_rk) cs'"
    using locked(1) assms(2) set_remove1_subset [of c cs] by (auto simp: list_all_iff)
  ultimately show ?thesis by blast
qed (use assms(2,3) ok(1) checked_keeps [THEN keepsD, of rq w _ w' "recs w" for rq] in \<open>auto simp: one_key_def same_key_def\<close>)

end

subsection \<open>On the in-memory store\<close>

definition memory_recovery :: "keys_memory \<Rightarrow> string \<Rightarrow> wrapped_dk option" where
  "memory_recovery m sp = (case keys_mem_get_rk sp m of (Inl _, _) \<Rightarrow> None | (Inr w, _) \<Rightarrow> Some w)"

definition memory_key_ops :: "time \<Rightarrow> keys_memory key_ops" where
  "memory_key_ops now = \<lparr>ko_put_rk = (\<lambda>sp v. keys_mem_put_rk sp v now), ko_put_srw = (\<lambda>sp v. keys_mem_put_srw sp v now),
     ko_get_rk = keys_mem_get_rk, ko_status = keys_mem_status\<rparr>"

lemmas memory_key_defs = memory_key_ops_def memory_recovery_def memory_held_def keys_mem_get_rk_def keys_mem_get_srw_def
  keys_mem_put_rk_def keys_mem_put_srw_def keys_mem_status_def keys_mem_record_def status_of_def no_status_def

interpretation memory_records: key_records "memory_key_ops now" "\<lambda>m. m" memory_recovery memory_held "\<lambda>_. True" "\<lambda>_. True" "\<lambda>_. True"
  for now
  by unfold_locales
    (auto simp: memory_key_defs fun_eq_iff map_of_alist_update Let_def wrap_rk_def wrap_srw_def zero_wrapped_def wrap_unknown_def
      split: option.splits if_splits)

text \<open>An envelope that passes the checks, and the service's own server wrap.\<close>

definition sample_envelope :: bytes where
  "sample_envelope = build_header envelope_version wrap_rk kdf_argon2id min_argon_params (replicate 16 0) @
     replicate nonce_size 1 @ replicate 48 9"

definition constant_random :: "'w random" where
  "constant_random n w = (Inr (replicate n 5), w)"

definition sample_server_key :: bytes where "sample_server_key = replicate 32 4"

definition sample_wrap :: "bytes \<Rightarrow> ('w, key_error, wrapped_dk) op" where
  "sample_wrap dk = wrap_with_srw plain_crypto constant_random dk sample_server_key 7"

definition server_data_key :: "bytes \<Rightarrow> bytes" where
  "server_data_key blob = (case unwrap_srw plain_crypto \<lparr>wd_version = 1, wd_kind = wrap_srw, wd_blob = blob, wd_created = 0\<rparr> sample_server_key of
     Inl _ \<Rightarrow> [] | Inr k \<Rightarrow> k)"

definition client_data_key :: "bytes \<Rightarrow> bytes" where "client_data_key blob = replicate 32 (last blob)"

definition sample_key_api :: "'w key_ops \<Rightarrow> 'w keys_api" where
  "sample_key_api st = \<lparr>ka_gate = owner_gate, ka_store = Some st, ka_wrap = Some sample_wrap,
     ka_decode64 = (\<lambda>s. Some (if s = ''envelope'' then sample_envelope else replicate 32 9)), ka_encode64 = (\<lambda>b. []), ka_sha256 = id,
     ka_setup_body = (\<lambda>n b. (FirstValue \<lparr>sq_envelope = ''envelope'', sq_data_key = ''key''\<rparr>, AtEnd)),
     ka_rotate_body = (\<lambda>n b. (FirstMalformed, AtEnd))\<rparr>"

lemma constant_fills: "fills constant_random"
  by (simp add: fills_def constant_random_def)

lemma keeps_sum [keep]:
  "(\<And>e. x = Inl e \<Longrightarrow> keeps P (f e)) \<Longrightarrow> (\<And>y. x = Inr y \<Longrightarrow> keeps P (g y)) \<Longrightarrow> keeps P (case x of Inl e \<Rightarrow> f e | Inr y \<Rightarrow> g y)"
  by (cases x) simp_all

lemma sample_wrap_keeps [keep]: "keeps P (sample_wrap dk)"
proof -
  have "keeps P (constant_random n)" for n by (simp add: keeps_def constant_random_def)
  then show ?thesis
    unfolding sample_wrap_def wrap_with_srw_def seal_with_def seal_body_def Let_def by (intro keep)
qed

lemma sample_wrap_same: "sample_wrap dk w = (q, w') \<Longrightarrow> w' = w"
  using keepsD [OF sample_wrap_keeps, of dk w q w' "\<lambda>u. u = w"] by simp

lemma sample_wraps: assumes "sample_wrap dk w = (Inr v, w')" shows "server_data_key (wd_blob v) = dk"
proof -
  have w: "wrap_with_srw plain_crypto constant_random dk sample_server_key 7 w = (Inr v, w')"
    using assms by (simp only: sample_wrap_def)
  have "unwrap_srw plain_crypto v sample_server_key = Inr dk" "wd_kind v = wrap_srw"
    by (rule wrap_with_srw_unwraps [OF plain_crypto_ok constant_fills w], rule wrap_with_srw_Inr(2) [OF w])
  then show ?thesis by (simp add: server_data_key_def unwrap_srw_def split: if_splits)
qed

interpretation memory_endpoints: key_endpoints "memory_key_ops now" "\<lambda>m. m" memory_recovery memory_held
    "\<lambda>_. True" "\<lambda>_. True" "\<lambda>_. True" "sample_key_api (memory_key_ops now)" sample_wrap client_data_key server_data_key for now
  by unfold_locales
    (auto simp: sample_key_api_def owner_gate_def access_keeps_def keeps_def dest: sample_wrap_same sample_wraps)

subsection \<open>On the durable store\<close>

definition service_key_ops ::
    "(wrapped_dk \<Rightarrow> 'v option) \<Rightarrow> ('v \<Rightarrow> wrapped_dk option) \<Rightarrow> (space_keys \<Rightarrow> 'v option) \<Rightarrow>
     ('v \<Rightarrow> space_keys option) \<Rightarrow> time \<Rightarrow> 'v backend key_ops" where
  "service_key_ops enc dec lenc ldec now = (let ks = service_keys enc dec lenc ldec in
     \<lparr>ko_put_rk = put_rk ks now, ko_put_srw = put_srw ks now, ko_get_rk = get_rk ks, ko_status = key_status_of ks\<rparr>)"

definition held_rk :: "(string \<rightharpoonup> 'v) \<Rightarrow> ('s, 'v) key_store \<Rightarrow> string \<Rightarrow> wrapped_dk option" where
  "held_rk m ks sp =
     (case held_envelope m ks sp kind_rk of Some w \<Rightarrow> if wd_kind w = wrap_rk then Some w else None | None \<Rightarrow> None)"

text \<open>No Space has a record of the older layout, and the next stamp of every record fits 64 bits.\<close>

definition no_older_records :: "('s, 'v) key_store \<Rightarrow> (string \<rightharpoonup> 'v) \<Rightarrow> bool" where
  "no_older_records ks m \<longleftrightarrow> (\<forall>sp. m (docs_key (kst_legacy ks) [sp]) = None)"

definition stamps_fit :: "('s, 'v) key_store \<Rightarrow> string \<Rightarrow> (string \<rightharpoonup> 'v) \<Rightarrow> bool" where
  "stamps_fit ks kind m \<longleftrightarrow> (\<forall>sp. stamps_below m (docs_key (v_docs (kst_envelopes ks)) [sp, kind]) max_int64)"

lemma kinds_apart:
  assumes "has_segment_prefix (docs_key (v_docs (kst_envelopes (service_keys enc dec lenc ldec))) [sp, kind] @ ''/'' @ v)
      (docs_key (v_docs (kst_envelopes (service_keys enc dec lenc ldec))) [sp, kind'])"
    and "{kind, kind'} = {kind_rk, kind_srw}"
  shows False
proof -
  let ?d = "v_docs (kst_envelopes (service_keys enc dec lenc ldec))"
  have names: "escape_segment kind_rk = ''rk''" "escape_segment kind_srw = ''srw''" "kind_rk \<noteq> []" "kind_srw \<noteq> []" by code_simp+
  have k: "kind = kind_rk \<and> kind' = kind_srw \<or> kind = kind_srw \<and> kind' = kind_rk" using assms(2) by (auto simp: doubleton_eq_iff)
  have "docs_key ?d [sp, kind] @ ''/'' @ v = docs_key ?d [sp, kind'] \<or>
      (\<exists>r. docs_key ?d [sp, kind] @ ''/'' @ v = docs_key ?d [sp, kind'] @ CHR ''/'' # r)"
    using assms(1) has_segment_prefix_iff [OF docs_key_not_nil last_docs_key [of "[sp, kind']" ?d]] k names(3,4) by auto
  then show False using k names(1,2) by (auto simp: envelope_key)
qed

text \<open>What an append leaves of every Space's envelopes of either kind.\<close>

lemma appended_envelope:
  fixes enc :: "wrapped_dk \<Rightarrow> 'v option"
  assumes rev: "reversible enc dec"
    and put: "key_append (service_keys enc dec lenc ldec) sp kind w now s = (r, s')"
    and now: "0 \<le> now" "now \<le> max_int64"
    and fit: "stamps_fit (service_keys enc dec lenc ldec) kind (backend_view s)"
    and kind: "{kind, other} = {kind_rk, kind_srw}"
  shows "held_envelope (backend_view s') (service_keys enc dec lenc ldec) sp' other =
      held_envelope (backend_view s) (service_keys enc dec lenc ldec) sp' other"
    and "stamps_fit (service_keys enc dec lenc ldec) other (backend_view s) \<longrightarrow>
      stamps_fit (service_keys enc dec lenc ldec) other (backend_view s')"
    and "no_older_records (service_keys enc dec lenc ldec) (backend_view s) \<longrightarrow>
      no_older_records (service_keys enc dec lenc ldec) (backend_view s')"
    and "backend_view s' = backend_view s \<and> r \<noteq> Inr () \<or>
      (\<forall>x. held_envelope (backend_view s') (service_keys enc dec lenc ldec) x kind =
        (if x = sp then Some w else held_envelope (backend_view s) (service_keys enc dec lenc ldec) x kind))"
proof -
  let ?ks = "service_keys enc dec lenc ldec"
  let ?v = "kst_envelopes ?ks"
  let ?d = "v_docs ?v"
  have names: "kind \<noteq> []" "other \<noteq> []" using kind kind_names by (auto simp: doubleton_eq_iff)
  have enc: "d_encode ?d = enc" by (simp add: service_keys_parts new_versions_def new_documents_def)
  have "(backend_view s' = backend_view s \<and> r \<noteq> Inr ()) \<or> (sp \<noteq> [] \<and> (\<exists>n raw. 0 \<le> n \<and> n \<le> max_int64 \<and> enc w = Some raw \<and>
      stamps_below (backend_view s) (docs_key ?d [sp, kind]) n \<and>
      backend_view s' = (backend_view s)(docs_key ?d [sp, kind] @ ''/'' @ version_name n \<mapsto> raw)))"
  proof (cases "sp = []")
    case True
    then show ?thesis using put by (auto simp: key_append_def fail_op_def)
  next
    case False
    obtain q where a: "versions_append ?v now w [sp, kind] s = (q, s')" and q: "r = Inr () \<Longrightarrow> q = Inr ()"
      using put False by (auto simp: key_append_def elim!: try_op_cases)
    show ?thesis
      using versioned.versions_append_effect [OF service_envelopes_versioned [OF rev] a _ _ now] fit q False
      by (auto simp: stamps_fit_def names enc)
  qed
  then have "held_envelope (backend_view s') ?ks sp' other = held_envelope (backend_view s) ?ks sp' other \<and>
    (stamps_fit ?ks other (backend_view s) \<longrightarrow> stamps_fit ?ks other (backend_view s')) \<and>
    (no_older_records ?ks (backend_view s) \<longrightarrow> no_older_records ?ks (backend_view s')) \<and>
    (backend_view s' = backend_view s \<and> r \<noteq> Inr () \<or>
      (\<forall>x. held_envelope (backend_view s') ?ks x kind = (if x = sp then Some w else held_envelope (backend_view s) ?ks x kind)))"
  proof (elim disjE conjE exE)
    fix n raw
    let ?k = "docs_key ?d [sp, kind] @ ''/'' @ version_name n"
    assume sp: "sp \<noteq> []" and n: "0 \<le> n" "n \<le> max_int64" and raw: "enc w = Some raw"
      and below: "stamps_below (backend_view s) (docs_key ?d [sp, kind]) n"
      and v: "backend_view s' = (backend_view s)(?k \<mapsto> raw)"
    have untouched: "record_keys (backend_view s') (docs_key ?d [x, kd]) = record_keys (backend_view s) (docs_key ?d [x, kd]) \<and>
        held_envelope (backend_view s') ?ks x kd = held_envelope (backend_view s) ?ks x kd"
      if "\<not> has_segment_prefix ?k (docs_key ?d [x, kd])" for x kd
    proof -
      have keys: "record_keys (backend_view s') (docs_key ?d [x, kd]) = record_keys (backend_view s) (docs_key ?d [x, kd])"
        using that by (simp add: v record_keys_insert)
      have "doc_at ?d (backend_view s') j = doc_at ?d (backend_view s) j" if j: "newest_version (envelope_keys (backend_view s) ?ks x kd) = Some (m, j)" for m j
      proof -
        have "j \<in> record_keys (backend_view s) (docs_key ?d [x, kd])"
          using newest_version_Some(1) [OF j] by (simp add: envelope_keys_def finite_view)
        then have "j \<noteq> ?k" using \<open>\<not> has_segment_prefix ?k (docs_key ?d [x, kd])\<close> by (auto simp: record_keys_def)
        then show ?thesis by (simp add: v doc_at_def)
      qed
      moreover have "doc_at (kst_legacy ?ks) (backend_view s') (docs_key (kst_legacy ?ks) [x]) =
          doc_at (kst_legacy ?ks) (backend_view s) (docs_key (kst_legacy ?ks) [x])"
        using layouts_apart [of enc dec lenc ldec "[x]" sp kind "''/'' @ version_name n"] by (simp add: v doc_at_def)
      ultimately show ?thesis using keys by (simp add: held_envelope_def envelope_keys_def split: option.splits)
    qed
    have away: "\<not> has_segment_prefix ?k (docs_key ?d [x, kd])" if "x \<noteq> sp" "kd \<noteq> []" for x kd
      using envelope_records_apart [OF sp] that by blast
    have apart: "\<not> has_segment_prefix ?k (docs_key ?d [x, other])" for x
      using away [of x other] kinds_apart [OF _ kind] names by (cases "x = sp") blast+
    have "held_envelope (backend_view s') ?ks sp kind = Some w"
    proof -
      have "has_segment_prefix ?k (docs_key ?d [sp, kind])"
        using has_segment_prefix_below [OF docs_key_not_nil last_docs_key [of "[sp, kind]" ?d]] names by simp
      then have "envelope_keys (backend_view s') ?ks sp kind = sorted_list_of_set (insert ?k (record_keys (backend_view s) (docs_key ?d [sp, kind])))"
        by (simp add: envelope_keys_def v record_keys_insert)
      then have "newest_version (envelope_keys (backend_view s') ?ks sp kind) = Some (n, ?k)"
        using newest_inserted [OF finite_view version_nanos_name [OF n]] below unfolding stamps_below_def by metis
      moreover have "doc_at ?d (backend_view s') ?k = Some w"
        using collection.doc_at_written [OF service_envelope_docs [OF rev]] v raw enc by metis
      ultimately show ?thesis by (simp add: held_envelope_def)
    qed
    moreover have "stamps_fit ?ks other (backend_view s) \<longrightarrow> stamps_fit ?ks other (backend_view s')"
      using untouched [OF apart] by (simp add: stamps_fit_def stamps_below_def)
    moreover have "held_envelope (backend_view s') ?ks x kind = held_envelope (backend_view s) ?ks x kind" if "x \<noteq> sp" for x
      using untouched [OF away [OF that]] names by blast
    moreover have "docs_key (kst_legacy ?ks) [x] \<noteq> ?k" for x
      using layouts_apart [of enc dec lenc ldec "[x]" sp kind "''/'' @ version_name n"] by simp
    then have "no_older_records ?ks (backend_view s) \<longrightarrow> no_older_records ?ks (backend_view s')"
      by (simp add: no_older_records_def v)
    ultimately show ?thesis using untouched [OF apart] by simp
  qed simp
  then show "held_envelope (backend_view s') ?ks sp' other = held_envelope (backend_view s) ?ks sp' other"
    and "stamps_fit ?ks other (backend_view s) \<longrightarrow> stamps_fit ?ks other (backend_view s')"
    and "no_older_records ?ks (backend_view s) \<longrightarrow> no_older_records ?ks (backend_view s')"
    and "backend_view s' = backend_view s \<and> r \<noteq> Inr () \<or>
      (\<forall>x. held_envelope (backend_view s') ?ks x kind = (if x = sp then Some w else held_envelope (backend_view s) ?ks x kind))"
    by blast+
qed

text \<open>The status is the truth while no record of the older layout is left.\<close>

lemma held_without_older:
  "no_older_records ks m \<Longrightarrow> held_envelope m ks sp kind =
     (case newest_version (envelope_keys m ks sp kind) of Some (_, k) \<Rightarrow> doc_at (v_docs (kst_envelopes ks)) m k | None \<Rightarrow> None)"
  by (simp add: held_envelope_def no_older_records_def doc_at_def split: option.splits)

lemma key_status_truth:
  assumes rev: "reversible enc dec" "reversible lenc ldec"
    and l: "key_status_of (service_keys enc dec lenc ldec) sp s = (r, s')"
  shows "backend_view s' = backend_view s \<and> (\<forall>k. r = Inr k \<longrightarrow> no_older_records (service_keys enc dec lenc ldec) (backend_view s) \<longrightarrow>
    (ks_configured k \<longleftrightarrow> held_rk (backend_view s) (service_keys enc dec lenc ldec) sp \<noteq> None \<and>
       held_srw (backend_view s) (service_keys enc dec lenc ldec) sp \<noteq> None))"
proof -
  let ?ks = "service_keys enc dec lenc ldec"
  obtain rk s1 where a: "versions_load (kst_envelopes ?ks) [sp, kind_rk] s = (rk, s1)" by fastforce
  obtain srw s2 where b: "versions_load (kst_envelopes ?ks) [sp, kind_srw] s1 = (srw, s2)" by fastforce
  obtain leg s3 where c: "legacy_record ?ks sp s2 = (leg, s3)" by fastforce
  note A = envelope_load [OF rev(1) a] and B = envelope_load [OF rev(1) b] and C = legacy_record_reads [OF rev(2) c]
  have view: "backend_view s1 = backend_view s" "backend_view s2 = backend_view s" "backend_view s3 = backend_view s"
    using A B C by simp_all
  have s': "s' = s2 \<or> s' = s3"
    using l a b c by (auto simp: key_status_of_def key_read_def Let_def split: prod.splits option.splits sum.splits if_splits store_key_error.splits)
  have "ks_configured k \<longleftrightarrow> held_rk (backend_view s) ?ks sp \<noteq> None \<and> held_srw (backend_view s) ?ks sp \<noteq> None"
    if k: "r = Inr k" and none: "no_older_records ?ks (backend_view s)" for k
  proof -
    have legacy: "leg \<noteq> Inr x" for x using C none view by (auto simp: no_older_records_def doc_at_def)
    have held: "held_envelope (backend_view s) ?ks sp kind_rk = (if present rk then Some (loaded rk) else None)" if "hard_failure rk = None"
      using A that by (cases rk) (auto simp: held_without_older [OF none] present_def loaded_def hard_failure_def split: if_splits)
    have held2: "held_envelope (backend_view s) ?ks sp kind_srw = (if present srw then Some (loaded srw) else None)" if "hard_failure srw = None"
      using B that view by (cases srw) (auto simp: held_without_older [OF none] present_def loaded_def hard_failure_def split: if_splits)
    have soft: "hard_failure rk = None" "hard_failure srw = None"
      using l k a b by (auto simp: key_status_of_def key_read_def Let_def split: prod.splits option.splits)
    show ?thesis
    proof (cases "present rk \<and> present srw")
      case True
      then have "k = status_of \<lparr>sk_space = sp, sk_rk = loaded rk, sk_srw = loaded srw,
               sk_created = earliest (span_oldest (loaded_span rk)) (span_oldest (loaded_span srw)),
               sk_updated = latest (span_newest (loaded_span rk)) (span_newest (loaded_span srw))\<rparr>"
        using l k a b soft by (auto simp: key_status_of_def key_read_def Let_def)
      then show ?thesis using True held [OF soft(1)] held2 [OF soft(2)] by (auto simp: status_of_def held_rk_def held_srw_def Let_def)
    next
      case False
      obtain e where leg: "leg = Inl e" using legacy by (cases leg) auto
      have "\<not> ks_configured k"
        using l k a b c leg soft False
        by (auto simp: key_status_of_def key_read_def Let_def status_of_def no_status_def present_def loaded_def zero_wrapped_def
            wrap_unknown_def wrap_rk_def wrap_srw_def split: store_key_error.splits sum.splits if_splits)
      then show ?thesis using False held [OF soft(1)] held2 [OF soft(2)] by (auto simp: held_rk_def held_srw_def)
    qed
  qed
  then show ?thesis using s' view by blast
qed

lemma get_rk_reads:
  assumes rev: "reversible enc dec" "reversible lenc ldec"
    and l: "get_rk (service_keys enc dec lenc ldec) sp s = (r, s')"
  shows "backend_view s' = backend_view s \<and>
    (\<forall>w. r = Inr w \<longrightarrow> held_rk (backend_view s) (service_keys enc dec lenc ldec) sp = Some w)"
  using l key_envelope_reads [OF rev, of sp kind_rk s]
  by (fastforce simp: get_rk_def key_newest_def held_rk_def elim!: try_op_cases split: if_splits)

lemma service_key_records:
  assumes rev: "reversible enc dec" "reversible lenc ldec" and now: "0 \<le> now" "now \<le> max_int64"
  shows "key_records (service_key_ops enc dec lenc ldec now) backend_view
    (\<lambda>m. held_rk m (service_keys enc dec lenc ldec)) (\<lambda>m. held_srw m (service_keys enc dec lenc ldec))
    (no_older_records (service_keys enc dec lenc ldec))
    (stamps_fit (service_keys enc dec lenc ldec) kind_rk) (stamps_fit (service_keys enc dec lenc ldec) kind_srw)"
proof (unfold_locales, goal_cases)
  case (1 sp w q w')
  then show ?case using key_status_truth [OF rev] by (auto simp: service_key_ops_def Let_def)
next
  case (2 w sp k w')
  then show ?case using key_status_truth [OF rev, of sp w "Inr k" w'] by (simp add: service_key_ops_def Let_def)
next
  case (3 sp w g w')
  then show ?case using get_rk_reads [OF rev] by (auto simp: service_key_ops_def Let_def)
next
  case (4 sp w v w')
  then show ?case using get_rk_reads [OF rev, of sp w "Inr v" w'] by (simp add: service_key_ops_def Let_def)
next
  case (5 w sp v p w')
  let ?ks = "service_keys enc dec lenc ldec"
  have put: "put_rk ?ks now sp v w = (p, w')" using 5(2) by (simp add: service_key_ops_def Let_def)
  show ?case
  proof (cases "wd_kind v = wrap_rk")
    case True
    then have a: "key_append ?ks sp kind_rk v now w = (p, w')" using put by (simp add: put_rk_def)
    note e = appended_envelope [OF rev(1) a now 5(1), where other = kind_srw, OF refl]
    show ?thesis
      using e(4)
      by (elim disjE) (simp add: held_rk_def held_srw_def e(1-3), simp add: held_rk_def held_srw_def e(1-3) True fun_eq_iff)
  next
    case False
    then show ?thesis using put by (auto simp: put_rk_def fail_op_def)
  qed
next
  case (6 w sp v p w')
  let ?ks = "service_keys enc dec lenc ldec"
  have put: "put_srw ?ks now sp v w = (p, w')" using 6(2) by (simp add: service_key_ops_def Let_def)
  show ?case
  proof (cases "wd_kind v = wrap_srw")
    case True
    then have a: "key_append ?ks sp kind_srw v now w = (p, w')" using put by (simp add: put_srw_def)
    note e = appended_envelope [OF rev(1) a now 6(1), where other = kind_rk, OF insert_commute]
    show ?thesis
      using e(4)
      by (elim disjE) (simp add: held_rk_def held_srw_def e(1-3), simp add: held_rk_def held_srw_def e(1-3) True fun_eq_iff)
  next
    case False
    then show ?thesis using put by (auto simp: put_srw_def fail_op_def)
  qed
qed

text \<open>The endpoints as served at different times, over the same store.\<close>

definition served_at :: "'w keys_api \<Rightarrow> (time \<Rightarrow> 'w key_ops) \<Rightarrow> time \<Rightarrow> 'w keys_api" where
  "served_at api ops now = api\<lparr>ka_store := Some (ops now)\<rparr>"

definition durable_step ::
    "('v backend, 'v) key_store \<Rightarrow> 'v backend keys_api \<Rightarrow> (time \<Rightarrow> 'v backend key_ops) \<Rightarrow> (bytes \<Rightarrow> bytes) \<Rightarrow>
     'v backend \<times> ceremony list \<Rightarrow> 'v backend \<times> ceremony list \<Rightarrow> bool" where
  "durable_step ks api ops in_rk x y \<longleftrightarrow>
     stamps_fit ks kind_rk (backend_view (fst x)) \<and> stamps_fit ks kind_srw (backend_view (fst x)) \<and>
     (\<exists>now. 0 \<le> now \<and> now \<le> max_int64 \<and> key_step (served_at api ops now) in_rk x y)"

lemma honest_served: "honest (served_at api ops now) in_rk c \<longleftrightarrow> honest api in_rk c"
  by (cases c) (simp_all add: served_at_def envelope_digest_def)

lemma service_key_endpoints:
  assumes rev: "reversible enc dec" "reversible lenc ldec" and now: "0 \<le> now" "now \<le> max_int64"
    and wrap: "ka_wrap api = Some wrap" and gate: "\<And>m. access_keeps (\<lambda>s. backend_view s = m) (ga_access (ka_gate api))"
    and same: "\<And>dk s q s'. wrap dk s = (q, s') \<Longrightarrow> backend_view s' = backend_view s"
    and wraps: "\<And>dk s v s'. wrap dk s = (Inr v, s') \<Longrightarrow> in_srw (wd_blob v) = dk"
  shows "key_endpoints (service_key_ops enc dec lenc ldec now) backend_view
    (\<lambda>m. held_rk m (service_keys enc dec lenc ldec)) (\<lambda>m. held_srw m (service_keys enc dec lenc ldec))
    (no_older_records (service_keys enc dec lenc ldec))
    (stamps_fit (service_keys enc dec lenc ldec) kind_rk) (stamps_fit (service_keys enc dec lenc ldec) kind_srw)
    (served_at api (service_key_ops enc dec lenc ldec) now) wrap in_srw"
  using service_key_records [OF rev now] assms(5-8)
  by (auto simp: key_endpoints_def key_endpoints_axioms_def served_at_def)

lemma durable_run:
  assumes rev: "reversible enc dec" "reversible lenc ldec"
    and wrap: "ka_wrap api = Some wrap" and gate: "\<And>m. access_keeps (\<lambda>s. backend_view s = m) (ga_access (ka_gate api))"
    and same: "\<And>dk s q s'. wrap dk s = (q, s') \<Longrightarrow> backend_view s' = backend_view s"
    and wraps: "\<And>dk s v s'. wrap dk s = (Inr v, s') \<Longrightarrow> in_srw (wd_blob v) = dk"
    and ks: "ks = service_keys enc dec lenc ldec"
    and start: "no_older_records ks (backend_view w)" "one_key in_rk in_srw (\<lambda>m. held_rk m ks) (\<lambda>m. held_srw m ks) (backend_view w)"
    and run: "(durable_step ks api (service_key_ops enc dec lenc ldec) in_rk)\<^sup>*\<^sup>* (w, []) y"
  shows "list_all (honest api in_rk) (snd y) \<and> no_older_records ks (backend_view (fst y)) \<and>
    one_key in_rk in_srw (\<lambda>m. held_rk m ks) (\<lambda>m. held_srw m ks) (backend_view (fst y)) \<and>
    same_key (\<lambda>m. held_srw m ks) (backend_view w) (backend_view (fst y))"
  using run
proof (induction rule: rtranclp_induct)
  case base
  then show ?case using start by (simp add: same_key_def)
next
  case (step y z)
  obtain now where now: "0 \<le> now" "now \<le> max_int64"
    and s: "key_step (served_at api (service_key_ops enc dec lenc ldec) now) in_rk (fst y, snd y) (fst z, snd z)"
    using step(2) by (auto simp: durable_step_def)
  have room: "stamps_fit ks kind_rk (backend_view (fst y))" "stamps_fit ks kind_srw (backend_view (fst y))"
    using step(2) by (simp_all add: durable_step_def)
  have "key_endpoints (service_key_ops enc dec lenc ldec now) backend_view (\<lambda>m. held_rk m ks) (\<lambda>m. held_srw m ks)
      (no_older_records ks) (stamps_fit ks kind_rk) (stamps_fit ks kind_srw)
      (served_at api (service_key_ops enc dec lenc ldec) now) wrap in_srw"
    unfolding ks by (rule service_key_endpoints [OF rev now wrap gate]) (blast dest: same wraps)+
  note one = key_endpoints.step_effect [OF this s]
  have "list_all (honest (served_at api (service_key_ops enc dec lenc ldec) now) in_rk) (snd y)"
    using step(3) by (simp add: honest_served list_all_iff)
  from one [OF this] show ?case
    using step(3) room by (auto simp: honest_served list_all_iff same_key_def)
qed

text \<open>The service's own store of envelopes, and its endpoints over it.\<close>

definition durable_key_ops :: "time \<Rightarrow> ((wrapped_dk + space_keys) backend) key_ops" where
  "durable_key_ops = service_key_ops sample_encode sample_decode sample_legacy_encode sample_legacy_decode"

definition durable_api :: "((wrapped_dk + space_keys) backend) keys_api" where
  "durable_api = sample_key_api (durable_key_ops 0)"

lemma durable_sample_endpoints:
  assumes "0 \<le> now" "now \<le> max_int64"
  shows "key_endpoints (durable_key_ops now) backend_view (\<lambda>m. held_rk m sample_keys) (\<lambda>m. held_srw m sample_keys)
    (no_older_records sample_keys) (stamps_fit sample_keys kind_rk) (stamps_fit sample_keys kind_srw)
    (served_at durable_api durable_key_ops now) sample_wrap server_data_key"
  unfolding sample_keys_def durable_key_ops_def
  by (rule service_key_endpoints [OF sample_reversible assms])
    (auto simp: durable_api_def sample_key_api_def owner_gate_keeps dest: sample_wrap_same sample_wraps)

interpretation durable_endpoints: key_endpoints "durable_key_ops 9" backend_view "\<lambda>m. held_rk m sample_keys" "\<lambda>m. held_srw m sample_keys"
    "no_older_records sample_keys" "stamps_fit sample_keys kind_rk" "stamps_fit sample_keys kind_srw"
    "served_at durable_api durable_key_ops 9" sample_wrap client_data_key server_data_key
  by (rule durable_sample_endpoints) (simp_all add: max_int64_def)

subsection \<open>Properties\<close>

text \<open>C2: A Space that is set up keeps its Data Key. Over the service's durable key store without records of the older
  layout, however key ceremonies and Recovery Key rotations interleave, at whatever times they are served, and whichever
  reads and writes of the store fail, before or after their effect, a server envelope once stored is never replaced by another
  one, and the newest recovery envelope beside it holds the same Data Key, as long as clients wrap the Data Key
  they say they wrap. Version stamps are taken not to reach the end of the 64-bit range.\<close>

theorem data_key_set_once:
  fixes w w' :: "'v backend"
  assumes "reversible enc dec" "reversible lenc ldec" "ks = service_keys enc dec lenc ldec"
    and "ka_wrap api = Some wrap" "\<And>m. access_keeps (\<lambda>s. backend_view s = m) (ga_access (ka_gate api))"
    and "\<And>dk s q s'. wrap dk s = (q, s') \<Longrightarrow> backend_view s' = backend_view s"
    and "\<And>dk s v s'. wrap dk s = (Inr v, s') \<Longrightarrow> in_srw (wd_blob v) = dk"
    and "no_older_records ks (backend_view w)"
    and "one_key in_rk in_srw (\<lambda>m. held_rk m ks) (\<lambda>m. held_srw m ks) (backend_view w)"
    and "(durable_step ks api (service_key_ops enc dec lenc ldec) in_rk)\<^sup>*\<^sup>* (w, []) (w', cs)"
  shows "one_key in_rk in_srw (\<lambda>m. held_rk m ks) (\<lambda>m. held_srw m ks) (backend_view w') \<and>
    (\<forall>sp s. held_srw (backend_view w) ks sp = Some s \<longrightarrow> held_srw (backend_view w') ks sp = Some s)"
  using durable_run [OF assms(1,2,4,5) assms(6,7,3,8,9,10)] by (simp add: same_key_def)

text \<open>A first setup whose last write is reported as failed, although it took place.\<close>

definition fresh_keys :: "(wrapped_dk + space_keys) backend" where
  "fresh_keys = \<lparr>contents = [], faults = replicate 9 Works @ [FailsAfter]\<rparr>"

theorem data_key_set_once_witness:
  "\<exists>w' v. held_srw (backend_view w') sample_keys ''a'' = Some v \<and>
     one_key client_data_key server_data_key (\<lambda>m. held_rk m sample_keys) (\<lambda>m. held_srw m sample_keys) (backend_view w')"
proof -
  let ?api = "served_at durable_api durable_key_ops 9"
  obtain q w1 where q: "setup_checked ?api owner_request fresh_keys = (q, w1)" by fastforce
  have f: "case fst (setup_checked ?api owner_request fresh_keys) of
      Inr (Setup sp dk blob info) \<Rightarrow> client_data_key blob = dk | _ \<Rightarrow> False" by code_simp
  then obtain c where c: "q = Inr c" and h: "honest ?api client_data_key c"
    unfolding q by (cases q) (auto split: ceremony.splits)
  obtain r w2 where r: "ceremony_locked ?api c w1 = (r, w2)" by fastforce
  have "snd (handle_key_setup ?api owner_request fresh_keys) = w2"
    unfolding handle_key_setup_def respond_def try_op_def by (cases r) (simp_all add: q c r)
  moreover have "isl (fst (get_srw sample_keys ''a'' (snd (handle_key_setup ?api owner_request fresh_keys)))) = False" by code_simp
  ultimately obtain v w3 where v: "get_srw sample_keys ''a'' w2 = (Inr v, w3)"
    by (cases "get_srw sample_keys ''a'' w2"; cases "fst (get_srw sample_keys ''a'' w2)") auto
  have held: "held_srw (backend_view w2) sample_keys ''a'' = Some v"
    using get_srw_reads [OF sample_reversible v [unfolded sample_keys_def]] by (simp add: sample_keys_def)
  have empty: "backend_view fresh_keys = Map.empty" by (simp add: fresh_keys_def backend_view_def)
  have "backend_view w1 = Map.empty"
    using keepsD [OF durable_endpoints.checked_keeps(1) q, of Map.empty] empty by simp
  then have fit: "stamps_fit sample_keys kind (backend_view fresh_keys)" "stamps_fit sample_keys kind (backend_view w1)" for kind
    by (simp_all add: stamps_fit_def stamps_below_def record_keys_def empty)
  have t: "(0::int) \<le> 9" "(9::int) \<le> max_int64" by (simp_all add: max_int64_def)
  have "durable_step sample_keys durable_api durable_key_ops client_data_key (fresh_keys, []) (w1, [c])"
    using fit t setup_arrives [OF q [unfolded c] h] unfolding durable_step_def fst_conv by blast
  moreover have "durable_step sample_keys durable_api durable_key_ops client_data_key (w1, [c]) (w2, remove1 c [c])"
    using fit t locked [OF _ r, of "[c]"] unfolding durable_step_def fst_conv by fastforce
  ultimately have run: "(durable_step sample_keys durable_api durable_key_ops client_data_key)\<^sup>*\<^sup>* (fresh_keys, []) (w2, [])"
    by (auto intro: converse_rtranclp_into_rtranclp)
  have none: "held_srw Map.empty sample_keys sp = None" for sp
    by (simp add: held_srw_def held_envelope_def envelope_keys_def record_keys_def doc_at_def split: option.splits)
  have "one_key client_data_key server_data_key (\<lambda>m. held_rk m sample_keys) (\<lambda>m. held_srw m sample_keys) (backend_view w2)"
    using data_key_set_once [OF sample_reversible sample_keys_def _ _ _ _ _ _ run [unfolded durable_key_ops_def], of sample_wrap server_data_key]
    by (auto simp: durable_api_def sample_key_api_def owner_gate_keeps empty no_older_records_def one_key_def none
        dest: sample_wrap_same sample_wraps)
  then show ?thesis using held by blast
qed

text \<open>A Space of the older layout after a rotation of the server key.\<close>

definition server_wrapped :: "bytes \<Rightarrow> wrapped_dk" where
  "server_wrapped dk = (case sample_wrap dk () of (Inr v, _) \<Rightarrow> v | (Inl _, _) \<Rightarrow> zero_wrapped)"

definition rotated_space :: "fault list \<Rightarrow> (wrapped_dk + space_keys) backend" where
  "rotated_space fs = \<lparr>contents = [(''keyenvelopes/a/srw/0000000000000000005'', Inl (server_wrapped (replicate 32 8))),
     (''keys/a'', Inr \<lparr>sk_space = ''a'', sk_rk = zero_wrapped\<lparr>wd_kind := wrap_rk\<rparr>, sk_srw = zero_wrapped,
        sk_created = 1, sk_updated = 2\<rparr>)], faults = fs\<rparr>"

text \<open>What the server would unwrap for the Space.\<close>

definition held_data_key :: "(wrapped_dk + space_keys) backend \<Rightarrow> bytes option" where
  "held_data_key s = (case fst (get_srw sample_keys ''a'' s) of Inl _ \<Rightarrow> None | Inr w \<Rightarrow> Some (server_data_key (wd_blob w)))"

text \<open>An outage can overwrite a Data Key. A Space whose recovery envelope still lies in the older layout and whose
  server envelope has been rotated is set up, and a second setup is refused; but while the older record cannot be read its
  status says that it is not set up, the setup is accepted, and from then on the server wraps another Data Key than
  the one every snapshot of the Space is encrypted under.\<close>

lemma outage_overwrites_data_key:
  "rs_status (fst (handle_key_setup (sample_key_api (durable_key_ops 9)) owner_request (rotated_space []))) = 409 \<and>
   (case handle_key_setup (sample_key_api (durable_key_ops 9)) owner_request
       (rotated_space [Works, Works, Works, FailsBefore, Works, Works, Works, FailsBefore]) of
     (r, s) \<Rightarrow> rs_status r = 201 \<and> held_data_key (rotated_space []) = Some (replicate 32 8) \<and> held_data_key s = Some (replicate 32 9))"
  by (rule conjI) code_simp+

end
