(* ===== verification/Api_Config.thy ===== *)
theory Api_Config
  imports Api_Keys Restore_Run Notify_Monitor
begin

text \<open>
  The endpoints of a Space's backups (src/internal/api/backup.go, schedule.go, restore.go): configuration and schedule,
  runs and their history, the status board, notifications, snapshots and restores. The stores, the workers and the
  scheduler are records of the operations the handlers call.
\<close>

subsection \<open>What they call\<close>

record 'w config_ops =
  co_get :: "string \<Rightarrow> ('w, cfg_error, space_config) op"
  co_put :: "space_config \<Rightarrow> ('w, cfg_error, space_config) op"

record 'w history_ops =
  ho_recent :: "string \<Rightarrow> int \<Rightarrow> ('w, jobs_error, job list) op"
  ho_of_kind :: "string \<Rightarrow> job_kind \<Rightarrow> int \<Rightarrow> ('w, jobs_error, job list) op"
  ho_in_space :: "string \<Rightarrow> string \<Rightarrow> ('w, jobs_error, job) op"

record 'w advisor_ops =
  av_next :: "string \<Rightarrow> ('w, string, time) op"
  av_zone :: string

record 'w restore_ops =
  ro_snapshots :: "string \<Rightarrow> ('w, restore_error, snap_info list) op"
  ro_start :: "string \<Rightarrow> string \<Rightarrow> ('w, restore_error, string) op"

record config_request =
  cq_target :: string
  cq_days :: int
  cq_enabled :: bool

record config_patch =
  cp_target :: "string option"
  cp_days :: "int option"
  cp_enabled :: "bool option"

record schedule_request =
  sr_enabled :: bool
  sr_preset :: "preset option"
  sr_cron :: string

record 'w config_api =
  ca_gate :: "'w gate"
  ca_configs :: "'w config_ops option"
  ca_may_use :: "(string \<Rightarrow> string \<Rightarrow> string \<Rightarrow> ('w, target_error, bool) op) option"
  ca_start :: "(string \<Rightarrow> ('w, run_error, string) op) option"
  ca_jobs :: "'w history_ops option"
  ca_keys :: "'w key_ops option"
  ca_advisor :: "'w advisor_ops option"
  ca_events :: "(string \<Rightarrow> int \<Rightarrow> ('w, notify_error, event list) op) option"
  ca_restorer :: "'w restore_ops option"
  ca_cron :: cron_library
  ca_stale_floor :: duration
  ca_put_body :: "config_request body_decoder"
  ca_patch_body :: "config_patch body_decoder"
  ca_schedule_body :: "schedule_request body_decoder"
  ca_restore_body :: "string body_decoder"

definition max_config_request_bytes :: nat where "max_config_request_bytes = 4096"
definition max_schedule_request_bytes :: nat where "max_schedule_request_bytes = 4096"
definition max_restore_request_bytes :: nat where "max_restore_request_bytes = 4096"

definition config_missing :: response where "config_missing = unavailable ''backup configuration not available''"

definition cfg_unreadable :: "cfg_error \<Rightarrow> response" where
  "cfg_unreadable = internal_error ''could not read backup configuration''"

definition is_config_not_found :: "cfg_error \<Rightarrow> bool" where
  "is_config_not_found e = (case e of NoSpaceConfig _ \<Rightarrow> True | _ \<Rightarrow> False)"

definition space_unconfigured :: response where
  "space_unconfigured = write_error 404 ''not_found'' ''backup is not configured for this space''"

subsection \<open>Configuration\<close>

text \<open>\<open>time.Duration(days) * 24 * time.Hour\<close> wraps.\<close>

definition days_window :: "int \<Rightarrow> duration" where
  "days_window days = wrap_int64 (days * 24 * hour)"

definition window_days :: "duration \<Rightarrow> int" where
  "window_days d = d div (24 * hour)"

definition config_json :: "space_config \<Rightarrow> json" where
  "config_json c = JObj ([(''space_id'', JStr (cfg_space c)), (''target_id'', JStr (cfg_target c)),
     (''retention_days'', JInt (window_days (effective_window c))), (''schedule'', JStr (effective_schedule c)),
     (''enabled'', JBool (cfg_enabled c))] @
     opt_str ''created_at'' (format_time (cfg_created c)) @ opt_str ''updated_at'' (format_time (cfg_updated c)))"

definition handle_get_config :: "'w config_api \<Rightarrow> request \<Rightarrow> 'w handler" where
  "handle_get_config api rq = respond
     (try_op id (with_role (ca_gate api) role_viewer rq) (\<lambda>sp.
      try_op id (present_or config_missing (ca_configs api)) (\<lambda>st.
      try_op (\<lambda>e. if is_config_not_found e then space_unconfigured else cfg_unreadable e) (co_get st sp) (\<lambda>cfg.
      ok_op (write_json 200 (config_json cfg))))))"

definition valid_retention_days :: "int \<Rightarrow> response option" where
  "valid_retention_days days =
     (if days < 0 then Some (write_error 400 ''bad_request'' ''retention_days must not be negative'')
      else if days > 0 \<and> days_window days < min_retention_window
      then Some (write_error 400 ''bad_request'' ''retention_days must be at least 7'')
      else None)"

definition may_bind_target ::
    "(string \<Rightarrow> string \<Rightarrow> string \<Rightarrow> ('w, target_error, bool) op) \<Rightarrow> string \<Rightarrow> string \<Rightarrow> string \<Rightarrow> ('w, unit) step" where
  "may_bind_target may user sp t w =
     (case may user sp t w of
        (Inr True, w) \<Rightarrow> (Inr (), w)
      | (_, w) \<Rightarrow> (Inl (write_error 403 ''forbidden'' ''target not available for this space''), w))"

definition store_config :: "'w config_ops \<Rightarrow> space_config \<Rightarrow> ('w, response) step" where
  "store_config st cfg = try_op (internal_error ''could not store backup configuration'') (co_put st cfg)
     (\<lambda>stored. ok_op (write_json 200 (config_json stored)))"

text \<open>The schedule a replacement keeps.\<close>

definition kept_schedule :: "'w config_ops \<Rightarrow> string \<Rightarrow> ('w, string) step" where
  "kept_schedule st sp w =
     (case co_get st sp w of
        (Inr cfg, w) \<Rightarrow> (Inr (cfg_schedule cfg), w)
      | (Inl e, w) \<Rightarrow> if is_config_not_found e then (Inr [], w) else (Inl (cfg_unreadable e), w))"

definition handle_put_config :: "'w config_api \<Rightarrow> request \<Rightarrow> 'w handler" where
  "handle_put_config api rq = respond
     (try_op id (with_role (ca_gate api) role_editor rq) (\<lambda>sp.
      case (ca_configs api, ca_may_use api) of
        (Some st, Some may) \<Rightarrow>
          try_op id (body_of (ca_gate api) (ca_put_body api) max_config_request_bytes rq) (\<lambda>body.
          refuse_if (cq_target body = []) (write_error 400 ''bad_request'' ''target_id is required'')
          (require_op (valid_retention_days (cq_days body))
          (try_op id (may_bind_target may (rq_user rq) sp (cq_target body)) (\<lambda>_.
           try_op id (kept_schedule st sp) (\<lambda>schedule.
           store_config st \<lparr>cfg_space = sp, cfg_target = cq_target body, cfg_window = days_window (cq_days body),
             cfg_schedule = schedule, cfg_enabled = cq_enabled body, cfg_created = zero_time, cfg_updated = zero_time\<rparr>)))))
      | _ \<Rightarrow> fail_op config_missing))"

definition patched :: "config_patch \<Rightarrow> space_config \<Rightarrow> space_config" where
  "patched p c = c\<lparr>cfg_target := (case cp_target p of None \<Rightarrow> cfg_target c | Some t \<Rightarrow> t),
     cfg_window := (case cp_days p of None \<Rightarrow> cfg_window c | Some d \<Rightarrow> days_window d),
     cfg_enabled := (case cp_enabled p of None \<Rightarrow> cfg_enabled c | Some b \<Rightarrow> b)\<rparr>"

definition handle_patch_config :: "'w config_api \<Rightarrow> request \<Rightarrow> 'w handler" where
  "handle_patch_config api rq = respond
     (try_op id (with_role (ca_gate api) role_editor rq) (\<lambda>sp.
      try_op id (present_or config_missing (ca_configs api)) (\<lambda>st.
      try_op id (body_of (ca_gate api) (ca_patch_body api) max_config_request_bytes rq) (\<lambda>p.
      refuse_if (cp_target p = Some []) (write_error 400 ''bad_request'' ''target_id must not be empty'')
      (require_op (case cp_days p of None \<Rightarrow> None | Some d \<Rightarrow> valid_retention_days d)
      (try_op (\<lambda>e. if is_config_not_found e then space_unconfigured else cfg_unreadable e) (co_get st sp) (\<lambda>cfg.
       try_op id (case cp_target p of
           None \<Rightarrow> ok_op ()
         | Some t \<Rightarrow> (case ca_may_use api of
               None \<Rightarrow> fail_op config_missing
             | Some may \<Rightarrow> may_bind_target may (rq_user rq) sp t))
         (\<lambda>_. store_config st (patched p cfg)))))))))"

subsection \<open>Schedules\<close>

definition resolve_schedule :: "cron_library \<Rightarrow> schedule_request \<Rightarrow> string + string" where
  "resolve_schedule cron rq =
     (case sr_preset rq of
        Some p \<Rightarrow> (case preset_cron p of Inl e \<Rightarrow> Inl ''unsupported schedule preset'' | Inr c \<Rightarrow> Inr c)
      | None \<Rightarrow>
          if sr_cron rq = [] then Inr []
          else (case validate_cron cron (sr_cron rq) of
                  Some e \<Rightarrow> Inl ''schedule is not a valid cron expression''
                | None \<Rightarrow> Inr (sr_cron rq)))"

definition preset_json :: "preset \<Rightarrow> json" where
  "preset_json p = JObj ([(''kind'', JStr (pre_kind p)), (''hour'', JInt (pre_hour p)), (''minute'', JInt (pre_minute p))] @
     opt_int ''weekday'' (pre_weekday p))"

definition schedule_zone :: "'w config_api \<Rightarrow> string" where
  "schedule_zone api = (case ca_advisor api of None \<Rightarrow> [] | Some a \<Rightarrow> av_zone a)"

definition schedule_json :: "'w config_api \<Rightarrow> space_config \<Rightarrow> json" where
  "schedule_json api c = JObj ([(''space_id'', JStr (cfg_space c)), (''enabled'', JBool (cfg_enabled c)),
     (''cron'', JStr (effective_schedule c)), (''preset'', preset_json (preset_of (effective_schedule c)))] @
     opt_str ''timezone'' (schedule_zone api))"

definition handle_put_schedule :: "'w config_api \<Rightarrow> request \<Rightarrow> 'w handler" where
  "handle_put_schedule api rq = respond
     (try_op id (with_role (ca_gate api) role_editor rq) (\<lambda>sp.
      try_op id (present_or config_missing (ca_configs api)) (\<lambda>st.
      try_op id (body_of (ca_gate api) (ca_schedule_body api) max_schedule_request_bytes rq) (\<lambda>body.
      try_op id (pass (map_sum (write_error 400 ''bad_request'') id (resolve_schedule (ca_cron api) body))) (\<lambda>cron.
      try_op (\<lambda>e. if is_config_not_found e then write_error 409 ''not_configured'' ''backup is not configured for this space''
          else cfg_unreadable e) (co_get st sp) (\<lambda>cfg.
      try_op (internal_error ''could not store the schedule'') (co_put st (cfg\<lparr>cfg_schedule := cron, cfg_enabled := sr_enabled body\<rparr>))
        (\<lambda>stored. ok_op (write_json 200 (schedule_json api stored)))))))))"

definition handle_get_schedule :: "'w config_api \<Rightarrow> request \<Rightarrow> 'w handler" where
  "handle_get_schedule api rq = respond
     (try_op id (with_role (ca_gate api) role_viewer rq) (\<lambda>sp.
      try_op id (present_or config_missing (ca_configs api)) (\<lambda>st.
      try_op (\<lambda>e. if is_config_not_found e then space_unconfigured else cfg_unreadable e) (co_get st sp) (\<lambda>cfg.
      ok_op (write_json 200 (schedule_json api cfg))))))"

subsection \<open>Runs\<close>

definition job_json :: "job \<Rightarrow> json" where
  "job_json j = JObj ([(''id'', JStr (job_id j)), (''kind'', JStr (job_kind j)), (''state'', JStr (job_state j))] @
     opt_str ''trigger'' (job_trigger j) @
     [(''created_at'', JStr (format_time (created_at j))), (''updated_at'', JStr (format_time (updated_at j)))] @
     opt_str ''finished_at'' (format_time (finished_at j)) @ opt_int ''file_count'' (file_count j) @
     opt_int ''total_bytes'' (total_bytes j) @ opt_str ''snapshot_id'' (snapshot_id j) @
     opt_int ''snapshots_deleted'' (snapshots_deleted j) @ opt_int ''snapshots_kept'' (snapshots_kept j) @
     opt_str ''error'' (job_error j) @ opt_str ''restore_folder'' (restore_folder j))"

fun run_response :: "run_error \<Rightarrow> response" where
  "run_response RunSpaceNotFound = write_error 404 ''not_found'' ''space not found''"
| "run_response RunNotConfigured = write_error 409 ''not_configured'' ''backup is not configured for this space''"
| "run_response RunTargetUnavailable = write_error 409 ''target_unavailable'' ''the backup target is unavailable''"
| "run_response RunInProgress = write_error 409 ''run_in_progress'' ''a backup run is already in progress''"
| "run_response (RunNotAccepted e) = write_error 503 ''shutting_down'' ''the service is restarting; try again shortly''"
| "run_response (RunTimedOut e) = run_response e"
| "run_response e = write_error 500 ''internal_error'' ''could not start the backup run''"

definition handle_run_backup :: "'w config_api \<Rightarrow> request \<Rightarrow> 'w handler" where
  "handle_run_backup api rq = respond
     (try_op id (with_role (ca_gate api) role_editor rq) (\<lambda>sp.
      try_op id (present_or (unavailable ''backup worker not configured'') (ca_start api)) (\<lambda>start.
      try_op run_response (start sp) (\<lambda>i.
      ok_op (write_json 202 (JObj [(''job_id'', JStr i), (''space_id'', JStr sp), (''state'', JStr state_running)]))))))"

definition history_missing :: response where "history_missing = unavailable ''run history not available''"

definition history_unreadable :: "jobs_error \<Rightarrow> response" where
  "history_unreadable = internal_error ''could not read run history''"

definition handle_list_runs :: "'w config_api \<Rightarrow> request \<Rightarrow> 'w handler" where
  "handle_list_runs api rq = respond
     (try_op id (with_role (ca_gate api) role_viewer rq) (\<lambda>sp.
      try_op id (present_or history_missing (ca_jobs api)) (\<lambda>st.
      try_op id (pass (parse_limit rq)) (\<lambda>limit.
      try_op history_unreadable (ho_recent st sp limit) (\<lambda>js.
      ok_op (write_json 200 (JObj [(''runs'', JList (map job_json js))])))))))"

definition max_job_id_length :: nat where "max_job_id_length = 64"

definition is_job_id :: "string \<Rightarrow> bool" where
  "is_job_id i \<longleftrightarrow> i \<noteq> [] \<and> length i \<le> max_job_id_length \<and> list_all lower_hex i"

definition no_such_run :: response where "no_such_run = write_error 404 ''not_found'' ''no such run''"

definition handle_get_run :: "'w config_api \<Rightarrow> request \<Rightarrow> 'w handler" where
  "handle_get_run api rq = respond
     (try_op id (with_role (ca_gate api) role_viewer rq) (\<lambda>sp.
      try_op id (present_or history_missing (ca_jobs api)) (\<lambda>st.
      refuse_if (\<not> is_job_id (rq_job rq)) no_such_run
      (try_op (\<lambda>e. case e of JobNotFound _ \<Rightarrow> no_such_run | _ \<Rightarrow> history_unreadable e) (ho_in_space st sp (rq_job rq)) (\<lambda>j.
       ok_op (write_json 200 (job_json j)))))))"

subsection \<open>The status board\<close>

record board =
  bd_configured :: bool
  bd_enabled :: bool
  bd_cron :: string
  bd_days :: int
  bd_keys :: bool
  bd_stale :: bool
  bd_stale_since :: string
  bd_current :: "job option"
  bd_last :: "job option"
  bd_success :: "job option"
  bd_last_error :: string
  bd_next :: string

definition opt_job :: "string \<Rightarrow> job option \<Rightarrow> (string \<times> json) list" where
  "opt_job name j = (case j of None \<Rightarrow> [] | Some j \<Rightarrow> [(name, job_json j)])"

definition board_json :: "string \<Rightarrow> string \<Rightarrow> board \<Rightarrow> json" where
  "board_json sp zone b = JObj ([(''space_id'', JStr sp), (''configured'', JBool (bd_configured b)), (''enabled'', JBool (bd_enabled b))] @
     opt_str ''cron'' (bd_cron b) @
     (if bd_configured b then [(''preset'', preset_json (preset_of (bd_cron b)))] else []) @
     opt_str ''timezone'' zone @ [(''keys_configured'', JBool (bd_keys b)), (''stale'', JBool (bd_stale b))] @
     opt_str ''stale_since'' (bd_stale_since b) @ [(''running'', JBool (bd_current b \<noteq> None))] @
     opt_job ''current_job'' (bd_current b) @ opt_job ''last_run'' (bd_last b) @ opt_job ''last_successful_run'' (bd_success b) @
     opt_str ''next_run'' (bd_next b) @ opt_str ''last_error'' (bd_last_error b) @ opt_int ''retention_days'' (bd_days b))"

definition empty_board :: "bool \<Rightarrow> board" where
  "empty_board keys = \<lparr>bd_configured = False, bd_enabled = False, bd_cron = [], bd_days = 0, bd_keys = keys, bd_stale = False,
     bd_stale_since = [], bd_current = None, bd_last = None, bd_success = None, bd_last_error = [], bd_next = []\<rparr>"

definition apply_config :: "space_config \<Rightarrow> board \<Rightarrow> board" where
  "apply_config c b = b\<lparr>bd_configured := True, bd_enabled := cfg_enabled c, bd_cron := effective_schedule c,
     bd_days := window_days (effective_window c)\<rparr>"

text \<open>\<open>jobs.LastOf(backups, kind, "")\<close> takes any state.\<close>

definition apply_history :: "job list \<Rightarrow> job list \<Rightarrow> board \<Rightarrow> board" where
  "apply_history history backups b =
     (let newest = last_of backups kind_backup [] in
      b\<lparr>bd_current := find (\<lambda>j. \<not> terminal (job_state j)) history, bd_last := newest,
        bd_last_error := (case newest of Some j \<Rightarrow> if job_state j = state_failed then job_error j else [] | None \<Rightarrow> []),
        bd_success := last_of backups kind_backup state_succeeded\<rparr>)"

definition apply_staleness :: "staleness \<Rightarrow> board \<Rightarrow> board" where
  "apply_staleness v b = b\<lparr>bd_stale := sl_stale v, bd_stale_since := (if sl_stale v then format_time (sl_since v) else [])\<rparr>"

text \<open>Asking when the next run is may fail without failing the board.\<close>

definition next_run_text :: "'w advisor_ops option \<Rightarrow> bool \<Rightarrow> string \<Rightarrow> ('w, string) step" where
  "next_run_text advisor enabled sp w =
     (case advisor of
        None \<Rightarrow> (Inr [], w)
      | Some a \<Rightarrow>
          if \<not> enabled then (Inr [], w)
          else (case av_next a sp w of (Inl e, w) \<Rightarrow> (Inr [], w) | (Inr t, w) \<Rightarrow> (Inr (format_time t), w)))"

definition read_config :: "'w config_ops \<Rightarrow> string \<Rightarrow> ('w, space_config option) step" where
  "read_config st sp w =
     (case co_get st sp w of
        (Inr c, w) \<Rightarrow> (Inr (Some c), w)
      | (Inl e, w) \<Rightarrow> if is_config_not_found e then (Inr None, w) else (Inl (cfg_unreadable e), w))"

definition handle_backup_status :: "'w config_api \<Rightarrow> request \<Rightarrow> 'w handler" where
  "handle_backup_status api rq = respond
     (try_op id (with_role (ca_gate api) role_viewer rq) (\<lambda>sp.
      case (ca_configs api, ca_jobs api, ca_keys api) of
        (Some configs, Some jobs, Some keys) \<Rightarrow>
          try_op id (read_key_status keys sp) (\<lambda>k.
          try_op id (read_config configs sp) (\<lambda>cfg.
          try_op history_unreadable (ho_recent jobs sp default_history_limit) (\<lambda>history.
          try_op history_unreadable (ho_of_kind jobs sp kind_backup stale_lookback) (\<lambda>backups w.
          let b = empty_board (ks_configured k);
              b = (case cfg of None \<Rightarrow> b | Some c \<Rightarrow> apply_config c b);
              b = apply_history history backups b;
              b = (case cfg of None \<Rightarrow> b
                   | Some c \<Rightarrow> apply_staleness (assess (ca_cron api) (ca_stale_floor api) c backups (ga_now (ca_gate api) w)) b) in
          try_op id (next_run_text (ca_advisor api) (bd_enabled b) sp) (\<lambda>t.
            ok_op (write_json 200 (board_json sp (schedule_zone api) (b\<lparr>bd_next := t\<rparr>)))) w))))
      | _ \<Rightarrow> fail_op (unavailable ''backup status not available'')))"

subsection \<open>Notifications\<close>

definition event_json :: "event \<Rightarrow> json" where
  "event_json e = JObj [(''id'', JStr (ev_id e)), (''kind'', JStr (ev_kind e)), (''message'', JStr (ev_message e)),
     (''created_at'', JStr (format_time (ev_created e)))]"

definition handle_list_notifications :: "'w config_api \<Rightarrow> request \<Rightarrow> 'w handler" where
  "handle_list_notifications api rq = respond
     (try_op id (with_role (ca_gate api) role_viewer rq) (\<lambda>sp.
      try_op id (present_or (unavailable ''notifications are not available'') (ca_events api)) (\<lambda>events.
      try_op id (pass (parse_limit rq)) (\<lambda>limit.
      try_op (internal_error ''could not read notifications'') (events sp limit) (\<lambda>es.
      ok_op (write_json 200 (JObj [(''notifications'', JList (map event_json es))])))))))"

subsection \<open>Restores\<close>

fun restore_response :: "restore_error \<Rightarrow> response" where
  "restore_response RsSpaceNotFound = write_error 404 ''not_found'' ''space not found''"
| "restore_response RsSnapshotNotFound = write_error 404 ''not_found'' ''no such snapshot''"
| "restore_response RsNotConfigured = write_error 409 ''not_configured'' ''backup is not configured for this space''"
| "restore_response RsTargetUnavailable = write_error 409 ''target_unavailable'' ''the backup target is unavailable''"
| "restore_response RsInProgress = write_error 409 ''run_in_progress'' ''a run is already in progress''"
| "restore_response (RsNotAccepted e) = write_error 503 ''shutting_down'' ''the service is restarting; try again shortly''"
| "restore_response e = write_error 500 ''internal_error'' ''could not start the restore''"

definition snapshot_json :: "snap_info \<Rightarrow> json" where
  "snapshot_json i = JObj [(''id'', JStr (si_id i)), (''taken_at'', JStr (format_time (si_start i))),
     (''file_count'', JInt (si_files i)), (''total_bytes'', JInt (si_bytes i))]"

definition restore_missing :: response where "restore_missing = unavailable ''restore is not available''"

definition handle_list_snapshots :: "'w config_api \<Rightarrow> request \<Rightarrow> 'w handler" where
  "handle_list_snapshots api rq = respond
     (try_op id (with_role (ca_gate api) role_viewer rq) (\<lambda>sp.
      try_op id (present_or restore_missing (ca_restorer api)) (\<lambda>rs.
      try_op restore_response (ro_snapshots rs sp) (\<lambda>infos.
      ok_op (write_json 200 (JObj [(''snapshots'', JList (map snapshot_json infos))]))))))"

definition handle_restore :: "'w config_api \<Rightarrow> request \<Rightarrow> 'w handler" where
  "handle_restore api rq = respond
     (try_op id (with_role (ca_gate api) role_viewer rq) (\<lambda>sp.
      try_op id (present_or restore_missing (ca_restorer api)) (\<lambda>rs.
      try_op id (body_of (ca_gate api) (ca_restore_body api) max_restore_request_bytes rq) (\<lambda>snapshot.
      refuse_if (snapshot = []) (write_error 400 ''bad_request'' ''snapshot_id is required'')
      (try_op restore_response (ro_start rs sp snapshot) (\<lambda>i.
       ok_op (write_json 202 (JObj [(''job_id'', JStr i), (''space_id'', JStr sp), (''snapshot_id'', JStr snapshot),
         (''state'', JStr state_running)]))))))))"

end
