(* ===== verification/Api_Binding.thy ===== *)
theory Api_Binding
  imports Api_Config
begin

text \<open>
  What the configuration endpoints can write: which target a Space gets bound to and by whom, and which retention window
  is stored. Both are proved over any configuration store whose writes file what they are given, and hold for the
  in-memory store and for the durable store over a transport that fails.
\<close>

subsection \<open>What the endpoints rely on\<close>

text \<open>\<open>filed w sp c\<close>: some stored version of the Space's configuration is \<open>c\<close>.\<close>

locale config_records =
  fixes st :: "'w config_ops" and filed :: "'w \<Rightarrow> string \<Rightarrow> space_config \<Rightarrow> bool"
  assumes get_ok: "co_get st sp w = (Inr c, w') \<Longrightarrow> sp \<noteq> [] \<Longrightarrow> filed w sp c"
    and put_effect: "co_put st c w = (q, w') \<Longrightarrow> filed w' sp x \<Longrightarrow>
      filed w sp x \<or> (sp = cfg_space c \<and> (\<exists>created updated. x = c\<lparr>cfg_created := created, cfg_updated := updated\<rparr>))"

text \<open>\<open>allowed w user sp t\<close>: the stored grants give the user the target, or give it to the Space. Reading changes neither.\<close>

locale config_endpoints = config_records st filed
  for st :: "'w config_ops" and filed :: "'w \<Rightarrow> string \<Rightarrow> space_config \<Rightarrow> bool" +
  fixes allowed :: "'w \<Rightarrow> string \<Rightarrow> string \<Rightarrow> string \<Rightarrow> bool"
    and api :: "'w config_api" and may :: "string \<Rightarrow> string \<Rightarrow> string \<Rightarrow> ('w, target_error, bool) op"
  assumes store: "ca_configs api = Some st" and authorizer: "ca_may_use api = Some may"
    and get_same: "co_get st sp w = (q, w') \<Longrightarrow> filed w' = filed w \<and> allowed w' = allowed w"
    and asking: "access_keeps (\<lambda>w. filed w = known \<and> allowed w = rights) (ga_access (ca_gate api))"
    and may_same: "may user sp t w = (b, w') \<Longrightarrow> filed w' = filed w \<and> allowed w' = allowed w"
    and may_true: "may user sp t w = (Inr True, w') \<Longrightarrow> allowed w user sp t"

text \<open>Every record names the Space it is filed under.\<close>

definition well_filed :: "('w \<Rightarrow> string \<Rightarrow> space_config \<Rightarrow> bool) \<Rightarrow> 'w \<Rightarrow> bool" where
  "well_filed filed w \<longleftrightarrow> (\<forall>sp c. filed w sp c \<longrightarrow> cfg_space c = sp)"

datatype config_write = PutConfig | PatchConfig | PutSchedule

fun config_handler :: "'w config_api \<Rightarrow> config_write \<Rightarrow> request \<Rightarrow> 'w handler" where
  "config_handler api PutConfig = handle_put_config api"
| "config_handler api PatchConfig = handle_patch_config api"
| "config_handler api PutSchedule = handle_put_schedule api"

text \<open>A caller the role gate lets through as an editor of the Space, for whom the target is.\<close>

definition granted_editor :: "'w config_api \<Rightarrow> (string \<Rightarrow> string \<Rightarrow> string \<Rightarrow> bool) \<Rightarrow> request \<Rightarrow> 'w \<Rightarrow> string \<Rightarrow> bool" where
  "granted_editor api rights rq w t \<longleftrightarrow>
     rights (rq_user rq) (rq_space rq) t \<and> fst (with_role (ca_gate api) role_editor rq w) = Inr (rq_space rq)"

lemma granted_editorI:
  "rights (rq_user rq) (rq_space rq) t \<Longrightarrow> fst (with_role (ca_gate api) role_editor rq w) = Inr (rq_space rq) \<Longrightarrow>
    granted_editor api rights rq w t"
  by (simp add: granted_editor_def)

definition sane_window :: "duration \<Rightarrow> bool" where
  "sane_window d \<longleftrightarrow> d = 0 \<or> min_retention_window \<le> d"

text \<open>What may be stored for a Space beside what is there: a known target or one the caller was granted, a known window or a sane one.\<close>

definition lawful :: "(string \<Rightarrow> space_config \<Rightarrow> bool) \<Rightarrow> string \<Rightarrow> (string \<Rightarrow> bool) \<Rightarrow> space_config \<Rightarrow> bool" where
  "lawful known sp given c \<longleftrightarrow> cfg_space c = sp \<and>
     (given (cfg_target c) \<or> (\<exists>old. known sp old \<and> cfg_target c = cfg_target old)) \<and>
     (sane_window (cfg_window c) \<or> (\<exists>old. known sp old \<and> cfg_window c = cfg_window old))"

lemma valid_days_window: "valid_retention_days d = None \<Longrightarrow> sane_window (days_window d)"
  by (auto simp: valid_retention_days_def sane_window_def days_window_def wrap_int64_def split: if_splits)

subsection \<open>The endpoints\<close>

context config_endpoints
begin

text \<open>Storing a lawful record leaves only lawful records beside the old ones.\<close>

definition bounded :: "(string \<Rightarrow> space_config \<Rightarrow> bool) \<Rightarrow> string \<Rightarrow> (string \<Rightarrow> bool) \<Rightarrow> 'w \<Rightarrow> bool" where
  "bounded known sp given w \<longleftrightarrow> (\<forall>sp' x. filed w sp' x \<longrightarrow> known sp' x \<or> (sp' = sp \<and> lawful known sp given x))"

definition same :: "(string \<Rightarrow> space_config \<Rightarrow> bool) \<Rightarrow> (string \<Rightarrow> string \<Rightarrow> string \<Rightarrow> bool) \<Rightarrow> 'w \<Rightarrow> bool" where
  "same known rights w \<longleftrightarrow> filed w = known \<and> allowed w = rights"

lemma bounded_same: "same known rights w \<Longrightarrow> bounded known sp given w"
  by (simp add: bounded_def same_def)

lemma wp_gate:
  assumes "same known rights w"
    and "\<And>w1. fst (with_role (ca_gate api) least rq w) = Inr (rq_space rq) \<Longrightarrow> rq_space rq \<noteq> [] \<Longrightarrow> same known rights w1 \<Longrightarrow>
      wp (K (rq_space rq)) (\<lambda>_. bounded known sp given) w1"
  shows "wp (try_op id (with_role (ca_gate api) least rq) K) (\<lambda>_. bounded known sp given) w"
  unfolding wp_try
  by (rule wp_with_role [OF asking [of known rights, folded same_def]]) (use assms in \<open>auto intro: bounded_same\<close>)

lemma wp_get:
  assumes "same known rights w" "sp \<noteq> []" "\<And>e w1. same known rights w1 \<Longrightarrow> Q (Inl e) w1"
    "\<And>c w1. known sp c \<Longrightarrow> same known rights w1 \<Longrightarrow> Q (Inr c) w1"
  shows "wp (co_get st sp) Q w"
proof (rule wp_run)
  fix q w1
  assume a: "co_get st sp w = (q, w1)"
  show "Q q w1" using assms get_same [OF a] get_ok a by (cases q) (auto simp: same_def)
qed

lemma wp_kept:
  assumes "same known rights w" "\<And>q w1. same known rights w1 \<Longrightarrow> Q q w1" shows "wp (kept_schedule st sp) Q w"
proof (rule wp_run)
  fix q w1
  assume "kept_schedule st sp w = (q, w1)"
  then have "same known rights w1" using get_same assms(1) by (auto simp: same_def kept_schedule_def split: prod.splits sum.splits if_splits)
  then show "Q q w1" by (rule assms(2))
qed

lemma wp_bind:
  assumes "same known rights w" "\<And>e w1. same known rights w1 \<Longrightarrow> Q (Inl e) w1"
    "\<And>w1. rights user sp t \<Longrightarrow> same known rights w1 \<Longrightarrow> Q (Inr ()) w1"
  shows "wp (may_bind_target may user sp t) Q w"
proof (rule wp_run)
  fix q w1
  assume a: "may_bind_target may user sp t w = (q, w1)"
  then have "same known rights w1" "q = Inr () \<longrightarrow> rights user sp t"
    using may_same may_true assms(1) by (auto simp: same_def may_bind_target_def split: prod.splits sum.splits bool.splits)
  then show "Q q w1" using assms(2,3) by (cases q) auto
qed

lemma wp_retarget:
  assumes "same known rights w" "\<And>e w1. same known rights w1 \<Longrightarrow> Q (Inl e) w1"
    "\<And>w1. same known rights w1 \<Longrightarrow> x = None \<or> rights user sp (the x) \<Longrightarrow> Q (Inr ()) w1"
  shows "wp (case x of None \<Rightarrow> ok_op () | Some t \<Rightarrow> may_bind_target may user sp t) Q w"
  using assms by (cases x) (auto simp: wp_simps intro!: wp_bind)

lemma wp_put:
  assumes "same known rights w" "lawful known sp given c" "\<And>q w1. bounded known sp given w1 \<Longrightarrow> Q q w1"
  shows "wp (co_put st c) Q w"
proof (rule wp_run, rule assms(3))
  fix q w1
  assume a: "co_put st c w = (q, w1)"
  show "bounded known sp given w1"
    unfolding bounded_def
  proof (intro allI impI)
    fix sp' x
    assume "filed w1 sp' x"
    from put_effect [OF a this] show "known sp' x \<or> (sp' = sp \<and> lawful known sp given x)"
      using assms(1,2) by (auto simp: lawful_def same_def)
  qed
qed

text \<open>The three endpoints.\<close>

lemma patched_lawful:
  assumes "known sp c" "cfg_space c = sp" "cp_target p = None \<or> given (the (cp_target p))"
    "cp_days p = None \<or> valid_retention_days (the (cp_days p)) = None"
  shows "lawful known sp given (patched p c)"
  using assms valid_days_window by (cases "cp_target p"; cases "cp_days p") (auto simp: lawful_def patched_def)

lemma wp_days:
  assumes "\<And>r. Q (Inl r) w" "x = None \<or> valid_retention_days (the x) = None \<Longrightarrow> wp f Q w"
  shows "wp (require_op (case x of None \<Rightarrow> None | Some d \<Rightarrow> valid_retention_days d) f) Q w"
  using assms by (cases x) (auto simp: wp_require split: option.split)

lemmas bounded_rules = wp_get wp_bind wp_retarget wp_kept

lemma write_bounded:
  assumes "config_handler api cmd rq w = (r, w')" "same known rights w" "well_filed filed w"
  shows "bounded known (rq_space rq) (granted_editor api rights rq w) w'"
proof -
  note put = wp_put [where known = known and sp = "rq_space rq" and given = "granted_editor api rights rq w" and rights = rights]
  have named: "cfg_space c = sp" if "known sp c" for sp c using that assms(2,3) by (auto simp: well_filed_def same_def)
  show ?thesis
  proof (cases cmd)
    case PutConfig
    then have h: "handle_put_config api rq w = (r, w')" using assms(1) by simp
    show ?thesis
      by (rule wp_respond_world [OF _ h [unfolded handle_put_config_def store authorizer option.case prod.case]], rule wp_gate [OF assms(2)])
        (auto simp: wp_simps store_config_def lawful_def granted_editorI valid_days_window
          split: sum.split option.split intro!: bounded_rules put intro: bounded_same)
  next
    case PatchConfig
    then have h: "handle_patch_config api rq w = (r, w')" using assms(1) by simp
    show ?thesis
      by (rule wp_respond_world [OF _ h [unfolded handle_patch_config_def store authorizer try_present option.case]], rule wp_gate [OF assms(2)])
        (auto simp: wp_try wp_ok wp_body wp_refuse store_config_def split: sum.splits if_splits
          intro!: wp_days wp_get wp_retarget put patched_lawful named intro: granted_editorI bounded_same)
  next
    case PutSchedule
    then have h: "handle_put_schedule api rq w = (r, w')" using assms(1) by simp
    show ?thesis
      by (rule wp_respond_world [OF _ h [unfolded handle_put_schedule_def store try_present]], rule wp_gate [OF assms(2)])
        (auto simp: wp_simps named lawful_def split: sum.split option.split intro!: bounded_rules put intro: bounded_same)
  qed
qed

lemma write_well_filed:
  assumes "config_handler api cmd rq w = (r, w')" "well_filed filed w"
  shows "well_filed filed w'"
  using write_bounded [OF assms(1) _ assms(2), of "filed w" "allowed w"] assms(2)
  by (auto simp: same_def bounded_def lawful_def well_filed_def)

end

subsection \<open>The service's own store\<close>

text \<open>Some version of the record, or its document of the older layout.\<close>

definition cfg_filed :: "('s, 'v, space_config) versions \<Rightarrow> (string \<rightharpoonup> 'v) \<Rightarrow> string \<Rightarrow> space_config \<Rightarrow> bool" where
  "cfg_filed v m sp c \<longleftrightarrow> sp \<noteq> [] \<and>
     ((\<exists>k\<in>record_keys m (docs_key (v_docs v) [sp]). doc_at (v_docs v) m k = Some c) \<or>
      (\<exists>l. v_legacy v = Some l \<and> doc_at l m (docs_key l [sp]) = Some c))"

lemma held_filed: "versions_hold v m [sp] c \<Longrightarrow> sp \<noteq> [] \<Longrightarrow> cfg_filed v m sp c"
  by (auto simp: versions_hold_def cfg_filed_def)

text \<open>A version of one Space lies under no other Space.\<close>

lemma version_below:
  assumes "a \<noteq> []" "b \<noteq> []"
  shows "has_segment_prefix (docs_key d [a] @ ''/'' @ r) (docs_key d [b]) \<Longrightarrow> b = a"
proof -
  assume below: "has_segment_prefix (docs_key d [a] @ ''/'' @ r) (docs_key d [b])"
  from below consider "docs_key d [a] @ ''/'' @ r = docs_key d [b]" | t where "docs_key d [a] @ ''/'' @ r = docs_key d [b] @ CHR ''/'' # t"
    using assms(2) by (auto simp: has_segment_prefix_iff last_docs_key)
  then show "b = a"
  proof cases
    case 1
    then have "escape_segment b = escape_segment a @ ''/'' @ r" by (simp add: docs_key_def state_key_single)
    then have "CHR ''/'' \<in> set (escape_segment b)" by simp
    then show ?thesis using slash_notin_escape by blast
  next
    case 2
    then have "go_cut (CHR ''/'') (escape_segment a @ CHR ''/'' # r) = go_cut (CHR ''/'') (escape_segment b @ CHR ''/'' # t)"
      by (simp add: docs_key_def state_key_single)
    then show ?thesis using slash_notin_escape by (simp add: go_cut_append escape_segment_inject)
  qed
qed

context versioned
begin

lemma append_writes:
  assumes "versions_append v now c ids s = (q, s')"
  shows "view s' = view s \<or> (\<exists>n raw. d_encode (v_docs v) c = Some raw \<and>
    view s' = (view s)(docs_key (v_docs v) ids @ ''/'' @ version_name n \<mapsto> raw))"
proof -
  obtain ks s1 where l: "store_list st (docs_key (v_docs v) ids) s = (ks, s1)" by fastforce
  have v1: "view s1 = view s" using l by (rule list_view)
  show ?thesis
  proof (cases ks)
    case (Inl e)
    then show ?thesis using assms l v1 by (simp add: versions_append_def store_of Let_def)
  next
    case (Inr keys)
    then have "append_attempts (v_docs v) (docs_key (v_docs v) ids) c (next_nanos now keys) append_attempts_max s1 = (q, s')"
      using assms l by (simp add: versions_append_def store_of Let_def)
    from append_attempts_effect [OF this] v1 show ?thesis by auto
  qed
qed

end

lemma appended_filed:
  assumes v: "versioned st view v" and a: "versions_append v now c [sp] s = (q, s')" and sp: "sp \<noteq> []"
    and old: "\<And>l n. v_legacy v = Some l \<Longrightarrow> docs_key l [sp'] \<noteq> docs_key (v_docs v) [sp] @ ''/'' @ n"
    and f: "cfg_filed v (view s') sp' x"
  shows "cfg_filed v (view s) sp' x \<or> (sp' = sp \<and> x = c)"
  using versioned.append_writes [OF v a]
proof
  assume "view s' = view s"
  then show ?thesis using f by simp
next
  assume "\<exists>n raw. d_encode (v_docs v) c = Some raw \<and> view s' = (view s)(docs_key (v_docs v) [sp] @ ''/'' @ version_name n \<mapsto> raw)"
  then obtain n raw where raw: "d_encode (v_docs v) c = Some raw"
    and m: "view s' = (view s)(docs_key (v_docs v) [sp] @ ''/'' @ version_name n \<mapsto> raw)" by blast
  let ?k = "docs_key (v_docs v) [sp] @ ''/'' @ version_name n"
  have other: "doc_at d (view s') k = doc_at d (view s) k" if "k \<noteq> ?k" for k and d :: "('a, 'b, space_config) documents"
    using that m by (simp add: doc_at_def)
  have new: "doc_at (v_docs v) (view s') ?k = Some c"
    using collection.codec [OF versioned.axioms(1) [OF v] raw] m by (simp add: doc_at_def)
  from f have sp': "sp' \<noteq> []" by (simp add: cfg_filed_def)
  from f consider k where "k \<in> record_keys (view s') (docs_key (v_docs v) [sp'])" "doc_at (v_docs v) (view s') k = Some x"
    | l where "v_legacy v = Some l" "doc_at l (view s') (docs_key l [sp']) = Some x"
    by (auto simp: cfg_filed_def)
  then show ?thesis
  proof cases
    case 1
    show ?thesis
    proof (cases "k = ?k")
      case True
      then have "sp' = sp" using 1(1) version_below [OF sp sp'] by (auto simp: record_keys_def)
      then show ?thesis using True 1(2) new by simp
    next
      case False
      then have "k \<in> record_keys (view s) (docs_key (v_docs v) [sp'])" using 1(1) m by (auto simp: record_keys_def)
      then show ?thesis using other [OF False] 1(2) sp' by (auto simp: cfg_filed_def)
    qed
  next
    case 2
    then show ?thesis using other [of "docs_key l [sp']" l] old [of l] sp' by (auto simp: cfg_filed_def)
  qed
qed

definition service_config_ops :: "time \<Rightarrow> ('s, 'v, space_config) versions \<Rightarrow> 's config_ops" where
  "service_config_ops now v = \<lparr>co_get = cfg_get v, co_put = (\<lambda>c. cfg_put v c now)\<rparr>"

definition service_configs :: "(space_config \<Rightarrow> 'v option) \<Rightarrow> ('v \<Rightarrow> space_config option) \<Rightarrow> ('v backend, 'v, space_config) versions" where
  "service_configs enc dec = service_versions config_prefix legacy_config_prefix enc dec"

definition filed_configs :: "(space_config \<Rightarrow> 'v option) \<Rightarrow> ('v \<Rightarrow> space_config option) \<Rightarrow> 'v backend \<Rightarrow> string \<Rightarrow> space_config \<Rightarrow> bool" where
  "filed_configs enc dec s = cfg_filed (service_configs enc dec) (backend_view s)"

text \<open>The grants that may be stored for a target reach the user or the Space.\<close>

definition target_given :: "('s, 'v) target_store \<Rightarrow> (string \<rightharpoonup> 'v) \<Rightarrow> string \<Rightarrow> string \<Rightarrow> string \<Rightarrow> bool" where
  "target_given ts m user sp t \<longleftrightarrow> (\<exists>gs. versions_hold (ts_grants ts) m [t] gs \<and> (\<exists>g\<in>set gs. admits g user (space_set sp)))"

lemma newest_reads:
  assumes "reversible enc dec" "versions_newest (service_versions p q enc dec) ids s = (r, s')"
  shows "backend_view s' = backend_view s \<and> (\<forall>c. r = Inr c \<longrightarrow> versions_hold (service_versions p q enc dec) (backend_view s) ids c)"
proof -
  note v = service_versioned [OF assms(1), of p q]
  obtain l s1 where l: "versions_load (service_versions p q enc dec) ids s = (l, s1)" by fastforce
  then have "s1 = s'" "r = map_sum id fst l" using assms(2) by (cases l; auto simp: versions_newest_def split: prod.splits)+
  then show ?thesis using versioned.versions_load_view [OF v l] versioned.versions_load_holds [OF v] l by (cases l) auto
qed

lemma list_grants_reads:
  assumes "reversible genc gdec" "list_grants (service_targets enc dec genc gdec) t s = (r, s')"
  shows "backend_view s' = backend_view s \<and>
    (\<forall>gs. r = Inr gs \<longrightarrow> gs = [] \<or> versions_hold (ts_grants (service_targets enc dec genc gdec)) (backend_view s) [t] gs)"
  using assms(2) newest_reads [OF assms(1)]
  by (fastforce simp: list_grants_def service_targets_parts split: prod.splits sum.splits if_splits)

lemma may_use_reads:
  assumes "reversible enc dec" "reversible genc gdec" "may_use (service_targets enc dec genc gdec) user sp t s = (r, s')"
  shows "backend_view s' = backend_view s \<and> (r = Inr True \<longrightarrow> target_given (service_targets enc dec genc gdec) (backend_view s) user sp t)"
  using assms(3) unfolding may_use_def
proof (cases rule: try_op_cases)
  case (err e)
  then show ?thesis using get_target_view [OF assms(1)] by auto
next
  case (ok x s1)
  have v1: "backend_view s1 = backend_view s" by (rule get_target_view [OF assms(1) ok(1)])
  from ok(2) show ?thesis
  proof (cases rule: try_op_cases)
    case (err e)
    then show ?thesis using list_grants_reads [OF assms(2)] v1 by auto
  next
    case (ok gs s2)
    then show ?thesis
      using list_grants_reads [OF assms(2) ok(1)] v1 by (auto simp: ok_op_def target_given_def grants_allow_iff)
  qed
qed

lemma cfg_get_reads:
  assumes "reversible enc dec" "cfg_get (service_configs enc dec) sp s = (r, s')"
  shows "backend_view s' = backend_view s \<and> (\<forall>c. r = Inr c \<longrightarrow> versions_hold (service_configs enc dec) (backend_view s) [sp] c)"
  using assms(2) newest_reads [OF assms(1)]
  by (fastforce simp: cfg_get_def service_configs_def split: prod.splits sum.splits if_splits)

lemma legacy_config_apart:
  "v_legacy (service_configs enc dec) = Some l \<Longrightarrow> docs_key l [a] \<noteq> docs_key (v_docs (service_configs enc dec)) [b] @ r"
  by (auto simp: service_configs_def service_versions_def with_legacy_def new_versions_def docs_key_def new_documents_def
      legacy_config_prefix_def config_prefix_def)

lemma cfg_put_writes:
  assumes rev: "reversible enc dec" and p: "cfg_put (service_configs enc dec) c now s = (q, s')" and f: "filed_configs enc dec s' sp x"
  shows "filed_configs enc dec s sp x \<or> (sp = cfg_space c \<and> (\<exists>a b. x = c\<lparr>cfg_created := a, cfg_updated := b\<rparr>))"
proof (cases "cfg_validate c")
  case (Some e)
  then show ?thesis using p f by (simp add: cfg_put_def)
next
  case None
  let ?v = "service_configs enc dec"
  note ver = service_versioned [OF rev, of config_prefix legacy_config_prefix, folded service_configs_def]
  have sp: "cfg_space c \<noteq> []" using None by (auto simp: cfg_validate_def split: if_splits)
  obtain o1 s1 where o1: "versions_newest ?v [cfg_space c] s = (o1, s1)" by fastforce
  have v1: "backend_view s1 = backend_view s" using newest_reads [OF rev] o1 by (auto simp: service_configs_def)
  have "s' = s1 \<or> (\<exists>c' q' a b. c' = c\<lparr>cfg_created := a, cfg_updated := b\<rparr> \<and> versions_append ?v now c' [cfg_space c] s1 = (q', s'))"
  proof (cases "\<exists>e. o1 = Inl e \<and> \<not> is_not_found e")
    case True
    then show ?thesis using p None o1 by (auto simp: cfg_put_def Let_def)
  next
    case False
    define created where "created = (case o1 of Inl e \<Rightarrow> now | Inr old \<Rightarrow> cfg_created old)"
    obtain q' s2 where app: "versions_append ?v now (c\<lparr>cfg_updated := now, cfg_created := created\<rparr>) [cfg_space c] s1 = (q', s2)" by fastforce
    have "s' = s2" using p None o1 False app by (cases o1; cases q') (auto simp: cfg_put_def Let_def created_def)
    moreover have "c\<lparr>cfg_updated := now, cfg_created := created\<rparr> = c\<lparr>cfg_created := created, cfg_updated := now\<rparr>" by simp
    ultimately show ?thesis using app by blast
  qed
  then show ?thesis
  proof
    assume "s' = s1"
    then show ?thesis using f v1 by (simp add: filed_configs_def)
  next
    assume "\<exists>c' q' a b. c' = c\<lparr>cfg_created := a, cfg_updated := b\<rparr> \<and> versions_append ?v now c' [cfg_space c] s1 = (q', s')"
    then obtain c' q' a b where c': "c' = c\<lparr>cfg_created := a, cfg_updated := b\<rparr>" and app: "versions_append ?v now c' [cfg_space c] s1 = (q', s')"
      by blast
    have "cfg_filed ?v (backend_view s1) sp x \<or> (sp = cfg_space c \<and> x = c')"
      by (rule appended_filed [OF ver app sp legacy_config_apart]) (use f in \<open>simp_all add: filed_configs_def\<close>)
    then show ?thesis using v1 c' by (auto simp: filed_configs_def)
  qed
qed

text \<open>The configuration endpoints over the service's store, whichever of its calls fail.\<close>

lemma service_config_endpoints:
  assumes "reversible enc dec" "reversible tenc tdec" "reversible genc gdec"
    and "ca_configs api = Some (service_config_ops now (service_configs enc dec))"
    and "ca_may_use api = Some (may_use (service_targets tenc tdec genc gdec))"
    and "\<And>m. access_keeps (\<lambda>s. backend_view s = m) (ga_access (ca_gate api))"
  shows "config_endpoints (service_config_ops now (service_configs enc dec)) (filed_configs enc dec)
    (\<lambda>s. target_given (service_targets tenc tdec genc gdec) (backend_view s)) api (may_use (service_targets tenc tdec genc gdec))"
proof (unfold_locales, goal_cases)
  case (1 sp w c w')
  then have "cfg_get (service_configs enc dec) sp w = (Inr c, w')" by (simp add: service_config_ops_def)
  then show ?case using cfg_get_reads [OF assms(1)] held_filed 1(2) unfolding filed_configs_def by blast
next
  case (2 c w q w' sp x)
  then show ?case using cfg_put_writes [OF assms(1)] by (auto simp: service_config_ops_def)
next
  case (5 sp w q w')
  then show ?case using cfg_get_reads [OF assms(1)] by (fastforce simp: service_config_ops_def filed_configs_def)
next
  case (6 known rights)
  show ?case
    using assms(6) by (fastforce simp: access_keeps_def keeps_def filed_configs_def)
next
  case (7 user sp t w b w')
  then show ?case using may_use_reads [OF assms(2,3)] by (fastforce simp: filed_configs_def)
next
  case (8 user sp t w w')
  then show ?case using may_use_reads [OF assms(2,3)] by blast
qed (use assms(4,5) in simp_all)

subsection \<open>On one store for all documents\<close>

type_synonym bound_doc = "space_config + (target + grant list)"

definition bd_config :: "space_config \<Rightarrow> bound_doc option" where "bd_config c = Some (Inl c)"
definition bd_config_of :: "bound_doc \<Rightarrow> space_config option" where "bd_config_of x = (case x of Inl c \<Rightarrow> Some c | Inr _ \<Rightarrow> None)"
definition bd_target :: "target \<Rightarrow> bound_doc option" where "bd_target t = map_option Inr (target_encode t)"
definition bd_target_of :: "bound_doc \<Rightarrow> target option" where "bd_target_of x = (case x of Inl _ \<Rightarrow> None | Inr y \<Rightarrow> target_decode y)"
definition bd_grants :: "grant list \<Rightarrow> bound_doc option" where "bd_grants gs = map_option Inr (grants_encode gs)"
definition bd_grants_of :: "bound_doc \<Rightarrow> grant list option" where "bd_grants_of x = (case x of Inl _ \<Rightarrow> None | Inr y \<Rightarrow> grants_decode y)"

lemmas bd_defs = bd_config_def bd_config_of_def bd_target_def bd_target_of_def bd_grants_def bd_grants_of_def
  target_encode_def target_decode_def grants_encode_def grants_decode_def

lemma bd_reversible: "reversible bd_config bd_config_of" "reversible bd_target bd_target_of" "reversible bd_grants bd_grants_of"
  by (auto simp: reversible_def bd_defs)

text \<open>Handlers that read what the request's body says, as numbers of days for the target \<open>t\<close>.\<close>

definition sample_config_api :: "int \<Rightarrow> time \<Rightarrow> bound_doc backend config_api" where
  "sample_config_api days now = \<lparr>ca_gate = owner_gate, ca_configs = Some (service_config_ops now (service_configs bd_config bd_config_of)),
     ca_may_use = Some (may_use (service_targets bd_target bd_target_of bd_grants bd_grants_of)),
     ca_start = None, ca_jobs = None, ca_keys = None, ca_advisor = None, ca_events = None, ca_restorer = None,
     ca_cron = (\<lambda>expr. None), ca_stale_floor = 0,
     ca_put_body = (\<lambda>n b. (FirstValue \<lparr>cq_target = ''t'', cq_days = days, cq_enabled = True\<rparr>, AtEnd)),
     ca_patch_body = (\<lambda>n b. (FirstValue \<lparr>cp_target = None, cp_days = Some days, cp_enabled = None\<rparr>, AtEnd)),
     ca_schedule_body = (\<lambda>n b. (FirstMalformed, AtEnd)), ca_restore_body = (\<lambda>n b. (FirstMalformed, AtEnd))\<rparr>"

interpretation service_binding: config_endpoints "service_config_ops now (service_configs bd_config bd_config_of)"
    "filed_configs bd_config bd_config_of"
    "\<lambda>s. target_given (service_targets bd_target bd_target_of bd_grants bd_grants_of) (backend_view s)"
    "sample_config_api days now" "may_use (service_targets bd_target bd_target_of bd_grants bd_grants_of)" for days now
  by (rule service_config_endpoints [OF bd_reversible]) (simp_all add: sample_config_api_def owner_gate_keeps)

definition granted_world :: "fault list \<Rightarrow> bound_doc backend" where
  "granted_world fs = \<lparr>contents = [(''targetrecords/t/0000000000000000001'', Inr (Inl (sample_target ''t''))),
     (''targetgrantlists/t/0000000000000000001'', Inr (Inr [user_grant ''t'' ''u'']))], faults = fs\<rparr>"

text \<open>C3: Configuring a Space binds it only to what the caller may use. Whatever request is put to the three endpoints that
  write a Space's configuration, and whichever store operations fail, every record stored afterwards
  was there before, or is filed under the Space of the request, and then its target was that Space's before, or
  the caller is an editor of the Space and the target's grants give it to them or to the Space; its
  retention window was there before, or is the default or at least seven days.\<close>

theorem config_writes_are_lawful:
  assumes "reversible enc dec" "reversible tenc tdec" "reversible genc gdec"
    and "ca_configs api = Some (service_config_ops now (service_configs enc dec))"
    and "ca_may_use api = Some (may_use (service_targets tenc tdec genc gdec))"
    and "\<And>m. access_keeps (\<lambda>s. backend_view s = m) (ga_access (ca_gate api))"
    and "well_filed (filed_configs enc dec) s" "config_handler api cmd rq s = (r, s')" "filed_configs enc dec s' sp c"
  shows "filed_configs enc dec s sp c \<or>
    sp = rq_space rq \<and>
    lawful (filed_configs enc dec s) sp
      (granted_editor api (target_given (service_targets tenc tdec genc gdec) (backend_view s)) rq s) c"
proof -
  note e = service_config_endpoints [OF assms(1-6)]
  show ?thesis
    using config_endpoints.write_bounded [OF e assms(8) _ assms(7), of "filed_configs enc dec s"] assms(9)
    unfolding config_endpoints.same_def [OF e] config_endpoints.bounded_def [OF e] by blast
qed

lemma granted_world_empty: "\<not> filed_configs bd_config bd_config_of (granted_world fs) sp c"
proof -
  have "Option.bind (backend_view (granted_world fs) k) bd_config_of = None" for k
    by (auto simp: granted_world_def backend_view_def bd_config_of_def)
  then show ?thesis
    by (auto simp: filed_configs_def cfg_filed_def doc_at_def service_configs_def service_versions_def with_legacy_def
      new_versions_def new_documents_def)
qed

theorem config_writes_are_lawful_witness:
  "\<exists>r s c. config_handler (sample_config_api 30 9) PutConfig owner_request (granted_world []) = (r, s) \<and>
     filed_configs bd_config bd_config_of s ''a'' c \<and> cfg_target c = ''t'' \<and> sane_window (cfg_window c) \<and>
     granted_editor (sample_config_api 30 9) (target_given (service_targets bd_target bd_target_of bd_grants bd_grants_of)
       (backend_view (granted_world []))) owner_request (granted_world []) ''t''"
proof -
  let ?api = "sample_config_api 30 9" and ?v = "service_configs bd_config bd_config_of" and ?w = "granted_world []"
  obtain r s where h: "config_handler ?api PutConfig owner_request ?w = (r, s)" by fastforce
  have "case fst (cfg_get ?v ''a'' (snd (config_handler ?api PutConfig owner_request ?w))) of Inr c \<Rightarrow> cfg_target c = ''t'' | Inl _ \<Rightarrow> False"
    by code_simp
  then obtain c s1 where c: "cfg_get ?v ''a'' s = (Inr c, s1)" "cfg_target c = ''t''"
    using h by (cases "cfg_get ?v ''a'' s") (auto split: sum.splits)
  have f: "filed_configs bd_config bd_config_of s ''a'' c"
    using cfg_get_reads [OF bd_reversible(1) c(1)] by (auto simp: filed_configs_def intro: held_filed)
  have start: "well_filed (filed_configs bd_config bd_config_of) ?w" by (simp add: well_filed_def granted_world_empty)
  have "filed_configs bd_config bd_config_of ?w ''a'' c \<or> ''a'' = rq_space owner_request \<and>
    lawful (filed_configs bd_config bd_config_of ?w) ''a'' (granted_editor ?api
      (target_given (service_targets bd_target bd_target_of bd_grants bd_grants_of) (backend_view ?w)) owner_request ?w) c"
    by (rule config_writes_are_lawful [OF bd_reversible _ _ _ start h f]) (simp_all add: sample_config_api_def owner_gate_keeps)
  then show ?thesis using h f c(2) by (auto simp: granted_world_empty lawful_def)
qed

definition bound_config :: "int \<Rightarrow> space_config" where
  "bound_config d = \<lparr>cfg_space = ''a'', cfg_target = ''t'', cfg_window = days_window d, cfg_schedule = [], cfg_enabled = True,
     cfg_created = 1, cfg_updated = 1\<rparr>"

text \<open>C40: The retention a request asks for is the one a later read answers, up to 106751 days. A number of days that the
  configuration endpoints accept and store, none for the default of ninety, is read back as it was given exactly if it
  is at most 106751; whatever is accepted, the window in force is at least seven days. The number is turned into
  nanoseconds in 64 bits, so that what is accepted beyond reads back as a shorter window, whatever it is.\<close>

theorem retention_reads_back:
  assumes "valid_retention_days d = None" "cfg_window c = days_window d"
  shows "min_retention_window \<le> effective_window c \<and>
    (window_days (effective_window c) = (if d = 0 then 90 else d) \<longleftrightarrow> d \<le> 106751)"
proof -
  let ?day = "86400000000000 :: int"
  have day: "24 * hour = ?day" by (simp add: duration_defs)
  have d: "0 \<le> d" and floor: "0 < d \<Longrightarrow> 7 * ?day \<le> wrap_int64 (d * ?day)"
    using assms(1) by (auto simp: valid_retention_days_def days_window_def min_retention_window_def duration_defs mult.commute split: if_splits)
  have window: "cfg_window c = wrap_int64 (d * ?day)" using assms(2) by (simp add: days_window_def duration_defs mult.commute)
  have "min_retention_window \<le> effective_window c" using retention_floor by blast
  moreover have "window_days (effective_window c) = (if d = 0 then 90 else d) \<longleftrightarrow> d \<le> 106751"
  proof (cases "d = 0")
    case True
    then show ?thesis
      using window by (simp add: effective_window_def wrap_int64_def default_retention_window_def window_days_def duration_defs)
  next
    case False
    then have e: "effective_window c = wrap_int64 (d * ?day)"
      using floor d window by (simp add: effective_window_def min_retention_window_def duration_defs)
    show ?thesis
    proof (cases "d \<le> 106751")
      case True
      then have "wrap_int64 (d * ?day) = d * ?day" using d by (simp add: wrap_int64_def mod_pos_pos_trivial)
      then show ?thesis using True False by (simp add: window_days_def e day)
    next
      case far: False
      have "wrap_int64 (d * ?day) < 2 ^ 63" by (simp add: wrap_int64_def)
      then have "wrap_int64 (d * ?day) div ?day \<le> 106751" by simp
      then show ?thesis using far False by (simp add: window_days_def e day)
    qed
  qed
  ultimately show ?thesis by blast
qed

text \<open>A retention of 584 years is accepted and stored as eight days.\<close>

lemma huge_retention_shrinks:
  "(case handle_put_config (sample_config_api 213512 9) owner_request (granted_world []) of
     (r, s) \<Rightarrow> (case fst (cfg_get (service_configs bd_config bd_config_of) ''a'' s) of
        Inl _ \<Rightarrow> False
      | Inr c \<Rightarrow> rs_status r = 200 \<and> effective_window c < 9 * 24 * hour))"
  by code_simp

theorem retention_reads_back_witness:
  "min_retention_window \<le> effective_window (bound_config 213512) \<and> window_days (effective_window (bound_config 213512)) \<noteq> 213512 \<and>
   window_days (effective_window (bound_config 106751)) = 106751"
proof -
  have "valid_retention_days 213512 = None" "valid_retention_days 106751 = None" by code_simp+
  then show ?thesis
    using retention_reads_back [of 213512 "bound_config 213512"] retention_reads_back [of 106751 "bound_config 106751"]
    by (simp add: bound_config_def)
qed

end
