(* ===== verification/Api_Login.thy ===== *)
theory Api_Login
  imports Api_Keys
begin

text \<open>
  Who the caller is (src/internal/api/oidc.go, users.go): the checks a bearer token passes, the cached signing keys of
  the identity provider with their rate limit, discovery at first use, the caller's OpenCloud user id and its cache, and
  the middleware in front of every protected route. The JOSE library, SHA-256 and the requests over
  HTTP are parameters.
\<close>

subsection \<open>Small functions\<close>

definition ascii_space :: "char \<Rightarrow> bool" where
  "ascii_space c \<longleftrightarrow> (let n = of_char c :: nat in n = 32 \<or> 9 \<le> n \<and> n \<le> 13)"

definition trim_space :: "string \<Rightarrow> string" where
  "trim_space s = rev (dropWhile ascii_space (rev (dropWhile ascii_space s)))"

fun first_non_empty :: "string list \<Rightarrow> string" where
  "first_non_empty [] = []"
| "first_non_empty (v # vs) = (if v \<noteq> [] then v else first_non_empty vs)"

definition bearer_prefix :: string where "bearer_prefix = ''Bearer ''"

definition bearer_token :: "string \<Rightarrow> string" where
  "bearer_token h =
     (if length h > length bearer_prefix \<and> equal_fold (take (length bearer_prefix) h) bearer_prefix
      then trim_space (List.drop (length bearer_prefix) h) else [])"

subsection \<open>The identity provider's keys\<close>

definition min_refresh_interval :: duration where "min_refresh_interval = minute"

datatype key_lookup_error = KeySetUnavailable string | KeyLookupFailed string

text \<open>The cache; \<open>jw_keys\<close> is the map from key id to the keys of that id, nil before the first fetch.\<close>

record 'k jwks =
  jw_keys :: "(string \<Rightarrow> 'k list) option"
  jw_fetched :: time
  jw_last :: time
  jw_ttl :: duration

definition new_jwks :: "duration \<Rightarrow> 'k jwks" where
  "new_jwks ttl = \<lparr>jw_keys = None, jw_fetched = zero_time, jw_last = zero_time, jw_ttl = (if ttl = 0 then hour else ttl)\<rparr>"

record ('k, 'w) provider =
  pr_now :: "'w \<Rightarrow> time"
  pr_fetch :: "('w, string, (string \<times> 'k) list) op"

definition jwks_cached :: "time \<Rightarrow> string \<Rightarrow> 'k jwks \<Rightarrow> 'k list \<times> bool" where
  "jwks_cached now kid k =
     (case jw_keys k of None \<Rightarrow> ([], False) | Some m \<Rightarrow> (m kid, time_sub now (jw_fetched k) \<le> jw_ttl k))"

definition begin_refresh :: "time \<Rightarrow> 'k jwks \<Rightarrow> bool \<times> 'k jwks" where
  "begin_refresh now k =
     (if \<not> is_zero_time (jw_last k) \<and> time_sub now (jw_last k) < min_refresh_interval then (False, k)
      else (True, k\<lparr>jw_last := now\<rparr>))"

definition by_key_id :: "(string \<times> 'k) list \<Rightarrow> string \<Rightarrow> 'k list" where
  "by_key_id ks kid = map snd (filter (\<lambda>k. fst k = kid) ks)"

definition jwks_refresh :: "('k, 'w) provider \<Rightarrow> ('k jwks \<times> 'w, string, unit) op" where
  "jwks_refresh p s =
     (case s of (k, w) \<Rightarrow>
      case pr_fetch p w of
        (Inl e, w) \<Rightarrow> (Inl e, k, w)
      | (Inr ks, w) \<Rightarrow> (Inr (), k\<lparr>jw_keys := Some (by_key_id ks), jw_fetched := pr_now p w\<rparr>, w))"

definition jwks_key :: "('k, 'w) provider \<Rightarrow> string \<Rightarrow> ('k jwks \<times> 'w, key_lookup_error, 'k list) op" where
  "jwks_key p kid s =
     (case s of (k, w) \<Rightarrow>
      case jwks_cached (pr_now p w) kid k of (keys, fresh) \<Rightarrow>
        if fresh \<and> keys \<noteq> [] then (Inr keys, k, w)
        else case begin_refresh (pr_now p w) k of
            (False, k) \<Rightarrow> (Inr keys, k, w)
          | (True, k) \<Rightarrow>
             (case jwks_refresh p (k, w) of
                (Inl e, s) \<Rightarrow> (Inl (KeySetUnavailable e), s)
              | (Inr _, k, w) \<Rightarrow> (Inr (fst (jwks_cached (pr_now p w) kid k)), k, w)))"

text \<open>Discovery at first use; the set it finds has a client of its own.\<close>

record 'k lazy_keys =
  lz_inner :: "('k jwks \<times> string) option"
  lz_last :: time
  lz_ttl :: duration

definition lazy_resolve ::
    "('w \<Rightarrow> time) \<Rightarrow> ('w, string, string) op \<Rightarrow> ('k lazy_keys \<times> 'w, key_lookup_error, 'k jwks \<times> string) op" where
  "lazy_resolve now discover s =
     (case s of (l, w) \<Rightarrow>
      case lz_inner l of
        Some inner \<Rightarrow> (Inr inner, l, w)
      | None \<Rightarrow>
          if \<not> is_zero_time (lz_last l) \<and> time_sub (now w) (lz_last l) < min_refresh_interval
          then (Inl (KeySetUnavailable ''discovery has not succeeded yet''), l, w)
          else let l = l\<lparr>lz_last := now w\<rparr> in
            (case discover w of
               (Inl e, w) \<Rightarrow> (Inl (KeySetUnavailable e), l, w)
             | (Inr uri, w) \<Rightarrow> (let inner = (new_jwks (lz_ttl l), uri) in (Inr inner, l\<lparr>lz_inner := Some inner\<rparr>, w))))"

definition lazy_key ::
    "('w \<Rightarrow> time) \<Rightarrow> ('w, string, string) op \<Rightarrow> (string \<Rightarrow> ('w, string, (string \<times> 'k) list) op) \<Rightarrow> string \<Rightarrow>
     ('k lazy_keys \<times> 'w, key_lookup_error, 'k list) op" where
  "lazy_key now discover fetch kid s =
     (case lazy_resolve now discover s of
        (Inl e, s) \<Rightarrow> (Inl e, s)
      | (Inr (k, uri), l, w) \<Rightarrow>
         (case jwks_key \<lparr>pr_now = now, pr_fetch = fetch uri\<rparr> kid (k, w) of
            (r, k, w) \<Rightarrow> (r, l\<lparr>lz_inner := Some (k, uri)\<rparr>, w)))"

text \<open>The discovery document: \<open>jwks_uri\<close> of an answer with status 200.\<close>

definition discovered_uri :: "(string + nat \<times> string option) \<Rightarrow> string + string" where
  "discovered_uri answer =
     (case answer of
        Inl e \<Rightarrow> Inl (''oidc discovery: '' @ e)
      | Inr (status, doc) \<Rightarrow>
          if status \<noteq> 200 then Inl ''oidc discovery: status''
          else (case doc of
              None \<Rightarrow> Inl ''oidc discovery: decode''
            | Some uri \<Rightarrow> if uri = [] then Inl ''oidc discovery: no jwks_uri'' else Inr uri))"

subsection \<open>Tokens\<close>

record claims =
  cl_issuer :: string
  cl_subject :: string
  cl_audience :: "string list"
  cl_expiry :: "time option"
  cl_preferred :: string
  cl_name :: string
  cl_email :: string

text \<open>A parsed token: the key id of each header, and what a key makes of its claims when the signature is the key's.\<close>

record 'k token =
  tk_headers :: "string list"
  tk_claims :: "'k \<Rightarrow> claims option"

record expected =
  ex_issuer :: string
  ex_time :: time
  ex_audience :: "string list"

record 'k jose =
  jo_parse :: "string list \<Rightarrow> string \<Rightarrow> 'k token option"
  jo_valid :: "claims \<Rightarrow> expected \<Rightarrow> bool"
  jo_valid_leeway :: "claims \<Rightarrow> expected \<Rightarrow> duration \<Rightarrow> bool"

definition signature_algorithms :: "string list" where
  "signature_algorithms = [''RS256'', ''RS384'', ''RS512'', ''PS256'', ''PS384'', ''PS512'']"

record ('k, 'w) oidc_config =
  oc_issuer :: string
  oc_audience :: string
  oc_keys :: "(string \<Rightarrow> ('w, key_lookup_error, 'k list) op) option"
  oc_leeway :: duration
  oc_now :: "'w \<Rightarrow> time"

datatype login_error = InvalidToken string | SigningKeysUnavailable string

definition new_oidc_validator :: "('k, 'w) oidc_config \<Rightarrow> string + ('k, 'w) oidc_config" where
  "new_oidc_validator cfg =
     (if oc_issuer cfg = [] then Inl ''oidc: issuer is required''
      else if oc_audience cfg = [] then Inl ''oidc: audience is required''
      else if oc_keys cfg = None then Inl ''oidc: key set is required''
      else Inr (if oc_leeway cfg = 0 then cfg\<lparr>oc_leeway := minute\<rparr> else cfg))"

definition lookup_error :: "key_lookup_error \<Rightarrow> login_error" where
  "lookup_error e = (case e of KeySetUnavailable m \<Rightarrow> SigningKeysUnavailable m | KeyLookupFailed m \<Rightarrow> InvalidToken ''key lookup'')"

text \<open>The first key that verifies decides the claims.\<close>

fun verified_claims :: "'k token \<Rightarrow> 'k list \<Rightarrow> claims option" where
  "verified_claims tok [] = None"
| "verified_claims tok (k # ks) = (case tk_claims tok k of Some c \<Rightarrow> Some c | None \<Rightarrow> verified_claims tok ks)"

definition claims_accepted :: "'k jose \<Rightarrow> ('k, 'w) oidc_config \<Rightarrow> claims \<Rightarrow> time \<Rightarrow> bool" where
  "claims_accepted jo cfg c now =
     (let e = \<lparr>ex_issuer = oc_issuer cfg, ex_time = now, ex_audience = [oc_audience cfg]\<rparr> in
      jo_valid jo c e \<or> oc_leeway cfg > 0 \<and> jo_valid_leeway jo c e (oc_leeway cfg))"

definition token_identity :: "'k jose \<Rightarrow> ('k, 'w) oidc_config \<Rightarrow> string \<Rightarrow> claims \<Rightarrow> time \<Rightarrow> login_error + identity" where
  "token_identity jo cfg raw c now =
     (case cl_expiry c of
        None \<Rightarrow> Inl (InvalidToken ''token has no expiry'')
      | Some expiry \<Rightarrow>
          if \<not> claims_accepted jo cfg c now then Inl (InvalidToken ''claims'')
          else if cl_subject c = [] then Inl (InvalidToken ''missing subject'')
          else Inr \<lparr>id_subject = cl_subject c, id_user = [], id_expiry = expiry,
              id_username = first_non_empty [cl_preferred c, cl_name c, cl_email c], id_token = raw\<rparr>)"

definition oidc_validate :: "'k jose \<Rightarrow> ('k, 'w) oidc_config \<Rightarrow> string \<Rightarrow> ('w, login_error, identity) op" where
  "oidc_validate jo cfg raw =
     (if raw = [] then fail_op (InvalidToken [])
      else case jo_parse jo signature_algorithms raw of
        None \<Rightarrow> fail_op (InvalidToken ''parse'')
      | Some tok \<Rightarrow>
         (case (tk_headers tok, oc_keys cfg) of
            (kid # _, Some lookup) \<Rightarrow>
              try_op lookup_error (lookup kid) (\<lambda>keys w.
                (if keys = [] then Inl (InvalidToken ''no matching key'')
                 else case verified_claims tok keys of
                     None \<Rightarrow> Inl (InvalidToken ''signature'')
                   | Some c \<Rightarrow> token_identity jo cfg raw c (oc_now cfg w), w))
          | _ \<Rightarrow> fail_op (InvalidToken ''no JWS header'')))"

subsection \<open>The caller's user id\<close>

definition max_cached_users :: nat where "max_cached_users = 4096"

text \<open>Token hash, user id, expiry; a map the code ranges over.\<close>

type_synonym user_cache = "(bytes \<times> string \<times> time) list"

definition user_cached :: "time \<Rightarrow> bytes \<Rightarrow> user_cache \<Rightarrow> string option" where
  "user_cached now key c =
     (case map_of c key of None \<Rightarrow> None | Some (user, expires) \<Rightarrow> if now < expires then Some user else None)"

definition evict_expired :: "time \<Rightarrow> user_cache \<Rightarrow> user_cache" where
  "evict_expired now c = filter (\<lambda>(key, user, expires). now < expires) c"

definition store_user :: "time \<Rightarrow> bytes \<Rightarrow> string \<Rightarrow> time \<Rightarrow> user_cache \<Rightarrow> user_cache" where
  "store_user now key user expires c =
     (if is_zero_time expires then c
      else let c = (if length c \<ge> max_cached_users then evict_expired now c else c) in
        if length c \<ge> max_cached_users then c else AList.update key (user, expires) c)"

text \<open>Graph \<open>/me\<close> is asked with the caller's own token.\<close>

definition graph_user_id ::
    "(bytes \<Rightarrow> bytes) \<Rightarrow> (string \<Rightarrow> bytes) \<Rightarrow> ('w \<Rightarrow> time) \<Rightarrow> (identity \<Rightarrow> ('w, string, string) op) \<Rightarrow>
     identity \<Rightarrow> (user_cache \<times> 'w, string, string) op" where
  "graph_user_id sha octets now me i s =
     (case s of (c, w) \<Rightarrow>
      let key = sha (octets (id_token i)) in
      case user_cached (now w) key c of
        Some user \<Rightarrow> (Inr user, c, w)
      | None \<Rightarrow>
         (case me i w of
            (Inl e, w) \<Rightarrow> (Inl e, c, w)
          | (Inr user, w) \<Rightarrow>
              if user = [] then (Inl ''api: graph /me returned no user id'', c, w)
              else (Inr user, store_user (now w) key user (id_expiry i) c, w)))"

subsection \<open>The middleware\<close>

record 'w login =
  lo_validate :: "(string \<Rightarrow> ('w, login_error, identity) op) option"
  lo_user :: "(identity \<Rightarrow> ('w, string, string) op) option"

definition resolve_user_id :: "'w login \<Rightarrow> identity \<Rightarrow> ('w, identity) step" where
  "resolve_user_id l i =
     (if id_user i \<noteq> [] then ok_op i
      else try_op id (present_or (unavailable ''user identity cannot be resolved'') (lo_user l)) (\<lambda>user_of.
        let away = unavailable ''OpenCloud cannot be reached to identify the caller; try again shortly'' in
        try_op (\<lambda>_. away) (user_of i) (\<lambda>user. if user = [] then fail_op away else ok_op (i\<lparr>id_user := user\<rparr>))))"

definition login_response :: "login_error \<Rightarrow> response" where
  "login_response e =
     (case e of
        SigningKeysUnavailable m \<Rightarrow> unavailable ''the identity provider cannot be reached; try again shortly''
      | InvalidToken m \<Rightarrow> write_error 401 ''unauthorized'' ''invalid or expired token'')"

definition authenticated :: "'w login \<Rightarrow> string \<Rightarrow> ('w, identity) step" where
  "authenticated l header =
     try_op id (present_or (write_error 401 ''unauthorized'' ''authentication unavailable'') (lo_validate l)) (\<lambda>validate.
       let raw = bearer_token header in
       refuse_if (raw = []) (write_error 401 ''unauthorized'' ''missing bearer token'')
         (try_op login_response (validate raw) (resolve_user_id l)))"

definition authenticate :: "'w login \<Rightarrow> string \<Rightarrow> (request \<Rightarrow> 'w handler) \<Rightarrow> request \<Rightarrow> 'w handler" where
  "authenticate l header handler rq w =
     (case authenticated l header w of
        (Inl r, w) \<Rightarrow> (r, w)
      | (Inr i, w) \<Rightarrow> handler (rq\<lparr>rq_identity := Some i\<rparr>) w)"

subsection \<open>How often the provider is asked\<close>

text \<open>A provider that answers from a script and remembers when it was asked.\<close>

record 'k script =
  sc_now :: time
  sc_answer :: "string + (string \<times> 'k) list"
  sc_asked :: "time list"

definition scripted :: "('k, 'k script) provider" where
  "scripted = \<lparr>pr_now = sc_now, pr_fetch = (\<lambda>w. (sc_answer w, w\<lparr>sc_asked := sc_asked w @ [sc_now w]\<rparr>))\<rparr>"

text \<open>Lookups at given times for given key ids.\<close>

fun lookups :: "(time \<times> string \<times> (string + (string \<times> 'k) list)) list \<Rightarrow> 'k jwks \<times> time list \<Rightarrow> 'k jwks \<times> time list" where
  "lookups [] s = s"
| "lookups ((now, kid, answer) # rest) s =
     (case jwks_key scripted kid (fst s, \<lparr>sc_now = now, sc_answer = answer, sc_asked = snd s\<rparr>) of
        (r, k, w) \<Rightarrow> lookups rest (k, sc_asked w))"

definition apart :: "time list \<Rightarrow> bool" where
  "apart ts \<longleftrightarrow> sorted_wrt (\<lambda>a b. a + min_refresh_interval \<le> b) ts"

definition last_asked :: "time list \<Rightarrow> time" where
  "last_asked ts = (if ts = [] then zero_time else last ts)"

lemma lookup_asks:
  assumes "jwks_key scripted kid (k, \<lparr>sc_now = now, sc_answer = answer, sc_asked = ts\<rparr>) = (r, k', w')"
    and "jw_last k = last_asked ts" "\<forall>t\<in>set ts. 0 \<le> t \<and> t \<le> now" "0 \<le> now" "apart ts"
  shows "jw_last k' = last_asked (sc_asked w') \<and> apart (sc_asked w') \<and> (\<forall>t\<in>set (sc_asked w'). 0 \<le> t \<and> t \<le> now)"
proof (cases "begin_refresh now k")
  case (Pair b k1)
  show ?thesis
  proof (cases "b \<and> \<not> (snd (jwks_cached now kid k) \<and> fst (jwks_cached now kid k) \<noteq> [])")
    case False
    have "k' = k" "sc_asked w' = ts"
      using assms(1) Pair False
      by (auto simp: jwks_key_def scripted_def begin_refresh_def split: prod.splits bool.splits if_splits)
    then show ?thesis using assms(2-5) by simp
  next
    case True
    then have due: "is_zero_time (jw_last k) \<or> min_refresh_interval \<le> time_sub now (jw_last k)" "k1 = k\<lparr>jw_last := now\<rparr>"
      using Pair by (auto simp: begin_refresh_def split: if_splits)
    have w: "jw_last k' = now" "sc_asked w' = ts @ [now]"
      using assms(1) Pair True due(2)
      by (auto simp: jwks_key_def scripted_def jwks_refresh_def split: prod.splits bool.splits if_splits sum.splits)
    have "t + min_refresh_interval \<le> now" if "t \<in> set ts" for t
    proof -
      have last: "jw_last k = last ts" "ts \<noteq> []" using that assms(2) by (auto simp: last_asked_def)
      then have ge: "0 \<le> last ts" using assms(3) by simp
      then have "min_refresh_interval \<le> now - last ts"
        using due(1) last time_sub_less_iff [of min_refresh_interval now "last ts"]
        by (auto simp: is_zero_time_def zero_time_def min_refresh_interval_def duration_defs min_int64_def max_int64_def)
      moreover have "t \<le> last ts"
      proof (cases "t = last ts")
        case False
        then have "t \<in> set (butlast ts)" using that by (metis append_butlast_last_id in_set_butlastD last(2) rotate1.simps(2) set_ConsD set_rotate1)
        moreover have "sorted_wrt (\<lambda>a b. a + min_refresh_interval \<le> b) (butlast ts @ [last ts])"
          using assms(5) last(2) by (simp add: apart_def)
        ultimately have "t + min_refresh_interval \<le> last ts" by (simp add: sorted_wrt_append)
        then show ?thesis by (simp add: min_refresh_interval_def duration_defs)
      qed simp
      ultimately show ?thesis by simp
    qed
    then show ?thesis using w assms(3-5) by (auto simp: last_asked_def apart_def sorted_wrt_append)
  qed
qed

lemma lookups_apart:
  assumes "jw_last k = last_asked ts" "apart ts" "\<forall>t\<in>set ts. 0 \<le> t" "\<forall>t\<in>set ts. \<forall>e\<in>set es. t \<le> fst e"
    and "sorted (map fst es)" "\<forall>e\<in>set es. 0 \<le> fst e" "lookups es (k, ts) = (k', ts')"
  shows "apart ts'"
  using assms
proof (induction es arbitrary: k ts)
  case (Cons e es)
  obtain now kid answer where e: "e = (now, kid, answer)" by (cases e)
  obtain r k1 w1 where j: "jwks_key scripted kid (k, \<lparr>sc_now = now, sc_answer = answer, sc_asked = ts\<rparr>) = (r, k1, w1)"
    by (metis prod_cases3)
  have a: "jw_last k1 = last_asked (sc_asked w1) \<and> apart (sc_asked w1) \<and> (\<forall>t\<in>set (sc_asked w1). 0 \<le> t \<and> t \<le> now)"
    by (rule lookup_asks [OF j]) (use Cons.prems e in auto)
  show ?case
    by (rule Cons.IH [of k1 "sc_asked w1"]) (use a Cons.prems e j in \<open>fastforce+\<close>)
qed simp

lemma apart_count:
  "apart ts \<Longrightarrow> \<forall>t\<in>set ts. a \<le> t \<and> t \<le> b \<Longrightarrow> a \<le> b + min_refresh_interval \<Longrightarrow>
    int (length ts) * min_refresh_interval \<le> b - a + min_refresh_interval"
proof (induction ts arbitrary: a)
  case (Cons t ts)
  have "int (length ts) * min_refresh_interval \<le> b - (t + min_refresh_interval) + min_refresh_interval"
    using Cons.prems by (intro Cons.IH) (auto simp: apart_def)
  then show ?case using Cons.prems(2) by (simp add: algebra_simps)
qed simp

lemma apart_filter: "apart ts \<Longrightarrow> apart (filter P ts)"
  by (simp add: apart_def sorted_wrt_filter)

text \<open>C39: Unknown key ids cannot be used to flood the identity provider. Whatever tokens arrive, with whatever key ids, and whether
  the provider answers or not, its key set is fetched at most once a minute: in any span of time there are
  at most as many fetches as it has minutes, and one more.\<close>

theorem keys_fetched_once_a_minute:
  assumes "sorted (map fst es)" "\<forall>e\<in>set es. 0 \<le> fst e" "lookups es (new_jwks ttl, []) = (k, asked)" "0 \<le> d"
  shows "int (length (filter (\<lambda>t. a \<le> t \<and> t \<le> a + d) asked)) \<le> d div min_refresh_interval + 1"
proof -
  have m: "0 < min_refresh_interval" by (simp add: min_refresh_interval_def duration_defs)
  have "apart asked"
    by (rule lookups_apart [OF _ _ _ _ assms(1,2,3)]) (simp_all add: new_jwks_def last_asked_def apart_def)
  then have "int (length (filter (\<lambda>t. a \<le> t \<and> t \<le> a + d) asked)) * min_refresh_interval \<le> d + min_refresh_interval"
    using apart_count [OF apart_filter, of asked "\<lambda>t. a \<le> t \<and> t \<le> a + d" a "a + d"] m assms(4) by simp
  from zdiv_mono1 [OF this m] show ?thesis using m div_add_self2 [of min_refresh_interval d] by simp
qed

definition sample_lookups :: "(time \<times> string \<times> (string + (string \<times> nat) list)) list" where
  "sample_lookups = [(minute, ''a'', Inr [(''a'', 1)]), (minute + 1, ''b'', Inr []), (2 * minute - 1, ''c'', Inr []),
     (2 * minute, ''d'', Inl ''away''), (2 * minute + 1, ''a'', Inr [])]"

theorem keys_fetched_once_a_minute_witness:
  "length (filter (\<lambda>t. minute \<le> t \<and> t \<le> minute + minute) (snd (lookups sample_lookups (new_jwks hour, [])))) = 2 \<and>
   int (length (filter (\<lambda>t. minute \<le> t \<and> t \<le> minute + minute) (snd (lookups sample_lookups (new_jwks hour, []))))) \<le>
     minute div min_refresh_interval + 1"
proof (rule conjI)
  show "length (filter (\<lambda>t. minute \<le> t \<and> t \<le> minute + minute) (snd (lookups sample_lookups (new_jwks hour, [])))) = 2" by code_simp
  obtain k asked where l: "lookups sample_lookups (new_jwks hour, []) = (k, asked)" by fastforce
  show "int (length (filter (\<lambda>t. minute \<le> t \<and> t \<le> minute + minute) (snd (lookups sample_lookups (new_jwks hour, []))))) \<le>
      minute div min_refresh_interval + 1"
    unfolding l snd_conv by (rule keys_fetched_once_a_minute [OF _ _ l]) (simp_all add: sample_lookups_def duration_defs)
qed

text \<open>An expired key is held to be served while the provider is away, but not to the request that finds the provider away.\<close>

definition stale_script :: "string + (string \<times> nat) list \<Rightarrow> time \<Rightarrow> nat script" where
  "stale_script answer now = \<lparr>sc_now = now, sc_answer = answer, sc_asked = []\<rparr>"

lemma stale_key_refused_once:
  "(let k = fst (snd (jwks_key scripted ''a'' (new_jwks minute, stale_script (Inr [(''a'', 1)]) minute)));
        first = jwks_key scripted ''a'' (k, stale_script (Inl ''away'') (3 * minute));
        second = jwks_key scripted ''a'' (fst (snd first), stale_script (Inl ''away'') (3 * minute + second))
    in fst first = Inl (KeySetUnavailable ''away'') \<and> fst second = Inr [1])"
  by (simp add: jwks_key_def jwks_cached_def jwks_refresh_def begin_refresh_def scripted_def stale_script_def new_jwks_def by_key_id_def
    Let_def is_zero_time_def zero_time_def time_sub_def min_refresh_interval_def duration_defs max_int64_def min_int64_def)

subsection \<open>Who gets in\<close>

text \<open>What the JOSE library documents of its claim checks, with a tolerance \<open>d\<close>. What is not expected is not checked, and a zero
  time stands for the library's own clock.\<close>

definition claims_hold :: "duration \<Rightarrow> claims \<Rightarrow> expected \<Rightarrow> bool" where
  "claims_hold d c e \<longleftrightarrow> (ex_issuer e = [] \<or> cl_issuer c = ex_issuer e) \<and>
     (ex_audience e = [] \<or> list_ex (\<lambda>a. a \<in> set (cl_audience c)) (ex_audience e)) \<and>
     (case cl_expiry c of None \<Rightarrow> True | Some x \<Rightarrow> is_zero_time (ex_time e) \<or> ex_time e \<le> x + d)"

definition checks_claims :: "'k jose \<Rightarrow> bool" where
  "checks_claims jo \<longleftrightarrow> (\<forall>c e. jo_valid jo c e \<longrightarrow> claims_hold minute c e) \<and> (\<forall>c e d. jo_valid_leeway jo c e d \<longrightarrow> claims_hold d c e)"

text \<open>The token verifies under one of the keys held for its key id, is of this issuer and for this audience, and has not been
  over for longer than the tolerance.\<close>

definition token_of ::
    "'k jose \<Rightarrow> ('k, 'w) oidc_config \<Rightarrow> string \<Rightarrow> identity \<Rightarrow> time \<Rightarrow> 'k token \<Rightarrow> 'k list \<Rightarrow> bool" where
  "token_of jo cfg raw i now tok keys \<longleftrightarrow> jo_parse jo signature_algorithms raw = Some tok \<and>
     (\<exists>k\<in>set keys. \<exists>c. tk_claims tok k = Some c \<and> cl_issuer c = oc_issuer cfg \<and> oc_audience cfg \<in> set (cl_audience c) \<and>
        cl_expiry c = Some (id_expiry i) \<and> now \<le> id_expiry i + max minute (oc_leeway cfg) \<and>
        cl_subject c = id_subject i \<and> cl_subject c \<noteq> [] \<and> id_token i = raw)"

lemma verified_claims_Some: "verified_claims tok ks = Some c \<Longrightarrow> \<exists>k\<in>set ks. tk_claims tok k = Some c"
  by (induction ks) (auto split: option.splits)

lemma accepted_claims:
  assumes "checks_claims jo" "claims_accepted jo cfg c now" "oc_issuer cfg \<noteq> []" "\<not> is_zero_time now"
  shows "cl_issuer c = oc_issuer cfg \<and> oc_audience cfg \<in> set (cl_audience c) \<and>
    (\<forall>x. cl_expiry c = Some x \<longrightarrow> now \<le> x + max minute (oc_leeway cfg))"
  using assms by (fastforce simp: claims_accepted_def checks_claims_def claims_hold_def Let_def)

lemma validated_token:
  assumes "checks_claims jo" "oidc_validate jo cfg raw w = (Inr i, w')" "oc_issuer cfg \<noteq> []" "\<not> is_zero_time (oc_now cfg w')"
  shows "\<exists>tok kid lookup keys. oc_keys cfg = Some lookup \<and> lookup kid w = (Inr keys, w') \<and> kid = hd (tk_headers tok) \<and>
    token_of jo cfg raw i (oc_now cfg w') tok keys \<and> id_user i = []"
proof -
  obtain tok where tok: "jo_parse jo signature_algorithms raw = Some tok"
    using assms(2) by (cases "jo_parse jo signature_algorithms raw") (auto simp: oidc_validate_def fail_op_def split: if_splits)
  obtain kid rest lookup where h: "tk_headers tok = kid # rest" "oc_keys cfg = Some lookup"
    using assms(2) tok
    by (cases "tk_headers tok"; cases "oc_keys cfg") (auto simp: oidc_validate_def fail_op_def split: if_splits)
  obtain q w1 where q: "lookup kid w = (q, w1)" by fastforce
  obtain keys where keys: "q = Inr keys"
    using assms(2) tok h q by (cases q) (auto simp: oidc_validate_def try_op_def split: if_splits)
  have "raw \<noteq> []" using assms(2) by (auto simp: oidc_validate_def fail_op_def)
  then have run: "(if keys = [] then Inl (InvalidToken ''no matching key'') else case verified_claims tok keys of
      None \<Rightarrow> Inl (InvalidToken ''signature'') | Some c \<Rightarrow> token_identity jo cfg raw c (oc_now cfg w1), w1) = (Inr i, w')"
    using assms(2) by (simp add: oidc_validate_def try_op_def tok h q keys)
  obtain c where c1: "verified_claims tok keys = Some c"
    using run by (cases "verified_claims tok keys") (simp_all split: if_split_asm)
  have ne: "keys \<noteq> []" using run by auto
  note c2 = run [unfolded c1 option.case if_not_P [OF ne] prod.inject]
  obtain expiry where e: "cl_expiry c = Some expiry" "claims_accepted jo cfg c (oc_now cfg w1)" "cl_subject c \<noteq> []"
      "id_subject i = cl_subject c" "id_expiry i = expiry" "id_token i = raw" "id_user i = []"
    using conjunct1 [OF c2] by (auto simp: token_identity_def split: option.splits if_splits)
  obtain k where k: "k \<in> set keys" "tk_claims tok k = Some c" using verified_claims_Some [OF c1] by blast
  have "token_of jo cfg raw i (oc_now cfg w1) tok keys"
    unfolding token_of_def using tok k e(1,3-6) accepted_claims [OF assms(1) e(2) assms(3)] assms(4) [folded conjunct2 [OF c2]]
    by (intro conjI bexI [of _ k] exI [of _ c]) auto
  then show ?thesis using h q keys e(7) unfolding conjunct2 [OF c2]
    by (intro exI [of _ tok] exI [of _ kid] exI [of _ lookup] exI [of _ keys]) simp
qed


definition sample_claims :: claims where
  "sample_claims = \<lparr>cl_issuer = ''i'', cl_subject = ''s'', cl_audience = [''web'', ''backup''], cl_expiry = Some (2 * minute),
     cl_preferred = [], cl_name = ''Ann'', cl_email = []\<rparr>"

definition sample_jose :: "nat jose" where
  "sample_jose = \<lparr>jo_parse = (\<lambda>algs raw. Some \<lparr>tk_headers = [''a''], tk_claims = (\<lambda>k. if k = 1 then Some sample_claims else None)\<rparr>),
     jo_valid = claims_hold minute, jo_valid_leeway = (\<lambda>c e d. claims_hold d c e)\<rparr>"

definition sample_oidc :: "(nat, unit) oidc_config" where
  "sample_oidc = \<lparr>oc_issuer = ''i'', oc_audience = ''backup'', oc_keys = Some (\<lambda>kid w. (Inr [2, 1], w)), oc_leeway = minute,
     oc_now = (\<lambda>w. 3 * minute)\<rparr>"

definition sample_login :: "unit login" where
  "sample_login = \<lparr>lo_validate = Some (oidc_validate sample_jose sample_oidc), lo_user = Some (\<lambda>i w. (Inr ''u'', w))\<rparr>"

definition who_am_i :: "request \<Rightarrow> unit handler" where
  "who_am_i rq w = (write_json 200 (JStr (rq_user rq)), w)"


end
