(* ===== verification/Api_Admin.thy ===== *)
theory Api_Admin
  imports Api_Binding Api_Login Notify_Service
begin

text \<open>
  The administrator's endpoints (src/internal/api/admin.go, admintargets.go): who is an administrator, the gate in front,
  targets and their audiences, the connection check. Credentials go in sealed and never come out. Timestamps of targets are
  written in UTC. The targets store, the sealer, the checker and the random source are records of what the handlers call.
\<close>

subsection \<open>Who administers\<close>

definition default_admin_role :: string where "default_admin_role = ''71881883-1768-46bd-a24d-a356a2afdf7f''"

text \<open>Graph answers with the caller's app roles.\<close>

definition graph_is_admin :: "string \<Rightarrow> (identity \<Rightarrow> ('w, string, string list) op) \<Rightarrow> identity \<Rightarrow> ('w, string, bool) op" where
  "graph_is_admin role assigned i =
     try_op id (assigned i) (\<lambda>roles. ok_op (list_ex (\<lambda>r. r = (if role = [] then default_admin_role else role)) roles))"

definition admin_allowlist :: "string list \<Rightarrow> string list" where
  "admin_allowlist ids = filter (\<lambda>s. s \<noteq> []) (map trim_space ids)"

definition allowlist_is_admin :: "string list \<Rightarrow> identity \<Rightarrow> ('w, string, bool) op" where
  "allowlist_is_admin ids i = ok_op (id_user i \<noteq> [] \<and> id_user i \<in> set (admin_allowlist ids))"

text \<open>A resolver that fails makes nobody an administrator.\<close>

definition resolve_admin ::
    "(identity \<Rightarrow> ('w, string, bool) op) option \<Rightarrow> (request \<Rightarrow> 'w handler) \<Rightarrow> request \<Rightarrow> 'w handler" where
  "resolve_admin resolver handler rq w =
     (case rq_identity rq of
        None \<Rightarrow> (write_error 401 ''unauthorized'' ''missing identity'', w)
      | Some i \<Rightarrow>
         (case resolver of
            None \<Rightarrow> handler (rq\<lparr>rq_admin := False\<rparr>) w
          | Some f \<Rightarrow> (case f i w of (q, w) \<Rightarrow> handler (rq\<lparr>rq_admin := (q = Inr True)\<rparr>) w)))"

definition require_admin :: "(request \<Rightarrow> 'w handler) \<Rightarrow> request \<Rightarrow> 'w handler" where
  "require_admin handler rq w =
     (if \<not> rq_admin rq then (write_error 403 ''forbidden'' ''admin role required'', w) else handler rq w)"

subsection \<open>Requests\<close>

definition max_admin_request_bytes :: nat where "max_admin_request_bytes = 16384"

record target_request =
  tq_name :: string
  tq_endpoint :: string
  tq_region :: string
  tq_bucket :: string
  tq_prefix :: string
  tq_path_style :: bool
  tq_disable_tls :: bool
  tq_creds :: "plain_creds option"
  tq_maintenance :: "plain_creds option"

record grant_dto =
  gd_scope :: string
  gd_user :: string
  gd_space :: string

record 'w targets_ops =
  to_list :: "('w, target_error, target list) op"
  to_get :: "string \<Rightarrow> ('w, target_error, target) op"
  to_create :: "target \<Rightarrow> ('w, target_error, target) op"
  to_update :: "target \<Rightarrow> ('w, target_error, target) op"
  to_delete :: "string \<Rightarrow> ('w, target_error, unit) op"
  to_grants :: "string \<Rightarrow> ('w, target_error, grant list) op"
  to_replace :: "string \<Rightarrow> grant list \<Rightarrow> ('w, target_error, unit) op"

record 'w admin_api =
  aa_gate :: "'w gate"
  aa_targets :: "'w targets_ops option"
  aa_seal :: "(credential_set \<Rightarrow> ('w, cred_error, bytes \<times> int) op) option"
  aa_configs :: "('w, cfg_error, space_config list \<times> string list) op option"
  aa_check :: "(s3_config \<Rightarrow> string \<Rightarrow> 'w \<Rightarrow> string \<times> 'w) option"
  aa_random :: "'w random"
  aa_target_body :: "target_request body_decoder"
  aa_grants_body :: "grant_dto list option body_decoder"

definition plain_of :: "plain_creds option \<Rightarrow> plain_creds" where
  "plain_of c = (case c of None \<Rightarrow> no_creds | Some c \<Rightarrow> \<lparr>pc_id = trim_space (pc_id c), pc_secret = pc_secret c\<rparr>)"

definition validate_target :: "bool \<Rightarrow> target_request \<Rightarrow> string option" where
  "validate_target require_creds q =
     (if trim_space (tq_name q) = [] then Some ''name is required''
      else if trim_space (tq_endpoint q) = [] then Some ''endpoint is required''
      else if trim_space (tq_bucket q) = [] then Some ''bucket is required''
      else if tq_creds q = None \<and> tq_maintenance q \<noteq> None
      then Some ''maintenance credentials cannot be set on their own; send both pairs or neither''
      else if tq_creds q = None \<and> require_creds then Some ''credentials are required''
      else if tq_creds q \<noteq> None \<and> \<not> creds_complete (plain_of (tq_creds q))
      then Some ''credentials need both an access key id and a secret access key''
      else if tq_maintenance q \<noteq> None \<and> \<not> creds_complete (plain_of (tq_maintenance q))
      then Some ''maintenance credentials need both an access key id and a secret access key''
      else None)"

definition bad_request :: "string \<Rightarrow> response" where
  "bad_request = write_error 400 ''bad_request''"

definition target_request_of :: "'w admin_api \<Rightarrow> bool \<Rightarrow> request \<Rightarrow> ('w, target_request) step" where
  "target_request_of api require_creds rq =
     try_op id (body_of (aa_gate api) (aa_target_body api) max_admin_request_bytes rq) (\<lambda>q.
       require_op (map_option bad_request (validate_target require_creds q)) (ok_op q))"

definition target_missing :: response where "target_missing = write_error 404 ''not_found'' ''no such target''"

definition targets_unavailable :: response where "targets_unavailable = unavailable ''target administration is not available''"

definition sealer_unavailable :: response where
  "sealer_unavailable = unavailable ''target credentials cannot be stored: no target-wrap key is configured''"

definition target_failure :: "string \<Rightarrow> target_error \<Rightarrow> response" where
  "target_failure message e = (case e of NoTarget _ \<Rightarrow> target_missing | _ \<Rightarrow> internal_error message e)"

definition load_target :: "'w targets_ops \<Rightarrow> request \<Rightarrow> ('w, target) step" where
  "load_target st rq =
     refuse_if (rq_target rq = []) target_missing (try_op (target_failure ''could not read target'') (to_get st (rq_target rq)) ok_op)"

definition seal_request ::
    "(credential_set \<Rightarrow> ('w, cred_error, bytes \<times> int) op) \<Rightarrow> target_request \<Rightarrow> ('w, bytes \<times> int) step" where
  "seal_request seal q =
     try_op (internal_error ''could not store credentials'')
       (seal \<lparr>cs_backup = plain_of (tq_creds q), cs_maintenance = plain_of (tq_maintenance q)\<rparr>) ok_op"

definition new_target_id :: "'w random \<Rightarrow> ('w, string) step" where
  "new_target_id random = try_op (internal_error ''could not create target'') (random 16) (\<lambda>b. ok_op (hex_string b))"

subsection \<open>Answers\<close>

text \<open>\<open>time.Time\<close> as JSON, left out when zero.\<close>

definition json_time :: "time \<Rightarrow> string" where
  "json_time t =
     (let seconds = butlast (format_time t);
          fraction = rev (dropWhile (\<lambda>c. c = CHR ''0'') (rev (append_int 9 (t mod second)))) in
      if is_zero_time t then [] else seconds @ (if fraction = [] then [] else ''.'' @ fraction) @ ''Z'')"

definition admin_target_json :: "target \<Rightarrow> json" where
  "admin_target_json t = JObj ([(''id'', JStr (tg_id t)), (''name'', JStr (tg_name t)), (''endpoint'', JStr (tg_endpoint t))] @
     opt_str ''region'' (tg_region t) @ [(''bucket'', JStr (tg_bucket t))] @ opt_str ''prefix'' (tg_prefix t) @
     [(''use_path_style'', JBool (tg_path_style t)), (''disable_tls'', JBool (tg_disable_tls t)),
      (''maintenance_configured'', JBool (tg_maintenance t))] @
     opt_str ''created_at'' (json_time (tg_created t)) @ opt_str ''updated_at'' (json_time (tg_updated t)))"

definition scope_to_wire :: "int \<Rightarrow> string" where
  "scope_to_wire s = (if s = scope_all_users then ''all_users'' else if s = scope_user then ''user''
     else if s = scope_space then ''space'' else [])"

definition scope_from_wire :: "string \<Rightarrow> int option" where
  "scope_from_wire s = (if s = ''all_users'' then Some scope_all_users else if s = ''user'' then Some scope_user
     else if s = ''space'' then Some scope_space else None)"

definition grants_json :: "grant list \<Rightarrow> json" where
  "grants_json gs = JObj [(''grants'', JList (map (\<lambda>g. JObj ([(''scope'', JStr (scope_to_wire (gr_scope g)))] @
     opt_str ''user_id'' (gr_user g) @ opt_str ''space_id'' (gr_space g))) (filter (\<lambda>g. scope_to_wire (gr_scope g) \<noteq> []) gs)))]"

subsection \<open>Targets\<close>

text \<open>Ordered by name, then id: a stable sort by name of a sort by id.\<close>

definition handle_admin_list_targets :: "'w admin_api \<Rightarrow> request \<Rightarrow> 'w handler" where
  "handle_admin_list_targets api rq = respond
     (try_op id (present_or targets_unavailable (aa_targets api)) (\<lambda>st.
      try_op (internal_error ''could not list targets'') (to_list st) (\<lambda>all.
      ok_op (write_json 200 (JObj [(''targets'', JList (map admin_target_json (sort_key tg_name (sort_key tg_id all))))])))))"

definition handle_admin_get_target :: "'w admin_api \<Rightarrow> request \<Rightarrow> 'w handler" where
  "handle_admin_get_target api rq = respond
     (try_op id (present_or targets_unavailable (aa_targets api)) (\<lambda>st.
      try_op id (load_target st rq) (\<lambda>t. ok_op (write_json 200 (admin_target_json t)))))"

definition requested_target :: "string \<Rightarrow> target_request \<Rightarrow> bytes \<Rightarrow> int \<Rightarrow> bool \<Rightarrow> time \<Rightarrow> time \<Rightarrow> target" where
  "requested_target i q wrapped version maintenance created updated =
     \<lparr>tg_id = i, tg_name = trim_space (tq_name q), tg_endpoint = trim_space (tq_endpoint q), tg_region = trim_space (tq_region q),
      tg_bucket = trim_space (tq_bucket q), tg_prefix = tq_prefix q, tg_path_style = tq_path_style q,
      tg_disable_tls = tq_disable_tls q, tg_wrapped = wrapped, tg_created = created, tg_updated = updated,
      tg_version = version, tg_maintenance = maintenance\<rparr>"

definition handle_admin_create_target :: "'w admin_api \<Rightarrow> request \<Rightarrow> 'w handler" where
  "handle_admin_create_target api rq = respond
     (try_op id (present_or targets_unavailable (aa_targets api)) (\<lambda>st.
      try_op id (present_or sealer_unavailable (aa_seal api)) (\<lambda>seal.
      try_op id (target_request_of api True rq) (\<lambda>q.
      try_op id (seal_request seal q) (\<lambda>(wrapped, version).
      try_op id (new_target_id (aa_random api)) (\<lambda>i w.
        let now = ga_now (aa_gate api) w in
        try_op (internal_error ''could not store target'')
          (to_create st (requested_target i q wrapped version (creds_complete (plain_of (tq_maintenance q))) now now))
          (\<lambda>t. ok_op (write_json 201 (admin_target_json t))) w))))))"

text \<open>No credentials in the request: an empty blob tells the store to keep what it has.\<close>

definition handle_admin_update_target :: "'w admin_api \<Rightarrow> request \<Rightarrow> 'w handler" where
  "handle_admin_update_target api rq = respond
     (try_op id (present_or targets_unavailable (aa_targets api)) (\<lambda>st.
      try_op id (load_target st rq) (\<lambda>existing.
      try_op id (target_request_of api False rq) (\<lambda>q w.
        let now = ga_now (aa_gate api) w in
        try_op id (case tq_creds q of
            None \<Rightarrow> ok_op (requested_target (tg_id existing) q [] 0 (tg_maintenance existing) (tg_created existing) now)
          | Some c \<Rightarrow>
              try_op id (present_or sealer_unavailable (aa_seal api)) (\<lambda>seal.
              try_op id (seal_request seal q) (\<lambda>(wrapped, version).
                ok_op (requested_target (tg_id existing) q wrapped version (creds_complete (plain_of (tq_maintenance q)))
                  (tg_created existing) now))))
          (\<lambda>t. try_op (target_failure ''could not store target'') (to_update st t) (\<lambda>stored. ok_op (write_json 200 (admin_target_json stored)))) w))))"

text \<open>Configurations that cannot be read count as a failure, not as none.\<close>

definition count_spaces_using :: "'w admin_api \<Rightarrow> string \<Rightarrow> ('w, nat) step" where
  "count_spaces_using api t =
     (let unsure = unavailable ''could not determine whether this target is still in use'' in
      try_op id (present_or unsure (aa_configs api)) (\<lambda>configs.
      try_op (\<lambda>_. unsure) configs (\<lambda>(cs, unreadable).
        if unreadable \<noteq> [] then fail_op unsure else ok_op (length (filter (\<lambda>c. cfg_target c = t) cs)))))"

definition target_in_use :: "nat \<Rightarrow> response" where
  "target_in_use n = write_error 409 ''target_in_use''
     (dec_digits n @ '' space(s) still back up to this target; point them elsewhere first'')"

definition no_content :: response where "no_content = \<lparr>rs_status = 204, rs_body = None\<rparr>"

definition handle_admin_delete_target :: "'w admin_api \<Rightarrow> request \<Rightarrow> 'w handler" where
  "handle_admin_delete_target api rq = respond
     (try_op id (present_or targets_unavailable (aa_targets api)) (\<lambda>st.
      refuse_if (rq_target rq = []) target_missing
      (try_op id (count_spaces_using api (rq_target rq)) (\<lambda>n.
       refuse_if (n > 0) (target_in_use n)
       (try_op (target_failure ''could not delete target'') (to_delete st (rq_target rq)) (\<lambda>_. ok_op no_content))))))"

subsection \<open>Audiences\<close>

definition handle_admin_list_grants :: "'w admin_api \<Rightarrow> request \<Rightarrow> 'w handler" where
  "handle_admin_list_grants api rq = respond
     (try_op id (present_or targets_unavailable (aa_targets api)) (\<lambda>st.
      try_op id (load_target st rq) (\<lambda>t.
      try_op (internal_error ''could not read grants'') (to_grants st (tg_id t)) (\<lambda>gs. ok_op (write_json 200 (grants_json gs))))))"

definition scope_message :: string where
  "scope_message = ''scope must be one of \"all_users\", \"user\", \"space\"''"

definition grant_message :: "target_error \<Rightarrow> string" where
  "grant_message e = (case e of BadGrant m \<Rightarrow> m | _ \<Rightarrow> ''grant is not valid'')"

fun requested_grants :: "string \<Rightarrow> grant_dto list \<Rightarrow> string + grant list" where
  "requested_grants t [] = Inr []"
| "requested_grants t (d # ds) =
     (case scope_from_wire (gd_scope d) of
        None \<Rightarrow> Inl scope_message
      | Some scope \<Rightarrow>
         (let g = \<lparr>gr_target = t, gr_scope = scope, gr_user = trim_space (gd_user d), gr_space = trim_space (gd_space d)\<rparr> in
          case grant_validate g of
            Some e \<Rightarrow> Inl (grant_message e)
          | None \<Rightarrow> (case requested_grants t ds of Inl e \<Rightarrow> Inl e | Inr gs \<Rightarrow> Inr (g # gs))))"

definition handle_admin_replace_grants :: "'w admin_api \<Rightarrow> request \<Rightarrow> 'w handler" where
  "handle_admin_replace_grants api rq = respond
     (try_op id (present_or targets_unavailable (aa_targets api)) (\<lambda>st.
      try_op id (load_target st rq) (\<lambda>t.
      try_op id (body_of (aa_gate api) (aa_grants_body api) max_admin_request_bytes rq) (\<lambda>body.
      try_op id (present_or (bad_request ''grants is required; send an empty list to revoke the target from everyone'') body) (\<lambda>ds.
      try_op id (pass (map_sum bad_request id (requested_grants (tg_id t) ds))) (\<lambda>gs.
      try_op (internal_error ''could not store grants'') (to_replace st (tg_id t) gs) (\<lambda>_.
      try_op (internal_error ''could not read grants'') (to_grants st (tg_id t)) (\<lambda>stored.
      ok_op (write_json 200 (grants_json stored))))))))))"

subsection \<open>The connection check\<close>

text \<open>Only what the request itself carries is tried.\<close>

definition check_role :: "(s3_config \<Rightarrow> string \<Rightarrow> 'w \<Rightarrow> string \<times> 'w) \<Rightarrow> target_request \<Rightarrow> plain_creds \<Rightarrow> 'w \<Rightarrow> string \<times> 'w" where
  "check_role check q c = check \<lparr>s3_endpoint = trim_space (tq_endpoint q), s3_region = trim_space (tq_region q),
     s3_bucket = trim_space (tq_bucket q), s3_access = pc_id c, s3_secret = pc_secret c, s3_path_style = tq_path_style q,
     s3_disable_tls = tq_disable_tls q\<rparr> (tq_prefix q)"

definition check_json :: "string \<Rightarrow> string \<Rightarrow> json" where
  "check_json role outcome = JObj [(''role'', JStr role), (''outcome'', JStr outcome)]"

definition handle_admin_check_target :: "'w admin_api \<Rightarrow> request \<Rightarrow> 'w handler" where
  "handle_admin_check_target api rq = respond
     (try_op id (present_or (unavailable ''target checks are not available'') (aa_check api)) (\<lambda>check.
      try_op id (target_request_of api True rq) (\<lambda>q w.
        case check_role check q (plain_of (tq_creds q)) w of
          (backup, w) \<Rightarrow>
            if creds_complete (plain_of (tq_maintenance q))
            then (case check_role check q (plain_of (tq_maintenance q)) w of
                (maintenance, w) \<Rightarrow> (Inr (write_json 200 (JObj [(''results'',
                  JList [check_json ''backup'' backup, check_json ''maintenance'' maintenance])])), w))
            else (Inr (write_json 200 (JObj [(''results'', JList [check_json ''backup'' backup])])), w))))"

subsection \<open>A target in use\<close>

text \<open>Some Space's newest configuration names the target, or cannot be read.\<close>

definition may_be_used :: "('s, 'v, space_config) versions \<Rightarrow> (string \<rightharpoonup> 'v) \<Rightarrow> string \<Rightarrow> bool" where
  "may_be_used v m t \<longleftrightarrow> (\<exists>k n. k \<in> record_keys m (d_prefix (v_docs v)) \<and> version_nanos k = Some n \<and>
     (\<forall>k' n'. k' \<in> record_keys m (d_prefix (v_docs v)) \<longrightarrow> go_dir k' = go_dir k \<longrightarrow> version_nanos k' = Some n' \<longrightarrow>
        (\<forall>j i. j \<in> record_keys m (d_prefix (v_docs v)) \<longrightarrow> go_dir j = go_dir k \<longrightarrow> version_nanos j = Some i \<longrightarrow> i \<le> n') \<longrightarrow>
        (case doc_at (v_docs v) m k' of Some c \<Rightarrow> cfg_target c = t | None \<Rightarrow> True)))"

lemma unused_after_count:
  assumes "reversible enc dec" "cfg_list (service_configs enc dec) s = (Inr (cs, []), s')" "list_all (\<lambda>c. cfg_target c \<noteq> t) cs"
  shows "\<not> may_be_used (service_configs enc dec) (backend_view s) t"
proof
  let ?v = "service_configs enc dec"
  note ver = service_versioned [OF assms(1), of config_prefix legacy_config_prefix, folded service_configs_def]
  assume "may_be_used ?v (backend_view s) t"
  then obtain k n where k: "k \<in> record_keys (backend_view s) (d_prefix (v_docs ?v))" "version_nanos k = Some n"
    and newest: "\<And>k' n'. k' \<in> record_keys (backend_view s) (d_prefix (v_docs ?v)) \<Longrightarrow> go_dir k' = go_dir k \<Longrightarrow> version_nanos k' = Some n' \<Longrightarrow>
        (\<forall>j i. j \<in> record_keys (backend_view s) (d_prefix (v_docs ?v)) \<longrightarrow> go_dir j = go_dir k \<longrightarrow> version_nanos j = Some i \<longrightarrow> i \<le> n') \<Longrightarrow>
        (case doc_at (v_docs ?v) (backend_view s) k' of Some c \<Rightarrow> cfg_target c = t | None \<Rightarrow> True)"
    unfolding may_be_used_def by blast
  obtain vals where l: "versions_latest ?v s = (Inr (vals, []), s')" "set cs = set vals"
    using assms(2) by (auto simp: cfg_list_def split: prod.splits sum.splits)
  obtain k' n' where k': "k' \<in> record_keys (backend_view s) (d_prefix (v_docs ?v))" "go_dir k' = go_dir k" "version_nanos k' = Some n'"
    "\<forall>j\<in>record_keys (backend_view s) (d_prefix (v_docs ?v)). \<forall>m. go_dir j = go_dir k \<longrightarrow> version_nanos j = Some m \<longrightarrow> m \<le> n'"
    "case doc_at (v_docs ?v) (backend_view s) k' of Some x \<Rightarrow> x \<in> set vals | None \<Rightarrow> k' \<in> set []"
    using versioned.versions_latest_complete [OF ver l(1) k] by blast
  have "case doc_at (v_docs ?v) (backend_view s) k' of Some c \<Rightarrow> cfg_target c = t | None \<Rightarrow> True"
    by (rule newest [OF k'(1-3)]) (use k'(4) in blast)
  then show False using k'(5) l(2) assms(3) by (auto simp: list_all_iff split: option.splits)
qed

lemma service_config_stores:
  "d_store (v_docs (service_configs enc dec)) = backend_store" "\<forall>l. v_legacy (service_configs enc dec) = Some l \<longrightarrow> d_store l = backend_store"
  by (simp_all add: service_configs_def service_versions_def with_legacy_def new_versions_def new_documents_def)

lemma cfg_list_view: "cfg_list (service_configs enc dec) s = (q, s') \<Longrightarrow> backend_view s' = backend_view s"
  by (auto simp: cfg_list_def split: prod.splits sum.splits dest: backend.latest_reads [OF service_config_stores])

text \<open>C37: A target that may be in use is not deleted. While some Space's newest configuration names the target, or
  cannot be read, an administrator's request to delete it is refused and no document changes, whichever store operations
  fail. Configurations are those in the layout the service writes, one record of versions per Space.\<close>

theorem used_target_is_kept:
  assumes "reversible enc dec" "aa_configs api = Some (cfg_list (service_configs enc dec))"
    and "may_be_used (service_configs enc dec) (backend_view s) (rq_target rq)"
    and "handle_admin_delete_target api rq s = (r, s')"
  shows "rs_status r \<in> {404, 409, 503} \<and> backend_view s' = backend_view s"
proof (cases "aa_targets api = None \<or> rq_target rq = []")
  case True
  then show ?thesis
    using assms(4)
    by (auto simp: handle_admin_delete_target_def respond_def try_op_def present_or_def fail_op_def refuse_if_def ok_op_def
        targets_unavailable_def unavailable_def target_missing_def write_error_def write_json_def split: option.splits)
next
  case False
  then obtain st where st: "aa_targets api = Some st" "rq_target rq \<noteq> []" by auto
  obtain q s1 where l: "cfg_list (service_configs enc dec) s = (q, s1)" by fastforce
  have v: "backend_view s1 = backend_view s" by (rule cfg_list_view [OF l])
  note run = assms(4) [unfolded handle_admin_delete_target_def count_spaces_using_def Let_def st(1) assms(2) try_present]
  show ?thesis
  proof (cases "\<exists>cs. q = Inr (cs, [])")
    case False
    then show ?thesis
      using run l v st(2)
      by (cases q) (auto simp: respond_def try_op_def refuse_if_def fail_op_def unavailable_def write_error_def write_json_def split: if_splits)
  next
    case True
    then obtain cs where cs: "q = Inr (cs, [])" by blast
    have "\<not> list_all (\<lambda>c. cfg_target c \<noteq> rq_target rq) cs" using unused_after_count [OF assms(1) l [unfolded cs]] assms(3) by blast
    then have "length (filter (\<lambda>c. cfg_target c = rq_target rq) cs) > 0" by (auto simp: list_all_iff filter_empty_conv)
    then show ?thesis
      using run l v st(2) cs
      by (auto simp: respond_def try_op_def refuse_if_def fail_op_def ok_op_def target_in_use_def write_error_def write_json_def split: if_splits)
  qed
qed

text \<open>The Space \<open>a\<close> is configured to back up to \<open>t\<close>.\<close>

definition bound_world :: "bound_doc backend" where
  "bound_world = \<lparr>contents = (''spaceconfigs/a/0000000000000000009'', Inl (bound_config 30)) # contents (granted_world []), faults = []\<rparr>"

definition service_targets_ops :: "('s, 'v) target_store \<Rightarrow> time \<Rightarrow> 's targets_ops" where
  "service_targets_ops ts now = \<lparr>to_list = list_targets ts, to_get = get_target ts, to_create = create_target ts now,
     to_update = update_target ts now, to_delete = delete_target ts, to_grants = list_grants ts, to_replace = replace_grants ts now\<rparr>"

definition sample_admin_api :: "bound_doc backend admin_api" where
  "sample_admin_api =
     \<lparr>aa_gate = owner_gate,
      aa_targets = Some (service_targets_ops (service_targets bd_target bd_target_of bd_grants bd_grants_of) 9),
      aa_seal = None, aa_configs = Some (cfg_list (service_configs bd_config bd_config_of)), aa_check = None,
      aa_random = (\<lambda>n w. (Inr (replicate n 5), w)), aa_target_body = (\<lambda>n b. (FirstMalformed, AtEnd)),
      aa_grants_body = (\<lambda>n b. (FirstMalformed, AtEnd))\<rparr>"

theorem used_target_is_kept_witness:
  "\<exists>r s. handle_admin_delete_target sample_admin_api (owner_request\<lparr>rq_target := ''t''\<rparr>) bound_world = (r, s) \<and>
     rs_status r = 409 \<and> backend_view s = backend_view bound_world"
proof -
  let ?rq = "owner_request\<lparr>rq_target := ''t''\<rparr>" and ?v = "service_configs bd_config bd_config_of"
  let ?k = "''spaceconfigs/a/0000000000000000009''"
  obtain r s where h: "handle_admin_delete_target sample_admin_api ?rq bound_world = (r, s)" by fastforce
  have code: "rs_status (fst (handle_admin_delete_target sample_admin_api ?rq bound_world)) = 409" by code_simp
  have prefix: "d_prefix (v_docs ?v) = ''spaceconfigs''"
    by (simp add: service_configs_def service_versions_def with_legacy_def new_versions_def new_documents_def config_prefix_def)
  have records: "record_keys (backend_view bound_world) ''spaceconfigs'' = {?k}"
    by (auto simp: record_keys_def backend_view_def bound_world_def granted_world_def has_segment_prefix_iff split: if_splits)
  have stamp: "version_nanos ?k = Some 9" by code_simp
  have doc: "doc_at (v_docs ?v) (backend_view bound_world) ?k = Some (bound_config 30)"
    by (simp add: doc_at_def backend_view_def bound_world_def service_configs_def service_versions_def with_legacy_def
        new_versions_def new_documents_def bd_config_of_def)
  have used: "may_be_used ?v (backend_view bound_world) (rq_target ?rq)"
    unfolding may_be_used_def prefix records using stamp doc by (auto simp: bound_config_def)
  have "backend_view s = backend_view bound_world"
    using used_target_is_kept [OF bd_reversible(1) _ used h] by (simp add: sample_admin_api_def)
  then show ?thesis using h code by auto
qed

end
